(* ===== verification/Prelude.thy ===== *)
theory Prelude
  imports Main "HOL-Library.Word"
begin

unbundle bit_operations_syntax

text \<open>
  Shared vocabulary of the development: the machine integers of the Go code as fixed-width
  words, the big-endian conversions between bytes and words that SM3, SM4 and SM9 all use,
  and the generic lemmas on carries, lists and modular arithmetic that the component theories
  build on.

  Go shifts \<open>x << n\<close> and \<open>x >> n\<close> on unsigned integers are \<open>push_bit n x\<close> and \<open>drop_bit n x\<close>;
  \<open>^x\<close> is \<open>NOT x\<close>, \<open>x &^ y\<close> is \<open>x AND NOT y\<close>; a conversion to an unsigned type is \<open>ucast\<close>.
\<close>

type_synonym byte = "8 word"
type_synonym u32 = "32 word"
type_synonym u64 = "64 word"

named_theorems word_val \<comment> \<open>unsigned values of word expressions\<close>
named_theorems inv_intro \<comment> \<open>preservation of component invariants\<close>

text \<open>
  Loops with constant bounds are folds over \<open>[m..<n]\<close>; unrolling them is left to the proofs that
  evaluate a concrete run.
\<close>

declare upt_rec_numeral [simp del]

lemma and_not_mask_int: "a AND NOT (mask n) = a - a mod 2 ^ n" for a :: int
proof -
  have "a AND NOT (mask n) = push_bit n (drop_bit n a)"
    by (rule bit_eqI) (auto simp: bit_simps)
  moreover have "push_bit n (drop_bit n a) + take_bit n a = a" by (rule bits_ident)
  ultimately show ?thesis by (simp add: take_bit_eq_mod)
qed

lemma foldl_upt_invariant:
  assumes "I m s" "m \<le> n" "\<And>k s. m \<le> k \<Longrightarrow> k < n \<Longrightarrow> I k s \<Longrightarrow> I (Suc k) (f s k)"
  shows "I n (foldl f s [m..<n])"
  using assms(2) assms(3)
proof (induction rule: dec_induct)
  case (step k)
  then have "I k (foldl f s [m..<k])" by simp
  then show ?case using step by simp
qed (simp add: assms(1))

section \<open>Big-endian bytes and words\<close>

definition be32 :: "byte \<Rightarrow> byte \<Rightarrow> byte \<Rightarrow> byte \<Rightarrow> u32" where
  "be32 b0 b1 b2 b3 =
     push_bit 24 (ucast b0) OR push_bit 16 (ucast b1) OR push_bit 8 (ucast b2) OR ucast b3"

definition be32_bytes :: "u32 \<Rightarrow> byte list" where
  "be32_bytes s =
     [ucast (drop_bit 24 s), ucast (drop_bit 16 s), ucast (drop_bit 8 s), ucast s]"

lemma length_be32_bytes [simp]: "length (be32_bytes s) = 4"
  by (simp add: be32_bytes_def)

lemma be32_of_bytes [simp]:
  "be32 (ucast (drop_bit 24 s)) (ucast (drop_bit 16 s)) (ucast (drop_bit 8 s)) (ucast s) = s"
proof (rule bit_word_eqI)
  fix n assume n: "n < LENGTH(32)"
  consider "n < 8" | "8 \<le> n" "n < 16" | "16 \<le> n" "n < 24" | "24 \<le> n" by linarith
  then show "bit (be32 (ucast (drop_bit 24 s)) (ucast (drop_bit 16 s)) (ucast (drop_bit 8 s)) (ucast s)) n
    = bit s n"
    by cases (use n in \<open>auto simp: be32_def bit_or_iff bit_push_bit_iff bit_ucast_iff bit_drop_bit_eq\<close>)
qed

lemma be32_bytes_be32 [simp]: "be32_bytes (be32 b0 b1 b2 b3) = [b0, b1, b2, b3]"
proof -
  have "ucast (drop_bit 24 (be32 b0 b1 b2 b3)) = b0"
    by (rule bit_word_eqI)
      (auto simp: be32_def bit_or_iff bit_push_bit_iff bit_ucast_iff bit_drop_bit_eq
        dest: bit_imp_le_length)
  moreover have "ucast (drop_bit 16 (be32 b0 b1 b2 b3)) = b1"
    by (rule bit_word_eqI)
      (auto simp: be32_def bit_or_iff bit_push_bit_iff bit_ucast_iff bit_drop_bit_eq
        dest: bit_imp_le_length)
  moreover have "ucast (drop_bit 8 (be32 b0 b1 b2 b3)) = b2"
    by (rule bit_word_eqI)
      (auto simp: be32_def bit_or_iff bit_push_bit_iff bit_ucast_iff bit_drop_bit_eq
        dest: bit_imp_le_length)
  moreover have "ucast (be32 b0 b1 b2 b3) = b3"
    by (rule bit_word_eqI)
      (auto simp: be32_def bit_or_iff bit_push_bit_iff bit_ucast_iff bit_drop_bit_eq
        dest: bit_imp_le_length)
  ultimately show ?thesis by (simp add: be32_bytes_def)
qed

section \<open>Rotations\<close>

lemma push_drop_word_rotl:
  fixes x :: "'a::len word"
  assumes "n \<le> LENGTH('a)"
  shows "push_bit n x OR drop_bit (LENGTH('a) - n) x = word_rotl n x"
proof (rule bit_word_eqI)
  fix i assume i: "i < LENGTH('a)"
  show "bit (push_bit n x OR drop_bit (LENGTH('a) - n) x) i = bit (word_rotl n x) i"
  proof (cases "n = LENGTH('a)")
    case True
    with i show ?thesis by (auto simp: bit_or_iff bit_push_bit_iff bit_drop_bit_eq bit_word_rotl_iff)
  next
    case False
    with assms have n: "n < LENGTH('a)" by simp
    show ?thesis
    proof (cases "i < n")
      case True
      then have "(i + (LENGTH('a) - n)) mod LENGTH('a) = i + (LENGTH('a) - n)"
        using n by (intro mod_less) linarith
      then show ?thesis using i n True
        by (auto simp: bit_or_iff bit_push_bit_iff bit_drop_bit_eq bit_word_rotl_iff ac_simps)
    next
      case False
      then have "(i + (LENGTH('a) - n)) mod LENGTH('a) = i - n"
        using n i by (subst mod_if) auto
      moreover have "\<not> bit x (LENGTH('a) - n + i)"
        using False n by (auto dest: bit_imp_le_length)
      ultimately show ?thesis using i n False
        by (auto simp: bit_or_iff bit_push_bit_iff bit_drop_bit_eq bit_word_rotl_iff ac_simps)
    qed
  qed
qed

lemma push_drop_xor:
  fixes x :: "'a::len word"
  assumes "n \<le> LENGTH('a)"
  shows "push_bit n x XOR drop_bit (LENGTH('a) - n) x = push_bit n x OR drop_bit (LENGTH('a) - n) x"
proof (rule bit_word_eqI)
  fix i assume "i < LENGTH('a)"
  have "\<not> (n \<le> i \<and> bit x (LENGTH('a) - n + i))"
    using assms by (auto dest: bit_imp_le_length)
  then show "bit (push_bit n x XOR drop_bit (LENGTH('a) - n) x) i
    = bit (push_bit n x OR drop_bit (LENGTH('a) - n) x) i"
    by (auto simp: bit_or_iff bit_xor_iff bit_push_bit_iff bit_drop_bit_eq)
qed

section \<open>The streaming-hash interface\<close>

text \<open>
  What the clients of \<open>hash.Hash\<close> rely on: a fresh object has absorbed the empty message, \<open>Write\<close>
  appends its argument to the absorbed message, and \<open>Sum\<close> appends the hash of the absorbed message
  to its argument (and never panics). \<open>repr d m\<close> says that the object \<open>d\<close> has absorbed \<open>m\<close>.
\<close>

locale streaming_hash =
  fixes new :: "'d" and absorb :: "'d \<Rightarrow> byte list \<Rightarrow> 'd"
    and digest :: "'d \<Rightarrow> byte list \<Rightarrow> byte list option"
    and hash :: "byte list \<Rightarrow> byte list" and repr :: "'d \<Rightarrow> byte list \<Rightarrow> bool"
  assumes repr_new: "repr new []"
    and repr_write: "repr d m \<Longrightarrow> repr (absorb d p) (m @ p)"
    and sum_repr: "repr d m \<Longrightarrow> digest d inp = Some (inp @ hash m)"
begin

lemma repr_writes: "repr d m \<Longrightarrow> repr (foldl absorb d ps) (m @ concat ps)"
proof (induction ps arbitrary: d m)
  case (Cons p ps)
  from repr_write [OF Cons.prems] have "repr (foldl absorb (absorb d p) ps) ((m @ p) @ concat ps)"
    by (rule Cons.IH)
  then show ?case by simp
qed simp

lemma sum_writes: "digest (foldl absorb new ps) inp = Some (inp @ hash (concat ps))"
  using repr_writes [OF repr_new, of ps] by (simp add: sum_repr)

lemma sum_chunking:
  "concat ps = concat qs \<Longrightarrow> digest (foldl absorb new ps) inp = digest (foldl absorb new qs) inp"
  by (simp add: sum_writes)

end

end
