(* ===== verification/Sm3.thy ===== *)
theory Sm3
  imports Prelude
begin

text \<open>
  The SM3 hash, package \<open>sm3\<close>: the compression loop \<open>blockGeneric\<close> of \<open>sm3block.go\<close> and the
  buffering \<open>digest\<close> object of \<open>sm3.go\<close> (\<open>Reset\<close>, \<open>Write\<close>, \<open>Sum\<close>, \<open>checkSum\<close>). \<open>block\<close> is
  \<open>blockGeneric\<close>, as in the build without assembly (\<open>sm3block_generic.go\<close>) and on amd64 without
  AVX2; the assembly routine is not modelled.

  The fields \<open>h\<close>, \<open>x\<close>, \<open>nx\<close>, \<open>len\<close> of the struct carry the prefix \<open>d_\<close>. The fixed arrays are
  lists, \<open>h\<close> of 8 words and \<open>x\<close> of 64 bytes (invariant \<open>absorbed\<close>); \<open>len\<close> is the wrapping 64-bit
  byte counter. The panic of \<open>checkSum\<close> is \<open>None\<close>.
\<close>

section \<open>The compression function of \<open>sm3block.go\<close>\<close>

definition chunk :: nat where
  "chunk = 64"

definition sm3Rotl :: "u32 \<Rightarrow> u32 \<Rightarrow> u32" where
  "sm3Rotl x n = push_bit (unat (n mod 32)) x OR drop_bit (unat (32 - n mod 32)) x"

definition sm3P0 :: "u32 \<Rightarrow> u32" where
  "sm3P0 x = x XOR sm3Rotl x 9 XOR sm3Rotl x 17"

definition sm3P1 :: "u32 \<Rightarrow> u32" where
  "sm3P1 x = x XOR sm3Rotl x 15 XOR sm3Rotl x 23"

definition sm3T :: "nat \<Rightarrow> u32" where
  "sm3T j = (if j \<ge> 16 then 0x7A879D8A else 0x79CC4519)"

definition sm3FF :: "u32 \<Rightarrow> u32 \<Rightarrow> u32 \<Rightarrow> nat \<Rightarrow> u32" where
  "sm3FF x y z j = (if j \<ge> 16 then (x OR y) AND (x OR z) AND (y OR z) else x XOR y XOR z)"

definition sm3GG :: "u32 \<Rightarrow> u32 \<Rightarrow> u32 \<Rightarrow> nat \<Rightarrow> u32" where
  "sm3GG x y z j = (if j \<ge> 16 then (x AND y) OR (NOT x AND z) else x XOR y XOR z)"

text \<open>The three loops that fill the arrays \<open>w\<close> (68 words) and \<open>w1\<close> (64 words).\<close>

definition load_words :: "byte list \<Rightarrow> u32 list" where
  "load_words p = map (\<lambda>i. let j = i * 4 in be32 (p ! j) (p ! (j + 1)) (p ! (j + 2)) (p ! (j + 3))) [0..<16]"

definition expand_word :: "u32 list \<Rightarrow> nat \<Rightarrow> u32" where
  "expand_word w i = sm3P1 (w ! (i - 16) XOR w ! (i - 9) XOR sm3Rotl (w ! (i - 3)) 15)
     XOR sm3Rotl (w ! (i - 13)) 7 XOR w ! (i - 6)"

definition expand_w :: "byte list \<Rightarrow> u32 list" where
  "expand_w p = foldl (\<lambda>w i. w[i := expand_word w i]) (load_words p @ replicate 52 0) [16..<68]"

definition expand_w1 :: "u32 list \<Rightarrow> u32 list" where
  "expand_w1 w = map (\<lambda>i. w ! i XOR w ! (i + 4)) [0..<64]"

type_synonym sm3_regs = "u32 \<times> u32 \<times> u32 \<times> u32 \<times> u32 \<times> u32 \<times> u32 \<times> u32"

definition sm3_round :: "u32 list \<Rightarrow> u32 list \<Rightarrow> sm3_regs \<Rightarrow> nat \<Rightarrow> sm3_regs" where
  "sm3_round w w1 s j = (case s of (a, b, c, d, e, f, g, h) \<Rightarrow>
     let ss1 = sm3Rotl (sm3Rotl a 12 + e + sm3Rotl (sm3T j) (of_nat j)) 7;
         ss2 = ss1 XOR sm3Rotl a 12;
         tt1 = sm3FF a b c j + d + ss2 + w1 ! j;
         tt2 = sm3GG e f g j + h + ss1 + w ! j
     in (tt1, a, sm3Rotl b 9, c, sm3P0 tt2, e, sm3Rotl f 19, g))"

definition xor_regs :: "sm3_regs \<Rightarrow> sm3_regs \<Rightarrow> sm3_regs" where
  "xor_regs s t = (case s of (h0, h1, h2, h3, h4, h5, h6, h7) \<Rightarrow>
     case t of (a, b, c, d, e, f, g, h) \<Rightarrow>
     (h0 XOR a, h1 XOR b, h2 XOR c, h3 XOR d, h4 XOR e, h5 XOR f, h6 XOR g, h7 XOR h))"

text \<open>One pass of the \<open>for len(p) >= chunk\<close> loop, then the loop.\<close>

definition compress :: "sm3_regs \<Rightarrow> byte list \<Rightarrow> sm3_regs" where
  "compress hs p = (let w = expand_w p; w1 = expand_w1 w
     in xor_regs hs (foldl (sm3_round w w1) hs [0..<64]))"

function block_loop :: "sm3_regs \<Rightarrow> byte list \<Rightarrow> sm3_regs" where
  "block_loop hs p = (if length p \<ge> chunk then block_loop (compress hs p) (drop chunk p) else hs)"
  by pat_completeness auto
termination
  by (relation "measure (\<lambda>(hs, p). length p)") (auto simp: chunk_def)

declare block_loop.simps [simp del]

definition regs_of :: "u32 list \<Rightarrow> sm3_regs" where
  "regs_of h = (h ! 0, h ! 1, h ! 2, h ! 3, h ! 4, h ! 5, h ! 6, h ! 7)"

definition list_of_regs :: "sm3_regs \<Rightarrow> u32 list" where
  "list_of_regs s = (case s of (h0, h1, h2, h3, h4, h5, h6, h7) \<Rightarrow> [h0, h1, h2, h3, h4, h5, h6, h7])"

section \<open>The digest object of \<open>sm3.go\<close>\<close>

record digest =
  d_h :: "u32 list"
  d_x :: "byte list"
  d_nx :: nat
  d_len :: u64

definition blockGeneric :: "digest \<Rightarrow> byte list \<Rightarrow> digest" where
  "blockGeneric dig p = dig\<lparr>d_h := list_of_regs (block_loop (regs_of (d_h dig)) p)\<rparr>"

definition init_h :: "u32 list" where
  "init_h = [0x7380166F, 0x4914B2B9, 0x172442D7, 0xDA8A0600, 0xA96F30BC, 0x163138AA, 0xE38DEE4D, 0xB0FB0E4E]"

definition Reset :: "digest \<Rightarrow> digest" where
  "Reset d = d\<lparr>d_h := init_h, d_nx := 0, d_len := 0\<rparr>"

definition New :: digest where
  "New = Reset \<lparr>d_h = replicate 8 0, d_x = replicate 64 0, d_nx = 0, d_len = 0\<rparr>"

definition Size :: nat where
  "Size = 32"

definition BlockSize :: nat where
  "BlockSize = 64"

text \<open>\<open>copy(dst[off:], src)\<close> on a list: the number of bytes copied and the new contents.\<close>

definition copy_at :: "byte list \<Rightarrow> nat \<Rightarrow> byte list \<Rightarrow> nat \<times> byte list" where
  "copy_at dst off src =
     (let n = min (length dst - off) (length src)
      in (n, take off dst @ take n src @ drop (off + n) dst))"

definition fill_buffer :: "digest \<Rightarrow> byte list \<Rightarrow> digest \<times> byte list" where
  "fill_buffer d p =
     (if d_nx d > 0 then
        let (n, x') = copy_at (d_x d) (d_nx d) p;
            d = d\<lparr>d_x := x', d_nx := d_nx d + n\<rparr>;
            d = (if d_nx d = chunk then (blockGeneric d (d_x d))\<lparr>d_nx := 0\<rparr> else d)
        in (d, drop n p)
      else (d, p))"

definition full_blocks :: "digest \<Rightarrow> byte list \<Rightarrow> digest \<times> byte list" where
  "full_blocks d p =
     (if length p \<ge> chunk then
        let n = nat (int (length p) AND NOT (int chunk - 1))
        in (blockGeneric d (take n p), drop n p)
      else (d, p))"

definition keep_rest :: "digest \<Rightarrow> byte list \<Rightarrow> digest" where
  "keep_rest d p =
     (if length p > 0 then let (n, x') = copy_at (d_x d) 0 p in d\<lparr>d_x := x', d_nx := n\<rparr> else d)"

text \<open>\<open>Write\<close> returns the new digest and the byte count; its error is always nil.\<close>

definition Write :: "digest \<Rightarrow> byte list \<Rightarrow> digest \<times> nat" where
  "Write d p =
     (let nn = length p;
          d = d\<lparr>d_len := d_len d + of_nat nn\<rparr>;
          (d, p) = fill_buffer d p;
          (d, p) = full_blocks d p
      in (keep_rest d p, nn))"

definition length_bytes :: "u64 \<Rightarrow> byte list" where
  "length_bytes l = map (\<lambda>i. ucast (drop_bit (56 - 8 * i) l)) [0..<8]"

definition checkSum :: "digest \<Rightarrow> (digest \<times> byte list) option" where
  "checkSum d =
     (let l = d_len d;
          tmp = 0x80 # replicate 63 0;
          r = unat (l mod 64);
          d = (if r < 56 then fst (Write d (take (56 - r) tmp))
               else fst (Write d (take (64 + 56 - r) tmp)));
          l = push_bit 3 l;
          d = fst (Write d (length_bytes l))
      in if d_nx d \<noteq> 0 then None else Some (d, concat (map be32_bytes (d_h d))))"

text \<open>\<open>Sum\<close> works on a copy of the digest, so the digest of the caller does not change.\<close>

definition Sum :: "digest \<Rightarrow> byte list \<Rightarrow> byte list option" where
  "Sum d inp = (case checkSum d of None \<Rightarrow> None | Some (_, hash) \<Rightarrow> Some (inp @ hash))"

text \<open>The package function \<open>Sum\<close>.\<close>

definition Sum_data :: "byte list \<Rightarrow> byte list option" where
  "Sum_data data = (case checkSum (fst (Write New data)) of None \<Rightarrow> None | Some (_, hash) \<Rightarrow> Some hash)"

section \<open>Absorbing a message\<close>

lemma chunk_64 [simp]: "chunk = 64"
  by (simp add: chunk_def)

lemma block_loop_short: "length p < 64 \<Longrightarrow> block_loop s p = s"
  by (subst block_loop.simps) simp

lemma block_loop_step: "64 \<le> length p \<Longrightarrow> block_loop s p = block_loop (compress s p) (drop 64 p)"
  by (subst block_loop.simps) simp

lemma load_words_append:
  assumes "64 \<le> length p"
  shows "load_words (p @ q) = load_words p"
  unfolding load_words_def Let_def
proof (rule map_cong [OF refl])
  fix i assume "i \<in> set [0..<16::nat]"
  then have "i < 16" by (simp only: set_upt atLeastLessThan_iff)
  with assms have "i * 4 < length p" "i * 4 + 1 < length p" "i * 4 + 2 < length p" "i * 4 + 3 < length p"
    by linarith+
  then show "be32 ((p @ q) ! (i * 4)) ((p @ q) ! (i * 4 + 1)) ((p @ q) ! (i * 4 + 2)) ((p @ q) ! (i * 4 + 3))
    = be32 (p ! (i * 4)) (p ! (i * 4 + 1)) (p ! (i * 4 + 2)) (p ! (i * 4 + 3))"
    by (simp only: nth_append if_True)
qed

lemma compress_append: "64 \<le> length p \<Longrightarrow> compress s (p @ q) = compress s p"
  by (simp add: compress_def expand_w_def load_words_append)

lemma block_loop_append:
  "length p mod 64 = 0 \<Longrightarrow> block_loop s (p @ q) = block_loop (block_loop s p) q"
proof (induction s p rule: block_loop.induct)
  case (1 s p)
  show ?case
  proof (cases "64 \<le> length p")
    case True
    then have "length (drop 64 p) mod 64 = 0"
      using "1.prems" by (simp add: le_mod_geq)
    with True "1.IH" have "block_loop (compress s p) (drop 64 p @ q)
        = block_loop (block_loop (compress s p) (drop 64 p)) q"
      by simp
    with True show ?thesis
      by (simp add: block_loop_step [of "p @ q"] block_loop_step [of p] compress_append)
  next
    case False
    with "1.prems" have "p = []" by simp
    then show ?thesis by (simp add: block_loop_short)
  qed
qed

lemma regs_of_list [simp]: "regs_of (list_of_regs s) = s"
  by (simp add: regs_of_def list_of_regs_def split: prod.splits)

lemma length_list_of_regs [simp]: "length (list_of_regs s) = 8"
  by (simp add: list_of_regs_def split: prod.splits)

text \<open>
  The representation invariant: the digest has absorbed the message \<open>m\<close>. The chaining value is the
  compression of the complete blocks of \<open>m\<close> (\<open>block_loop\<close> ignores an incomplete tail) and the
  first \<open>d_nx\<close> bytes of the buffer are that tail.
\<close>

definition tail_of :: "byte list \<Rightarrow> byte list" where
  "tail_of m = drop (length m - length m mod 64) m"

definition buffered :: "digest \<Rightarrow> byte list \<Rightarrow> bool" where
  "buffered d m \<longleftrightarrow> length (d_x d) = 64 \<and> d_nx d = length m mod 64
     \<and> take (d_nx d) (d_x d) = tail_of m
     \<and> d_h d = list_of_regs (block_loop (regs_of init_h) m)"

definition absorbed :: "digest \<Rightarrow> byte list \<Rightarrow> bool" where
  "absorbed d m \<longleftrightarrow> buffered d m \<and> d_len d = of_nat (length m)"

lemma length_tail_of: "length (tail_of m) = length m mod 64"
  by (simp add: tail_of_def)

lemma head_tail:
  obtains m0 where "m = m0 @ tail_of m" "length m0 mod 64 = 0"
proof -
  have "length (take (length m - length m mod 64) m) mod 64 = 0"
    by (simp add: minus_mod_eq_mult_div)
  then show ?thesis using that [of "take (length m - length m mod 64) m"]
    by (simp add: tail_of_def)
qed

lemma tail_of_append: "length m0 mod 64 = 0 \<Longrightarrow> tail_of (m0 @ t) = tail_of t"
  by (simp add: tail_of_def mod_add_left_eq [symmetric] minus_mod_eq_mult_div)

lemma tail_of_short: "length t < 64 \<Longrightarrow> tail_of t = t"
  by (simp add: tail_of_def)

lemma block_loop_head: "length m0 mod 64 = 0 \<Longrightarrow> length t < 64 \<Longrightarrow>
    block_loop s (m0 @ t) = block_loop s m0"
  by (simp add: block_loop_append block_loop_short)

lemma fill_buffer_buffered:
  assumes "buffered d m" and "fill_buffer d p = (d', p')"
  shows "\<exists>k. p' = drop k p \<and> buffered d' (m @ take k p) \<and> (p' = [] \<or> d_nx d' = 0) \<and> d_len d' = d_len d"
proof (cases "d_nx d > 0")
  case False
  with assms show ?thesis by (intro exI [of _ 0]) (auto simp: fill_buffer_def)
next
  case True
  obtain m0 where m: "m = m0 @ tail_of m" "length m0 mod 64 = 0" by (rule head_tail)
  let ?t = "tail_of m" and ?r = "d_nx d"
  have t: "length ?t = ?r" "take ?r (d_x d) = ?t" "?r < 64" "length (d_x d) = 64"
    using assms(1) by (auto simp: buffered_def length_tail_of)
  have h: "d_h d = list_of_regs (block_loop (regs_of init_h) m0)"
    using assms(1) m t by (metis block_loop_head buffered_def)
  show ?thesis
  proof (cases "?r + length p < 64")
    case shorter: True
    then have lt: "length (?t @ p) < 64" using t by simp
    have "buffered (d\<lparr>d_x := ?t @ p @ drop (?r + length p) (d_x d), d_nx := ?r + length p\<rparr>) (m0 @ (?t @ p))"
      using shorter t m(2) h lt
      by (auto simp: buffered_def tail_of_append tail_of_short block_loop_head
          mod_add_left_eq [symmetric, of "length m0"])
    moreover have "m0 @ (?t @ p) = m @ p" using m(1) by (metis append_assoc)
    ultimately show ?thesis using shorter True assms(2) t
      by (intro exI [of _ "length p"]) (auto simp: fill_buffer_def copy_at_def Let_def min_def)
  next
    case longer: False
    let ?k = "64 - ?r"
    have full: "length (?t @ take ?k p) = 64" using longer t by simp
    have "buffered ((blockGeneric (d\<lparr>d_x := ?t @ take ?k p, d_nx := 64\<rparr>) (?t @ take ?k p))\<lparr>d_nx := 0\<rparr>)
        (m0 @ (?t @ take ?k p))"
      using full h m(2)
      by (simp add: buffered_def blockGeneric_def block_loop_append tail_of_append)
        (simp add: tail_of_def mod_add_left_eq [symmetric, of "length m0"])
    moreover have "m0 @ (?t @ take ?k p) = m @ take ?k p" using m(1) by (metis append_assoc)
    ultimately show ?thesis using longer True assms(2) t
      by (intro exI [of _ ?k]) (auto simp: fill_buffer_def copy_at_def Let_def min_def blockGeneric_def)
  qed
qed


lemma mod_add_eq0: "length m mod 64 = 0 \<Longrightarrow> length p mod 64 = 0 \<Longrightarrow> length (m @ p) mod 64 = 0"
  by (simp add: mod_add_left_eq [symmetric, of "length m"])

lemma and_not_63: "nat (int n AND - 64) = n - n mod 64"
proof -
  have "int n AND - 64 = int n - int n mod 64"
    using and_not_mask_int [of "int n" 6] by (simp add: mask_eq_exp_minus_1)
  also have "\<dots> = int (n - n mod 64)" by (simp add: of_nat_diff zmod_int)
  finally show ?thesis by simp
qed

lemma full_blocks_buffered:
  assumes "buffered d m" and "p = [] \<or> d_nx d = 0" and "full_blocks d p = (d', p')"
  shows "\<exists>k. p' = drop k p \<and> buffered d' (m @ take k p) \<and> (p' = [] \<or> d_nx d' = 0)
    \<and> length p' < 64 \<and> d_len d' = d_len d"
proof (cases "64 \<le> length p")
  case False
  with assms show ?thesis by (intro exI [of _ 0]) (auto simp: full_blocks_def)
next
  case True
  let ?n = "length p - length p mod 64"
  have n: "?n mod 64 = 0" "length (take ?n p) = ?n" "length (drop ?n p) < 64"
    by (simp_all add: minus_mod_eq_mult_div)
  have m: "length m mod 64 = 0" "d_nx d = 0" using assms True by (auto simp: buffered_def)
  have "buffered (blockGeneric d (take ?n p)) (m @ take ?n p)"
    using assms(1) n m
    by (simp add: buffered_def blockGeneric_def block_loop_append tail_of_append mod_add_eq0
        del: length_append length_take)
      (simp add: tail_of_def)
  with True assms m n show ?thesis
    by (intro exI [of _ ?n]) (auto simp: full_blocks_def Let_def and_not_63 blockGeneric_def)
qed

lemma keep_rest_buffered:
  assumes "buffered d m" and "p = [] \<or> d_nx d = 0" and "length p < 64"
  shows "buffered (keep_rest d p) (m @ p) \<and> d_len (keep_rest d p) = d_len d"
proof (cases "p = []")
  case True
  with assms show ?thesis by (simp add: keep_rest_def)
next
  case False
  with assms have "length m mod 64 = 0" "length (d_x d) = 64" by (auto simp: buffered_def)
  with False assms show ?thesis
    by (auto simp: keep_rest_def copy_at_def buffered_def Let_def tail_of_append tail_of_short
        block_loop_head mod_add_left_eq [symmetric, of "length m"])
qed

lemma Write_absorbed:
  assumes "absorbed d m"
  shows "absorbed (fst (Write d p)) (m @ p)"
proof -
  let ?d = "d\<lparr>d_len := d_len d + of_nat (length p)\<rparr>"
  have d: "buffered ?d m" "d_len ?d = of_nat (length (m @ p))"
    using assms by (auto simp: absorbed_def buffered_def)
  obtain d1 p1 where 1: "fill_buffer ?d p = (d1, p1)" by force
  obtain d2 p2 where 2: "full_blocks d1 p1 = (d2, p2)" by force
  from fill_buffer_buffered [OF d(1) 1] obtain k where
    k: "p1 = drop k p" "buffered d1 (m @ take k p)" "p1 = [] \<or> d_nx d1 = 0" "d_len d1 = d_len ?d"
    by auto
  from full_blocks_buffered [OF k(2,3) 2] obtain l where
    l: "p2 = drop l p1" "buffered d2 ((m @ take k p) @ take l p1)" "p2 = [] \<or> d_nx d2 = 0"
      "length p2 < 64" "d_len d2 = d_len d1" by auto
  have "p = take k p @ take l p1 @ p2" using k(1) l(1) by (metis append_take_drop_id)
  then have "(m @ take k p) @ take l p1 @ p2 = m @ p" by (metis append_assoc)
  with keep_rest_buffered [OF l(2-4)] d k l 1 2 show ?thesis
    by (simp add: Write_def absorbed_def Let_def)
qed

lemma Reset_absorbed: "length (d_x d) = 64 \<Longrightarrow> absorbed (Reset d) []"
  by (simp add: Reset_def absorbed_def buffered_def tail_of_def block_loop_short)
    (simp add: list_of_regs_def regs_of_def init_h_def)

lemma New_absorbed: "absorbed New []"
  by (simp add: New_def Reset_absorbed)

section \<open>Padding and the digest\<close>

definition pad :: "byte list \<Rightarrow> byte list" where
  "pad m = m @ 0x80 # replicate ((119 - length m mod 64) mod 64) 0 @ length_bytes (of_nat (8 * length m))"

definition sm3_hash :: "byte list \<Rightarrow> byte list" where
  "sm3_hash m = concat (map be32_bytes (list_of_regs (block_loop (regs_of init_h) (pad m))))"

lemma length_length_bytes [simp]: "length (length_bytes l) = 8"
  by (simp add: length_bytes_def)

lemma pad_zeros:
  assumes "r < (64 :: nat)"
  shows "Suc ((119 - r) mod 64) = (if r < 56 then 56 - r else 64 + 56 - r)"
proof (cases "r < 56")
  case True
  then have "(119 - r) mod 64 = (119 - r - 64) mod 64" by (intro le_mod_geq) simp
  also have "\<dots> = 119 - r - 64" using True by (intro mod_less) simp
  finally show ?thesis using True by simp
next
  case False
  then have "(119 - r) mod 64 = 119 - r" by (intro mod_less) simp
  with False assms show ?thesis by simp
qed

lemma length_pad_mod: "length (pad m) mod 64 = 0"
proof -
  define r where "r = length m mod 64"
  have r: "r < 64" by (simp add: r_def)
  have "length (pad m) mod 64 = (length m + (Suc ((119 - r) mod 64) + 8)) mod 64"
    by (simp add: pad_def r_def)
  also have "\<dots> = (r + (Suc ((119 - r) mod 64) + 8)) mod 64"
    by (simp only: r_def mod_add_left_eq)
  also have "\<dots> = 0" using r by (simp add: pad_zeros del: mod_Suc_eq)
  finally show ?thesis .
qed

lemma unat_of_nat_mod64: "unat (of_nat n mod 64 :: u64) = n mod 64"
proof -
  have "unat (of_nat n mod 64 :: u64) = n mod 2 ^ 64 mod 64"
    by (simp add: unat_mod unat_of_nat)
  also have "\<dots> = n mod 64" by (rule mod_mod_cancel) simp
  finally show ?thesis .
qed

lemma checkSum_absorbed:
  assumes "absorbed d m"
  shows "\<exists>d'. checkSum d = Some (d', sm3_hash m)"
proof -
  let ?r = "length m mod 64" and ?tmp = "0x80 # replicate 63 (0 :: byte)"
  let ?z = "(119 - ?r) mod 64"
  let ?d1 = "fst (Write d (take (Suc ?z) ?tmp))"
  let ?d2 = "fst (Write ?d1 (length_bytes (of_nat (8 * length m))))"
  have len: "d_len d = of_nat (length m)" using assms by (simp add: absorbed_def)
  have r: "?r < 64" by simp
  have z: "Suc ?z = (if ?r < 56 then 56 - ?r else 64 + 56 - ?r)" using r by (rule pad_zeros)
  have "take (Suc ?z) ?tmp = 0x80 # replicate ?z 0" using r by simp
  then have "absorbed ?d2 (pad m)"
    using Write_absorbed [OF Write_absorbed [OF assms, of "take (Suc ?z) ?tmp"],
        of "length_bytes (of_nat (8 * length m))"]
    by (simp add: pad_def)
  then have "d_nx ?d2 = 0" "d_h ?d2 = list_of_regs (block_loop (regs_of init_h) (pad m))"
    by (simp_all add: absorbed_def buffered_def length_pad_mod)
  moreover have "push_bit 3 (of_nat (length m) :: u64) = of_nat (8 * length m)"
    by (simp add: push_bit_eq_mult)
  moreover have "(if ?r < 56 then fst (Write d (take (56 - ?r) ?tmp))
      else fst (Write d (take (64 + 56 - ?r) ?tmp))) = ?d1"
    by (simp add: z)
  ultimately show ?thesis
    by (simp only: checkSum_def len unat_of_nat_mod64 Let_def sm3_hash_def) simp
qed

interpretation sm3: streaming_hash New "\<lambda>d p. fst (Write d p)" Sum sm3_hash absorbed
proof unfold_locales
  show "absorbed New []" by (rule New_absorbed)
  show "absorbed d m \<Longrightarrow> absorbed (fst (Write d p)) (m @ p)" for d m p by (rule Write_absorbed)
  show "absorbed d m \<Longrightarrow> Sum d inp = Some (inp @ sm3_hash m)" for d m inp
    using checkSum_absorbed [of d m] by (auto simp: Sum_def)
qed

lemma Sum_data_eq: "Sum_data m = Some (sm3_hash m)"
  using checkSum_absorbed [OF Write_absorbed [OF New_absorbed], of m] by (auto simp: Sum_data_def)

lemma length_sm3_hash [simp]: "length (sm3_hash m) = 32"
  by (simp add: sm3_hash_def list_of_regs_def split: prod.splits)

section \<open>The hash of the standard\<close>

text \<open>
  GB/T 32905: the expanded words as a recurrence, the Boolean functions with the majority written
  as a disjunction of conjunctions, the rotations as rotations, the message as a list of blocks.
\<close>

definition std_P0 :: "u32 \<Rightarrow> u32" where
  "std_P0 x = x XOR word_rotl 9 x XOR word_rotl 17 x"

definition std_P1 :: "u32 \<Rightarrow> u32" where
  "std_P1 x = x XOR word_rotl 15 x XOR word_rotl 23 x"

fun std_W :: "(nat \<Rightarrow> u32) \<Rightarrow> nat \<Rightarrow> u32" where
  "std_W b j = (if j < 16 then b j
     else std_P1 (std_W b (j - 16) XOR std_W b (j - 9) XOR word_rotl 15 (std_W b (j - 3)))
       XOR word_rotl 7 (std_W b (j - 13)) XOR std_W b (j - 6))"

declare std_W.simps [simp del]

definition std_FF :: "nat \<Rightarrow> u32 \<Rightarrow> u32 \<Rightarrow> u32 \<Rightarrow> u32" where
  "std_FF j x y z = (if j < 16 then x XOR y XOR z else (x AND y) OR (x AND z) OR (y AND z))"

definition std_GG :: "nat \<Rightarrow> u32 \<Rightarrow> u32 \<Rightarrow> u32 \<Rightarrow> u32" where
  "std_GG j x y z = (if j < 16 then x XOR y XOR z else (x AND y) OR (NOT x AND z))"

definition std_T :: "nat \<Rightarrow> u32" where
  "std_T j = (if j < 16 then 0x79cc4519 else 0x7a879d8a)"

definition std_round :: "(nat \<Rightarrow> u32) \<Rightarrow> sm3_regs \<Rightarrow> nat \<Rightarrow> sm3_regs" where
  "std_round W s j = (case s of (a, b, c, d, e, f, g, h) \<Rightarrow>
     let ss1 = word_rotl 7 (word_rotl 12 a + e + word_rotl (j mod 32) (std_T j));
         ss2 = ss1 XOR word_rotl 12 a;
         tt1 = std_FF j a b c + d + ss2 + (W j XOR W (j + 4));
         tt2 = std_GG j e f g + h + ss1 + W j
     in (tt1, a, word_rotl 9 b, c, std_P0 tt2, e, word_rotl 19 f, g))"

definition std_CF :: "sm3_regs \<Rightarrow> byte list \<Rightarrow> sm3_regs" where
  "std_CF v b = xor_regs v (foldl (std_round (std_W (\<lambda>i. load_words b ! i))) v [0..<64])"

definition std_blocks :: "byte list \<Rightarrow> byte list list" where
  "std_blocks m = map (\<lambda>i. take 64 (drop (64 * i) m)) [0..<length m div 64]"

definition std_sm3 :: "byte list \<Rightarrow> byte list" where
  "std_sm3 m = concat (map be32_bytes (list_of_regs (foldl std_CF (regs_of init_h) (std_blocks (pad m)))))"

lemma sm3Rotl_rotl: "sm3Rotl x n = word_rotl (unat n mod 32) x"
proof -
  have "unat (32 - n mod 32) = 32 - unat n mod 32"
    by (subst unat_sub) (simp_all add: word_le_nat_alt unat_mod)
  then show ?thesis using push_drop_word_rotl [of "unat n mod 32" x]
    by (simp add: sm3Rotl_def unat_mod)
qed

lemma majority: "(x OR y) AND (x OR z) AND (y OR z) = (x AND y) OR (x AND z) OR (y AND z)"
  for x y z :: "'a::len word"
  by (rule bit_word_eqI) (auto simp: bit_or_iff bit_and_iff)

lemma sm3_round_std:
  assumes "j < 64" "w ! j = W j" "w1 ! j = W j XOR W (j + 4)"
  shows "sm3_round w w1 s j = std_round W s j"
proof -
  have "unat (of_nat j :: u32) mod 32 = j mod 32" using assms(1) by (simp add: unat_of_nat)
  then show ?thesis using assms
    by (cases s) (simp add: sm3_round_def std_round_def sm3Rotl_rotl sm3FF_def sm3GG_def std_FF_def
        std_GG_def majority sm3T_def std_T_def sm3P0_def std_P0_def Let_def not_le)
qed

lemma expand_w_std:
  assumes "16 \<le> n" "n \<le> 68" "length p \<ge> 64"
  defines "W \<equiv> std_W (\<lambda>i. load_words p ! i)"
  shows "foldl (\<lambda>w i. w[i := expand_word w i]) (load_words p @ replicate 52 0) [16..<n]
    = map W [0..<n] @ replicate (68 - n) 0"
  using assms(1,2)
proof (induction n rule: dec_induct)
  case base
  have "map W [0..<16] = load_words p"
    by (rule nth_equalityI) (simp_all add: load_words_def W_def std_W.simps)
  then show ?case by simp
next
  case (step n)
  let ?w = "map W [0..<n] @ replicate (68 - n) 0"
  have "expand_word ?w n = W n"
    using step by (simp add: expand_word_def nth_append W_def std_W.simps [of _ n] std_P1_def sm3P1_def
        sm3Rotl_rotl)
  moreover have "replicate (68 - n) (0::u32) = 0 # replicate (68 - Suc n) 0"
    using step by (simp flip: replicate_Suc add: Suc_diff_Suc)
  ultimately show ?case using step
    by (simp add: list_update_append)
qed

lemma compress_std:
  assumes "length p \<ge> 64"
  shows "compress v p = std_CF v p"
proof -
  let ?W = "std_W (\<lambda>i. load_words p ! i)"
  have w: "expand_w p = map ?W [0..<68]"
    using expand_w_std [of 68 p] assms by (simp add: expand_w_def)
  have "foldl (sm3_round (expand_w p) (expand_w1 (expand_w p))) v [0..<64] = foldl (std_round ?W) v [0..<64]"
    by (rule foldl_cong) (auto simp: w expand_w1_def intro!: sm3_round_std)
  then show ?thesis by (simp add: compress_def std_CF_def Let_def)
qed


lemma block_loop_std:
  "length p mod 64 = 0 \<Longrightarrow> block_loop v p = foldl std_CF v (std_blocks p)"
proof (induction v p rule: block_loop.induct)
  case (1 v p)
  show ?case
  proof (cases "64 \<le> length p")
    case True
    then have m: "length (drop 64 p) mod 64 = 0" using "1.prems" by (simp add: le_mod_geq)
    have n: "length p div 64 = Suc (length (drop 64 p) div 64)"
      using True by (simp add: le_div_geq)
    have "std_blocks p = take 64 p # std_blocks (drop 64 p)"
      unfolding std_blocks_def n
      by (simp add: upt_conv_Cons map_Suc_upt [symmetric] o_def ac_simps del: upt_Suc)
    moreover have "std_CF v (take 64 p) = compress v p"
      using compress_std [of "take 64 p" v] compress_append [of "take 64 p" v "drop 64 p"] True by simp
    ultimately show ?thesis using True m "1.IH" by (simp add: block_loop_step)
  next
    case False
    with "1.prems" show ?thesis by (simp add: block_loop_short std_blocks_def)
  qed
qed

lemma sm3_hash_std: "sm3_hash m = std_sm3 m"
  by (simp add: sm3_hash_def std_sm3_def block_loop_std length_pad_mod)

section \<open>Properties\<close>

text \<open>
  C18: Streaming: however a message is cut into calls of \<open>Write\<close>, including empty ones and ones that
  end in the middle of a block, \<open>Sum\<close> returns its argument followed by the hash of the
  concatenation, and the panic in \<open>checkSum\<close> is never reached.
\<close>

theorem sm3_streaming:
  "Sum (foldl (\<lambda>d p. fst (Write d p)) New ps) inp = Some (inp @ std_sm3 (concat ps))"
  using sm3.sum_writes [of ps inp] by (simp add: sm3_hash_std)

text \<open>
  C3: The package function \<open>Sum\<close> is the hash function of the standard: padding with a one bit,
  zeros and the bit length modulo \<open>2\<^sup>6\<^sup>4\<close>, then the iterated compression function over the
  recurrence \<open>W\<close>, with 32 bytes of output for every input.
\<close>

theorem sm3_sum_standard:
  "Sum_data data = Some (std_sm3 data) \<and> length (std_sm3 data) = Size"
  by (simp add: Sum_data_eq sm3_hash_std [symmetric] Size_def)

text \<open>
  C23: The hash object keeps its invariant: \<open>Reset\<close> (on any object with its 64-byte buffer) gives an
  object that has absorbed nothing, and \<open>Write\<close> turns an object that has absorbed \<open>m\<close> into one
  that has absorbed \<open>m @ p\<close> and reports \<open>length p\<close> bytes written.
\<close>

theorem sm3_object_invariant:
  "(length (d_x d) = 64 \<longrightarrow> absorbed (Reset d) []) \<and>
   (absorbed d m \<longrightarrow> absorbed (fst (Write d p)) (m @ p) \<and> snd (Write d p) = length p)"
  using Reset_absorbed Write_absorbed by (auto simp: Write_def Let_def split: prod.splits)

theorem sm3_object_invariant_witness:
  "absorbed (Reset New) [] \<and> absorbed (fst (Write New [1, 2])) [1, 2] \<and> snd (Write New [1, 2]) = 2"
proof -
  have "length (d_x New) = 64" "absorbed New []" by (simp_all add: New_absorbed) (simp add: New_def Reset_def)
  then show ?thesis using sm3_object_invariant [of New "[]" "[1, 2]"] by simp
qed

end
