(* ===== verification/Limbs.thy ===== *)
theory Limbs
  imports Prelude
begin

text \<open>
  Multi-word integers as the Go code stores them: little-endian arrays of 64-bit words. \<open>limbs xs\<close>
  is the integer an array stands for. \<open>add_loop\<close> and \<open>sub_loop\<close> are the carry and borrow chains that
  \<open>gfpAdd\<close>, \<open>gfpSub\<close>, \<open>gfpNeg\<close>, \<open>gfpCarry\<close> and \<open>gfpMul\<close> of \<open>sm9/gfp_generic.go\<close> write out, with
  their carry bit computed from the top bits of the operands and of the result.
\<close>

section \<open>Values\<close>

primrec limbs :: "u64 list \<Rightarrow> int" where
  "limbs [] = 0"
| "limbs (x # xs) = uint x + 2 ^ 64 * limbs xs"

lemma limbs_nonneg [simp]: "0 \<le> limbs xs"
  by (induction xs) simp_all

lemma uint_u64_bound: "uint (x :: u64) < 2 ^ 64"
  using uint_lt2p [of x] by simp

lemma limbs_bound: "limbs xs < 2 ^ (64 * length xs)"
proof (induction xs)
  case (Cons x xs)
  have "limbs xs + 1 \<le> 2 ^ (64 * length xs)" using Cons.IH by simp
  then have "2 ^ 64 * (limbs xs + 1) \<le> 2 ^ 64 * 2 ^ (64 * length xs)" by (intro mult_left_mono) auto
  moreover have "uint x < 2 ^ 64" by (rule uint_u64_bound)
  ultimately have "uint x + 2 ^ 64 * limbs xs < 2 ^ 64 * 2 ^ (64 * length xs)"
    by (simp add: algebra_simps)
  then show ?case by (simp add: power_add)
qed simp

lemma limbs_append: "limbs (xs @ ys) = limbs xs + 2 ^ (64 * length xs) * limbs ys"
  by (induction xs) (simp_all add: algebra_simps power_add)

lemma limbs_take_drop: "n \<le> length xs \<Longrightarrow> limbs xs = limbs (take n xs) + 2 ^ (64 * n) * limbs (drop n xs)"
  using limbs_append [of "take n xs" "drop n xs"] by simp

lemma limbs_take: "n \<le> length xs \<Longrightarrow> limbs (take n xs) = limbs xs mod 2 ^ (64 * n)"
proof -
  assume n: "n \<le> length xs"
  have "limbs (take n xs) < 2 ^ (64 * n)" using limbs_bound [of "take n xs"] n by simp
  then show ?thesis by (simp add: limbs_take_drop [OF n])
qed

lemma limbs_inject: "length xs = length ys \<Longrightarrow> limbs xs = limbs ys \<Longrightarrow> xs = ys"
proof (induction xs ys rule: list_induct2)
  case (Cons x xs y ys)
  have x: "uint x < 2 ^ 64" and y: "uint y < 2 ^ 64" by (rule uint_u64_bound)+
  have e: "uint x + 2 ^ 64 * limbs xs = uint y + 2 ^ 64 * limbs ys" using Cons.prems by simp
  then have "(uint x + 2 ^ 64 * limbs xs) mod 2 ^ 64 = (uint y + 2 ^ 64 * limbs ys) mod 2 ^ 64" by simp
  then have "uint x = uint y" using x y by (simp del: power_numeral)
  then have "x = y" by (simp only: word_uint_eq_iff)
  with e Cons.IH show ?case by simp
qed simp

lemma limbs_replicate_zero [simp]: "limbs (replicate n 0) = 0"
  by (induction n) simp_all

section \<open>Word operations without overflow\<close>

lemma uint_add_no_overflow: "uint x + uint y < 2 ^ 64 \<Longrightarrow> uint (x + y) = uint x + uint y" for x y :: u64
  by (simp add: uint_word_arith_bintrs take_bit_eq_mod)

lemma uint_mult_no_overflow: "uint x * uint y < 2 ^ 64 \<Longrightarrow> uint (x * y) = uint x * uint y" for x y :: u64
  by (simp add: uint_word_arith_bintrs take_bit_eq_mod)

lemma uint_take_bit: "uint (take_bit n x :: u64) = uint x mod 2 ^ n"
proof -
  have "uint (take_bit n x) = take_bit n (uint x)" by (rule unsigned_take_bit_eq)
  then show ?thesis by (simp only: take_bit_eq_mod [of n "uint x"])
qed

lemma uint_and_mask: "uint (x AND mask n :: u64) = uint x mod 2 ^ n"
  using uint_take_bit [of n x] unfolding take_bit_eq_mask [of n x] .

lemma uint_drop_bit: "uint (drop_bit n x :: u64) = uint x div 2 ^ n"
proof -
  have "uint (drop_bit n x) = drop_bit n (take_bit LENGTH(64) (uint x))" by (rule unsigned_drop_bit_eq)
  also have "take_bit LENGTH(64) (uint x) = uint x"
    using uint_u64_bound [of x] by (simp add: take_bit_eq_mod)
  finally show ?thesis by (simp only: drop_bit_eq_div [of n "uint x"])
qed

lemma int_div_less: "0 < m \<Longrightarrow> a < n * m \<Longrightarrow> a div m < n" for a m n :: int
proof (rule ccontr)
  assume "0 < m" "a < n * m" "\<not> a div m < n"
  then have "n * m \<le> a div m * m" by (intro mult_right_mono) auto
  moreover have "a div m * m \<le> a" using \<open>0 < m\<close> by (simp add: div_mult_mod_eq minus_mod_eq_div_mult [symmetric])
  ultimately show False using \<open>a < n * m\<close> by linarith
qed

lemma shifted_cell:
  fixes c :: u64
  assumes "s < 64" "uint h < 2 ^ s"
  shows "uint (push_bit s c + h) + 2 ^ 64 * uint (drop_bit (64 - s) c) = 2 ^ s * uint c + uint h"
    "uint (drop_bit (64 - s) c) < 2 ^ s"
proof -
  have e: "(2 :: int) ^ 64 = 2 ^ (64 - s) * 2 ^ s" using assms(1) by (simp flip: power_add)
  have p: "uint (push_bit s c) = 2 ^ s * (uint c mod 2 ^ (64 - s))"
  proof -
    have "uint (push_bit s c) = take_bit LENGTH(64) (push_bit s (uint c))"
      by (rule unsigned_push_bit_eq)
    also have "\<dots> = take_bit 64 (push_bit s (uint c))" by simp
    also have "\<dots> = (2 ^ s * uint c) mod (2 ^ s * 2 ^ (64 - s))"
      by (simp only: take_bit_eq_mod [of 64] push_bit_eq_mult [of s "uint c"] e mult.commute)
    finally show ?thesis by (simp only: mult_mod_right)
  qed
  have "uint c mod 2 ^ (64 - s) \<le> 2 ^ (64 - s) - 1" by simp
  then have "2 ^ s * (uint c mod 2 ^ (64 - s)) \<le> 2 ^ s * (2 ^ (64 - s) - 1)" by (intro mult_left_mono) auto
  then have "uint (push_bit s c) + uint h < 2 ^ 64"
    using assms(2) unfolding p e by (simp add: algebra_simps)
  then have "uint (push_bit s c + h) = uint (push_bit s c) + uint h" by (rule uint_add_no_overflow)
  moreover have "uint (drop_bit (64 - s) c) = uint c div 2 ^ (64 - s)" by (rule uint_drop_bit)
  moreover have "2 ^ s * uint c = 2 ^ s * (uint c mod 2 ^ (64 - s) + 2 ^ (64 - s) * (uint c div 2 ^ (64 - s)))"
    by (simp only: mod_mult_div_eq)
  ultimately show "uint (push_bit s c + h) + 2 ^ 64 * uint (drop_bit (64 - s) c) = 2 ^ s * uint c + uint h"
    unfolding p e by (simp only: distrib_left mult_ac add_ac)
  have "uint c < 2 ^ s * 2 ^ (64 - s)" using uint_u64_bound [of c] e by (simp add: mult.commute)
  then show "uint (drop_bit (64 - s) c) < 2 ^ s"
    by (simp only: uint_drop_bit int_div_less zero_less_power zero_less_numeral)
qed

section \<open>Carry and borrow chains\<close>

definition add_carry :: "u64 \<Rightarrow> u64 \<Rightarrow> u64 \<Rightarrow> u64" where
  "add_carry x y z = drop_bit 63 ((x AND y) OR ((x OR y) AND NOT z))"

definition sub_borrow :: "u64 \<Rightarrow> u64 \<Rightarrow> u64 \<Rightarrow> u64" where
  "sub_borrow x y z = drop_bit 63 ((y AND NOT x) OR ((y OR NOT x) AND z))"

fun add_loop :: "u64 list \<Rightarrow> u64 list \<Rightarrow> u64 \<Rightarrow> u64 list \<times> u64" where
  "add_loop (x # xs) (y # ys) carry =
     (let z = x + y + carry; (zs, carry') = add_loop xs ys (add_carry x y z) in (z # zs, carry'))"
| "add_loop _ _ carry = ([], carry)"

fun sub_loop :: "u64 list \<Rightarrow> u64 list \<Rightarrow> u64 \<Rightarrow> u64 list \<times> u64" where
  "sub_loop (x # xs) (y # ys) carry =
     (let z = x - y - carry; (zs, carry') = sub_loop xs ys (sub_borrow x y z) in (z # zs, carry'))"
| "sub_loop _ _ carry = ([], carry)"

lemma top_bit_u64: "bit (x :: u64) 63 \<longleftrightarrow> 2 ^ 63 \<le> uint x"
proof -
  have "bit x 63 \<longleftrightarrow> bit (uint x) 63" by (simp add: bit_uint_iff)
  also have "\<dots> \<longleftrightarrow> uint x div 2 ^ 63 mod 2 = 1" by (simp add: bit_iff_odd odd_iff_mod_2_eq_one)
  also have "\<dots> \<longleftrightarrow> 2 ^ 63 \<le> uint x"
  proof -
    have "0 \<le> uint x" "uint x < 2 ^ 64" using uint_u64_bound by simp_all
    then have "uint x div 2 ^ 63 = (if 2 ^ 63 \<le> uint x then 1 else 0)"
      by (auto simp: div_pos_pos_trivial int_div_pos_eq intro!: int_div_pos_eq [where r = "uint x - 2 ^ 63"])
    then show ?thesis by simp
  qed
  finally show ?thesis .
qed

lemma top_bit_not_u64: "bit (NOT (x :: u64)) 63 \<longleftrightarrow> \<not> 2 ^ 63 \<le> uint x"
  using top_bit_u64 [of x] by (simp add: bit_not_iff)

lemma drop_63: "drop_bit 63 (x :: u64) = of_bool (bit x 63)"
proof (rule bit_word_eqI)
  fix n assume "n < LENGTH(64)"
  have "\<not> bit x (63 + n)" if "0 < n" using that by (auto dest: bit_imp_le_length)
  then show "bit (drop_bit 63 x) n = bit (of_bool (bit x 63) :: u64) n"
    by (cases "n = 0") (auto simp: bit_drop_bit_eq bit_of_bool_iff)
qed

lemma mod_carry: "0 \<le> t \<Longrightarrow> t < 2 * m \<Longrightarrow> t mod m = (if m \<le> t then t - m else t)" for t m :: int
  by (auto simp: mod_pos_pos_trivial intro: mod_pos_pos_trivial int_mod_pos_eq [where q = 1])

lemma mod_borrow: "- m \<le> t \<Longrightarrow> t < m \<Longrightarrow> t mod m = (if t < 0 then t + m else t)" for t m :: int
  by (auto simp: mod_pos_pos_trivial intro: int_mod_neg_eq [where q = "-1"] int_mod_pos_eq [where q = "-1"])

lemma carry_arith:
  fixes x y c z :: int
  assumes "x < 2 ^ 64" "y < 2 ^ 64" "0 \<le> x" "0 \<le> y" "0 \<le> c" "c \<le> 1"
    and "z = (if 2 ^ 64 \<le> x + y + c then x + y + c - 2 ^ 64 else x + y + c)"
  shows "z + 2 ^ 64 * of_bool (2 ^ 63 \<le> x \<and> 2 ^ 63 \<le> y \<or> (2 ^ 63 \<le> x \<or> 2 ^ 63 \<le> y) \<and> \<not> 2 ^ 63 \<le> z)
    = x + y + c"
  using assms by (auto simp: of_bool_def split: if_splits)

lemma borrow_arith:
  fixes x y c z :: int
  assumes "x < 2 ^ 64" "y < 2 ^ 64" "0 \<le> x" "0 \<le> y" "0 \<le> c" "c \<le> 1"
    and "z = (if x - y - c < 0 then x - y - c + 2 ^ 64 else x - y - c)"
  shows "z - 2 ^ 64 * of_bool (2 ^ 63 \<le> y \<and> \<not> 2 ^ 63 \<le> x \<or> (2 ^ 63 \<le> y \<or> \<not> 2 ^ 63 \<le> x) \<and> 2 ^ 63 \<le> z)
    = x - y - c"
  using assms by (auto simp: of_bool_def split: if_splits)

lemma add_carry_val:
  assumes "uint c \<le> 1"
  shows "uint (x + y + c) + 2 ^ 64 * uint (add_carry x y (x + y + c)) = uint x + uint y + uint c"
proof -
  define z where "z = x + y + c"
  have b: "uint x < 2 ^ 64" "uint y < 2 ^ 64" "0 \<le> uint x" "0 \<le> uint y" "0 \<le> uint c"
    using uint_u64_bound by simp_all
  have "uint z = (uint x + uint y + uint c) mod 2 ^ 64"
    by (simp add: z_def uint_word_arith_bintrs take_bit_eq_mod mod_simps)
  also have "\<dots> = (if 2 ^ 64 \<le> uint x + uint y + uint c then uint x + uint y + uint c - 2 ^ 64
      else uint x + uint y + uint c)"
    using b assms by (intro mod_carry) linarith+
  finally have z: "uint z = \<dots>" .
  have "uint (add_carry x y z) = of_bool (2 ^ 63 \<le> uint x \<and> 2 ^ 63 \<le> uint y
      \<or> (2 ^ 63 \<le> uint x \<or> 2 ^ 63 \<le> uint y) \<and> \<not> 2 ^ 63 \<le> uint z)"
    by (simp add: add_carry_def drop_63 bit_or_iff bit_and_iff top_bit_not_u64
        top_bit_u64 [of x] top_bit_u64 [of y])
  then show ?thesis
    unfolding z_def [symmetric] using carry_arith [OF b assms z] by simp
qed

lemma sub_borrow_val:
  assumes "uint c \<le> 1"
  shows "uint (x - y - c) - 2 ^ 64 * uint (sub_borrow x y (x - y - c)) = uint x - uint y - uint c"
proof -
  define z where "z = x - y - c"
  have b: "uint x < 2 ^ 64" "uint y < 2 ^ 64" "0 \<le> uint x" "0 \<le> uint y" "0 \<le> uint c"
    using uint_u64_bound by simp_all
  have "uint z = (uint x - uint y - uint c) mod 2 ^ 64"
    by (simp add: z_def uint_word_arith_bintrs take_bit_eq_mod mod_simps)
  also have "\<dots> = (if uint x - uint y - uint c < 0 then uint x - uint y - uint c + 2 ^ 64
      else uint x - uint y - uint c)"
    using b assms by (intro mod_borrow) linarith+
  finally have z: "uint z = \<dots>" .
  have "uint (sub_borrow x y z) = of_bool (2 ^ 63 \<le> uint y \<and> \<not> 2 ^ 63 \<le> uint x
      \<or> (2 ^ 63 \<le> uint y \<or> \<not> 2 ^ 63 \<le> uint x) \<and> 2 ^ 63 \<le> uint z)"
    by (simp add: sub_borrow_def drop_63 bit_or_iff bit_and_iff top_bit_not_u64
        top_bit_u64 [of y] top_bit_u64 [of z])
  then show ?thesis
    unfolding z_def [symmetric] using borrow_arith [OF b assms z] by simp
qed

lemma add_carry_bit [simp]: "uint (add_carry x y z) \<le> 1"
  by (simp add: add_carry_def drop_63)

lemma sub_borrow_bit [simp]: "uint (sub_borrow x y z) \<le> 1"
  by (simp add: sub_borrow_def drop_63)

lemma length_add_loop [simp]:
  "length xs = length ys \<Longrightarrow> length (fst (add_loop xs ys c)) = length ys"
  by (induction xs ys arbitrary: c rule: list_induct2) (simp_all add: Let_def split_beta)

lemma length_sub_loop [simp]:
  "length xs = length ys \<Longrightarrow> length (fst (sub_loop xs ys c)) = length ys"
  by (induction xs ys arbitrary: c rule: list_induct2) (simp_all add: Let_def split_beta)

lemma add_loop_carry_bit: "uint c \<le> 1 \<Longrightarrow> uint (snd (add_loop xs ys c)) \<le> 1"
  by (induction xs ys c rule: add_loop.induct) (simp_all add: Let_def split_beta)

lemma sub_loop_borrow_bit: "uint c \<le> 1 \<Longrightarrow> uint (snd (sub_loop xs ys c)) \<le> 1"
  by (induction xs ys c rule: sub_loop.induct) (simp_all add: Let_def split_beta)

lemma add_loop_val:
  "length xs = length ys \<Longrightarrow> uint c \<le> 1 \<Longrightarrow>
    limbs (fst (add_loop xs ys c)) + 2 ^ (64 * length ys) * uint (snd (add_loop xs ys c))
      = limbs xs + limbs ys + uint c"
proof (induction xs ys arbitrary: c rule: list_induct2)
  case (Cons x xs y ys)
  let ?z = "x + y + c" and ?c = "add_carry x y (x + y + c)"
  from add_carry_val [OF Cons.prems, of x y] Cons.IH [OF add_carry_bit [of x y ?z]]
  show ?case by (simp add: Let_def split_beta algebra_simps power_add)
qed simp

lemma sub_loop_val:
  "length xs = length ys \<Longrightarrow> uint c \<le> 1 \<Longrightarrow>
    limbs (fst (sub_loop xs ys c)) - 2 ^ (64 * length ys) * uint (snd (sub_loop xs ys c))
      = limbs xs - limbs ys - uint c"
proof (induction xs ys arbitrary: c rule: list_induct2)
  case (Cons x xs y ys)
  let ?z = "x - y - c" and ?c = "sub_borrow x y (x - y - c)"
  from sub_borrow_val [OF Cons.prems, of x y] Cons.IH [OF sub_borrow_bit [of x y ?z]]
  show ?case by (simp add: Let_def split_beta algebra_simps power_add)
qed simp

text \<open>The two cases of a bit of carry.\<close>

lemma carry_bit_cases:
  fixes c :: u64
  assumes "uint c \<le> 1"
  obtains "c = 0" | "c = 1"
proof -
  have "uint c = 0 \<or> uint c = 1" using assms uint_ge_0 [of c] by linarith
  then show ?thesis using that by (metis uint_0_iff uint_1_eq word_uint_eq_iff)
qed

end
