(* ===== verification/Ring_Impl.thy ===== *)
theory Ring_Impl
  imports Limbs
begin

text \<open>
  The interface of the arithmetic routines: a representation \<open>'a\<close> with operations that implement a
  commutative ring \<open>'r\<close> on the representations satisfying \<open>ok\<close>; \<open>val\<close> reads the ring element off a
  representation. The base field and every level of the tower of package \<open>sm9\<close> interpret it, and the
  loops and formulas written over those operations (square-and-multiply over the bits of an array,
  point addition in Jacobian coordinates) are proved once, here.
\<close>

text \<open>\<open>BitLen\<close> of a \<open>big.Int\<close>; its \<open>Bit(i)\<close> is \<open>bit x i\<close>.\<close>

fun nat_bitlen :: "nat \<Rightarrow> nat" where
  "nat_bitlen n = (if n = 0 then 0 else Suc (nat_bitlen (n div 2)))"

declare nat_bitlen.simps [simp del]

definition big_BitLen :: "int \<Rightarrow> nat" where
  "big_BitLen x = nat_bitlen (nat \<bar>x\<bar>)"

lemma nat_bitlen_bound: "n < 2 ^ nat_bitlen n"
proof (induction n rule: nat_bitlen.induct)
  case (1 n)
  show ?case
  proof (cases "n = 0")
    case False
    then have "n div 2 + 1 \<le> 2 ^ nat_bitlen (n div 2)" using 1 by simp
    then have "n < 2 * 2 ^ nat_bitlen (n div 2)" by linarith
    then show ?thesis using False by (simp add: nat_bitlen.simps [of n])
  qed simp
qed

lemma big_BitLen_mod: "0 \<le> x \<Longrightarrow> x mod 2 ^ big_BitLen x = x"
proof -
  assume x: "0 \<le> x"
  then have "x < 2 ^ big_BitLen x"
    using nat_bitlen_bound [of "nat x"] by (simp add: big_BitLen_def nat_less_iff)
  with x show ?thesis by simp
qed

locale ring_impl =
  fixes ok :: "'a \<Rightarrow> bool" and val :: "'a \<Rightarrow> 'r::comm_ring_1"
    and add sub mul :: "'a \<Rightarrow> 'a \<Rightarrow> 'a" and neg :: "'a \<Rightarrow> 'a"
  assumes ok_add: "ok a \<Longrightarrow> ok b \<Longrightarrow> ok (add a b)" and val_add: "ok a \<Longrightarrow> ok b \<Longrightarrow> val (add a b) = val a + val b"
    and ok_sub: "ok a \<Longrightarrow> ok b \<Longrightarrow> ok (sub a b)" and val_sub: "ok a \<Longrightarrow> ok b \<Longrightarrow> val (sub a b) = val a - val b"
    and ok_mul: "ok a \<Longrightarrow> ok b \<Longrightarrow> ok (mul a b)" and val_mul: "ok a \<Longrightarrow> ok b \<Longrightarrow> val (mul a b) = val a * val b"
    and ok_neg: "ok a \<Longrightarrow> ok (neg a)" and val_neg: "ok a \<Longrightarrow> val (neg a) = - val a"
begin

lemmas ok_intros = ok_add ok_sub ok_mul ok_neg
lemmas val_simps = val_add val_sub val_mul val_neg

text \<open>Square and multiply, from the lowest bit, over one word and over an array of words.\<close>

lemma pow_bits:
  assumes "ok s" "ok x"
  shows "case fold (\<lambda>b (s, x). (if bit w b then mul s x else s, mul x x)) [0..<n] (s, x) of (s', x') \<Rightarrow>
    ok s' \<and> ok x' \<and> val s' = val s * val x ^ nat (uint (w :: u64) mod 2 ^ n) \<and> val x' = val x ^ (2 ^ n)"
proof (induction n)
  case 0 then show ?case using assms by simp
next
  case (Suc n)
  obtain s' x' where st: "fold (\<lambda>b (s, x). (if bit w b then mul s x else s, mul x x)) [0..<n] (s, x) = (s', x')"
    by fastforce
  have IH: "ok s'" "ok x'" "val s' = val s * val x ^ nat (uint w mod 2 ^ n)" "val x' = val x ^ (2 ^ n)"
    using Suc.IH by (simp_all add: st)
  have "uint w mod 2 ^ Suc n = of_bool (bit w n) * 2 ^ n + uint w mod 2 ^ n"
    using take_bit_Suc_from_most [of n "uint w"] by (simp add: take_bit_eq_mod bit_uint_iff mult.commute)
      (auto dest: bit_imp_le_length)
  then have "nat (uint w mod 2 ^ Suc n) = (if bit w n then 2 ^ n else 0) + nat (uint w mod 2 ^ n)"
    by (auto simp: nat_add_distrib nat_power_eq)
  moreover have "val x ^ 2 ^ n * val x ^ 2 ^ n = val x ^ (2 * 2 ^ n)" by (simp add: mult_2 power_add)
  ultimately show ?case using IH by (auto simp: st ok_mul val_mul power_add ac_simps)
qed

lemma pow_limbs:
  assumes "ok s" "ok x"
  shows "case fold (\<lambda>w. fold (\<lambda>b (s, x). (if bit w b then mul s x else s, mul x x)) [0..<64]) ws (s, x) of (s', x') \<Rightarrow>
    ok s' \<and> ok x' \<and> val s' = val s * val x ^ nat (limbs ws)"
  using assms
proof (induction ws arbitrary: s x)
  case (Cons w ws)
  obtain s' x' where st: "fold (\<lambda>b (s, x). (if bit w b then mul s x else s, mul x x)) [0..<64] (s, x) = (s', x')"
    by fastforce
  have w: "uint w mod 2 ^ 64 = uint w"
    by (rule mod_pos_pos_trivial) (rule uint_ge_0, rule uint_u64_bound)
  have s': "ok s'" "ok x'" "val s' = val s * val x ^ nat (uint w)" "val x' = val x ^ (2 ^ 64)"
    using pow_bits [OF Cons.prems, of w 64] unfolding st prod.case w by simp_all
  have "nat (limbs (w # ws)) = nat (uint w) + 2 ^ 64 * nat (limbs ws)"
    by (simp add: nat_add_distrib nat_mult_distrib)
  moreover have "fold (\<lambda>w. fold (\<lambda>b (s, x). (if bit w b then mul s x else s, mul x x)) [0..<64]) (w # ws) (s, x)
    = fold (\<lambda>w. fold (\<lambda>b (s, x). (if bit w b then mul s x else s, mul x x)) [0..<64]) ws (s', x')"
    by (simp add: st)
  ultimately show ?case using Cons.IH [OF s'(1,2)] s'
    by (simp only: power_add power_mult mult.assoc split: prod.splits)
qed simp

end

text \<open>With a unit and a squaring routine: square and multiply from the highest bit of a big integer.\<close>

locale ring_impl_square = ring_impl ok val add sub mul neg
  for ok :: "'a \<Rightarrow> bool" and val :: "'a \<Rightarrow> 'r::comm_ring_1"
    and add sub mul :: "'a \<Rightarrow> 'a \<Rightarrow> 'a" and neg :: "'a \<Rightarrow> 'a" +
  fixes one :: 'a and square :: "'a \<Rightarrow> 'a"
  assumes ok_one: "ok one" and val_one: "val one = 1"
    and ok_square: "ok a \<Longrightarrow> ok (square a)" and val_square: "ok a \<Longrightarrow> val (square a) = val a * val a"
begin

lemma pow_high_bits:
  assumes "ok s" "ok a"
  shows "ok (fold (\<lambda>i s. let t = square s in if bit k i then mul t a else t) (rev [0..<n]) s)
    \<and> val (fold (\<lambda>i s. let t = square s in if bit k i then mul t a else t) (rev [0..<n]) s)
      = val s ^ (2 ^ n) * val a ^ nat ((k :: int) mod 2 ^ n)"
  using assms(1)
proof (induction n arbitrary: s)
  case 0 then show ?case by simp
next
  case (Suc n)
  let ?s = "if bit k n then mul (square s) a else square s"
  have s: "ok ?s" "val ?s = val s * val s * val a ^ of_bool (bit k n)"
    using Suc.prems assms(2) by (simp_all add: ok_mul ok_square val_mul val_square)
  have "k mod 2 ^ Suc n = of_bool (bit k n) * 2 ^ n + k mod 2 ^ n"
    using take_bit_Suc_from_most [of n k] by (simp add: take_bit_eq_mod)
  then have e: "nat (k mod 2 ^ Suc n) = (if bit k n then 2 ^ n else 0) + nat (k mod 2 ^ n)"
    by (auto simp: nat_add_distrib nat_power_eq)
  have "(val s * val s * val a ^ of_bool (bit k n)) ^ 2 ^ n * val a ^ nat (k mod 2 ^ n)
    = val s ^ 2 ^ Suc n * val a ^ nat (k mod 2 ^ Suc n)"
    unfolding e by (simp add: power_mult_distrib power_add power_mult [symmetric] mult_2 mult.assoc of_bool_def)
  then show ?case using Suc.IH [OF s(1)] s(2) by (simp add: Let_def)
qed

end

end
