(* ===== verification/Sm9_Spec.thy ===== *)
theory Sm9_Spec
  imports Main
begin

text \<open>
  The algebra that package \<open>sm9\<close> computes in, as rings of their own: the integers modulo \<open>Sm9_p\<close>
  (\<open>fp\<close>), the quadratic extension \<open>fp2\<close> with \<open>i\<^sup>2 = -2\<close>, the cubic extension \<open>fp6\<close> of it with
  \<open>\<tau>\<^sup>3 = i\<close>, and the quadratic extension \<open>fp12\<close> with \<open>\<omega>\<^sup>2 = \<tau>\<close>. Each is an instance of
  \<open>comm_ring_1\<close>; the theories of the code map their representations into these types.
\<close>

section \<open>Integers modulo the field prime\<close>

definition Sm9_p :: int where
  "Sm9_p = 0xB640000002A3A6F1D603AB4FF58EC74521F2934B1A7AEEDBE56F9B27E351457D"

lemma Sm9_p_pos [simp]: "0 < Sm9_p" "1 < Sm9_p" "0 \<le> Sm9_p"
  by (simp_all add: Sm9_p_def)

typedef fp = "{x :: int. 0 \<le> x \<and> x < Sm9_p}"
  by (rule exI [of _ 0]) simp

setup_lifting type_definition_fp

lift_definition to_fp :: "int \<Rightarrow> fp" is "\<lambda>x. x mod Sm9_p"
  by simp

lift_definition fp_int :: "fp \<Rightarrow> int" is "\<lambda>x. x" .

instantiation fp :: comm_ring_1
begin

lift_definition zero_fp :: fp is 0 by simp
lift_definition one_fp :: fp is 1 by simp
lift_definition plus_fp :: "fp \<Rightarrow> fp \<Rightarrow> fp" is "\<lambda>x y. (x + y) mod Sm9_p" by simp
lift_definition minus_fp :: "fp \<Rightarrow> fp \<Rightarrow> fp" is "\<lambda>x y. (x - y) mod Sm9_p" by simp
lift_definition uminus_fp :: "fp \<Rightarrow> fp" is "\<lambda>x. (- x) mod Sm9_p" by simp
lift_definition times_fp :: "fp \<Rightarrow> fp \<Rightarrow> fp" is "\<lambda>x y. (x * y) mod Sm9_p" by simp

instance
proof
  fix a b c :: fp
  show "a * b * c = a * (b * c)" by transfer (simp add: mod_simps mult.assoc)
  show "a * b = b * a" by transfer (simp add: mult.commute)
  show "1 * a = a" by transfer simp
  show "a + b + c = a + (b + c)" by transfer (simp add: mod_simps add.assoc)
  show "a + b = b + a" by transfer (simp add: add.commute)
  show "0 + a = a" by transfer simp
  show "- a + a = 0" by transfer (simp add: mod_simps)
  show "a - b = a + - b" by transfer (simp add: mod_simps)
  show "(a + b) * c = a * c + b * c" by transfer (simp add: mod_simps distrib_right)
  show "(0 :: fp) \<noteq> 1" by transfer simp
qed

end

lemma to_fp_eq_iff: "to_fp a = to_fp b \<longleftrightarrow> a mod Sm9_p = b mod Sm9_p"
  by transfer simp

lemma to_fp_add: "to_fp (a + b) = to_fp a + to_fp b"
  by transfer (simp add: mod_simps)

lemma to_fp_diff: "to_fp (a - b) = to_fp a - to_fp b"
  by transfer (simp add: mod_simps)

lemma to_fp_mult: "to_fp (a * b) = to_fp a * to_fp b"
  by transfer (simp add: mod_simps)

lemma to_fp_minus: "to_fp (- a) = - to_fp a"
  by transfer (simp add: mod_simps)

lemma to_fp_0 [simp]: "to_fp 0 = 0"
  by transfer simp

lemma to_fp_1 [simp]: "to_fp 1 = 1"
  by transfer simp

lemma to_fp_mod [simp]: "to_fp (a mod Sm9_p) = to_fp a"
  by transfer simp

lemma to_fp_of_int: "to_fp k = of_int k"
proof (induction k rule: int_induct [of _ 0])
  case base then show ?case by simp
next
  case (step1 i) then show ?case by (simp add: to_fp_add)
next
  case (step2 i) then show ?case by (simp add: to_fp_diff)
qed

lemma to_fp_power: "to_fp (a ^ n) = to_fp a ^ n"
  by (simp add: to_fp_of_int)

lemma fp_int_to_fp: "fp_int (to_fp a) = a mod Sm9_p"
  by transfer simp

lemma to_fp_fp_int [simp]: "to_fp (fp_int a) = a"
  by transfer simp

lemma fp_int_bounds: "0 \<le> fp_int a" "fp_int a < Sm9_p"
  by (transfer; simp)+

lemma fp_int_inject: "fp_int a = fp_int b \<longleftrightarrow> a = b"
  by transfer simp

section \<open>The quadratic extension\<close>

datatype fp2 = Fp2 (fp2_i: fp) (fp2_1: fp)

lemma fp2_eq_iff: "a = b \<longleftrightarrow> fp2_i a = fp2_i b \<and> fp2_1 a = fp2_1 b"
  by (cases a; cases b) simp

instantiation fp2 :: comm_ring_1
begin

definition "0 = Fp2 0 0"
definition "1 = Fp2 0 1"
definition "a + b = Fp2 (fp2_i a + fp2_i b) (fp2_1 a + fp2_1 b)"
definition "a - b = Fp2 (fp2_i a - fp2_i b) (fp2_1 a - fp2_1 b)"
definition "- a = Fp2 (- fp2_i a) (- fp2_1 a)"
definition "a * b = Fp2 (fp2_i a * fp2_1 b + fp2_1 a * fp2_i b) (fp2_1 a * fp2_1 b - 2 * (fp2_i a * fp2_i b))"

lemmas fp2_defs = zero_fp2_def one_fp2_def plus_fp2_def minus_fp2_def uminus_fp2_def times_fp2_def

instance
  by standard (simp_all add: fp2_defs fp2_eq_iff algebra_simps)

end

text \<open>The residue \<open>\<xi> = i\<close> that the cubic extension adjoins a root of.\<close>

definition xi :: fp2 where "xi = Fp2 1 0"

lemma two_fp2: "2 = Fp2 0 2"
  by (simp only: one_add_one [symmetric]) (simp add: fp2_defs)

lemma xi_square: "xi * xi = - 2"
  by (simp add: two_fp2) (simp add: xi_def fp2_defs)

section \<open>The cubic extension of it\<close>

datatype fp6 = Fp6 (fp6_tt: fp2) (fp6_t: fp2) (fp6_1: fp2)

lemma fp6_eq_iff: "a = b \<longleftrightarrow> fp6_tt a = fp6_tt b \<and> fp6_t a = fp6_t b \<and> fp6_1 a = fp6_1 b"
  by (cases a; cases b) simp

instantiation fp6 :: comm_ring_1
begin

definition "0 = Fp6 0 0 0"
definition "1 = Fp6 0 0 1"
definition "a + b = Fp6 (fp6_tt a + fp6_tt b) (fp6_t a + fp6_t b) (fp6_1 a + fp6_1 b)"
definition "a - b = Fp6 (fp6_tt a - fp6_tt b) (fp6_t a - fp6_t b) (fp6_1 a - fp6_1 b)"
definition "- a = Fp6 (- fp6_tt a) (- fp6_t a) (- fp6_1 a)"
definition "a * b = Fp6
  (fp6_tt a * fp6_1 b + fp6_t a * fp6_t b + fp6_1 a * fp6_tt b)
  (fp6_t a * fp6_1 b + fp6_1 a * fp6_t b + xi * (fp6_tt a * fp6_tt b))
  (fp6_1 a * fp6_1 b + xi * (fp6_tt a * fp6_t b + fp6_t a * fp6_tt b))"

lemmas fp6_defs = zero_fp6_def one_fp6_def plus_fp6_def minus_fp6_def uminus_fp6_def times_fp6_def

instance
  by standard (simp_all add: fp6_defs fp6_eq_iff algebra_simps)

end

definition tau :: fp6 where "tau = Fp6 0 1 0"

lemma tau_cube: "tau * tau * tau = Fp6 0 0 xi"
  by (simp add: tau_def fp6_defs)

section \<open>The quadratic extension of that\<close>

datatype fp12 = Fp12 (fp12_w: fp6) (fp12_1: fp6)

lemma fp12_eq_iff: "a = b \<longleftrightarrow> fp12_w a = fp12_w b \<and> fp12_1 a = fp12_1 b"
  by (cases a; cases b) simp

instantiation fp12 :: comm_ring_1
begin

definition "0 = Fp12 0 0"
definition "1 = Fp12 0 1"
definition "a + b = Fp12 (fp12_w a + fp12_w b) (fp12_1 a + fp12_1 b)"
definition "a - b = Fp12 (fp12_w a - fp12_w b) (fp12_1 a - fp12_1 b)"
definition "- a = Fp12 (- fp12_w a) (- fp12_1 a)"
definition "a * b = Fp12 (fp12_w a * fp12_1 b + fp12_1 a * fp12_w b)
  (fp12_1 a * fp12_1 b + tau * (fp12_w a * fp12_w b))"

lemmas fp12_defs = zero_fp12_def one_fp12_def plus_fp12_def minus_fp12_def uminus_fp12_def times_fp12_def

instance
  by standard (simp_all add: fp12_defs fp12_eq_iff algebra_simps)

end

end
