(* ===== verification/Sm9_Field.thy ===== *)
theory Sm9_Field
  imports Ring_Impl Sm9_Spec
begin

text \<open>
  The base field of package \<open>sm9\<close>, files \<open>gfp.go\<close> and \<open>gfp_generic.go\<close>: elements are arrays of four
  64-bit words in Montgomery form, here lists of length four. The constants \<open>p2\<close>, \<open>np\<close>, \<open>rN1\<close>,
  \<open>r2\<close>, \<open>r3\<close> are those of \<open>constants.go\<close>. A Go function that writes its result through its first
  argument returns it here. The build for amd64 replaces \<open>gfpNeg\<close>, \<open>gfpAdd\<close>, \<open>gfpSub\<close> and \<open>gfpMul\<close> by
  assembly that is not modelled.

  \<open>gfp_val\<close> reads the field element off an array; the operations are shown to implement the ring
  \<open>fp\<close> on arrays below \<open>Sm9_p\<close>, by way of exact statements about their limbs.
\<close>

section \<open>The arrays and their reductions\<close>

type_synonym gfP = "u64 list"

definition p2 :: gfP where
  "p2 = [0xe56f9b27e351457d, 0x21f2934b1a7aeedb, 0xd603ab4ff58ec745, 0xb640000002a3a6f1]"

definition np :: gfP where
  "np = [0x892bc42c2f2ee42b, 0x181ae39613c8dbaf, 0x966a4b291522b137, 0xafd2bac5558a13b3]"

definition rN1 :: gfP where
  "rN1 = [0x0a1c7970e5df544d, 0xe74504e9a96b56cc, 0xcda02d92d4d62924, 0x7d2bc576fdf597d1]"

definition r2 :: gfP where
  "r2 = [0x27dea312b417e2d2, 0x88f8105fae1a5d3f, 0xe479b522d6706e7b, 0x2ea795a656f62fbd]"

definition r3 :: gfP where
  "r3 = [0x130257769df5827e, 0x36920fc0837ec76e, 0xcbec24519c22a142, 0x219be84a7c687090]"

definition gfpCarry :: "gfP \<Rightarrow> u64 \<Rightarrow> gfP" where
  "gfpCarry a head =
     (let (b, carry) = sub_loop a p2 0;
          carry = carry AND NOT head;
          carry = - carry;
          ncarry = NOT carry
      in map2 (\<lambda>ai bi. (ai AND carry) OR (bi AND ncarry)) a b)"

definition gfpNeg :: "gfP \<Rightarrow> gfP" where
  "gfpNeg a = gfpCarry (fst (sub_loop p2 a 0)) 0"

definition gfpAdd :: "gfP \<Rightarrow> gfP \<Rightarrow> gfP" where
  "gfpAdd a b = (let (c, carry) = add_loop a b 0 in gfpCarry c carry)"

definition gfpSub :: "gfP \<Rightarrow> gfP \<Rightarrow> gfP" where
  "gfpSub a b =
     (let t = fst (sub_loop p2 b 0); (c, carry) = add_loop a t 0 in gfpCarry c carry)"

section \<open>Multiplication\<close>

text \<open>
  \<open>mul\<close> splits every word of \<open>a\<close> into four 16-bit digits and every word of \<open>b\<close> into two 32-bit
  digits, and collects the partial products of weight \<open>2 ^ (16 * k)\<close> in \<open>buff[k]\<close>; three carry
  passes then fold the cells \<open>4 * j + i\<close> into the cells \<open>4 * j\<close>. \<open>halfMul\<close> does the same for the low
  half of the product only, and its inner loop breaks once \<open>i + j\<close> exceeds 3.
\<close>

definition mask16 :: u64 where "mask16 = 0x0000ffff"
definition mask32 :: u64 where "mask32 = 0xffffffff"

definition add_at :: "nat \<Rightarrow> u64 \<Rightarrow> u64 list \<Rightarrow> u64 list" where
  "add_at k v buff = buff[k := buff ! k + v]"

definition mul_step :: "nat \<Rightarrow> nat \<Rightarrow> u64 \<Rightarrow> u64 \<Rightarrow> u64 list \<Rightarrow> u64 list" where
  "mul_step i j ai bj buff =
     (let a0 = ai AND mask16; a1 = drop_bit 16 ai AND mask16;
          a2 = drop_bit 32 ai AND mask16; a3 = drop_bit 48 ai;
          b0 = bj AND mask32; b2 = drop_bit 32 bj;
          off = 4 * (i + j);
          buff = add_at (off + 0) (a0 * b0) buff;
          buff = add_at (off + 1) (a1 * b0) buff;
          buff = add_at (off + 2) (a2 * b0 + a0 * b2) buff;
          buff = add_at (off + 3) (a3 * b0 + a1 * b2) buff;
          buff = add_at (off + 4) (a2 * b2) buff;
          buff = add_at (off + 5) (a3 * b2) buff
      in buff)"

definition mul_row :: "gfP \<Rightarrow> gfP \<Rightarrow> nat list \<Rightarrow> nat \<Rightarrow> u64 list \<Rightarrow> u64 list" where
  "mul_row a b js i buff = fold (\<lambda>j. mul_step i j (a ! i) (b ! j)) js buff"

definition carry_step :: "nat \<Rightarrow> u64 list \<times> u64 \<times> u64 \<Rightarrow> nat \<Rightarrow> u64 list \<times> u64 \<times> u64" where
  "carry_step i = (\<lambda>(buff, head, carry) j.
     let shift = 16 * i; block = 4 * j;
         xi = buff ! block;
         yi = push_bit shift (buff ! (block + i)) + head;
         zi = xi + yi + carry
     in (buff[block := zi], drop_bit (64 - shift) (buff ! (block + i)), add_carry xi yi zi))"

definition carry_pass :: "nat \<Rightarrow> nat \<Rightarrow> u64 list \<Rightarrow> u64 list" where
  "carry_pass n i buff = fst (foldl (carry_step i) (buff, 0, 0) [0..<n])"

definition mul :: "gfP \<Rightarrow> gfP \<Rightarrow> u64 list" where
  "mul a b =
     (let buff = fold (mul_row a b [0..<4]) [0..<4] (replicate 32 0);
          buff = fold (carry_pass 8) [1..<4] buff
      in map (\<lambda>j. buff ! (4 * j)) [0..<8])"

definition halfMul :: "gfP \<Rightarrow> gfP \<Rightarrow> gfP" where
  "halfMul a b =
     (let buff = fold (\<lambda>i. mul_row a b (takeWhile (\<lambda>j. \<not> i + j > 3) [0..<4]) i) [0..<4] (replicate 18 0);
          buff = fold (carry_pass 4) [1..<4] buff
      in map (\<lambda>j. buff ! (4 * j)) [0..<4])"

definition gfpMul :: "gfP \<Rightarrow> gfP \<Rightarrow> gfP" where
  "gfpMul a b =
     (let T = mul a b;
          m = halfMul (take 4 T) np;
          t = mul m p2;
          (T, carry) = add_loop T t 0
      in gfpCarry (drop 4 T) carry)"

definition montEncode :: "gfP \<Rightarrow> gfP" where
  "montEncode a = gfpMul a r2"

definition montDecode :: "gfP \<Rightarrow> gfP" where
  "montDecode a = gfpMul a [1, 0, 0, 0]"

section \<open>Cells of weight 2 ^ (16 * k)\<close>

primrec cells :: "u64 list \<Rightarrow> int" where
  "cells [] = 0"
| "cells (x # xs) = uint x + 2 ^ 16 * cells xs"

definition bounded :: "int \<Rightarrow> u64 list \<Rightarrow> bool" where
  "bounded B xs \<longleftrightarrow> (\<forall>x\<in>set xs. uint x \<le> B)"

lemma cells_replicate_zero [simp]: "cells (replicate n 0) = 0"
  by (induction n) simp_all

lemma cells_update:
  "k < length xs \<Longrightarrow> cells (xs[k := v]) = cells xs + 2 ^ (16 * k) * (uint v - uint (xs ! k))"
proof (induction xs arbitrary: k)
  case (Cons x xs)
  show ?case
  proof (cases k)
    case (Suc n)
    then have "cells (xs[n := v]) = cells xs + 2 ^ (16 * n) * (uint v - uint (xs ! n))"
      using Cons by simp
    then show ?thesis by (simp add: Suc algebra_simps power_add)
  qed simp
qed simp

lemma cells_sum: "cells xs = (\<Sum>k<length xs. uint (xs ! k) * 2 ^ (16 * k))"
proof (induction xs)
  case (Cons x xs)
  have "(\<Sum>k<length xs. uint (xs ! k) * 2 ^ (16 + 16 * k)) = 2 ^ 16 * cells xs"
    unfolding Cons.IH sum_distrib_left by (simp add: power_add ac_simps)
  then show ?case by (simp only: length_Cons sum.lessThan_Suc_shift) (simp add: power_add)
qed simp

lemma length_add_at [simp]: "length (add_at k v xs) = length xs"
  by (simp add: add_at_def)

lemma add_at_cells:
  assumes "k < length xs" "bounded B xs" "uint v \<le> d" "B + d < 2 ^ 64"
  shows "cells (add_at k v xs) = cells xs + 2 ^ (16 * k) * uint v" 
proof -
  have "uint (xs ! k) \<le> B" using assms by (simp add: bounded_def)
  then have "uint (xs ! k + v) = uint (xs ! k) + uint v" using assms by (intro uint_add_no_overflow) linarith
  then show ?thesis using assms(1) by (simp add: add_at_def cells_update)
qed

lemma masks: "mask16 = mask 16" "mask32 = mask 32"
  by (simp_all add: mask16_def mask32_def mask_eq_exp_minus_1)

lemma digits16:
  "uint x = uint (x AND mask16) + 2 ^ 16 * uint (drop_bit 16 x AND mask16)
      + 2 ^ 32 * uint (drop_bit 32 x AND mask16) + 2 ^ 48 * uint (drop_bit 48 x :: u64)"
proof -
  define y where "y = uint x"
  have d: "y div 2 ^ 32 = y div 2 ^ 16 div 2 ^ 16" "y div 2 ^ 48 = y div 2 ^ 32 div 2 ^ 16"
    by (simp_all add: zdiv_zmult2_eq [symmetric])
  have "y = y mod 2 ^ 16 + 2 ^ 16 * (y div 2 ^ 16)"
    "y div 2 ^ 16 = (y div 2 ^ 16) mod 2 ^ 16 + 2 ^ 16 * (y div 2 ^ 32)"
    "y div 2 ^ 32 = (y div 2 ^ 32) mod 2 ^ 16 + 2 ^ 16 * (y div 2 ^ 48)"
    by (simp_all only: d mod_mult_div_eq)
  moreover have "y = r0 + 2 ^ 16 * r1 + 2 ^ 32 * r2 + 2 ^ 48 * q3"
    if "y = r0 + 2 ^ 16 * q1" "q1 = r1 + 2 ^ 16 * q2" "q2 = r2 + 2 ^ 16 * q3" for q1 q2 q3 r0 r1 r2
    using that by simp
  ultimately have "y = y mod 2 ^ 16 + 2 ^ 16 * (y div 2 ^ 16 mod 2 ^ 16)
      + 2 ^ 32 * (y div 2 ^ 32 mod 2 ^ 16) + 2 ^ 48 * (y div 2 ^ 48)" by blast
  then show ?thesis by (simp only: masks uint_and_mask uint_drop_bit y_def)
qed

lemma digits32: "uint x = uint (x AND mask32) + 2 ^ 32 * uint (drop_bit 32 x :: u64)"
  by (simp only: masks uint_and_mask uint_drop_bit mod_mult_div_eq)

lemma digit_bounds:
  "uint (x AND mask16 :: u64) < 2 ^ 16" "uint (x AND mask32 :: u64) < 2 ^ 32"
  "uint (drop_bit 48 x :: u64) < 2 ^ 16" "uint (drop_bit 32 x :: u64) < 2 ^ 32"
proof -
  have "uint x < 2 ^ 16 * 2 ^ 48" "uint x < 2 ^ 32 * 2 ^ 32" using uint_u64_bound [of x] by simp_all
  then show "uint (drop_bit 48 x) < 2 ^ 16" "uint (drop_bit 32 x) < 2 ^ 32"
    by (simp_all only: uint_drop_bit int_div_less zero_less_power zero_less_numeral)
qed (simp_all only: masks uint_and_mask pos_mod_bound zero_less_power zero_less_numeral)

lemma mult_bound: "0 \<le> a \<Longrightarrow> a \<le> A \<Longrightarrow> 0 \<le> b \<Longrightarrow> b \<le> B \<Longrightarrow> a * b \<le> A * B" for a b A B :: int
  by (meson mult_mono order_trans)

text \<open>One partial product: every cell grows by less than \<open>2 ^ 49\<close>.\<close>

lemma length_mul_step [simp]: "length (mul_step i j ai bj buff) = length buff"
  by (simp add: mul_step_def Let_def)

lemma digit_product:
  assumes "uint x < 2 ^ 16" "uint y < 2 ^ 32"
  shows "uint (x * y :: u64) = uint x * uint y" "uint (x * y :: u64) \<le> 2 ^ 48"
proof -
  have "uint x * uint y \<le> 2 ^ 16 * 2 ^ 32" using assms by (intro mult_bound) auto
  then show "uint (x * y) = uint x * uint y" by (intro uint_mult_no_overflow) simp
  then show "uint (x * y) \<le> 2 ^ 48" using \<open>uint x * uint y \<le> 2 ^ 16 * 2 ^ 32\<close> by simp
qed

lemma digit_product_sum:
  assumes "uint x < 2 ^ 16" "uint y < 2 ^ 32" "uint x' < 2 ^ 16" "uint y' < 2 ^ 32"
  shows "uint (x * y + x' * y' :: u64) = uint x * uint y + uint x' * uint y'"
    "uint (x * y + x' * y' :: u64) \<le> 2 ^ 49"
proof -
  have *: "uint (x * y) + uint (x' * y') \<le> 2 ^ 49"
    using digit_product(2) [OF assms(1,2)] digit_product(2) [OF assms(3,4)] by simp
  then have "uint (x * y + x' * y') = uint (x * y) + uint (x' * y')"
    by (intro uint_add_no_overflow) simp
  with * show "uint (x * y + x' * y') = uint x * uint y + uint x' * uint y'"
    "uint (x * y + x' * y') \<le> 2 ^ 49"
    by (simp_all only: digit_product(1) [OF assms(1,2)] digit_product(1) [OF assms(3,4)])
qed

lemma add_at_bounded:
  assumes "bounded B xs" "uint v \<le> d" "B + d < 2 ^ 64"
  shows "bounded (B + d) (add_at k v xs)"
proof (cases "k < length xs")
  case True
  have d: "0 \<le> d" using assms(2) uint_ge_0 [of v] by linarith
  have "uint (xs ! k) \<le> B" using assms True by (simp add: bounded_def)
  then have "uint (xs ! k + v) \<le> B + d"
    using assms by (subst uint_add_no_overflow) linarith+
  moreover have "uint x \<le> B + d" if "x \<in> set xs" for x
    using assms(1) d that by (fastforce simp: bounded_def)
  ultimately show ?thesis
    using set_update_subset_insert [of xs k "xs ! k + v"] by (auto simp: bounded_def add_at_def)
next
  case False
  then have "add_at k v xs = xs" by (simp add: add_at_def list_update_beyond)
  moreover have "0 \<le> d" using assms(2) uint_ge_0 [of v] by linarith
  ultimately show ?thesis using assms(1) by (fastforce simp: bounded_def)
qed

lemma add_at_step:
  assumes "k < length xs" "bounded B xs" "uint v \<le> d" "B + d < 2 ^ 64"
  shows "cells (add_at k v xs) = cells xs + 2 ^ (16 * k) * uint v \<and> bounded (B + d) (add_at k v xs)"
  using add_at_cells [OF assms] add_at_bounded [OF assms(2-4)] by blast

lemma six_adds:
  assumes len: "k + 5 < length buff" and b: "bounded B buff" and B: "B + 6 * D < 2 ^ 64" and D: "0 \<le> D"
    and v: "uint v0 \<le> D" "uint v1 \<le> D" "uint v2 \<le> D" "uint v3 \<le> D" "uint v4 \<le> D" "uint v5 \<le> D"
  defines "buff' \<equiv> add_at (k + 5) v5 (add_at (k + 4) v4 (add_at (k + 3) v3 (add_at (k + 2) v2
      (add_at (k + 1) v1 (add_at (k + 0) v0 buff)))))"
  shows "cells buff' = cells buff + 2 ^ (16 * k) * (uint v0 + 2 ^ 16 * uint v1 + 2 ^ 32 * uint v2
      + 2 ^ 48 * uint v3 + 2 ^ 64 * uint v4 + 2 ^ 80 * uint v5) \<and> bounded (B + 6 * D) buff'"
proof -
  define c0 where "c0 = add_at (k + 0) v0 buff"
  define c1 where "c1 = add_at (k + 1) v1 c0"
  define c2 where "c2 = add_at (k + 2) v2 c1"
  define c3 where "c3 = add_at (k + 3) v3 c2"
  define c4 where "c4 = add_at (k + 4) v4 c3"
  have n: "length c0 = length buff" "length c1 = length buff" "length c2 = length buff"
    "length c3 = length buff" "length c4 = length buff"
    by (simp_all add: c0_def c1_def c2_def c3_def c4_def)
  have 0: "cells c0 = cells buff + 2 ^ (16 * (k + 0)) * uint v0 \<and> bounded (B + D) c0"
    unfolding c0_def by (rule add_at_step) (use assms n in auto)
  have 1: "cells c1 = cells c0 + 2 ^ (16 * (k + 1)) * uint v1 \<and> bounded (B + D + D) c1"
    unfolding c1_def by (rule add_at_step) (use assms n 0 in auto)
  have 2: "cells c2 = cells c1 + 2 ^ (16 * (k + 2)) * uint v2 \<and> bounded (B + D + D + D) c2"
    unfolding c2_def by (rule add_at_step) (use assms n 1 in auto)
  have 3: "cells c3 = cells c2 + 2 ^ (16 * (k + 3)) * uint v3 \<and> bounded (B + D + D + D + D) c3"
    unfolding c3_def by (rule add_at_step) (use assms n 2 in auto)
  have 4: "cells c4 = cells c3 + 2 ^ (16 * (k + 4)) * uint v4 \<and> bounded (B + D + D + D + D + D) c4"
    unfolding c4_def by (rule add_at_step) (use assms n 3 in auto)
  have 5: "cells buff' = cells c4 + 2 ^ (16 * (k + 5)) * uint v5 \<and> bounded (B + D + D + D + D + D + D) buff'"
    unfolding buff'_def c0_def [symmetric] c1_def [symmetric] c2_def [symmetric] c3_def [symmetric] c4_def [symmetric]
    by (rule add_at_step) (use assms n 4 in auto)
  have "B + D + D + D + D + D + D = B + 6 * D" by simp
  with 0 1 2 3 4 5 show ?thesis by (simp add: algebra_simps power_add)
qed

lemma mul_step_cells:
  assumes len: "4 * (i + j) + 5 < length buff" and b: "bounded B buff" and B: "B + 6 * 2 ^ 49 < 2 ^ 64"
  shows "cells (mul_step i j x y buff) = cells buff + 2 ^ (64 * (i + j)) * (uint x * uint y)
    \<and> bounded (B + 6 * 2 ^ 49) (mul_step i j x y buff)"
proof -
  let ?a0 = "x AND mask16" and ?a1 = "drop_bit 16 x AND mask16"
    and ?a2 = "drop_bit 32 x AND mask16" and ?a3 = "drop_bit 48 x"
    and ?b0 = "y AND mask32" and ?b2 = "drop_bit 32 y"
  note p1 = digit_product [OF digit_bounds(1) digit_bounds(2)]
    digit_product [OF digit_bounds(1) digit_bounds(4)]
    digit_product [OF digit_bounds(3) digit_bounds(4)]
  note p2 = digit_product_sum [OF digit_bounds(1) digit_bounds(2) digit_bounds(1) digit_bounds(4)]
    digit_product_sum [OF digit_bounds(3) digit_bounds(2) digit_bounds(1) digit_bounds(4)]
  have le: "z \<le> 2 ^ 49" if "z \<le> 2 ^ 48" for z :: int using that by simp
  have "cells (mul_step i j x y buff) = cells buff + 2 ^ (16 * (4 * (i + j))) * (uint (?a0 * ?b0)
      + 2 ^ 16 * uint (?a1 * ?b0) + 2 ^ 32 * uint (?a2 * ?b0 + ?a0 * ?b2)
      + 2 ^ 48 * uint (?a3 * ?b0 + ?a1 * ?b2) + 2 ^ 64 * uint (?a2 * ?b2) + 2 ^ 80 * uint (?a3 * ?b2))
    \<and> bounded (B + 6 * 2 ^ 49) (mul_step i j x y buff)"
    unfolding mul_step_def Let_def
    by (rule six_adds [OF len b B]) (simp, (rule p2 le p1)+)
  moreover have "uint (?a0 * ?b0)
      + 2 ^ 16 * uint (?a1 * ?b0) + 2 ^ 32 * uint (?a2 * ?b0 + ?a0 * ?b2)
      + 2 ^ 48 * uint (?a3 * ?b0 + ?a1 * ?b2) + 2 ^ 64 * uint (?a2 * ?b2) + 2 ^ 80 * uint (?a3 * ?b2)
    = (uint ?a0 + 2 ^ 16 * uint ?a1 + 2 ^ 32 * uint ?a2 + 2 ^ 48 * uint ?a3) * (uint ?b0 + 2 ^ 32 * uint ?b2)"
    unfolding p1 p2 by (simp add: algebra_simps)
  ultimately show ?thesis
    by (simp only: digits16 [symmetric] digits32 [symmetric] mult.assoc [symmetric]) simp
qed

lemma length_mul_row [simp]: "length (mul_row a b js i buff) = length buff"
  by (induction js arbitrary: buff) (simp_all add: mul_row_def)

lemma mul_row_cells:
  assumes "\<forall>j\<in>set js. 4 * (i + j) + 5 < length buff" "bounded B buff" "B + 6 * 2 ^ 49 * int (length js) < 2 ^ 64"
  shows "cells (mul_row a b js i buff) = cells buff + (\<Sum>j\<leftarrow>js. 2 ^ (64 * (i + j)) * (uint (a ! i) * uint (b ! j)))
    \<and> bounded (B + 6 * 2 ^ 49 * int (length js)) (mul_row a b js i buff)"
  using assms
proof (induction js arbitrary: B buff)
  case Nil then show ?case by (simp add: mul_row_def)
next
  case (Cons j js)
  let ?buff = "mul_step i j (a ! i) (b ! j) buff"
  have 1: "cells ?buff = cells buff + 2 ^ (64 * (i + j)) * (uint (a ! i) * uint (b ! j))
    \<and> bounded (B + 6 * 2 ^ 49) ?buff"
    by (rule mul_step_cells) (use Cons.prems in auto)
  have "cells (mul_row a b js i ?buff) = cells ?buff + (\<Sum>j\<leftarrow>js. 2 ^ (64 * (i + j)) * (uint (a ! i) * uint (b ! j)))
    \<and> bounded (B + 6 * 2 ^ 49 + 6 * 2 ^ 49 * int (length js)) (mul_row a b js i ?buff)"
    by (rule Cons.IH) (use Cons.prems 1 in \<open>auto simp: algebra_simps\<close>)
  then show ?case using 1 by (simp add: mul_row_def algebra_simps)
qed

lemma bounded_zero: "bounded 0 (replicate n 0)"
  by (simp add: bounded_def)

lemma length4_cases:
  assumes "length a = 4"
  obtains a0 a1 a2 a3 where "a = [a0, a1, a2, a3]"
  using assms by (auto simp: numeral_eq_Suc length_Suc_conv)

lemma fold_upt4: "fold f [0..<4] z = f 3 (f 2 (f 1 (f 0 z)))"
  by (simp add: upt_rec numeral_2_eq_2 numeral_3_eq_3)

lemma mul_cells:
  assumes "length a = 4" "length b = 4"
  shows "cells (fold (mul_row a b [0..<4]) [0..<4] (replicate 32 0)) = limbs a * limbs b"
proof -
  obtain a0 a1 a2 a3 b0 b1 b2 b3 where ab: "a = [a0, a1, a2, a3]" "b = [b0, b1, b2, b3]"
    using assms by (metis length4_cases)
  have js: "[0..<4] = [0, 1, 2, 3]" by (simp add: upt_rec)
  let ?r = "mul_row a b [0..<4]" and ?z = "replicate 32 0"
  let ?B = "6 * 2 ^ 49 * int (length [0..<4])"
  have 0: "cells (?r 0 ?z) = cells ?z + (\<Sum>j\<leftarrow>[0..<4]. 2 ^ (64 * (0 + j)) * (uint (a ! 0) * uint (b ! j)))
    \<and> bounded (0 + ?B) (?r 0 ?z)"
    by (rule mul_row_cells [OF _ bounded_zero]) (auto simp: js)
  have 1: "cells (?r 1 (?r 0 ?z)) = cells (?r 0 ?z) + (\<Sum>j\<leftarrow>[0..<4]. 2 ^ (64 * (1 + j)) * (uint (a ! 1) * uint (b ! j)))
    \<and> bounded (0 + ?B + ?B) (?r 1 (?r 0 ?z))"
    by (rule mul_row_cells) (use 0 in \<open>auto simp: js\<close>)
  have 2: "cells (?r 2 (?r 1 (?r 0 ?z))) = cells (?r 1 (?r 0 ?z)) + (\<Sum>j\<leftarrow>[0..<4]. 2 ^ (64 * (2 + j)) * (uint (a ! 2) * uint (b ! j)))
    \<and> bounded (0 + ?B + ?B + ?B) (?r 2 (?r 1 (?r 0 ?z)))"
    by (rule mul_row_cells) (use 1 in \<open>auto simp: js\<close>)
  have 3: "cells (?r 3 (?r 2 (?r 1 (?r 0 ?z)))) = cells (?r 2 (?r 1 (?r 0 ?z)))
      + (\<Sum>j\<leftarrow>[0..<4]. 2 ^ (64 * (3 + j)) * (uint (a ! 3) * uint (b ! j)))
    \<and> bounded (0 + ?B + ?B + ?B + ?B) (?r 3 (?r 2 (?r 1 (?r 0 ?z))))"
    by (rule mul_row_cells) (use 2 in \<open>auto simp: js\<close>)
  have "fold ?r [0..<4] ?z = ?r 3 (?r 2 (?r 1 (?r 0 ?z)))" by (rule fold_upt4)
  then have "cells (fold ?r [0..<4] ?z)
      = (\<Sum>j\<leftarrow>[0..<4]. 2 ^ (64 * (0 + j)) * (uint (a ! 0) * uint (b ! j)))
      + (\<Sum>j\<leftarrow>[0..<4]. 2 ^ (64 * (1 + j)) * (uint (a ! 1) * uint (b ! j)))
      + (\<Sum>j\<leftarrow>[0..<4]. 2 ^ (64 * (2 + j)) * (uint (a ! 2) * uint (b ! j)))
      + (\<Sum>j\<leftarrow>[0..<4]. 2 ^ (64 * (3 + j)) * (uint (a ! 3) * uint (b ! j)))"
    using 0 1 2 3 by simp
  also have "\<dots> = limbs a * limbs b"
    by (simp add: js ab algebra_simps)
  finally show ?thesis .
qed

lemma half_rows:
  "takeWhile (\<lambda>j. \<not> 0 + j > 3) [0..<4] = [0..<4]" "takeWhile (\<lambda>j. \<not> 1 + j > 3) [0..<4] = [0..<3]"
  "takeWhile (\<lambda>j. \<not> 2 + j > 3) [0..<4] = [0..<2]" "takeWhile (\<lambda>j. \<not> 3 + j > 3) [0..<4] = [0..<1]"
  by (simp_all add: upt_rec)

lemma halfMul_cells:
  assumes "length a = 4" "length b = 4"
  shows "cells (fold (\<lambda>i. mul_row a b (takeWhile (\<lambda>j. \<not> i + j > 3) [0..<4]) i) [0..<4] (replicate 18 0)) mod 2 ^ 256
    = limbs a * limbs b mod 2 ^ 256"
proof -
  obtain a0 a1 a2 a3 b0 b1 b2 b3 where ab: "a = [a0, a1, a2, a3]" "b = [b0, b1, b2, b3]"
    using assms by (metis length4_cases)
  have js: "[0..<4] = [0, 1, 2, 3]" "[0..<3] = [0, 1, 2]" "[0..<2] = [0, 1]" "[0..<1] = [0]"
    by (simp_all add: upt_rec)
  let ?r = "\<lambda>n. mul_row a b [0..<n]" and ?z = "replicate 18 0"
  let ?B = "\<lambda>n. 6 * 2 ^ 49 * int (length [0..<n])"
  have 0: "cells (?r 4 0 ?z) = cells ?z + (\<Sum>j\<leftarrow>[0..<4]. 2 ^ (64 * (0 + j)) * (uint (a ! 0) * uint (b ! j)))
    \<and> bounded (0 + ?B 4) (?r 4 0 ?z)"
    by (rule mul_row_cells [OF _ bounded_zero]) (auto simp: js)
  have 1: "cells (?r 3 1 (?r 4 0 ?z)) = cells (?r 4 0 ?z)
      + (\<Sum>j\<leftarrow>[0..<3]. 2 ^ (64 * (1 + j)) * (uint (a ! 1) * uint (b ! j)))
    \<and> bounded (0 + ?B 4 + ?B 3) (?r 3 1 (?r 4 0 ?z))"
    by (rule mul_row_cells) (use 0 in \<open>auto simp: js\<close>)
  have 2: "cells (?r 2 2 (?r 3 1 (?r 4 0 ?z))) = cells (?r 3 1 (?r 4 0 ?z))
      + (\<Sum>j\<leftarrow>[0..<2]. 2 ^ (64 * (2 + j)) * (uint (a ! 2) * uint (b ! j)))
    \<and> bounded (0 + ?B 4 + ?B 3 + ?B 2) (?r 2 2 (?r 3 1 (?r 4 0 ?z)))"
    by (rule mul_row_cells) (use 1 in \<open>auto simp: js\<close>)
  have 3: "cells (?r 1 3 (?r 2 2 (?r 3 1 (?r 4 0 ?z)))) = cells (?r 2 2 (?r 3 1 (?r 4 0 ?z)))
      + (\<Sum>j\<leftarrow>[0..<1]. 2 ^ (64 * (3 + j)) * (uint (a ! 3) * uint (b ! j)))
    \<and> bounded (0 + ?B 4 + ?B 3 + ?B 2 + ?B 1) (?r 1 3 (?r 2 2 (?r 3 1 (?r 4 0 ?z))))"
    by (rule mul_row_cells) (use 2 in \<open>auto simp: js\<close>)
  have "fold (\<lambda>i. mul_row a b (takeWhile (\<lambda>j. \<not> i + j > 3) [0..<4]) i) [0..<4] ?z
      = ?r 1 3 (?r 2 2 (?r 3 1 (?r 4 0 ?z)))"
    by (simp only: fold_upt4 half_rows)
  then have *: "cells (fold (\<lambda>i. mul_row a b (takeWhile (\<lambda>j. \<not> i + j > 3) [0..<4]) i) [0..<4] ?z)
      = (\<Sum>j\<leftarrow>[0..<4]. 2 ^ (64 * (0 + j)) * (uint (a ! 0) * uint (b ! j)))
      + (\<Sum>j\<leftarrow>[0..<3]. 2 ^ (64 * (1 + j)) * (uint (a ! 1) * uint (b ! j)))
      + (\<Sum>j\<leftarrow>[0..<2]. 2 ^ (64 * (2 + j)) * (uint (a ! 2) * uint (b ! j)))
      + (\<Sum>j\<leftarrow>[0..<1]. 2 ^ (64 * (3 + j)) * (uint (a ! 3) * uint (b ! j)))" (is "?c = ?s")
    using 0 1 2 3 by simp
  have "limbs a * limbs b = ?s + 2 ^ 256 * (uint a1 * uint b3 + uint a2 * (uint b2 + 2 ^ 64 * uint b3)
      + uint a3 * (uint b1 + 2 ^ 64 * uint b2 + 2 ^ 128 * uint b3))"
    by (simp add: js ab algebra_simps)
  then show ?thesis unfolding * by (simp only: mod_mult_self2)
qed

section \<open>The carry passes\<close>

definition lane :: "u64 list \<Rightarrow> nat \<Rightarrow> nat \<Rightarrow> int" where
  "lane buff i n = (\<Sum>j<n. uint (buff ! (4 * j + i)) * 2 ^ (64 * j))"

lemma carry_step_eq:
  "carry_step i (buff, head, carry) j =
    (let y = push_bit (16 * i) (buff ! (4 * j + i)) + head; z = buff ! (4 * j) + y + carry
     in (buff[4 * j := z], drop_bit (64 - 16 * i) (buff ! (4 * j + i)), add_carry (buff ! (4 * j)) y z))"
  by (simp add: carry_step_def Let_def)

lemma carry_pass_invariant:
  assumes i: "1 \<le> i" "i < 4" and n: "4 * n + i \<le> length buff + 3"
  shows "case foldl (carry_step i) (buff, 0, 0) [0..<n] of (b, head, carry) \<Rightarrow>
    length b = length buff \<and> (\<forall>k. k mod 4 \<noteq> 0 \<or> 4 * n \<le> k \<longrightarrow> b ! k = buff ! k) \<and>
    uint carry \<le> 1 \<and> uint head < 2 ^ (16 * i) \<and>
    lane b 0 n + 2 ^ (64 * n) * (uint head + uint carry) = lane buff 0 n + 2 ^ (16 * i) * lane buff i n"
  using n
proof (induction n)
  case 0 then show ?case by (simp add: lane_def)
next
  case (Suc n)
  obtain b head carry where st: "foldl (carry_step i) (buff, 0, 0) [0..<n] = (b, head, carry)"
    using prod_cases3 by blast
  have "4 * n + i \<le> length buff + 3" using Suc.prems by simp
  with Suc.IH have IH: "length b = length buff" "\<And>k. k mod 4 \<noteq> 0 \<or> 4 * n \<le> k \<Longrightarrow> b ! k = buff ! k"
    "uint carry \<le> 1" "uint head < 2 ^ (16 * i)"
    "lane b 0 n + 2 ^ (64 * n) * (uint head + uint carry) = lane buff 0 n + 2 ^ (16 * i) * lane buff i n"
    by (auto simp: st)
  have k: "4 * n < length b" "4 * n + i < length b" using Suc.prems i IH(1) by simp_all
  have bi: "b ! (4 * n + i) = buff ! (4 * n + i)" "b ! (4 * n) = buff ! (4 * n)" by (rule IH(2); simp)+
  let ?c = "buff ! (4 * n + i)" and ?x = "buff ! (4 * n)"
  define y where "y = push_bit (16 * i) ?c + head"
  define z where "z = ?x + y + carry"
  define head' where "head' = drop_bit (64 - 16 * i) ?c"
  define carry' where "carry' = add_carry ?x y z"
  have st': "foldl (carry_step i) (buff, 0, 0) [0..<Suc n] = (b[4 * n := z], head', carry')"
    by (simp add: st carry_step_eq Let_def bi y_def z_def head'_def carry'_def)
  have y: "uint y + 2 ^ 64 * uint head' = 2 ^ (16 * i) * uint ?c + uint head" "uint head' < 2 ^ (16 * i)"
    unfolding y_def head'_def by (rule shifted_cell; use i IH(4) in simp)+
  have z: "uint z + 2 ^ 64 * uint carry' = uint ?x + uint y + uint carry" "uint carry' \<le> 1"
    unfolding z_def carry'_def by (rule add_carry_val [OF IH(3)], rule add_carry_bit)
  have "lane (b[4 * n := z]) 0 n = lane b 0 n"
    unfolding lane_def by (rule sum.cong) auto
  then have "lane (b[4 * n := z]) 0 (Suc n) = lane b 0 n + uint z * 2 ^ (64 * n)"
    using k by (simp add: lane_def)
  moreover have "lane buff i (Suc n) = lane buff i n + uint ?c * 2 ^ (64 * n)"
    "lane buff 0 (Suc n) = lane buff 0 n + uint ?x * 2 ^ (64 * n)" by (simp_all add: lane_def)
  moreover have "uint z + 2 ^ 64 * (uint head' + uint carry') = uint ?x + 2 ^ (16 * i) * uint ?c + uint head + uint carry"
    using y z by (simp add: algebra_simps)
  then have "2 ^ (64 * n) * (uint z + 2 ^ 64 * (uint head' + uint carry'))
    = 2 ^ (64 * n) * (uint ?x + 2 ^ (16 * i) * uint ?c + uint head + uint carry)" by simp
  ultimately have "lane (b[4 * n := z]) 0 (Suc n) + 2 ^ (64 * Suc n) * (uint head' + uint carry')
    = lane buff 0 (Suc n) + 2 ^ (16 * i) * lane buff i (Suc n)"
    using IH(5) by (simp add: algebra_simps power_add)
  moreover have "b[4 * n := z] ! k = buff ! k" if "k mod 4 \<noteq> 0 \<or> 4 * Suc n \<le> k" for k
  proof -
    have "k \<noteq> 4 * n" using that by auto
    then show ?thesis using IH(2) [of k] that by auto
  qed
  ultimately show ?case unfolding st' prod.case using IH(1) y(2) z(2) by (simp only: length_list_update) blast
qed


lemma carry_pass_lane:
  assumes "1 \<le> i" "i < 4" "4 * n + i \<le> length buff + 3"
  shows "length (carry_pass n i buff) = length buff
    \<and> (\<forall>k. k mod 4 \<noteq> 0 \<longrightarrow> carry_pass n i buff ! k = buff ! k)
    \<and> (\<exists>h\<ge>0. lane (carry_pass n i buff) 0 n + 2 ^ (64 * n) * h = lane buff 0 n + 2 ^ (16 * i) * lane buff i n)"
proof -
  obtain b head carry where st: "foldl (carry_step i) (buff, 0, 0) [0..<n] = (b, head, carry)"
    using prod_cases3 by blast
  show ?thesis using carry_pass_invariant [OF assms] unfolding carry_pass_def st
    by (auto intro!: exI [of _ "uint head + uint carry"])
qed

lemma lane_cong: "(\<And>k. k mod 4 \<noteq> 0 \<Longrightarrow> b ! k = buff ! k) \<Longrightarrow> 1 \<le> i \<Longrightarrow> i < 4 \<Longrightarrow> lane b i n = lane buff i n"
  unfolding lane_def by (rule sum.cong) auto

lemma carry_passes:
  assumes "4 * n \<le> length buff"
  shows "\<exists>h\<ge>0. lane (fold (carry_pass n) [1..<4] buff) 0 n + 2 ^ (64 * n) * h
    = lane buff 0 n + 2 ^ 16 * lane buff 1 n + 2 ^ 32 * lane buff 2 n + 2 ^ 48 * lane buff 3 n"
proof -
  define b1 where "b1 = carry_pass n 1 buff"
  define b2 where "b2 = carry_pass n 2 b1"
  define b3 where "b3 = carry_pass n 3 b2"
  have f: "fold (carry_pass n) [1..<4] buff = b3"
    by (simp add: upt_rec numeral_2_eq_2 numeral_3_eq_3 b1_def b2_def b3_def)
  have 1: "length b1 = length buff \<and> (\<forall>k. k mod 4 \<noteq> 0 \<longrightarrow> b1 ! k = buff ! k)
    \<and> (\<exists>h\<ge>0. lane b1 0 n + 2 ^ (64 * n) * h = lane buff 0 n + 2 ^ (16 * 1) * lane buff 1 n)"
    unfolding b1_def by (rule carry_pass_lane) (use assms in auto)
  have 2: "length b2 = length b1 \<and> (\<forall>k. k mod 4 \<noteq> 0 \<longrightarrow> b2 ! k = b1 ! k)
    \<and> (\<exists>h\<ge>0. lane b2 0 n + 2 ^ (64 * n) * h = lane b1 0 n + 2 ^ (16 * 2) * lane b1 2 n)"
    unfolding b2_def by (rule carry_pass_lane) (use assms 1 in auto)
  have 3: "length b3 = length b2 \<and> (\<forall>k. k mod 4 \<noteq> 0 \<longrightarrow> b3 ! k = b2 ! k)
    \<and> (\<exists>h\<ge>0. lane b3 0 n + 2 ^ (64 * n) * h = lane b2 0 n + 2 ^ (16 * 3) * lane b2 3 n)"
    unfolding b3_def by (rule carry_pass_lane) (use assms 1 2 in auto)
  have l: "lane b1 2 n = lane buff 2 n" "lane b2 3 n = lane buff 3 n"
    using 1 2 by (auto intro!: lane_cong)
  obtain h1 h2 h3 where h: "0 \<le> h1" "0 \<le> h2" "0 \<le> h3"
    "lane b1 0 n + 2 ^ (64 * n) * h1 = lane buff 0 n + 2 ^ (16 * 1) * lane buff 1 n"
    "lane b2 0 n + 2 ^ (64 * n) * h2 = lane b1 0 n + 2 ^ (16 * 2) * lane b1 2 n"
    "lane b3 0 n + 2 ^ (64 * n) * h3 = lane b2 0 n + 2 ^ (16 * 3) * lane b2 3 n"
    using 1 2 3 by blast
  then show ?thesis unfolding f l
    by (intro exI [of _ "h1 + h2 + h3"]) (auto simp: algebra_simps)
qed

lemma limbs_map: "limbs (map f [0..<n]) = (\<Sum>j<n. uint (f j) * 2 ^ (64 * j))"
  by (induction n) (simp_all add: limbs_append algebra_simps)

lemma cells_lanes:
  assumes "4 * n \<le> length buff"
  shows "\<exists>r. cells buff = lane buff 0 n + 2 ^ 16 * lane buff 1 n + 2 ^ 32 * lane buff 2 n
    + 2 ^ 48 * lane buff 3 n + 2 ^ (64 * n) * r"
  using assms
proof (induction n arbitrary: buff)
  case 0 then show ?case by (simp add: lane_def)
next
  case (Suc n)
  then obtain c0 c1 c2 c3 rest where b: "buff = c0 # c1 # c2 # c3 # rest"
    by (cases buff; cases "tl buff"; cases "tl (tl buff)"; cases "tl (tl (tl buff))") auto
  with Suc obtain r where r: "cells rest = lane rest 0 n + 2 ^ 16 * lane rest 1 n + 2 ^ 32 * lane rest 2 n
    + 2 ^ 48 * lane rest 3 n + 2 ^ (64 * n) * r" by fastforce
  have lane: "lane buff i (Suc n) = uint (buff ! i) + 2 ^ 64 * lane rest i n" for i
    unfolding lane_def sum.lessThan_Suc_shift by (simp add: b sum_distrib_right sum_distrib_left power_add ac_simps)
  show ?case
    by (intro exI [of _ r]) (simp add: lane, simp add: b r algebra_simps power_add)
qed

lemma carry_passes_limbs:
  assumes "4 * n \<le> length buff"
  shows "limbs (map (\<lambda>j. fold (carry_pass n) [1..<4] buff ! (4 * j)) [0..<n]) = cells buff mod 2 ^ (64 * n)"
proof -
  let ?r = "map (\<lambda>j. fold (carry_pass n) [1..<4] buff ! (4 * j)) [0..<n]"
  obtain h where h: "lane (fold (carry_pass n) [1..<4] buff) 0 n + 2 ^ (64 * n) * h
    = lane buff 0 n + 2 ^ 16 * lane buff 1 n + 2 ^ 32 * lane buff 2 n + 2 ^ 48 * lane buff 3 n"
    using carry_passes [OF assms] by blast
  obtain r where r: "cells buff = lane buff 0 n + 2 ^ 16 * lane buff 1 n + 2 ^ 32 * lane buff 2 n
    + 2 ^ 48 * lane buff 3 n + 2 ^ (64 * n) * r" using cells_lanes [OF assms] by blast
  have "limbs ?r = lane (fold (carry_pass n) [1..<4] buff) 0 n" by (simp add: limbs_map lane_def)
  then have "cells buff = limbs ?r + 2 ^ (64 * n) * (h + r)"
    using h r by (simp add: algebra_simps)
  then have "cells buff mod 2 ^ (64 * n) = limbs ?r mod 2 ^ (64 * n)" by simp
  then show ?thesis using limbs_bound [of ?r] by simp
qed

lemma length_fold_mul_row [simp]: "length (fold (\<lambda>i. mul_row a b (js i) i) is buff) = length buff"
  by (induction "is" arbitrary: buff) simp_all

lemma limbs4_bound: "length a = 4 \<Longrightarrow> limbs a < 2 ^ 256"
  using limbs_bound [of a] by simp

lemma mul_val:
  assumes "length a = 4" "length b = 4"
  shows "limbs (mul a b) = limbs a * limbs b"
proof -
  let ?buff = "fold (mul_row a b [0..<4]) [0..<4] (replicate 32 0)"
  have "limbs (mul a b) = cells ?buff mod 2 ^ (64 * 8)"
    unfolding mul_def Let_def by (rule carry_passes_limbs) simp
  also have "\<dots> = limbs a * limbs b mod 2 ^ (64 * 8)" by (simp only: mul_cells [OF assms])
  also have "limbs a * limbs b < 2 ^ 256 * 2 ^ 256"
    using assms by (intro mult_strict_mono limbs4_bound) auto
  then have "limbs a * limbs b mod 2 ^ (64 * 8) = limbs a * limbs b" by simp
  finally show ?thesis .
qed

lemma halfMul_val:
  assumes "length a = 4" "length b = 4"
  shows "limbs (halfMul a b) = limbs a * limbs b mod 2 ^ 256"
proof -
  let ?buff = "fold (\<lambda>i. mul_row a b (takeWhile (\<lambda>j. \<not> i + j > 3) [0..<4]) i) [0..<4] (replicate 18 0)"
  have "limbs (halfMul a b) = cells ?buff mod 2 ^ (64 * 4)"
    unfolding halfMul_def Let_def by (rule carry_passes_limbs) simp
  then show ?thesis using halfMul_cells [OF assms] by simp
qed

lemma length_mul [simp]: "length (mul a b) = 8"
  by (simp add: mul_def Let_def)

lemma length_halfMul [simp]: "length (halfMul a b) = 4"
  by (simp add: halfMul_def Let_def)

section \<open>Reduction\<close>

lemma p2_val: "limbs p2 = Sm9_p"
  by (simp add: p2_def Sm9_p_def)

text \<open>
  \<open>Rinv\<close> is the inverse of the Montgomery radix \<open>2 ^ 256\<close>; with \<open>np\<close> it satisfies Bezout's identity.
\<close>

definition Rinv :: int where
  "Rinv = 0x7d2bc576fdf597d1cda02d92d4d62924e74504e9a96b56cc0a1c7970e5df544d"

lemma Rinv_np: "2 ^ 256 * Rinv = limbs np * Sm9_p + 1"
  by (simp add: np_def Sm9_p_def Rinv_def)

lemma np_val: "limbs np * Sm9_p mod 2 ^ 256 = 2 ^ 256 - 1"
proof -
  have "limbs np * Sm9_p = (2 ^ 256 - 1) + 2 ^ 256 * (Rinv - 1)" using Rinv_np by (simp add: right_diff_distrib)
  then have "limbs np * Sm9_p mod 2 ^ 256 = (2 ^ 256 - 1) mod 2 ^ 256" by (simp only: mod_mult_self2)
  then show ?thesis by simp
qed

lemma length_consts [simp]: "length p2 = 4" "length np = 4" "length rN1 = 4" "length r2 = 4" "length r3 = 4"
  by (simp_all add: p2_def np_def rN1_def r2_def r3_def)

lemma map2_select: "length a = length b \<Longrightarrow>
  map2 (\<lambda>ai bi. (ai AND c) OR (bi AND NOT c)) a b = (if c = 0 then b else if c = - 1 then a else map2 (\<lambda>ai bi. (ai AND c) OR (bi AND NOT c)) a b)"
  by (induction a b rule: list_induct2) auto

lemma gfpCarry_val:
  assumes "length a = 4" "uint head \<le> 1" "limbs a + 2 ^ 256 * uint head < 2 * Sm9_p"
  shows "limbs (gfpCarry a head) = (limbs a + 2 ^ 256 * uint head) mod Sm9_p \<and> length (gfpCarry a head) = 4"
proof -
  obtain b c where bc: "sub_loop a p2 0 = (b, c)" by fastforce
  have len: "length b = 4" using length_sub_loop [of a p2 0] assms(1) by (simp add: bc)
  have c1: "uint c \<le> 1" using sub_loop_borrow_bit [of 0 a p2] by (simp add: bc)
  have b: "limbs b - 2 ^ 256 * uint c = limbs a - Sm9_p"
    using sub_loop_val [of a p2 0] assms(1) by (simp add: bc p2_val)
  have lb: "limbs b < 2 ^ 256" "limbs a < 2 ^ 256" "0 \<le> limbs b" "0 \<le> limbs a"
    using limbs4_bound len assms(1) by simp_all
  have pp: "0 < Sm9_p" "Sm9_p < 2 ^ 256" "2 ^ 256 < 2 * Sm9_p" by (simp_all add: Sm9_p_def)
  have g: "gfpCarry a head = map2 (\<lambda>ai bi. (ai AND - (c AND NOT head)) OR (bi AND NOT (- (c AND NOT head)))) a b"
    by (simp add: gfpCarry_def bc Let_def)
  have v: "(limbs a + 2 ^ 256 * uint head) mod Sm9_p = (if Sm9_p \<le> limbs a + 2 ^ 256 * uint head
      then limbs a + 2 ^ 256 * uint head - Sm9_p else limbs a + 2 ^ 256 * uint head)"
    using assms(3) lb by (intro mod_carry) simp_all
  consider "c = 0" | "c = 1" "head = 0" | "c = 1" "head = 1"
    using carry_bit_cases [OF c1] carry_bit_cases [OF assms(2)] by metis
  then show ?thesis
  proof cases
    case 1
    then have "gfpCarry a head = b" unfolding g using map2_select [of a b 0] len assms(1) by simp
    moreover have *: "limbs b = limbs a - Sm9_p" using b 1 by simp
    moreover have "head = 0"
    proof (rule carry_bit_cases [OF assms(2)])
      assume "head = 1"
      then show "head = 0" using * lb pp assms(3) by simp
    qed
    ultimately show ?thesis using v len lb by simp
  next
    case 2
    then have "gfpCarry a head = a" unfolding g using map2_select [of a b "-1"] len assms(1) by simp
    then show ?thesis using v 2 b lb pp assms(1) by simp
  next
    case 3
    then have "gfpCarry a head = b" unfolding g using map2_select [of a b 0] len assms(1) by simp
    moreover have "limbs b = limbs a + 2 ^ 256 - Sm9_p" using b 3 by simp
    ultimately show ?thesis using v 3 len lb pp by simp
  qed
qed


section \<open>Montgomery multiplication\<close>

lemma Rinv_R: "2 ^ 256 * Rinv mod Sm9_p = 1"
  unfolding Rinv_np by (simp del: power_numeral)

lemma Rinv_cancel: "(2 ^ 256 * x) * Rinv mod Sm9_p = x mod Sm9_p"
proof -
  have "(2 ^ 256 * x) * Rinv mod Sm9_p = (2 ^ 256 * Rinv mod Sm9_p) * x mod Sm9_p"
    by (simp only: mod_mult_left_eq) (simp only: mult_ac)
  then show ?thesis by (simp only: Rinv_R mult_1)
qed

lemma gfpMul_val:
  assumes len: "length a = 4" "length b = 4" and bound: "limbs a * limbs b < 2 ^ 256 * Sm9_p"
  shows "limbs (gfpMul a b) = limbs a * limbs b * Rinv mod Sm9_p \<and> length (gfpMul a b) = 4"
proof -
  define T where "T = mul a b"
  define m where "m = halfMul (take 4 T) np"
  define t where "t = mul m p2"
  obtain T' c where T': "add_loop T t 0 = (T', c)" by fastforce
  have lens: "length T = 8" "length m = 4" "length t = 8" by (simp_all add: T_def m_def t_def)
  then have lT': "length T' = 8" using length_add_loop [of T t 0] by (simp add: T')
  have c: "uint c \<le> 1" using add_loop_carry_bit [of 0 T t] by (simp add: T')
  have vT: "limbs T = limbs a * limbs b" unfolding T_def by (rule mul_val [OF len])
  have vm: "limbs m = limbs T * limbs np mod 2 ^ 256"
  proof -
    have "limbs m = limbs (take 4 T) * limbs np mod 2 ^ 256"
      unfolding m_def by (rule halfMul_val) (simp_all add: lens)
    also have "limbs (take 4 T) = limbs T mod 2 ^ 256" using limbs_take [of 4 T] lens by simp
    finally show ?thesis by (simp only: mod_mult_left_eq)
  qed
  have vt: "limbs t = limbs m * Sm9_p" unfolding t_def by (simp add: mul_val lens p2_val)
  have sum: "limbs T' + 2 ^ 512 * uint c = limbs T + limbs m * Sm9_p"
    using add_loop_val [of T t 0] lens by (simp add: T' vt)
  have "(limbs T + limbs m * Sm9_p) mod 2 ^ 256 = (limbs T + (limbs T * limbs np mod 2 ^ 256) * Sm9_p) mod 2 ^ 256"
    by (simp only: vm)
  also have "\<dots> = (limbs T + limbs T * (limbs np * Sm9_p mod 2 ^ 256)) mod 2 ^ 256"
    by (metis (no_types, opaque_lifting) mod_add_right_eq mod_mult_left_eq mod_mult_right_eq mult.assoc)
  also have "\<dots> = (limbs T * 2 ^ 256) mod 2 ^ 256"
    unfolding np_val by (simp only: right_diff_distrib mult_1_right add_diff_cancel_left' diff_add_cancel add_diff_eq)
  finally have low: "(limbs T + limbs m * Sm9_p) mod 2 ^ 256 = 0" by simp
  define v where "v = limbs (drop 4 T') + 2 ^ 256 * uint c"
  have "limbs T' mod 2 ^ 256 = (limbs T' + 2 ^ 512 * uint c) mod 2 ^ 256"
  proof -
    have "(2::int) ^ 512 * uint c = 2 ^ 256 * (2 ^ 256 * uint c)" by simp
    then show ?thesis by (simp only: mod_mult_self2)
  qed
  then have "limbs (take 4 T') = 0" using limbs_take [of 4 T'] lT' low sum by simp
  then have v: "2 ^ 256 * v = limbs a * limbs b + limbs m * Sm9_p"
    using limbs_take_drop [of 4 T'] lT' sum by (simp add: v_def vT)
  have "limbs m < 2 ^ 256" using limbs4_bound lens by simp
  then have "limbs m * Sm9_p < 2 ^ 256 * Sm9_p" by (intro mult_strict_right_mono) (simp_all add: Sm9_p_def)
  then have "2 ^ 256 * v < 2 ^ 256 * (2 * Sm9_p)" using v bound by linarith
  then have bound': "v < 2 * Sm9_p" by (simp only: mult_less_cancel_left_pos zero_less_power zero_less_numeral)
  have g: "gfpMul a b = gfpCarry (drop 4 T') c"
    by (simp only: gfpMul_def Let_def T_def [symmetric] m_def [symmetric] t_def [symmetric] T' prod.case)
  have "v mod Sm9_p = (2 ^ 256 * v) * Rinv mod Sm9_p" by (rule Rinv_cancel [symmetric])
  also have "\<dots> = (limbs a * limbs b * Rinv + Sm9_p * (limbs m * Rinv)) mod Sm9_p"
    unfolding v by (simp only: distrib_right distrib_left mult_ac)
  also have "\<dots> = limbs a * limbs b * Rinv mod Sm9_p" by (rule mod_mult_self2)
  finally show ?thesis
    unfolding g using gfpCarry_val [of "drop 4 T'" c] lT' c bound' by (simp add: v_def)
qed

section \<open>The operations implement the field\<close>

definition gfp_ok :: "gfP \<Rightarrow> bool" where
  "gfp_ok a \<longleftrightarrow> length a = 4 \<and> limbs a < Sm9_p"

definition gfp_val :: "gfP \<Rightarrow> fp" where
  "gfp_val a = to_fp (limbs a * Rinv)"

lemma p2_minus:
  assumes "length a = 4" "limbs a \<le> Sm9_p"
  shows "limbs (fst (sub_loop p2 a 0)) = Sm9_p - limbs a \<and> length (fst (sub_loop p2 a 0)) = 4"
proof -
  obtain t c where t: "sub_loop p2 a 0 = (t, c)" by fastforce
  have len: "length t = 4" using length_sub_loop [of p2 a 0] assms by (simp add: t)
  have v: "limbs t - 2 ^ 256 * uint c = Sm9_p - limbs a"
    using sub_loop_val [of p2 a 0] assms by (simp add: t p2_val)
  have "uint c \<le> 1" using sub_loop_borrow_bit [of 0 p2 a] by (simp add: t)
  then have "c = 0"
  proof (rule carry_bit_cases)
    assume "c = 1"
    then show ?thesis using v limbs4_bound [OF len] assms(2) by simp
  qed
  then show ?thesis using v len by (simp add: t)
qed

lemma gfpNeg_val:
  assumes "length a = 4" "limbs a \<le> Sm9_p"
  shows "limbs (gfpNeg a) = (- limbs a) mod Sm9_p \<and> length (gfpNeg a) = 4"
proof -
  have "(Sm9_p - limbs a) mod Sm9_p = (- limbs a) mod Sm9_p"
    by (metis diff_0 minus_mod_self1 mod_diff_eq)
  then show ?thesis
    using gfpCarry_val [of "fst (sub_loop p2 a 0)" 0] p2_minus [OF assms] limbs_nonneg [of a]
    by (simp add: gfpNeg_def Sm9_p_def)
qed

lemma gfpAdd_val:
  assumes "length a = 4" "length b = 4" "limbs a + limbs b < 2 * Sm9_p"
  shows "limbs (gfpAdd a b) = (limbs a + limbs b) mod Sm9_p \<and> length (gfpAdd a b) = 4"
proof -
  obtain t c where t: "add_loop a b 0 = (t, c)" by fastforce
  have "length t = 4" using length_add_loop [of a b 0] assms by (simp add: t)
  moreover have "limbs t + 2 ^ 256 * uint c = limbs a + limbs b"
    using add_loop_val [of a b 0] assms by (simp add: t)
  moreover have "uint c \<le> 1" using add_loop_carry_bit [of 0 a b] by (simp add: t)
  ultimately show ?thesis using gfpCarry_val [of t c] assms(3) by (simp add: gfpAdd_def t)
qed

lemma gfpSub_val:
  assumes "length a = 4" "length b = 4" "limbs b \<le> Sm9_p" "limbs a < Sm9_p + limbs b"
  shows "limbs (gfpSub a b) = (limbs a - limbs b) mod Sm9_p \<and> length (gfpSub a b) = 4"
proof -
  have "gfpSub a b = gfpAdd a (fst (sub_loop p2 b 0))" by (simp add: gfpSub_def gfpAdd_def)
  moreover have "(limbs a + (Sm9_p - limbs b)) mod Sm9_p = (limbs a - limbs b) mod Sm9_p"
    by (metis add.commute diff_add_eq mod_add_self1)
  ultimately show ?thesis
    using gfpAdd_val [of a "fst (sub_loop p2 b 0)"] p2_minus [OF assms(2,3)] assms(1,4) by simp
qed

lemma gfp_mod_bound [simp]: "x mod Sm9_p < Sm9_p" "0 \<le> x mod Sm9_p"
  by simp_all

lemma gfp_product_bound:
  assumes "gfp_ok a" "length b = 4"
  shows "limbs a * limbs b < 2 ^ 256 * Sm9_p"
proof -
  have "limbs b * limbs a < 2 ^ 256 * Sm9_p"
    using assms limbs4_bound [OF assms(2)] by (intro mult_strict_mono) (auto simp: gfp_ok_def)
  then show ?thesis by (simp only: mult.commute)
qed

lemma sub_bound: "limbs a < Sm9_p \<Longrightarrow> limbs a < Sm9_p + limbs b"
  using limbs_nonneg [of b] by linarith

lemma gfpMul_ok_val:
  assumes "gfp_ok a" "gfp_ok b"
  shows "gfp_ok (gfpMul a b) \<and> gfp_val (gfpMul a b) = gfp_val a * gfp_val b"
proof -
  have "limbs (gfpMul a b) = limbs a * limbs b * Rinv mod Sm9_p \<and> length (gfpMul a b) = 4"
    using assms gfp_product_bound [of a b] by (intro gfpMul_val) (auto simp: gfp_ok_def)
  then show ?thesis by (simp add: gfp_ok_def gfp_val_def to_fp_mult ac_simps)
qed

interpretation gfp: ring_impl gfp_ok gfp_val gfpAdd gfpSub gfpMul gfpNeg
proof
  fix a b assume ab: "gfp_ok a" "gfp_ok b"
  show "gfp_ok (gfpAdd a b)" "gfp_val (gfpAdd a b) = gfp_val a + gfp_val b"
    using gfpAdd_val [of a b] ab by (simp_all add: gfp_ok_def gfp_val_def to_fp_mult to_fp_add distrib_right)
  show "gfp_ok (gfpSub a b)" "gfp_val (gfpSub a b) = gfp_val a - gfp_val b"
    using gfpSub_val [of a b] ab sub_bound [of a b]
    by (simp_all add: gfp_ok_def gfp_val_def to_fp_mult to_fp_diff left_diff_distrib)
  show "gfp_ok (gfpMul a b)" "gfp_val (gfpMul a b) = gfp_val a * gfp_val b"
    using gfpMul_ok_val [OF ab] by simp_all
next
  fix a assume "gfp_ok a"
  then show "gfp_ok (gfpNeg a)" "gfp_val (gfpNeg a) = - gfp_val a"
    using gfpNeg_val [of a] by (simp_all add: gfp_ok_def gfp_val_def to_fp_mult to_fp_minus)
qed

lemma gfp_val_inject:
  assumes "gfp_ok a" "gfp_ok b"
  shows "gfp_val a = gfp_val b \<longleftrightarrow> a = b"
proof
  assume "gfp_val a = gfp_val b"
  then have "to_fp (2 ^ 256 * (limbs a * Rinv)) = to_fp (2 ^ 256 * (limbs b * Rinv))"
    by (simp only: gfp_val_def to_fp_mult)
  then have "limbs a mod Sm9_p = limbs b mod Sm9_p"
    unfolding to_fp_eq_iff mult.assoc [symmetric] Rinv_cancel .
  then have "limbs a = limbs b" using assms by (simp add: gfp_ok_def)
  then show "a = b" using assms by (auto simp: gfp_ok_def intro: limbs_inject)
qed simp


section \<open>Constants, conversion and inversion\<close>

definition gfP_Set :: "gfP \<Rightarrow> gfP \<Rightarrow> gfP" where
  "gfP_Set e f = e[0 := f ! 0, 1 := f ! 1, 2 := f ! 2, 3 := f ! 3]"

definition newGFp :: "64 word \<Rightarrow> gfP" where
  "newGFp x =
     (let out = (if 0 \<le> sint x then [x, 0, 0, 0] else gfpNeg [- x, 0, 0, 0]) in montEncode out)"

definition invert_bits :: "u64 list" where
  "invert_bits = [0xe56f9b27e351457b, 0x21f2934b1a7aeedb, 0xd603ab4ff58ec745, 0xb640000002a3a6f1]"

definition invert_step :: "u64 \<Rightarrow> nat \<Rightarrow> gfP \<times> gfP \<Rightarrow> gfP \<times> gfP" where
  "invert_step w b = (\<lambda>(sum, power).
     (if drop_bit b w AND 1 = 1 then gfpMul sum power else sum, gfpMul power power))"

definition gfP_Invert :: "gfP \<Rightarrow> gfP" where
  "gfP_Invert f =
     (let (sum, power) = fold (\<lambda>word. fold (invert_step (invert_bits ! word)) [0..<64]) [0..<4] (rN1, f)
      in gfpMul sum r3)"

lemma gfP_Set_eq: "length e = 4 \<Longrightarrow> length f = 4 \<Longrightarrow> gfP_Set e f = f"
  by (auto simp: gfP_Set_def numeral_eq_Suc length_Suc_conv)

lemma consts_ok [simp]: "gfp_ok rN1" "gfp_ok r2" "gfp_ok r3"
  by (simp_all add: gfp_ok_def rN1_def r2_def r3_def Sm9_p_def)

text \<open>Residues of 512-bit products are given with their quotient, which is checked by multiplication.\<close>

lemma to_fp_eqI: "a = b + Sm9_p * q \<Longrightarrow> to_fp a = to_fp b"
  by (simp add: to_fp_eq_iff)

lemma gfp_val_r2: "gfp_val r2 = to_fp (2 ^ 256)"
  unfolding gfp_val_def
  by (rule to_fp_eqI [where q = "0x200af6cf312d7363d4547ee386b38ab54c4a95b58e377acda7cfcacd67b705f2"])
    (simp add: r2_def Rinv_def Sm9_p_def)

lemma r3_r2: "to_fp (limbs r3) = to_fp (limbs r2 * 2 ^ 256)"
  by (rule to_fp_eqI [where q = "- 0x4188b8ec74fd27b0f80ee1a2f763df47f29d150c93e7236d3cdfb055c519232a"])
    (simp add: r2_def r3_def Sm9_p_def)

lemma gfp_val_r3: "gfp_val r3 = to_fp (2 ^ 256 * 2 ^ 256)"
proof -
  have "gfp_val r3 = to_fp (2 ^ 256) * gfp_val r2" by (simp only: gfp_val_def to_fp_mult r3_r2 mult_ac)
  then show ?thesis by (simp only: gfp_val_r2 to_fp_mult)
qed

lemma gfp_val_rN1: "gfp_val rN1 = to_fp (Rinv * Rinv)"
proof -
  have "limbs rN1 = Rinv" by (simp add: rN1_def Rinv_def)
  then show ?thesis by (simp only: gfp_val_def)
qed

lemma to_fp_R_Rinv [simp]: "to_fp (2 ^ 256) * to_fp Rinv = 1"
  by (simp only: to_fp_mult [symmetric] to_fp_1 [symmetric] to_fp_eq_iff Rinv_R) simp

lemma to_fp_Rinv_R [simp]: "to_fp Rinv * to_fp (2 ^ 256) = 1"
  using to_fp_R_Rinv by (simp only: mult.commute)

lemma montEncode_val:
  assumes "gfp_ok a"
  shows "gfp_ok (montEncode a) \<and> gfp_val (montEncode a) = to_fp (limbs a)"
proof -
  have "to_fp (limbs a) * to_fp Rinv * to_fp (2 ^ 256) = to_fp (limbs a) * (to_fp Rinv * to_fp (2 ^ 256))"
    by (rule mult.assoc)
  then show ?thesis
    using gfp.ok_mul [OF assms, of r2] gfp.val_mul [OF assms, of r2]
    by (simp only: montEncode_def gfp_val_r2 gfp_val_def [of a] to_fp_mult consts_ok to_fp_Rinv_R mult_1_right)
qed

lemma montDecode_val:
  assumes "gfp_ok a"
  shows "limbs (montDecode a) = fp_int (gfp_val a) \<and> gfp_ok (montDecode a)"
proof -
  have one: "gfp_ok [1, 0, 0, 0]" by (simp add: gfp_ok_def Sm9_p_def)
  have "limbs (montDecode a) = limbs a * limbs [1, 0, 0, 0] * Rinv mod Sm9_p \<and> length (montDecode a) = 4"
    unfolding montDecode_def
    using assms gfp_product_bound [OF assms, of "[1, 0, 0, 0]"] by (intro gfpMul_val) (auto simp: gfp_ok_def)
  then show ?thesis by (simp add: gfp_ok_def gfp_val_def fp_int_to_fp)
qed

lemma mont_roundtrip:
  assumes "gfp_ok a"
  shows "montDecode (montEncode a) = a"
proof (rule limbs_inject)
  show "length (montDecode (montEncode a)) = length a"
    using montDecode_val [of "montEncode a"] montEncode_val [OF assms] assms by (simp add: gfp_ok_def)
  show "limbs (montDecode (montEncode a)) = limbs a"
    using montDecode_val [of "montEncode a"] montEncode_val [OF assms] assms by (simp add: gfp_ok_def fp_int_to_fp)
qed

lemma sint_u64: "sint (x :: u64) = (if 2 ^ 63 \<le> uint x then uint x - 2 ^ 64 else uint x)"
proof -
  have "sint x = signed_take_bit 63 (uint x)" by (simp add: sint_uint)
  also have "\<dots> = take_bit 64 (uint x) - 2 ^ 64 * of_bool (bit x 63)"
    by (simp add: signed_take_bit_eq_take_bit_minus bit_uint_iff)
  also have "take_bit 64 (uint x) = uint x" using uint_u64_bound [of x] by (simp add: take_bit_eq_mod)
  finally show ?thesis by (simp add: top_bit_u64)
qed

lemma newGFp_val: "gfp_ok (newGFp x) \<and> gfp_val (newGFp x) = to_fp (sint x)"
proof (cases "0 \<le> sint x")
  case True
  have u: "uint x = sint x" using True uint_u64_bound [of x] by (simp add: sint_u64 split: if_splits)
  have "gfp_ok [x, 0, 0, 0]" using uint_u64_bound [of x] by (simp add: gfp_ok_def Sm9_p_def)
  then show ?thesis using montEncode_val [of "[x, 0, 0, 0]"] True by (simp add: newGFp_def u)
next
  case False
  then have x: "2 ^ 63 \<le> uint x" "sint x = uint x - 2 ^ 64"
    using uint_ge_0 [of x] by (auto simp: sint_u64 split: if_splits)
  have "uint (- x) = (- uint x) mod 2 ^ 64"
    by (simp add: uint_word_arith_bintrs take_bit_eq_mod)
  also have "\<dots> = - uint x + 2 ^ 64"
    using x uint_u64_bound [of x] mod_borrow [of "2 ^ 64" "- uint x"] by simp
  finally have u: "uint (- x) = - sint x" using x(2) by simp
  have "limbs [- x, 0, 0, 0] \<le> Sm9_p" using uint_u64_bound [of "- x"] by (simp add: Sm9_p_def)
  then have n: "limbs (gfpNeg [- x, 0, 0, 0]) = sint x mod Sm9_p \<and> length (gfpNeg [- x, 0, 0, 0]) = 4"
    using gfpNeg_val [of "[- x, 0, 0, 0]"] by (simp add: u)
  then have "gfp_ok (gfpNeg [- x, 0, 0, 0])" by (simp add: gfp_ok_def)
  then show ?thesis using montEncode_val [of "gfpNeg [- x, 0, 0, 0]"] False n by (simp add: newGFp_def)
qed

lemma invert_bits_val: "limbs invert_bits = Sm9_p - 2"
  by (simp add: invert_bits_def Sm9_p_def)

lemma and_one_bit: "drop_bit n w AND 1 = (1 :: u64) \<longleftrightarrow> bit w n"
  by (simp add: bit_iff_odd_drop_bit and_one_eq odd_iff_mod_2_eq_one)

lemma gfP_Invert_val:
  assumes "gfp_ok f"
  shows "gfp_ok (gfP_Invert f) \<and> gfp_val (gfP_Invert f) = gfp_val f ^ nat (Sm9_p - 2)"
proof -
  let ?step = "\<lambda>w. fold (\<lambda>b (s, x). (if bit w b then gfpMul s x else s, gfpMul x x)) [0..<64]"
  have step: "invert_step w b = (\<lambda>(s, x). (if bit w b then gfpMul s x else s, gfpMul x x))" for w b
    by (simp add: invert_step_def and_one_bit)
  have loop: "fold (\<lambda>word. fold (invert_step (invert_bits ! word)) [0..<64]) [0..<4] st = fold ?step invert_bits st" for st
    unfolding step [abs_def] by (simp add: fold_upt4 invert_bits_def del: upt_rec_numeral)
  obtain s x where st: "fold ?step invert_bits (rN1, f) = (s, x)" by fastforce
  have s: "gfp_ok s" "gfp_val s = gfp_val rN1 * gfp_val f ^ nat (Sm9_p - 2)"
    using gfp.pow_limbs [of rN1 f invert_bits] assms unfolding st invert_bits_val by simp_all
  have "gfp_val rN1 * gfp_val r3 = (to_fp Rinv * to_fp (2 ^ 256)) * (to_fp Rinv * to_fp (2 ^ 256))"
    unfolding gfp_val_rN1 gfp_val_r3 to_fp_mult by (simp only: mult_ac)
  then have "gfp_val rN1 * gfp_val r3 = 1" by (simp only: to_fp_Rinv_R mult_1)
  then have "gfp_val (gfpMul s r3) = gfp_val f ^ nat (Sm9_p - 2)"
    using s by (simp add: gfp.val_mul) (metis (no_types) mult.assoc mult.commute mult_1)
  then show ?thesis using s(1) gfp.ok_mul [OF s(1), of r3]
    by (simp add: gfP_Invert_def loop st)
qed


section \<open>Byte strings\<close>

text \<open>
  \<open>Marshal\<close> writes 32 bytes, most significant word and byte first; \<open>Unmarshal\<close> adds the bytes it
  reads into its receiver, which its callers have to clear. Both index their slice, so a slice of
  fewer than 32 bytes is a panic, here \<open>None\<close>.
\<close>

definition gfP_Marshal :: "gfP \<Rightarrow> byte list \<Rightarrow> byte list option" where
  "gfP_Marshal e out =
     (if length out < 32 then None
      else Some (fold (\<lambda>w. fold (\<lambda>b out. out[8 * w + b := ucast (drop_bit (56 - 8 * b) (e ! (3 - w)))]) [0..<8])
        [0..<4] out))"

definition gfP_Unmarshal :: "gfP \<Rightarrow> byte list \<Rightarrow> gfP option" where
  "gfP_Unmarshal e inp =
     (if length inp < 32 then None
      else Some (fold (\<lambda>w. fold (\<lambda>b e. e[3 - w := e ! (3 - w) + push_bit (56 - 8 * b) (ucast (inp ! (8 * w + b)))]) [0..<8])
        [0..<4] e))"

definition gfP_Marshal_uint64 :: "gfP \<Rightarrow> u64 list \<Rightarrow> u64 list option" where
  "gfP_Marshal_uint64 e out =
     fold (\<lambda>i r. case r of None \<Rightarrow> None | Some out \<Rightarrow> if i < length e then Some (out[i := e ! i]) else None)
       [0..<12] (Some out)"

lemma gfP_Marshal_uint64_panics: "length e = 4 \<Longrightarrow> gfP_Marshal_uint64 e out = None"
  by (simp add: gfP_Marshal_uint64_def upt_rec)

definition be64_bytes :: "u64 \<Rightarrow> byte list" where
  "be64_bytes x = map (\<lambda>b. ucast (drop_bit (56 - 8 * b) x)) [0..<8]"

definition be64 :: "byte list \<Rightarrow> u64" where
  "be64 bs = (\<Sum>b<8. push_bit (56 - 8 * b) (ucast (bs ! b)))"

lemma length_be64_bytes [simp]: "length (be64_bytes x) = 8"
  by (simp add: be64_bytes_def)

lemma upt8: "[0..<8] = [0, 1, 2, 3, 4, 5, 6, 7]"
  by (simp add: upt_rec)

lemma upt4: "[0..<4] = [0, 1, 2, 3]"
  by (simp add: upt_rec)

lemma byte_step:
  "push_bit k (ucast (ucast (drop_bit k x) :: byte)) = take_bit (k + 8) x - take_bit k (x :: u64)"
proof -
  have "push_bit k (drop_bit k (take_bit (k + 8) x)) + take_bit k (take_bit (k + 8) x) = take_bit (k + 8) x"
    by (rule bits_ident)
  moreover have "drop_bit k (take_bit (k + 8) x) = ucast (ucast (drop_bit k x) :: byte)"
    by (rule bit_word_eqI) (auto simp: bit_take_bit_iff bit_drop_bit_eq bit_ucast_iff)
  moreover have "take_bit k (take_bit (k + 8) x) = take_bit k x" by (simp add: take_bit_take_bit)
  ultimately show ?thesis by (simp add: eq_diff_eq)
qed

lemma be64_be64_bytes: "be64 (be64_bytes x) = x"
proof -
  have t: "push_bit 0 (ucast (ucast (drop_bit 0 x) :: byte)) = take_bit (0 + 8) x - take_bit 0 x" by (rule byte_step)
  have "take_bit 64 x = x" by (rule bit_word_eqI) (simp add: bit_take_bit_iff)
  moreover have "{..<8} = {0, 1, 2, 3, 4, 5, 6, 7 :: nat}" by auto
  ultimately show ?thesis
    using t by (simp only: be64_def be64_bytes_def upt8) (simp add: byte_step numeral_nat)
qed

lemma write_loop:
  "off + n \<le> length out \<Longrightarrow>
    fold (\<lambda>b out. out[off + b := f b]) [0..<n] out = take off out @ map f [0..<n] @ drop (off + n) out"
proof (induction n)
  case (Suc n)
  have "drop (off + n) out = out ! (off + n) # drop (off + Suc n) out"
    using Suc.prems by (simp add: Cons_nth_drop_Suc)
  then show ?case using Suc by (simp add: list_update_append)
qed simp

lemma write_rows:
  assumes "\<And>w. length (f w) = k"
  shows "k * m \<le> length out \<Longrightarrow>
    fold (\<lambda>w out. take (k * w) out @ f w @ drop (k * w + k) out) [0..<m] out
      = concat (map f [0..<m]) @ drop (k * m) out"
proof (induction m)
  case (Suc m)
  have "length (concat (map f [0..<m])) = k * m" by (induction m) (simp_all add: assms)
  then show ?case using Suc by (simp add: add.commute)
qed simp

lemma fold_cong_length:
  assumes "\<And>w out. w \<in> set ws \<Longrightarrow> length out = n \<Longrightarrow> f w out = g w out"
    and "\<And>w out. length (f w out) = length out" and "length out = n"
  shows "fold f ws out = fold g ws out"
  using assms(1,3)
proof (induction ws arbitrary: out)
  case (Cons w ws)
  then show ?case using assms(2) [of w out] by simp
qed simp

lemma length_fold_update [simp]: "length (fold (\<lambda>b out. out[i b := f b]) bs out) = length out"
  by (induction bs arbitrary: out) simp_all

lemma gfP_Marshal_eq:
  assumes "length e = 4" "32 \<le> length out"
  shows "gfP_Marshal e out = Some (concat (map be64_bytes (rev e)) @ drop 32 out)"
proof -
  have "fold (\<lambda>w. fold (\<lambda>b out. out[8 * w + b := ucast (drop_bit (56 - 8 * b) (e ! (3 - w)))]) [0..<8]) [0..<4] out
    = fold (\<lambda>w out. take (8 * w) out @ be64_bytes (e ! (3 - w)) @ drop (8 * w + 8) out) [0..<4] out"
    by (rule fold_cong_length [OF _ _ refl]) (use assms(2) in \<open>auto simp: write_loop be64_bytes_def\<close>)
  also have "\<dots> = concat (map (\<lambda>w. be64_bytes (e ! (3 - w))) [0..<4]) @ drop (8 * 4) out"
    by (rule write_rows) (use assms(2) in auto)
  also have "map (\<lambda>w. be64_bytes (e ! (3 - w))) [0..<4] = map be64_bytes (rev e)"
    using assms(1) by (auto simp: upt4 numeral_nat length_Suc_conv)
  finally show ?thesis using assms(2) by (simp add: gfP_Marshal_def)
qed

lemma add_loop_bytes:
  "k < length e \<Longrightarrow> fold (\<lambda>b e. e[k := e ! k + f b]) bs e = e[k := e ! k + (\<Sum>b\<leftarrow>bs. f b)]"
  by (induction bs arbitrary: e) (simp_all add: add.assoc)

lemma gfP_Unmarshal_eq:
  assumes "length e = 4" "32 \<le> length inp"
  shows "gfP_Unmarshal e inp = Some (map2 (+) e (map (\<lambda>w. be64 (take 8 (drop (8 * (3 - w)) inp))) [0..<4]))"
proof -
  have row: "fold (\<lambda>b e. e[3 - w := e ! (3 - w) + push_bit (56 - 8 * b) (ucast (inp ! (8 * w + b)))]) [0..<8] e
    = e[3 - w := e ! (3 - w) + be64 (take 8 (drop (8 * w) inp))]" if "length e = 4" "w < 4" for e w
  proof -
    have "(\<Sum>b\<leftarrow>[0..<8]. push_bit (56 - 8 * b) (ucast (inp ! (8 * w + b)))) = be64 (take 8 (drop (8 * w) inp))"
      unfolding be64_def using assms(2) that(2)
      by (subst interv_sum_list_conv_sum_set_nat) (auto intro!: sum.cong simp: atLeast0LessThan)
    then show ?thesis using that by (simp add: add_loop_bytes)
  qed
  obtain e0 e1 e2 e3 where e: "e = [e0, e1, e2, e3]" using assms(1) by (rule length4_cases)
  have len: "length [e0, e1, e2, e3] = 4" "(0 :: nat) < 4" "(1 :: nat) < 4" "(2 :: nat) < 4" "(3 :: nat) < 4" by simp_all
  have "gfP_Unmarshal e inp = Some (let f = \<lambda>w e. e[3 - w := e ! (3 - w) + be64 (take 8 (drop (8 * w) inp))]
      in f 3 (f 2 (f 1 (f 0 e))))"
    using assms(2) unfolding gfP_Unmarshal_def fold_upt4 e
    by (simp only: row len length_list_update Let_def if_False linorder_not_less [symmetric])
  then show ?thesis by (simp add: e upt4)
qed

lemma gfP_bytes_roundtrip:
  assumes "length e = 4" "32 \<le> length out"
  shows "Option.bind (gfP_Marshal e out) (gfP_Unmarshal [0, 0, 0, 0]) = Some e"
proof -
  obtain e0 e1 e2 e3 where e: "e = [e0, e1, e2, e3]" using assms(1) by (rule length4_cases)
  have "gfP_Marshal e out = Some (concat (map be64_bytes (rev e)) @ drop 32 out)"
    by (rule gfP_Marshal_eq [OF assms])
  moreover have "gfP_Unmarshal [0, 0, 0, 0] (concat (map be64_bytes (rev e)) @ drop 32 out) = Some e"
    by (subst gfP_Unmarshal_eq) (simp_all add: e upt4 be64_be64_bytes)
  ultimately show ?thesis by simp
qed

section \<open>Properties\<close>

text \<open>
  C4: \<open>gfpMul\<close> is exact Montgomery multiplication on whatever four-word arrays have a product below
  \<open>2 ^ 256 * Sm9_p\<close> (every pair of which one is reduced): no partial product of \<open>mul\<close> or \<open>halfMul\<close>
  overflows its cell, no carry is lost, and the result is the reduced residue.
\<close>

theorem gfp_montgomery:
  assumes "length a = 4" "length b = 4" "limbs a * limbs b < 2 ^ 256 * Sm9_p"
  shows "limbs (gfpMul a b) = limbs a * limbs b * Rinv mod Sm9_p \<and> length (gfpMul a b) = 4"
  using assms by (rule gfpMul_val)

theorem gfp_montgomery_witness:
  "limbs (gfpMul [2, 0, 0, 0] [0, 0, 0, 0x8000000000000000])
    = limbs [2, 0, 0, 0] * limbs [0, 0, 0, 0x8000000000000000] * Rinv mod Sm9_p
  \<and> length (gfpMul [2, 0, 0, 0] [0, 0, 0, 0x8000000000000000]) = 4"
  by (rule gfp_montgomery) (simp_all add: Sm9_p_def)

text \<open>
  C24: \<open>gfpAdd\<close>, \<open>gfpSub\<close>, \<open>gfpNeg\<close> and \<open>gfpMul\<close> keep arrays reduced and compute the sum, the difference,
  the negative and the product of the field elements the arrays stand for; reduced arrays are
  canonical.
\<close>

theorem gfp_field_operations:
  assumes "gfp_ok a" "gfp_ok b"
  shows "gfp_ok (gfpAdd a b) \<and> gfp_val (gfpAdd a b) = gfp_val a + gfp_val b
    \<and> gfp_ok (gfpSub a b) \<and> gfp_val (gfpSub a b) = gfp_val a - gfp_val b
    \<and> gfp_ok (gfpNeg a) \<and> gfp_val (gfpNeg a) = - gfp_val a
    \<and> gfp_ok (gfpMul a b) \<and> gfp_val (gfpMul a b) = gfp_val a * gfp_val b
    \<and> (gfp_val a = gfp_val b) = (a = b)"
  using assms by (simp add: gfp.ok_intros gfp.val_simps gfp_val_inject)

theorem gfp_field_operations_witness:
  "gfp_ok (gfpSub rN1 r2) \<and> gfp_val (gfpSub rN1 r2) = gfp_val rN1 - gfp_val r2 \<and> gfp_val rN1 \<noteq> gfp_val r2"
  using gfp_field_operations [of rN1 r2] by (simp, simp add: rN1_def r2_def)

text \<open>
  conversion into Montgomery form and back is the identity on reduced arrays, \<open>newGFp\<close> builds the
  residue of its signed argument, and \<open>Marshal\<close> followed by \<open>Unmarshal\<close> into a zero array restores
  every array.
\<close>

theorem gfp_roundtrips:
  assumes "gfp_ok e" "32 \<le> length out"
  shows "montDecode (montEncode e) = e \<and> gfp_ok (newGFp x) \<and> gfp_val (newGFp x) = to_fp (sint x)
    \<and> Option.bind (gfP_Marshal e out) (gfP_Unmarshal [0, 0, 0, 0]) = Some e"
  using assms gfP_bytes_roundtrip [of e out] mont_roundtrip newGFp_val by (simp add: gfp_ok_def)

theorem gfp_roundtrips_witness:
  "montDecode (montEncode r3) = r3 \<and> gfp_val (newGFp (- 2)) = to_fp (- 2)
    \<and> Option.bind (gfP_Marshal r3 (replicate 32 7)) (gfP_Unmarshal [0, 0, 0, 0]) = Some r3"
  using gfp_roundtrips [of r3 "replicate 32 7" "- 2"] by simp

text \<open>
  \<open>Invert\<close> raises its argument to the power \<open>p - 2\<close>: its 256-step square-and-multiply loop reads the
  exponent's bits in order, and the factor \<open>r3\<close> undoes the two Montgomery factors that starting from
  \<open>rN1\<close> leaves. So it returns the inverse of every element that satisfies Fermat's equation.
\<close>

theorem gfp_invert:
  assumes "gfp_ok f" "gfp_val f ^ nat (Sm9_p - 1) = 1"
  shows "gfp_ok (gfP_Invert f) \<and> gfp_val f * gfp_val (gfP_Invert f) = 1
    \<and> gfp_val (gfP_Invert f) = gfp_val f ^ nat (Sm9_p - 2)"
proof -
  have "nat (Sm9_p - 1) = Suc (nat (Sm9_p - 2))" by (simp add: Sm9_p_def nat_eq_iff)
  then show ?thesis using gfP_Invert_val [OF assms(1)] assms(2) by simp
qed

theorem gfp_invert_witness:
  "gfp_val (newGFp (- 1)) * gfp_val (gfP_Invert (newGFp (- 1))) = 1"
proof -
  have "gfp_val (newGFp (- 1)) = - 1" by (simp add: newGFp_val to_fp_minus)
  moreover have "even (nat (Sm9_p - 1))" by (simp add: Sm9_p_def)
  ultimately have "gfp_val (newGFp (- 1)) ^ nat (Sm9_p - 1) = 1" by simp
  then show ?thesis using gfp_invert [of "newGFp (- 1)"] newGFp_val by blast
qed

end
