(* ===== verification/Sm9_Tower.thy ===== *)
theory Sm9_Tower
  imports Sm9_Field
begin

text \<open>
  The extension tower of package \<open>sm9\<close>: \<open>gfp2.go\<close>, \<open>gfp6.go\<close> and \<open>gfp12.go\<close>. Each struct is a record
  with the fields of the code, each method a function that returns the value its receiver is left
  with; the methods read their arguments before they write their receiver, so the aliasing of
  receiver and arguments that the code uses freely does not change what they compute (the one method
  that reads its receiver, \<open>gfP12.MulScalar\<close>, takes it as an argument here).

  Every level is shown to implement the ring of \<open>Sm9_Spec\<close> that it represents. The comments in the
  code that speak of \<open>i\<^sup>2 = -1\<close> and \<open>\<xi> = i + 3\<close> are those of the library the code was derived from;
  the code implements \<open>i\<^sup>2 = -2\<close> and \<open>\<xi> = i\<close>.
\<close>

section \<open>gfP2\<close>

record gfP2 =
  gfP2_x :: gfP
  gfP2_y :: gfP

definition gfP2_Set :: "gfP2 \<Rightarrow> gfP2" where
  "gfP2_Set a = a"

definition gfP2Decode :: "gfP2 \<Rightarrow> gfP2" where
  "gfP2Decode a = \<lparr>gfP2_x = montDecode (gfP2_x a), gfP2_y = montDecode (gfP2_y a)\<rparr>"

definition gfP2_SetZero :: gfP2 where
  "gfP2_SetZero = \<lparr>gfP2_x = [0, 0, 0, 0], gfP2_y = [0, 0, 0, 0]\<rparr>"

definition gfP2_SetOne :: gfP2 where
  "gfP2_SetOne = \<lparr>gfP2_x = [0, 0, 0, 0], gfP2_y = newGFp 1\<rparr>"

definition gfP2_IsZero :: "gfP2 \<Rightarrow> bool" where
  "gfP2_IsZero e = (gfP2_x e = [0, 0, 0, 0] \<and> gfP2_y e = [0, 0, 0, 0])"

definition gfP2_IsOne :: "gfP2 \<Rightarrow> bool" where
  "gfP2_IsOne e = (gfP2_x e = [0, 0, 0, 0] \<and> gfP2_y e = newGFp 1)"

definition gfP2_Conjugate :: "gfP2 \<Rightarrow> gfP2" where
  "gfP2_Conjugate a = \<lparr>gfP2_x = gfpNeg (gfP2_x a), gfP2_y = gfP2_y a\<rparr>"

definition gfP2_Neg :: "gfP2 \<Rightarrow> gfP2" where
  "gfP2_Neg a = \<lparr>gfP2_x = gfpNeg (gfP2_x a), gfP2_y = gfpNeg (gfP2_y a)\<rparr>"

definition gfP2_Add :: "gfP2 \<Rightarrow> gfP2 \<Rightarrow> gfP2" where
  "gfP2_Add a b = \<lparr>gfP2_x = gfpAdd (gfP2_x a) (gfP2_x b), gfP2_y = gfpAdd (gfP2_y a) (gfP2_y b)\<rparr>"

definition gfP2_Sub :: "gfP2 \<Rightarrow> gfP2 \<Rightarrow> gfP2" where
  "gfP2_Sub a b = \<lparr>gfP2_x = gfpSub (gfP2_x a) (gfP2_x b), gfP2_y = gfpSub (gfP2_y a) (gfP2_y b)\<rparr>"

definition gfP2_Mul1 :: "gfP2 \<Rightarrow> gfP2 \<Rightarrow> gfP2" where
  "gfP2_Mul1 a b =
     (let tx = gfpMul (gfP2_x a) (gfP2_y b);
          t = gfpMul (gfP2_x b) (gfP2_y a);
          tx = gfpAdd tx t;
          ty = gfpMul (gfP2_y a) (gfP2_y b);
          t = gfpMul (gfP2_x a) (gfP2_x b);
          t = gfpAdd t t;
          ty = gfpSub ty t
      in \<lparr>gfP2_x = tx, gfP2_y = ty\<rparr>)"

definition gfP2_Mul :: "gfP2 \<Rightarrow> gfP2 \<Rightarrow> gfP2" where
  "gfP2_Mul a b =
     (let t0 = gfpAdd (gfP2_x a) (gfP2_y a);
          t1 = gfpAdd (gfP2_x b) (gfP2_y b);
          t2 = gfpMul (gfP2_x a) (gfP2_x b);
          t3 = gfpMul (gfP2_y a) (gfP2_y b);
          t0 = gfpMul t0 t1;
          t0 = gfpSub t0 t2;
          t0 = gfpSub t0 t3;
          t3 = gfpSub t3 t2;
          t3 = gfpSub t3 t2
      in \<lparr>gfP2_x = t0, gfP2_y = t3\<rparr>)"

definition gfP2_MulScalar :: "gfP2 \<Rightarrow> gfP \<Rightarrow> gfP2" where
  "gfP2_MulScalar a b = \<lparr>gfP2_x = gfpMul (gfP2_x a) b, gfP2_y = gfpMul (gfP2_y a) b\<rparr>"

definition gfP2_MulXi :: "gfP2 \<Rightarrow> gfP2" where
  "gfP2_MulXi a =
     (let tx = gfpAdd (gfP2_x a) (gfP2_x a);
          tx = gfpNeg tx
      in \<lparr>gfP2_x = gfP2_y a, gfP2_y = tx\<rparr>)"

definition gfP2_Square :: "gfP2 \<Rightarrow> gfP2" where
  "gfP2_Square a =
     (let tx = gfpSub (gfP2_y a) (gfP2_x a);
          ty = gfpAdd (gfP2_x a) (gfP2_y a);
          ty = gfpMul tx ty;
          tx = gfpMul (gfP2_x a) (gfP2_x a);
          ty = gfpSub ty tx;
          tx = gfpMul (gfP2_x a) (gfP2_y a);
          tx = gfpAdd tx tx
      in \<lparr>gfP2_x = tx, gfP2_y = ty\<rparr>)"

definition gfP2_Invert :: "gfP2 \<Rightarrow> gfP2" where
  "gfP2_Invert a =
     (let t1 = gfpMul (gfP2_x a) (gfP2_x a);
          t2 = gfpMul (gfP2_y a) (gfP2_y a);
          t1 = gfpAdd t1 t1;
          t1 = gfpAdd t1 t2;
          inv = gfP_Invert t1;
          t1 = gfpNeg (gfP2_x a)
      in \<lparr>gfP2_x = gfpMul t1 inv, gfP2_y = gfpMul (gfP2_y a) inv\<rparr>)"

definition gfP2_ok :: "gfP2 \<Rightarrow> bool" where
  "gfP2_ok a \<longleftrightarrow> gfp_ok (gfP2_x a) \<and> gfp_ok (gfP2_y a)"

definition gfP2_val :: "gfP2 \<Rightarrow> fp2" where
  "gfP2_val a = Fp2 (gfp_val (gfP2_x a)) (gfp_val (gfP2_y a))"

lemmas gfp_rules = gfp.ok_intros gfp.val_simps

lemma gfp_zero [simp]: "gfp_ok [0, 0, 0, 0]" "gfp_val [0, 0, 0, 0] = 0"
  by (simp_all add: gfp_ok_def gfp_val_def)

lemma gfp_one [simp]: "gfp_ok (newGFp 1)" "gfp_val (newGFp 1) = 1"
  by (simp_all add: newGFp_val)

lemmas gfP2_spec = gfP2_ok_def gfP2_val_def fp2_defs Let_def gfp_rules algebra_simps

lemma gfP2_SetZero_val [simp]: "gfP2_ok gfP2_SetZero" "gfP2_val gfP2_SetZero = 0"
  by (simp_all add: gfP2_SetZero_def gfP2_ok_def gfP2_val_def fp2_defs)

lemma gfP2_SetOne_val [simp]: "gfP2_ok gfP2_SetOne" "gfP2_val gfP2_SetOne = 1"
  by (simp_all add: gfP2_SetOne_def gfP2_ok_def gfP2_val_def fp2_defs)

interpretation gfp2: ring_impl_square gfP2_ok gfP2_val gfP2_Add gfP2_Sub gfP2_Mul gfP2_Neg
    gfP2_SetOne gfP2_Square
  by unfold_locales (simp_all add: gfP2_spec gfP2_Add_def gfP2_Sub_def gfP2_Mul_def gfP2_Neg_def gfP2_Square_def
      gfP2_SetOne_def)

lemmas gfp2_rules = gfp2.ok_intros gfp2.val_simps gfp2.ok_square gfp2.val_square

lemma gfP2_Mul1_eq: "gfP2_ok a \<Longrightarrow> gfP2_ok b \<Longrightarrow> gfP2_ok (gfP2_Mul1 a b) \<and> gfP2_val (gfP2_Mul1 a b) = gfP2_val a * gfP2_val b"
  by (simp add: gfP2_spec gfP2_Mul1_def)

lemma gfP2_MulScalar_val:
  "gfP2_ok a \<Longrightarrow> gfp_ok b \<Longrightarrow> gfP2_ok (gfP2_MulScalar a b)"
  "gfP2_ok a \<Longrightarrow> gfp_ok b \<Longrightarrow> gfP2_val (gfP2_MulScalar a b) = gfP2_val a * Fp2 0 (gfp_val b)"
  by (simp_all add: gfP2_spec gfP2_MulScalar_def)

lemma gfP2_MulXi_val:
  "gfP2_ok a \<Longrightarrow> gfP2_ok (gfP2_MulXi a)" "gfP2_ok a \<Longrightarrow> gfP2_val (gfP2_MulXi a) = xi * gfP2_val a"
  by (simp_all add: gfP2_spec gfP2_MulXi_def xi_def)

definition conj2 :: "fp2 \<Rightarrow> fp2" where
  "conj2 a = Fp2 (- fp2_i a) (fp2_1 a)"

lemma gfP2_Conjugate_val:
  "gfP2_ok a \<Longrightarrow> gfP2_ok (gfP2_Conjugate a)" "gfP2_ok a \<Longrightarrow> gfP2_val (gfP2_Conjugate a) = conj2 (gfP2_val a)"
  by (simp_all add: gfP2_spec gfP2_Conjugate_def conj2_def)

lemma gfP2_val_inject: "gfP2_ok a \<Longrightarrow> gfP2_ok b \<Longrightarrow> gfP2_val a = gfP2_val b \<longleftrightarrow> a = b"
  by (cases a; cases b) (simp add: gfP2_ok_def gfP2_val_def gfp_val_inject)

lemma gfP2_IsZero_iff: "gfP2_ok a \<Longrightarrow> gfP2_IsZero a \<longleftrightarrow> gfP2_val a = 0"
proof -
  assume "gfP2_ok a"
  then have "gfP2_val a = 0 \<longleftrightarrow> a = gfP2_SetZero" using gfP2_val_inject [of a gfP2_SetZero] by simp
  then show ?thesis by (cases a) (simp add: gfP2_IsZero_def gfP2_SetZero_def)
qed

lemma gfP2_IsOne_iff: "gfP2_ok a \<Longrightarrow> gfP2_IsOne a \<longleftrightarrow> gfP2_val a = 1"
proof -
  assume "gfP2_ok a"
  then have "gfP2_val a = 1 \<longleftrightarrow> a = gfP2_SetOne" using gfP2_val_inject [of a gfP2_SetOne] by simp
  then show ?thesis by (cases a) (simp add: gfP2_IsOne_def gfP2_SetOne_def)
qed

text \<open>
  \<open>Invert\<close> divides by the norm \<open>2 * x\<^sup>2 + y\<^sup>2\<close>, with the base field's \<open>Invert\<close>.
\<close>

definition norm2 :: "fp2 \<Rightarrow> fp" where
  "norm2 a = 2 * (fp2_i a * fp2_i a) + fp2_1 a * fp2_1 a"

lemma norm2_mult: "norm2 (a * b) = norm2 a * norm2 b"
  by (simp add: norm2_def fp2_defs algebra_simps)

lemma gfP2_Invert_val:
  assumes "gfP2_ok a"
  shows "gfP2_ok (gfP2_Invert a) \<and> gfP2_val a * gfP2_val (gfP2_Invert a) = Fp2 0 (norm2 (gfP2_val a) ^ nat (Sm9_p - 1))"
proof -
  let ?x = "gfP2_x a" and ?y = "gfP2_y a"
  let ?n = "gfpAdd (gfpAdd (gfpMul ?x ?x) (gfpMul ?x ?x)) (gfpMul ?y ?y)"
  have xy: "gfp_ok ?x" "gfp_ok ?y" using assms by (simp_all add: gfP2_ok_def)
  then have n: "gfp_ok ?n" "gfp_val ?n = norm2 (gfP2_val a)"
    by (simp_all add: gfp_rules norm2_def gfP2_val_def)
  have inv: "gfp_ok (gfP_Invert ?n)" "gfp_val (gfP_Invert ?n) = norm2 (gfP2_val a) ^ nat (Sm9_p - 2)"
    using gfP_Invert_val [OF n(1)] n(2) by simp_all
  have e: "nat (Sm9_p - 1) = Suc (nat (Sm9_p - 2))" by (simp add: Sm9_p_def nat_eq_iff)
  have "gfP2_val (gfP2_Invert a) = Fp2 (- gfp_val ?x * norm2 (gfP2_val a) ^ nat (Sm9_p - 2))
      (gfp_val ?y * norm2 (gfP2_val a) ^ nat (Sm9_p - 2))"
    using xy inv by (simp add: gfP2_Invert_def gfP2_val_def Let_def gfp_rules)
  moreover have "norm2 (gfP2_val a) = 2 * (gfp_val ?x * gfp_val ?x) + gfp_val ?y * gfp_val ?y"
    by (simp add: norm2_def gfP2_val_def)
  ultimately show ?thesis using xy inv unfolding e power_Suc
    by (simp add: gfP2_Invert_def gfP2_ok_def Let_def gfp_rules) (simp add: gfP2_val_def fp2_defs algebra_simps)
qed

section \<open>Frobenius constants\<close>

definition xiToPMinus1Over6 :: gfP2 where
  "xiToPMinus1Over6 = \<lparr>gfP2_x = [0, 0, 0, 0], gfP2_y = [0x1a98dfbd4575299f, 0x9ec8547b245c54fd, 0xf51f5eac13df846c, 0x9ef74015d5a16393]\<rparr>"

definition xiToPMinus1Over3 :: gfP2 where
  "xiToPMinus1Over3 = \<lparr>gfP2_x = [0, 0, 0, 0], gfP2_y = [0xb626197dce4736ca, 0x08296b3557ed0186, 0x9c705db2fd91512a, 0x1c753e748601c992]\<rparr>"

definition xiToPMinus1Over2 :: gfP2 where
  "xiToPMinus1Over2 = \<lparr>gfP2_x = [0, 0, 0, 0], gfP2_y = [0x39b4ef0f3ee72529, 0xdb043bf508582782, 0xb8554ab054ac91e3, 0x9848eec25498cab5]\<rparr>"

definition xiToPMinus1Over3i :: gfP2 where
  "xiToPMinus1Over3i = \<lparr>gfP2_x = [0, 0, 0, 0], gfP2_y = [0x646a4b5a4e6783b9, 0xd5e4017f8d980f9d, 0x8d8bf6fd0cdfe790, 0x2d4ac18b775a8f7b]\<rparr>"

definition xiToPMinus1Over2i :: gfP2 where
  "xiToPMinus1Over2i = \<lparr>gfP2_x = [0, 0, 0, 0], gfP2_y = [0xabbaac18a46a2054, 0x46ee57561222c759, 0x1dae609fa0e23561, 0x1df7113dae0adc3c]\<rparr>"

definition xiToPSquaredMinus1Over3i :: gfP where
  "xiToPSquaredMinus1Over3i = [0x2f4981aa150a0eb3, 0x19c92815c28ded55, 0x39934d9cf7fd761b, 0x99cac18b7ca1dd5f]"

definition xiToPSquaredMinus1Over3 :: gfP where
  "xiToPSquaredMinus1Over3 = [0x81054fcd94e9c1c4, 0x4c0e91cb8ce2df3e, 0x4877b452e8aedfb4, 0x88f53e748b491776]"

definition xiTo2PSquaredMinus2Over3 :: gfP where
  "xiTo2PSquaredMinus2Over3 = [0x2f4981aa150a0eb3, 0x19c92815c28ded55, 0x39934d9cf7fd761b, 0x99cac18b7ca1dd5f]"

definition xiToPSquaredMinus1Over6 :: gfP where
  "xiToPSquaredMinus1Over6 = [0xb626197dce4736ca, 0x08296b3557ed0186, 0x9c705db2fd91512a, 0x1c753e748601c992]"

definition xiTo2PMinus2Over3 :: gfP2 where
  "xiTo2PMinus2Over3 = \<lparr>gfP2_x = [0, 0, 0, 0], gfP2_y = [0x81054fcd94e9c1c4, 0x4c0e91cb8ce2df3e, 0x4877b452e8aedfb4, 0x88f53e748b491776]\<rparr>"

text \<open>
  How the constants are related. Products of Montgomery representations are checked with their
  quotient by the field prime.
\<close>

lemma gfp_val_product: "limbs a * limbs b = limbs c * 2 ^ 256 + Sm9_p * q \<Longrightarrow> gfp_val a * gfp_val b = gfp_val c"
proof -
  assume "limbs a * limbs b = limbs c * 2 ^ 256 + Sm9_p * q"
  then have "to_fp (limbs a * limbs b) = to_fp (limbs c * 2 ^ 256)" by (rule to_fp_eqI)
  then have "to_fp (limbs a) * to_fp (limbs b) = to_fp (limbs c) * to_fp (2 ^ 256)" by (simp only: to_fp_mult)
  then have "gfp_val a * gfp_val b = to_fp (limbs c) * (to_fp (2 ^ 256) * to_fp Rinv) * to_fp Rinv"
    unfolding gfp_val_def to_fp_mult by (simp only: mult_ac)
  then show ?thesis unfolding gfp_val_def to_fp_mult by (simp only: to_fp_R_Rinv mult_1_right)
qed

definition g6 :: fp2 where "g6 = gfP2_val xiToPMinus1Over6"
definition g3 :: fp2 where "g3 = gfP2_val xiToPMinus1Over3"
definition cube_root :: fp2 where "cube_root = Fp2 0 (gfp_val xiToPSquaredMinus1Over3)"

lemma frobenius_consts_ok [simp]:
  "gfP2_ok xiToPMinus1Over6" "gfP2_ok xiToPMinus1Over3" "gfP2_ok xiTo2PMinus2Over3"
  "gfp_ok xiToPSquaredMinus1Over3" "gfp_ok xiTo2PSquaredMinus2Over3" "gfp_ok xiToPSquaredMinus1Over6"
  by (simp_all add: gfP2_ok_def gfp_ok_def Sm9_p_def xiToPMinus1Over6_def xiToPMinus1Over3_def
      xiTo2PMinus2Over3_def xiToPSquaredMinus1Over3_def xiTo2PSquaredMinus2Over3_def
      xiToPSquaredMinus1Over6_def)

lemma g6_square: "g6 * g6 = g3"
proof -
  have "gfp_val (gfP2_y xiToPMinus1Over6) * gfp_val (gfP2_y xiToPMinus1Over6) = gfp_val (gfP2_y xiToPMinus1Over3)"
    by (rule gfp_val_product [where q = "0x62aeb9585b186e2028cd5b5d2d4148d80a8c0294a7ef0274cd834f5101fa8b95"])
      (simp add: xiToPMinus1Over6_def xiToPMinus1Over3_def Sm9_p_def)
  moreover have "gfP2_x xiToPMinus1Over6 = [0, 0, 0, 0]" "gfP2_x xiToPMinus1Over3 = [0, 0, 0, 0]"
    by (simp_all add: xiToPMinus1Over6_def xiToPMinus1Over3_def)
  ultimately show ?thesis by (simp add: g6_def g3_def gfP2_val_def times_fp2_def)
qed

lemma g3_square: "g3 * g3 = cube_root"
proof -
  have "gfp_val (gfP2_y xiToPMinus1Over3) * gfp_val (gfP2_y xiToPMinus1Over3) = gfp_val xiToPSquaredMinus1Over3"
    by (rule gfp_val_product [where q = "- 0xbbefb0121e9a94871599327e7b0c9191e249ec2d70e337b798d3880b12083dcc"])
      (simp add: xiToPSquaredMinus1Over3_def xiToPMinus1Over3_def Sm9_p_def)
  moreover have "gfP2_x xiToPMinus1Over3 = [0, 0, 0, 0]" by (simp add: xiToPMinus1Over3_def)
  ultimately show ?thesis by (simp add: cube_root_def g3_def gfP2_val_def times_fp2_def)
qed

lemma gfp_val_product_minus_one:
  assumes "limbs a * limbs b = - (2 ^ 256 * 2 ^ 256) + Sm9_p * q"
  shows "gfp_val a * gfp_val b = - 1"
proof -
  have "to_fp (limbs a * limbs b) = to_fp (- (2 ^ 256 * 2 ^ 256))" using assms by (rule to_fp_eqI)
  then have *: "to_fp (limbs a) * to_fp (limbs b) = - (to_fp (2 ^ 256) * to_fp (2 ^ 256))"
    by (simp only: to_fp_mult to_fp_minus)
  have "gfp_val a * gfp_val b = (to_fp (limbs a) * to_fp (limbs b)) * (to_fp Rinv * to_fp Rinv)"
    unfolding gfp_val_def to_fp_mult by (simp only: mult_ac)
  also have "\<dots> = - ((to_fp (2 ^ 256) * to_fp Rinv) * (to_fp (2 ^ 256) * to_fp Rinv))"
    unfolding * by (simp only: mult_minus_left mult_minus_right mult_ac)
  finally show ?thesis by (simp only: to_fp_R_Rinv mult_1)
qed

lemma g3_cube_root: "g3 * cube_root = - 1"
proof -
  have "gfp_val (gfP2_y xiToPMinus1Over3) * gfp_val xiToPSquaredMinus1Over3 = - 1"
    by (rule gfp_val_product_minus_one [where q = "0x17cfaccd6ed68fe9e234788e7801610c22e08ea3d3ef6cb55d378aaf08a862fc8"])
      (simp add: xiToPSquaredMinus1Over3_def xiToPMinus1Over3_def Sm9_p_def)
  moreover have "gfP2_x xiToPMinus1Over3 = [0, 0, 0, 0]" by (simp add: xiToPMinus1Over3_def)
  ultimately show ?thesis by (simp add: cube_root_def g3_def gfP2_val_def fp2_defs)
qed

lemma g3_cube: "g3 * g3 * g3 = - 1"
  using g3_cube_root by (simp add: g3_square mult.commute)

lemma cube_root_cube: "cube_root * cube_root * cube_root = 1"
proof -
  have "cube_root * cube_root * cube_root = (g3 * cube_root) * (g3 * cube_root)"
    by (simp only: g3_square [symmetric] mult_ac)
  then show ?thesis by (simp add: g3_cube_root)
qed

lemma frobenius_consts_val:
  "gfP2_val xiToPMinus1Over6 = g6" "gfP2_val xiToPMinus1Over3 = g3"
  "gfP2_val xiTo2PMinus2Over3 = cube_root" "Fp2 0 (gfp_val xiToPSquaredMinus1Over3) = cube_root"
  "Fp2 0 (gfp_val xiToPSquaredMinus1Over6) = g3"
  by (simp_all add: g6_def g3_def cube_root_def gfP2_val_def xiTo2PMinus2Over3_def
      xiToPSquaredMinus1Over3_def xiToPSquaredMinus1Over6_def xiToPMinus1Over3_def)

lemma cube_root_square: "Fp2 0 (gfp_val xiTo2PSquaredMinus2Over3) = cube_root * cube_root"
proof -
  have "gfp_val xiToPSquaredMinus1Over3 * gfp_val xiToPSquaredMinus1Over3 = gfp_val xiTo2PSquaredMinus2Over3"
    by (rule gfp_val_product [where q = "- 0x711ab63ffc04d2754bc90e72ae8c2fd539d9f22ba743762d2a7cb5744ba64cb0"])
      (simp add: xiToPSquaredMinus1Over3_def xiTo2PSquaredMinus2Over3_def Sm9_p_def)
  then show ?thesis by (simp add: cube_root_def times_fp2_def)
qed

section \<open>gfP6\<close>

record gfP6 =
  gfP6_x :: gfP2
  gfP6_y :: gfP2
  gfP6_z :: gfP2

definition gfP6_Set :: "gfP6 \<Rightarrow> gfP6" where
  "gfP6_Set a = a"

definition gfP6_SetZero :: gfP6 where
  "gfP6_SetZero = \<lparr>gfP6_x = gfP2_SetZero, gfP6_y = gfP2_SetZero, gfP6_z = gfP2_SetZero\<rparr>"

definition gfP6_SetOne :: gfP6 where
  "gfP6_SetOne = \<lparr>gfP6_x = gfP2_SetZero, gfP6_y = gfP2_SetZero, gfP6_z = gfP2_SetOne\<rparr>"

definition gfP6_IsZero :: "gfP6 \<Rightarrow> bool" where
  "gfP6_IsZero e = (gfP2_IsZero (gfP6_x e) \<and> gfP2_IsZero (gfP6_y e) \<and> gfP2_IsZero (gfP6_z e))"

definition gfP6_IsOne :: "gfP6 \<Rightarrow> bool" where
  "gfP6_IsOne e = (gfP2_IsZero (gfP6_x e) \<and> gfP2_IsZero (gfP6_y e) \<and> gfP2_IsOne (gfP6_z e))"

definition gfP6_Neg :: "gfP6 \<Rightarrow> gfP6" where
  "gfP6_Neg a = \<lparr>gfP6_x = gfP2_Neg (gfP6_x a), gfP6_y = gfP2_Neg (gfP6_y a), gfP6_z = gfP2_Neg (gfP6_z a)\<rparr>"

definition gfP6_Frobenius :: "gfP6 \<Rightarrow> gfP6" where
  "gfP6_Frobenius a =
     (let x = gfP2_Conjugate (gfP6_x a);
          y = gfP2_Conjugate (gfP6_y a);
          z = gfP2_Conjugate (gfP6_z a);
          x = gfP2_Mul x xiTo2PMinus2Over3;
          y = gfP2_Mul y xiToPMinus1Over3
      in \<lparr>gfP6_x = x, gfP6_y = y, gfP6_z = z\<rparr>)"

definition gfP6_FrobeniusP2 :: "gfP6 \<Rightarrow> gfP6" where
  "gfP6_FrobeniusP2 a =
     \<lparr>gfP6_x = gfP2_MulScalar (gfP6_x a) xiTo2PSquaredMinus2Over3,
      gfP6_y = gfP2_MulScalar (gfP6_y a) xiToPSquaredMinus1Over3, gfP6_z = gfP6_z a\<rparr>"

definition gfP6_FrobeniusP4 :: "gfP6 \<Rightarrow> gfP6" where
  "gfP6_FrobeniusP4 a =
     \<lparr>gfP6_x = gfP2_MulScalar (gfP6_x a) xiToPSquaredMinus1Over3,
      gfP6_y = gfP2_MulScalar (gfP6_y a) xiTo2PSquaredMinus2Over3, gfP6_z = gfP6_z a\<rparr>"

definition gfP6_Add :: "gfP6 \<Rightarrow> gfP6 \<Rightarrow> gfP6" where
  "gfP6_Add a b = \<lparr>gfP6_x = gfP2_Add (gfP6_x a) (gfP6_x b), gfP6_y = gfP2_Add (gfP6_y a) (gfP6_y b),
     gfP6_z = gfP2_Add (gfP6_z a) (gfP6_z b)\<rparr>"

definition gfP6_Sub :: "gfP6 \<Rightarrow> gfP6 \<Rightarrow> gfP6" where
  "gfP6_Sub a b = \<lparr>gfP6_x = gfP2_Sub (gfP6_x a) (gfP6_x b), gfP6_y = gfP2_Sub (gfP6_y a) (gfP6_y b),
     gfP6_z = gfP2_Sub (gfP6_z a) (gfP6_z b)\<rparr>"

definition gfP6_Mul :: "gfP6 \<Rightarrow> gfP6 \<Rightarrow> gfP6" where
  "gfP6_Mul a b =
     (let v0 = gfP2_Mul (gfP6_z a) (gfP6_z b);
          v1 = gfP2_Mul (gfP6_y a) (gfP6_y b);
          v2 = gfP2_Mul (gfP6_x a) (gfP6_x b);
          t0 = gfP2_Add (gfP6_x a) (gfP6_y a);
          t1 = gfP2_Add (gfP6_x b) (gfP6_y b);
          tz = gfP2_Mul t0 t1;
          tz = gfP2_Sub tz v1; tz = gfP2_Sub tz v2; tz = gfP2_MulXi tz; tz = gfP2_Add tz v0;
          t0 = gfP2_Add (gfP6_y a) (gfP6_z a);
          t1 = gfP2_Add (gfP6_y b) (gfP6_z b);
          ty = gfP2_Mul t0 t1;
          t0 = gfP2_MulXi v2;
          ty = gfP2_Sub ty v0; ty = gfP2_Sub ty v1; ty = gfP2_Add ty t0;
          t0 = gfP2_Add (gfP6_x a) (gfP6_z a);
          t1 = gfP2_Add (gfP6_x b) (gfP6_z b);
          tx = gfP2_Mul t0 t1;
          tx = gfP2_Sub tx v0; tx = gfP2_Add tx v1; tx = gfP2_Sub tx v2
      in \<lparr>gfP6_x = tx, gfP6_y = ty, gfP6_z = tz\<rparr>)"

definition gfP6_MulScalar :: "gfP6 \<Rightarrow> gfP2 \<Rightarrow> gfP6" where
  "gfP6_MulScalar a b = \<lparr>gfP6_x = gfP2_Mul (gfP6_x a) b, gfP6_y = gfP2_Mul (gfP6_y a) b,
     gfP6_z = gfP2_Mul (gfP6_z a) b\<rparr>"

definition gfP6_MulGFP :: "gfP6 \<Rightarrow> gfP \<Rightarrow> gfP6" where
  "gfP6_MulGFP a b = \<lparr>gfP6_x = gfP2_MulScalar (gfP6_x a) b, gfP6_y = gfP2_MulScalar (gfP6_y a) b,
     gfP6_z = gfP2_MulScalar (gfP6_z a) b\<rparr>"

definition gfP6_MulTau :: "gfP6 \<Rightarrow> gfP6" where
  "gfP6_MulTau a =
     (let tz = gfP2_MulXi (gfP6_x a);
          ty = gfP6_y a
      in \<lparr>gfP6_x = ty, gfP6_y = gfP6_z a, gfP6_z = tz\<rparr>)"

definition gfP6_Square :: "gfP6 \<Rightarrow> gfP6" where
  "gfP6_Square a =
     (let v0 = gfP2_Square (gfP6_z a);
          v1 = gfP2_Square (gfP6_y a);
          v2 = gfP2_Square (gfP6_x a);
          c0 = gfP2_Add (gfP6_x a) (gfP6_y a);
          c0 = gfP2_Square c0; c0 = gfP2_Sub c0 v1; c0 = gfP2_Sub c0 v2; c0 = gfP2_MulXi c0; c0 = gfP2_Add c0 v0;
          c1 = gfP2_Add (gfP6_y a) (gfP6_z a);
          c1 = gfP2_Square c1; c1 = gfP2_Sub c1 v0; c1 = gfP2_Sub c1 v1;
          xiV2 = gfP2_MulXi v2;
          c1 = gfP2_Add c1 xiV2;
          c2 = gfP2_Add (gfP6_x a) (gfP6_z a);
          c2 = gfP2_Square c2; c2 = gfP2_Sub c2 v0; c2 = gfP2_Add c2 v1; c2 = gfP2_Sub c2 v2
      in \<lparr>gfP6_x = c2, gfP6_y = c1, gfP6_z = c0\<rparr>)"

definition gfP6_Invert :: "gfP6 \<Rightarrow> gfP6" where
  "gfP6_Invert a =
     (let t1 = gfP2_Mul (gfP6_x a) (gfP6_y a);
          t1 = gfP2_MulXi t1;
          A = gfP2_Square (gfP6_z a);
          A = gfP2_Sub A t1;
          B = gfP2_Square (gfP6_x a);
          B = gfP2_MulXi B;
          t1 = gfP2_Mul (gfP6_y a) (gfP6_z a);
          B = gfP2_Sub B t1;
          C = gfP2_Square (gfP6_y a);
          t1 = gfP2_Mul (gfP6_x a) (gfP6_z a);
          C = gfP2_Sub C t1;
          F = gfP2_Mul C (gfP6_y a);
          F = gfP2_MulXi F;
          t1 = gfP2_Mul A (gfP6_z a);
          F = gfP2_Add F t1;
          t1 = gfP2_Mul B (gfP6_x a); t1 = gfP2_MulXi t1;
          F = gfP2_Add F t1;
          F = gfP2_Invert F
      in \<lparr>gfP6_x = gfP2_Mul C F, gfP6_y = gfP2_Mul B F, gfP6_z = gfP2_Mul A F\<rparr>)"

definition gfP6_ok :: "gfP6 \<Rightarrow> bool" where
  "gfP6_ok a \<longleftrightarrow> gfP2_ok (gfP6_x a) \<and> gfP2_ok (gfP6_y a) \<and> gfP2_ok (gfP6_z a)"

definition gfP6_val :: "gfP6 \<Rightarrow> fp6" where
  "gfP6_val a = Fp6 (gfP2_val (gfP6_x a)) (gfP2_val (gfP6_y a)) (gfP2_val (gfP6_z a))"

lemmas gfP6_spec = gfP6_ok_def gfP6_val_def fp6_defs Let_def gfp2_rules gfP2_MulXi_val gfP2_MulScalar_val

lemma gfP6_SetOne_val [simp]: "gfP6_ok gfP6_SetOne" "gfP6_val gfP6_SetOne = 1"
  by (simp_all add: gfP6_SetOne_def gfP6_spec)

lemma gfP6_SetZero_val [simp]: "gfP6_ok gfP6_SetZero" "gfP6_val gfP6_SetZero = 0"
  by (simp_all add: gfP6_SetZero_def gfP6_spec)

interpretation gfp6: ring_impl_square gfP6_ok gfP6_val gfP6_Add gfP6_Sub gfP6_Mul gfP6_Neg
    gfP6_SetOne gfP6_Square
  by unfold_locales (simp_all add: gfP6_spec gfP6_Add_def gfP6_Sub_def gfP6_Mul_def gfP6_Neg_def
      gfP6_Square_def gfP6_SetOne_def algebra_simps)

lemmas gfp6_rules = gfp6.ok_intros gfp6.val_simps gfp6.ok_square gfp6.val_square

lemma gfP6_MulTau_val:
  "gfP6_ok a \<Longrightarrow> gfP6_ok (gfP6_MulTau a)" "gfP6_ok a \<Longrightarrow> gfP6_val (gfP6_MulTau a) = tau * gfP6_val a"
  by (simp_all add: gfP6_spec gfP6_MulTau_def tau_def)

lemma gfP6_MulScalar_val:
  "gfP6_ok a \<Longrightarrow> gfP2_ok b \<Longrightarrow> gfP6_ok (gfP6_MulScalar a b)"
  "gfP6_ok a \<Longrightarrow> gfP2_ok b \<Longrightarrow> gfP6_val (gfP6_MulScalar a b) = gfP6_val a * Fp6 0 0 (gfP2_val b)"
  by (simp_all add: gfP6_spec gfP6_MulScalar_def)

lemma gfP6_MulGFP_val:
  "gfP6_ok a \<Longrightarrow> gfp_ok b \<Longrightarrow> gfP6_ok (gfP6_MulGFP a b)"
  "gfP6_ok a \<Longrightarrow> gfp_ok b \<Longrightarrow> gfP6_val (gfP6_MulGFP a b) = gfP6_val a * Fp6 0 0 (Fp2 0 (gfp_val b))"
  by (simp_all add: gfP6_spec gfP6_MulGFP_def)

lemma gfP6_val_inject: "gfP6_ok a \<Longrightarrow> gfP6_ok b \<Longrightarrow> gfP6_val a = gfP6_val b \<longleftrightarrow> a = b"
  by (cases a; cases b) (simp add: gfP6_ok_def gfP6_val_def gfP2_val_inject)

lemma gfP6_IsZero_iff: "gfP6_ok a \<Longrightarrow> gfP6_IsZero a \<longleftrightarrow> gfP6_val a = 0"
  by (simp add: gfP6_IsZero_def gfP6_ok_def gfP6_val_def gfP2_IsZero_iff zero_fp6_def)

lemma gfP6_IsOne_iff: "gfP6_ok a \<Longrightarrow> gfP6_IsOne a \<longleftrightarrow> gfP6_val a = 1"
  by (simp add: gfP6_IsOne_def gfP6_ok_def gfP6_val_def gfP2_IsZero_iff gfP2_IsOne_iff one_fp6_def)

text \<open>\<open>Invert\<close> multiplies by the two other conjugates and divides by the norm into \<open>fp2\<close>.\<close>

definition norm6 :: "fp6 \<Rightarrow> fp2" where
  "norm6 a = xi * xi * (fp6_tt a * fp6_tt a * fp6_tt a) + xi * (fp6_t a * fp6_t a * fp6_t a)
     + fp6_1 a * fp6_1 a * fp6_1 a - 3 * xi * (fp6_tt a * fp6_t a * fp6_1 a)"

definition adj6 :: "fp6 \<Rightarrow> fp6" where
  "adj6 a = Fp6 (fp6_t a * fp6_t a - fp6_tt a * fp6_1 a) (xi * (fp6_tt a * fp6_tt a) - fp6_t a * fp6_1 a)
     (fp6_1 a * fp6_1 a - xi * (fp6_tt a * fp6_t a))"

lemma adj6: "a * adj6 a = Fp6 0 0 (norm6 a)"
  by (simp add: adj6_def norm6_def fp6_defs algebra_simps)

lemma Fp6_embed: "Fp6 0 0 (u * v) = Fp6 0 0 u * Fp6 0 0 v"
  by (simp add: times_fp6_def)

lemma gfP6_Invert_val:
  assumes "gfP6_ok a"
  shows "gfP6_ok (gfP6_Invert a) \<and>
    gfP6_val a * gfP6_val (gfP6_Invert a) = Fp6 0 0 (Fp2 0 (norm2 (norm6 (gfP6_val a)) ^ nat (Sm9_p - 1)))"
proof -
  obtain x y z where a: "a = \<lparr>gfP6_x = x, gfP6_y = y, gfP6_z = z\<rparr>" by (cases a) auto
  let ?A = "gfP2_Sub (gfP2_Square z) (gfP2_MulXi (gfP2_Mul x y))"
  let ?B = "gfP2_Sub (gfP2_MulXi (gfP2_Square x)) (gfP2_Mul y z)"
  let ?C = "gfP2_Sub (gfP2_Square y) (gfP2_Mul x z)"
  define F where "F = gfP2_Add (gfP2_Add (gfP2_MulXi (gfP2_Mul ?C y)) (gfP2_Mul ?A z)) (gfP2_MulXi (gfP2_Mul ?B x))"
  have ok: "gfP2_ok x" "gfP2_ok y" "gfP2_ok z" using assms by (simp_all add: gfP6_ok_def a)
  have F: "gfP2_ok F" "gfP2_val F = norm6 (gfP6_val a)"
    unfolding F_def norm6_def using ok
    by (simp_all add: gfP6_spec a algebra_simps)
  have inv: "gfP2_ok (gfP2_Invert F)"
    "norm6 (gfP6_val a) * gfP2_val (gfP2_Invert F) = Fp2 0 (norm2 (norm6 (gfP6_val a)) ^ nat (Sm9_p - 1))"
    using gfP2_Invert_val [OF F(1)] by (simp_all add: F(2))
  have I: "gfP6_Invert a = \<lparr>gfP6_x = gfP2_Mul ?C (gfP2_Invert F), gfP6_y = gfP2_Mul ?B (gfP2_Invert F),
      gfP6_z = gfP2_Mul ?A (gfP2_Invert F)\<rparr>"
    by (simp add: gfP6_Invert_def Let_def a F_def)
  have "gfP6_val (gfP6_Invert a) = adj6 (gfP6_val a) * Fp6 0 0 (gfP2_val (gfP2_Invert F))"
    unfolding I using ok inv(1) by (simp add: gfP6_spec a adj6_def)
  then have "gfP6_val a * gfP6_val (gfP6_Invert a) = Fp6 0 0 (norm6 (gfP6_val a) * gfP2_val (gfP2_Invert F))"
    by (simp add: mult.assoc [symmetric] adj6 Fp6_embed)
  moreover have "gfP6_ok (gfP6_Invert a)" unfolding I using ok inv(1) by (simp add: gfP6_ok_def gfp2_rules gfP2_MulXi_val)
  ultimately show ?thesis using inv(2) by simp
qed

section \<open>gfP12\<close>

record gfP12 =
  gfP12_x :: gfP6
  gfP12_y :: gfP6

definition gfP12Gen :: gfP12 where
  "gfP12Gen = \<lparr>
    gfP12_x = \<lparr>
      gfP6_x = \<lparr>gfP2_x = [0xeb2aeaa2823d010c, 0xe192c39d7c3e6440, 0x68411e843fea2a9b, 0x5f23b1ce3ac438e7],
        gfP2_y = [0x065c1ad6d376db4f, 0xe2447d6d5edfdda6, 0x0d4eba5c8c017781, 0x61ebca2110d736bf]\<rparr>,
      gfP6_y = \<lparr>gfP2_x = [0xc219536a54552cae, 0xc4e4ad66027f8f55, 0xff31b23d5bc78184, 0x3b0fc03d5711c93d],
        gfP2_y = [0x290e1c8bdb9441aa, 0x074e1694c800c130, 0xfa196a2583564700, 0x254eb32dea84e64d]\<rparr>,
      gfP6_z = \<lparr>gfP2_x = [0x24fb5abe38626c9c, 0xd32d71f71d7bd3de, 0x671d686fd9c9271d, 0xa3eec3cd6a795be8],
        gfP2_y = [0x7b9c733c1f964b52, 0x9b988c0c238fb05e, 0xe546ccb8d6e1f9b8, 0xb101d668bfbf8ac8]\<rparr>\<rparr>,
    gfP12_y = \<lparr>
      gfP6_x = \<lparr>gfP2_x = [0x487ab1a6229d91f3, 0x7e2a3e36c6c822c7, 0x282c24f00c10930f, 0x2efe33f18332bb77],
        gfP2_y = [0x346965f4dc5b5813, 0xed43ed38c0ce33e6, 0x9ba7630e295a5ce7, 0xa6db7142e0ca24ae]\<rparr>,
      gfP6_y = \<lparr>gfP2_x = [0xfea0bce10965b32b, 0x441e074b4573390c, 0xe9d6067a4cf3c571, 0x9ee43c7e3740bcd8],
        gfP2_y = [0x0e06727b47ee6118, 0xb01ab631f2f10a18, 0xb0ebd9852fc780ef, 0xaa07010f9d42787c]\<rparr>,
      gfP6_z = \<lparr>gfP2_x = [0xbe7381e2bce90a00, 0x2a72158dbf514e31, 0x44e199bee3498d4d, 0x6a5fed210720de58],
        gfP2_y = [0xb55d63ee8d7a8468, 0x9ef5d413e3176666, 0x796c802ec3f1370b, 0xa0f422c35d7b6262]\<rparr>\<rparr>\<rparr>"

definition gfP12_Set :: "gfP12 \<Rightarrow> gfP12" where
  "gfP12_Set a = a"

definition gfP12_SetZero :: gfP12 where
  "gfP12_SetZero = \<lparr>gfP12_x = gfP6_SetZero, gfP12_y = gfP6_SetZero\<rparr>"

definition gfP12_SetOne :: gfP12 where
  "gfP12_SetOne = \<lparr>gfP12_x = gfP6_SetZero, gfP12_y = gfP6_SetOne\<rparr>"

definition gfP12_IsZero :: "gfP12 \<Rightarrow> bool" where
  "gfP12_IsZero e = (gfP6_IsZero (gfP12_x e) \<and> gfP6_IsZero (gfP12_y e))"

definition gfP12_IsOne :: "gfP12 \<Rightarrow> bool" where
  "gfP12_IsOne e = (gfP6_IsZero (gfP12_x e) \<and> gfP6_IsOne (gfP12_y e))"

definition gfP12_Conjugate :: "gfP12 \<Rightarrow> gfP12" where
  "gfP12_Conjugate a = \<lparr>gfP12_x = gfP6_Neg (gfP12_x a), gfP12_y = gfP12_y a\<rparr>"

definition gfP12_Neg :: "gfP12 \<Rightarrow> gfP12" where
  "gfP12_Neg a = \<lparr>gfP12_x = gfP6_Neg (gfP12_x a), gfP12_y = gfP6_Neg (gfP12_y a)\<rparr>"

definition gfP12_Frobenius :: "gfP12 \<Rightarrow> gfP12" where
  "gfP12_Frobenius a =
     (let x = gfP6_Frobenius (gfP12_x a);
          y = gfP6_Frobenius (gfP12_y a);
          x = gfP6_MulScalar x xiToPMinus1Over6
      in \<lparr>gfP12_x = x, gfP12_y = y\<rparr>)"

definition gfP12_FrobeniusP2 :: "gfP12 \<Rightarrow> gfP12" where
  "gfP12_FrobeniusP2 a =
     (let x = gfP6_FrobeniusP2 (gfP12_x a);
          x = gfP6_MulGFP x xiToPSquaredMinus1Over6;
          y = gfP6_FrobeniusP2 (gfP12_y a)
      in \<lparr>gfP12_x = x, gfP12_y = y\<rparr>)"

definition gfP12_FrobeniusP4 :: "gfP12 \<Rightarrow> gfP12" where
  "gfP12_FrobeniusP4 a =
     (let x = gfP6_FrobeniusP4 (gfP12_x a);
          x = gfP6_MulGFP x xiToPSquaredMinus1Over3;
          y = gfP6_FrobeniusP4 (gfP12_y a)
      in \<lparr>gfP12_x = x, gfP12_y = y\<rparr>)"

definition gfP12_Add :: "gfP12 \<Rightarrow> gfP12 \<Rightarrow> gfP12" where
  "gfP12_Add a b = \<lparr>gfP12_x = gfP6_Add (gfP12_x a) (gfP12_x b), gfP12_y = gfP6_Add (gfP12_y a) (gfP12_y b)\<rparr>"

definition gfP12_Sub :: "gfP12 \<Rightarrow> gfP12 \<Rightarrow> gfP12" where
  "gfP12_Sub a b = \<lparr>gfP12_x = gfP6_Sub (gfP12_x a) (gfP12_x b), gfP12_y = gfP6_Sub (gfP12_y a) (gfP12_y b)\<rparr>"

definition gfP12_Mul1 :: "gfP12 \<Rightarrow> gfP12 \<Rightarrow> gfP12" where
  "gfP12_Mul1 a b =
     (let tx = gfP6_Mul (gfP12_x a) (gfP12_y b);
          t = gfP6_Mul (gfP12_x b) (gfP12_y a);
          tx = gfP6_Add tx t;
          ty = gfP6_Mul (gfP12_y a) (gfP12_y b);
          t = gfP6_Mul (gfP12_x a) (gfP12_x b); t = gfP6_MulTau t
      in \<lparr>gfP12_x = tx, gfP12_y = gfP6_Add ty t\<rparr>)"

definition gfP12_Mul :: "gfP12 \<Rightarrow> gfP12 \<Rightarrow> gfP12" where
  "gfP12_Mul a b =
     (let t0 = gfP6_Add (gfP12_x a) (gfP12_y a);
          t1 = gfP6_Add (gfP12_x b) (gfP12_y b);
          t2 = gfP6_Mul (gfP12_x a) (gfP12_x b);
          t3 = gfP6_Mul (gfP12_y a) (gfP12_y b);
          t0 = gfP6_Mul t0 t1;
          t0 = gfP6_Sub t0 t2;
          t0 = gfP6_Sub t0 t3;
          t2 = gfP6_MulTau t2;
          t3 = gfP6_Add t3 t2
      in \<lparr>gfP12_x = t0, gfP12_y = t3\<rparr>)"

text \<open>\<open>MulScalar\<close> multiplies its receiver \<open>e\<close>; the argument \<open>a\<close> is ignored, as in the code.\<close>

definition gfP12_MulScalar :: "gfP12 \<Rightarrow> gfP12 \<Rightarrow> gfP6 \<Rightarrow> gfP12" where
  "gfP12_MulScalar e a b = \<lparr>gfP12_x = gfP6_Mul (gfP12_x e) b, gfP12_y = gfP6_Mul (gfP12_y e) b\<rparr>"

definition gfP12_Square :: "gfP12 \<Rightarrow> gfP12" where
  "gfP12_Square a =
     (let v0 = gfP6_Mul (gfP12_x a) (gfP12_y a);
          t = gfP6_MulTau (gfP12_x a);
          t = gfP6_Add (gfP12_y a) t;
          ty = gfP6_Add (gfP12_x a) (gfP12_y a);
          ty = gfP6_Mul ty t; ty = gfP6_Sub ty v0;
          t = gfP6_MulTau v0;
          ty = gfP6_Sub ty t
      in \<lparr>gfP12_x = gfP6_Add v0 v0, gfP12_y = ty\<rparr>)"

definition gfP12_Square1 :: "gfP12 \<Rightarrow> gfP12" where
  "gfP12_Square1 a =
     (let v0 = gfP6_Square (gfP12_x a);
          v1 = gfP6_Square (gfP12_y a);
          v2 = gfP6_Add (gfP12_x a) (gfP12_y a);
          v2 = gfP6_Square v2;
          x = gfP6_Sub v2 v0;
          x = gfP6_Sub v2 v1;
          v0 = gfP6_MulTau v0;
          v0 = gfP6_Add v0 v1
      in \<lparr>gfP12_x = x, gfP12_y = v0\<rparr>)"

definition gfP12_Exp :: "gfP12 \<Rightarrow> int \<Rightarrow> gfP12" where
  "gfP12_Exp a k =
     fold (\<lambda>i sum. let t = gfP12_Square sum in if bit k i then gfP12_Mul t a else t)
       (rev [0..<big_BitLen k]) gfP12_SetOne"

definition gfP12_Invert :: "gfP12 \<Rightarrow> gfP12" where
  "gfP12_Invert a =
     (let t1 = gfP6_Square (gfP12_x a);
          t2 = gfP6_Square (gfP12_y a);
          t1 = gfP6_MulTau t1; t1 = gfP6_Sub t2 t1;
          t2 = gfP6_Invert t1;
          e = \<lparr>gfP12_x = gfP6_Neg (gfP12_x a), gfP12_y = gfP12_y a\<rparr>
      in gfP12_MulScalar e e t2)"

definition gfP12_ok :: "gfP12 \<Rightarrow> bool" where
  "gfP12_ok a \<longleftrightarrow> gfP6_ok (gfP12_x a) \<and> gfP6_ok (gfP12_y a)"

definition gfP12_val :: "gfP12 \<Rightarrow> fp12" where
  "gfP12_val a = Fp12 (gfP6_val (gfP12_x a)) (gfP6_val (gfP12_y a))"

lemmas gfP12_spec = gfP12_ok_def gfP12_val_def fp12_defs Let_def gfp6_rules gfP6_MulTau_val

interpretation gfp12: ring_impl_square gfP12_ok gfP12_val gfP12_Add gfP12_Sub gfP12_Mul gfP12_Neg
    gfP12_SetOne gfP12_Square
  by unfold_locales (simp_all add: gfP12_spec gfP12_Add_def gfP12_Sub_def gfP12_Mul_def gfP12_Neg_def
      gfP12_Square_def gfP12_SetOne_def algebra_simps)

lemmas gfp12_rules = gfp12.ok_intros gfp12.val_simps gfp12.ok_square gfp12.val_square

lemma gfP12_SetOne_val [simp]: "gfP12_ok gfP12_SetOne" "gfP12_val gfP12_SetOne = 1"
  by (rule gfp12.ok_one gfp12.val_one)+

lemma gfP12_SetZero_val [simp]: "gfP12_ok gfP12_SetZero" "gfP12_val gfP12_SetZero = 0"
  by (simp_all add: gfP12_SetZero_def gfP12_spec)

lemma gfP12_val_inject: "gfP12_ok a \<Longrightarrow> gfP12_ok b \<Longrightarrow> gfP12_val a = gfP12_val b \<longleftrightarrow> a = b"
  by (cases a; cases b) (simp add: gfP12_ok_def gfP12_val_def gfP6_val_inject)

lemma gfP12_IsZero_iff: "gfP12_ok a \<Longrightarrow> gfP12_IsZero a \<longleftrightarrow> gfP12_val a = 0"
  by (simp add: gfP12_IsZero_def gfP12_ok_def gfP12_val_def gfP6_IsZero_iff zero_fp12_def)

lemma gfP12_IsOne_iff: "gfP12_ok a \<Longrightarrow> gfP12_IsOne a \<longleftrightarrow> gfP12_val a = 1"
  by (simp add: gfP12_IsOne_def gfP12_ok_def gfP12_val_def gfP6_IsZero_iff gfP6_IsOne_iff one_fp12_def)

lemma gfP12_Mul1_eq:
  "gfP12_ok a \<Longrightarrow> gfP12_ok b \<Longrightarrow> gfP12_ok (gfP12_Mul1 a b) \<and> gfP12_val (gfP12_Mul1 a b) = gfP12_val a * gfP12_val b"
  by (simp add: gfP12_spec gfP12_Mul1_def algebra_simps)

lemma gfP12_Exp_val:
  assumes "gfP12_ok a" "0 \<le> k"
  shows "gfP12_ok (gfP12_Exp a k) \<and> gfP12_val (gfP12_Exp a k) = gfP12_val a ^ nat k"
  using gfp12.pow_high_bits [OF gfP12_SetOne_val(1) assms(1), of k "big_BitLen k"] big_BitLen_mod [OF assms(2)]
  by (simp add: gfP12_Exp_def)

definition conj12 :: "fp12 \<Rightarrow> fp12" where
  "conj12 a = Fp12 (- fp12_w a) (fp12_1 a)"

lemma gfP12_Conjugate_val:
  "gfP12_ok a \<Longrightarrow> gfP12_ok (gfP12_Conjugate a)" "gfP12_ok a \<Longrightarrow> gfP12_val (gfP12_Conjugate a) = conj12 (gfP12_val a)"
  by (simp_all add: gfP12_spec gfP12_Conjugate_def conj12_def)

definition norm12 :: "fp12 \<Rightarrow> fp6" where
  "norm12 a = fp12_1 a * fp12_1 a - tau * (fp12_w a * fp12_w a)"

lemma gfP12_Invert_val:
  assumes "gfP12_ok a"
  shows "gfP12_ok (gfP12_Invert a) \<and> gfP12_val a * gfP12_val (gfP12_Invert a)
    = Fp12 0 (Fp6 0 0 (Fp2 0 (norm2 (norm6 (norm12 (gfP12_val a))) ^ nat (Sm9_p - 1))))"
proof -
  obtain x y where a: "a = \<lparr>gfP12_x = x, gfP12_y = y\<rparr>" by (cases a) auto
  define n where "n = gfP6_Sub (gfP6_Square y) (gfP6_MulTau (gfP6_Square x))"
  have ok: "gfP6_ok x" "gfP6_ok y" using assms by (simp_all add: gfP12_ok_def a)
  have n: "gfP6_ok n" "gfP6_val n = norm12 (gfP12_val a)"
    unfolding n_def norm12_def using ok by (simp_all add: gfP12_spec a)
  have inv: "gfP6_ok (gfP6_Invert n)"
    "norm12 (gfP12_val a) * gfP6_val (gfP6_Invert n) = Fp6 0 0 (Fp2 0 (norm2 (norm6 (norm12 (gfP12_val a))) ^ nat (Sm9_p - 1)))"
    using gfP6_Invert_val [OF n(1)] by (simp_all add: n(2))
  have I: "gfP12_Invert a = \<lparr>gfP12_x = gfP6_Mul (gfP6_Neg x) (gfP6_Invert n), gfP12_y = gfP6_Mul y (gfP6_Invert n)\<rparr>"
    by (simp add: gfP12_Invert_def gfP12_MulScalar_def Let_def a n_def)
  have "gfP12_val a * gfP12_val (gfP12_Invert a) = Fp12 0 (norm12 (gfP12_val a) * gfP6_val (gfP6_Invert n))"
    unfolding I norm12_def using ok inv(1) by (simp add: gfP12_spec a algebra_simps)
  moreover have "gfP12_ok (gfP12_Invert a)" unfolding I using ok inv(1) by (simp add: gfP12_ok_def gfp6_rules)
  ultimately show ?thesis using inv(2) by simp
qed

section \<open>Automorphisms of the tower\<close>

text \<open>
  A ring endomorphism \<open>s\<close> of \<open>fp2\<close> extends to the tower by \<open>\<tau> \<mapsto> g \<tau>\<close> and \<open>\<omega> \<mapsto> h \<omega>\<close> whenever the images
  respect \<open>\<tau>\<^sup>3 = \<xi>\<close> and \<open>\<omega>\<^sup>2 = \<tau>\<close>. The three Frobenius maps of the code are of this form.
\<close>

definition lift6 :: "(fp2 \<Rightarrow> fp2) \<Rightarrow> fp2 \<Rightarrow> fp6 \<Rightarrow> fp6" where
  "lift6 s g a = Fp6 (s (fp6_tt a) * (g * g)) (s (fp6_t a) * g) (s (fp6_1 a))"

definition lift12 :: "(fp2 \<Rightarrow> fp2) \<Rightarrow> fp2 \<Rightarrow> fp2 \<Rightarrow> fp12 \<Rightarrow> fp12" where
  "lift12 s g h a = Fp12 (lift6 s g (fp12_w a) * Fp6 0 0 h) (lift6 s g (fp12_1 a))"

locale tower_hom =
  fixes s :: "fp2 \<Rightarrow> fp2" and g h :: fp2
  assumes s_add: "s (a + b) = s a + s b" and s_mult: "s (a * b) = s a * s b"
    and s_xi: "s xi = g * g * g * xi" and h_square: "h * h = g"
begin

lemma lift6_add: "lift6 s g (a + b) = lift6 s g a + lift6 s g b"
  by (simp add: lift6_def fp6_defs s_add algebra_simps)

lemma lift6_mult: "lift6 s g (a * b) = lift6 s g a * lift6 s g b"
  by (simp add: lift6_def fp6_defs s_add s_mult s_xi algebra_simps)

lemma lift6_tau: "s 0 = 0 \<Longrightarrow> s 1 = 1 \<Longrightarrow> lift6 s g tau = Fp6 0 0 h * Fp6 0 0 h * tau"
  by (simp add: lift6_def tau_def fp6_defs h_square)

lemma lift12_add: "lift12 s g h (a + b) = lift12 s g h a + lift12 s g h b"
  by (simp add: lift12_def fp12_defs lift6_add distrib_right)

lemma lift12_mult: "s 0 = 0 \<Longrightarrow> s 1 = 1 \<Longrightarrow> lift12 s g h (a * b) = lift12 s g h a * lift12 s g h b"
  by (simp add: lift12_def fp12_defs lift6_add lift6_mult lift6_tau algebra_simps)

lemma lift12_lift12:
  "lift12 s g h (lift12 s' g' h' a) = lift12 (\<lambda>x. s (s' x)) (s g' * g) (s h' * h) a"
  by (simp add: lift12_def lift6_def times_fp6_def s_add s_mult algebra_simps)

end

lemma conj2_simps [simp]: "conj2 0 = 0" "conj2 1 = 1" "conj2 (conj2 a) = a" "conj2 xi = - xi"
  by (simp_all add: conj2_def xi_def fp2_defs)

lemma conj2_scalar: "conj2 g6 = g6" "conj2 g3 = g3"
  by (simp_all add: conj2_def g6_def g3_def gfP2_val_def xiToPMinus1Over6_def xiToPMinus1Over3_def)

interpretation frob: tower_hom conj2 g3 g6
  by unfold_locales (simp_all add: g6_square g3_cube, simp_all add: conj2_def fp2_defs algebra_simps)

interpretation frobP2: tower_hom "\<lambda>x. x" cube_root g3
  by unfold_locales (simp_all add: g3_square cube_root_cube)

lemma cube_root_fourth: "cube_root * (cube_root * (cube_root * x)) = x"
  using cube_root_cube by (simp add: mult.assoc [symmetric])

interpretation frobP4: tower_hom "\<lambda>x. x" "cube_root * cube_root" cube_root
  by unfold_locales (simp_all add: mult.assoc cube_root_fourth)

lemma gfP6_Frobenius_val:
  assumes "gfP6_ok a"
  shows "gfP6_ok (gfP6_Frobenius a) \<and> gfP6_val (gfP6_Frobenius a) = lift6 conj2 g3 (gfP6_val a)"
  using assms
  by (simp add: gfP6_Frobenius_def gfP6_spec gfP2_Conjugate_val frobenius_consts_val lift6_def g3_square)

lemma gfP6_FrobeniusP2_val:
  assumes "gfP6_ok a"
  shows "gfP6_ok (gfP6_FrobeniusP2 a) \<and> gfP6_val (gfP6_FrobeniusP2 a) = lift6 (\<lambda>x. x) cube_root (gfP6_val a)"
  using assms
  by (simp add: gfP6_FrobeniusP2_def gfP6_spec frobenius_consts_val cube_root_square lift6_def)

lemma gfP6_FrobeniusP4_val:
  assumes "gfP6_ok a"
  shows "gfP6_ok (gfP6_FrobeniusP4 a)
    \<and> gfP6_val (gfP6_FrobeniusP4 a) = lift6 (\<lambda>x. x) (cube_root * cube_root) (gfP6_val a)"
  using assms
  by (simp add: gfP6_FrobeniusP4_def gfP6_spec frobenius_consts_val cube_root_square lift6_def)
    (simp add: mult.assoc cube_root_fourth mult.left_commute)

lemma gfP12_Frobenius_val:
  assumes "gfP12_ok a"
  shows "gfP12_ok (gfP12_Frobenius a) \<and> gfP12_val (gfP12_Frobenius a) = lift12 conj2 g3 g6 (gfP12_val a)"
  using assms
  by (simp add: gfP12_Frobenius_def gfP12_ok_def gfP12_val_def gfP6_Frobenius_val gfP6_MulScalar_val
      frobenius_consts_val lift12_def)

lemma gfP12_FrobeniusP2_val:
  assumes "gfP12_ok a"
  shows "gfP12_ok (gfP12_FrobeniusP2 a)
    \<and> gfP12_val (gfP12_FrobeniusP2 a) = lift12 (\<lambda>x. x) cube_root g3 (gfP12_val a)"
  using assms
  by (simp add: gfP12_FrobeniusP2_def gfP12_ok_def gfP12_val_def gfP6_FrobeniusP2_val gfP6_MulGFP_val
      frobenius_consts_val lift12_def)

lemma gfP12_FrobeniusP4_val:
  assumes "gfP12_ok a"
  shows "gfP12_ok (gfP12_FrobeniusP4 a)
    \<and> gfP12_val (gfP12_FrobeniusP4 a) = lift12 (\<lambda>x. x) (cube_root * cube_root) cube_root (gfP12_val a)"
  using assms
  by (simp add: gfP12_FrobeniusP4_def gfP12_ok_def gfP12_val_def gfP6_FrobeniusP4_val gfP6_MulGFP_val
      frobenius_consts_val lift12_def)

lemma gfP12_Frobenius_Frobenius:
  assumes "gfP12_ok a"
  shows "gfP12_Frobenius (gfP12_Frobenius a) = gfP12_FrobeniusP2 a"
  using assms
  by (subst gfP12_val_inject [symmetric])
    (simp_all add: gfP12_Frobenius_val gfP12_FrobeniusP2_val frob.lift12_lift12 conj2_scalar g3_square g6_square)

lemma gfP12_FrobeniusP2_FrobeniusP2:
  assumes "gfP12_ok a"
  shows "gfP12_FrobeniusP2 (gfP12_FrobeniusP2 a) = gfP12_FrobeniusP4 a"
  using assms
  by (subst gfP12_val_inject [symmetric])
    (simp_all add: gfP12_FrobeniusP4_val gfP12_FrobeniusP2_val frobP2.lift12_lift12 g3_square)

lemma gfP12_FrobeniusP4_FrobeniusP2:
  assumes "gfP12_ok a"
  shows "gfP12_FrobeniusP4 (gfP12_FrobeniusP2 a) = gfP12_Conjugate a"
proof -
  have "lift12 (\<lambda>x. x) 1 (- 1) x = conj12 x" for x
    by (simp add: lift12_def lift6_def conj12_def times_fp6_def fp6_eq_iff fp12_eq_iff uminus_fp6_def)
  moreover have "cube_root * (cube_root * cube_root) = 1" using cube_root_cube by (simp add: mult.assoc)
  ultimately show ?thesis using assms
    by (subst gfP12_val_inject [symmetric])
      (simp_all add: gfP12_FrobeniusP4_val gfP12_FrobeniusP2_val gfP12_Conjugate_val frobP4.lift12_lift12
        g3_cube_root)
qed

section \<open>Properties\<close>

text \<open>
  C21: The Karatsuba products and the complex squarings of the three levels compute the products of
  the rings \<open>fp2\<close>, \<open>fp6\<close> and \<open>fp12\<close> (\<open>i\<^sup>2 = -2\<close>, \<open>\<tau>\<^sup>3 = i\<close>, \<open>\<omega>\<^sup>2 = \<tau>\<close>) and keep every limb array reduced;
  the schoolbook variants \<open>Mul1\<close> agree with them.
\<close>

theorem tower_products:
  assumes "gfP2_ok a2" "gfP2_ok b2" "gfP6_ok a6" "gfP6_ok b6" "gfP12_ok a" "gfP12_ok b"
  shows "gfP2_val (gfP2_Mul a2 b2) = gfP2_val a2 * gfP2_val b2 \<and> gfP2_Mul1 a2 b2 = gfP2_Mul a2 b2
    \<and> gfP2_Square a2 = gfP2_Mul a2 a2 \<and> gfP2_MulXi a2 = gfP2_Mul \<lparr>gfP2_x = newGFp 1, gfP2_y = [0, 0, 0, 0]\<rparr> a2
    \<and> gfP6_val (gfP6_Mul a6 b6) = gfP6_val a6 * gfP6_val b6 \<and> gfP6_Square a6 = gfP6_Mul a6 a6
    \<and> gfP12_ok (gfP12_Mul a b) \<and> gfP12_val (gfP12_Mul a b) = gfP12_val a * gfP12_val b
    \<and> gfP12_Mul1 a b = gfP12_Mul a b \<and> gfP12_Square a = gfP12_Mul a a"
proof -
  have i: "gfP2_ok \<lparr>gfP2_x = newGFp 1, gfP2_y = [0, 0, 0, 0]\<rparr>"
    "gfP2_val \<lparr>gfP2_x = newGFp 1, gfP2_y = [0, 0, 0, 0]\<rparr> = xi"
    by (simp_all add: gfP2_ok_def gfP2_val_def xi_def)
  show ?thesis using assms i
    by (simp add: gfp2_rules gfp6_rules gfp12_rules gfP2_Mul1_eq gfP12_Mul1_eq gfP2_MulXi_val
        gfP2_val_inject [symmetric] gfP6_val_inject [symmetric] gfP12_val_inject [symmetric])
qed

theorem tower_products_witness:
  "gfP12_val (gfP12_Mul gfP12_SetOne gfP12_SetOne) = 1 \<and> gfP2_Square gfP2_SetOne = gfP2_Mul gfP2_SetOne gfP2_SetOne
    \<and> gfP6_val (gfP6_Mul gfP6_SetOne gfP6_SetZero) = 0"
  using tower_products [of gfP2_SetOne gfP2_SetOne gfP6_SetOne gfP6_SetZero gfP12_SetOne gfP12_SetOne] by simp

text \<open>
  \<open>gfP12.Exp\<close>, which reads the exponent from its highest bit and starts from one, computes the power
  for every exponent that is not negative.
\<close>

theorem tower_exp:
  assumes "gfP12_ok a" "0 \<le> k"
  shows "gfP12_ok (gfP12_Exp a k) \<and> gfP12_val (gfP12_Exp a k) = gfP12_val a ^ nat k"
  using assms by (rule gfP12_Exp_val)

theorem tower_exp_witness:
  "gfP12_val (gfP12_Exp (gfP12_Neg gfP12_SetOne) 5) = - 1"
  using tower_exp [of "gfP12_Neg gfP12_SetOne" 5] by (simp add: gfp12_rules)

text \<open>
  \<open>gfP12.Invert\<close> descends through the norms of the tower and inverts every element whose norm in
  the base field satisfies Fermat's equation; it is defined on all elements and keeps arrays reduced.
\<close>

theorem tower_invert:
  assumes "gfP12_ok a" "norm2 (norm6 (norm12 (gfP12_val a))) ^ nat (Sm9_p - 1) = 1"
  shows "gfP12_ok (gfP12_Invert a) \<and> gfP12_val a * gfP12_val (gfP12_Invert a) = 1"
  using gfP12_Invert_val [OF assms(1)] assms(2) by (simp add: fp2_defs fp6_defs fp12_defs)

theorem tower_invert_witness:
  "gfP12_val (gfP12_Neg gfP12_SetOne) * gfP12_val (gfP12_Invert (gfP12_Neg gfP12_SetOne)) = 1"
proof -
  have "norm2 (norm6 (norm12 (- 1))) = 1"
    by (simp add: norm12_def norm6_def norm2_def fp2_defs fp6_defs fp12_defs)
  then show ?thesis
    using tower_invert [of "gfP12_Neg gfP12_SetOne"] by (simp add: gfp12_rules)
qed

text \<open>
  The Frobenius routines. \<open>Frobenius\<close> is a ring endomorphism; applied twice it is \<open>FrobeniusP2\<close>, and
  that twice is \<open>FrobeniusP4\<close>; \<open>FrobeniusP4\<close> after \<open>FrobeniusP2\<close>, the sixth power, is \<open>Conjugate\<close>. The
  identities are between the limb arrays, and rest on the relations of the constants of
  \<open>constants.go\<close>.
\<close>

theorem tower_frobenius:
  assumes "gfP12_ok a" "gfP12_ok b"
  shows "gfP12_Frobenius (gfP12_Mul a b) = gfP12_Mul (gfP12_Frobenius a) (gfP12_Frobenius b)
    \<and> gfP12_Frobenius (gfP12_Add a b) = gfP12_Add (gfP12_Frobenius a) (gfP12_Frobenius b)
    \<and> gfP12_Frobenius (gfP12_Frobenius a) = gfP12_FrobeniusP2 a
    \<and> gfP12_FrobeniusP2 (gfP12_FrobeniusP2 a) = gfP12_FrobeniusP4 a
    \<and> gfP12_FrobeniusP4 (gfP12_FrobeniusP2 a) = gfP12_Conjugate a"
proof -
  have "gfP12_Frobenius (gfP12_Mul a b) = gfP12_Mul (gfP12_Frobenius a) (gfP12_Frobenius b)"
    "gfP12_Frobenius (gfP12_Add a b) = gfP12_Add (gfP12_Frobenius a) (gfP12_Frobenius b)"
    using assms
    by (simp_all add: gfP12_val_inject [symmetric] gfP12_Frobenius_val gfp12_rules frob.lift12_mult frob.lift12_add)
  then show ?thesis
    using assms by (simp add: gfP12_Frobenius_Frobenius gfP12_FrobeniusP2_FrobeniusP2 gfP12_FrobeniusP4_FrobeniusP2)
qed

lemma gfP12Gen_ok [simp]: "gfP12_ok gfP12Gen"
  by (simp add: gfP12_ok_def gfP6_ok_def gfP2_ok_def gfp_ok_def gfP12Gen_def Sm9_p_def)

theorem tower_frobenius_witness:
  "gfP12_Frobenius (gfP12_Frobenius gfP12Gen) = gfP12_FrobeniusP2 gfP12Gen"
  using tower_frobenius [of gfP12Gen gfP12Gen] by simp

text \<open>
  \<open>gfP12.Square1\<close>, the unused alternative squaring, does not square: it overwrites \<open>v2 - v0\<close> with
  \<open>v2 - v1\<close> where both have to be subtracted, so its \<open>\<omega>\<close> coefficient is too large by the square of
  that of its argument.
\<close>

theorem tower_square1:
  assumes "gfP12_ok a"
  shows "gfP12_val (gfP12_Square1 a) = gfP12_val a * gfP12_val a + Fp12 (fp12_w (gfP12_val a) * fp12_w (gfP12_val a)) 0"
  using assms by (simp add: gfP12_spec gfP12_Square1_def algebra_simps)

theorem tower_square1_witness:
  "gfP12_val (gfP12_Square1 \<lparr>gfP12_x = gfP6_SetOne, gfP12_y = gfP6_SetZero\<rparr>)
    \<noteq> gfP12_val \<lparr>gfP12_x = gfP6_SetOne, gfP12_y = gfP6_SetZero\<rparr> * gfP12_val \<lparr>gfP12_x = gfP6_SetOne, gfP12_y = gfP6_SetZero\<rparr>"
  using tower_square1 [of "\<lparr>gfP12_x = gfP6_SetOne, gfP12_y = gfP6_SetZero\<rparr>"]
  by (simp add: gfP12_ok_def) (simp add: gfP12_val_def fp12_defs)

end
