(* ===== verification/Jacobian.thy ===== *)
theory Jacobian
  imports Main
begin

text \<open>
  Affine and Jacobian points of a curve \<open>y\<^sup>2 = x\<^sup>3 + b\<close> over a commutative ring, for the point
  routines of packages \<open>sm9\<close> (over \<open>fp\<close> and \<open>fp2\<close>). A Jacobian triple \<open>(X, Y, Z)\<close> stands for the affine
  point \<open>(x, y)\<close> when \<open>X = x Z\<^sup>2\<close> and \<open>Y = y Z\<^sup>3\<close>. Divisions are stated by products: the slope of a
  chord is any \<open>l\<close> with \<open>l (x2 - x1) = y2 - y1\<close>, the slope of a tangent any \<open>l\<close> with
  \<open>2 l y = 3 x\<^sup>2\<close>. So the identities need neither a field nor a case distinction on \<open>Z\<close>.
\<close>

definition on_curve :: "'a::comm_ring_1 \<Rightarrow> 'a \<times> 'a \<Rightarrow> bool" where
  "on_curve b P = (case P of (x, y) \<Rightarrow> y * y = x * x * x + b)"

definition jac_rep :: "'a::comm_ring_1 \<Rightarrow> 'a \<Rightarrow> 'a \<Rightarrow> 'a \<times> 'a \<Rightarrow> bool" where
  "jac_rep X Y Z P = (case P of (x, y) \<Rightarrow> X = x * (Z * Z) \<and> Y = y * (Z * Z * Z))"

text \<open>The third point of the line of slope \<open>l\<close> through \<open>(x1, y1)\<close> and a point over \<open>x2\<close>, reflected.\<close>

definition line_sum :: "'a::comm_ring_1 \<Rightarrow> 'a \<times> 'a \<Rightarrow> 'a \<Rightarrow> 'a \<times> 'a" where
  "line_sum l P x2 = (case P of (x1, y1) \<Rightarrow>
     let x3 = l * l - x1 - x2 in (x3, l * (x1 - x3) - y1))"

section \<open>Addition\<close>

lemma jac_add:
  fixes x1 y1 z1 x2 y2 z2 l :: "'a::comm_ring_1"
  assumes rep: "jac_rep X1 Y1 z1 (x1, y1)" "jac_rep X2 Y2 z2 (x2, y2)" and l: "l * (x2 - x1) = y2 - y1"
  defines "u1 \<equiv> X1 * (z2 * z2)" and "u2 \<equiv> X2 * (z1 * z1)"
    and "s1 \<equiv> Y1 * (z2 * (z2 * z2))" and "s2 \<equiv> Y2 * (z1 * (z1 * z1))"
  defines "h \<equiv> u2 - u1"
  defines "i \<equiv> (h + h) * (h + h)"
  defines "j \<equiv> h * i" and "r \<equiv> (s2 - s1) + (s2 - s1)" and "v \<equiv> u1 * i"
  defines "X3 \<equiv> r * r - j - (v + v)"
  defines "Y3 \<equiv> r * (v - X3) - (s1 * j + s1 * j)"
    and "Z3 \<equiv> ((z1 + z2) * (z1 + z2) - z1 * z1 - z2 * z2) * h"
  shows "jac_rep X3 Y3 Z3 (line_sum l (x1, y1) x2)"
proof -
  define D where "D = x2 - x1"
  have X1: "X1 = x1 * (z1 * z1)" and Y1: "Y1 = y1 * (z1 * z1 * z1)" and X2: "X2 = x2 * (z2 * z2)"
    and Y2: "Y2 = y2 * (z2 * z2 * z2)" using rep by (simp_all add: jac_rep_def)
  define w where "w = z1 * z1 * z1 * (z2 * z2 * z2)"
  have h: "h = D * (z1 * z1 * (z2 * z2))" by (simp add: h_def u1_def u2_def X1 X2 D_def algebra_simps)
  have Z3: "Z3 = 2 * D * w" by (simp add: Z3_def h w_def algebra_simps)
  have "s2 - s1 = (y2 - y1) * w" by (simp add: s1_def s2_def Y1 Y2 w_def algebra_simps)
  then have s: "s2 - s1 = l * D * w" by (simp add: l [symmetric] D_def)
  have r: "r = l * Z3" by (simp add: r_def s Z3 algebra_simps)
  have j: "j = D * (Z3 * Z3)" by (simp add: j_def i_def h Z3 w_def algebra_simps)
  have v: "v = x1 * (Z3 * Z3)" by (simp add: v_def u1_def X1 i_def h Z3 w_def algebra_simps)
  have sj: "s1 * j + s1 * j = y1 * (Z3 * Z3 * Z3)"
    by (simp add: j s1_def Y1) (simp add: Z3 w_def algebra_simps)
  have X3: "X3 = (l * l - x1 - x2) * (Z3 * Z3)"
    by (simp add: X3_def r j v) (simp add: D_def algebra_simps)
  have "Y3 = (l * (x1 - (l * l - x1 - x2)) - y1) * (Z3 * Z3 * Z3)"
    by (simp add: Y3_def r v sj X3) (simp add: algebra_simps)
  with X3 show ?thesis by (simp add: jac_rep_def line_sum_def Let_def)
qed

text \<open>With an affine second argument, the sequence \<open>madd-2007-bl\<close>.\<close>

lemma jac_madd:
  fixes x1 y1 z1 x2 y2 l :: "'a::comm_ring_1"
  assumes rep: "jac_rep X1 Y1 z1 (x1, y1)" and l: "l * (x2 - x1) = y2 - y1"
  defines "H \<equiv> x2 * (z1 * z1) - X1"
  defines "I \<equiv> (H * H + H * H) + (H * H + H * H)"
  defines "J \<equiv> H * I" and "V \<equiv> X1 * I"
    and "r \<equiv> (y2 * (z1 * (z1 * z1)) - Y1) + (y2 * (z1 * (z1 * z1)) - Y1)"
  defines "X3 \<equiv> r * r - J - V - V"
  defines "Y3 \<equiv> r * (V - X3) - Y1 * J - Y1 * J"
    and "Z3 \<equiv> (z1 + H) * (z1 + H) - z1 * z1 - H * H"
  shows "jac_rep X3 Y3 Z3 (line_sum l (x1, y1) x2)"
proof -
  define D where "D = x2 - x1"
  have X1: "X1 = x1 * (z1 * z1)" and Y1: "Y1 = y1 * (z1 * z1 * z1)"
    using rep by (simp_all add: jac_rep_def)
  have H: "H = D * (z1 * z1)" by (simp add: H_def X1 D_def algebra_simps)
  have Z3: "Z3 = 2 * D * (z1 * z1 * z1)" by (simp add: Z3_def H algebra_simps)
  have "y2 * (z1 * (z1 * z1)) - Y1 = (y2 - y1) * (z1 * z1 * z1)" by (simp add: Y1 algebra_simps)
  then have "y2 * (z1 * (z1 * z1)) - Y1 = l * D * (z1 * z1 * z1)" by (simp add: l [symmetric] D_def)
  then have r: "r = l * Z3" by (simp add: r_def Z3 algebra_simps)
  have J: "J = D * (Z3 * Z3)" by (simp add: J_def I_def H Z3 algebra_simps)
  have V: "V = x1 * (Z3 * Z3)" by (simp add: V_def X1 I_def H Z3 algebra_simps)
  have yj: "Y1 * J + Y1 * J = y1 * (Z3 * Z3 * Z3)"
    by (simp add: J Y1) (simp add: Z3 algebra_simps)
  have X3: "X3 = (l * l - x1 - x2) * (Z3 * Z3)"
    by (simp add: X3_def r J V) (simp add: D_def algebra_simps)
  have "Y3 = r * (V - X3) - (Y1 * J + Y1 * J)" by (simp add: Y3_def)
  then have "Y3 = (l * (x1 - (l * l - x1 - x2)) - y1) * (Z3 * Z3 * Z3)"
    by (simp add: r V yj X3) (simp add: algebra_simps)
  with X3 show ?thesis by (simp add: jac_rep_def line_sum_def Let_def)
qed

section \<open>Doubling\<close>

lemma jac_double:
  fixes x y z l :: "'a::comm_ring_1"
  assumes rep: "jac_rep X Y z (x, y)" and l: "l * (2 * y) = 3 * (x * x)"
  defines "A \<equiv> X * X" and "B \<equiv> Y * Y"
  defines "C \<equiv> B * B" and "E \<equiv> A + A + A"
  defines "D \<equiv> ((X + B) * (X + B) - A - C) + ((X + B) * (X + B) - A - C)"
  defines "X3 \<equiv> E * E - (D + D)"
  defines "Y3 \<equiv> E * (D - X3) - (((C + C) + (C + C)) + ((C + C) + (C + C)))" and "Z3 \<equiv> Y * z + Y * z"
  shows "jac_rep X3 Y3 Z3 (line_sum l (x, y) x)"
proof -
  have X: "X = x * (z * z)" and Y: "Y = y * (z * z * z)" using rep by (simp_all add: jac_rep_def)
  have Z3: "Z3 = 2 * y * (z * z * z * z)" by (simp add: Z3_def Y algebra_simps)
  have "E = (3 * (x * x)) * (z * z * z * z)" by (simp add: E_def A_def X algebra_simps)
  also have "\<dots> = l * (2 * y) * (z * z * z * z)" by (simp only: l)
  finally have E: "E = l * Z3" by (simp add: Z3 algebra_simps)
  have D: "D = x * (Z3 * Z3)" by (simp add: D_def A_def C_def B_def X Y Z3 algebra_simps)
  have C: "((C + C) + (C + C)) + ((C + C) + (C + C)) = y * (Z3 * Z3 * Z3)"
    by (simp add: C_def B_def Y Z3 algebra_simps)
  have X3: "X3 = (l * l - x - x) * (Z3 * Z3)" by (simp add: X3_def E D algebra_simps)
  have "Y3 = (l * (x - (l * l - x - x)) - y) * (Z3 * Z3 * Z3)"
    unfolding Y3_def E C D X3 by (simp add: algebra_simps)
  with X3 show ?thesis by (simp add: jac_rep_def line_sum_def Let_def)
qed

section \<open>The curve equation\<close>

lemma on_curve_jac:
  assumes "jac_rep X Y Z (x, y)" "on_curve b (x, y)"
  shows "Y * Y = X * X * X + b * (Z * Z * Z * (Z * Z * Z))"
  using assms by (auto simp: jac_rep_def on_curve_def) (simp add: algebra_simps)

lemma line_sum_on_curve:
  fixes x1 y1 x2 y2 l d b :: "'a::comm_ring_1"
  assumes "on_curve b (x1, y1)" "on_curve b (x2, y2)" and l: "l * (x2 - x1) = y2 - y1" and d: "(x2 - x1) * d = 1"
  shows "on_curve b (line_sum l (x1, y1) x2)"
proof -
  define D where "D = x2 - x1"
  have x2: "x2 = x1 + D" and y2: "y2 = y1 + l * D" using l by (simp_all add: D_def algebra_simps)
  have 1: "y1 * y1 = x1 * x1 * x1 + b" using assms(1) by (simp add: on_curve_def)
  have "y2 * y2 = x2 * x2 * x2 + b" using assms(2) by (simp add: on_curve_def)
  then have "D * (2 * l * y1 + l * l * D) = D * (3 * x1 * x1 + 3 * x1 * D + D * D)"
    using 1 unfolding x2 y2 by (simp add: algebra_simps)
  then have "d * (D * (2 * l * y1 + l * l * D)) = d * (D * (3 * x1 * x1 + 3 * x1 * D + D * D))" by simp
  then have "(D * d) * (2 * l * y1 + l * l * D) = (D * d) * (3 * x1 * x1 + 3 * x1 * D + D * D)"
    by (simp only: mult_ac)
  then have e: "2 * l * y1 = 3 * x1 * x1 + 3 * x1 * D + D * D - l * l * D"
    using d by (simp add: D_def [symmetric]) (simp add: algebra_simps)
  define x3 where "x3 = l * l - x1 - x2"
  define t where "t = x1 - x3"
  have lt: "l * l = t + t + x3 + x3 + x3 + D" by (simp add: t_def x3_def x2 algebra_simps)
  have "(l * t - y1) * (l * t - y1) = t * (l * l * t) - t * (2 * l * y1) + y1 * y1"
    by (simp add: algebra_simps)
  also have "\<dots> = x3 * x3 * x3 + b"
    unfolding e 1 lt by (simp add: t_def algebra_simps)
  finally show ?thesis
    by (simp only: on_curve_def line_sum_def Let_def prod.case x3_def [symmetric] t_def [symmetric])
qed

lemma tangent_sum_on_curve:
  fixes x y l b :: "'a::comm_ring_1"
  assumes "on_curve b (x, y)" and l: "l * (2 * y) = 3 * (x * x)"
  shows "on_curve b (line_sum l (x, y) x)"
proof -
  define x3 where "x3 = l * l - x - x"
  define t where "t = x - x3"
  have 1: "y * y = x * x * x + b" using assms(1) by (simp add: on_curve_def)
  have lt: "l * l = t + t + x3 + x3 + x3" by (simp add: t_def x3_def algebra_simps)
  have "(l * t - y) * (l * t - y) = t * (l * l * t) - t * (l * (2 * y)) + y * y" by (simp add: algebra_simps)
  also have "\<dots> = x3 * x3 * x3 + b" unfolding l 1 lt by (simp add: t_def algebra_simps)
  finally show ?thesis
    by (simp only: on_curve_def line_sum_def Let_def prod.case x3_def [symmetric] t_def [symmetric])
qed

section \<open>Normalisation\<close>

lemma unit_mult: "a dvd 1 \<Longrightarrow> b dvd 1 \<Longrightarrow> a * b dvd (1 :: 'a::comm_ring_1)"
  using mult_dvd_mono [of a 1 b 1] by simp

lemma slope_exists: "d dvd 1 \<Longrightarrow> \<exists>l. l * d = (n :: 'a::comm_ring_1)"
  by (metis dvd_def mult.assoc mult.commute mult_1_right)

lemma affine_coordinates:
  fixes x y z zi :: "'a::comm_ring_1"
  assumes "z * zi = 1"
  shows "x * (z * z) * (zi * zi) = x" "y * (z * z * z) * zi * (zi * zi) = y"
proof -
  have "x * (z * z) * (zi * zi) = x * ((z * zi) * (z * zi))"
    "y * (z * z * z) * zi * (zi * zi) = y * ((z * zi) * (z * zi) * (z * zi))" by (simp_all only: mult_ac)
  then show "x * (z * z) * (zi * zi) = x" "y * (z * z * z) * zi * (zi * zi) = y" by (simp_all add: assms)
qed

lemma affine_curve_equation:
  fixes x y z zi b :: "'a::comm_ring_1"
  assumes "z * zi = 1"
  shows "(y * zi * (zi * zi)) * (y * zi * (zi * zi)) = x * (zi * zi) * (x * (zi * zi)) * (x * (zi * zi)) + b
    \<longleftrightarrow> y ^ 2 = x ^ 3 + b * z ^ 6" (is "?l = ?r \<longleftrightarrow> _")
proof
  have zz: "zi ^ 6 * z ^ 6 = 1" using assms by (simp add: power_mult_distrib [symmetric] mult.commute)
  have e: "?l = y ^ 2 * zi ^ 6" "?r = x ^ 3 * zi ^ 6 + b" by (simp_all add: power_numeral_reduce mult_ac)
  {
    assume "?l = ?r"
    then have "(y ^ 2 * zi ^ 6) * z ^ 6 = (x ^ 3 * zi ^ 6 + b) * z ^ 6" by (simp only: e)
    then show "y ^ 2 = x ^ 3 + b * z ^ 6" by (simp add: mult.assoc zz distrib_right)
  next
    assume "y ^ 2 = x ^ 3 + b * z ^ 6"
    then have "y ^ 2 * zi ^ 6 = x ^ 3 * zi ^ 6 + b * (zi ^ 6 * z ^ 6)" by (simp add: algebra_simps)
    then show "?l = ?r" by (simp only: e zz mult_1_right)
  }
qed

section \<open>The group law, for any implementation of the two formulas\<close>

text \<open>
  \<open>jac_pt ok X Y Z b a P\<close>: the representation of \<open>a\<close> is sound, \<open>a\<close> is not at infinity and stands for
  the affine point \<open>P\<close> of the curve.
\<close>

definition jac_pt :: "('p \<Rightarrow> bool) \<Rightarrow> ('p \<Rightarrow> 'a) \<Rightarrow> ('p \<Rightarrow> 'a) \<Rightarrow> ('p \<Rightarrow> 'a) \<Rightarrow> 'a \<Rightarrow> 'p \<Rightarrow> 'a::comm_ring_1 \<times> 'a \<Rightarrow> bool" where
  "jac_pt ok X Y Z b a P \<longleftrightarrow> ok a \<and> Z a dvd 1 \<and> on_curve b P \<and> jac_rep (X a) (Y a) (Z a) P"

text \<open>The Jacobian test for equal points, and the \<open>z\<close> coordinate of a sum.\<close>

definition jac_same :: "'a::comm_ring_1 \<Rightarrow> 'a \<Rightarrow> 'a \<Rightarrow> 'a \<Rightarrow> 'a \<Rightarrow> 'a \<Rightarrow> bool" where
  "jac_same X1 Y1 Z1 X2 Y2 Z2 \<longleftrightarrow> X2 * (Z1 * Z1) = X1 * (Z2 * Z2) \<and> Y2 * (Z1 * (Z1 * Z1)) = Y1 * (Z2 * (Z2 * Z2))"

definition jac_add_z :: "'a::comm_ring_1 \<Rightarrow> 'a \<Rightarrow> 'a \<Rightarrow> 'a \<Rightarrow> 'a" where
  "jac_add_z X1 Z1 X2 Z2 = ((Z1 + Z2) * (Z1 + Z2) - Z1 * Z1 - Z2 * Z2) * (X2 * (Z1 * Z1) - X1 * (Z2 * Z2))"

locale jacobian_group =
  fixes ok :: "'p \<Rightarrow> bool" and X Y Z :: "'p \<Rightarrow> 'a::comm_ring_1" and b :: 'a
    and inf :: "'p \<Rightarrow> bool" and add :: "'p \<Rightarrow> 'p \<Rightarrow> 'p \<Rightarrow> 'p" and dbl :: "'p \<Rightarrow> 'p \<Rightarrow> 'p" and neg :: "'p \<Rightarrow> 'p"
  assumes two_unit: "(2 :: 'a) dvd 1"
    and inf_iff: "ok a \<Longrightarrow> inf a \<longleftrightarrow> Z a = 0"
    and add_same: "ok p \<Longrightarrow> ok q \<Longrightarrow> \<not> inf p \<Longrightarrow> \<not> inf q \<Longrightarrow>
      jac_same (X p) (Y p) (Z p) (X q) (Y q) (Z q) \<Longrightarrow> add c p q = dbl c p"
    and add_other: "ok p \<Longrightarrow> ok q \<Longrightarrow> \<not> inf p \<Longrightarrow> \<not> inf q \<Longrightarrow>
      \<not> jac_same (X p) (Y p) (Z p) (X q) (Y q) (Z q) \<Longrightarrow>
      ok (add c p q) \<and> Z (add c p q) = jac_add_z (X p) (Z p) (X q) (Z q)
      \<and> (\<forall>x1 y1 x2 y2 l. jac_rep (X p) (Y p) (Z p) (x1, y1) \<longrightarrow> jac_rep (X q) (Y q) (Z q) (x2, y2) \<longrightarrow>
          l * (x2 - x1) = y2 - y1 \<longrightarrow>
          jac_rep (X (add c p q)) (Y (add c p q)) (Z (add c p q)) (line_sum l (x1, y1) x2))"
    and dbl_law: "ok p \<Longrightarrow> \<not> inf p \<Longrightarrow>
      ok (dbl c p) \<and> Z (dbl c p) = Y p * Z p + Y p * Z p
      \<and> (\<forall>x y l. jac_rep (X p) (Y p) (Z p) (x, y) \<longrightarrow> l * (2 * y) = 3 * (x * x) \<longrightarrow>
          jac_rep (X (dbl c p)) (Y (dbl c p)) (Z (dbl c p)) (line_sum l (x, y) x))"
    and neg_law: "ok p \<Longrightarrow> ok (neg p) \<and> X (neg p) = X p \<and> Y (neg p) = - Y p \<and> Z (neg p) = Z p"
begin

lemma pt_not_inf: "jac_pt ok X Y Z b p P \<Longrightarrow> \<not> inf p"
  by (auto simp: jac_pt_def inf_iff)

lemma chord_z_unit:
  assumes "jac_pt ok X Y Z b p (x1, y1)" "jac_pt ok X Y Z b q (x2, y2)" "x2 - x1 dvd 1"
  shows "jac_add_z (X p) (Z p) (X q) (Z q) dvd 1" "\<not> jac_same (X p) (Y p) (Z p) (X q) (Y q) (Z q)"
proof -
  have XX: "X p = x1 * (Z p * Z p)" "X q = x2 * (Z q * Z q)"
    using assms(1,2) by (simp_all add: jac_pt_def jac_rep_def)
  have z: "Z p dvd 1" "Z q dvd 1" using assms(1,2) by (simp_all add: jac_pt_def)
  have "jac_add_z (X p) (Z p) (X q) (Z q) = 2 * (x2 - x1) * (Z p * Z p * Z p * (Z q * Z q * Z q))"
    by (simp add: jac_add_z_def XX algebra_simps)
  then show u: "jac_add_z (X p) (Z p) (X q) (Z q) dvd 1" using z assms(3) two_unit by (simp only: unit_mult)
  show "\<not> jac_same (X p) (Y p) (Z p) (X q) (Y q) (Z q)"
  proof
    assume "jac_same (X p) (Y p) (Z p) (X q) (Y q) (Z q)"
    then have "jac_add_z (X p) (Z p) (X q) (Z q) = 0" by (simp add: jac_same_def jac_add_z_def)
    with u show False by simp
  qed
qed

lemma add_chord:
  assumes "jac_pt ok X Y Z b p (x1, y1)" "jac_pt ok X Y Z b q (x2, y2)" "x2 - x1 dvd 1"
  shows "\<exists>l. l * (x2 - x1) = y2 - y1 \<and> jac_pt ok X Y Z b (add c p q) (line_sum l (x1, y1) x2)"
proof -
  obtain l where l: "l * (x2 - x1) = y2 - y1" using slope_exists [OF assms(3)] by blast
  obtain d where d: "(x2 - x1) * d = 1" using assms(3) by (auto simp: dvd_def)
  have "on_curve b (line_sum l (x1, y1) x2)"
    using assms(1,2) by (intro line_sum_on_curve [OF _ _ l d]) (simp_all add: jac_pt_def)
  then have "jac_pt ok X Y Z b (add c p q) (line_sum l (x1, y1) x2)"
    using add_other [of p q c] chord_z_unit [OF assms] pt_not_inf [OF assms(1)] pt_not_inf [OF assms(2)] assms(1,2) l
    unfolding jac_pt_def by metis
  with l show ?thesis by blast
qed

lemma dbl_tangent:
  assumes "jac_pt ok X Y Z b p (x, y)" "y dvd 1"
  shows "\<exists>l. l * (2 * y) = 3 * (x * x) \<and> jac_pt ok X Y Z b (dbl c p) (line_sum l (x, y) x)"
proof -
  have "2 * y dvd 1" by (rule unit_mult [OF two_unit assms(2)])
  from slope_exists [OF this] obtain l where l: "l * (2 * y) = 3 * (x * x)" by blast
  have "Y p * Z p + Y p * Z p = 2 * y * (Z p * Z p * Z p * Z p)"
    using assms(1) by (simp add: jac_pt_def jac_rep_def algebra_simps)
  moreover have "Z p dvd 1" using assms(1) by (simp add: jac_pt_def)
  ultimately have "Y p * Z p + Y p * Z p dvd 1" using assms(2) two_unit by (simp only: unit_mult)
  moreover have "on_curve b (line_sum l (x, y) x)"
    using assms(1) by (intro tangent_sum_on_curve [OF _ l]) (simp add: jac_pt_def)
  ultimately have "jac_pt ok X Y Z b (dbl c p) (line_sum l (x, y) x)"
    using dbl_law [of p c] assms(1) l pt_not_inf [OF assms(1)] unfolding jac_pt_def by metis
  with l show ?thesis by blast
qed

lemma add_equal:
  assumes "jac_pt ok X Y Z b p P" "jac_pt ok X Y Z b q P"
  shows "add c p q = dbl c p"
proof (rule add_same)
  show "jac_same (X p) (Y p) (Z p) (X q) (Y q) (Z q)"
    using assms by (cases P) (simp add: jac_same_def jac_pt_def jac_rep_def algebra_simps)
qed (use assms pt_not_inf [OF assms(1)] pt_not_inf [OF assms(2)] in \<open>simp_all add: jac_pt_def\<close>)

lemma add_opposite:
  assumes "jac_pt ok X Y Z b p (x, y)" "jac_pt ok X Y Z b q (x, - y)" "y dvd 1"
  shows "inf (add c p q)"
proof -
  have v: "X p = x * (Z p * Z p)" "Y p = y * (Z p * Z p * Z p)" "X q = x * (Z q * Z q)" "Y q = - y * (Z q * Z q * Z q)"
    using assms(1,2) by (simp_all add: jac_pt_def jac_rep_def)
  have "2 * y * (Z p * Z p * Z p * (Z q * Z q * Z q)) dvd 1"
    using assms two_unit by (simp add: jac_pt_def unit_mult)
  then have "2 * y * (Z p * Z p * Z p * (Z q * Z q * Z q)) \<noteq> 0" by auto
  then have "\<not> jac_same (X p) (Y p) (Z p) (X q) (Y q) (Z q)" by (auto simp: jac_same_def v algebra_simps)
  moreover have "jac_add_z (X p) (Z p) (X q) (Z q) = 0" by (simp add: jac_add_z_def v algebra_simps)
  ultimately show ?thesis
    using add_other [of p q c] assms pt_not_inf [OF assms(1)] pt_not_inf [OF assms(2)] inf_iff [of "add c p q"]
    by (simp add: jac_pt_def)
qed

lemma neg_pt: "jac_pt ok X Y Z b p (x, y) \<Longrightarrow> jac_pt ok X Y Z b (neg p) (x, - y)"
  using neg_law [of p] by (simp add: jac_pt_def on_curve_def jac_rep_def)

lemma ok_dbl: "ok p \<Longrightarrow> ok (dbl c p) \<or> inf p"
  using dbl_law [of p c] by blast

end

end
