(* ===== verification/Sm9_Curve.thy ===== *)
theory Sm9_Curve
  imports Sm9_Tower Jacobian
begin

text \<open>
  The curve of G1, \<open>curve.go\<close>: \<open>y\<^sup>2 = x\<^sup>3 + 5\<close> over the base field, points in Jacobian coordinates in
  Montgomery form. A method that writes only some fields of its receiver takes the receiver as its
  first argument \<open>c\<close>: \<open>Add\<close>, \<open>Add_JA\<close> and \<open>Double\<close> leave the field \<open>t\<close> of their receiver alone, and no
  routine reads \<open>t\<close>. Receiver and arguments may be the same point in the code; \<open>Add\<close> and \<open>Add_JA\<close>
  read each coordinate before they write it and \<open>Double\<close> works on a copy, so a call with aliases
  computes what the function does on the values the arguments have before the call.
\<close>

section \<open>Points\<close>

record curvePoint =
  cp_x :: gfP
  cp_y :: gfP
  cp_z :: gfP
  cp_t :: gfP

record curvePointAffine =
  cpa_x :: gfP
  cpa_y :: gfP

definition G1x :: gfP where
  "G1x = [0x22e935e29860501b, 0xa946fd5e0073282c, 0xefd0cec817a649be, 0x5129787c869140b5]"

definition G1y :: gfP where
  "G1y = [0xee779649eb87f7c7, 0x15563cbdec30a576, 0x326353912824efbf, 0x7215717763c39828]"

definition curveB :: gfP where
  "curveB = newGFp 5"

definition curveGen :: curvePoint where
  "curveGen = \<lparr>cp_x = G1x, cp_y = G1y, cp_z = newGFp 1, cp_t = newGFp 1\<rparr>"

definition gfP_zero :: gfP where
  "gfP_zero = [0, 0, 0, 0]"

definition curvePoint_Set :: "curvePoint \<Rightarrow> curvePoint" where
  "curvePoint_Set a = a"

definition curvePoint_SetInfinity :: curvePoint where
  "curvePoint_SetInfinity = \<lparr>cp_x = gfP_zero, cp_y = newGFp 1, cp_z = gfP_zero, cp_t = gfP_zero\<rparr>"

definition curvePoint_IsInfinity :: "curvePoint \<Rightarrow> bool" where
  "curvePoint_IsInfinity c = (cp_z c = gfP_zero)"

definition curvePoint_MakeAffine :: "curvePoint \<Rightarrow> curvePoint" where
  "curvePoint_MakeAffine c =
     (if cp_z c = newGFp 1 then c
      else if cp_z c = newGFp 0 then c\<lparr>cp_x := gfP_zero, cp_y := newGFp 1, cp_t := gfP_zero\<rparr>
      else
        let zInv = gfP_Invert (cp_z c);
            t = gfpMul (cp_y c) zInv;
            zInv2 = gfpMul zInv zInv
        in \<lparr>cp_x = gfpMul (cp_x c) zInv2, cp_y = gfpMul t zInv2, cp_z = newGFp 1, cp_t = newGFp 1\<rparr>)"

text \<open>\<open>IsOnCurve\<close> normalises its receiver, which is returned beside the answer.\<close>

definition curvePoint_IsOnCurve :: "curvePoint \<Rightarrow> bool \<times> curvePoint" where
  "curvePoint_IsOnCurve c =
     (let c = curvePoint_MakeAffine c
      in if curvePoint_IsInfinity c then (True, c)
         else
           let y2 = gfpMul (cp_y c) (cp_y c);
               x3 = gfpMul (cp_x c) (cp_x c);
               x3 = gfpMul x3 (cp_x c);
               x3 = gfpAdd x3 curveB
           in (y2 = x3, c))"

definition curvePoint_Neg :: "curvePoint \<Rightarrow> curvePoint" where
  "curvePoint_Neg a = \<lparr>cp_x = cp_x a, cp_y = gfpNeg (cp_y a), cp_z = cp_z a, cp_t = gfP_zero\<rparr>"

definition curvePoint_Double :: "curvePoint \<Rightarrow> curvePoint \<Rightarrow> curvePoint" where
  "curvePoint_Double c a =
     (if curvePoint_IsInfinity a then a
      else
        let A = gfpMul (cp_x a) (cp_x a);
            B = gfpMul (cp_y a) (cp_y a);
            C = gfpMul B B;
            t = gfpAdd (cp_x a) B;
            t2 = gfpMul t t;
            t = gfpSub t2 A;
            t2 = gfpSub t C;
            d = gfpAdd t2 t2;
            t = gfpAdd A A;
            e = gfpAdd t A;
            f = gfpMul e e;
            t = gfpAdd d d;
            x = gfpSub f t;
            t = gfpAdd C C;
            t2 = gfpAdd t t;
            t = gfpAdd t2 t2;
            y = gfpSub d x;
            t2 = gfpMul e y;
            y = gfpSub t2 t;
            t = gfpMul (cp_y a) (cp_z a);
            z = gfpAdd t t
        in c\<lparr>cp_x := x, cp_y := y, cp_z := z\<rparr>)"

definition curvePoint_Add :: "curvePoint \<Rightarrow> curvePoint \<Rightarrow> curvePoint \<Rightarrow> curvePoint" where
  "curvePoint_Add c a b =
     (if curvePoint_IsInfinity a then b
      else if curvePoint_IsInfinity b then a
      else
        let z12 = gfpMul (cp_z a) (cp_z a);
            z22 = gfpMul (cp_z b) (cp_z b);
            u1 = gfpMul (cp_x a) z22;
            u2 = gfpMul (cp_x b) z12;
            t = gfpMul (cp_z b) z22;
            s1 = gfpMul (cp_y a) t;
            t = gfpMul (cp_z a) z12;
            s2 = gfpMul (cp_y b) t;
            h = gfpSub u2 u1;
            xEqual = (h = gfP_zero);
            t = gfpAdd h h;
            i = gfpMul t t;
            j = gfpMul h i;
            t = gfpSub s2 s1;
            yEqual = (t = gfP_zero)
        in if xEqual \<and> yEqual then curvePoint_Double c a
           else
             let r = gfpAdd t t;
                 v = gfpMul u1 i;
                 t4 = gfpMul r r;
                 t = gfpAdd v v;
                 t6 = gfpSub t4 j;
                 x = gfpSub t6 t;
                 t = gfpSub v x;
                 t4 = gfpMul s1 j;
                 t6 = gfpAdd t4 t4;
                 t4 = gfpMul r t;
                 y = gfpSub t4 t6;
                 t = gfpAdd (cp_z a) (cp_z b);
                 t4 = gfpMul t t;
                 t = gfpSub t4 z12;
                 t4 = gfpSub t z22;
                 z = gfpMul t4 h
             in c\<lparr>cp_x := x, cp_y := y, cp_z := z\<rparr>)"

definition curvePoint_Add_JA :: "curvePoint \<Rightarrow> curvePoint \<Rightarrow> curvePointAffine \<Rightarrow> curvePoint" where
  "curvePoint_Add_JA c a b =
     (if curvePoint_IsInfinity a
      then \<lparr>cp_x = cpa_x b, cp_y = cpa_y b, cp_z = newGFp 1, cp_t = newGFp 1\<rparr>
      else
        let z12 = gfpMul (cp_z a) (cp_z a);
            temp = gfpMul (cp_z a) z12;
            u2 = gfpMul (cpa_x b) z12;
            s2 = gfpMul (cpa_y b) temp;
            H = gfpSub u2 (cp_x a);
            HH = gfpMul H H;
            I = gfpAdd HH HH;
            I = gfpAdd I I;
            J = gfpMul H I;
            r = gfpSub s2 (cp_y a);
            r = gfpAdd r r;
            V = gfpMul (cp_x a) I;
            temp = gfpMul r r;
            temp = gfpSub temp J;
            temp = gfpSub temp V;
            x = gfpSub temp V;
            temp = gfpSub V x;
            temp = gfpMul r temp;
            u2 = gfpMul (cp_y a) J;
            temp = gfpSub temp u2;
            y = gfpSub temp u2;
            temp = gfpAdd (cp_z a) H;
            temp = gfpMul temp temp;
            z = gfpSub temp z12;
            z = gfpSub z HH
        in c\<lparr>cp_x := x, cp_y := y, cp_z := z\<rparr>)"

section \<open>What points stand for\<close>

definition curve_ok :: "curvePoint \<Rightarrow> bool" where
  "curve_ok a \<longleftrightarrow> gfp_ok (cp_x a) \<and> gfp_ok (cp_y a) \<and> gfp_ok (cp_z a)"

text \<open>\<open>curve_pt a P\<close>: \<open>a\<close> has reduced limbs, is not at infinity, and stands for the affine point \<open>P\<close> of the curve.\<close>

abbreviation curve_x :: "curvePoint \<Rightarrow> fp" where "curve_x a \<equiv> gfp_val (cp_x a)"
abbreviation curve_y :: "curvePoint \<Rightarrow> fp" where "curve_y a \<equiv> gfp_val (cp_y a)"
abbreviation curve_z :: "curvePoint \<Rightarrow> fp" where "curve_z a \<equiv> gfp_val (cp_z a)"

abbreviation curve_pt :: "curvePoint \<Rightarrow> fp \<times> fp \<Rightarrow> bool" where
  "curve_pt \<equiv> jac_pt curve_ok curve_x curve_y curve_z 5"

lemmas curve_pt_def = jac_pt_def

lemma gfP_zero_val [simp]: "gfp_ok gfP_zero" "gfp_val gfP_zero = 0"
  by (simp_all add: gfP_zero_def)

lemma gfp_eq_zero_iff: "gfp_ok a \<Longrightarrow> a = gfP_zero \<longleftrightarrow> gfp_val a = 0"
  using gfp_val_inject [of a gfP_zero] by simp

lemma two_unit: "(2 :: fp) dvd 1"
proof -
  have "to_fp 2 * to_fp ((Sm9_p + 1) div 2) = to_fp 1"
    by (simp only: to_fp_mult [symmetric] to_fp_eq_iff) (simp add: Sm9_p_def)
  then have "1 = 2 * to_fp ((Sm9_p + 1) div 2)" by (simp add: to_fp_of_int)
  then show ?thesis by (rule dvdI)
qed

lemma curve_inf_iff: "curve_ok a \<Longrightarrow> curvePoint_IsInfinity a \<longleftrightarrow> curve_z a = 0"
  by (simp add: curvePoint_IsInfinity_def curve_ok_def gfp_eq_zero_iff)

lemma curve_add_same:
  assumes "curve_ok p" "curve_ok q" "\<not> curvePoint_IsInfinity p" "\<not> curvePoint_IsInfinity q"
    "jac_same (curve_x p) (curve_y p) (curve_z p) (curve_x q) (curve_y q) (curve_z q)"
  shows "curvePoint_Add c p q = curvePoint_Double c p"
  using assms by (simp add: curvePoint_Add_def Let_def gfp_eq_zero_iff gfp_rules curve_ok_def jac_same_def)

lemma curve_add_other:
  assumes "curve_ok p" "curve_ok q" "\<not> curvePoint_IsInfinity p" "\<not> curvePoint_IsInfinity q"
    "\<not> jac_same (curve_x p) (curve_y p) (curve_z p) (curve_x q) (curve_y q) (curve_z q)"
  shows "curve_ok (curvePoint_Add c p q)
    \<and> curve_z (curvePoint_Add c p q) = jac_add_z (curve_x p) (curve_z p) (curve_x q) (curve_z q)
    \<and> (\<forall>x1 y1 x2 y2 l. jac_rep (curve_x p) (curve_y p) (curve_z p) (x1, y1) \<longrightarrow>
        jac_rep (curve_x q) (curve_y q) (curve_z q) (x2, y2) \<longrightarrow> l * (x2 - x1) = y2 - y1 \<longrightarrow>
        jac_rep (curve_x (curvePoint_Add c p q)) (curve_y (curvePoint_Add c p q)) (curve_z (curvePoint_Add c p q))
          (line_sum l (x1, y1) x2))"
proof (intro conjI allI impI)
  show "curve_ok (curvePoint_Add c p q)"
    "curve_z (curvePoint_Add c p q) = jac_add_z (curve_x p) (curve_z p) (curve_x q) (curve_z q)"
    using assms
    by (simp add: curvePoint_Add_def Let_def gfp_eq_zero_iff gfp_rules curve_ok_def jac_same_def jac_add_z_def; blast)+
next
  fix x1 y1 x2 y2 l
  assume rep: "jac_rep (curve_x p) (curve_y p) (curve_z p) (x1, y1)"
    "jac_rep (curve_x q) (curve_y q) (curve_z q) (x2, y2)" and l: "l * (x2 - x1) = y2 - y1"
  show "jac_rep (curve_x (curvePoint_Add c p q)) (curve_y (curvePoint_Add c p q)) (curve_z (curvePoint_Add c p q))
      (line_sum l (x1, y1) x2)"
    using jac_add [OF rep l] assms
    by (simp add: curvePoint_Add_def Let_def gfp_eq_zero_iff gfp_rules curve_ok_def jac_same_def) blast
qed

lemma curve_double_law:
  assumes "curve_ok p" "\<not> curvePoint_IsInfinity p"
  shows "curve_ok (curvePoint_Double c p) \<and> curve_z (curvePoint_Double c p) = curve_y p * curve_z p + curve_y p * curve_z p
    \<and> (\<forall>x y l. jac_rep (curve_x p) (curve_y p) (curve_z p) (x, y) \<longrightarrow> l * (2 * y) = 3 * (x * x) \<longrightarrow>
        jac_rep (curve_x (curvePoint_Double c p)) (curve_y (curvePoint_Double c p)) (curve_z (curvePoint_Double c p))
          (line_sum l (x, y) x))"
proof (intro conjI allI impI)
  show "curve_ok (curvePoint_Double c p)" "curve_z (curvePoint_Double c p) = curve_y p * curve_z p + curve_y p * curve_z p"
    using assms by (simp_all add: curvePoint_Double_def Let_def gfp_rules curve_ok_def)
next
  fix x y l
  assume rep: "jac_rep (curve_x p) (curve_y p) (curve_z p) (x, y)" and l: "l * (2 * y) = 3 * (x * x)"
  show "jac_rep (curve_x (curvePoint_Double c p)) (curve_y (curvePoint_Double c p)) (curve_z (curvePoint_Double c p))
      (line_sum l (x, y) x)"
    using jac_double [OF rep l] assms by (simp add: curvePoint_Double_def Let_def gfp_rules curve_ok_def)
qed

lemma curve_neg_law:
  "curve_ok p \<Longrightarrow> curve_ok (curvePoint_Neg p) \<and> curve_x (curvePoint_Neg p) = curve_x p
    \<and> curve_y (curvePoint_Neg p) = - curve_y p \<and> curve_z (curvePoint_Neg p) = curve_z p"
  by (simp add: curvePoint_Neg_def curve_ok_def gfp_rules)

interpretation g1: jacobian_group curve_ok curve_x curve_y curve_z 5 curvePoint_IsInfinity curvePoint_Add
    curvePoint_Double curvePoint_Neg
  by unfold_locales (rule two_unit curve_inf_iff curve_add_same curve_add_other curve_double_law curve_neg_law; assumption)+

lemma curvePoint_Add_JA_rep:
  assumes "curve_ok a" "\<not> curvePoint_IsInfinity a" "gfp_ok (cpa_x b)" "gfp_ok (cpa_y b)"
    and rep: "jac_rep (gfp_val (cp_x a)) (gfp_val (cp_y a)) (gfp_val (cp_z a)) (x1, y1)"
    and l: "l * (gfp_val (cpa_x b) - x1) = gfp_val (cpa_y b) - y1"
  shows "curve_ok (curvePoint_Add_JA c a b)
    \<and> jac_rep (gfp_val (cp_x (curvePoint_Add_JA c a b))) (gfp_val (cp_y (curvePoint_Add_JA c a b)))
        (gfp_val (cp_z (curvePoint_Add_JA c a b))) (line_sum l (x1, y1) (gfp_val (cpa_x b)))
    \<and> gfp_val (cp_z (curvePoint_Add_JA c a b)) =
        (gfp_val (cp_z a) + (gfp_val (cpa_x b) * (gfp_val (cp_z a) * gfp_val (cp_z a)) - gfp_val (cp_x a)))
        * (gfp_val (cp_z a) + (gfp_val (cpa_x b) * (gfp_val (cp_z a) * gfp_val (cp_z a)) - gfp_val (cp_x a)))
        - gfp_val (cp_z a) * gfp_val (cp_z a)
        - (gfp_val (cpa_x b) * (gfp_val (cp_z a) * gfp_val (cp_z a)) - gfp_val (cp_x a))
        * (gfp_val (cpa_x b) * (gfp_val (cp_z a) * gfp_val (cp_z a)) - gfp_val (cp_x a))"
  using jac_madd [OF rep l] assms(1-4)
  by (simp add: curvePoint_Add_JA_def Let_def gfp_rules curve_ok_def)

section \<open>The mixed addition\<close>

text \<open>
  The mixed addition has no case for equal points: there it returns a point at infinity.
\<close>

lemma curve_add_ja_chord:
  assumes "curve_pt a (x1, y1)" "gfp_ok (cpa_x b)" "gfp_ok (cpa_y b)"
    "on_curve 5 (gfp_val (cpa_x b), gfp_val (cpa_y b))" "gfp_val (cpa_x b) - x1 dvd 1"
  shows "\<exists>l. l * (gfp_val (cpa_x b) - x1) = gfp_val (cpa_y b) - y1
    \<and> curve_pt (curvePoint_Add_JA c a b) (line_sum l (x1, y1) (gfp_val (cpa_x b)))"
proof -
  let ?x2 = "gfp_val (cpa_x b)" and ?y2 = "gfp_val (cpa_y b)" and ?z = "gfp_val (cp_z a)" and ?X = "gfp_val (cp_x a)"
  obtain l where l: "l * (?x2 - x1) = ?y2 - y1" using slope_exists [OF assms(5)] by blast
  obtain d where d: "(?x2 - x1) * d = 1" using assms(5) by (auto simp: dvd_def)
  have X: "?X = x1 * (?z * ?z)" and z: "?z dvd 1" using assms(1) by (simp_all add: curve_pt_def jac_rep_def)
  have "(?z + (?x2 * (?z * ?z) - ?X)) * (?z + (?x2 * (?z * ?z) - ?X)) - ?z * ?z
      - (?x2 * (?z * ?z) - ?X) * (?x2 * (?z * ?z) - ?X) = 2 * (?x2 - x1) * (?z * ?z * ?z)"
    by (simp add: X algebra_simps)
  then have "(?z + (?x2 * (?z * ?z) - ?X)) * (?z + (?x2 * (?z * ?z) - ?X)) - ?z * ?z
      - (?x2 * (?z * ?z) - ?X) * (?x2 * (?z * ?z) - ?X) dvd 1"
    using z assms(5) two_unit by (simp only: unit_mult)
  moreover have "on_curve 5 (line_sum l (x1, y1) ?x2)"
    using assms(1,4) by (intro line_sum_on_curve [OF _ _ l d]) (simp_all add: curve_pt_def)
  ultimately have "curve_pt (curvePoint_Add_JA c a b) (line_sum l (x1, y1) ?x2)"
    using curvePoint_Add_JA_rep [of a b x1 y1 l c] assms(1-3) l g1.pt_not_inf [OF assms(1)]
    unfolding curve_pt_def by metis
  with l show ?thesis by blast
qed

lemma curve_add_ja_equal:
  assumes "curve_pt a (x, y)" "gfp_ok (cpa_x b)" "gfp_ok (cpa_y b)" "gfp_val (cpa_x b) = x" "gfp_val (cpa_y b) = y"
  shows "curvePoint_IsInfinity (curvePoint_Add_JA c a b)"
  using assms g1.pt_not_inf [OF assms(1)]
  by (simp add: curvePoint_Add_JA_def Let_def curvePoint_IsInfinity_def [of "_ :: curvePoint"] gfp_eq_zero_iff
      gfp_rules curve_pt_def curve_ok_def jac_rep_def)

section \<open>Normalisation and the curve check\<close>

lemma newGFp_zero: "newGFp 0 = gfP_zero"
  using gfp_val_inject [of "newGFp 0" gfP_zero] by (simp add: newGFp_val)

lemma gfP_Invert_unit:
  assumes "gfp_ok z" "gfp_val z ^ nat (Sm9_p - 1) = 1"
  shows "gfp_ok (gfP_Invert z)" "gfp_val z * gfp_val (gfP_Invert z) = 1"
proof -
  have "nat (Sm9_p - 1) = Suc (nat (Sm9_p - 2))" by (simp add: Sm9_p_def nat_eq_iff)
  then show "gfp_ok (gfP_Invert z)" "gfp_val z * gfp_val (gfP_Invert z) = 1"
    using gfP_Invert_val [OF assms(1)] assms(2) by simp_all
qed

lemma curve_makeAffine:
  assumes "curve_pt a (x, y)" "gfp_val (cp_z a) ^ nat (Sm9_p - 1) = 1"
  shows "curve_pt (curvePoint_MakeAffine a) (x, y) \<and> cp_z (curvePoint_MakeAffine a) = newGFp 1
    \<and> gfp_val (cp_x (curvePoint_MakeAffine a)) = x \<and> gfp_val (cp_y (curvePoint_MakeAffine a)) = y"
proof (cases "cp_z a = newGFp 1")
  case True
  then show ?thesis using assms(1) by (simp add: curvePoint_MakeAffine_def curve_pt_def jac_rep_def)
next
  case False
  let ?z = "gfp_val (cp_z a)" and ?zi = "gfp_val (gfP_Invert (cp_z a))"
  have ok: "gfp_ok (cp_x a)" "gfp_ok (cp_y a)" "gfp_ok (cp_z a)" using assms(1) by (simp_all add: curve_pt_def curve_ok_def)
  note inv = gfP_Invert_unit [OF ok(3) assms(2)]
  have rep: "gfp_val (cp_x a) = x * (?z * ?z)" "gfp_val (cp_y a) = y * (?z * ?z * ?z)"
    using assms(1) by (simp_all add: curve_pt_def jac_rep_def)
  note xy = affine_coordinates [OF inv(2)]
  have "cp_z a \<noteq> newGFp 0" using g1.pt_not_inf [OF assms(1)] by (simp add: newGFp_zero curvePoint_IsInfinity_def)
  with False have "curvePoint_MakeAffine a =
      \<lparr>cp_x = gfpMul (cp_x a) (gfpMul (gfP_Invert (cp_z a)) (gfP_Invert (cp_z a))),
       cp_y = gfpMul (gfpMul (cp_y a) (gfP_Invert (cp_z a))) (gfpMul (gfP_Invert (cp_z a)) (gfP_Invert (cp_z a))),
       cp_z = newGFp 1, cp_t = newGFp 1\<rparr>"
    by (simp add: curvePoint_MakeAffine_def Let_def)
  then show ?thesis using ok inv assms(1)
    by (simp add: curve_pt_def curve_ok_def gfp_rules rep xy jac_rep_def)
qed

lemma curve_isOnCurve:
  assumes "curve_ok a" "curvePoint_IsInfinity a \<or> gfp_val (cp_z a) ^ nat (Sm9_p - 1) = 1"
  shows "fst (curvePoint_IsOnCurve a) \<longleftrightarrow> curvePoint_IsInfinity a
    \<or> gfp_val (cp_y a) ^ 2 = gfp_val (cp_x a) ^ 3 + 5 * gfp_val (cp_z a) ^ 6"
proof -
  have B: "gfp_ok curveB" "gfp_val curveB = 5" by (simp_all add: curveB_def newGFp_val to_fp_of_int)
  have ok: "gfp_ok (cp_x a)" "gfp_ok (cp_y a)" "gfp_ok (cp_z a)" using assms(1) by (simp_all add: curve_ok_def)
  have ne: "newGFp 1 \<noteq> gfP_zero"
    using gfp_eq_zero_iff [of "newGFp 1"] by simp
  consider "cp_z a = newGFp 1" | "cp_z a = gfP_zero"
    | "cp_z a \<noteq> newGFp 1" "cp_z a \<noteq> gfP_zero" "gfp_val (cp_z a) ^ nat (Sm9_p - 1) = 1"
    using assms(2) by (auto simp: curvePoint_IsInfinity_def)
  then show ?thesis
  proof cases
    case 1
    then show ?thesis using ok B ne
      by (simp add: curvePoint_IsOnCurve_def curvePoint_MakeAffine_def curvePoint_IsInfinity_def Let_def
          gfp_val_inject [symmetric] gfp_rules power2_eq_square power3_eq_cube)
  next
    case 2
    then show ?thesis using ne
      by (simp add: curvePoint_IsOnCurve_def curvePoint_MakeAffine_def curvePoint_IsInfinity_def Let_def newGFp_zero)
  next
    case 3
    let ?x = "gfp_val (cp_x a)" and ?y = "gfp_val (cp_y a)" and ?z = "gfp_val (cp_z a)"
      and ?zi = "gfp_val (gfP_Invert (cp_z a))"
    note inv = gfP_Invert_unit [OF ok(3) 3(3)]
    note affine_curve_equation [OF inv(2), of ?y ?x 5]
    then show ?thesis using 3(1,2) ok inv(1) B ne
      by (simp add: curvePoint_IsOnCurve_def curvePoint_MakeAffine_def curvePoint_IsInfinity_def Let_def newGFp_zero
          gfp_val_inject [symmetric] gfp_rules)
  qed
qed

section \<open>Concrete points\<close>

lemma G1_val:
  "gfp_val G1x = to_fp 0x93de051d62bf718ff5ed0704487d01d6e1e4086909dc3280e8c4e4817c66dddd"
  "gfp_val G1y = to_fp 0x21fe8dda4f21e607631065125c395bbc1c1c00cbfa6024350c464cd70a3ea616"
  unfolding gfp_val_def
   apply (rule to_fp_eqI [where q = "0x37be2898a7b66b97da68b454db58f136cb3b8f01720c9896dd7c9c1c57587aea"])
   apply (simp add: G1x_def Rinv_def Sm9_p_def)
  apply (rule to_fp_eqI [where q = "0x4e5a9163363241d59b6a61d8e41bc0d0f2174f6ad6a51b8b702beebc94c406e9"])
  apply (simp add: G1y_def Rinv_def Sm9_p_def)
  done

lemma G1_on_curve: "on_curve 5 (gfp_val G1x, gfp_val G1y)"
proof -
  let ?x = "0x93de051d62bf718ff5ed0704487d01d6e1e4086909dc3280e8c4e4817c66dddd :: int"
    and ?y = "0x21fe8dda4f21e607631065125c395bbc1c1c00cbfa6024350c464cd70a3ea616 :: int"
    and ?x2 = "0x154505f53e12c5b482ec386b7fe07dd402504c0ed2f6d633f34187e5bc976816 :: int"
    and ?y2 = "0x3c8333fee008675c26b2f42c187a0642b99bbbe00308e01f92b334218ec17961 :: int"
  have "to_fp (?x * ?x) = to_fp ?x2"
    by (rule to_fp_eqI [where q = "0x77f8984cb6f0694ff9e65119ed73f29f30e4d4a5e8cdc1b4dfb28d69c8567def"])
      (simp add: Sm9_p_def)
  moreover have "to_fp (?x2 * ?x + 5) = to_fp ?y2"
    by (rule to_fp_eqI [where q = "0x1141c818f903a9591eb3dbe445a053b9951c399b4a1d91bca8078b4b1621a7ca"])
      (simp add: Sm9_p_def)
  moreover have "to_fp (?y * ?y) = to_fp ?y2"
    by (rule to_fp_eqI [where q = "0x6574086f551753d45658766eb89ed567d44bfe75849e8ec1e029e11e7b18dff"])
      (simp add: Sm9_p_def)
  moreover have "to_fp 5 = 5" by (simp add: to_fp_of_int)
  ultimately show ?thesis unfolding on_curve_def prod.case G1_val
    by (simp only: to_fp_mult to_fp_add)
qed

lemma curveGen_pt: "curve_pt curveGen (gfp_val G1x, gfp_val G1y)"
  using G1_on_curve
  by (simp add: curve_pt_def curve_ok_def curveGen_def jac_rep_def gfp_ok_def [of G1x] gfp_ok_def [of G1y])
    (simp add: G1x_def G1y_def Sm9_p_def)

text \<open>The points \<open>(-1, 2)\<close> and \<open>(-1, 2) + (-1, 2) = (41/16, -299/64)\<close>, the latter with \<open>z = 4\<close>.\<close>

definition pt_P :: curvePoint where
  "pt_P = \<lparr>cp_x = newGFp (- 1), cp_y = newGFp 2, cp_z = newGFp 1, cp_t = newGFp 1\<rparr>"

definition pt_2P :: curvePoint where
  "pt_2P = \<lparr>cp_x = newGFp 41, cp_y = newGFp (- 299), cp_z = newGFp 4, cp_t = newGFp 1\<rparr>"

definition inv16 :: fp where
  "inv16 = to_fp 0x7d4c000001d082c6432285c6f8d228ff8756c543a23484372dbcbaab6c47dfc6"

lemma small_units: "16 * inv16 = 1" "(57 :: fp) dvd 1"
proof -
  have "to_fp (16 * 0x7d4c000001d082c6432285c6f8d228ff8756c543a23484372dbcbaab6c47dfc6) = to_fp 1"
    by (simp only: to_fp_eq_iff) (simp add: Sm9_p_def)
  then show "16 * inv16 = 1" by (simp add: to_fp_of_int inv16_def)
  have "to_fp (57 * 0x9646bca1b15589a7f853de19829e268e5660b854622f789a5ede458cadf6a994) = to_fp 1"
    by (simp only: to_fp_eq_iff) (simp add: Sm9_p_def)
  then have "1 = 57 * to_fp 0x9646bca1b15589a7f853de19829e268e5660b854622f789a5ede458cadf6a994"
    by (simp add: to_fp_of_int)
  then show "(57 :: fp) dvd 1" by (rule dvdI)
qed

lemma newGFp_numerals:
  "gfp_val (newGFp (- 1)) = - 1" "gfp_val (newGFp 2) = 2" "gfp_val (newGFp 41) = 41"
  "gfp_val (newGFp (- 299)) = - 299" "gfp_val (newGFp 4) = 4"
  by (simp_all add: newGFp_val to_fp_of_int)

lemma pt_P: "curve_pt pt_P (- 1, 2)"
  by (simp add: curve_pt_def curve_ok_def pt_P_def newGFp_val [THEN conjunct1] newGFp_numerals on_curve_def jac_rep_def)

lemma pt_2P: "curve_pt pt_2P (41 * inv16, - 299 * (4 * (inv16 * inv16)))"
proof -
  have i: "inv16 * 16 = 1" using small_units(1) by (simp only: mult.commute)
  have "4 * 4 * inv16 = (1 :: fp)" using small_units(1) by simp
  then have "1 = 4 * (4 * inv16)" by (simp only: mult.assoc)
  then have u: "(4 :: fp) dvd 1" by (rule dvdI)
  have e: "(16 :: fp) * (16 * x) = 256 * x" for x by simp
  have "on_curve 5 (41 * inv16, - 299 * (4 * (inv16 * inv16)))"
  proof -
    have "299 * (4 * (inv16 * inv16)) * (299 * (4 * (inv16 * inv16))) = 89401 * (inv16 * inv16 * inv16) * (16 * inv16)"
      by (simp add: algebra_simps)
    moreover have "41 * inv16 * (41 * inv16) * (41 * inv16) = 68921 * (inv16 * inv16 * inv16)" by (simp add: algebra_simps)
    moreover have "5 = 20480 * (inv16 * inv16 * inv16)"
    proof -
      have "20480 * (inv16 * inv16 * inv16) = 5 * ((16 * inv16) * (16 * inv16) * (16 * inv16))" by (simp add: algebra_simps)
      then show ?thesis by (simp only: small_units(1)) simp
    qed
    ultimately show ?thesis unfolding on_curve_def prod.case small_units(1) by (simp add: algebra_simps)
  qed
  moreover have "41 = 41 * inv16 * (4 * 4)" using i by (simp add: mult.assoc)
  moreover have "- 299 = - 299 * (4 * (inv16 * inv16)) * (4 * 4 * 4 :: fp)"
  proof -
    have "(4 * (inv16 * inv16)) * (4 * 4 * 4) = (inv16 * 16) * (inv16 * 16)" by (simp add: algebra_simps)
    then show ?thesis unfolding i mult.assoc by simp
  qed
  ultimately show ?thesis using u
    by (simp add: curve_pt_def curve_ok_def pt_2P_def newGFp_val [THEN conjunct1] newGFp_numerals jac_rep_def)
qed

section \<open>Properties\<close>

text \<open>
  C5: \<open>Add\<close>, \<open>Double\<close> and \<open>Neg\<close> implement the chord and tangent law of \<open>y\<^sup>2 = x\<^sup>3 + 5\<close> on Jacobian points
  with reduced limbs: for points that differ by an invertible difference of abscissas the sum is the
  third point of the chord, reflected; equal points are handed to \<open>Double\<close>, which uses the tangent;
  opposite points give a point at infinity; the point at infinity is neutral on both sides. Results
  are again reduced and on the curve.
\<close>

theorem curve_group_law:
  assumes a: "curve_pt a (x1, y1)" and b: "curve_pt b (x2, y2)" and o: "curvePoint_IsInfinity o1"
  shows "curvePoint_Add c o1 b = b \<and> curvePoint_Add c a o1 = a
    \<and> (x2 - x1 dvd 1 \<longrightarrow> (\<exists>l. l * (x2 - x1) = y2 - y1 \<and> curve_pt (curvePoint_Add c a b) (line_sum l (x1, y1) x2)))
    \<and> (x2 = x1 \<and> y2 = y1 \<longrightarrow> curvePoint_Add c a b = curvePoint_Double c a)
    \<and> (y1 dvd 1 \<longrightarrow> (\<exists>l. l * (2 * y1) = 3 * (x1 * x1) \<and> curve_pt (curvePoint_Double c a) (line_sum l (x1, y1) x1)))
    \<and> (x2 = x1 \<and> y2 = - y1 \<and> y1 dvd 1 \<longrightarrow> curvePoint_IsInfinity (curvePoint_Add c a b))
    \<and> curve_pt (curvePoint_Neg a) (x1, - y1)"
proof -
  have "curvePoint_Add c o1 b = b" "curvePoint_Add c a o1 = a"
    using o g1.pt_not_inf [OF a] by (simp_all add: curvePoint_Add_def)
  moreover have "curvePoint_Add c a b = curvePoint_Double c a" if "x2 = x1 \<and> y2 = y1"
    using g1.add_equal [OF a, of b] b that by simp
  moreover have "curvePoint_IsInfinity (curvePoint_Add c a b)" if "x2 = x1 \<and> y2 = - y1 \<and> y1 dvd 1"
    using g1.add_opposite [OF a, of b] b that by simp
  ultimately show ?thesis
    using g1.add_chord [OF a b, of c] g1.dbl_tangent [OF a, of c] g1.neg_pt [OF a]
    by (intro conjI impI) simp_all
qed

theorem curve_group_law_witness:
  "(\<exists>l. l * (41 * inv16 - - 1) = - 299 * (4 * (inv16 * inv16)) - 2
      \<and> curve_pt (curvePoint_Add pt_P pt_P pt_2P) (line_sum l (- 1, 2) (41 * inv16)))
    \<and> curvePoint_Add pt_P curvePoint_SetInfinity pt_2P = pt_2P"
proof -
  have inf: "curvePoint_IsInfinity curvePoint_SetInfinity"
    by (simp add: curvePoint_IsInfinity_def curvePoint_SetInfinity_def)
  have "41 * inv16 - - 1 = 57 * inv16" using small_units(1) by (simp add: algebra_simps)
  moreover have "inv16 dvd 1" using small_units(1) by (auto intro: dvdI [of _ _ 16] simp: mult.commute)
  ultimately have "41 * inv16 - - 1 dvd 1" using small_units(2) by (simp only: unit_mult)
  then show ?thesis using curve_group_law [OF pt_P pt_2P inf] by blast
qed

text \<open>
  \<open>Add_JA\<close>, the addition of an affine point used with the precomputed table, computes the chord sum
  for points with an invertible difference of abscissas, takes over the affine point when its
  first argument is at infinity, and has no doubling case: on equal points it returns a point at
  infinity, so its callers have to keep the two points apart.
\<close>

theorem curve_mixed_addition:
  assumes a: "curve_pt a (x1, y1)" and ok: "gfp_ok (cpa_x b)" "gfp_ok (cpa_y b)"
    and b: "on_curve 5 (gfp_val (cpa_x b), gfp_val (cpa_y b))" and o: "curvePoint_IsInfinity o1"
  shows "(gfp_val (cpa_x b) - x1 dvd 1 \<longrightarrow> (\<exists>l. l * (gfp_val (cpa_x b) - x1) = gfp_val (cpa_y b) - y1
      \<and> curve_pt (curvePoint_Add_JA c a b) (line_sum l (x1, y1) (gfp_val (cpa_x b)))))
    \<and> curve_pt (curvePoint_Add_JA c o1 b) (gfp_val (cpa_x b), gfp_val (cpa_y b))
    \<and> (gfp_val (cpa_x b) = x1 \<and> gfp_val (cpa_y b) = y1 \<longrightarrow> curvePoint_IsInfinity (curvePoint_Add_JA c a b))"
proof -
  have "curve_pt (curvePoint_Add_JA c o1 b) (gfp_val (cpa_x b), gfp_val (cpa_y b))"
    using ok b o by (simp add: curvePoint_Add_JA_def curve_pt_def curve_ok_def jac_rep_def)
  then show ?thesis using curve_add_ja_chord [OF a ok b] curve_add_ja_equal [OF a ok] by blast
qed

theorem curve_mixed_addition_witness:
  "curvePoint_IsInfinity (curvePoint_Add_JA curveGen curveGen \<lparr>cpa_x = G1x, cpa_y = G1y\<rparr>)"
proof -
  have "gfp_ok G1x" "gfp_ok G1y" using curveGen_pt by (simp_all add: curve_pt_def curve_ok_def curveGen_def)
  moreover have "curvePoint_IsInfinity curvePoint_SetInfinity"
    by (simp add: curvePoint_IsInfinity_def curvePoint_SetInfinity_def)
  ultimately show ?thesis
    using curve_mixed_addition [OF curveGen_pt, of "\<lparr>cpa_x = G1x, cpa_y = G1y\<rparr>" curvePoint_SetInfinity curveGen]
      G1_on_curve by simp
qed

text \<open>
  \<open>MakeAffine\<close> keeps the point and makes its \<open>z\<close> coordinate one, so that its \<open>x\<close> and \<open>y\<close> are the affine
  coordinates; \<open>IsOnCurve\<close> answers whether the Jacobian coordinates satisfy \<open>Y\<^sup>2 = X\<^sup>3 + 5 Z\<^sup>6\<close>. Both
  invert \<open>Z\<close>, which has to satisfy Fermat's equation. The generator \<open>curveGen\<close> is on the curve.
\<close>

theorem curve_normalisation:
  assumes "curve_pt a (x, y)" "gfp_val (cp_z a) ^ nat (Sm9_p - 1) = 1"
    "curve_ok b" "curvePoint_IsInfinity b \<or> gfp_val (cp_z b) ^ nat (Sm9_p - 1) = 1"
  shows "curve_pt (curvePoint_MakeAffine a) (x, y) \<and> cp_z (curvePoint_MakeAffine a) = newGFp 1
    \<and> gfp_val (cp_x (curvePoint_MakeAffine a)) = x \<and> gfp_val (cp_y (curvePoint_MakeAffine a)) = y
    \<and> fst (curvePoint_IsOnCurve b) = (curvePoint_IsInfinity b
        \<or> gfp_val (cp_y b) ^ 2 = gfp_val (cp_x b) ^ 3 + 5 * gfp_val (cp_z b) ^ 6)"
  using curve_makeAffine [OF assms(1,2)] curve_isOnCurve [OF assms(3,4)] by blast

theorem curve_normalisation_witness:
  "cp_z (curvePoint_MakeAffine curveGen) = newGFp 1 \<and> fst (curvePoint_IsOnCurve curveGen)"
proof -
  have "gfp_val G1y ^ 2 = gfp_val G1x ^ 3 + 5"
    using G1_on_curve by (simp add: on_curve_def power2_eq_square power3_eq_cube)
  then show ?thesis
    using curve_normalisation [OF curveGen_pt, of curveGen] curveGen_pt
    by (simp add: curve_pt_def) (simp add: curveGen_def)
qed

end
