(* ===== verification/Sm9_Scalar.thy ===== *)
theory Sm9_Scalar
  imports Sm9_Curve
begin

text \<open>
  Scalars, from \<open>curve.go\<close>: the conversion \<open>fromBig\<close>, the branch-free zero tests, the Booth recodings
  \<open>boothW5\<close> and \<open>boothW6\<close>, the windows of a scalar, and the decomposition \<open>splitK_bigint\<close> of a scalar along
  the lattice of the endomorphism. A slice written out of its bounds is a panic, \<open>None\<close>.

  \<open>boothW5_digit\<close> and \<open>boothW6_digit\<close> give the digit a window stands for, \<open>booth_sum_step\<close> how the digits
  add up to the scalar; \<open>splitK_sum\<close> and \<open>splitK_bounds\<close> say what the two halves of a scalar are.
\<close>

section \<open>Scalars as words\<close>

fun nat_words :: "nat \<Rightarrow> u64 list" where
  "nat_words n = (if n = 0 then [] else word_of_nat n # nat_words (n div 2 ^ 64))"

declare nat_words.simps [simp del]

definition big_Bits :: "int \<Rightarrow> u64 list" where
  "big_Bits x = nat_words (nat \<bar>x\<bar>)"

definition fromBig :: "nat \<Rightarrow> int \<Rightarrow> u64 list option" where
  "fromBig n x =
     (let bits = big_Bits x
      in if n < length bits then None else Some (bits @ replicate (n - length bits) 0))"

lemma limbs_nat_words: "limbs (nat_words n) = int n"
proof (induction n rule: nat_words.induct)
  case (1 n)
  show ?case
  proof (cases "n = 0")
    case False
    have "uint (word_of_nat n :: u64) = int n mod 2 ^ 64" by (simp add: unsigned_of_nat take_bit_eq_mod zmod_int)
    moreover have "limbs (nat_words (n div 2 ^ 64)) = int n div 2 ^ 64" using 1 False by (simp add: zdiv_int)
    moreover have "int n mod 2 ^ 64 + 2 ^ 64 * (int n div 2 ^ 64) = int n" by (rule mod_mult_div_eq)
    ultimately show ?thesis by (subst nat_words.simps) (simp only: False if_False limbs.simps)
  qed (simp add: nat_words.simps)
qed

lemma nat_words_length: "n < 2 ^ (64 * k) \<Longrightarrow> length (nat_words n) \<le> k"
proof (induction n arbitrary: k rule: nat_words.induct)
  case (1 n)
  show ?case
  proof (cases "n = 0")
    case False
    then obtain j where k: "k = Suc j" using 1(2) by (cases k) auto
    have "n div 2 ^ 64 < 2 ^ (64 * j)" using 1(2) by (intro div_less_iff_less_mult [THEN iffD2]) (simp_all add: k power_add mult.commute)
    then show ?thesis using 1(1) [OF False] False by (subst nat_words.simps) (simp add: k)
  qed (simp add: nat_words.simps)
qed

lemma limbs_append_zeros [simp]: "limbs (xs @ replicate n 0) = limbs xs"
  by (simp add: limbs_append)

lemma fromBig_some:
  assumes "\<bar>x\<bar> < 2 ^ (64 * n)"
  shows "\<exists>s. fromBig n x = Some s \<and> length s = n \<and> limbs s = \<bar>x\<bar>"
proof -
  have "nat \<bar>x\<bar> < 2 ^ (64 * n)" using assms by (simp add: nat_less_iff)
  then have "length (big_Bits x) \<le> n" by (simp add: big_Bits_def nat_words_length)
  then show ?thesis by (simp add: fromBig_def Let_def not_less big_Bits_def limbs_nat_words)
qed

definition uint64IsZero :: "u64 \<Rightarrow> int" where
  "uint64IsZero x =
     (let x = NOT x;
          x = x AND drop_bit 32 x;
          x = x AND drop_bit 16 x;
          x = x AND drop_bit 8 x;
          x = x AND drop_bit 4 x;
          x = x AND drop_bit 2 x;
          x = x AND drop_bit 1 x
      in sint (x AND 1))"

definition scalarIsZero :: "u64 list \<Rightarrow> int" where
  "scalarIsZero scalar = uint64IsZero (scalar ! 0 OR scalar ! 1 OR scalar ! 2 OR scalar ! 3)"

lemma fold_and_bits:
  "(\<forall>i<2 * n. P (j + i)) \<longleftrightarrow> (\<forall>i<n. P (j + i) \<and> P (j + i + n))" for P :: "nat \<Rightarrow> bool"
proof
  assume *: "\<forall>i<n. P (j + i) \<and> P (j + i + n)"
  show "\<forall>i<2 * n. P (j + i)"
  proof (intro allI impI)
    fix i assume "i < 2 * n"
    then show "P (j + i)" using * [rule_format, of i] * [rule_format, of "i - n"] by (cases "i < n") (auto simp: add.assoc)
  qed
qed (auto simp: add.assoc)

lemma uint64IsZero_eq: "uint64IsZero x = of_bool (x = 0)"
proof -
  define y where "y = NOT x"
  define y1 where "y1 = y AND drop_bit 32 y"
  define y2 where "y2 = y1 AND drop_bit 16 y1"
  define y3 where "y3 = y2 AND drop_bit 8 y2"
  define y4 where "y4 = y3 AND drop_bit 4 y3"
  define y5 where "y5 = y4 AND drop_bit 2 y4"
  define y6 where "y6 = y5 AND drop_bit 1 y5"
  have step: "bit (u AND drop_bit n u) j \<longleftrightarrow> bit u j \<and> bit u (j + n)" for u :: u64 and n j
    by (auto simp: bit_and_iff bit_drop_bit_eq add.commute)
  have "bit y6 0 \<longleftrightarrow> (\<forall>i<1. bit y6 (0 + i))" by simp
  also have "\<dots> \<longleftrightarrow> (\<forall>i<2 * 1. bit y5 (0 + i))" unfolding fold_and_bits y6_def step by simp
  also have "\<dots> \<longleftrightarrow> (\<forall>i<2 * 2. bit y4 (0 + i))" unfolding fold_and_bits y5_def step by simp
  also have "\<dots> \<longleftrightarrow> (\<forall>i<2 * 4. bit y3 (0 + i))" unfolding fold_and_bits y4_def step by simp
  also have "\<dots> \<longleftrightarrow> (\<forall>i<2 * 8. bit y2 (0 + i))" unfolding fold_and_bits y3_def step by simp
  also have "\<dots> \<longleftrightarrow> (\<forall>i<2 * 16. bit y1 (0 + i))" unfolding fold_and_bits y2_def step by simp
  also have "\<dots> \<longleftrightarrow> (\<forall>i<2 * 32. bit y (0 + i))" unfolding fold_and_bits y1_def step by simp
  also have "\<dots> \<longleftrightarrow> (\<forall>i<64. \<not> bit x i)" by (auto simp: y_def bit_not_iff)
  also have "\<dots> \<longleftrightarrow> x = 0" by (auto intro: bit_word_eqI)
  finally have b: "bit y6 0 \<longleftrightarrow> x = 0" .
  have "y6 AND 1 = of_bool (bit y6 0)" by (simp add: and_one_eq bit_0 odd_iff_mod_2_eq_one)
  moreover have "uint64IsZero x = sint (y6 AND 1)"
    by (simp add: uint64IsZero_def Let_def y_def y1_def y2_def y3_def y4_def y5_def y6_def)
  ultimately show ?thesis by (simp add: b sint_u64)
qed

lemma scalarIsZero_eq:
  assumes "length s = 4"
  shows "scalarIsZero s = of_bool (limbs s = 0)"
proof -
  obtain s0 s1 s2 s3 where s: "s = [s0, s1, s2, s3]" using assms by (rule length4_cases)
  have "s0 OR s1 OR s2 OR s3 = 0 \<longleftrightarrow> s0 = 0 \<and> s1 = 0 \<and> s2 = 0 \<and> s3 = 0"
    by (simp add: or_eq_0_iff)
  moreover have "limbs s = 0 \<longleftrightarrow> s0 = 0 \<and> s1 = 0 \<and> s2 = 0 \<and> s3 = 0"
    using limbs_inject [of s "[0, 0, 0, 0]"] by (auto simp: s)
  ultimately show ?thesis by (simp add: scalarIsZero_def uint64IsZero_eq s)
qed

section \<open>Booth recoding\<close>

definition boothW5 :: "u64 \<Rightarrow> int \<times> int" where
  "boothW5 w =
     (let s = NOT (drop_bit 5 w - 1);
          d = push_bit 6 1 - w - 1;
          d = (d AND s) OR (w AND NOT s);
          d = drop_bit 1 d + (d AND 1)
      in (sint d, sint (s AND 1)))"

definition boothW6 :: "u64 \<Rightarrow> int \<times> int" where
  "boothW6 w =
     (let s = NOT (drop_bit 6 w - 1);
          d = push_bit 7 1 - w - 1;
          d = (d AND s) OR (w AND NOT s);
          d = drop_bit 1 d + (d AND 1)
      in (sint d, sint (s AND 1)))"

definition booth_digit :: "int \<Rightarrow> int \<Rightarrow> int" where
  "booth_digit m v = v div 2 + v mod 2 - m * (v div m)"

lemma sint_small: "uint (x :: u64) < 2 ^ 63 \<Longrightarrow> sint x = uint x"
  by (simp add: sint_u64)

lemma half_up:
  assumes "uint (d :: u64) < 2 ^ 62"
  shows "sint (drop_bit 1 d + (d AND 1)) = uint d div 2 + uint d mod 2"
proof -
  have "d AND mask 1 = d AND 1" by (simp add: mask_eq_exp_minus_1)
  then have "uint (drop_bit 1 d) = uint d div 2" "uint (d AND 1) = uint d mod 2"
    using uint_drop_bit [of 1 d] uint_and_mask [of d 1] by simp_all
  moreover have "uint d div 2 \<le> uint d" using uint_ge_0 [of d] by presburger
  moreover have "uint d mod 2 < 2" by simp
  ultimately have "uint (drop_bit 1 d + (d AND 1)) = uint d div 2 + uint d mod 2"
    using assms by (subst uint_add_no_overflow) auto
  moreover have "uint d div 2 + uint d mod 2 < 2 ^ 63"
    using assms \<open>uint d div 2 \<le> uint d\<close> \<open>uint d mod 2 < 2\<close> by simp
  ultimately show ?thesis by (simp add: sint_small)
qed

text \<open>The recodings as arithmetic: windows of \<open>k + 1\<close> bits, read as a signed digit.\<close>

lemma booth_low:
  assumes "uint (w :: u64) < 2 ^ k" "k \<le> 60"
  shows "NOT (drop_bit k w - 1) = 0"
proof -
  have "uint (drop_bit k w) = 0" using assms by (simp add: uint_drop_bit)
  then have "drop_bit k w = 0" by (simp add: uint_0_iff)
  then show ?thesis by simp
qed

lemma booth_high:
  assumes "2 ^ k \<le> uint (w :: u64)" "uint w < 2 * 2 ^ k" "k \<le> 60"
  shows "NOT (drop_bit k w - 1) = - 1" "uint (push_bit (k + 1) 1 - w - 1) = 2 * 2 ^ k - 1 - uint w"
proof -
  have "uint w div 2 ^ k = 1" using assms by (intro int_div_pos_eq [where r = "uint w - 2 ^ k"]) auto
  then have "uint (drop_bit k w) = 1" by (simp add: uint_drop_bit)
  then have "drop_bit k w = 1" by (simp only: word_uint_eq_iff) simp
  then show "NOT (drop_bit k w - 1) = - 1" by simp
  have pow: "2 * 2 ^ k = (2 :: int) ^ (k + 1)" by simp
  have "(2 :: int) ^ (k + 1) < 2 ^ 64" using assms(3) by (intro power_strict_increasing) auto
  moreover have "(push_bit (k + 1) 1 - w - 1 :: u64) = word_of_int (2 ^ (k + 1) - 1 - uint w)"
    by (simp add: push_bit_eq_mult of_int_power)
  then have "uint (push_bit (k + 1) 1 - w - 1) = (2 ^ (k + 1) - 1 - uint w) mod 2 ^ 64"
    by (simp only: uint_word_of_int take_bit_eq_mod) simp
  ultimately show "uint (push_bit (k + 1) 1 - w - 1) = 2 * 2 ^ k - 1 - uint w"
    using assms(1,2) uint_ge_0 [of w] unfolding pow by (simp add: mod_pos_pos_trivial)
qed

lemma booth_digit_low: "0 \<le> v \<Longrightarrow> v < m \<Longrightarrow> booth_digit m v = v div 2 + v mod 2"
  by (simp add: booth_digit_def)

lemma booth_digit_high:
  assumes "m \<le> v" "v < 2 * m" "even m"
  shows "booth_digit m v = - ((2 * m - 1 - v) div 2 + (2 * m - 1 - v) mod 2)"
proof -
  have "v div m = 1" using assms by (intro int_div_pos_eq [where r = "v - m"]) auto
  moreover obtain h where "m = 2 * h" using assms(3) by blast
  moreover have "v div 2 + v mod 2 - 2 * h = - ((4 * h - 1 - v) div 2 + (4 * h - 1 - v) mod 2)" by presburger
  ultimately show ?thesis unfolding booth_digit_def by simp
qed

lemma booth_generic:
  fixes w :: u64
  assumes "uint w < 2 * 2 ^ k" "1 \<le> k" "k \<le> 60"
  defines "s \<equiv> NOT (drop_bit k w - 1)" and "d0 \<equiv> push_bit (k + 1) 1 - w - 1"
  defines "d \<equiv> (d0 AND s) OR (w AND NOT s)"
  defines "sel \<equiv> sint (drop_bit 1 d + (d AND 1))" and "sign \<equiv> sint (s AND 1)"
  shows "0 \<le> sel \<and> sel \<le> 2 ^ k div 2 \<and> (sign = 0 \<or> sign = 1) \<and> (uint w < 2 ^ k \<longrightarrow> sign = 0)
    \<and> (if sign = 1 then - sel else sel) = booth_digit (2 ^ k) (uint w)"
proof -
  obtain h where h: "(2 :: int) ^ k = 2 * h" using assms(2) by (cases k) auto
  have "(2 :: int) ^ k \<le> 2 ^ 60" using assms(3) by (intro power_increasing) auto
  then have b: "uint w < 2 ^ 62" using assms(1) by simp
  show ?thesis
  proof (cases "uint w < 2 ^ k")
    case True
    then have s: "s = 0" unfolding s_def using assms(3) by (rule booth_low)
    have "sel = uint w div 2 + uint w mod 2" using half_up [OF b] by (simp add: sel_def d_def s)
    moreover have "sign = 0" by (simp add: sign_def s)
    ultimately show ?thesis using True h booth_digit_low [of "uint w" "2 ^ k"] uint_ge_0 [of w]
      by (simp add: h)
  next
    case False
    then have k: "2 ^ k \<le> uint w" by simp
    note hi = booth_high [OF k assms(1,3)]
    have s: "s = - 1" unfolding s_def by (rule hi(1))
    have u: "uint d0 = 2 * 2 ^ k - 1 - uint w" unfolding d0_def by (rule hi(2))
    then have "uint d0 < 2 ^ 62" using k \<open>(2 :: int) ^ k \<le> 2 ^ 60\<close> by simp
    from half_up [OF this] have "sel = uint d0 div 2 + uint d0 mod 2" by (simp add: sel_def d_def s)
    moreover have "sign = 1" by (simp add: sign_def s sint_small)
    moreover have "even ((2 :: int) ^ k)" using h by simp
    ultimately show ?thesis using k assms(1) h booth_digit_high [OF k assms(1)] u by simp
  qed
qed

lemma boothW5_digit:
  assumes "uint w < 64"
  shows "case boothW5 w of (sel, sign) \<Rightarrow> 0 \<le> sel \<and> sel \<le> 16 \<and> (sign = 0 \<or> sign = 1) \<and> (uint w < 32 \<longrightarrow> sign = 0)
    \<and> (if sign = 1 then - sel else sel) = booth_digit 32 (uint w)"
proof -
  have e: "5 + 1 = (6 :: nat)" "2 ^ 5 = (32 :: int)" "2 * 32 = (64 :: int)" "32 div 2 = (16 :: int)" by simp_all
  show ?thesis
    using booth_generic [of w 5, unfolded e] assms by (simp only: boothW5_def Let_def prod.case) simp
qed

lemma boothW6_digit:
  assumes "uint w < 128"
  shows "case boothW6 w of (sel, sign) \<Rightarrow> 0 \<le> sel \<and> sel \<le> 32 \<and> (sign = 0 \<or> sign = 1) \<and> (uint w < 64 \<longrightarrow> sign = 0)
    \<and> (if sign = 1 then - sel else sel) = booth_digit 64 (uint w)"
proof -
  have e: "6 + 1 = (7 :: nat)" "2 ^ 6 = (64 :: int)" "2 * 64 = (128 :: int)" "64 div 2 = (32 :: int)" by simp_all
  show ?thesis
    using booth_generic [of w 6, unfolded e] assms by (simp only: boothW6_def Let_def prod.case) simp
qed

text \<open>
  The digits of all windows, from the top one down, add up to the scalar: \<open>booth_sum m K i\<close> is what the
  windows from number \<open>i\<close> upward contribute.
\<close>

definition booth_window :: "int \<Rightarrow> int \<Rightarrow> nat \<Rightarrow> int" where
  "booth_window m K i = 2 * K div m ^ i mod (2 * m)"

definition booth_sum :: "int \<Rightarrow> int \<Rightarrow> nat \<Rightarrow> int" where
  "booth_sum m K i = K div m ^ i + 2 * K div m ^ i mod 2"

lemma booth_parts:
  fixes q :: int
  assumes "m = 2 * h" "0 < h"
  shows "(q mod (2 * m)) div 2 = q div 2 mod m" "(q mod (2 * m)) mod 2 = q mod 2"
    "(q mod (2 * m)) div m = q div m mod 2"
proof -
  have "q mod (2 * m) = 2 * (q div 2 mod m) + q mod 2" by (rule zmod_zmult2_eq) (use assms in simp)
  then show "(q mod (2 * m)) div 2 = q div 2 mod m" by simp
  show "(q mod (2 * m)) mod 2 = q mod 2" by (rule mod_mod_cancel) simp
  have "q mod (m * 2) = m * (q div m mod 2) + q mod m" by (rule zmod_zmult2_eq) simp
  moreover have "(m * (q div m mod 2) + q mod m) div m = q div m mod 2" using assms by simp
  ultimately show "(q mod (2 * m)) div m = q div m mod 2" by (simp add: mult.commute)
qed

lemma booth_sum_step:
  assumes "m = 2 * h" "0 < h"
  shows "booth_sum m K i = m * booth_sum m K (Suc i) + booth_digit m (booth_window m K i)"
proof -
  define q where "q = 2 * K div m ^ i"
  have m: "0 < m" using assms by simp
  have q2: "q div 2 = K div m ^ i" unfolding q_def
    by (simp add: zdiv_zmult2_eq [symmetric] mult.commute div_mult_mult1)
  have "m ^ Suc i = m ^ i * m" by simp
  then have qm: "2 * K div m ^ Suc i = q div m" "K div m ^ Suc i = K div m ^ i div m"
    unfolding q_def using m by (simp_all only: zdiv_zmult2_eq less_imp_le)
  have "booth_digit m (booth_window m K i) = K div m ^ i mod m + q mod 2 - m * (q div m mod 2)"
    unfolding booth_digit_def booth_window_def q_def [symmetric] booth_parts [OF assms] q2 ..
  moreover have "m * (K div m ^ i div m) + K div m ^ i mod m = K div m ^ i" by simp
  ultimately show ?thesis
    unfolding booth_sum_def q_def [symmetric] qm distrib_left by linarith
qed

lemma booth_sum_top:
  assumes "m = 2 * h" "0 < h" "0 \<le> K" "2 * K < m * m ^ i"
  shows "booth_sum m K i = booth_digit m (booth_window m K i)" "booth_window m K i < m" "0 \<le> booth_window m K i"
proof -
  define q where "q = 2 * K div m ^ i"
  have m: "0 < m" using assms by simp
  have q: "q < m" "0 \<le> q" unfolding q_def using assms m
    by (auto intro!: int_div_less simp: pos_imp_zdiv_nonneg_iff)
  have q2: "q div 2 = K div m ^ i" unfolding q_def
    by (simp add: zdiv_zmult2_eq [symmetric] mult.commute div_mult_mult1)
  have "booth_window m K i = q" using q m by (simp add: booth_window_def q_def [symmetric])
  with q show "booth_sum m K i = booth_digit m (booth_window m K i)" "booth_window m K i < m" "0 \<le> booth_window m K i"
    by (simp_all add: booth_digit_low booth_sum_def q_def [symmetric] q2 [symmetric])
qed

lemma booth_sum_bottom: "booth_sum m K 0 = K"
  by (simp add: booth_sum_def)

section \<open>The decomposition of the scalar\<close>

definition Order :: int where
  "Order = 0xB640000002A3A6F1D603AB4FF58EC74449F2934B18EA8BEEE56EE19CD69ECF25"

definition lat_a1 :: int where "lat_a1 = 0xc000000000b1f315"
definition lat_b1 :: int where "lat_b1 = - 0xd8000000019062edc000b98b0d64696c"
definition lat_a2 :: int where "lat_a2 = 0xd8000000019062ee8000b98b0e165c81"
definition lat_b2 :: int where "lat_b2 = 0xc000000000b1f315"

definition splitK_bigint :: "int \<Rightarrow> int \<times> int \<times> int \<times> int" where
  "splitK_bigint k =
     (let c1 = lat_b2 * k; c1 = c1 div Order;
          c2 = lat_b1 * k; c2 = c2 div Order;
          tmp1 = c1 * lat_a1; tmp2 = c2 * lat_a2;
          k1 = k - tmp1; k1 = k1 + tmp2;
          tmp1 = c1 * lat_b1; tmp2 = c2 * lat_b2;
          k2 = tmp2 - tmp1
      in (k1, k2, sgn k1, sgn k2))"

text \<open>The eigenvalue of \<open>(x, y) \<mapsto> (\<beta> x, y)\<close> on the group of order \<open>Order\<close>.\<close>

definition lambda :: int where
  "lambda = 0x1e600000005474de26804e46a9a65c91e2bf5f68bcd8990e5"

lemma lattice_relations:
  "lat_a1 + lat_b1 * lambda = - 41505174165881477435 * Order" "lat_a2 + lat_b2 * lambda = 2 * Order"
  "lat_a1 * lat_b2 - lat_a2 * lat_b1 = Order"
  by (simp_all add: lat_a1_def lat_a2_def lat_b1_def lat_b2_def lambda_def Order_def)

lemma splitK_sum:
  "case splitK_bigint k of (k1, k2, s1, s2) \<Rightarrow>
    (k1 + k2 * lambda) mod Order = k mod Order \<and> s1 = sgn k1 \<and> s2 = sgn k2"
proof -
  define c1 where "c1 = lat_b2 * k div Order"
  define c2 where "c2 = lat_b1 * k div Order"
  have "(k - c1 * lat_a1 + c2 * lat_a2) + (c2 * lat_b2 - c1 * lat_b1) * lambda
    = k - c1 * (lat_a1 + lat_b1 * lambda) + c2 * (lat_a2 + lat_b2 * lambda)" by (simp add: algebra_simps)
  also have "\<dots> = k + Order * (41505174165881477435 * c1 + 2 * c2)"
    unfolding lattice_relations by (simp add: algebra_simps)
  finally have "((k - c1 * lat_a1 + c2 * lat_a2) + (c2 * lat_b2 - c1 * lat_b1) * lambda) mod Order = k mod Order"
    by (simp only: mod_mult_self2)
  then show ?thesis by (simp add: splitK_bigint_def Let_def c1_def c2_def)
qed

text \<open>Both halves are below \<open>2 ^ 128\<close> in absolute value, whatever the scalar.\<close>

lemma splitK_bounds:
  "case splitK_bigint k of (k1, k2, s1, s2) \<Rightarrow> \<bar>k1\<bar> < 2 ^ 128 \<and> \<bar>k2\<bar> < 2 ^ 128"
proof -
  define c1 where "c1 = lat_b2 * k div Order"
  define c2 where "c2 = lat_b1 * k div Order"
  define r1 where "r1 = lat_b2 * k mod Order"
  define r2 where "r2 = lat_b1 * k mod Order"
  have n: "0 < Order" by (simp add: Order_def)
  have d: "lat_b2 * k = Order * c1 + r1" "lat_b1 * k = Order * c2 + r2"
    by (simp_all add: c1_def c2_def r1_def r2_def)
  have r: "0 \<le> r1" "r1 < Order" "0 \<le> r2" "r2 < Order" using n by (simp_all add: r1_def r2_def)
  define k1 where "k1 = k - c1 * lat_a1 + c2 * lat_a2"
  define k2 where "k2 = c2 * lat_b2 - c1 * lat_b1"
  have "Order * k1 = (lat_a1 * lat_b2 - lat_a2 * lat_b1) * k - lat_a1 * (Order * c1) + lat_a2 * (Order * c2)"
    unfolding lattice_relations k1_def by (simp add: algebra_simps)
  also have "\<dots> = lat_a1 * (lat_b2 * k - Order * c1) - lat_a2 * (lat_b1 * k - Order * c2)" by (simp add: algebra_simps)
  also have "\<dots> = lat_a1 * r1 - lat_a2 * r2" unfolding d by simp
  finally have e1: "Order * k1 = lat_a1 * r1 - lat_a2 * r2" .
  have "Order * k2 = lat_b2 * (Order * c2 - lat_b1 * k) - lat_b1 * (Order * c1 - lat_b2 * k)"
    by (simp add: k2_def algebra_simps)
  then have e2: "Order * k2 = lat_b1 * r1 - lat_b2 * r2" unfolding d by simp
  have A: "0 < lat_a1" "lat_a1 < 2 ^ 64" "0 < lat_a2" "lat_a2 < 2 ^ 128" "0 < lat_b2" "lat_b2 < 2 ^ 64"
    "- lat_b1 < 2 ^ 128 - 2 ^ 64" "lat_b1 < 0"
    by (simp_all add: lat_a1_def lat_a2_def lat_b1_def lat_b2_def)
  have bnd: "0 \<le> a * r" "a * r < M * Order" if "0 < a" "a < M" "0 \<le> r" "r < Order" for a r M :: int
    using that by (auto intro: mult_strict_mono)
  have "Order * k1 < 2 ^ 128 * Order" "- (2 ^ 128 * Order) < Order * k1"
    using bnd [OF A(1) A(2) r(1,2)] bnd [OF A(3,4) r(3,4)] n unfolding e1 by simp_all
  then have "\<bar>k1\<bar> < 2 ^ 128"
    using mult_less_cancel_left_pos [OF n, of k1 "2 ^ 128"] mult_less_cancel_left_pos [OF n, of "- (2 ^ 128)" k1]
    by (simp add: mult.commute)
  moreover have "Order * k2 \<le> 0" "- (2 ^ 128 * Order) < Order * k2"
    using bnd [of "- lat_b1" "2 ^ 128 - 2 ^ 64" r1] bnd [OF A(5,6) r(3,4)] A(7,8) r n unfolding e2
    by (simp_all add: algebra_simps)
  then have "\<bar>k2\<bar> < 2 ^ 128"
    using mult_le_cancel_left_pos [OF n, of k2 0] mult_less_cancel_left_pos [OF n, of "- (2 ^ 128)" k2]
    by (simp add: mult.commute)
  ultimately show ?thesis
    by (simp add: splitK_bigint_def Let_def c1_def c2_def k1_def k2_def)
qed

section \<open>Windows of a scalar\<close>

definition scan_window :: "u64 \<Rightarrow> nat \<Rightarrow> u64 list \<Rightarrow> nat \<Rightarrow> u64" where
  "scan_window m limit scalar index =
     (if index < limit
      then (drop_bit (index mod 64) (scalar ! (index div 64))
        + push_bit (64 - index mod 64) (scalar ! (index div 64 + 1))) AND m
      else drop_bit (index mod 64) (scalar ! (index div 64)) AND m)"

definition low_window :: "u64 \<Rightarrow> u64 list \<Rightarrow> u64" where
  "low_window m scalar = push_bit 1 (scalar ! 0) AND m"

lemma limbs_div:
  assumes "w \<le> length s"
  shows "limbs s div 2 ^ (64 * w) = limbs (drop w s)"
proof -
  have "limbs (take w s) < 2 ^ (64 * w)" using limbs_bound [of "take w s"] assms by simp
  then have "limbs (take w s) div 2 ^ (64 * w) = 0" by simp
  then show ?thesis unfolding limbs_take_drop [OF assms] by (subst div_mult_self2) auto
qed

lemma div_shift_add:
  assumes "i \<le> 64"
  shows "(x + 2 ^ 64 * y) div 2 ^ i = x div 2 ^ i + 2 ^ (64 - i) * (y :: int)"
proof -
  have "(2 :: int) ^ 64 = 2 ^ i * 2 ^ (64 - i)" using assms by (simp flip: power_add)
  then have "x + 2 ^ 64 * y = x + 2 ^ i * (2 ^ (64 - i) * y)" by (simp only: mult.assoc)
  then show ?thesis by (simp only:) (simp add: power_not_zero)
qed

lemma mod_low_bits:
  assumes "b \<le> 64"
  shows "(a + 2 ^ 64 * c) mod 2 ^ b = a mod (2 ^ b :: int)" "(a mod 2 ^ 64) mod 2 ^ b = a mod (2 ^ b :: int)"
proof -
  have "(2 :: int) ^ 64 = 2 ^ b * 2 ^ (64 - b)" using assms by (simp flip: power_add)
  then have "a + 2 ^ 64 * c = a + 2 ^ b * (2 ^ (64 - b) * c)" by (simp only: mult.assoc)
  then show "(a + 2 ^ 64 * c) mod 2 ^ b = a mod (2 ^ b :: int)" by (simp only: mod_mult_self2)
  show "(a mod 2 ^ 64) mod 2 ^ b = a mod (2 ^ b :: int)"
    by (rule mod_mod_cancel, rule le_imp_power_dvd, rule assms)
qed

lemma scan_window_val:
  assumes "length s = Suc n" "index < 64 * length s" "b \<le> 64"
  shows "uint (scan_window (mask b) (64 * n) s index) = limbs s div 2 ^ index mod 2 ^ b"
proof -
  define w i where "w = index div 64" and "i = index mod 64"
  have index: "index = 64 * w + i" "i < 64" by (simp_all add: w_def i_def)
  have w: "w < length s" using assms(2) index by linarith
  then obtain x rest where x: "drop w s = x # rest" "x = s ! w" "rest = drop (Suc w) s"
    using Cons_nth_drop_Suc [OF w] by metis
  have d: "limbs s div 2 ^ index = uint x div 2 ^ i + 2 ^ (64 - i) * limbs rest"
  proof -
    have "limbs s div 2 ^ index = limbs s div 2 ^ (64 * w) div 2 ^ i"
      unfolding index(1) power_add by (rule zdiv_zmult2_eq) simp
    also have "\<dots> = (uint x + 2 ^ 64 * limbs rest) div 2 ^ i"
      unfolding limbs_div [OF less_imp_le [OF w]] x(1) limbs.simps ..
    also have "\<dots> = uint x div 2 ^ i + 2 ^ (64 - i) * limbs rest" using index(2) by (intro div_shift_add) simp
    finally show ?thesis .
  qed
  show ?thesis
  proof (cases "index < 64 * n")
    case True
    then have "Suc w < length s" using assms(1) index by linarith
    then obtain y rest' where y: "rest = y # rest'" "y = s ! Suc w"
      using Cons_nth_drop_Suc [of "Suc w" s] x(3) by metis
    have "drop_bit i x + push_bit (64 - i) y = word_of_int (uint x div 2 ^ i + 2 ^ (64 - i) * uint y)"
      using uint_drop_bit [of i x]
      by (metis (no_types, lifting) mult.commute of_int_add of_int_mult of_int_numeral of_int_power push_bit_eq_mult word_of_int_uint)
    then have "uint (drop_bit i x + push_bit (64 - i) y) = (uint x div 2 ^ i + 2 ^ (64 - i) * uint y) mod 2 ^ 64"
      by (simp only: uint_word_of_int) simp
    then have "uint (scan_window (mask b) (64 * n) s index) = (uint x div 2 ^ i + 2 ^ (64 - i) * uint y) mod 2 ^ 64 mod 2 ^ b"
      using True x(2) y(2) by (simp only: scan_window_def if_True w_def [symmetric] i_def [symmetric] uint_and_mask Suc_eq_plus1)
    also have "\<dots> = (uint x div 2 ^ i + 2 ^ (64 - i) * uint y) mod 2 ^ b" by (rule mod_low_bits [OF assms(3)])
    also have "\<dots> = (uint x div 2 ^ i + 2 ^ (64 - i) * uint y + 2 ^ 64 * (2 ^ (64 - i) * limbs rest')) mod 2 ^ b"
      by (rule mod_low_bits [OF assms(3), symmetric])
    also have "\<dots> = limbs s div 2 ^ index mod 2 ^ b" unfolding d y(1) by (simp add: algebra_simps)
    finally show ?thesis .
  next
    case False
    then have "w = n" using assms(1) w index by linarith
    then have "rest = []" using x(3) assms(1) by simp
    then show ?thesis using False unfolding d
      by (simp add: scan_window_def w_def [symmetric] i_def [symmetric] x(2) [symmetric] uint_and_mask uint_drop_bit del: take_bit_eq_mask)
  qed
qed

lemma low_window_val:
  assumes "0 < length s" "b \<le> 64"
  shows "uint (low_window (mask b) s) = 2 * limbs s mod 2 ^ b"
proof -
  obtain x rest where s: "s = x # rest" using assms(1) by (cases s) auto
  have "uint (push_bit 1 x) = 2 * uint x mod 2 ^ 64"
    by (simp add: push_bit_eq_mult uint_word_arith_bintrs take_bit_eq_mod mult.commute)
  then have "uint (low_window (mask b) s) = 2 * uint x mod 2 ^ 64 mod 2 ^ b"
    by (simp only: low_window_def s nth_Cons_0 uint_and_mask)
  also have "\<dots> = 2 * uint x mod 2 ^ b" by (rule mod_low_bits [OF assms(2)])
  also have "\<dots> = (2 * uint x + 2 ^ 64 * (2 * limbs rest)) mod 2 ^ b" by (rule mod_low_bits [OF assms(2), symmetric])
  also have "2 * uint x + 2 ^ 64 * (2 * limbs rest) = 2 * limbs s" by (simp add: s algebra_simps)
  finally show ?thesis .
qed

end
