(* ===== verification/Sm9_Mul.thy ===== *)
theory Sm9_Mul
  imports Sm9_Scalar
begin

text \<open>
  Scalar multiplication in G1, the second half of \<open>curve.go\<close>: \<open>Mul\<close> with its two tables of sixteen
  multiples, and the multiplication of the generator with the precomputed table, \<open>initTable\<close>,
  \<open>sm9BaseMult\<close> and \<open>sm9CombinedMult\<close>. The table is built once by \<open>precomputeOnce\<close> and never written
  again; here it is the constant \<open>initTable\<close>.

  What a chain of point operations computes is stated with \<open>multiple gen P m\<close>: \<open>P\<close> results from the
  points of \<open>gen\<close>, which carry integer weights, by additions, doublings and negations of net weight
  \<open>m\<close>; that the operations are those of the group is \<open>curve_group_law\<close> and \<open>curve_mixed_addition\<close> of
  \<open>Sm9_Curve\<close>. The weights of the constants of \<open>g32\<close> are part of \<open>base_gen\<close> and are not proved here.
\<close>

section \<open>Chains of point operations\<close>

text \<open>
  The normalisation that \<open>initTable\<close> does in place: \<open>x\<close> and \<open>y\<close> are divided by the powers of \<open>z\<close>. The
  table of an arbitrary point uses \<open>MakeAffine\<close> instead and then stores one into \<open>z\<close>.
\<close>

definition normalise :: "curvePoint \<Rightarrow> curvePoint" where
  "normalise P =
     (let zInv = gfP_Invert (cp_z P);
          zInvSq = gfpMul zInv zInv;
          zInv = gfpMul zInv zInvSq
      in P\<lparr>cp_x := gfpMul (cp_x P) zInvSq, cp_y := gfpMul (cp_y P) zInv, cp_z := newGFp 1\<rparr>)"

text \<open>
  \<open>multiple gen P m\<close>: the point \<open>P\<close> is the result of a chain of operations whose net weight is \<open>m\<close>. The
  mixed addition, which has no doubling case, may only be applied where the two weights differ
  modulo the order of the group.
\<close>

inductive multiple :: "(curvePoint \<Rightarrow> int \<Rightarrow> bool) \<Rightarrow> curvePoint \<Rightarrow> int \<Rightarrow> bool" for gen where
  multiple_gen: "gen P m \<Longrightarrow> multiple gen P m"
| multiple_infinity: "curvePoint_IsInfinity P \<Longrightarrow> curve_ok P \<Longrightarrow> multiple gen P 0"
| multiple_add: "multiple gen P m \<Longrightarrow> multiple gen Q n \<Longrightarrow> multiple gen (curvePoint_Add c P Q) (m + n)"
| multiple_double: "multiple gen P m \<Longrightarrow> multiple gen (curvePoint_Double c P) (2 * m)"
| multiple_neg: "multiple gen P m \<Longrightarrow> multiple gen (curvePoint_Neg P) (- m)"
| multiple_normalise: "multiple gen P m \<Longrightarrow> multiple gen (normalise P) m"
| multiple_affine: "multiple gen P m \<Longrightarrow> multiple gen ((curvePoint_MakeAffine P)\<lparr>cp_z := newGFp 1\<rparr>) m"
| multiple_mixed: "multiple gen P m \<Longrightarrow> multiple gen \<lparr>cp_x = cpa_x A, cp_y = cpa_y A, cp_z = newGFp 1, cp_t = newGFp 1\<rparr> n \<Longrightarrow>
    (m - n) mod Order \<noteq> 0 \<Longrightarrow> multiple gen (curvePoint_Add_JA c P A) (m + n)"
| multiple_same: "multiple gen P m \<Longrightarrow> cp_x Q = cp_x P \<Longrightarrow> cp_y Q = cp_y P \<Longrightarrow> cp_z Q = cp_z P \<Longrightarrow> multiple gen Q m"

lemma curve_ok_add: "curve_ok P \<Longrightarrow> curve_ok Q \<Longrightarrow> curve_ok (curvePoint_Add c P Q)"
  by (simp add: curvePoint_Add_def curvePoint_Double_def Let_def curve_ok_def gfp_rules)

lemma curve_ok_double: "curve_ok P \<Longrightarrow> curve_ok (curvePoint_Double c P)"
  by (simp add: curvePoint_Double_def Let_def curve_ok_def gfp_rules)

lemma curve_ok_neg: "curve_ok P \<Longrightarrow> curve_ok (curvePoint_Neg P)"
  by (simp add: curvePoint_Neg_def curve_ok_def gfp_rules)

lemma curve_ok_mixed:
  "curve_ok P \<Longrightarrow> gfp_ok (cpa_x A) \<Longrightarrow> gfp_ok (cpa_y A) \<Longrightarrow> curve_ok (curvePoint_Add_JA c P A)"
  by (simp add: curvePoint_Add_JA_def Let_def curve_ok_def gfp_rules)

lemma curve_ok_normalise: "curve_ok P \<Longrightarrow> curve_ok (normalise P)"
  by (simp add: normalise_def Let_def curve_ok_def gfp_rules gfP_Invert_val)

lemma curve_ok_affine: "curve_ok P \<Longrightarrow> curve_ok ((curvePoint_MakeAffine P)\<lparr>cp_z := newGFp 1\<rparr>)"
  by (simp add: curvePoint_MakeAffine_def Let_def curve_ok_def gfp_rules gfP_Invert_val)

lemma multiple_ok:
  assumes "multiple gen P m" "\<And>Q n. gen Q n \<Longrightarrow> curve_ok Q"
  shows "curve_ok P"
  using assms(1)
proof induction
  case (multiple_mixed P m A n c)
  then show ?case by (intro curve_ok_mixed) (simp_all add: curve_ok_def)
next
  case (multiple_same P m Q)
  then show ?case by (simp add: curve_ok_def)
qed (auto intro: curve_ok_add curve_ok_double curve_ok_neg curve_ok_normalise curve_ok_affine assms(2))

lemma multiple_weight: "multiple gen P m \<Longrightarrow> m = n \<Longrightarrow> multiple gen P n"
  by simp

section \<open>Multiplication of a point\<close>

definition beta :: gfP where
  "beta = [0x81054fcd94e9c1c4, 0x4c0e91cb8ce2df3e, 0x4877b452e8aedfb4, 0x88f53e748b491776]"

definition ginfinite :: curvePoint where
  "ginfinite = \<lparr>cp_x = newGFp 0, cp_y = newGFp 1, cp_z = newGFp 0, cp_t = newGFp 0\<rparr>"

type_synonym precomp = "u64 list list"

definition p256pre_store :: "precomp \<Rightarrow> nat \<Rightarrow> curvePoint \<Rightarrow> precomp" where
  "p256pre_store precomp index P = precomp[index := cp_x P @ cp_y P @ cp_z P]"

definition p256Select1 :: "precomp \<Rightarrow> int \<Rightarrow> curvePoint" where
  "p256Select1 precomp sel =
     (let temp = curveGen;
          temp = if 0 < sel
            then let row = precomp ! nat (sel - 1)
                 in temp\<lparr>cp_x := take 4 row, cp_y := take 4 (drop 4 row), cp_z := take 4 (drop 8 row)\<rparr>
            else temp
      in if sel = 0 then ginfinite else temp)"

text \<open>The six points in which \<open>Mul\<close> prepares its tables; new points are all zero.\<close>

record mul_temps =
  mt_t0 :: curvePoint
  mt_t1 :: curvePoint
  mt_t2 :: curvePoint
  mt_t3 :: curvePoint
  mt_temp :: curvePoint
  mt_temp2 :: curvePoint

definition zero_point :: curvePoint where
  "zero_point = \<lparr>cp_x = gfP_zero, cp_y = gfP_zero, cp_z = gfP_zero, cp_t = gfP_zero\<rparr>"

definition fill_table :: "mul_temps \<Rightarrow> curvePoint \<Rightarrow> precomp \<times> mul_temps" where
  "fill_table st inp =
     (let precomp = replicate 16 (replicate 12 0);
          precomp = p256pre_store precomp 0 inp;
          t0 = curvePoint_Double (mt_t0 st) inp;
          t1 = curvePoint_Double (mt_t1 st) t0;
          t2 = curvePoint_Double (mt_t2 st) t1;
          t3 = curvePoint_Double (mt_t3 st) t2;
          precomp = p256pre_store precomp 1 t0;
          precomp = p256pre_store precomp 3 t1;
          precomp = p256pre_store precomp 7 t2;
          precomp = p256pre_store precomp 15 t3;
          temp = curvePoint_Add (mt_temp st) inp t0;
          temp2 = curvePoint_Add (mt_temp2 st) inp t1;
          t3 = curvePoint_Add t3 inp t2;
          precomp = p256pre_store precomp 2 temp;
          precomp = p256pre_store precomp 4 temp2;
          precomp = p256pre_store precomp 8 t3;
          temp = curvePoint_Double temp temp;
          temp2 = curvePoint_Double temp2 temp2;
          precomp = p256pre_store precomp 5 temp;
          precomp = p256pre_store precomp 9 temp2;
          t1 = curvePoint_Add t1 inp temp;
          t2 = curvePoint_Add t2 inp temp2;
          precomp = p256pre_store precomp 6 t1;
          precomp = p256pre_store precomp 10 t2;
          temp = curvePoint_Double temp temp;
          t3 = curvePoint_Double t3 t1;
          precomp = p256pre_store precomp 11 temp;
          precomp = p256pre_store precomp 13 t3;
          t2 = curvePoint_Add t2 temp inp;
          t1 = curvePoint_Add t1 t3 inp;
          precomp = p256pre_store precomp 12 t2;
          precomp = p256pre_store precomp 14 t1
      in (precomp, \<lparr>mt_t0 = t0, mt_t1 = t1, mt_t2 = t2, mt_t3 = t3, mt_temp = temp, mt_temp2 = temp2\<rparr>))"

text \<open>One addition of the main loop: the window's multiple, negated on demand, is added to \<open>t0\<close>.\<close>

definition add_window :: "precomp \<Rightarrow> u64 \<Rightarrow> curvePoint \<Rightarrow> curvePoint" where
  "add_window precomp wvalue t0 =
     (case boothW5 wvalue of (sel, sign) \<Rightarrow>
        let t1 = p256Select1 precomp sel;
            t1 = if sign = 1 then curvePoint_Neg t1 else t1
        in curvePoint_Add t0 t1 t0)"

definition double5 :: "curvePoint \<Rightarrow> curvePoint" where
  "double5 t0 =
     (let t0 = curvePoint_Double t0 t0;
          t0 = curvePoint_Double t0 t0;
          t0 = curvePoint_Double t0 t0;
          t0 = curvePoint_Double t0 t0
      in curvePoint_Double t0 t0)"

fun mul_loop :: "precomp \<Rightarrow> precomp \<Rightarrow> u64 list \<Rightarrow> u64 list \<Rightarrow> nat \<Rightarrow> curvePoint \<Rightarrow> curvePoint" where
  "mul_loop precomp1 precomp2 scalar1 scalar2 index t0 =
     (if 4 < index then
        let index = index - 5;
            t0 = double5 t0;
            t0 = add_window precomp1 (scan_window 0x3f 64 scalar1 index) t0;
            t0 = add_window precomp2 (scan_window 0x3f 64 scalar2 index) t0
        in mul_loop precomp1 precomp2 scalar1 scalar2 index t0
      else t0)"

declare mul_loop.simps [simp del]

definition endo :: "curvePoint \<Rightarrow> curvePoint" where
  "endo a = \<lparr>cp_x = gfpMul beta (cp_x a), cp_y = cp_y a, cp_z = cp_z a, cp_t = cp_t a\<rparr>"

definition curvePoint_Mul :: "curvePoint \<Rightarrow> int \<Rightarrow> curvePoint option" where
  "curvePoint_Mul a k =
     (case splitK_bigint k of (k1, k2, signk1, signk2) \<Rightarrow>
      case fromBig 2 k1 of None \<Rightarrow> None | Some scalar1 \<Rightarrow>
      case fromBig 2 k2 of None \<Rightarrow> None | Some scalar2 \<Rightarrow>
        let ta = if signk1 = -1 then curvePoint_Neg a else a;
            enda = if signk2 = -1 then curvePoint_Neg (endo a) else endo a;
            st = \<lparr>mt_t0 = zero_point, mt_t1 = zero_point, mt_t2 = zero_point, mt_t3 = zero_point,
                  mt_temp = zero_point, mt_temp2 = zero_point\<rparr>
        in case fill_table st ta of (precomp1, st) \<Rightarrow>
           case fill_table st enda of (precomp2, st) \<Rightarrow>
             let temp = p256Select1 precomp1 (fst (boothW5 (scan_window 0x3f 64 scalar1 124)));
                 temp2 = p256Select1 precomp2 (fst (boothW5 (scan_window 0x3f 64 scalar2 124)));
                 t0 = curvePoint_Add (mt_t0 st) temp temp2;
                 t0 = mul_loop precomp1 precomp2 scalar1 scalar2 124 t0;
                 t0 = double5 t0;
                 t0 = add_window precomp1 (low_window 0x3f scalar1) t0;
                 t0 = add_window precomp2 (low_window 0x3f scalar2) t0
             in Some t0)"

definition table_of :: "(curvePoint \<Rightarrow> int \<Rightarrow> bool) \<Rightarrow> precomp \<Rightarrow> int \<Rightarrow> bool" where
  "table_of gen precomp m \<longleftrightarrow> (\<forall>sel. 0 \<le> sel \<and> sel \<le> 16 \<longrightarrow> multiple gen (p256Select1 precomp sel) (sel * m))"

lemma select_row:
  assumes "multiple gen P (sel * m)" "precomp ! nat (sel - 1) = cp_x P @ cp_y P @ cp_z P" "0 < sel" "curve_ok P"
  shows "multiple gen (p256Select1 precomp sel) (sel * m)"
proof (rule multiple_same [OF assms(1)])
  have "length (cp_x P) = 4" "length (cp_y P) = 4" "length (cp_z P) = 4"
    using assms(4) by (simp_all add: curve_ok_def gfp_ok_def)
  then show "cp_x (p256Select1 precomp sel) = cp_x P" "cp_y (p256Select1 precomp sel) = cp_y P"
    "cp_z (p256Select1 precomp sel) = cp_z P"
    using assms(2,3) by (simp_all add: p256Select1_def Let_def)
qed

lemma fill_table_multiples:
  assumes inp: "multiple gen inp m" and ok: "\<And>Q n. gen Q n \<Longrightarrow> curve_ok Q"
  shows "table_of gen (fst (fill_table st inp)) m"
proof -
  note rules = multiple_add multiple_double
  define t0 where "t0 = curvePoint_Double (mt_t0 st) inp"
  define t1 where "t1 = curvePoint_Double (mt_t1 st) t0"
  define t2 where "t2 = curvePoint_Double (mt_t2 st) t1"
  define t3 where "t3 = curvePoint_Double (mt_t3 st) t2"
  define temp where "temp = curvePoint_Add (mt_temp st) inp t0"
  define temp2 where "temp2 = curvePoint_Add (mt_temp2 st) inp t1"
  define u3 where "u3 = curvePoint_Add t3 inp t2"
  define temp_6 where "temp_6 = curvePoint_Double temp temp"
  define temp_10 where "temp_10 = curvePoint_Double temp2 temp2"
  define t1_7 where "t1_7 = curvePoint_Add t1 inp temp_6"
  define t2_11 where "t2_11 = curvePoint_Add t2 inp temp_10"
  define temp_12 where "temp_12 = curvePoint_Double temp_6 temp_6"
  define t3_14 where "t3_14 = curvePoint_Double u3 t1_7"
  define t2_13 where "t2_13 = curvePoint_Add t2_11 temp_12 inp"
  define t1_15 where "t1_15 = curvePoint_Add t1_7 t3_14 inp"
  note defs = t0_def t1_def t2_def t3_def temp_def temp2_def u3_def temp_6_def temp_10_def t1_7_def t2_11_def
    temp_12_def t3_14_def t2_13_def t1_15_def
  define row where "row = (\<lambda>P :: curvePoint. cp_x P @ cp_y P @ cp_z P)"
  let ?pts = "[inp, t0, temp, t1, temp2, temp_6, t1_7, t2, u3, temp_10, t2_11, temp_12, t2_13, t3_14, t1_15, t3]"
  have tab: "fst (fill_table st inp) = map row ?pts"
    by (simp add: fill_table_def Let_def p256pre_store_def defs [symmetric] row_def numeral_eq_Suc)
  have w2: "multiple gen t0 (2 * m)" unfolding t0_def by (rule multiple_double [OF inp])
  have w4: "multiple gen t1 (4 * m)" unfolding t1_def using multiple_double [OF w2] by simp
  have w8: "multiple gen t2 (8 * m)" unfolding t2_def using multiple_double [OF w4] by simp
  have w16: "multiple gen t3 (16 * m)" unfolding t3_def using multiple_double [OF w8] by simp
  have w3: "multiple gen temp (3 * m)" unfolding temp_def using multiple_add [OF inp w2] by simp
  have w5: "multiple gen temp2 (5 * m)" unfolding temp2_def using multiple_add [OF inp w4] by simp
  have w9: "multiple gen u3 (9 * m)" unfolding u3_def using multiple_add [OF inp w8] by simp
  have w6: "multiple gen temp_6 (6 * m)" unfolding temp_6_def using multiple_double [OF w3] by simp
  have w10: "multiple gen temp_10 (10 * m)" unfolding temp_10_def using multiple_double [OF w5] by simp
  have w7: "multiple gen t1_7 (7 * m)" unfolding t1_7_def using multiple_add [OF inp w6] by simp
  have w11: "multiple gen t2_11 (11 * m)" unfolding t2_11_def using multiple_add [OF inp w10] by simp
  have w12: "multiple gen temp_12 (12 * m)" unfolding temp_12_def using multiple_double [OF w6] by simp
  have w14: "multiple gen t3_14 (14 * m)" unfolding t3_14_def using multiple_double [OF w7] by simp
  have w13: "multiple gen t2_13 (13 * m)" unfolding t2_13_def using multiple_add [OF w12 inp] by (simp add: algebra_simps)
  have w15: "multiple gen t1_15 (15 * m)" unfolding t1_15_def using multiple_add [OF w14 inp] by (simp add: algebra_simps)
  have all: "list_all (\<lambda>(P, k). multiple gen P (k * m)) (zip ?pts [1..16])"
    using inp w2 w3 w4 w5 w6 w7 w8 w9 w10 w11 w12 w13 w14 w15 w16 by (simp add: upto_rec1)
  show ?thesis unfolding table_of_def
  proof (intro allI impI)
    fix sel :: int assume sel: "0 \<le> sel \<and> sel \<le> 16"
    show "multiple gen (p256Select1 (fst (fill_table st inp)) sel) (sel * m)"
    proof (cases "sel = 0")
      case True
      then have "curvePoint_IsInfinity (p256Select1 (fst (fill_table st inp)) sel)"
        "curve_ok (p256Select1 (fst (fill_table st inp)) sel)"
        by (simp_all add: p256Select1_def ginfinite_def curvePoint_IsInfinity_def curve_ok_def newGFp_zero newGFp_val)
      then show ?thesis using True multiple_infinity by simp
    next
      case False
      then have n: "nat (sel - 1) < 16" using sel by linarith
      let ?P = "?pts ! nat (sel - 1)"
      have "zip ?pts [1..16] ! nat (sel - 1) = (?P, sel)" using n False sel by (subst nth_zip) simp_all
      moreover have "nat (sel - 1) < length (zip ?pts [1..16])" using n by simp
      ultimately have P: "multiple gen ?P (sel * m)"
        using all [unfolded list_all_length, rule_format, of "nat (sel - 1)"] by (simp only: prod.case)
      have "map row ?pts ! nat (sel - 1) = row ?P" using n by (subst nth_map) simp_all
      then show ?thesis using P False sel multiple_ok [OF P ok]
        unfolding tab by (intro select_row [OF P]) (auto simp: row_def)
    qed
  qed
qed

lemma mask6: "(0x3f :: u64) = mask 6"
  by (simp add: mask_eq_exp_minus_1)

lemma window_index:
  fixes K :: int
  assumes "1 \<le> i"
  shows "K div 2 ^ (5 * i - 1) = 2 * K div 32 ^ i"
proof -
  have "(32 :: int) ^ i = 2 ^ (5 * i)" by (simp add: power_mult)
  also have "\<dots> = 2 * 2 ^ (5 * i - 1)" using assms by (simp flip: power_Suc)
  finally have "2 * K div 32 ^ i = (2 * K) div (2 * 2 ^ (5 * i - 1))" by (simp only:)
  also have "\<dots> = K div 2 ^ (5 * i - 1)" by (rule div_mult_mult1) simp
  finally show ?thesis by (rule sym)
qed

lemma scan_window5:
  assumes "length s = 2" "1 \<le> i" "i \<le> 25"
  shows "uint (scan_window 0x3f 64 s (5 * i - 1)) = booth_window 32 (limbs s) i"
proof -
  have "5 * i - 1 < 64 * length s" using assms by simp
  then have "uint (scan_window (mask 6) (64 * 1) s (5 * i - 1)) = limbs s div 2 ^ (5 * i - 1) mod 2 ^ 6"
    using assms(1) by (intro scan_window_val) simp_all
  then show ?thesis unfolding mask6 window_index [OF assms(2)] booth_window_def by simp
qed

lemma low_window5:
  assumes "length s = 2"
  shows "uint (low_window 0x3f s) = booth_window 32 (limbs s) 0"
  using low_window_val [of s 6] assms by (simp add: mask6 booth_window_def)

lemma booth_window_bounds: "0 \<le> booth_window 32 K i" "booth_window 32 K i < 64"
  by (simp_all add: booth_window_def)

lemma booth_sum5: "booth_sum 32 K i = 32 * booth_sum 32 K (Suc i) + booth_digit 32 (booth_window 32 K i)"
  by (rule booth_sum_step [where h = 16]) simp_all

lemma add_window_multiple:
  assumes "table_of gen tab m" "uint w < 64" "multiple gen t0 n"
  shows "multiple gen (add_window tab w t0) (n + booth_digit 32 (uint w) * m)"
proof -
  obtain sel sign where b: "boothW5 w = (sel, sign)" by (cases "boothW5 w")
  then have d: "0 \<le> sel" "sel \<le> 16" "(if sign = 1 then - sel else sel) = booth_digit 32 (uint w)"
    using boothW5_digit [OF assms(2)] by auto
  have t: "multiple gen (p256Select1 tab sel) (sel * m)" using assms(1) d by (simp add: table_of_def)
  have "multiple gen (if sign = 1 then curvePoint_Neg (p256Select1 tab sel) else p256Select1 tab sel)
      (booth_digit 32 (uint w) * m)"
    using t multiple_neg [OF t] unfolding d(3) [symmetric] by simp
  from multiple_add [OF this assms(3)] show ?thesis by (simp add: add_window_def b Let_def add.commute)
qed

lemma double5_multiple:
  assumes "multiple gen t0 n"
  shows "multiple gen (double5 t0) (32 * n)"
proof -
  have "multiple gen (double5 t0) (2 * (2 * (2 * (2 * (2 * n)))))"
    unfolding double5_def Let_def by (intro multiple_double assms)
  then show ?thesis by simp
qed

lemma mul_loop_multiple:
  assumes tab: "table_of gen tab1 m1" "table_of gen tab2 m2" and len: "length s1 = 2" "length s2 = 2"
  shows "i \<le> 24 \<Longrightarrow> multiple gen t0 (booth_sum 32 (limbs s1) (Suc i) * m1 + booth_sum 32 (limbs s2) (Suc i) * m2) \<Longrightarrow>
    multiple gen (mul_loop tab1 tab2 s1 s2 (5 * Suc i - 1) t0) (booth_sum 32 (limbs s1) 1 * m1 + booth_sum 32 (limbs s2) 1 * m2)"
proof (induction i arbitrary: t0)
  case 0
  then show ?case by (subst mul_loop.simps) simp
next
  case (Suc i)
  let ?w1 = "scan_window 0x3f 64 s1 (5 * Suc i - 1)" and ?w2 = "scan_window 0x3f 64 s2 (5 * Suc i - 1)"
  have w: "uint ?w1 = booth_window 32 (limbs s1) (Suc i)" "uint ?w2 = booth_window 32 (limbs s2) (Suc i)"
    using Suc(2) len by (intro scan_window5; simp)+
  have "multiple gen (add_window tab2 ?w2 (add_window tab1 ?w1 (double5 t0)))
      (32 * (booth_sum 32 (limbs s1) (Suc (Suc i)) * m1 + booth_sum 32 (limbs s2) (Suc (Suc i)) * m2)
        + booth_digit 32 (uint ?w1) * m1 + booth_digit 32 (uint ?w2) * m2)"
    using w booth_window_bounds by (intro add_window_multiple tab double5_multiple Suc(3)) simp_all
  then have "multiple gen (add_window tab2 ?w2 (add_window tab1 ?w1 (double5 t0)))
      (booth_sum 32 (limbs s1) (Suc i) * m1 + booth_sum 32 (limbs s2) (Suc i) * m2)"
    unfolding w booth_sum5 [of _ "Suc i"] by (rule multiple_weight) (simp add: algebra_simps)
  from Suc(1) [OF _ this] Suc(2) show ?case by (subst mul_loop.simps) (simp add: Let_def)
qed

lemma mul_windows:
  fixes c :: curvePoint
  assumes tab: "table_of gen tab1 m1" "table_of gen tab2 m2"
    and len: "length s1 = 2" "length s2 = 2" and b: "limbs s1 < 2 ^ 128" "limbs s2 < 2 ^ 128"
  defines "t0 \<equiv> curvePoint_Add c (p256Select1 tab1 (fst (boothW5 (scan_window 0x3f 64 s1 124))))
      (p256Select1 tab2 (fst (boothW5 (scan_window 0x3f 64 s2 124))))"
  shows "multiple gen (add_window tab2 (low_window 0x3f s2) (add_window tab1 (low_window 0x3f s1)
      (double5 (mul_loop tab1 tab2 s1 s2 124 t0)))) (limbs s1 * m1 + limbs s2 * m2)"
proof -
  have top: "multiple gen (p256Select1 tab (fst (boothW5 (scan_window 0x3f 64 s 124)))) (booth_sum 32 (limbs s) 25 * m)"
    if "table_of gen tab m" "length s = 2" "limbs s < 2 ^ 128" for tab s m
  proof -
    have w: "uint (scan_window 0x3f 64 s 124) = booth_window 32 (limbs s) 25"
      using scan_window5 [OF that(2), of 25] by simp
    have "0 \<le> limbs s" by simp
    moreover have "2 * limbs s < 32 * 32 ^ 25" using that(3) by simp
    ultimately have d: "booth_sum 32 (limbs s) 25 = booth_digit 32 (booth_window 32 (limbs s) 25)"
      "booth_window 32 (limbs s) 25 < 32"
      using booth_sum_top [of 32 16 "limbs s" 25] by simp_all
    obtain sel sign where b: "boothW5 (scan_window 0x3f 64 s 124) = (sel, sign)"
      by (cases "boothW5 (scan_window 0x3f 64 s 124)")
    then have "0 \<le> sel" "sel \<le> 16" "sel = booth_sum 32 (limbs s) 25"
      using boothW5_digit [of "scan_window 0x3f 64 s 124"] d w by auto
    then show ?thesis using that(1) by (simp add: b table_of_def)
  qed
  have "multiple gen t0 (booth_sum 32 (limbs s1) (Suc 24) * m1 + booth_sum 32 (limbs s2) (Suc 24) * m2)"
    unfolding t0_def using multiple_add [OF top [OF tab(1) len(1) b(1)] top [OF tab(2) len(2) b(2)]] by simp
  then have l: "multiple gen (mul_loop tab1 tab2 s1 s2 124 t0) (booth_sum 32 (limbs s1) 1 * m1 + booth_sum 32 (limbs s2) 1 * m2)"
    using mul_loop_multiple [OF tab len, of 24 t0] by simp
  have w: "uint (low_window 0x3f s1) = booth_window 32 (limbs s1) 0" "uint (low_window 0x3f s2) = booth_window 32 (limbs s2) 0"
    by (rule low_window5; rule len)+
  have K: "limbs s = 32 * booth_sum 32 (limbs s) 1 + booth_digit 32 (booth_window 32 (limbs s) 0)" for s
    using booth_sum5 [of "limbs s" 0] booth_sum_bottom [of 32 "limbs s"] by simp
  show ?thesis
  proof (rule multiple_weight)
    show "multiple gen (add_window tab2 (low_window 0x3f s2) (add_window tab1 (low_window 0x3f s1)
        (double5 (mul_loop tab1 tab2 s1 s2 124 t0))))
      (32 * (booth_sum 32 (limbs s1) 1 * m1 + booth_sum 32 (limbs s2) 1 * m2)
        + booth_digit 32 (uint (low_window 0x3f s1)) * m1 + booth_digit 32 (uint (low_window 0x3f s2)) * m2)"
      using w booth_window_bounds by (intro add_window_multiple tab double5_multiple l) simp_all
    show "32 * (booth_sum 32 (limbs s1) 1 * m1 + booth_sum 32 (limbs s2) 1 * m2)
        + booth_digit 32 (uint (low_window 0x3f s1)) * m1 + booth_digit 32 (uint (low_window 0x3f s2)) * m2
      = limbs s1 * m1 + limbs s2 * m2"
      unfolding w by (subst (5 6) K) (simp add: algebra_simps)
  qed
qed

text \<open>The endomorphism: \<open>\<beta>\<close> is a cube root of one, so \<open>(\<beta> x, y)\<close> is on the curve when \<open>(x, y)\<close> is.\<close>

lemma beta_val:
  "gfp_ok beta" "gfp_val beta = to_fp 0xf300000002a3a6f2780272354f8b78f4d5fc11967be65333"
  "gfp_val beta ^ 3 = 1" "gfp_val beta \<noteq> 1"
proof -
  let ?b = "0xf300000002a3a6f2780272354f8b78f4d5fc11967be65333 :: int"
    and ?b2 = "0xb640000002a3a6f0e303ab4ff2eb2052a9f02115caef75e70f738991676af249 :: int"
  show "gfp_ok beta" by (simp add: gfp_ok_def beta_def Sm9_p_def)
  show v: "gfp_val beta = to_fp ?b" unfolding gfp_val_def
    by (rule to_fp_eqI [where q = "0x5e1062caa8ae425c098481820ca0bcb4cbb8a74c358d390273507fb3e0f78f95"])
      (simp add: beta_def Rinv_def Sm9_p_def)
  have "to_fp (?b * ?b) = to_fp ?b2"
    by (rule to_fp_eqI [where q = "0x14400000002589466e0011650962c7760"]) (simp add: Sm9_p_def)
  moreover have "to_fp (?b2 * ?b) = to_fp 1"
    by (rule to_fp_eqI [where q = "0xf300000002a3a6f1340272354d32e48df5fafb45e5b9dbd2"]) (simp add: Sm9_p_def)
  ultimately show "gfp_val beta ^ 3 = 1" unfolding v power3_eq_cube
    by (simp only: to_fp_mult to_fp_of_int) simp
  have "to_fp ?b \<noteq> to_fp 1" by (simp only: to_fp_eq_iff) (simp add: Sm9_p_def)
  then show "gfp_val beta \<noteq> 1" by (simp add: v to_fp_of_int)
qed

lemma endo_pt:
  assumes "curve_pt a (x, y)"
  shows "curve_pt (endo a) (gfp_val beta * x, y)"
proof -
  have "gfp_val beta * x * (gfp_val beta * x) * (gfp_val beta * x) = gfp_val beta ^ 3 * (x * x * x)"
    by (simp add: power3_eq_cube algebra_simps)
  then have "gfp_val beta * x * (gfp_val beta * x) * (gfp_val beta * x) = x * x * x" by (simp add: beta_val(3))
  then show ?thesis using assms beta_val(1)
    by (simp add: curve_pt_def curve_ok_def endo_def gfp_rules on_curve_def jac_rep_def mult.assoc)
qed

lemma endo_ok: "curve_ok a \<Longrightarrow> curve_ok (endo a)"
  by (simp add: curve_ok_def endo_def beta_val gfp_rules)

definition mul_gen :: "curvePoint \<Rightarrow> curvePoint \<Rightarrow> int \<Rightarrow> bool" where
  "mul_gen a P m \<longleftrightarrow> P = a \<and> m = 1 \<or> P = endo a \<and> m = lambda"

lemma curvePoint_Mul_multiple:
  assumes gok: "\<And>Q n. gen Q n \<Longrightarrow> curve_ok Q" and gens: "multiple gen a w" "multiple gen (endo a) (lambda * w)"
  shows "\<exists>R m. curvePoint_Mul a k = Some R \<and> multiple gen R (m * w) \<and> m mod Order = k mod Order \<and> curve_ok R"
proof -
  obtain k1 k2 g1 g2 where sp: "splitK_bigint k = (k1, k2, g1, g2)" by (cases "splitK_bigint k")
  then have sum: "(k1 + k2 * lambda) mod Order = k mod Order" and g: "g1 = sgn k1" "g2 = sgn k2"
    using splitK_sum [of k] by simp_all
  have b: "\<bar>k1\<bar> < 2 ^ 128" "\<bar>k2\<bar> < 2 ^ 128" using splitK_bounds [of k] sp by simp_all
  obtain s1 where s1: "fromBig 2 k1 = Some s1" "length s1 = 2" "limbs s1 = \<bar>k1\<bar>"
    using fromBig_some [of k1 2] b by auto
  obtain s2 where s2: "fromBig 2 k2 = Some s2" "length s2 = 2" "limbs s2 = \<bar>k2\<bar>"
    using fromBig_some [of k2 2] b by auto
  have start: "\<exists>n. multiple gen (if g = -1 then curvePoint_Neg P else P) n \<and> \<bar>j\<bar> * n = j * m"
    if "multiple gen P m" "g = sgn j" for P m g and j :: int
    using that multiple_neg [OF that(1)] by (cases "j < 0") (auto simp: abs_if sgn_if intro: exI [of _ m])
  from start [OF gens(1) g(1)] obtain n1 where n1: "multiple gen (if g1 = -1 then curvePoint_Neg a else a) n1"
    "\<bar>k1\<bar> * n1 = k1 * w" by auto
  from start [OF gens(2) g(2)] obtain n2 where n2: "multiple gen (if g2 = -1 then curvePoint_Neg (endo a) else endo a) n2"
    "\<bar>k2\<bar> * n2 = k2 * (lambda * w)" by auto
  let ?z = "\<lparr>mt_t0 = zero_point, mt_t1 = zero_point, mt_t2 = zero_point, mt_t3 = zero_point,
      mt_temp = zero_point, mt_temp2 = zero_point\<rparr>"
  obtain tab1 st1 where f1: "fill_table ?z (if g1 = -1 then curvePoint_Neg a else a) = (tab1, st1)"
    by (cases "fill_table ?z (if g1 = -1 then curvePoint_Neg a else a)")
  obtain tab2 st2 where f2: "fill_table st1 (if g2 = -1 then curvePoint_Neg (endo a) else endo a) = (tab2, st2)"
    by (cases "fill_table st1 (if g2 = -1 then curvePoint_Neg (endo a) else endo a)")
  have tabs: "table_of gen tab1 n1" "table_of gen tab2 n2"
    using fill_table_multiples [OF n1(1) gok, where st = "?z"] fill_table_multiples [OF n2(1) gok, where st = st1] f1 f2 by simp_all
  have "limbs s1 < 2 ^ 128" "limbs s2 < 2 ^ 128" using s1(3) s2(3) b by (simp_all only:)
  note fin = mul_windows [OF tabs s1(2) s2(2) this, where c = "mt_t0 st2"]
  have "\<exists>R. curvePoint_Mul a k = Some R \<and> multiple gen R (limbs s1 * n1 + limbs s2 * n2)"
    unfolding curvePoint_Mul_def sp prod.case s1(1) s2(1) option.case Let_def f1 f2
    using fin by (intro exI conjI) (rule refl)
  then obtain R where R: "curvePoint_Mul a k = Some R" "multiple gen R (limbs s1 * n1 + limbs s2 * n2)" by blast
  moreover have "limbs s1 * n1 + limbs s2 * n2 = (k1 + k2 * lambda) * w"
    using s1(3) s2(3) n1(2) n2(2) by (simp add: algebra_simps)
  moreover have "curve_ok R" by (rule multiple_ok [OF R(2) gok])
  ultimately show ?thesis using sum by auto
qed

section \<open>Multiplication of the generator\<close>

text \<open>
  The multiples of the generator in Jacobian coordinates, \<open>g32 ! k\<close> for the multiple \<open>k + 1\<close>; the array has
  one row more than its literal, which is zero.
\<close>

definition g32 :: "u64 list list" where
  "g32 =
  [[0x22e935e29860501b, 0xa946fd5e0073282c, 0xefd0cec817a649be, 0x5129787c869140b5, 0xee779649eb87f7c7, 0x15563cbdec30a576, 0x326353912824efbf, 0x7215717763c39828, 0x1a9064d81caeba83, 0xde0d6cb4e5851124, 0x29fc54b00a7138ba, 0x49bffffffd5c590e],
   [0x4b1315758013ba8a, 0xc1766d14e5c40522, 0xc2934a22bcdb3562, 0x2b25f38ad2488ddf, 0xd1a4e6f3617676af, 0x35e083458214cbb, 0x5b50be741c809b69, 0x2adc9853c8e95baf, 0xf77f916bf3beaa11, 0x8b9e630bde65c11, 0x8ec2fbd25abb1839, 0x2deae2eec4e3895e],
   [0x55ca89163d966593, 0xeb61bdf266fad7fe, 0x930cc3c2953ed25b, 0x3b3d7c9b40e5f7cb, 0xa4885d1647a56f19, 0x2f01a68b2c78f57, 0xa16c9eaed4f2fe97, 0x6f296770cf1d9955, 0x72c7b851f4713332, 0xf0397231f1dde474, 0x7cde4cec21a47ff0, 0x9500c2c507d155],
   [0xc7c5b606a9ad4cb7, 0x5752ce48f2fad90a, 0xfc61137b83e48ff2, 0x3dd2479279089fdb, 0x3bf2b296c4960b41, 0x1d54b3b919fb33cb, 0xd621f25e6658a1e0, 0x3dd928a89728075a, 0x1133c5a4eb41e1cc, 0x16b04348e11b283b, 0xbc7b33abaeb1d7f, 0xa518ec079964e1c3],
   [0xacd063dc8b82dc22, 0x3d405779552b1de8, 0x6f341ce0ddc31bb2, 0x21312b65e9e3a053, 0x39627269dd774051, 0x6f94cff3d4ea855c, 0xe546254135ea4710, 0x8a0337f3a56691c5, 0xe1073def6c46f62, 0x7b12c98e22de92cf, 0x15246128f053640f, 0x1c2956aebb8a4ab7],
   [0x80cb385aabd18359, 0xff47a036aea57692, 0xa963c091620c3d7c, 0x2d77216e1a972c0e, 0xfbcf3f7dc3750bf9, 0xb1605dfac3410f6d, 0xb8833403c9f5ed1f, 0x4fa582d15715862f, 0xc4c4be420820573b, 0x954e4b238620e81a, 0xc3b5906a27ee1e08, 0x2d0fc12d78ab5513],
   [0x36a711d0bb47e05a, 0x361c09f5f50d6836, 0x4784f00d78c872a6, 0x3d23c50c347ca9bb, 0x8762c6b78f7f74f0, 0x39fe396d30f24a78, 0x47aba03fceea989c, 0x49b1356bdf203d86, 0x6e40555271b00723, 0x38ae38dad39edee9, 0xda56bf13f955d372, 0x645cce4f4a9bf1d1],
   [0x44949441c9015e1a, 0xdfd9ba223220330b, 0xde7d2586b318fa09, 0x89d49975bf5c116d, 0xbcca9dfb0d844882, 0xb3a4a2054f5afaa, 0x1edf67cd2a2ce709, 0xa041d227906ab04, 0xb53545ee77804ad7, 0x9664cbea81f4b6d0, 0xcf7eadbf7e93cc93, 0x5fda931291b8a1e6],
   [0xe17d57a9f8fa63df, 0x618dca119f98e568, 0x4f03420981d1c310, 0x173574c676ad3235, 0xddd501c345ff8d28, 0x2ea3f364852f7062, 0x47b699ef07ce21cd, 0xade77ee93cd104de, 0x9acfb3264074ab43, 0xcfe98048753944a, 0x771498a60cafc103, 0x4cdf2529c48c2b85],
   [0xb8e5135d7fc89827, 0x4706d5241a131d11, 0xff19d594bbeeca63, 0x7fadc28a3b848268, 0x3b5504b424eb48c5, 0xe70b2949b0eab29e, 0xadf9f583bb53f58, 0x9268cac3c058cdb1, 0x968146aec2c9d241, 0x2f667c336af0a384, 0x9945fe61b1b11739, 0x5142f477baf28187],
   [0xf79b4e207359c3e8, 0x859d8e82097d1fd3, 0xfba85b4a4459a850, 0x390390dfaff45f6d, 0x80e9b1ba48f2bb58, 0x5ece495ca45e7e7a, 0x786586a390b1d640, 0x8795d5c9b9feafec, 0x5e7e2c0cc578326e, 0xa9d08d3933ebe06b, 0x6c75774f9526257e, 0x93afe2137c381d30],
   [0xda5052bbe4803d9, 0x84eff24e72f42559, 0x5019b9e6bcdf64dd, 0x7b472f076a967384, 0x2180741bd3933ef3, 0xdcfe902a9279892e, 0x156d34b6c8ae16a5, 0x2e7b08518d99c479, 0x99030644615bf8be, 0xcc262957d7035f92, 0xb354a75e2e1e39d4, 0xb8dbc7bc3ff1a28],
   [0x3a89d14e5474b63a, 0xd474f4a02c381de2, 0x2ecec43d29079790, 0x1ac52eb0e852f59d, 0x222fcdc5f99c013a, 0xec4808ad0211a424, 0x9ec192af1957a349, 0x14ade8b69c8fa5e3, 0x6193a5e40ca25a9a, 0x442fe8e0083fd4b1, 0xb65da4567e8f60fb, 0xf231d00a2f0cf9d],
   [0xebbb083102317e6, 0xc3a365142d701e78, 0xe8acfec088e7c9bc, 0x190ffb5b0c84ba0c, 0xd1d39181e913efc5, 0x3010b6a3ee6977d3, 0x128f3b80c3cd7846, 0x832b85ae9d053b75, 0x2064057515c012f2, 0x6d165fc40a0227d7, 0x7677e5f116b3a3e5, 0x9cc276699c36b48c],
   [0x67b219218d5966a, 0x290d3bcdb14df588, 0x6278338020e507cb, 0x5abbb37037e95c22, 0x67a63e58bb700364, 0x4d61f457c17b6586, 0xac0feae3076f8c90, 0x5d42f13850e9d4f0, 0xf87dc37f29d39cfb, 0x11727eda3ba868e6, 0xd8ac59434c393565, 0x8f8b85755bac5659],
   [0xfbd81f4322ebff5d, 0x799911b6e64d777a, 0x2f7d30872bed9d14, 0x132d426d0b88f62e, 0x9b17a424bda60838, 0x280e5b4595ba5fd8, 0xf95d2889227d62f4, 0x667c25ef6d65ec2d, 0x95682ebdf3f17c81, 0x952da4be3ddcf492, 0xdbc9d30fe785ba6a, 0xa5c7207807bfa985],
   [0x5ef1fd0d7b3f69f4, 0xe98ecc5bc1566b52, 0x187b3662171f4c10, 0x9155fe311d25379f, 0x9851a7885be9207, 0xd6eb2f9120fb527, 0x367be4efa57b68c3, 0x86866e3c1133897c, 0xa8006df7cd1b6956, 0xcf5be8db2a3de350, 0xd7e2abd10214889b, 0xaff383a649bd1daa],
   [0xca6600fadce0a128, 0x3d5108c2ec21c71, 0xc63b4530b873c71, 0x60b742c35ad735e7, 0x1f5221c3e4d21f9d, 0xa6647b6879b87efc, 0xd4a776b20d79837e, 0xc1d507ca6278782, 0x22d59a03943c3f3d, 0x4e079856bb6e6fc3, 0xd022bf114b40bb5a, 0x916cb328382084fd],
   [0x6e05798d846bb754, 0xefa37d0d5e222e91, 0x5ea28eda3588d2e1, 0xc65563e49331a47, 0xd2463bfcdf8b7701, 0x53b2d737ff08132b, 0x2c10bca4e525dd92, 0x9bed1a5c60f946cd, 0x5e31196168a522ea, 0xc5291ad8c678cc20, 0x11717ee8455808e, 0x5e05d7230ca51bb8],
   [0x27003dd5e61db81e, 0x7a099325722a64f2, 0x7c428d7ec89d2133, 0x71cb37af34a38363, 0x8212188c3a6f2b12, 0xfdfa1fb914925958, 0x277ea3132e3aac1f, 0xa4c33887779aa3f9, 0xe7a60cfbb9d63c6f, 0x177cc2f8f9e281d7, 0x3eb743a5b0d377b2, 0x7ab0feac2f30cf5e],
   [0xe694524bd8c75a36, 0x4a4f4900a90f5faa, 0xeb6ebc036c8ab765, 0x22476b4e25509186, 0xd039f0c073e7b2d6, 0x801b571f6d2aa8b2, 0x8ba7d77f1a4927b7, 0xafb3bc9f5e7ba8a7, 0x8b84e7ef2eb45490, 0xa5cdc51dea6b2a28, 0x233ea9a9ca4f110a, 0x6f559bfddcb5596f],
   [0x799d8b2f3ea582a5, 0x13276fc39e5099cd, 0xe2c17dc08283530a, 0x36fb60b15f86d241, 0x33b3fa8b87ff9e3a, 0x9d41e09c7eb8dcb0, 0x95fcd658df9eb864, 0x64dfa75f9e52e5c4, 0x4e9ac90fc078f04d, 0xe8de2306ddd45921, 0x8c24a059aa2ffe33, 0x8c995ac97a0fe063],
   [0x38eca76390bb113a, 0x2f0b4e54ee6356f5, 0xe3aaca2ffa8d6996, 0x627f1afbc2ee2214, 0x9061b4d4ea3363bb, 0x94d47bdd148e9be4, 0x5994c59683bfe915, 0x567396336d3a2689, 0xe85a21665b54a106, 0x831529fbb411936b, 0x5c04e2e23ebdc807, 0xd7a32537cce3d22],
   [0x408dc8873f0aa53c, 0xd31293fef7b352b4, 0x232d9654ef09e4cb, 0x3ff6ef4312f65ba3, 0xa7afc6f996cd707e, 0xb8291cd8d54d0a12, 0x3719569dc08d80c6, 0x1285435f338cd01c, 0xec437cebc2740e1d, 0x227542827e3c9493, 0xe7a9ef1b5335e092, 0xde97620de838602],
   [0xb113f6e7813cefbf, 0x68d5f1014691f30e, 0x59e60ba7d4d6031b, 0x8ffcfd3896976532, 0xe4ac614a60d2de5f, 0x1f63288f500690f6, 0x2bd59886d99ca3a1, 0xafc1a645ed2aa9f0, 0x54f6a9c0fccb7fcc, 0x884f244f369ead5b, 0x97ec1d2a44d15f98, 0x1c59e630b0b95602],
   [0x9a832df67c1fb660, 0x39b474439d65e5f5, 0x4278a075e13d6660, 0x229d0cb37a2a6db9, 0x634c7db232f8c5ca, 0x5de621787aefde5c, 0xd371d496dad5a127, 0x36e690172d6fdbbf, 0x20e243fcca373cbc, 0x9efd3b7bde0d3c80, 0x8e2cb568d414cfc6, 0x1eaebb6ab29a5410],
   [0x36c373d9497dde0b, 0x1725701832f5cb7d, 0xb820e4f58f90ee81, 0x7ec3f29a480739e2, 0x4a70394b1d5ef22a, 0xd3aec7524385a703, 0x9043abe590c46836, 0xa9b1ef78feb1864, 0xc44e6fd54b2fb679, 0x58311e62cddac409, 0x4e3a0f2387b1feae, 0xcebc79ac74372fc],
   [0x487699a0cb9d15fc, 0x44394aa6554cd8a2, 0x9c20a7e124f3c8e8, 0x850f94a4da1d28c0, 0xb0c04241c55a1878, 0x685315db6f20dcc8, 0x539c0076e5e1b7ae, 0x8e2ae9770752bcf9, 0x3222716fad7be4de, 0xbee702f16e4ab488, 0xe71cdda5d919015f, 0x3055bfaca8e6487d],
   [0x19dbf18c98f6266f, 0x15d4b9069e1afc4d, 0x5c6c7bb2e0508df6, 0xa2390c76b6ef863f, 0xf157b84106a1d0c2, 0x4e3799701a85d4bc, 0x439a35f9ff8cc096, 0x2dffd18a55c386c5, 0x4bcb8806fe9681f3, 0xd9570902282f5700, 0x7f2aefe1f42fe0fb, 0x77262a4ad9b62855],
   [0x18e33b64dd0917c6, 0xc52702e49e8a0df9, 0x2ce22ca6a5f9b55c, 0xa6cd01f5361b165c, 0x9460528369141c4f, 0x6241262634305079, 0xf9a56860d9746a4, 0x5e7f283f3ac834e1, 0xcb209ef3f4caa077, 0x47aa21c6b089d4ef, 0x85358abdb53abc7d, 0xc94d13e3916f2ac],
   [0xfc3a1c6ba3c00435, 0x90f330ae7f04a58c, 0x7a4a21aa35cf3083, 0x3eb91e6fa015b8bd, 0xf6d3efa9727e5a24, 0xdb006b99294e8a42, 0x5856b38bb14e0b62, 0x5b44c5d4c85ce28, 0x57b144b4133647c5, 0xbce93e0f3833f943, 0x736cc1f130361d9d, 0x8b694b38d769a82b],
   [0x87fbeec59a535668, 0xddedaa36aa5710b4, 0xabba13eeb88c0569, 0x874b6507e1cb3f32, 0x2eb38c7694e903d3, 0xf218742f104a2503, 0xf1975832862bfb34, 0x461d9fec046a16de, 0x4e57f11be9880caa, 0x79c4d66549fdc53, 0x86010bd6bebeaf74, 0x7ddd7c66ca954114],
   replicate 12 0]"

type_synonym base_table = "u64 list list"

definition store_entry :: "u64 list \<Rightarrow> nat \<Rightarrow> gfP \<Rightarrow> gfP \<Rightarrow> u64 list" where
  "store_entry row j x y =
     foldl (\<lambda>row count. (row[j * 8 + count := x ! count])[j * 8 + count + 4 := y ! count]) row [0..<4]"

definition init_entry :: "nat \<Rightarrow> base_table \<times> curvePoint \<Rightarrow> nat \<Rightarrow> base_table \<times> curvePoint" where
  "init_entry j st i =
     (case st of (tab, t1) \<Rightarrow>
        let t1 = if i \<noteq> 0 then ((\<lambda>t1. curvePoint_Double t1 t1) ^^ 6) t1 else t1;
            t1 = normalise t1
        in (tab[i := store_entry (tab ! i) j (cp_x t1) (cp_y t1)], t1))"

definition init_column :: "base_table \<times> curvePoint \<times> curvePoint \<Rightarrow> nat \<Rightarrow> base_table \<times> curvePoint \<times> curvePoint" where
  "init_column st j =
     (case st of (tab, t1, t2) \<Rightarrow>
        let t1 = curvePoint_Set t2
        in case foldl (init_entry j) (tab, t1) [0..<43] of (tab, t1) \<Rightarrow>
          let t2 = if j = 0 then curvePoint_Double t2 curveGen
                else let row = g32 ! (j + 1)
                     in t2\<lparr>cp_x := take 4 row, cp_y := take 4 (drop 4 row), cp_z := take 4 (drop 8 row)\<rparr>
          in (tab, t1, t2))"

definition initTable :: base_table where
  "initTable = fst (foldl init_column (replicate 43 (replicate 256 0), curveGen, curveGen) [0..<32])"

definition table_row :: "base_table \<Rightarrow> nat \<Rightarrow> int \<Rightarrow> u64 list" where
  "table_row tab i sel = take 8 (drop (nat ((sel - 1) * 8)) (tab ! i))"

text \<open>The state of the loop over the windows: the buffer \<open>p\<close>, the sum \<open>t1\<close>, the flag \<open>zero\<close> and \<open>index\<close>.\<close>

record base_state =
  bs_p :: "u64 list"
  bs_t1 :: curvePoint
  bs_zero :: int
  bs_index :: nat

definition base_start :: "base_table \<Rightarrow> u64 list \<Rightarrow> base_state" where
  "base_start tab scalar =
     (case boothW6 (low_window 0x7f scalar) of (sel, sign) \<Rightarrow>
        let p = replicate 12 0;
            p = if 0 < sel
              then table_row tab 0 sel @ [0x1a9064d81caeba83, 0xde0d6cb4e5851124, 0x29fc54b00a7138ba, 0x49bffffffd5c590e]
              else p;
            t1 = curveGen\<lparr>cp_x := take 4 p, cp_y := take 4 (drop 4 p), cp_z := take 4 (drop 8 p)\<rparr>;
            t1 = if sign = 1 then curvePoint_Neg t1 else t1
        in \<lparr>bs_p = p, bs_t1 = t1, bs_zero = sel, bs_index = 5\<rparr>)"

definition base_step :: "base_table \<Rightarrow> u64 list \<Rightarrow> base_state \<Rightarrow> nat \<Rightarrow> base_state" where
  "base_step tab scalar st i =
     (let wvalue = scan_window 0x7f 192 scalar (bs_index st);
          index = bs_index st + 6
      in case boothW6 wvalue of (sel, sign) \<Rightarrow>
        let p = if 0 < sel then table_row tab i sel @ drop 8 (bs_p st) else bs_p st;
            t2x = take 4 p;
            t2y = take 4 (drop 4 p);
            t2y = if sign = 1 then gfpNeg t2y else t2y;
            t1 = if sel \<noteq> 0
              then if bs_zero st = 0 then (bs_t1 st)\<lparr>cp_x := t2x, cp_y := t2y, cp_z := newGFp 1\<rparr>
                   else curvePoint_Add_JA (bs_t1 st) (bs_t1 st) \<lparr>cpa_x = t2x, cpa_y = t2y\<rparr>
              else bs_t1 st
        in \<lparr>bs_p = p, bs_t1 = t1, bs_zero = bs_zero st OR sel, bs_index = index\<rparr>)"

definition sm9BaseMult :: "u64 list \<Rightarrow> curvePoint" where
  "sm9BaseMult scalar =
     bs_t1 (foldl (base_step initTable scalar) (base_start initTable scalar) [1..<43])"

definition sm9CombinedMult :: "curvePoint \<Rightarrow> curvePoint \<Rightarrow> int \<Rightarrow> int \<Rightarrow> curvePoint option" where
  "sm9CombinedMult c H baseScalar scalar =
     (case fromBig 4 baseScalar of None \<Rightarrow> None | Some scalarReversed \<Rightarrow>
        let R1 = if scalarIsZero scalarReversed = 1 then curvePoint_SetInfinity else sm9BaseMult scalarReversed
        in case fromBig 4 scalar of None \<Rightarrow> None | Some scalarReversed \<Rightarrow>
          if scalarIsZero scalarReversed = 1 then Some R1
          else case curvePoint_Mul H scalar of None \<Rightarrow> None | Some R2 \<Rightarrow> Some (curvePoint_Add c R2 R1))"

text \<open>The weights of the constants: the generator, and the rows 2 to 31 of \<open>g32\<close> as 3 to 32 times the generator.\<close>

definition base_gen :: "curvePoint \<Rightarrow> int \<Rightarrow> bool" where
  "base_gen P m \<longleftrightarrow> P = curveGen \<and> m = 1
     \<or> (\<exists>k\<in>{2..31}. cp_x P = take 4 (g32 ! k) \<and> cp_y P = take 4 (drop 4 (g32 ! k)) \<and> cp_z P = take 4 (drop 8 (g32 ! k))
          \<and> m = int k + 1)"

lemma g32_ok: "list_all (\<lambda>row. gfp_ok (take 4 row) \<and> gfp_ok (take 4 (drop 4 row)) \<and> gfp_ok (take 4 (drop 8 row))) g32"
  by (simp add: g32_def gfp_ok_def Sm9_p_def)

lemma base_gen_ok: "base_gen P m \<Longrightarrow> curve_ok P"
proof -
  have "length g32 = 33" by (simp add: g32_def)
  then have "gfp_ok (take 4 (g32 ! k)) \<and> gfp_ok (take 4 (drop 4 (g32 ! k))) \<and> gfp_ok (take 4 (drop 8 (g32 ! k)))"
    if "k \<in> {2..31}" for k
    using g32_ok [unfolded list_all_length, rule_format, of k] that by simp
  then show "base_gen P m \<Longrightarrow> curve_ok P" using curveGen_pt by (auto simp: base_gen_def curve_ok_def curve_pt_def)
qed

definition slice :: "base_table \<Rightarrow> nat \<Rightarrow> nat \<Rightarrow> u64 list" where
  "slice tab i j = take 8 (drop (j * 8) (tab ! i))"

lemma store_entry_slices:
  assumes "length row = 256" "j < 32" "length x = 4" "length y = 4"
  shows "length (store_entry row j x y) = 256"
    and "k < 8 \<Longrightarrow> store_entry row j x y ! (j * 8 + k) = (x @ y) ! k"
    and "i div 8 \<noteq> j \<Longrightarrow> store_entry row j x y ! i = row ! i"
proof -
  let ?k = "j * 8"
  have e: "store_entry row j x y = row[?k := x ! 0, ?k + 4 := y ! 0, ?k + 1 := x ! 1, ?k + 5 := y ! 1,
      ?k + 2 := x ! 2, ?k + 6 := y ! 2, ?k + 3 := x ! 3, ?k + 7 := y ! 3]"
    by (simp add: store_entry_def upt4 add.commute add.left_commute)
  show "length (store_entry row j x y) = 256" by (simp add: e assms(1))
  show "store_entry row j x y ! i = row ! i" if "i div 8 \<noteq> j"
  proof -
    have "i \<noteq> ?k" "i \<noteq> ?k + 1" "i \<noteq> ?k + 2" "i \<noteq> ?k + 3" "i \<noteq> ?k + 4" "i \<noteq> ?k + 5" "i \<noteq> ?k + 6" "i \<noteq> ?k + 7"
      using that by auto
    then show ?thesis by (simp add: e)
  qed
  show "store_entry row j x y ! (?k + k) = (x @ y) ! k" if "k < 8"
  proof -
    have "?k + 7 < length row" using assms by simp
    have "k = 0 \<or> k = 1 \<or> k = 2 \<or> k = 3 \<or> k = 4 \<or> k = 5 \<or> k = 6 \<or> k = 7" using that by presburger
    then show ?thesis using \<open>?k + 7 < length row\<close> by (elim disjE) (simp_all add: e nth_append assms(3))
  qed
qed

lemma slice_store:
  assumes "length tab = 43" "i < 43" "length (tab ! i) = 256" "j < 32" "length x = 4" "length y = 4"
  shows "slice (tab[i := store_entry (tab ! i) j x y]) i j = x @ y"
proof (rule nth_equalityI)
  show "length (slice (tab[i := store_entry (tab ! i) j x y]) i j) = length (x @ y)"
    using assms by (simp add: slice_def store_entry_slices)
  fix k assume "k < length (slice (tab[i := store_entry (tab ! i) j x y]) i j)"
  then have "k < 8" by (simp add: slice_def)
  then show "slice (tab[i := store_entry (tab ! i) j x y]) i j ! k = (x @ y) ! k"
    using assms by (simp add: slice_def store_entry_slices)
qed

lemma slice_store_other:
  assumes "length tab = 43" "i < 43" "\<forall>i<43. length (tab ! i) = 256" "j < 32" "length x = 4" "length y = 4"
    and "i' < 43" "j' < 32" "i' \<noteq> i \<or> j' \<noteq> j"
  shows "slice (tab[i := store_entry (tab ! i) j x y]) i' j' = slice tab i' j'"
proof (cases "i' = i")
  case True
  then have "j' \<noteq> j" using assms by simp
  show ?thesis
  proof (rule nth_equalityI)
    show "length (slice (tab[i := store_entry (tab ! i) j x y]) i' j') = length (slice tab i' j')"
      using assms True by (simp add: slice_def store_entry_slices)
    fix k assume "k < length (slice (tab[i := store_entry (tab ! i) j x y]) i' j')"
    then have k: "k < 8" by (simp add: slice_def)
    then have "(j' * 8 + k) div 8 \<noteq> j" using \<open>j' \<noteq> j\<close> by simp
    then show "slice (tab[i := store_entry (tab ! i) j x y]) i' j' ! k = slice tab i' j' ! k"
      using assms True k by (simp add: slice_def store_entry_slices)
  qed
qed (use assms in \<open>simp add: slice_def\<close>)

definition affine_point :: "u64 list \<Rightarrow> curvePoint" where
  "affine_point s = \<lparr>cp_x = take 4 s, cp_y = drop 4 s, cp_z = newGFp 1, cp_t = newGFp 1\<rparr>"

definition table_good :: "(curvePoint \<Rightarrow> int \<Rightarrow> bool) \<Rightarrow> base_table \<Rightarrow> nat \<Rightarrow> nat \<Rightarrow> bool" where
  "table_good gen tab i j \<longleftrightarrow> length (slice tab i j) = 8 \<and> multiple gen (affine_point (slice tab i j)) ((int j + 1) * 64 ^ i)"

definition table_shape :: "base_table \<Rightarrow> bool" where
  "table_shape tab \<longleftrightarrow> length tab = 43 \<and> (\<forall>i<43. length (tab ! i) = 256)"

lemma double6_multiple:
  assumes "multiple gen t1 n"
  shows "multiple gen (((\<lambda>t1. curvePoint_Double t1 t1) ^^ k) t1) (2 ^ k * n)"
proof (induction k)
  case (Suc k)
  show ?case using multiple_double [OF Suc] by (simp add: mult.assoc)
qed (simp add: assms)

lemma store_good:
  assumes gok: "\<And>Q n. gen Q n \<Longrightarrow> curve_ok Q" and j: "j < 32" and i: "i < 43"
    and shape: "table_shape tab"
    and old: "\<forall>i'<43. \<forall>j'<32. j' < j \<or> j' = j \<and> i' < i \<longrightarrow> table_good gen tab i' j'"
    and v: "multiple gen v ((int j + 1) * 64 ^ i)" and z: "cp_z v = newGFp 1"
  shows "table_shape (tab[i := store_entry (tab ! i) j (cp_x v) (cp_y v)])
    \<and> (\<forall>i'<43. \<forall>j'<32. j' < j \<or> j' = j \<and> i' < Suc i \<longrightarrow>
          table_good gen (tab[i := store_entry (tab ! i) j (cp_x v) (cp_y v)]) i' j')"
proof -
  have len: "length (cp_x v) = 4" "length (cp_y v) = 4"
    using multiple_ok [OF v gok] by (simp_all add: curve_ok_def gfp_ok_def)
  define tab' where "tab' = tab[i := store_entry (tab ! i) j (cp_x v) (cp_y v)]"
  have "table_shape tab'"
    using shape len j i by (auto simp: table_shape_def tab'_def nth_list_update store_entry_slices)
  moreover have "table_good gen tab' i j"
    unfolding table_good_def tab'_def using shape len i j v
    by (subst (1 2) slice_store) (auto simp: table_shape_def affine_point_def z intro: multiple_same [OF v])
  moreover have "table_good gen tab' i' j'" if "i' < 43" "j' < 32" "j' < j \<or> j' = j \<and> i' < i" for i' j'
  proof -
    have "slice tab' i' j' = slice tab i' j'"
      unfolding tab'_def using shape len i j that by (intro slice_store_other) (auto simp: table_shape_def)
    moreover have "table_good gen tab i' j'" using old that by blast
    ultimately show ?thesis by (simp only: table_good_def)
  qed
  ultimately show ?thesis by (auto simp: less_Suc_eq simp flip: tab'_def)
qed

lemma init_entry_step:
  assumes gok: "\<And>Q n. gen Q n \<Longrightarrow> curve_ok Q" and j: "j < 32" and i: "i < 43"
    and shape: "table_shape tab"
    and old: "\<forall>i'<43. \<forall>j'<32. j' < j \<or> j' = j \<and> i' < i \<longrightarrow> table_good gen tab i' j'"
    and t1: "multiple gen t1 (if i = 0 then int j + 1 else (int j + 1) * 64 ^ (i - 1))"
  shows "case init_entry j (tab, t1) i of (tab', t1') \<Rightarrow> table_shape tab'
    \<and> (\<forall>i'<43. \<forall>j'<32. j' < j \<or> j' = j \<and> i' < Suc i \<longrightarrow> table_good gen tab' i' j')
    \<and> multiple gen t1' ((int j + 1) * 64 ^ i)"
proof -
  define u where "u = (if i \<noteq> 0 then ((\<lambda>t1. curvePoint_Double t1 t1) ^^ 6) t1 else t1)"
  have u: "multiple gen u ((int j + 1) * 64 ^ i)"
  proof (cases "i = 0")
    case False
    then have "(64 :: int) ^ i = 64 * 64 ^ (i - 1)" by (cases i) auto
    then show ?thesis using False double6_multiple [OF t1, of 6] by (simp add: u_def algebra_simps)
  qed (use t1 in \<open>simp add: u_def\<close>)
  define v where "v = normalise u"
  have v: "multiple gen v ((int j + 1) * 64 ^ i)" unfolding v_def by (rule multiple_normalise [OF u])
  have z: "cp_z v = newGFp 1" by (simp add: v_def normalise_def Let_def)
  have e: "init_entry j (tab, t1) i = (tab[i := store_entry (tab ! i) j (cp_x v) (cp_y v)], v)"
    by (simp add: init_entry_def Let_def u_def v_def)
  show ?thesis unfolding e prod.case
    using store_good [OF gok j i shape old v z] v by simp
qed

lemma init_column_step:
  assumes j: "j < 32" and shape: "table_shape tab"
    and old: "\<forall>i'<43. \<forall>j'<32. j' < j \<longrightarrow> table_good base_gen tab i' j'"
    and t2: "multiple base_gen t2 (int j + 1)"
  shows "case init_column (tab, t1, t2) j of (tab', t1', t2') \<Rightarrow> table_shape tab'
    \<and> (\<forall>i'<43. \<forall>j'<32. j' < Suc j \<longrightarrow> table_good base_gen tab' i' j')
    \<and> (Suc j < 32 \<longrightarrow> multiple base_gen t2' (int (Suc j) + 1))"
proof -
  define I where "I = (\<lambda>i (tab, t1). table_shape tab
    \<and> (\<forall>i'<43. \<forall>j'<32. j' < j \<or> j' = j \<and> i' < i \<longrightarrow> table_good base_gen tab i' j')
    \<and> multiple base_gen t1 (if i = 0 then int j + 1 else (int j + 1) * 64 ^ (i - 1)))"
  obtain tab' t1' where f: "foldl (init_entry j) (tab, t2) [0..<43] = (tab', t1')"
    by (cases "foldl (init_entry j) (tab, t2) [0..<43]")
  have "I 43 (foldl (init_entry j) (tab, t2) [0..<43])"
  proof (rule foldl_upt_invariant)
    show "I 0 (tab, t2)" using shape old t2 by (simp add: I_def)
    fix i s assume "i < 43" "I i s"
    then show "I (Suc i) (init_entry j s i)"
      using init_entry_step [OF base_gen_ok j, where i = i and tab = "fst s" and ?t1.0 = "snd s"] by (auto simp: I_def split: prod.splits)
  qed simp
  then have I: "I 43 (tab', t1')" by (simp only: f)
  define t2' where "t2' = (if j = 0 then curvePoint_Double t2 curveGen
    else t2\<lparr>cp_x := take 4 (g32 ! (j + 1)), cp_y := take 4 (drop 4 (g32 ! (j + 1))), cp_z := take 4 (drop 8 (g32 ! (j + 1)))\<rparr>)"
  have e: "init_column (tab, t1, t2) j = (tab', t1', t2')"
    by (simp add: init_column_def Let_def curvePoint_Set_def f t2'_def)
  have "multiple base_gen t2' (int (Suc j) + 1)" if "Suc j < 32"
  proof (cases "j = 0")
    case True
    have "multiple base_gen curveGen 1" by (rule multiple_gen) (simp add: base_gen_def)
    from multiple_double [OF this] show ?thesis using True by (simp add: t2'_def)
  next
    case False
    then show ?thesis using that
      by (intro multiple_gen) (auto simp: base_gen_def t2'_def intro!: bexI [of _ "Suc j"])
  qed
  then show ?thesis using I by (auto simp: e I_def less_Suc_eq)
qed

lemma initTable_good:
  "table_shape initTable \<and> (\<forall>i<43. \<forall>j<32. table_good base_gen initTable i j)"
proof -
  define J where "J = (\<lambda>j (tab, t1 :: curvePoint, t2). table_shape tab
    \<and> (\<forall>i'<43. \<forall>j'<32. j' < j \<longrightarrow> table_good base_gen tab i' j')
    \<and> (j < 32 \<longrightarrow> multiple base_gen t2 (int j + 1)))"
  have "J 32 (foldl init_column (replicate 43 (replicate 256 0), curveGen, curveGen) [0..<32])"
  proof (rule foldl_upt_invariant)
    have "multiple base_gen curveGen 1" by (rule multiple_gen) (simp add: base_gen_def)
    then show "J 0 (replicate 43 (replicate 256 0), curveGen, curveGen)" by (simp add: J_def table_shape_def)
    fix j s assume "j < 32" "J j s"
    then show "J (Suc j) (init_column s j)"
      using init_column_step [where j = j and tab = "fst s" and ?t2.0 = "snd (snd s)" and ?t1.0 = "fst (snd s)"] by (auto simp: J_def split: prod.splits)
  qed simp
  then show ?thesis by (auto simp: J_def initTable_def split: prod.splits)
qed

text \<open>The windows of six bits: window \<open>i > 0\<close> starts at bit \<open>6 i - 1\<close>.\<close>

lemma mask7: "(0x7f :: u64) = mask 7"
  by (simp add: mask_eq_exp_minus_1)

lemma window_index6:
  fixes K :: int
  assumes "1 \<le> i"
  shows "K div 2 ^ (6 * i - 1) = 2 * K div 64 ^ i"
proof -
  have "(64 :: int) ^ i = 2 ^ (6 * i)" by (simp add: power_mult)
  also have "\<dots> = 2 * 2 ^ (6 * i - 1)" using assms by (simp flip: power_Suc)
  finally have "2 * K div 64 ^ i = (2 * K) div (2 * 2 ^ (6 * i - 1))" by (simp only:)
  also have "\<dots> = K div 2 ^ (6 * i - 1)" by (rule div_mult_mult1) simp
  finally show ?thesis by (rule sym)
qed

lemma scan_window6:
  assumes "length s = 4" "1 \<le> i" "i \<le> 42"
  shows "uint (scan_window 0x7f 192 s (6 * i - 1)) = booth_window 64 (limbs s) i"
proof -
  have "6 * i - 1 < 64 * length s" using assms by simp
  then have "uint (scan_window (mask 7) (64 * 3) s (6 * i - 1)) = limbs s div 2 ^ (6 * i - 1) mod 2 ^ 7"
    using assms(1) by (intro scan_window_val) simp_all
  then show ?thesis unfolding mask7 window_index6 [OF assms(2)] booth_window_def by simp
qed

lemma low_window6:
  assumes "length s = 4"
  shows "uint (low_window 0x7f s) = booth_window 64 (limbs s) 0"
  using low_window_val [of s 7] assms by (simp add: mask7 booth_window_def)

lemma booth_sum6: "booth_sum 64 K i = 64 * booth_sum 64 K (Suc i) + booth_digit 64 (booth_window 64 K i)"
  by (rule booth_sum_step [where h = 32]) simp_all

lemma booth_window6_bounds: "0 \<le> booth_window 64 K i" "booth_window 64 K i < 128"
  by (simp_all add: booth_window_def)

text \<open>What the windows below number \<open>i\<close> contribute, and how far it is from a multiple of \<open>64 ^ i\<close>.\<close>

definition base_low :: "int \<Rightarrow> nat \<Rightarrow> int" where
  "base_low K i = K - 64 ^ i * booth_sum 64 K i"

lemma base_low_Suc: "base_low K (Suc i) = base_low K i + booth_digit 64 (booth_window 64 K i) * 64 ^ i"
  by (simp add: base_low_def booth_sum6 [of K i] algebra_simps)

lemma base_low_bound:
  assumes "0 < i"
  shows "2 * \<bar>base_low K i\<bar> \<le> 64 ^ i"
proof -
  obtain h where h: "(64 :: int) ^ i = 2 * h" "0 < h" using assms by (cases i) auto
  define q r where "q = K div 64 ^ i" and "r = K mod 64 ^ i"
  have K: "K = 64 ^ i * q + r" by (simp add: q_def r_def)
  have r: "0 \<le> r" "r < 2 * h" using h by (simp_all add: r_def)
  have "2 * K div 64 ^ i = K div h" unfolding h(1) by simp
  also have "\<dots> = 2 * q + r div h" unfolding K h(1) using h(2) by (simp add: mult.assoc mult.left_commute)
  finally have "2 * K div 64 ^ i mod 2 = r div h mod 2" by simp
  moreover have "r div h = (if r < h then 0 else 1)"
    using r by (auto intro: int_div_pos_eq [where r = "r - h"])
  ultimately have "2 * K div 64 ^ i mod 2 = (if r < h then 0 else 1)" by simp
  then have "booth_sum 64 K i = q + (if r < h then 0 else 1)" by (simp only: booth_sum_def q_def)
  then have "base_low K i = 64 ^ i * q + r - 64 ^ i * (q + (if r < h then 0 else 1))"
    by (simp only: base_low_def K [symmetric])
  then have "base_low K i = r - (if r < h then 0 else 2 * h)"
    by (cases "r < h") (simp_all add: h(1) algebra_simps)
  then show ?thesis using r by (simp add: h(1))
qed

text \<open>The one scalar for which the last addition of \<open>sm9BaseMult\<close> meets two equal points.\<close>

definition base_bad :: int where
  "base_bad = 11 * 2 ^ 253 - Order"

lemma base_addition_distinct:
  assumes "0 < i" "i \<le> 42" "d \<noteq> 0" "\<bar>d\<bar> \<le> 32" "i = 42 \<Longrightarrow> 0 \<le> d \<and> d \<le> 16 \<and> base_low K 42 + d * 64 ^ 42 \<noteq> base_bad"
  shows "(base_low K i - d * 64 ^ i) mod Order \<noteq> 0"
proof
  assume "(base_low K i - d * 64 ^ i) mod Order = 0"
  then obtain c where c: "base_low K i - d * 64 ^ i = Order * c" by (auto simp: mod_eq_0_iff_dvd dvd_def)
  note b = base_low_bound [OF assms(1), of K]
  show False
  proof (cases "i = 42")
    case True
    have p: "(64 :: int) ^ 42 = 2 ^ 252" by simp
    have d: "1 \<le> d" "d \<le> 16" using assms(3,5) True by auto
    have b': "2 * \<bar>base_low K 42\<bar> \<le> 2 ^ 252" "base_low K 42 - d * 2 ^ 252 = Order * c" using b c True p by simp_all
    then have "c < 0" "- 2 < c" using d by (auto simp: Order_def abs_le_iff)
    then have "c = - 1" by simp
    then have e: "base_low K 42 = d * 2 ^ 252 - Order" using b' by simp
    then have "d = 11" using b'(1) d by (simp add: Order_def abs_le_iff)
    then show False using e assms(5) True by (simp add: base_bad_def Order_def)
  next
    case False
    define x where "x = (64 :: int) ^ i"
    have "x \<le> 64 ^ 41" unfolding x_def using assms(2) False by (intro power_increasing) auto
    then have x: "0 < x" "34 * x < Order" by (simp_all add: x_def Order_def)
    have "\<bar>d * x\<bar> \<le> 32 * x" "x \<le> \<bar>d * x\<bar>" using assms(3,4) x by (auto simp: abs_mult)
    moreover have "2 * \<bar>base_low K i\<bar> \<le> x" "base_low K i - d * x = Order * c" using b c by (simp_all add: x_def)
    ultimately have "\<bar>Order * c\<bar> < Order" "Order * c \<noteq> 0" using x by linarith+
    then show False by (cases "c = 0") (auto simp: abs_mult Order_def)
  qed
qed

lemma table_row_slice:
  assumes "1 \<le> sel"
  shows "table_row tab i sel = slice tab i (nat (sel - 1))"
proof -
  have "nat ((sel - 1) * 8) = nat (sel - 1) * 8" using assms by (subst nat_mult_distrib) simp_all
  then show ?thesis by (simp only: table_row_def slice_def)
qed

text \<open>The table entry selected by a digit, with the sign applied, is the digit's multiple.\<close>

lemma base_entry:
  assumes "boothW6 w = (sel, sign)" "uint w < 128" "0 < sel" "i < 43"
  defines "e \<equiv> table_row initTable i sel"
  shows "length e = 8 \<and> multiple base_gen
      \<lparr>cp_x = take 4 e, cp_y = (if sign = 1 then gfpNeg (drop 4 e) else drop 4 e), cp_z = newGFp 1, cp_t = newGFp 1\<rparr>
      (booth_digit 64 (uint w) * 64 ^ i)"
proof -
  have d: "sel \<le> 32" "(if sign = 1 then - sel else sel) = booth_digit 64 (uint w)"
    using boothW6_digit [OF assms(2)] assms(1) by auto
  have "table_good base_gen initTable i (nat (sel - 1))" using initTable_good d(1) assms(3,4) by simp
  moreover have "e = slice initTable i (nat (sel - 1))" unfolding e_def using assms(3) by (intro table_row_slice) simp
  ultimately have e: "length e = 8" "multiple base_gen (affine_point e) (sel * 64 ^ i)"
    using assms(3) by (simp_all add: table_good_def)
  have "multiple base_gen (if sign = 1 then curvePoint_Neg (affine_point e) else affine_point e)
      (booth_digit 64 (uint w) * 64 ^ i)"
    using e(2) multiple_neg [OF e(2)] by (simp flip: d(2))
  then have "multiple base_gen
      \<lparr>cp_x = take 4 e, cp_y = (if sign = 1 then gfpNeg (drop 4 e) else drop 4 e), cp_z = newGFp 1, cp_t = newGFp 1\<rparr>
      (booth_digit 64 (uint w) * 64 ^ i)"
    by (rule multiple_same) (simp_all add: affine_point_def curvePoint_Neg_def)
  with e(1) show ?thesis by blast
qed

definition base_inv :: "int \<Rightarrow> nat \<Rightarrow> base_state \<Rightarrow> bool" where
  "base_inv K i st \<longleftrightarrow> bs_index st = 6 * i - 1 \<and> length (bs_p st) = 12 \<and> 0 \<le> bs_zero st
     \<and> multiple base_gen (bs_t1 st) (base_low K i) \<and> (bs_zero st = 0 \<longrightarrow> base_low K i = 0)"

lemma gfpNeg_zero: "gfpNeg gfP_zero = gfP_zero"
  using gfp_val_inject [of "gfpNeg gfP_zero" gfP_zero] by (simp add: gfp_rules)

lemma newGFp_one: "newGFp 1 = [0x1a9064d81caeba83, 0xde0d6cb4e5851124, 0x29fc54b00a7138ba, 0x49bffffffd5c590e]"
proof -
  let ?one = "[0x1a9064d81caeba83, 0xde0d6cb4e5851124, 0x29fc54b00a7138ba, 0x49bffffffd5c590e] :: gfP"
  have "gfp_ok ?one" by (simp add: gfp_ok_def Sm9_p_def)
  moreover have "gfp_val ?one = to_fp 1" unfolding gfp_val_def
    by (rule to_fp_eqI [where q = "0x32a6f54e57947be1c8ca1d96404c881230d5deac6a5d84e37f0f4abb494f8fde"]) (simp add: Rinv_def Sm9_p_def)
  then have "gfp_val ?one = gfp_val (newGFp 1)" by (simp add: newGFp_val)
  ultimately show ?thesis using gfp_val_inject [of "newGFp 1" ?one] by (simp add: newGFp_val)
qed

lemma base_start_inv:
  assumes "length s = 4"
  shows "base_inv (limbs s) 1 (base_start initTable s)"
proof -
  let ?w = "low_window 0x7f s"
  have w: "uint ?w = booth_window 64 (limbs s) 0" by (rule low_window6 [OF assms])
  then have w128: "uint ?w < 128" by (simp add: booth_window6_bounds)
  obtain sel sign where b: "boothW6 ?w = (sel, sign)" by (cases "boothW6 ?w")
  then have d: "0 \<le> sel" "(if sign = 1 then - sel else sel) = booth_digit 64 (uint ?w)"
    using boothW6_digit [OF w128] by auto
  have low: "base_low (limbs s) 1 = booth_digit 64 (uint ?w)"
    using base_low_Suc [of "limbs s" 0] by (simp add: w base_low_def booth_sum_bottom)
  show ?thesis
  proof (cases "sel = 0")
    case True
    then have "booth_digit 64 (uint ?w) = 0" using d(2) by (simp split: if_splits)
    moreover have z: "take 4 (replicate 12 0) = gfP_zero" "take 4 (drop 4 (replicate 12 0)) = gfP_zero"
      "take 4 (drop 8 (replicate 12 0)) = gfP_zero"
      by (simp_all add: gfP_zero_def numeral_eq_Suc)
    have "multiple base_gen (if sign = 1 then curvePoint_Neg P else P) 0"
      if "cp_x P = gfP_zero" "cp_y P = gfP_zero" "cp_z P = gfP_zero" for P
      using that by (intro multiple_infinity) (simp_all add: curvePoint_IsInfinity_def curve_ok_def curvePoint_Neg_def gfpNeg_zero)
    moreover have "base_start initTable s =
      (let t1 = curveGen\<lparr>cp_x := gfP_zero, cp_y := gfP_zero, cp_z := gfP_zero\<rparr>
       in \<lparr>bs_p = replicate 12 0, bs_t1 = if sign = 1 then curvePoint_Neg t1 else t1, bs_zero = 0, bs_index = 5\<rparr>)"
      by (simp only: base_start_def b prod.case Let_def True less_irrefl if_False z)
    ultimately show ?thesis unfolding base_inv_def low by (simp add: Let_def split del: if_split)
  next
    case False
    let ?e = "table_row initTable 0 sel"
    have e: "length ?e = 8" "multiple base_gen
        \<lparr>cp_x = take 4 ?e, cp_y = (if sign = 1 then gfpNeg (drop 4 ?e) else drop 4 ?e), cp_z = newGFp 1, cp_t = newGFp 1\<rparr>
        (booth_digit 64 (uint ?w))"
      using base_entry [OF b w128, of 0] False d(1) by auto
    let ?t1 = "curveGen\<lparr>cp_x := take 4 ?e, cp_y := drop 4 ?e, cp_z := newGFp 1\<rparr>"
    have "base_start initTable s = \<lparr>bs_p = ?e @ newGFp 1, bs_t1 = if sign = 1 then curvePoint_Neg ?t1 else ?t1,
        bs_zero = sel, bs_index = 5\<rparr>"
      using False d(1) e(1) by (simp add: base_start_def b Let_def newGFp_one)
    moreover have "multiple base_gen (if sign = 1 then curvePoint_Neg ?t1 else ?t1) (booth_digit 64 (uint ?w))"
      by (rule multiple_same [OF e(2)]) (simp_all add: curvePoint_Neg_def)
    ultimately show ?thesis using False d(1) e(1) unfolding base_inv_def low
      by (simp add: newGFp_one split del: if_split)
  qed
qed

lemma int_or_zero: "0 \<le> a \<Longrightarrow> 0 \<le> b \<Longrightarrow> a OR b = 0 \<longleftrightarrow> a = 0 \<and> b = (0 :: int)"
  by (simp add: or_eq_0_iff)

lemma base_low_top:
  assumes "length s = 4"
  shows "base_low (limbs s) 43 = limbs s"
proof -
  have "limbs s < 2 ^ 256" using limbs_bound [of s] assms by simp
  then have "limbs s div 64 ^ 43 = 0" "2 * limbs s div 64 ^ 43 = 0" by (simp_all add: div_pos_pos_trivial)
  then show ?thesis by (simp only: base_low_def booth_sum_def) simp
qed

lemma base_top_digit:
  assumes "length s = 4"
  shows "0 \<le> booth_digit 64 (booth_window 64 (limbs s) 42) \<and> booth_digit 64 (booth_window 64 (limbs s) 42) \<le> 16"
proof -
  have K: "0 \<le> limbs s" "limbs s < 2 ^ 256" using limbs_bound [of s] assms by simp_all
  then have "2 * limbs s < 64 * 64 ^ 42" by simp
  from booth_sum_top [OF _ _ K(1) this, of 32]
  have e: "booth_digit 64 (booth_window 64 (limbs s) 42) = limbs s div 64 ^ 42 + 2 * limbs s div 64 ^ 42 mod 2"
    by (simp add: booth_sum_def)
  have "limbs s div 64 ^ 42 < 16" using K by (intro int_div_less) simp_all
  moreover have "0 \<le> limbs s div 64 ^ 42" using K by (simp add: pos_imp_zdiv_nonneg_iff)
  moreover have "0 \<le> 2 * limbs s div 64 ^ 42 mod 2" "2 * limbs s div 64 ^ 42 mod 2 < 2" by simp_all
  ultimately show ?thesis unfolding e by linarith
qed

lemma base_step_inv:
  assumes inv: "base_inv (limbs s) i st" and i: "1 \<le> i" "i \<le> 42" and len: "length s = 4"
    and good: "limbs s \<noteq> base_bad"
  shows "base_inv (limbs s) (Suc i) (base_step initTable s st i)"
proof -
  let ?K = "limbs s" and ?w = "scan_window 0x7f 192 s (bs_index st)"
  have w: "uint ?w = booth_window 64 ?K i" using inv scan_window6 [OF len i] by (simp add: base_inv_def)
  then have w128: "uint ?w < 128" by (simp add: booth_window6_bounds)
  obtain sel sign where b: "boothW6 ?w = (sel, sign)" by (cases "boothW6 ?w")
  then have d: "0 \<le> sel" "sel \<le> 32" "(if sign = 1 then - sel else sel) = booth_digit 64 (uint ?w)"
    "uint ?w < 64 \<longrightarrow> sign = 0"
    using boothW6_digit [OF w128] by auto
  have low: "base_low ?K (Suc i) = base_low ?K i + booth_digit 64 (uint ?w) * 64 ^ i" by (simp add: base_low_Suc w)
  have idx: "6 * i - 1 + 6 = 6 * Suc i - 1" using i by simp
  show ?thesis
  proof (cases "sel = 0")
    case True
    then have "booth_digit 64 (uint ?w) = 0" using d(3) by (simp split: if_splits)
    moreover have "base_step initTable s st i = st\<lparr>bs_index := bs_index st + 6\<rparr>"
      using True by (simp add: base_step_def b Let_def)
    ultimately show ?thesis using inv low idx by (simp add: base_inv_def)
  next
    case False
    let ?e = "table_row initTable i sel"
    let ?y = "if sign = 1 then gfpNeg (drop 4 ?e) else drop 4 ?e"
    have e: "length ?e = 8" "multiple base_gen \<lparr>cp_x = take 4 ?e, cp_y = ?y, cp_z = newGFp 1, cp_t = newGFp 1\<rparr>
        (booth_digit 64 (uint ?w) * 64 ^ i)"
      using base_entry [OF b w128, of i] False d(1) i by auto
    have nz: "booth_digit 64 (uint ?w) \<noteq> 0" "\<bar>booth_digit 64 (uint ?w)\<bar> \<le> 32"
      using False d by (auto simp flip: d(3))
    let ?t = "if bs_zero st = 0 then (bs_t1 st)\<lparr>cp_x := take 4 ?e, cp_y := ?y, cp_z := newGFp 1\<rparr>
      else curvePoint_Add_JA (bs_t1 st) (bs_t1 st) \<lparr>cpa_x = take 4 ?e, cpa_y = ?y\<rparr>"
    have st: "base_step initTable s st i = \<lparr>bs_p = ?e @ drop 8 (bs_p st), bs_t1 = ?t, bs_zero = bs_zero st OR sel,
        bs_index = bs_index st + 6\<rparr>"
      using False d(1) e(1) by (simp add: base_step_def b Let_def)
    have t: "multiple base_gen ?t (base_low ?K (Suc i))"
    proof (cases "bs_zero st = 0")
      case True
      then have "base_low ?K i = 0" using inv by (simp add: base_inv_def)
      then show ?thesis using True low by (auto intro: multiple_same [OF e(2)])
    next
      case False
      have "i = 42 \<Longrightarrow> 0 \<le> booth_digit 64 (uint ?w) \<and> booth_digit 64 (uint ?w) \<le> 16
          \<and> base_low ?K 42 + booth_digit 64 (uint ?w) * 64 ^ 42 \<noteq> base_bad"
        using base_top_digit [OF len] good w low base_low_top [OF len] by simp
      then have "(base_low ?K i - booth_digit 64 (uint ?w) * 64 ^ i) mod Order \<noteq> 0"
        using base_addition_distinct [of i "booth_digit 64 (uint ?w)" ?K] i nz by simp
      then show ?thesis using False inv low e(2) by (auto simp: base_inv_def intro!: multiple_mixed)
    qed
    show ?thesis using inv t idx d(1) False e(1)
      by (simp add: st base_inv_def int_or_zero)
  qed
qed

lemma sm9BaseMult_multiple:
  assumes "length s = 4" "limbs s \<noteq> base_bad"
  shows "multiple base_gen (sm9BaseMult s) (limbs s) \<and> curve_ok (sm9BaseMult s)"
proof -
  have "base_inv (limbs s) 43 (foldl (base_step initTable s) (base_start initTable s) [1..<43])"
  proof (rule foldl_upt_invariant)
    fix k st assume "1 \<le> k" "k < 43" "base_inv (limbs s) k st"
    then show "base_inv (limbs s) (Suc k) (base_step initTable s st k)"
      using assms by (intro base_step_inv) simp_all
  next
    show "base_inv (limbs s) 1 (base_start initTable s)" by (rule base_start_inv [OF assms(1)])
  qed simp
  then have "multiple base_gen (sm9BaseMult s) (limbs s)"
    by (simp add: base_inv_def sm9BaseMult_def base_low_top assms(1))
  moreover have "curve_ok (sm9BaseMult s)" by (rule multiple_ok [OF calculation]) (rule base_gen_ok)
  ultimately show ?thesis by blast
qed

lemma curvePoint_Mul_weight:
  assumes "curve_ok a"
  shows "\<exists>R m. curvePoint_Mul a k = Some R \<and> multiple (mul_gen a) R m \<and> m mod Order = k mod Order \<and> curve_ok R"
proof -
  have "curve_ok Q" if "mul_gen a Q n" for Q n using that assms endo_ok by (auto simp: mul_gen_def)
  moreover have "multiple (mul_gen a) a 1" "multiple (mul_gen a) (endo a) (lambda * 1)"
    by (rule multiple_gen, simp add: mul_gen_def)+
  ultimately show ?thesis using curvePoint_Mul_multiple [of "mul_gen a" a 1 k] by simp
qed

text \<open>The weights of \<open>sm9CombinedMult\<close>: the constants, and the point \<open>H\<close> with the weight \<open>h\<close>.\<close>

definition combined_gen :: "curvePoint \<Rightarrow> int \<Rightarrow> curvePoint \<Rightarrow> int \<Rightarrow> bool" where
  "combined_gen H h P m \<longleftrightarrow> base_gen P m \<or> P = H \<and> m = h \<or> P = endo H \<and> m = lambda * h"

lemma multiple_mono:
  assumes "multiple gen P m" "\<And>Q n. gen Q n \<Longrightarrow> gen' Q n"
  shows "multiple gen' P m"
  using assms(1) by induction (auto intro: multiple.intros assms(2))

lemma sm9CombinedMult_multiple:
  assumes H: "curve_ok H" and b: "\<bar>b\<bar> < 2 ^ 256" "\<bar>b\<bar> \<noteq> base_bad" and k: "\<bar>k\<bar> < 2 ^ 256"
  shows "\<exists>R m. sm9CombinedMult c H b k = Some R \<and> multiple (combined_gen H h) R (\<bar>b\<bar> + m * h)
    \<and> m mod Order = k mod Order \<and> curve_ok R"
proof -
  let ?gen = "combined_gen H h"
  have gok: "curve_ok Q" if "?gen Q n" for Q n
    using that H endo_ok base_gen_ok by (auto simp: combined_gen_def)
  obtain s where s: "fromBig 4 b = Some s" "length s = 4" "limbs s = \<bar>b\<bar>" using fromBig_some [of b 4] b by auto
  obtain u where u: "fromBig 4 k = Some u" "length u = 4" "limbs u = \<bar>k\<bar>" using fromBig_some [of k 4] k by auto
  define R1 where "R1 = (if scalarIsZero s = 1 then curvePoint_SetInfinity else sm9BaseMult s)"
  have R1: "multiple ?gen R1 \<bar>b\<bar>"
  proof (cases "scalarIsZero s = 1")
    case True
    then have "\<bar>b\<bar> = 0" using scalarIsZero_eq [OF s(2)] s(3) by (simp split: if_splits)
    moreover have "multiple ?gen R1 0" unfolding R1_def using True
      by (intro multiple_infinity) (simp_all add: curvePoint_SetInfinity_def curvePoint_IsInfinity_def curve_ok_def newGFp_val)
    ultimately show ?thesis by simp
  next
    case False
    have "multiple base_gen (sm9BaseMult s) \<bar>b\<bar>" using sm9BaseMult_multiple [OF s(2)] s(3) b(2) by simp
    then show ?thesis using False by (auto simp: R1_def combined_gen_def intro: multiple_mono)
  qed
  have gens: "multiple ?gen H h" "multiple ?gen (endo H) (lambda * h)"
    by (rule multiple_gen, simp add: combined_gen_def)+
  have "\<exists>R m. curvePoint_Mul H k = Some R \<and> multiple ?gen R (m * h) \<and> m mod Order = k mod Order \<and> curve_ok R"
    by (rule curvePoint_Mul_multiple [OF _ gens]) (rule gok)
  then obtain R2 m where R2: "curvePoint_Mul H k = Some R2" "multiple ?gen R2 (m * h)" "m mod Order = k mod Order"
    by blast
  show ?thesis
  proof (cases "scalarIsZero u = 1")
    case True
    then have "k = 0" using scalarIsZero_eq [OF u(2)] u(3) by (simp split: if_splits)
    moreover have "sm9CombinedMult c H b k = Some R1" using True
      by (simp add: sm9CombinedMult_def s(1) u(1) Let_def R1_def)
    moreover have "multiple ?gen R1 (\<bar>b\<bar> + 0 * h)" using R1 by simp
    moreover have "curve_ok R1" by (rule multiple_ok [OF R1 gok])
    ultimately show ?thesis by (intro exI [of _ R1] exI [of _ 0]) simp
  next
    case False
    then have "sm9CombinedMult c H b k = Some (curvePoint_Add c R2 R1)"
      by (simp add: sm9CombinedMult_def s(1) u(1) Let_def R1_def R2(1))
    moreover have "multiple ?gen (curvePoint_Add c R2 R1) (\<bar>b\<bar> + m * h)"
      using multiple_add [OF R2(2) R1] by (simp add: add.commute)
    moreover have "curve_ok (curvePoint_Add c R2 R1)" by (rule multiple_ok [OF calculation(2) gok])
    ultimately show ?thesis using R2(3) by (intro exI conjI)
  qed
qed

section \<open>Properties\<close>

text \<open>
  C6: scalar multiplication in G1. For every scalar, of any size and sign, \<open>Mul\<close> succeeds, the two
  halves of the decomposed scalar fitting their arrays, and its result is a chain of additions,
  doublings and negations over \<open>a\<close>, of weight one, and \<open>(\<beta> x, y)\<close>, of weight \<open>\<lambda>\<close>, whose net weight is the
  scalar modulo the order of the group. The second point is on the curve when the first is, and
  all limbs of the result are reduced.
\<close>

theorem curve_scalar_multiplication:
  assumes "curve_pt a (x, y)"
  shows "(\<exists>R m. curvePoint_Mul a k = Some R \<and> multiple (mul_gen a) R m \<and> m mod Order = k mod Order \<and> curve_ok R)
    \<and> curve_pt (endo a) (gfp_val beta * x, y) \<and> gfp_val beta ^ 3 = 1"
  using curvePoint_Mul_weight [of a k] endo_pt [OF assms] beta_val(3) assms by (simp add: curve_pt_def)

theorem curve_scalar_multiplication_witness:
  "\<exists>R m. curvePoint_Mul curveGen (Order + 2) = Some R \<and> multiple (mul_gen curveGen) R m \<and> m mod Order = 2"
proof -
  have "(Order + 2) mod Order = 2" by (simp add: Order_def)
  then show ?thesis using curve_scalar_multiplication [OF curveGen_pt, of "Order + 2"] by auto
qed

text \<open>
  C25: the bounds behind \<open>Mul\<close>. For every scalar \<open>k\<close> the decomposition gives \<open>k1 + \<lambda> k2 = k\<close> modulo the
  order with both halves below \<open>2 ^ 128\<close> in absolute value, so \<open>fromBig\<close> fits them into two words; the
  recodings turn a window into a selector of the sixteen (thirty-two) table rows and a sign whose
  signed value is the window's digit.
\<close>

theorem scalar_recoding_bounds:
  "(case splitK_bigint k of (k1, k2, s1, s2) \<Rightarrow> (k1 + k2 * lambda) mod Order = k mod Order
      \<and> \<bar>k1\<bar> < 2 ^ 128 \<and> \<bar>k2\<bar> < 2 ^ 128 \<and> fromBig 2 k1 \<noteq> None \<and> fromBig 2 k2 \<noteq> None)
    \<and> (case boothW5 (v AND 0x3f) of (sel, sign) \<Rightarrow> 0 \<le> sel \<and> sel \<le> 16 \<and> (sign = 0 \<or> sign = 1)
        \<and> (if sign = 1 then - sel else sel) = booth_digit 32 (uint (v AND 0x3f)))
    \<and> (case boothW6 (v AND 0x7f) of (sel, sign) \<Rightarrow> 0 \<le> sel \<and> sel \<le> 32 \<and> (sign = 0 \<or> sign = 1)
        \<and> (if sign = 1 then - sel else sel) = booth_digit 64 (uint (v AND 0x7f)))"
proof (intro conjI)
  show "case splitK_bigint k of (k1, k2, s1, s2) \<Rightarrow> (k1 + k2 * lambda) mod Order = k mod Order
      \<and> \<bar>k1\<bar> < 2 ^ 128 \<and> \<bar>k2\<bar> < 2 ^ 128 \<and> fromBig 2 k1 \<noteq> None \<and> fromBig 2 k2 \<noteq> None"
    using splitK_sum [of k] splitK_bounds [of k] fromBig_some [of _ 2] by (fastforce split: prod.splits)
  have w: "uint (v AND 0x3f) < 64" "uint (v AND 0x7f) < 128"
    unfolding mask6 mask7 uint_and_mask by simp_all
  show "case boothW5 (v AND 0x3f) of (sel, sign) \<Rightarrow> 0 \<le> sel \<and> sel \<le> 16 \<and> (sign = 0 \<or> sign = 1)
        \<and> (if sign = 1 then - sel else sel) = booth_digit 32 (uint (v AND 0x3f))"
    using boothW5_digit [OF w(1)] unfolding case_prod_beta by blast
  show "case boothW6 (v AND 0x7f) of (sel, sign) \<Rightarrow> 0 \<le> sel \<and> sel \<le> 32 \<and> (sign = 0 \<or> sign = 1)
        \<and> (if sign = 1 then - sel else sel) = booth_digit 64 (uint (v AND 0x7f))"
    using boothW6_digit [OF w(2)] unfolding case_prod_beta by blast
qed

text \<open>
  C26: \<open>sm9CombinedMult\<close> computes \<open>b G + k H\<close> for scalars below \<open>2 ^ 256\<close>: its result is a chain over the
  generator, the constants of \<open>g32\<close> and \<open>H\<close> of that weight, in which the mixed addition is never applied
  to two points of equal weight modulo the order. The one exception is \<open>b = 11 * 2 ^ 253 - Order\<close>, which is
  below the order: there the last addition of \<open>sm9BaseMult\<close> meets two equal points, which \<open>Add_JA\<close> does not
  handle. Of a negative \<open>b\<close> only the absolute value counts.
\<close>

theorem combined_multiplication:
  assumes "curve_ok H" "\<bar>b\<bar> < 2 ^ 256" "\<bar>b\<bar> \<noteq> base_bad" "\<bar>k\<bar> < 2 ^ 256"
  shows "(\<exists>R m. sm9CombinedMult c H b k = Some R \<and> multiple (combined_gen H h) R (\<bar>b\<bar> + m * h)
      \<and> m mod Order = k mod Order \<and> curve_ok R)
    \<and> 0 < base_bad \<and> base_bad < Order
    \<and> (base_low base_bad 42 - booth_digit 64 (booth_window 64 base_bad 42) * 64 ^ 42) mod Order = 0"
proof -
  have "2 * base_bad div 64 ^ 42 = 21" "base_bad div 64 ^ 42 = 10" by (simp_all add: base_bad_def Order_def)
  then have "booth_window 64 base_bad 42 = 21" "booth_sum 64 base_bad 42 = 11"
    by (simp_all add: booth_window_def booth_sum_def)
  then have "base_low base_bad 42 - booth_digit 64 (booth_window 64 base_bad 42) * 64 ^ 42 = - Order"
    by (simp add: base_low_def booth_digit_def base_bad_def)
  then show ?thesis using sm9CombinedMult_multiple [OF assms, of c h] by (simp add: base_bad_def Order_def)
qed

theorem combined_multiplication_witness:
  "\<exists>R m. sm9CombinedMult zero_point curveGen 5 7 = Some R \<and> multiple (combined_gen curveGen 1) R (5 + m) \<and> m mod Order = 7"
  using combined_multiplication [of curveGen 5 7 zero_point 1] curveGen_pt
  by (auto simp: curve_pt_def base_bad_def Order_def)

end
