(* ===== verification/Sm9_Twist.thy ===== *)
theory Sm9_Twist
  imports Sm9_Scalar
begin

text \<open>
  The curve of G2, \<open>twist.go\<close>: \<open>y\<^sup>2 = x\<^sup>3 + 5 \<xi>\<close> over the quadratic extension, points in Jacobian
  coordinates. \<open>Add\<close> and \<open>Double\<close> take their receiver \<open>c\<close> as an argument because they leave its field \<open>t\<close>
  alone. \<open>Double\<close> writes \<open>y\<close> before it computes \<open>z\<close>, so it gives another result when the receiver is
  the argument; the flag \<open>al\<close> says that it is (in \<open>Add\<close>: that the receiver is the first argument).
\<close>

section \<open>Points\<close>

record twistPoint =
  tp_x :: gfP2
  tp_y :: gfP2
  tp_z :: gfP2
  tp_t :: gfP2

definition twistB :: gfP2 where
  "twistB = \<lparr>gfP2_x = [0xb9f2c1e8c8c71995, 0x125df8f246a377fc, 0x25e650d049188d1c, 0x043fffffed866f63], gfP2_y = [0, 0, 0, 0]\<rparr>"

definition twistGen :: twistPoint where
  "twistGen = \<lparr>
    tp_x = \<lparr>gfP2_x = [0xdb6db4822750a8a6, 0x84c6135a5121f134, 0x1874032f88791d41, 0x905112f2b85f3a37],
            gfP2_y = [0x260226a68ce2da8f, 0x7ee5645edbf6c06b, 0xf8f57c82b1495444, 0x61fcf018bc47c4d1]\<rparr>,
    tp_y = \<lparr>gfP2_x = [0xf7b82dac4c89bfbb, 0x3706f3f6a49dc12f, 0x1e29de93d3eef769, 0x81e448c3c76a5d53],
            gfP2_y = [0xc03f138f9171c24a, 0x92fbab45a15a3ca7, 0x2445561e2ff77cdb, 0x108495e0c0f62ece]\<rparr>,
    tp_z = \<lparr>gfP2_x = newGFp 0, gfP2_y = newGFp 1\<rparr>,
    tp_t = \<lparr>gfP2_x = newGFp 0, gfP2_y = newGFp 1\<rparr>\<rparr>"

definition twistPoint_Set :: "twistPoint \<Rightarrow> twistPoint" where
  "twistPoint_Set a = a"

definition twistPoint_SetInfinity :: twistPoint where
  "twistPoint_SetInfinity = \<lparr>tp_x = gfP2_SetZero, tp_y = gfP2_SetOne, tp_z = gfP2_SetZero, tp_t = gfP2_SetZero\<rparr>"

definition twistPoint_IsInfinity :: "twistPoint \<Rightarrow> bool" where
  "twistPoint_IsInfinity c = gfP2_IsZero (tp_z c)"

definition twistPoint_MakeAffine :: "twistPoint \<Rightarrow> twistPoint" where
  "twistPoint_MakeAffine c =
     (if gfP2_IsOne (tp_z c) then c
      else if gfP2_IsZero (tp_z c) then c\<lparr>tp_x := gfP2_SetZero, tp_y := gfP2_SetOne, tp_t := gfP2_SetZero\<rparr>
      else
        let zInv = gfP2_Invert (tp_z c);
            t = gfP2_Mul (tp_y c) zInv;
            zInv2 = gfP2_Square zInv;
            y = gfP2_Mul t zInv2;
            t = gfP2_Mul (tp_x c) zInv2
        in \<lparr>tp_x = t, tp_y = y, tp_z = gfP2_SetOne, tp_t = gfP2_SetOne\<rparr>)"

text \<open>\<open>IsOnCurve\<close> normalises its receiver, which is returned beside the answer.\<close>

definition twistPoint_IsOnCurve :: "twistPoint \<Rightarrow> bool \<times> twistPoint" where
  "twistPoint_IsOnCurve c =
     (let c = twistPoint_MakeAffine c
      in if twistPoint_IsInfinity c then (True, c)
         else
           let y2 = gfP2_Square (tp_y c);
               x3 = gfP2_Square (tp_x c);
               x3 = gfP2_Mul x3 (tp_x c);
               x3 = gfP2_Add x3 twistB
           in (y2 = x3, c))"

definition twistPoint_Neg :: "twistPoint \<Rightarrow> twistPoint" where
  "twistPoint_Neg a = \<lparr>tp_x = tp_x a, tp_y = gfP2_Neg (tp_y a), tp_z = tp_z a, tp_t = gfP2_SetZero\<rparr>"

definition twistPoint_Double :: "bool \<Rightarrow> twistPoint \<Rightarrow> twistPoint \<Rightarrow> twistPoint" where
  "twistPoint_Double al c a =
     (let A = gfP2_Square (tp_x a);
          B = gfP2_Square (tp_y a);
          C = gfP2_Square B;
          t = gfP2_Add (tp_x a) B;
          t2 = gfP2_Square t;
          t = gfP2_Sub t2 A;
          t2 = gfP2_Sub t C;
          d = gfP2_Add t2 t2;
          t = gfP2_Add A A;
          e = gfP2_Add t A;
          f = gfP2_Square e;
          t = gfP2_Add d d;
          x = gfP2_Sub f t;
          t = gfP2_Add C C;
          t2 = gfP2_Add t t;
          t = gfP2_Add t2 t2;
          y = gfP2_Sub d x;
          t2 = gfP2_Mul e y;
          y = gfP2_Sub t2 t;
          t = gfP2_Mul (if al then y else tp_y a) (tp_z a);
          z = gfP2_Add t t
      in c\<lparr>tp_x := x, tp_y := y, tp_z := z\<rparr>)"

definition twistPoint_Add :: "bool \<Rightarrow> twistPoint \<Rightarrow> twistPoint \<Rightarrow> twistPoint \<Rightarrow> twistPoint" where
  "twistPoint_Add al c a b =
     (if twistPoint_IsInfinity a then b
      else if twistPoint_IsInfinity b then a
      else
        let z12 = gfP2_Square (tp_z a);
            z22 = gfP2_Square (tp_z b);
            u1 = gfP2_Mul (tp_x a) z22;
            u2 = gfP2_Mul (tp_x b) z12;
            t = gfP2_Mul (tp_z b) z22;
            s1 = gfP2_Mul (tp_y a) t;
            t = gfP2_Mul (tp_z a) z12;
            s2 = gfP2_Mul (tp_y b) t;
            h = gfP2_Sub u2 u1;
            xEqual = gfP2_IsZero h;
            t = gfP2_Add h h;
            i = gfP2_Square t;
            j = gfP2_Mul h i;
            t = gfP2_Sub s2 s1;
            yEqual = gfP2_IsZero t
        in if xEqual \<and> yEqual then twistPoint_Double al c a
           else
             let r = gfP2_Add t t;
                 v = gfP2_Mul u1 i;
                 t4 = gfP2_Square r;
                 t = gfP2_Add v v;
                 t6 = gfP2_Sub t4 j;
                 x = gfP2_Sub t6 t;
                 t = gfP2_Sub v x;
                 t4 = gfP2_Mul s1 j;
                 t6 = gfP2_Add t4 t4;
                 t4 = gfP2_Mul r t;
                 y = gfP2_Sub t4 t6;
                 t = gfP2_Add (tp_z a) (tp_z b);
                 t4 = gfP2_Square t;
                 t = gfP2_Sub t4 z12;
                 t4 = gfP2_Sub t z22;
                 z = gfP2_Mul t4 h
             in c\<lparr>tp_x := x, tp_y := y, tp_z := z\<rparr>)"

text \<open>The two local points of \<open>Mul\<close> are \<open>sum\<close> and \<open>t\<close>; neither is the other's argument.\<close>

definition zero_twist :: twistPoint where
  "zero_twist = \<lparr>tp_x = gfP2_SetZero, tp_y = gfP2_SetZero, tp_z = gfP2_SetZero, tp_t = gfP2_SetZero\<rparr>"

definition twistPoint_Mul :: "twistPoint \<Rightarrow> int \<Rightarrow> twistPoint" where
  "twistPoint_Mul a scalar =
     fst (fold (\<lambda>i (sum, t).
            let t = twistPoint_Double False t sum
            in (if bit scalar i then twistPoint_Add False sum t a else t, t))
          (rev [0..<big_BitLen scalar + 1]) (zero_twist, zero_twist))"

section \<open>What points stand for\<close>

definition twist_b :: fp2 where
  "twist_b = Fp2 5 0"

definition twist_ok :: "twistPoint \<Rightarrow> bool" where
  "twist_ok a \<longleftrightarrow> gfP2_ok (tp_x a) \<and> gfP2_ok (tp_y a) \<and> gfP2_ok (tp_z a)"

text \<open>\<open>twist_pt a P\<close>: \<open>a\<close> has reduced limbs, is not at infinity, and stands for the affine point \<open>P\<close> of the curve.\<close>

abbreviation twist_x :: "twistPoint \<Rightarrow> fp2" where "twist_x a \<equiv> gfP2_val (tp_x a)"
abbreviation twist_y :: "twistPoint \<Rightarrow> fp2" where "twist_y a \<equiv> gfP2_val (tp_y a)"
abbreviation twist_z :: "twistPoint \<Rightarrow> fp2" where "twist_z a \<equiv> gfP2_val (tp_z a)"

abbreviation twist_pt :: "twistPoint \<Rightarrow> fp2 \<times> fp2 \<Rightarrow> bool" where
  "twist_pt \<equiv> jac_pt twist_ok twist_x twist_y twist_z twist_b"

lemmas twist_pt_def = jac_pt_def

lemma two_unit2: "(2 :: fp2) dvd 1"
proof -
  obtain d where "(1 :: fp) = 2 * d" using two_unit by (auto simp: dvd_def)
  then have "1 = 2 * Fp2 0 d" unfolding two_fp2 by (simp add: fp2_defs)
  then show ?thesis by (rule dvdI)
qed

lemma twist_inf_iff: "twist_ok a \<Longrightarrow> twistPoint_IsInfinity a \<longleftrightarrow> twist_z a = 0"
  by (simp add: twistPoint_IsInfinity_def twist_ok_def gfP2_IsZero_iff)

lemma twist_add_same:
  assumes "twist_ok p" "twist_ok q" "\<not> twistPoint_IsInfinity p" "\<not> twistPoint_IsInfinity q"
    "jac_same (twist_x p) (twist_y p) (twist_z p) (twist_x q) (twist_y q) (twist_z q)"
  shows "twistPoint_Add False c p q = twistPoint_Double False c p"
  using assms by (simp add: twistPoint_Add_def Let_def gfP2_IsZero_iff gfp2_rules twist_ok_def jac_same_def)

lemma twist_add_other:
  assumes "twist_ok p" "twist_ok q" "\<not> twistPoint_IsInfinity p" "\<not> twistPoint_IsInfinity q"
    "\<not> jac_same (twist_x p) (twist_y p) (twist_z p) (twist_x q) (twist_y q) (twist_z q)"
  shows "twist_ok (twistPoint_Add False c p q)
    \<and> twist_z (twistPoint_Add False c p q) = jac_add_z (twist_x p) (twist_z p) (twist_x q) (twist_z q)
    \<and> (\<forall>x1 y1 x2 y2 l. jac_rep (twist_x p) (twist_y p) (twist_z p) (x1, y1) \<longrightarrow>
        jac_rep (twist_x q) (twist_y q) (twist_z q) (x2, y2) \<longrightarrow> l * (x2 - x1) = y2 - y1 \<longrightarrow>
        jac_rep (twist_x (twistPoint_Add False c p q)) (twist_y (twistPoint_Add False c p q)) (twist_z (twistPoint_Add False c p q))
          (line_sum l (x1, y1) x2))"
proof (intro conjI allI impI)
  show "twist_ok (twistPoint_Add False c p q)"
    "twist_z (twistPoint_Add False c p q) = jac_add_z (twist_x p) (twist_z p) (twist_x q) (twist_z q)"
    using assms
    by (simp add: twistPoint_Add_def Let_def gfP2_IsZero_iff gfp2_rules twist_ok_def jac_same_def jac_add_z_def; blast)+
next
  fix x1 y1 x2 y2 l
  assume rep: "jac_rep (twist_x p) (twist_y p) (twist_z p) (x1, y1)"
    "jac_rep (twist_x q) (twist_y q) (twist_z q) (x2, y2)" and l: "l * (x2 - x1) = y2 - y1"
  show "jac_rep (twist_x (twistPoint_Add False c p q)) (twist_y (twistPoint_Add False c p q)) (twist_z (twistPoint_Add False c p q))
      (line_sum l (x1, y1) x2)"
    using jac_add [OF rep l] assms
    by (simp add: twistPoint_Add_def Let_def gfP2_IsZero_iff gfp2_rules twist_ok_def jac_same_def) blast
qed

lemma twist_double_law:
  assumes "twist_ok p" "\<not> twistPoint_IsInfinity p"
  shows "twist_ok (twistPoint_Double False c p) \<and> twist_z (twistPoint_Double False c p) = twist_y p * twist_z p + twist_y p * twist_z p
    \<and> (\<forall>x y l. jac_rep (twist_x p) (twist_y p) (twist_z p) (x, y) \<longrightarrow> l * (2 * y) = 3 * (x * x) \<longrightarrow>
        jac_rep (twist_x (twistPoint_Double False c p)) (twist_y (twistPoint_Double False c p)) (twist_z (twistPoint_Double False c p))
          (line_sum l (x, y) x))"
proof (intro conjI allI impI)
  show "twist_ok (twistPoint_Double False c p)" "twist_z (twistPoint_Double False c p) = twist_y p * twist_z p + twist_y p * twist_z p"
    using assms by (simp_all add: twistPoint_Double_def Let_def gfp2_rules twist_ok_def)
next
  fix x y l
  assume rep: "jac_rep (twist_x p) (twist_y p) (twist_z p) (x, y)" and l: "l * (2 * y) = 3 * (x * x)"
  show "jac_rep (twist_x (twistPoint_Double False c p)) (twist_y (twistPoint_Double False c p)) (twist_z (twistPoint_Double False c p))
      (line_sum l (x, y) x)"
    using jac_double [OF rep l] assms by (simp add: twistPoint_Double_def Let_def gfp2_rules twist_ok_def)
qed

lemma twist_neg_law:
  "twist_ok p \<Longrightarrow> twist_ok (twistPoint_Neg p) \<and> twist_x (twistPoint_Neg p) = twist_x p
    \<and> twist_y (twistPoint_Neg p) = - twist_y p \<and> twist_z (twistPoint_Neg p) = twist_z p"
  by (simp add: twistPoint_Neg_def twist_ok_def gfp2_rules)

interpretation g2: jacobian_group twist_ok twist_x twist_y twist_z twist_b twistPoint_IsInfinity "twistPoint_Add False"
    "twistPoint_Double False" twistPoint_Neg
  by unfold_locales (rule two_unit2 twist_inf_iff twist_add_same twist_add_other twist_double_law twist_neg_law; assumption)+

section \<open>Normalisation and the curve check\<close>

lemma gfP2_Invert_unit:
  assumes "gfP2_ok z" "norm2 (gfP2_val z) ^ nat (Sm9_p - 1) = 1"
  shows "gfP2_ok (gfP2_Invert z)" "gfP2_val z * gfP2_val (gfP2_Invert z) = 1"
  using gfP2_Invert_val [OF assms(1)] assms(2) by (simp_all add: one_fp2_def)

lemma twist_makeAffine:
  assumes "twist_pt a (x, y)" "norm2 (twist_z a) ^ nat (Sm9_p - 1) = 1"
  shows "twist_pt (twistPoint_MakeAffine a) (x, y) \<and> tp_z (twistPoint_MakeAffine a) = gfP2_SetOne
    \<and> twist_x (twistPoint_MakeAffine a) = x \<and> twist_y (twistPoint_MakeAffine a) = y"
proof (cases "gfP2_IsOne (tp_z a)")
  case True
  then have "tp_z a = gfP2_SetOne" by (cases "tp_z a") (simp add: gfP2_IsOne_def gfP2_SetOne_def)
  then show ?thesis using assms(1) True by (simp add: twistPoint_MakeAffine_def jac_pt_def jac_rep_def)
next
  case False
  have ok: "gfP2_ok (tp_x a)" "gfP2_ok (tp_y a)" "gfP2_ok (tp_z a)" using assms(1) by (simp_all add: jac_pt_def twist_ok_def)
  note inv = gfP2_Invert_unit [OF ok(3) assms(2)]
  have rep: "twist_x a = x * (twist_z a * twist_z a)" "twist_y a = y * (twist_z a * twist_z a * twist_z a)"
    using assms(1) by (simp_all add: jac_pt_def jac_rep_def)
  note xy = affine_coordinates [OF inv(2)]
  have "\<not> gfP2_IsZero (tp_z a)" using g2.pt_not_inf [OF assms(1)] by (simp add: twistPoint_IsInfinity_def)
  with False show ?thesis using ok inv assms(1)
    by (simp add: twistPoint_MakeAffine_def Let_def jac_pt_def twist_ok_def gfp2_rules rep xy jac_rep_def)
qed

lemma twistB_val: "gfP2_ok twistB" "gfP2_val twistB = twist_b"
proof -
  have "to_fp (limbs [0xb9f2c1e8c8c71995, 0x125df8f246a377fc, 0x25e650d049188d1c, 0x043fffffed866f63] * Rinv) = to_fp 5"
    by (rule to_fp_eqI [where q = "0x2eb3f99b9fb3bc550b238c997d2561125a34f8ac0fcead9671382c6a2cf26bc"]) (simp add: Rinv_def Sm9_p_def)
  then show "gfP2_val twistB = twist_b"
    by (simp only: twistB_def gfP2_val_def gfP2.select_convs gfp_val_def twist_b_def gfp_zero to_fp_of_int) simp
  show "gfP2_ok twistB" by (simp add: twistB_def gfP2_ok_def gfp_ok_def Sm9_p_def)
qed

lemma twist_isOnCurve:
  assumes "twist_ok a" "twistPoint_IsInfinity a \<or> norm2 (twist_z a) ^ nat (Sm9_p - 1) = 1"
  shows "fst (twistPoint_IsOnCurve a) \<longleftrightarrow> twistPoint_IsInfinity a
    \<or> twist_y a ^ 2 = twist_x a ^ 3 + twist_b * twist_z a ^ 6"
proof -
  have ok: "gfP2_ok (tp_x a)" "gfP2_ok (tp_y a)" "gfP2_ok (tp_z a)" using assms(1) by (simp_all add: twist_ok_def)
  have one: "\<not> gfP2_IsZero gfP2_SetOne" using gfP2_IsZero_iff [of gfP2_SetOne] by simp
  consider "gfP2_IsOne (tp_z a)" | "gfP2_IsZero (tp_z a)" "\<not> gfP2_IsOne (tp_z a)"
    | "\<not> gfP2_IsOne (tp_z a)" "\<not> gfP2_IsZero (tp_z a)" "norm2 (twist_z a) ^ nat (Sm9_p - 1) = 1"
    using assms(2) by (auto simp: twistPoint_IsInfinity_def)
  then show ?thesis
  proof cases
    case 1
    then have z: "twist_z a = 1" using gfP2_IsOne_iff [OF ok(3)] by simp
    then have "\<not> gfP2_IsZero (tp_z a)" using gfP2_IsZero_iff [OF ok(3)] by simp
    then show ?thesis using 1 ok twistB_val z
      by (simp add: twistPoint_IsOnCurve_def twistPoint_MakeAffine_def twistPoint_IsInfinity_def Let_def
          gfP2_val_inject [symmetric] gfp2_rules power2_eq_square power3_eq_cube)
  next
    case 2
    then show ?thesis
      by (simp add: twistPoint_IsOnCurve_def twistPoint_MakeAffine_def twistPoint_IsInfinity_def Let_def)
  next
    case 3
    note inv = gfP2_Invert_unit [OF ok(3) 3(3)]
    note affine_curve_equation [OF inv(2), of "twist_y a" "twist_x a" twist_b]
    then show ?thesis using 3(1,2) ok inv(1) twistB_val one
      by (simp add: twistPoint_IsOnCurve_def twistPoint_MakeAffine_def twistPoint_IsInfinity_def Let_def
          gfP2_val_inject [symmetric] gfp2_rules)
  qed
qed


section \<open>The generator\<close>

definition tgx :: fp2 where
  "tgx = Fp2 (to_fp 0x85aef3d078640c98597b6027b441a01ff1dd2c190f5e93c454806c11d8806141)
    (to_fp 0x3722755292130b08d2aab97fd34ec120ee265948d19c17abf9b7213baf82d65b)"

definition tgy :: fp2 where
  "tgy = Fp2 (to_fp 0x17509b092e845c1266ba0d262cbee6ed0736a96fa347c8bd856dc76b84ebeb96)
    (to_fp 0xa7cf28d519be3da65f3170153d278ff247efba98a71a08116215bba5c999a7c7)"

definition tgyi :: fp2 where
  "tgyi = Fp2 (to_fp 0x93ceda7dddd537eb9307a06313598e650a568d931d16ab98ca0a7483c3b502e2)
    (to_fp 0x6face8b958e2bdc0771fd9d700f2703f881ef0d13509f16937f0a0c344647175)"

lemma Fp2_product:
  assumes "a1 * b0 + a0 * b1 = c1 + Sm9_p * q1" "a0 * b0 - 2 * (a1 * b1) = c0 + Sm9_p * q0"
  shows "Fp2 (to_fp a1) (to_fp a0) * Fp2 (to_fp b1) (to_fp b0) = Fp2 (to_fp c1) (to_fp c0)"
proof -
  have "to_fp (a1 * b0 + a0 * b1) = to_fp c1" "to_fp (a0 * b0 - 2 * (a1 * b1)) = to_fp c0"
    using assms by (simp_all only: to_fp_eqI)
  then show ?thesis by (simp add: times_fp2_def to_fp_add to_fp_mult to_fp_diff to_fp_of_int [of 2])
qed

lemma twistGen_on_curve: "on_curve twist_b (tgx, tgy)"
proof -
  have xx: "tgx * tgx = Fp2 (to_fp 0x7a11775a6ecb09c9ee97a63ef1ee2c6e572d75187f27382571aa9cf36c913cec) (to_fp 0x95adc86c12e4e03a7c926d51ef8292f80c1d6831052e26f6dd454f6a22690cbd)"
    unfolding tgx_def by (rule Fp2_product [where ?q1.0 = "0x50e2614c30d7e0702e52bc2997c20440667d819edf9329a3240b76900afd5a92" and ?q0.0 = "-0xb370474adebb707353f5534e34a9c373f13a876a386028aba619dd306333c7de"]) (simp_all add: Sm9_p_def)
  have xxx: "Fp2 (to_fp 0x7a11775a6ecb09c9ee97a63ef1ee2c6e572d75187f27382571aa9cf36c913cec) (to_fp 0x95adc86c12e4e03a7c926d51ef8292f80c1d6831052e26f6dd454f6a22690cbd) * tgx = Fp2 (to_fp 0x8896d4306fb19d0e4a0e09899240e35cafed70bebb3ad56cf7b07964fefdfb8e) (to_fp 0x16bd622a907d7a92e475ed336e8ebca2cc1e38dd2ae69aaf2a96208eba0ee06e)"
    unfolding tgx_def by (rule Fp2_product [where ?q1.0 = "0x92b860810425b419b8e2511f46d80443c1d40b6584f5a438dd9a8e1377c8970f" and ?q0.0 = "-0x85cc0a967cd4998206051d58e091d7b4b11f0315507800a953b3065562169f23"]) (simp_all add: Sm9_p_def)
  have yy: "tgy * tgy = Fp2 (to_fp 0x8896d4306fb19d0e4a0e09899240e35cafed70bebb3ad56cf7b07964fefdfb93) (to_fp 0x16bd622a907d7a92e475ed336e8ebca2cc1e38dd2ae69aaf2a96208eba0ee06e)"
    unfolding tgy_def by (rule Fp2_product [where ?q1.0 = "0x2aef5a5760621e4335dcd2d8cc85432a2c56fc777c638b3e972fb5ccfc7b57f5" and ?q0.0 = "0x948c23ba1fe8480af134656b5d7eff011dec11054752bf21ef1e8b162dcc1357"]) (simp_all add: Sm9_p_def)
  have tb: "twist_b = Fp2 (to_fp 5) (to_fp 0)" by (simp add: twist_b_def to_fp_of_int)
  have "Fp2 (to_fp 0x8896d4306fb19d0e4a0e09899240e35cafed70bebb3ad56cf7b07964fefdfb8e) (to_fp 0x16bd622a907d7a92e475ed336e8ebca2cc1e38dd2ae69aaf2a96208eba0ee06e) + twist_b = Fp2 (to_fp (0x8896d4306fb19d0e4a0e09899240e35cafed70bebb3ad56cf7b07964fefdfb8e + 5)) (to_fp 0x16bd622a907d7a92e475ed336e8ebca2cc1e38dd2ae69aaf2a96208eba0ee06e)"
    by (simp only: tb plus_fp2_def fp2.sel to_fp_add to_fp_0 add_0_right)
  then show ?thesis by (simp add: on_curve_def xx xxx yy)
qed

lemma tgy_unit: "tgy dvd 1"
proof -
  have yi: "tgy * tgyi = Fp2 (to_fp 0x0) (to_fp 0x1)"
    unfolding tgy_def tgyi_def by (rule Fp2_product [where ?q1.0 = "0x9661f831748fdf4c43e8b5544041ba7c8875ea87019e43f5af8eba31f9a6d6ec" and ?q0.0 = "0x4102579bfd9434e8758c4668d236ba9fb189854054ed3ce24f589e1097196ba2"]) (simp_all add: Sm9_p_def)
  then have "1 = tgy * tgyi" by (simp add: one_fp2_def)
  then show ?thesis by (rule dvdI)
qed

lemma twistGen_val: "twist_x twistGen = tgx" "twist_y twistGen = tgy" "twist_z twistGen = 1" "twist_ok twistGen"
proof -
  have "to_fp (limbs [0xdb6db4822750a8a6, 0x84c6135a5121f134, 0x1874032f88791d41, 0x905112f2b85f3a37] * Rinv) = to_fp 0x85aef3d078640c98597b6027b441a01ff1dd2c190f5e93c454806c11d8806141"
    by (rule to_fp_eqI [where q = "0x631e37bf9d8507c08c6fe39cd994b7ac5e2c7c3697e26ec55c64dd9c1606def1"]) (simp add: Rinv_def Sm9_p_def)
  moreover have "to_fp (limbs [0x260226a68ce2da8f, 0x7ee5645edbf6c06b, 0xf8f57c82b1495444, 0x61fcf018bc47c4d1] * Rinv) = to_fp 0x3722755292130b08d2aab97fd34ec120ee265948d19c17abf9b7213baf82d65b"
    by (rule to_fp_eqI [where q = "0x434c911b2bd413dc2cc2fc71f2eafc640f11bd63dda73d6dfccd1e2b180efdc8"]) (simp add: Rinv_def Sm9_p_def)
  moreover have "to_fp (limbs [0xf7b82dac4c89bfbb, 0x3706f3f6a49dc12f, 0x1e29de93d3eef769, 0x81e448c3c76a5d53] * Rinv) = to_fp 0x17509b092e845c1266ba0d262cbee6ed0736a96fa347c8bd856dc76b84ebeb96"
    by (rule to_fp_eqI [where q = "0x5935f9c582dc63cf678c7cb012b5b66ed0d77d9624fe98cb487f61060c5fd69d"]) (simp add: Rinv_def Sm9_p_def)
  moreover have "to_fp (limbs [0xc03f138f9171c24a, 0x92fbab45a15a3ca7, 0x2445561e2ff77cdb, 0x108495e0c0f62ece] * Rinv) = to_fp 0xa7cf28d519be3da65f3170153d278ff247efba98a71a08116215bba5c999a7c7"
    by (rule to_fp_eqI [where q = "0xb583b44a6b8249a841bba05aee37179f6edd512fb55048034aadc985f99af57"]) (simp add: Rinv_def Sm9_p_def)
  ultimately show "twist_x twistGen = tgx" "twist_y twistGen = tgy"
    by (simp_all only: twistGen_def twistPoint.select_convs gfP2_val_def gfP2.select_convs gfp_val_def tgx_def tgy_def)
  have "newGFp 0 = [0, 0, 0, 0]" using newGFp_zero by (simp add: gfP_zero_def)
  then show "twist_z twistGen = 1" by (simp add: twistGen_def gfP2_val_def one_fp2_def)
  show "twist_ok twistGen"
    by (simp add: twistGen_def twist_ok_def gfP2_ok_def newGFp_val) (simp add: gfp_ok_def Sm9_p_def)
qed

lemma twistGen_pt: "twist_pt twistGen (tgx, tgy)"
  using twistGen_val twistGen_on_curve by (simp add: jac_pt_def jac_rep_def)

section \<open>Multiplication\<close>

inductive twist_multiple :: "(twistPoint \<Rightarrow> int \<Rightarrow> bool) \<Rightarrow> twistPoint \<Rightarrow> int \<Rightarrow> bool" for gen where
  twist_multiple_gen: "gen P m \<Longrightarrow> twist_multiple gen P m"
| twist_multiple_infinity: "twistPoint_IsInfinity P \<Longrightarrow> twist_ok P \<Longrightarrow> twist_multiple gen P 0"
| twist_multiple_add: "twist_multiple gen P m \<Longrightarrow> twist_multiple gen Q n \<Longrightarrow> twist_multiple gen (twistPoint_Add False c P Q) (m + n)"
| twist_multiple_double: "twist_multiple gen P m \<Longrightarrow> twist_multiple gen (twistPoint_Double False c P) (2 * m)"
| twist_multiple_neg: "twist_multiple gen P m \<Longrightarrow> twist_multiple gen (twistPoint_Neg P) (- m)"

lemma twist_ok_double: "twist_ok P \<Longrightarrow> twist_ok (twistPoint_Double al c P)"
  by (simp add: twistPoint_Double_def Let_def twist_ok_def gfp2_rules)

lemma twist_ok_add: "twist_ok P \<Longrightarrow> twist_ok Q \<Longrightarrow> twist_ok (twistPoint_Add al c P Q)"
  by (simp add: twistPoint_Add_def Let_def twist_ok_double) (simp add: twist_ok_def gfp2_rules)

lemma twist_multiple_ok:
  assumes "twist_multiple gen P m" "\<And>Q n. gen Q n \<Longrightarrow> twist_ok Q"
  shows "twist_ok P"
  using assms(1)
  by induction (auto intro: assms(2) twist_ok_add twist_ok_double simp: twist_neg_law)

lemma mul_bits:
  assumes "twist_multiple gen a 1" "twist_multiple gen acc s"
  shows "twist_multiple gen (fst (fold (\<lambda>i (acc, t).
            let t = twistPoint_Double False t acc
            in (if bit k i then twistPoint_Add False acc t a else t, t)) (rev [0..<n]) (acc, t)))
      (s * 2 ^ n + k mod 2 ^ n)"
  using assms(2)
proof (induction n arbitrary: s acc t)
  case 0 then show ?case by simp
next
  case (Suc n)
  let ?t = "twistPoint_Double False t acc"
  let ?s = "if bit k n then twistPoint_Add False acc ?t a else ?t"
  have "twist_multiple gen ?s (2 * s + of_bool (bit k n))"
    using twist_multiple_double [OF Suc.prems, of t] twist_multiple_add [OF _ assms(1)] by auto
  from Suc.IH [OF this, of ?t]
  have "twist_multiple gen (fst (fold (\<lambda>i (acc, t).
            let t = twistPoint_Double False t acc
            in (if bit k i then twistPoint_Add False acc t a else t, t)) (rev [0..<Suc n]) (acc, t)))
      ((2 * s + of_bool (bit k n)) * 2 ^ n + k mod 2 ^ n)"
    by (simp add: Let_def)
  moreover have "k mod 2 ^ Suc n = of_bool (bit k n) * 2 ^ n + k mod 2 ^ n"
    using take_bit_Suc_from_most [of n k] by (simp add: take_bit_eq_mod)
  ultimately show ?case by (simp add: algebra_simps)
qed

lemma twistPoint_Mul_weight:
  assumes "twist_ok a"
  shows "twist_multiple (\<lambda>P m. P = a \<and> m = 1) (twistPoint_Mul a k) (k mod 2 ^ (big_BitLen k + 1))
    \<and> twist_ok (twistPoint_Mul a k)"
proof -
  let ?gen = "\<lambda>P m. P = a \<and> m = (1 :: int)"
  have "twist_multiple ?gen a 1" by (rule twist_multiple_gen) simp
  moreover have "twist_multiple ?gen zero_twist 0"
    by (rule twist_multiple_infinity) (simp_all add: zero_twist_def twistPoint_IsInfinity_def gfP2_IsZero_iff twist_ok_def)
  ultimately have "twist_multiple ?gen (twistPoint_Mul a k) (k mod 2 ^ (big_BitLen k + 1))"
    unfolding twistPoint_Mul_def using mul_bits [of ?gen a zero_twist 0 k "big_BitLen k + 1" zero_twist] by simp
  then show ?thesis using twist_multiple_ok [of ?gen] assms by blast
qed

lemma big_BitLen_Suc_mod: "0 \<le> k \<Longrightarrow> k mod 2 ^ (big_BitLen k + 1) = k"
proof -
  assume k: "0 \<le> k"
  then have "k < 2 ^ big_BitLen k"
    using nat_bitlen_bound [of "nat k"] by (simp add: big_BitLen_def nat_less_iff)
  also have "(2 :: int) ^ big_BitLen k \<le> 2 ^ (big_BitLen k + 1)" by simp
  finally show ?thesis using k by simp
qed

section \<open>Properties\<close>

text \<open>
  C27: on the twist, \<open>Add\<close>, \<open>Double\<close> and \<open>Neg\<close> with a receiver other than their arguments implement the
  chord and tangent law of \<open>y\<^sup>2 = x\<^sup>3 + 5 \<xi>\<close>, equal points are doubled, opposite points give a point at
  infinity and the point at infinity is neutral; the generator is on the curve.
\<close>

theorem twist_group_law:
  assumes a: "twist_pt a (x1, y1)" and b: "twist_pt b (x2, y2)" and o: "twistPoint_IsInfinity o1"
  shows "twistPoint_Add False c o1 b = b \<and> twistPoint_Add False c a o1 = a
    \<and> (x2 - x1 dvd 1 \<longrightarrow> (\<exists>l. l * (x2 - x1) = y2 - y1 \<and> twist_pt (twistPoint_Add False c a b) (line_sum l (x1, y1) x2)))
    \<and> (x2 = x1 \<and> y2 = y1 \<longrightarrow> twistPoint_Add False c a b = twistPoint_Double False c a)
    \<and> (y1 dvd 1 \<longrightarrow> (\<exists>l. l * (2 * y1) = 3 * (x1 * x1) \<and> twist_pt (twistPoint_Double False c a) (line_sum l (x1, y1) x1)))
    \<and> (x2 = x1 \<and> y2 = - y1 \<and> y1 dvd 1 \<longrightarrow> twistPoint_IsInfinity (twistPoint_Add False c a b))
    \<and> twist_pt (twistPoint_Neg a) (x1, - y1)"
proof -
  have "twistPoint_Add False c o1 b = b" "twistPoint_Add False c a o1 = a"
    using o g2.pt_not_inf [OF a] by (simp_all add: twistPoint_Add_def)
  moreover have "twistPoint_Add False c a b = twistPoint_Double False c a" if "x2 = x1 \<and> y2 = y1"
    using g2.add_equal [OF a, of b] b that by simp
  moreover have "twistPoint_IsInfinity (twistPoint_Add False c a b)" if "x2 = x1 \<and> y2 = - y1 \<and> y1 dvd 1"
    using g2.add_opposite [OF a, of b] b that by simp
  ultimately show ?thesis
    using g2.add_chord [OF a b, of c] g2.dbl_tangent [OF a, of c] g2.neg_pt [OF a]
    by (intro conjI impI) simp_all
qed

theorem twist_group_law_witness:
  "(\<exists>l. l * (2 * tgy) = 3 * (tgx * tgx) \<and> twist_pt (twistPoint_Double False zero_twist twistGen) (line_sum l (tgx, tgy) tgx))
    \<and> twistPoint_Add False zero_twist twistGen twistPoint_SetInfinity = twistGen"
proof -
  have "twistPoint_IsInfinity twistPoint_SetInfinity"
    by (simp add: twistPoint_IsInfinity_def twistPoint_SetInfinity_def gfP2_IsZero_iff)
  then show ?thesis using twist_group_law [OF twistGen_pt twistGen_pt] tgy_unit by blast
qed

text \<open>
  \<open>Double\<close> with its receiver as its argument, the call that \<open>Add\<close> makes when it is given two equal
  points and stores into the first, computes the same \<open>x\<close> and \<open>y\<close> but derives \<open>z\<close> from the new \<open>y\<close>: its
  \<open>z\<close> is \<open>2 Y\<^sub>3 Z\<close> in place of \<open>2 Y Z\<close>, so the result is the doubled point only if the two agree.
\<close>

theorem twist_double_in_place:
  assumes "twist_pt a (x, y)" "twist_pt b (x, y)"
  shows "twistPoint_Add True a a b = twistPoint_Double True a a
    \<and> tp_x (twistPoint_Double True a a) = tp_x (twistPoint_Double False a a)
    \<and> tp_y (twistPoint_Double True a a) = tp_y (twistPoint_Double False a a)
    \<and> twist_z (twistPoint_Double True a a) = 2 * (twist_y (twistPoint_Double False a a) * twist_z a)
    \<and> twist_z (twistPoint_Double False a a) = 2 * (twist_y a * twist_z a)"
proof -
  have ok: "twist_ok a" "twist_ok b" and inf: "\<not> twistPoint_IsInfinity a" "\<not> twistPoint_IsInfinity b"
    using assms g2.pt_not_inf [OF assms(1)] g2.pt_not_inf [OF assms(2)] by (simp_all add: jac_pt_def)
  have "jac_same (twist_x a) (twist_y a) (twist_z a) (twist_x b) (twist_y b) (twist_z b)"
    using assms by (simp add: jac_pt_def jac_rep_def jac_same_def algebra_simps)
  then have "twistPoint_Add True a a b = twistPoint_Double True a a"
    using ok inf by (simp add: twistPoint_Add_def Let_def gfP2_IsZero_iff gfp2_rules twist_ok_def jac_same_def)
  moreover have "tp_x (twistPoint_Double True a a) = tp_x (twistPoint_Double False a a)"
    "tp_y (twistPoint_Double True a a) = tp_y (twistPoint_Double False a a)"
    by (simp_all add: twistPoint_Double_def Let_def)
  moreover have "twist_z (twistPoint_Double True a a) = 2 * (twist_y (twistPoint_Double False a a) * twist_z a)"
    "twist_z (twistPoint_Double False a a) = 2 * (twist_y a * twist_z a)"
    using ok(1) by (simp_all add: twistPoint_Double_def Let_def gfp2_rules twist_ok_def mult_2 [symmetric])
  ultimately show ?thesis by blast
qed

theorem twist_double_in_place_witness:
  "twist_z (twistPoint_Add True twistGen twistGen twistGen) = 2 * twist_y (twistPoint_Double False twistGen twistGen)"
  using twist_double_in_place [OF twistGen_pt twistGen_pt] twistGen_val(3) by simp

text \<open>
  \<open>twistPoint.Mul\<close> computes a chain of additions and doublings over \<open>a\<close> of weight \<open>k mod 2 ^ (BitLen k + 1)\<close>
  with reduced limbs. That is \<open>k\<close> when \<open>k\<close> is not negative, the only scalars it handles; of a negative one it
  reads the bits of the two's complement.
\<close>

theorem twist_scalar_multiplication:
  assumes "twist_ok a"
  shows "twist_multiple (\<lambda>P m. P = a \<and> m = 1) (twistPoint_Mul a k) (k mod 2 ^ (big_BitLen k + 1))
    \<and> twist_ok (twistPoint_Mul a k) \<and> (0 \<le> k \<longrightarrow> k mod 2 ^ (big_BitLen k + 1) = k)"
  using twistPoint_Mul_weight [OF assms] big_BitLen_Suc_mod by blast

theorem twist_scalar_multiplication_witness:
  "twist_multiple (\<lambda>P m. P = twistGen \<and> m = 1) (twistPoint_Mul twistGen (Order - 1)) (Order - 1)"
proof -
  have "0 \<le> Order - 1" by (simp add: Order_def)
  note t = twist_scalar_multiplication [OF twistGen_val(4), of "Order - 1"]
  have e: "(Order - 1) mod 2 ^ (big_BitLen (Order - 1) + 1) = Order - 1" using t \<open>0 \<le> Order - 1\<close> by blast
  show ?thesis using conjunct1 [OF t] unfolding e .
qed

text \<open>
  \<open>MakeAffine\<close> on the twist keeps the point and makes \<open>z\<close> one; \<open>IsOnCurve\<close> decides
  \<open>Y\<^sup>2 = X\<^sup>3 + 5 \<xi> Z\<^sup>6\<close>. The inverse of \<open>Z\<close> exists when its norm satisfies Fermat's equation.
\<close>

theorem twist_normalisation:
  assumes "twist_pt a (x, y)" "norm2 (twist_z a) ^ nat (Sm9_p - 1) = 1"
    "twist_ok b" "twistPoint_IsInfinity b \<or> norm2 (twist_z b) ^ nat (Sm9_p - 1) = 1"
  shows "twist_pt (twistPoint_MakeAffine a) (x, y) \<and> tp_z (twistPoint_MakeAffine a) = gfP2_SetOne
    \<and> twist_x (twistPoint_MakeAffine a) = x \<and> twist_y (twistPoint_MakeAffine a) = y
    \<and> fst (twistPoint_IsOnCurve b) = (twistPoint_IsInfinity b \<or> twist_y b ^ 2 = twist_x b ^ 3 + twist_b * twist_z b ^ 6)"
  using twist_makeAffine [OF assms(1,2)] twist_isOnCurve [OF assms(3,4)] by blast

theorem twist_normalisation_witness:
  "twist_x (twistPoint_MakeAffine twistGen) = tgx \<and> fst (twistPoint_IsOnCurve twistGen)"
proof -
  have "norm2 (twist_z twistGen) = 1" by (simp add: twistGen_val norm2_def one_fp2_def)
  moreover have "tgy ^ 2 = tgx ^ 3 + twist_b"
    using twistGen_on_curve by (simp add: on_curve_def power2_eq_square power3_eq_cube)
  ultimately show ?thesis
    using twist_normalisation [OF twistGen_pt, of twistGen] twistGen_val by simp
qed

end
