(* ===== verification/Sm9_Miller.thy ===== *)
theory Sm9_Miller
  imports Sm9_Twist Sm9_Mul
begin

text \<open>
  The Miller loop of the R-ate pairing, from \<open>rate.go\<close>: the line functions \<open>lineFunctionAdd\<close> and
  \<open>lineFunctionDouble\<close>, which step the point \<open>R\<close> of the twist and evaluate the line of the step at the
  point of G1, the sparse multiplication \<open>mulLine\<close>, and \<open>miller\<close>. A line is the triple \<open>(a, b, c)\<close> that
  stands for \<open>c + a \<tau> \<omega> + b \<tau>\<^sup>2 \<omega>\<close>.

  \<open>line_double\<close> and \<open>line_add\<close> say what the triples are: a multiple in \<open>fp2\<close> of the line through the
  untwisted points. \<open>miller_val\<close> computes the loop in the ring, with the formulas before their
  optimisation; the code refines it.
\<close>

section \<open>The routines\<close>

definition lineFunctionAdd :: "twistPoint \<Rightarrow> twistPoint \<Rightarrow> curvePoint \<Rightarrow> gfP2 \<Rightarrow> gfP2 \<times> gfP2 \<times> gfP2 \<times> twistPoint" where
  "lineFunctionAdd r p q yy =
     (let B = gfP2_Mul (tp_x p) (tp_t r);
          D = gfP2_Add (tp_y p) (tp_z r);
          D = gfP2_Square D;
          D = gfP2_Sub D yy;
          D = gfP2_Sub D (tp_t r);
          D = gfP2_Mul D (tp_t r);
          H = gfP2_Sub B (tp_x r);
          I = gfP2_Square H;
          E = gfP2_Add I I;
          E = gfP2_Add E E;
          J = gfP2_Mul H E;
          L1 = gfP2_Sub D (tp_y r);
          L1 = gfP2_Sub L1 (tp_y r);
          V = gfP2_Mul (tp_x r) E;
          x = gfP2_Square L1;
          x = gfP2_Sub x J;
          x = gfP2_Sub x V;
          x = gfP2_Sub x V;
          z = gfP2_Add (tp_z r) H;
          z = gfP2_Square z;
          z = gfP2_Sub z (tp_t r);
          z = gfP2_Sub z I;
          t = gfP2_Sub V x;
          t = gfP2_Mul t L1;
          t2 = gfP2_Mul (tp_y r) J;
          t2 = gfP2_Add t2 t2;
          y = gfP2_Sub t t2;
          zz = gfP2_Square z;
          t = gfP2_Add (tp_y p) z;
          t = gfP2_Square t;
          t = gfP2_Sub t yy;
          t = gfP2_Sub t zz;
          t2 = gfP2_Mul L1 (tp_x p);
          t2 = gfP2_Add t2 t2;
          a = gfP2_Sub t2 t;
          c = gfP2_MulScalar z (cp_y q);
          c = gfP2_Add c c;
          c = gfP2_MulXi c;
          b = gfP2_Neg L1;
          b = gfP2_MulScalar b (cp_x q);
          b = gfP2_Add b b
      in (a, b, c, \<lparr>tp_x = x, tp_y = y, tp_z = z, tp_t = zz\<rparr>))"

definition lineFunctionDouble :: "twistPoint \<Rightarrow> curvePoint \<Rightarrow> gfP2 \<times> gfP2 \<times> gfP2 \<times> twistPoint" where
  "lineFunctionDouble r q =
     (let A = gfP2_Square (tp_x r);
          B = gfP2_Square (tp_y r);
          C = gfP2_Square B;
          D = gfP2_Add (tp_x r) B;
          D = gfP2_Square D;
          D = gfP2_Sub D A;
          D = gfP2_Sub D C;
          D = gfP2_Add D D;
          E = gfP2_Add A A;
          E = gfP2_Add E A;
          G = gfP2_Square E;
          x = gfP2_Sub G D;
          x = gfP2_Sub x D;
          z = gfP2_Add (tp_y r) (tp_z r);
          z = gfP2_Square z;
          z = gfP2_Sub z B;
          z = gfP2_Sub z (tp_t r);
          y = gfP2_Sub D x;
          y = gfP2_Mul y E;
          t = gfP2_Add C C;
          t = gfP2_Add t t;
          t = gfP2_Add t t;
          y = gfP2_Sub y t;
          zz = gfP2_Square z;
          t = gfP2_Mul E (tp_t r);
          t = gfP2_Add t t;
          b = gfP2_SetZero;
          b = gfP2_Sub b t;
          b = gfP2_MulScalar b (cp_x q);
          a = gfP2_Add (tp_x r) E;
          a = gfP2_Square a;
          a = gfP2_Sub a A;
          a = gfP2_Sub a G;
          t = gfP2_Add B B;
          t = gfP2_Add t t;
          a = gfP2_Sub a t;
          c = gfP2_Mul z (tp_t r);
          c = gfP2_Add c c;
          c = gfP2_MulScalar c (cp_y q);
          c = gfP2_MulXi c
      in (a, b, c, \<lparr>tp_x = x, tp_y = y, tp_z = z, tp_t = zz\<rparr>))"

definition mulLine :: "gfP12 \<Rightarrow> gfP2 \<Rightarrow> gfP2 \<Rightarrow> gfP2 \<Rightarrow> gfP12" where
  "mulLine ret a b c =
     (let a2 = \<lparr>gfP6_x = b, gfP6_y = a, gfP6_z = gfP2_SetZero\<rparr>;
          a3 = \<lparr>gfP6_x = gfP2_SetZero, gfP6_y = gfP2_SetZero, gfP6_z = c\<rparr>;
          a12 = \<lparr>gfP12_x = a2, gfP12_y = a3\<rparr>
      in gfP12_Mul ret a12)"

definition sixuPlus2NAF :: "int list" where
  "sixuPlus2NAF =
    [0, 1, 1, 1, 1, 1, 0, 0, 1, 0, 0, 1, 1, 0, 1, 1,
     1, 0, 1, 0, 1, 0, 0, 0, 0, 1, 0, 0, 0, 0, 0, 0,
     0, 0, 0, 0, 0, 0, 0, 0, 0, 0, 0, 0, 0, 0, 0, 0,
     0, 0, 0, 0, 0, 0, 0, 0, 0, 0, 0, 0, 0, 0, 1, 0, 0, 1]"

definition miller_step :: "twistPoint \<Rightarrow> twistPoint \<Rightarrow> curvePoint \<Rightarrow> gfP2 \<Rightarrow> nat \<Rightarrow> gfP12 \<times> twistPoint \<Rightarrow> gfP12 \<times> twistPoint" where
  "miller_step aAffine minusA bAffine yy i st =
     (case st of (ret, r) \<Rightarrow>
      case lineFunctionDouble r bAffine of (a, b, c, newR) \<Rightarrow>
        let ret = if i \<noteq> length sixuPlus2NAF - 1 then gfP12_Square ret else ret;
            ret = mulLine ret a b c;
            r = newR
        in if sixuPlus2NAF ! i = 1 then
             case lineFunctionAdd r aAffine bAffine yy of (a, b, c, newR) \<Rightarrow> (mulLine ret a b c, newR)
           else if sixuPlus2NAF ! i = - 1 then
             case lineFunctionAdd r minusA bAffine yy of (a, b, c, newR) \<Rightarrow> (mulLine ret a b c, newR)
           else (ret, r))"

definition miller_q1 :: "twistPoint \<Rightarrow> twistPoint" where
  "miller_q1 aAffine =
     (let x = gfP2_Conjugate (tp_x aAffine);
          x = gfP2_Mul x xiToPMinus1Over3i;
          y = gfP2_Conjugate (tp_y aAffine);
          y = gfP2_Mul y xiToPMinus1Over2i
      in \<lparr>tp_x = x, tp_y = y, tp_z = gfP2_SetOne, tp_t = gfP2_SetOne\<rparr>)"

definition miller_minusQ2 :: "twistPoint \<Rightarrow> twistPoint" where
  "miller_minusQ2 aAffine =
     \<lparr>tp_x = gfP2_MulScalar (tp_x aAffine) xiToPSquaredMinus1Over3i, tp_y = tp_y aAffine,
      tp_z = gfP2_SetOne, tp_t = gfP2_SetOne\<rparr>"

definition miller_end :: "twistPoint \<Rightarrow> curvePoint \<Rightarrow> gfP12 \<times> twistPoint \<Rightarrow> gfP12 \<times> twistPoint" where
  "miller_end aAffine bAffine st =
     (case st of (ret, r) \<Rightarrow>
        let q1 = miller_q1 aAffine;
            minusQ2 = miller_minusQ2 aAffine;
            yy = gfP2_Square (tp_y q1)
        in case lineFunctionAdd r q1 bAffine yy of (a, b, c, newR) \<Rightarrow>
          let ret = mulLine ret a b c;
              r = newR;
              yy = gfP2_Square (tp_y minusQ2)
          in case lineFunctionAdd r minusQ2 bAffine yy of (a, b, c, newR) \<Rightarrow> (mulLine ret a b c, newR))"

definition miller :: "twistPoint \<Rightarrow> curvePoint \<Rightarrow> gfP12" where
  "miller q p =
     (let aAffine = twistPoint_MakeAffine q;
          bAffine = curvePoint_MakeAffine p;
          minusA = twistPoint_Neg aAffine;
          yy = gfP2_Square (tp_y aAffine);
          st = fold (miller_step aAffine minusA bAffine yy) (rev [0..<length sixuPlus2NAF - 1]) (gfP12_SetOne, aAffine)
      in fst (miller_end aAffine bAffine st))"

section \<open>Lines and points in the ring\<close>

text \<open>Elements of \<open>fp\<close> and \<open>fp2\<close> in the tower, and the two roots.\<close>

definition scalar2 :: "fp \<Rightarrow> fp2" where
  "scalar2 x = Fp2 0 x"

definition embed :: "fp2 \<Rightarrow> fp12" where
  "embed x = Fp12 0 (Fp6 0 0 x)"

definition omega :: fp12 where
  "omega = Fp12 1 0"

text \<open>The value of a line triple.\<close>

definition line_val :: "fp2 \<Rightarrow> fp2 \<Rightarrow> fp2 \<Rightarrow> fp12" where
  "line_val a b c = embed c + embed a * omega ^ 3 + embed b * omega ^ 5"

lemma embed_simps: "embed 0 = 0" "embed 1 = 1" "embed (x + y) = embed x + embed y" "embed (x * y) = embed x * embed y"
  "embed (- x) = - embed x" "embed (x - y) = embed x - embed y"
  by (simp_all add: embed_def fp6_defs fp12_defs)

lemma omega_powers: "omega ^ 2 = Fp12 0 tau" "omega ^ 3 = Fp12 tau 0" "omega ^ 5 = Fp12 (tau * tau) 0" "omega ^ 6 = embed xi"
proof -
  have 2: "omega * omega = Fp12 0 tau" by (simp add: omega_def fp12_defs)
  have 3: "omega * Fp12 0 tau = Fp12 tau 0" by (simp add: omega_def fp12_defs)
  have 5: "omega * omega * (omega * (omega * omega)) = Fp12 (tau * tau) 0" unfolding 2 3 by (simp add: fp12_defs)
  have 6: "omega * (omega * omega * (omega * (omega * omega))) = embed xi"
    unfolding 2 3 using tau_cube by (simp add: omega_def fp12_defs embed_def mult.assoc)
  show "omega ^ 2 = Fp12 0 tau" using 2 by (simp add: power2_eq_square)
  show "omega ^ 3 = Fp12 tau 0" using 2 3 by (simp add: numeral_eq_Suc)
  show "omega ^ 5 = Fp12 (tau * tau) 0" using 5 by (simp add: numeral_eq_Suc mult.assoc)
  show "omega ^ 6 = embed xi" using 6 by (simp add: numeral_eq_Suc mult.assoc)
qed

lemma line_val_components: "line_val a b c = Fp12 (Fp6 b a 0) (Fp6 0 0 c)"
  unfolding line_val_def omega_powers by (simp add: embed_def tau_def fp6_defs fp12_defs)

lemma mulLine_val:
  assumes "gfP12_ok ret" "gfP2_ok a" "gfP2_ok b" "gfP2_ok c"
  shows "gfP12_ok (mulLine ret a b c)
    \<and> gfP12_val (mulLine ret a b c) = gfP12_val ret * line_val (gfP2_val a) (gfP2_val b) (gfP2_val c)"
proof -
  let ?l = "\<lparr>gfP12_x = \<lparr>gfP6_x = b, gfP6_y = a, gfP6_z = gfP2_SetZero\<rparr>,
      gfP12_y = \<lparr>gfP6_x = gfP2_SetZero, gfP6_y = gfP2_SetZero, gfP6_z = c\<rparr>\<rparr>"
  have "gfP12_ok ?l" "gfP12_val ?l = line_val (gfP2_val a) (gfP2_val b) (gfP2_val c)"
    using assms by (simp_all add: gfP12_ok_def gfP6_ok_def gfP12_val_def gfP6_val_def line_val_components)
  then show ?thesis using assms by (simp add: mulLine_def Let_def gfp12_rules)
qed

text \<open>
  The points \<open>(x \<omega>\<^sup>-\<^sup>2, y \<omega>\<^sup>-\<^sup>3)\<close> of the curve over \<open>fp12\<close>, and the line of slope \<open>l \<omega>\<^sup>-\<^sup>1\<close> through one of them,
  at the point \<open>(xq, yq)\<close>. The inverse of \<open>\<omega>\<close> is \<open>\<xi>\<^sup>-\<^sup>1 \<omega>\<^sup>5\<close>; multiplied by \<open>\<xi>\<close> there is no division.
\<close>

definition untwisted_line :: "fp12 \<Rightarrow> fp2 \<Rightarrow> fp2 \<times> fp2 \<Rightarrow> fp \<Rightarrow> fp \<Rightarrow> fp12" where
  "untwisted_line winv l P xq yq =
     (case P of (x, y) \<Rightarrow>
        let X = embed x * winv ^ 2; Y = embed y * winv ^ 3; L = embed l * winv
        in embed (scalar2 yq) - Y - L * (embed (scalar2 xq) - X))"

lemma line_val_untwisted:
  assumes w: "omega * winv = 1"
  shows "line_val (l * x - y) (- l * scalar2 xq) (xi * scalar2 yq) = embed xi * untwisted_line winv l (x, y) xq yq"
proof -
  have k: "embed xi = omega ^ 6" by (rule omega_powers [symmetric])
  have "omega ^ 6 * winv = (omega * winv) * omega ^ 5" by (simp add: numeral_eq_Suc mult_ac)
  moreover have "omega ^ 6 * winv ^ 3 = (omega * winv) ^ 3 * omega ^ 3" by (simp add: numeral_eq_Suc mult_ac)
  ultimately have p: "embed xi * winv = omega ^ 5" "embed xi * winv ^ 3 = omega ^ 3" by (simp_all add: k w)
  have "embed xi * untwisted_line winv l (x, y) xq yq
    = embed xi * embed (scalar2 yq) - embed y * (embed xi * winv ^ 3) - embed l * (embed xi * winv) * embed (scalar2 xq)
      + embed l * embed x * (embed xi * winv ^ 3)"
    by (simp add: untwisted_line_def Let_def algebra_simps power2_eq_square power3_eq_cube)
  also have "\<dots> = line_val (l * x - y) (- l * scalar2 xq) (xi * scalar2 yq)"
    unfolding p by (simp add: line_val_def embed_simps algebra_simps)
  finally show ?thesis by (rule sym)
qed

text \<open>What the routines read and write: a point with \<open>t = z\<^sup>2\<close>.\<close>

definition miller_pt :: "twistPoint \<Rightarrow> bool" where
  "miller_pt r \<longleftrightarrow> twist_ok r \<and> gfP2_ok (tp_t r) \<and> gfP2_val (tp_t r) = twist_z r * twist_z r"

text \<open>The steps on coordinates, and their lines, before optimisation.\<close>

type_synonym triple = "fp2 \<times> fp2 \<times> fp2"

definition dbl_triple :: "triple \<Rightarrow> triple" where
  "dbl_triple R = (case R of (X, Y, Z) \<Rightarrow>
     let x = 9 * X ^ 4 - 8 * (X * Y ^ 2)
     in (x, 3 * X ^ 2 * (4 * (X * Y ^ 2) - x) - 8 * Y ^ 4, 2 * (Y * Z)))"

definition dbl_line :: "triple \<Rightarrow> fp \<times> fp \<Rightarrow> fp12" where
  "dbl_line R Q = (case R of (X, Y, Z) \<Rightarrow> case Q of (xq, yq) \<Rightarrow>
     line_val (6 * X ^ 3 - 4 * Y ^ 2) (- (6 * (X ^ 2 * Z ^ 2)) * scalar2 xq) (xi * (4 * (Y * Z ^ 3) * scalar2 yq)))"

definition add_slope :: "triple \<Rightarrow> fp2 \<times> fp2 \<Rightarrow> fp2" where
  "add_slope R P = (case R of (X, Y, Z) \<Rightarrow> case P of (px, py) \<Rightarrow> 2 * (py * Z ^ 3 - Y))"

definition add_triple :: "triple \<Rightarrow> fp2 \<times> fp2 \<Rightarrow> triple" where
  "add_triple R P = (case R of (X, Y, Z) \<Rightarrow> case P of (px, py) \<Rightarrow>
     let H = px * Z ^ 2 - X; L = add_slope R P; V = 4 * (X * H ^ 2);
         x = L ^ 2 - 4 * H ^ 3 - 2 * V
     in (x, L * (V - x) - 8 * (Y * H ^ 3), 2 * (Z * H)))"

definition add_line :: "triple \<Rightarrow> fp2 \<times> fp2 \<Rightarrow> fp \<times> fp \<Rightarrow> fp12" where
  "add_line R P Q = (case P of (px, py) \<Rightarrow> case Q of (xq, yq) \<Rightarrow>
     let L = add_slope R P; z = snd (snd (add_triple R P))
     in line_val (2 * (L * px - py * z)) (- (2 * L) * scalar2 xq) (xi * (2 * z * scalar2 yq)))"

definition coords :: "twistPoint \<Rightarrow> triple" where
  "coords r = (twist_x r, twist_y r, twist_z r)"

lemma lineFunctionDouble_val:
  assumes "miller_pt r" "curve_ok q"
  shows "case lineFunctionDouble r q of (a, b, c, r') \<Rightarrow> miller_pt r' \<and> coords r' = dbl_triple (coords r)
    \<and> gfP2_ok a \<and> gfP2_ok b \<and> gfP2_ok c
    \<and> line_val (gfP2_val a) (gfP2_val b) (gfP2_val c) = dbl_line (coords r) (curve_x q, curve_y q)"
  using assms
  by (simp add: lineFunctionDouble_def dbl_triple_def dbl_line_def coords_def Let_def miller_pt_def twist_ok_def
      curve_ok_def gfp2_rules gfP2_MulScalar_val gfP2_MulXi_val scalar2_def [symmetric] algebra_simps numeral_eq_Suc)

lemma lineFunctionAdd_val:
  assumes "miller_pt r" "twist_ok p" "curve_ok q" "gfP2_ok yy" "gfP2_val yy = twist_y p * twist_y p"
  shows "case lineFunctionAdd r p q yy of (a, b, c, r') \<Rightarrow> miller_pt r'
    \<and> coords r' = add_triple (coords r) (twist_x p, twist_y p)
    \<and> gfP2_ok a \<and> gfP2_ok b \<and> gfP2_ok c
    \<and> line_val (gfP2_val a) (gfP2_val b) (gfP2_val c) = add_line (coords r) (twist_x p, twist_y p) (curve_x q, curve_y q)"
  using assms
  by (simp add: lineFunctionAdd_def add_triple_def add_line_def add_slope_def coords_def Let_def miller_pt_def twist_ok_def
      curve_ok_def gfp2_rules gfP2_MulScalar_val gfP2_MulXi_val scalar2_def [symmetric] algebra_simps numeral_eq_Suc)

section \<open>What the lines are\<close>

lemma dbl_triple_point:
  assumes "jac_rep X Y Z (x, y)" "l * (2 * y) = 3 * (x * x)"
  shows "case dbl_triple (X, Y, Z) of (X3, Y3, Z3) \<Rightarrow> jac_rep X3 Y3 Z3 (line_sum l (x, y) x)"
  using jac_double [OF assms] by (simp add: dbl_triple_def Let_def algebra_simps numeral_eq_Suc)

lemma add_triple_point:
  assumes "jac_rep X Y Z (x, y)" "l * (px - x) = py - y"
  shows "case add_triple (X, Y, Z) (px, py) of (X3, Y3, Z3) \<Rightarrow> jac_rep X3 Y3 Z3 (line_sum l (x, y) px)"
  using jac_madd [OF assms] by (simp add: add_triple_def add_slope_def Let_def algebra_simps numeral_eq_Suc)

lemma line_val_scale: "line_val (u * a) (u * b) (u * c) = embed u * line_val a b c"
  by (simp add: line_val_def embed_simps algebra_simps)

lemma dbl_line_eq:
  assumes rep: "jac_rep X Y Z (x, y)" and l: "l * (2 * y) = 3 * (x * x)" and w: "omega * winv = 1"
  shows "dbl_line (X, Y, Z) (xq, yq) = embed (4 * y * Z ^ 6 * xi) * untwisted_line winv l (x, y) xq yq"
proof -
  have X: "X = x * (Z * Z)" and Y: "Y = y * (Z * Z * Z)" using rep by (simp_all add: jac_rep_def)
  define u where "u = 4 * y * Z ^ 6"
  have "6 * X ^ 3 - 4 * Y ^ 2 = 2 * (l * (2 * y)) * x * Z ^ 6 - 4 * Y ^ 2"
    unfolding l by (simp add: X numeral_eq_Suc algebra_simps)
  also have "\<dots> = u * (l * x - y)" by (simp add: Y u_def numeral_eq_Suc algebra_simps)
  finally have a: "6 * X ^ 3 - 4 * Y ^ 2 = u * (l * x - y)" .
  have "- (6 * (X ^ 2 * Z ^ 2)) * scalar2 xq = - (2 * (l * (2 * y)) * Z ^ 6) * scalar2 xq"
    unfolding l by (simp add: X numeral_eq_Suc algebra_simps)
  also have "\<dots> = u * (- l * scalar2 xq)" by (simp add: u_def algebra_simps)
  finally have b: "- (6 * (X ^ 2 * Z ^ 2)) * scalar2 xq = u * (- l * scalar2 xq)" .
  have c: "xi * (4 * (Y * Z ^ 3) * scalar2 yq) = u * (xi * scalar2 yq)"
    by (simp add: Y u_def numeral_eq_Suc algebra_simps)
  show ?thesis
    unfolding dbl_line_def prod.case a b c line_val_scale line_val_untwisted [OF w] u_def [symmetric]
    by (simp add: embed_simps mult.assoc)
qed

lemma add_line_eq:
  assumes rep: "jac_rep X Y Z (x, y)" and l: "l * (px - x) = py - y" and w: "omega * winv = 1"
  shows "add_line (X, Y, Z) (px, py) (xq, yq)
    = embed (2 * snd (snd (add_triple (X, Y, Z) (px, py))) * xi) * untwisted_line winv l (px, py) xq yq"
proof -
  have X: "X = x * (Z * Z)" and Y: "Y = y * (Z * Z * Z)" using rep by (simp_all add: jac_rep_def)
  define z where "z = snd (snd (add_triple (X, Y, Z) (px, py)))"
  have z: "z = 2 * ((px - x) * Z ^ 3)"
    by (simp add: z_def add_triple_def Let_def X numeral_eq_Suc algebra_simps)
  have "add_slope (X, Y, Z) (px, py) = 2 * ((py - y) * Z ^ 3)"
    by (simp add: add_slope_def Y numeral_eq_Suc algebra_simps)
  then have L: "add_slope (X, Y, Z) (px, py) = l * z" by (simp add: l [symmetric] z algebra_simps)
  have a: "2 * (l * z * px - py * z) = 2 * z * (l * px - py)"
    and b: "- (2 * (l * z)) * scalar2 xq = 2 * z * (- l * scalar2 xq)"
    and c: "xi * (2 * z * scalar2 yq) = 2 * z * (xi * scalar2 yq)" by (simp_all add: algebra_simps)
  show ?thesis
    unfolding add_line_def prod.case Let_def z_def [symmetric] L a b c line_val_scale line_val_untwisted [OF w]
    by (simp add: embed_simps mult.assoc)
qed

lemma omega_unit: "\<exists>winv. omega * winv = 1"
proof -
  obtain d :: fp where d: "1 = 2 * d" using two_unit by (auto simp: dvd_def)
  then have "xi * Fp2 (- d) 0 = 1" by (simp add: xi_def fp2_defs)
  then have "embed xi * embed (Fp2 (- d) 0) = 1" by (simp flip: embed_simps(4) add: embed_simps)
  moreover have "embed xi = omega * omega ^ 5" by (simp flip: omega_powers(4) add: numeral_eq_Suc)
  ultimately show ?thesis by (auto simp: mult.assoc)
qed

section \<open>The loop\<close>

definition sm9_t :: int where
  "sm9_t = 0x600000000058F98A"

definition miller_step_val :: "fp2 \<times> fp2 \<Rightarrow> fp \<times> fp \<Rightarrow> nat \<Rightarrow> fp12 \<times> triple \<Rightarrow> fp12 \<times> triple" where
  "miller_step_val P Q i st =
     (case st of (f, R) \<Rightarrow>
        let f = f ^ 2 * dbl_line R Q; R = dbl_triple R
        in if sixuPlus2NAF ! i = 1 then (f * add_line R P Q, add_triple R P) else (f, R))"

definition frob_point :: "fp2 \<times> fp2 \<Rightarrow> fp2 \<times> fp2" where
  "frob_point P = (conj2 (fst P) * gfP2_val xiToPMinus1Over3i, conj2 (snd P) * gfP2_val xiToPMinus1Over2i)"

definition minus_frob2_point :: "fp2 \<times> fp2 \<Rightarrow> fp2 \<times> fp2" where
  "minus_frob2_point P = (fst P * scalar2 (gfp_val xiToPSquaredMinus1Over3i), snd P)"

definition miller_val :: "fp2 \<times> fp2 \<Rightarrow> fp \<times> fp \<Rightarrow> fp12" where
  "miller_val P Q =
     (case fold (miller_step_val P Q) (rev [0..<65]) (1, fst P, snd P, 1) of (f, R) \<Rightarrow>
        f * add_line R (frob_point P) Q * add_line (add_triple R (frob_point P)) (minus_frob2_point P) Q)"

lemma naf_length: "length sixuPlus2NAF = 66"
  by (simp add: sixuPlus2NAF_def)

lemma naf_value: "(\<Sum>i<66. sixuPlus2NAF ! i * 2 ^ i) = 6 * sm9_t + 2"
  by (simp add: sixuPlus2NAF_def sm9_t_def numeral_eq_Suc)

lemma naf_digits: "i < 65 \<Longrightarrow> sixuPlus2NAF ! i = 0 \<or> sixuPlus2NAF ! i = 1"
proof -
  have "list_all (\<lambda>d. d = 0 \<or> d = 1) sixuPlus2NAF" by (simp add: sixuPlus2NAF_def)
  then show "i < 65 \<Longrightarrow> sixuPlus2NAF ! i = 0 \<or> sixuPlus2NAF ! i = 1"
    unfolding list_all_length naf_length by auto
qed

definition miller_rel :: "gfP12 \<times> twistPoint \<Rightarrow> fp12 \<times> triple \<Rightarrow> bool" where
  "miller_rel st st' \<longleftrightarrow> gfP12_ok (fst st) \<and> miller_pt (snd st) \<and> gfP12_val (fst st) = fst st' \<and> coords (snd st) = snd st'"

lemma add_step:
  assumes "miller_rel (ret, r) (f, R)" "twist_ok p" "curve_ok q"
  shows "case lineFunctionAdd r p q (gfP2_Square (tp_y p)) of (a, b, c, r') \<Rightarrow>
    miller_rel (mulLine ret a b c, r')
      (f * add_line R (twist_x p, twist_y p) (curve_x q, curve_y q), add_triple R (twist_x p, twist_y p))"
proof -
  obtain a b c r' where e: "lineFunctionAdd r p q (gfP2_Square (tp_y p)) = (a, b, c, r')" by (metis prod_cases4)
  have "gfP2_ok (gfP2_Square (tp_y p))" "gfP2_val (gfP2_Square (tp_y p)) = twist_y p * twist_y p"
    using assms(2) by (simp_all add: twist_ok_def gfp2_rules)
  from lineFunctionAdd_val [OF _ assms(2,3) this, of r] show ?thesis
    using assms(1) mulLine_val [of ret a b c] by (simp add: e miller_rel_def)
qed

lemma miller_step_rel:
  assumes "miller_rel st st'" "twist_ok p" "curve_ok q" "i < 65"
  shows "miller_rel (miller_step p mp q (gfP2_Square (tp_y p)) i st)
    (miller_step_val (twist_x p, twist_y p) (curve_x q, curve_y q) i st')"
proof -
  obtain ret r f R where st: "st = (ret, r)" "st' = (f, R)" by (cases st; cases st')
  obtain a b c r' where e: "lineFunctionDouble r q = (a, b, c, r')" by (metis prod_cases4)
  have r: "gfP12_ok ret" "miller_pt r" "gfP12_val ret = f" "coords r = R"
    using assms(1) by (simp_all add: st miller_rel_def)
  have d: "miller_pt r'" "coords r' = dbl_triple R" "gfP2_ok a" "gfP2_ok b" "gfP2_ok c"
    "line_val (gfP2_val a) (gfP2_val b) (gfP2_val c) = dbl_line R (curve_x q, curve_y q)"
    using lineFunctionDouble_val [OF r(2) assms(3)] r(4) by (simp_all add: e)
  let ?ret = "mulLine (gfP12_Square ret) a b c"
  have ret: "miller_rel (?ret, r') (f ^ 2 * dbl_line R (curve_x q, curve_y q), dbl_triple R)"
    using mulLine_val [of "gfP12_Square ret" a b c] d r by (simp add: miller_rel_def gfp12_rules power2_eq_square)
  have i: "i \<noteq> length sixuPlus2NAF - 1" using assms(4) by (simp add: naf_length)
  show ?thesis
  proof (cases "sixuPlus2NAF ! i = 1")
    case True
    then show ?thesis using add_step [OF ret assms(2,3)] i
      by (simp add: st miller_step_def miller_step_val_def e Let_def split: prod.splits)
  next
    case False
    then have "sixuPlus2NAF ! i = 0" using naf_digits [OF assms(4)] by blast
    then show ?thesis using ret i by (simp add: st miller_step_def miller_step_val_def e Let_def)
  qed
qed

lemma miller_fold_rel:
  assumes "miller_rel st st'" "twist_ok p" "curve_ok q" "\<forall>i\<in>set ns. i < 65"
  shows "miller_rel (fold (miller_step p mp q (gfP2_Square (tp_y p))) ns st)
    (fold (miller_step_val (twist_x p, twist_y p) (curve_x q, curve_y q)) ns st')"
  using assms(1,4)
proof (induction ns arbitrary: st st')
  case (Cons i ns)
  have "miller_rel (miller_step p mp q (gfP2_Square (tp_y p)) i st)
      (miller_step_val (twist_x p, twist_y p) (curve_x q, curve_y q) i st')"
    using Cons.prems assms(2,3) by (intro miller_step_rel) simp_all
  then show ?case using Cons by simp
qed simp

lemma frobenius_points:
  assumes "twist_ok p"
  shows "twist_ok (miller_q1 p)" "(twist_x (miller_q1 p), twist_y (miller_q1 p)) = frob_point (twist_x p, twist_y p)"
    "twist_ok (miller_minusQ2 p)"
    "(twist_x (miller_minusQ2 p), twist_y (miller_minusQ2 p)) = minus_frob2_point (twist_x p, twist_y p)"
proof -
  have ok: "gfP2_ok xiToPMinus1Over3i" "gfP2_ok xiToPMinus1Over2i" "gfp_ok xiToPSquaredMinus1Over3i"
    by (simp_all add: xiToPMinus1Over3i_def xiToPMinus1Over2i_def xiToPSquaredMinus1Over3i_def gfP2_ok_def)
      (simp_all add: gfp_ok_def Sm9_p_def)
  show "twist_ok (miller_q1 p)" "(twist_x (miller_q1 p), twist_y (miller_q1 p)) = frob_point (twist_x p, twist_y p)"
    "twist_ok (miller_minusQ2 p)"
    "(twist_x (miller_minusQ2 p), twist_y (miller_minusQ2 p)) = minus_frob2_point (twist_x p, twist_y p)"
    using assms ok
    by (simp_all add: miller_q1_def miller_minusQ2_def Let_def twist_ok_def gfp2_rules gfP2_Conjugate_val
        gfP2_MulScalar_val frob_point_def minus_frob2_point_def scalar2_def)
qed

lemma miller_end_rel:
  assumes "miller_rel st (f, R)" "twist_ok p" "curve_ok q"
  shows "gfP12_ok (fst (miller_end p q st))
    \<and> gfP12_val (fst (miller_end p q st))
      = f * add_line R (frob_point (twist_x p, twist_y p)) (curve_x q, curve_y q)
        * add_line (add_triple R (frob_point (twist_x p, twist_y p))) (minus_frob2_point (twist_x p, twist_y p))
            (curve_x q, curve_y q)"
proof -
  note fp = frobenius_points [OF assms(2)]
  obtain ret r where st: "st = (ret, r)" by (cases st)
  obtain a b c r1 where e1: "lineFunctionAdd r (miller_q1 p) q (gfP2_Square (tp_y (miller_q1 p))) = (a, b, c, r1)"
    by (metis prod_cases4)
  have 1: "miller_rel (mulLine ret a b c, r1) (f * add_line R (frob_point (twist_x p, twist_y p)) (curve_x q, curve_y q),
      add_triple R (frob_point (twist_x p, twist_y p)))"
    using add_step [OF assms(1) [unfolded st] fp(1) assms(3)] by (simp add: e1 fp(2))
  obtain a' b' c' r2' where e2: "lineFunctionAdd r1 (miller_minusQ2 p) q (gfP2_Square (tp_y (miller_minusQ2 p))) = (a', b', c', r2')"
    by (metis prod_cases4)
  show ?thesis using add_step [OF 1 fp(3) assms(3)]
    by (simp add: st miller_end_def Let_def e1 e2 fp(4) miller_rel_def)
qed

lemma miller_refines:
  assumes A: "A = twistPoint_MakeAffine q" "miller_pt A" "twist_z A = 1" and B: "B = curvePoint_MakeAffine p" "curve_ok B"
  shows "gfP12_ok (miller q p) \<and> gfP12_val (miller q p) = miller_val (twist_x A, twist_y A) (curve_x B, curve_y B)"
proof -
  let ?P = "(twist_x A, twist_y A)" and ?Q = "(curve_x B, curve_y B)"
  define st where "st = fold (miller_step A (twistPoint_Neg A) B (gfP2_Square (tp_y A))) (rev [0..<65]) (gfP12_SetOne, A)"
  obtain f R where fR: "fold (miller_step_val ?P ?Q) (rev [0..<65]) (1, fst ?P, snd ?P, 1) = (f, R)"
    by (cases "fold (miller_step_val ?P ?Q) (rev [0..<65]) (1, fst ?P, snd ?P, 1)")
  have ok: "twist_ok A" using A(2) by (simp add: miller_pt_def)
  have "miller_rel (gfP12_SetOne, A) (1, fst ?P, snd ?P, 1)" using A(2,3) by (simp add: miller_rel_def coords_def)
  then have "miller_rel st (f, R)" unfolding st_def fR [symmetric] by (intro miller_fold_rel ok B(2)) auto
  from miller_end_rel [OF this ok B(2)] show ?thesis
    by (simp add: miller_def Let_def A(1) [symmetric] B(1) [symmetric] naf_length st_def [symmetric] miller_val_def fR [simplified])
qed

lemma twist_affine:
  assumes "twist_pt q (x, y)" "norm2 (twist_z q) ^ nat (Sm9_p - 1) = 1"
    "gfP2_IsOne (tp_z q) \<Longrightarrow> tp_t q = gfP2_SetOne"
  shows "miller_pt (twistPoint_MakeAffine q)" "twist_z (twistPoint_MakeAffine q) = 1"
proof -
  have z: "tp_z (twistPoint_MakeAffine q) = gfP2_SetOne" and ok: "twist_ok (twistPoint_MakeAffine q)"
    using twist_makeAffine [OF assms(1,2)] by (simp_all add: jac_pt_def)
  then show "twist_z (twistPoint_MakeAffine q) = 1" by simp
  have "\<not> gfP2_IsZero (tp_z q)" using g2.pt_not_inf [OF assms(1)] by (simp add: twistPoint_IsInfinity_def)
  then have "tp_t (twistPoint_MakeAffine q) = gfP2_SetOne"
    using assms(3) by (simp add: twistPoint_MakeAffine_def Let_def)
  then show "miller_pt (twistPoint_MakeAffine q)" using ok z by (simp add: miller_pt_def)
qed

lemma twistGen_miller: "miller_pt twistGen" "tp_z twistGen = gfP2_SetOne" "tp_t twistGen = gfP2_SetOne"
proof -
  have "newGFp 0 = [0, 0, 0, 0]" using newGFp_zero by (simp add: gfP_zero_def)
  then show z: "tp_z twistGen = gfP2_SetOne" "tp_t twistGen = gfP2_SetOne"
    by (simp_all add: twistGen_def gfP2_SetOne_def)
  show "miller_pt twistGen" using twistGen_val(4) by (simp add: miller_pt_def z)
qed

section \<open>Properties\<close>

text \<open>
  The line functions. For a point \<open>R\<close> of the twist with \<open>t = z\<^sup>2\<close>, \<open>lineFunctionDouble\<close> returns the point
  \<open>2 R\<close> on the tangent and \<open>lineFunctionAdd\<close> the sum of \<open>R\<close> and the affine point on the chord, both again with
  \<open>t = z\<^sup>2\<close>, and coefficients that are, up to a factor from \<open>fp2\<close>, the line through the untwisted point
  evaluated at the point of G1. Factors from \<open>fp2\<close> are removed by the final exponentiation.
\<close>

theorem miller_lines:
  assumes r: "miller_pt r" "jac_rep (twist_x r) (twist_y r) (twist_z r) (x1, y1)" and q: "curve_ok q"
    and p: "twist_ok p" and w: "omega * winv = 1"
    and l: "l * (2 * y1) = 3 * (x1 * x1)" and m: "m * (twist_x p - x1) = twist_y p - y1"
  shows "(case lineFunctionDouble r q of (a, b, c, r') \<Rightarrow> miller_pt r'
        \<and> jac_rep (twist_x r') (twist_y r') (twist_z r') (line_sum l (x1, y1) x1)
        \<and> (\<exists>u. line_val (gfP2_val a) (gfP2_val b) (gfP2_val c)
            = embed u * untwisted_line winv l (x1, y1) (curve_x q) (curve_y q)))
    \<and> (case lineFunctionAdd r p q (gfP2_Square (tp_y p)) of (a, b, c, r') \<Rightarrow> miller_pt r'
        \<and> jac_rep (twist_x r') (twist_y r') (twist_z r') (line_sum m (x1, y1) (twist_x p))
        \<and> (\<exists>u. line_val (gfP2_val a) (gfP2_val b) (gfP2_val c)
            = embed u * untwisted_line winv m (twist_x p, twist_y p) (curve_x q) (curve_y q)))"
proof
  obtain a b c r' where e: "lineFunctionDouble r q = (a, b, c, r')" by (metis prod_cases4)
  show "case lineFunctionDouble r q of (a, b, c, r') \<Rightarrow> miller_pt r'
        \<and> jac_rep (twist_x r') (twist_y r') (twist_z r') (line_sum l (x1, y1) x1)
        \<and> (\<exists>u. line_val (gfP2_val a) (gfP2_val b) (gfP2_val c)
            = embed u * untwisted_line winv l (x1, y1) (curve_x q) (curve_y q))"
    using lineFunctionDouble_val [OF r(1) q] dbl_triple_point [OF r(2) l]
      dbl_line_eq [OF r(2) l w, of "curve_x q" "curve_y q"]
    by (auto simp: e coords_def)
next
  have yy: "gfP2_ok (gfP2_Square (tp_y p))" "gfP2_val (gfP2_Square (tp_y p)) = twist_y p * twist_y p"
    using p by (simp_all add: twist_ok_def gfp2_rules)
  obtain a b c r' where e: "lineFunctionAdd r p q (gfP2_Square (tp_y p)) = (a, b, c, r')" by (metis prod_cases4)
  show "case lineFunctionAdd r p q (gfP2_Square (tp_y p)) of (a, b, c, r') \<Rightarrow> miller_pt r'
        \<and> jac_rep (twist_x r') (twist_y r') (twist_z r') (line_sum m (x1, y1) (twist_x p))
        \<and> (\<exists>u. line_val (gfP2_val a) (gfP2_val b) (gfP2_val c)
            = embed u * untwisted_line winv m (twist_x p, twist_y p) (curve_x q) (curve_y q))"
    using lineFunctionAdd_val [OF r(1) p q yy] add_triple_point [OF r(2) m]
      add_line_eq [OF r(2) m w, of "curve_x q" "curve_y q"]
    by (auto simp: e coords_def)
qed

theorem miller_lines_witness:
  "\<exists>l. case lineFunctionDouble twistGen curveGen of (a, b, c, r') \<Rightarrow> miller_pt r'
        \<and> jac_rep (twist_x r') (twist_y r') (twist_z r') (line_sum l (tgx, tgy) tgx)"
proof -
  obtain winv where w: "omega * winv = 1" using omega_unit by blast
  obtain l where l: "l * (2 * tgy) = 3 * (tgx * tgx)"
    using slope_exists [OF unit_mult [OF two_unit2 tgy_unit]] by blast
  define p where "p = twistGen\<lparr>tp_x := gfP2_SetZero\<rparr>"
  have p: "twist_ok p" "0 * (twist_x p - tgx) = twist_y p - tgy"
    using twistGen_val by (simp_all add: p_def twist_ok_def)
  have "jac_rep (twist_x twistGen) (twist_y twistGen) (twist_z twistGen) (tgx, tgy)" "curve_ok curveGen"
    using twistGen_pt curveGen_pt by (simp_all add: jac_pt_def)
  from miller_lines [OF twistGen_miller(1) this p(1) w l p(2)] show ?thesis by (intro exI [of _ l]) auto
qed

text \<open>
  C8: The Miller loop refines its definition in the ring: with \<open>R\<close> starting at the affine point, it squares,
  doubles and multiplies by the tangent for every digit below the top one, adds and multiplies by the
  chord for the digits that are one, and ends with the two additions of the Frobenius images; the
  digits are those of \<open>6 t + 2\<close>. The argument of G2 needs \<open>t = 1\<close> when its \<open>z\<close> is one.
\<close>

theorem miller_loop:
  assumes "twist_pt q (x, y)" "norm2 (twist_z q) ^ nat (Sm9_p - 1) = 1" "gfP2_IsOne (tp_z q) \<Longrightarrow> tp_t q = gfP2_SetOne"
    "curve_pt p (xp, yp)" "curve_z p ^ nat (Sm9_p - 1) = 1"
  shows "gfP12_ok (miller q p) \<and> gfP12_val (miller q p) = miller_val (x, y) (xp, yp)
    \<and> (\<Sum>i<66. sixuPlus2NAF ! i * 2 ^ i) = 6 * sm9_t + 2"
  using miller_refines [OF refl twist_affine [OF assms(1-3)] refl, of p] twist_makeAffine [OF assms(1,2)]
    curve_makeAffine [OF assms(4,5)] naf_value by (simp add: jac_pt_def)

theorem miller_loop_witness:
  "gfP12_val (miller twistGen curveGen) = miller_val (tgx, tgy) (gfp_val G1x, gfp_val G1y)"
  using miller_loop [OF twistGen_pt _ _ curveGen_pt] twistGen_val twistGen_miller
  by (simp add: norm2_def one_fp2_def curveGen_def)

text \<open>
  The pairing of a negated affine point. \<open>Neg\<close> sets the field \<open>t\<close> to zero and \<open>MakeAffine\<close> returns at once
  when \<open>z\<close> is one, so the loop starts with \<open>t = 0\<close>: the first tangent has coefficients \<open>b = c = 0\<close>, it does
  not depend on the point of G1, and the \<open>z\<close> of the doubled point is \<open>1 - 2 y\<close> in place of \<open>- 2 y\<close>.
\<close>

theorem miller_negated_point:
  assumes "twist_pt q (x, y)" "gfP2_IsOne (tp_z q)" "curve_ok p"
  shows "twistPoint_MakeAffine (twistPoint_Neg q) = twistPoint_Neg q
    \<and> (case lineFunctionDouble (twistPoint_Neg q) p of (a, b, c, r') \<Rightarrow>
        gfP2_val b = 0 \<and> gfP2_val c = 0 \<and> twist_z r' = 1 - 2 * y)"
proof -
  have ok: "gfP2_ok (tp_x q)" "gfP2_ok (tp_y q)" "gfP2_ok (tp_z q)" using assms(1) by (simp_all add: jac_pt_def twist_ok_def)
  have z: "twist_z q = 1" using assms(2) gfP2_IsOne_iff [OF ok(3)] by simp
  then have y: "twist_y q = y" using assms(1) by (simp add: jac_pt_def jac_rep_def)
  have "twistPoint_MakeAffine (twistPoint_Neg q) = twistPoint_Neg q"
    using assms(2) by (simp add: twistPoint_MakeAffine_def twistPoint_Neg_def)
  moreover have "case lineFunctionDouble (twistPoint_Neg q) p of (a, b, c, r') \<Rightarrow>
      gfP2_val b = 0 \<and> gfP2_val c = 0 \<and> twist_z r' = 1 - 2 * y"
    using ok z y assms(3)
    by (simp add: lineFunctionDouble_def twistPoint_Neg_def Let_def curve_ok_def gfp2_rules gfP2_MulScalar_val
        gfP2_MulXi_val algebra_simps)
  ultimately show ?thesis by blast
qed

theorem miller_negated_point_witness:
  "case lineFunctionDouble (twistPoint_Neg twistGen) curveGen of (a, b, c, r') \<Rightarrow> gfP2_val b = 0 \<and> gfP2_val c = 0"
proof -
  have "gfP2_IsOne (tp_z twistGen)" "curve_ok curveGen"
    using curveGen_pt by (simp_all add: twistGen_miller gfP2_IsOne_iff jac_pt_def)
  from miller_negated_point [OF twistGen_pt this] show ?thesis by auto
qed

end
