(* ===== verification/Big_Bytes.thy ===== *)
theory Big_Bytes
  imports Ring_Impl
begin

text \<open>
  The conversions of \<open>math/big\<close> between integers and big-endian byte strings: \<open>SetBytes\<close>, \<open>Bytes\<close>, and the
  idiom \<open>copy(buf[n-len(b):], b)\<close> that pads the bytes of a number to \<open>n\<close> of them, which panics when
  there are more. \<open>ModInverse\<close> is nil when the number is not invertible.
\<close>

definition be_int :: "byte list \<Rightarrow> int" where
  "be_int bs = foldl (\<lambda>a b. 256 * a + uint b) 0 bs"

primrec fixed_bytes :: "nat \<Rightarrow> int \<Rightarrow> byte list" where
  "fixed_bytes 0 x = []"
| "fixed_bytes (Suc n) x = fixed_bytes n (x div 256) @ [word_of_int x]"

definition big_Bytes :: "int \<Rightarrow> byte list" where
  "big_Bytes x = fixed_bytes ((big_BitLen x + 7) div 8) \<bar>x\<bar>"

definition padded_bytes :: "nat \<Rightarrow> int \<Rightarrow> byte list option" where
  "padded_bytes n x = (let b = big_Bytes x in if length b \<le> n then Some (replicate (n - length b) 0 @ b) else None)"

lemma length_fixed_bytes [simp]: "length (fixed_bytes n x) = n"
  by (induction n arbitrary: x) simp_all

lemma be_int_Nil [simp]: "be_int [] = 0"
  by (simp add: be_int_def)

lemma be_int_snoc [simp]: "be_int (bs @ [b]) = 256 * be_int bs + uint b"
  by (simp add: be_int_def)

lemma be_int_append: "be_int (xs @ ys) = be_int xs * 256 ^ length ys + be_int ys"
  by (induction ys rule: rev_induct) (simp_all add: algebra_simps flip: append_assoc)

lemma be_int_bounds: "0 \<le> be_int bs" "be_int bs < 256 ^ length bs"
proof (induction bs rule: rev_induct)
  case (snoc b bs)
  have "uint b < 256" "0 \<le> uint b" using uint_lt2p [of b] by simp_all
  { case 1 show ?case using snoc.IH(1) \<open>0 \<le> uint b\<close> by simp }
  { case 2 show ?case using snoc.IH(2) \<open>uint b < 256\<close> by simp }
qed simp_all

lemma be_int_fixed_bytes: "be_int (fixed_bytes n x) = x mod 256 ^ n"
proof (induction n arbitrary: x)
  case (Suc n)
  have "x mod (256 * 256 ^ n) = 256 * (x div 256 mod 256 ^ n) + x mod 256"
    by (simp add: zmod_zmult2_eq)
  then show ?case using Suc by (simp add: unsigned_of_int take_bit_eq_mod)
qed simp

lemma len8: "LENGTH(8) = 8"
  by simp

lemma fixed_bytes_be_int: "fixed_bytes (length bs) (be_int bs) = bs"
proof (induction bs rule: rev_induct)
  case (snoc b bs)
  have "uint b < 256" "0 \<le> uint b" using uint_lt2p [of b] by simp_all
  then have "(256 * be_int bs + uint b) div 256 = be_int bs" by simp
  moreover have "word_of_int (256 * be_int bs + uint b) = b"
  proof -
    have "(256 * be_int bs + uint b) mod 2 ^ 8 = uint b"
      using \<open>uint b < 256\<close> \<open>0 \<le> uint b\<close> by simp
    then have "uint (word_of_int (256 * be_int bs + uint b) :: byte) = uint b"
      by (simp only: uint_word_of_int len8)
    then show ?thesis by (simp only: word_uint_eq_iff)
  qed
  ultimately show ?case using snoc by simp
qed simp

lemma be_int_inject: "length as = length bs \<Longrightarrow> be_int as = be_int bs \<longleftrightarrow> as = bs"
  by (metis fixed_bytes_be_int)

lemma fixed_bytes_eqI: "length bs = n \<Longrightarrow> be_int bs = x \<Longrightarrow> fixed_bytes n x = bs"
  using fixed_bytes_be_int by blast

lemma be_int_zeros [simp]: "be_int (replicate n 0) = 0"
  by (induction n) (simp_all flip: replicate_append_same)

lemma nat_bitlen_le: "n < 2 ^ m \<Longrightarrow> nat_bitlen n \<le> m"
proof (induction n arbitrary: m rule: nat_bitlen.induct)
  case (1 n)
  show ?case
  proof (cases "n = 0")
    case False
    then obtain k where m: "m = Suc k" using 1(2) by (cases m) simp_all
    then have "n div 2 < 2 ^ k" using 1(2) by simp
    then show ?thesis using 1(1) False m by (simp add: nat_bitlen.simps [of n])
  qed (simp add: nat_bitlen.simps)
qed

lemma length_big_Bytes: "length (big_Bytes x) \<le> n \<longleftrightarrow> \<bar>x\<bar> < 256 ^ n"
proof -
  have two: "(256 :: nat) ^ n = 2 ^ (8 * n)" by (simp add: power_mult)
  have "nat_bitlen (nat \<bar>x\<bar>) \<le> 8 * n \<longleftrightarrow> nat \<bar>x\<bar> < 2 ^ (8 * n)"
  proof
    assume "nat_bitlen (nat \<bar>x\<bar>) \<le> 8 * n"
    then have "(2 :: nat) ^ nat_bitlen (nat \<bar>x\<bar>) \<le> 2 ^ (8 * n)" by simp
    then show "nat \<bar>x\<bar> < 2 ^ (8 * n)" using nat_bitlen_bound [of "nat \<bar>x\<bar>"] by linarith
  qed (rule nat_bitlen_le)
  also have "\<dots> \<longleftrightarrow> \<bar>x\<bar> < 256 ^ n"
    by (simp flip: two add: nat_less_iff)
  finally show ?thesis by (simp add: big_Bytes_def big_BitLen_def) linarith
qed

lemma be_int_big_Bytes [simp]: "be_int (big_Bytes x) = \<bar>x\<bar>"
  using length_big_Bytes [of x "length (big_Bytes x)"] by (simp add: big_Bytes_def be_int_fixed_bytes)

lemma padded_bytes_eq:
  "padded_bytes n x = (if \<bar>x\<bar> < 256 ^ n then Some (fixed_bytes n \<bar>x\<bar>) else None)"
proof -
  have "replicate (n - length (big_Bytes x)) 0 @ big_Bytes x = fixed_bytes n \<bar>x\<bar>" if "length (big_Bytes x) \<le> n"
    by (rule sym, rule fixed_bytes_eqI) (use that in \<open>simp_all add: be_int_append\<close>)
  then show ?thesis by (simp add: padded_bytes_def Let_def length_big_Bytes)
qed

section \<open>Modular inverses\<close>

text \<open>The code equation of the extended algorithm, with one recursive call.\<close>

lemma bezw_let [code]:
  "bezw x y = (if y = 0 then (1, 0) else case bezw y (x mod y) of (a, b) \<Rightarrow> (b, a - b * int (x div y)))"
  by (subst bezw.simps) (simp add: case_prod_beta)

definition big_ModInverse :: "int \<Rightarrow> int \<Rightarrow> int option" where
  "big_ModInverse g n = (if gcd g n = 1 then Some (fst (bezw (nat (g mod n)) (nat n)) mod n) else None)"

lemma big_ModInverse_inverse:
  assumes "1 < n"
  shows "(case big_ModInverse g n of None \<Rightarrow> gcd g n \<noteq> 1 | Some r \<Rightarrow> 0 \<le> r \<and> r < n \<and> g * r mod n = 1)"
proof (cases "gcd g n = 1")
  case True
  let ?x = "nat (g mod n)" and ?y = "nat n"
  have "int (gcd ?x ?y) = gcd (g mod n) n" using assms by (simp add: gcd_int_def)
  also have "\<dots> = gcd g n" using gcd_red_int [of g n] by (simp add: gcd.commute)
  finally have "fst (bezw ?x ?y) * int ?x + snd (bezw ?x ?y) * int ?y = 1"
    using bezw_aux [of ?x ?y] True by simp
  then have "fst (bezw ?x ?y) * (g mod n) + snd (bezw ?x ?y) * n = 1" using assms by simp
  then have "(fst (bezw ?x ?y) * (g mod n) + snd (bezw ?x ?y) * n) mod n = 1 mod n" by (rule arg_cong)
  then have "g * fst (bezw ?x ?y) mod n = 1" using assms by (simp add: mod_mult_left_eq mult.commute mod_mult_right_eq)
  then have "g * (fst (bezw ?x ?y) mod n) mod n = 1" by (simp add: mod_mult_right_eq)
  then show ?thesis using True assms by (simp add: big_ModInverse_def)
qed (simp add: big_ModInverse_def)

end
