(* ===== verification/Sm9_Groups.thy ===== *)
theory Sm9_Groups
  imports Sm9_Pairing Big_Bytes
begin

text \<open>
  The groups of package \<open>sm9\<close>, \<open>sm9.go\<close>: \<open>G1\<close>, \<open>G2\<close> and \<open>GT\<close> are structs with one pointer, here the option
  of the object it points to. An operation allocates the object of its receiver when the pointer is
  nil, and reading through a nil pointer is a panic (an argument whose pointer is nil is another struct
  than the receiver); a panic is the result \<open>None\<close>. \<open>Marshal\<close> normalises
  its receiver and \<open>Unmarshal\<close> fills it also when it reports an error, so both return it.
\<close>

section \<open>Coordinates as bytes\<close>

datatype sm9_error = NotEnoughData | MalformedPoint

text \<open>The calls \<open>montDecode(temp, x); temp.Marshal(ret[off:])\<close> for coordinates at offsets 32 bytes apart.\<close>

primrec marshal_coords :: "nat \<Rightarrow> gfP list \<Rightarrow> byte list \<Rightarrow> byte list option" where
  "marshal_coords off [] ret = Some ret"
| "marshal_coords off (x # xs) ret =
     (case gfP_Marshal (montDecode x) (drop off ret) of None \<Rightarrow> None
      | Some s \<Rightarrow> marshal_coords (off + 32) xs (take off ret @ s))"

text \<open>The calls \<open>e.Unmarshal(m[off:])\<close> and \<open>montEncode(e, e)\<close>; the first adds to what \<open>e\<close> holds.\<close>

primrec unmarshal_coords :: "nat \<Rightarrow> gfP list \<Rightarrow> byte list \<Rightarrow> gfP list option" where
  "unmarshal_coords off [] m = Some []"
| "unmarshal_coords off (e # es) m =
     (case gfP_Unmarshal e (drop off m) of None \<Rightarrow> None
      | Some v \<Rightarrow> (case unmarshal_coords (off + 32) es m of None \<Rightarrow> None | Some vs \<Rightarrow> Some (montEncode v # vs)))"

section \<open>G1\<close>

type_synonym G1 = "curvePoint option"

text \<open>The object of the receiver, allocated when the pointer is nil.\<close>

definition G1_point :: "G1 \<Rightarrow> curvePoint" where
  "G1_point e = (case e of None \<Rightarrow> zero_point | Some c \<Rightarrow> c)"

text \<open>\<open>sm9CombinedMult\<close> reads \<open>H.p\<close> only when the scalar is not zero.\<close>

definition G1_CombinedMult :: "G1 \<Rightarrow> G1 \<Rightarrow> int \<Rightarrow> int \<Rightarrow> G1 option" where
  "G1_CombinedMult e H baseScalar scalar =
     (case H of
        Some h \<Rightarrow> map_option Some (sm9CombinedMult (G1_point e) h baseScalar scalar)
      | None \<Rightarrow> (case fromBig 4 scalar of None \<Rightarrow> None
          | Some s \<Rightarrow> if scalarIsZero s = 1 then map_option Some (sm9CombinedMult (G1_point e) zero_point baseScalar scalar) else None))"

definition G1_ScalarBaseMult :: "int \<Rightarrow> G1 option" where
  "G1_ScalarBaseMult k = map_option Some (curvePoint_Mul curveGen k)"

definition G1_ScalarMult :: "G1 \<Rightarrow> int \<Rightarrow> G1 option" where
  "G1_ScalarMult a k = (case a of None \<Rightarrow> None | Some p \<Rightarrow> map_option Some (curvePoint_Mul p k))"

definition G1_Add :: "G1 \<Rightarrow> G1 \<Rightarrow> G1 \<Rightarrow> G1 option" where
  "G1_Add e a b =
     (case (a, b) of (Some p, Some q) \<Rightarrow> Some (Some (curvePoint_Add (G1_point e) p q)) | _ \<Rightarrow> None)"

definition G1_Neg :: "G1 \<Rightarrow> G1 option" where
  "G1_Neg a = map_option (\<lambda>p. Some (curvePoint_Neg p)) a"

definition G1_Set :: "G1 \<Rightarrow> G1 option" where
  "G1_Set a = map_option (\<lambda>p. Some (curvePoint_Set p)) a"

definition G1_Marshal :: "G1 \<Rightarrow> (byte list \<times> G1) option" where
  "G1_Marshal e =
     (let p = curvePoint_MakeAffine (G1_point e);
          ret = replicate (32 * 2) 0
      in if curvePoint_IsInfinity p then Some (ret, Some p)
         else map_option (\<lambda>ret. (ret, Some p)) (marshal_coords 0 [cp_x p, cp_y p] ret))"

definition G1_Unmarshal :: "G1 \<Rightarrow> byte list \<Rightarrow> ((sm9_error + byte list) \<times> G1) option" where
  "G1_Unmarshal e m =
     (if length m < 2 * 32 then Some (Inl NotEnoughData, e)
      else
        let p = (case e of None \<Rightarrow> zero_point | Some c \<Rightarrow> c\<lparr>cp_x := gfP_zero, cp_y := gfP_zero\<rparr>)
        in case unmarshal_coords 0 [cp_x p, cp_y p] m of
             Some [x, y] \<Rightarrow>
               if x = gfP_zero \<and> y = gfP_zero
               then Some (Inr (drop (2 * 32) m), Some \<lparr>cp_x = x, cp_y = newGFp 1, cp_z = gfP_zero, cp_t = gfP_zero\<rparr>)
               else (case curvePoint_IsOnCurve \<lparr>cp_x = x, cp_y = y, cp_z = newGFp 1, cp_t = newGFp 1\<rparr> of (on, p) \<Rightarrow>
                 Some (if on then Inr (drop (2 * 32) m) else Inl MalformedPoint, Some p))
           | _ \<Rightarrow> None)"

section \<open>G2\<close>

type_synonym G2 = "twistPoint option"

definition G2_point :: "G2 \<Rightarrow> twistPoint" where
  "G2_point e = (case e of None \<Rightarrow> zero_twist | Some c \<Rightarrow> c)"

definition G2_ScalarBaseMult :: "int \<Rightarrow> G2 option" where
  "G2_ScalarBaseMult k = Some (Some (twistPoint_Mul twistGen k))"

definition G2_ScalarMult :: "G2 \<Rightarrow> int \<Rightarrow> G2 option" where
  "G2_ScalarMult a k = map_option (\<lambda>p. Some (twistPoint_Mul p k)) a"

text \<open>The flag says that the receiver holds the same object as the first argument.\<close>

definition G2_Add :: "bool \<Rightarrow> G2 \<Rightarrow> G2 \<Rightarrow> G2 \<Rightarrow> G2 option" where
  "G2_Add al e a b =
     (case (a, b) of (Some p, Some q) \<Rightarrow> Some (Some (twistPoint_Add al (G2_point e) p q)) | _ \<Rightarrow> None)"

definition G2_Neg :: "G2 \<Rightarrow> G2 option" where
  "G2_Neg a = map_option (\<lambda>p. Some (twistPoint_Neg p)) a"

definition G2_Set :: "G2 \<Rightarrow> G2 option" where
  "G2_Set a = map_option (\<lambda>p. Some (twistPoint_Set p)) a"

definition G2_Marshal :: "G2 \<Rightarrow> (byte list \<times> G2) option" where
  "G2_Marshal e =
     (let p = twistPoint_MakeAffine (G2_point e)
      in if twistPoint_IsInfinity p then Some (replicate 1 0, Some p)
         else
           let ret = (replicate (1 + 32 * 4) 0)[0 := 0x01]
           in map_option (\<lambda>ret. (ret, Some p))
                (marshal_coords 1 [gfP2_x (tp_x p), gfP2_y (tp_x p), gfP2_x (tp_y p), gfP2_y (tp_y p)] ret))"

definition G2_Unmarshal :: "G2 \<Rightarrow> byte list \<Rightarrow> ((sm9_error + byte list) \<times> G2) option" where
  "G2_Unmarshal e m =
     (let p = G2_point e
      in if 0 < length m \<and> m ! 0 = 0x00 then Some (Inr (drop 1 m), Some twistPoint_SetInfinity)
         else if 0 < length m \<and> m ! 0 \<noteq> 0x01 then Some (Inl MalformedPoint, Some p)
         else if length m < 1 + 4 * 32 then Some (Inl NotEnoughData, Some p)
         else case unmarshal_coords 1 [gfP2_x (tp_x p), gfP2_y (tp_x p), gfP2_x (tp_y p), gfP2_y (tp_y p)] m of
             Some [xx, xy, yx, yy] \<Rightarrow>
               (let x = \<lparr>gfP2_x = xx, gfP2_y = xy\<rparr>; y = \<lparr>gfP2_x = yx, gfP2_y = yy\<rparr>
                in if gfP2_IsZero x \<and> gfP2_IsZero y
                   then Some (Inr (drop (1 + 4 * 32) m),
                     Some \<lparr>tp_x = x, tp_y = gfP2_SetOne, tp_z = gfP2_SetZero, tp_t = gfP2_SetZero\<rparr>)
                   else (case twistPoint_IsOnCurve \<lparr>tp_x = x, tp_y = y, tp_z = gfP2_SetOne, tp_t = gfP2_SetOne\<rparr> of (on, p) \<Rightarrow>
                     Some (if on then Inr (drop (1 + 4 * 32) m) else Inl MalformedPoint, Some p)))
           | _ \<Rightarrow> None)"

section \<open>GT\<close>

type_synonym GT = "gfP12 option"

definition GT_ScalarBaseMult :: "int \<Rightarrow> GT option" where
  "GT_ScalarBaseMult k = Some (Some (gfP12_Exp gfP12Gen k))"

definition GT_ScalarMult :: "GT \<Rightarrow> int \<Rightarrow> GT option" where
  "GT_ScalarMult a k = map_option (\<lambda>p. Some (gfP12_Exp p k)) a"

definition GT_Add :: "GT \<Rightarrow> GT \<Rightarrow> GT option" where
  "GT_Add a b = (case (a, b) of (Some p, Some q) \<Rightarrow> Some (Some (gfP12_Mul p q)) | _ \<Rightarrow> None)"

definition GT_Neg :: "GT \<Rightarrow> GT option" where
  "GT_Neg a = map_option (\<lambda>p. Some (gfP12_Conjugate p)) a"

definition GT_Set :: "GT \<Rightarrow> GT option" where
  "GT_Set a = map_option (\<lambda>p. Some (gfP12_Set p)) a"

definition GT_Finalize :: "GT \<Rightarrow> GT option" where
  "GT_Finalize e = map_option (\<lambda>p. Some (finalExponentiation p)) e"

text \<open>The coordinates of an element, in the order of the calls.\<close>

definition gfP6_coords :: "gfP6 \<Rightarrow> gfP list" where
  "gfP6_coords a = [gfP2_x (gfP6_x a), gfP2_y (gfP6_x a), gfP2_x (gfP6_y a), gfP2_y (gfP6_y a), gfP2_x (gfP6_z a), gfP2_y (gfP6_z a)]"

definition gfP12_coords :: "gfP12 \<Rightarrow> gfP list" where
  "gfP12_coords p = gfP6_coords (gfP12_x p) @ gfP6_coords (gfP12_y p)"

definition zero_gfP12 :: gfP12 where
  "zero_gfP12 = gfP12_SetZero"

definition GT_Marshal :: "GT \<Rightarrow> (byte list \<times> GT) option" where
  "GT_Marshal e =
     (let p = (case e of None \<Rightarrow> gfP12_SetOne | Some p \<Rightarrow> p);
          ret = replicate (32 * 12) 0
      in map_option (\<lambda>ret. (ret, Some p)) (marshal_coords 0 (gfP12_coords p) ret))"

definition GT_Unmarshal :: "GT \<Rightarrow> byte list \<Rightarrow> ((sm9_error + byte list) \<times> GT) option" where
  "GT_Unmarshal e m =
     (if length m < 12 * 32 then Some (Inl NotEnoughData, e)
      else
        let p = (case e of None \<Rightarrow> zero_gfP12 | Some p \<Rightarrow> p)
        in case unmarshal_coords 0 (gfP12_coords p) m of
             Some [a, b, c, d, e, f, a', b', c', d', e', f'] \<Rightarrow>
               Some (Inr (drop (12 * 32) m), Some
                 \<lparr>gfP12_x = \<lparr>gfP6_x = \<lparr>gfP2_x = a, gfP2_y = b\<rparr>, gfP6_y = \<lparr>gfP2_x = c, gfP2_y = d\<rparr>, gfP6_z = \<lparr>gfP2_x = e, gfP2_y = f\<rparr>\<rparr>,
                  gfP12_y = \<lparr>gfP6_x = \<lparr>gfP2_x = a', gfP2_y = b'\<rparr>, gfP6_y = \<lparr>gfP2_x = c', gfP2_y = d'\<rparr>, gfP6_z = \<lparr>gfP2_x = e', gfP2_y = f'\<rparr>\<rparr>\<rparr>)
           | _ \<Rightarrow> None)"

section \<open>The pairing\<close>

definition Pair :: "G1 \<Rightarrow> G2 \<Rightarrow> GT option" where
  "Pair g1 g2 = (case (g2, g1) of (Some q, Some p) \<Rightarrow> Some (Some (optimalAte q p)) | _ \<Rightarrow> None)"

definition Miller :: "G1 \<Rightarrow> G2 \<Rightarrow> GT option" where
  "Miller g1 g2 = (case (g2, g1) of (Some q, Some p) \<Rightarrow> Some (Some (miller q p)) | _ \<Rightarrow> None)"


section \<open>Encoding lemmas\<close>

text \<open>The encoding of a field element, and the element read at an offset.\<close>

definition fp_bytes :: "fp \<Rightarrow> byte list" where
  "fp_bytes x = fixed_bytes 32 (fp_int x)"

definition fp_at :: "byte list \<Rightarrow> nat \<Rightarrow> fp" where
  "fp_at m off = to_fp (be_int (take 32 (drop off m)))"

lemma length_fp_bytes [simp]: "length (fp_bytes x) = 32"
  by (simp add: fp_bytes_def)

lemma Sm9_p_bytes: "Sm9_p < 256 ^ 32"
  by (simp add: Sm9_p_def)

lemma be_int_fp_bytes: "be_int (fp_bytes x) = fp_int x"
  using fp_int_bounds [of x] Sm9_p_bytes by (simp only: fp_bytes_def be_int_fixed_bytes) simp

lemma fp_at_fp_bytes: "length pre = off \<Longrightarrow> fp_at (pre @ fp_bytes x @ rest) off = x"
  by (simp add: fp_at_def be_int_fp_bytes)

lemma uint_be64:
  assumes "length bs = 8"
  shows "uint (be64 bs) = be_int bs"
proof -
  obtain b0 b1 b2 b3 b4 b5 b6 b7 where bs: "bs = [b0, b1, b2, b3, b4, b5, b6, b7]"
    using assms by (auto simp: numeral_eq_Suc length_Suc_conv)
  have lessThan8: "{..<8} = {0, 1, 2, 3, 4, 5, 6, 7 :: nat}" by auto
  have "word_of_int (be_int bs) = be64 bs"
    by (simp add: bs be_int_def be64_def lessThan8 push_bit_eq_mult algebra_simps)
  then have "uint (be64 bs) = be_int bs mod 2 ^ LENGTH(64)" by (simp only: uint_word_of_int flip: \<open>word_of_int (be_int bs) = be64 bs\<close>)
  then show ?thesis using be_int_bounds [of bs] assms by simp
qed

lemma be_int_be64_bytes: "be_int (be64_bytes x) = uint x"
  using uint_be64 [of "be64_bytes x"] by (simp add: be64_be64_bytes)

lemma be64_bytes_be64: "length bs = 8 \<Longrightarrow> be64_bytes (be64 bs) = bs"
  by (rule iffD1 [OF be_int_inject]) (simp_all add: be_int_be64_bytes uint_be64)

lemma be_int_words: "be_int (concat (map be64_bytes (rev e))) = limbs e"
  by (induction e) (simp_all add: be_int_append be_int_be64_bytes)

lemma gfP_Marshal_fixed:
  assumes "length e = 4" "32 \<le> length out"
  shows "gfP_Marshal e out = Some (fixed_bytes 32 (limbs e) @ drop 32 out)"
proof -
  have "length (concat (map be64_bytes (rev e))) = 32"
    using assms(1) by (auto simp: length_concat length_Suc_conv numeral_eq_Suc)
  from fixed_bytes_eqI [OF this be_int_words] show ?thesis using gfP_Marshal_eq [OF assms] by simp
qed

lemma gfP_Unmarshal_zero:
  assumes "32 \<le> length m"
  obtains v where "gfP_Unmarshal gfP_zero m = Some v" "length v = 4" "limbs v = be_int (take 32 m)"
proof -
  define v where "v = map (\<lambda>w. be64 (take 8 (drop (8 * (3 - w)) m))) [0..<4]"
  have v: "v = [be64 (take 8 (drop 24 m)), be64 (take 8 (drop 16 m)), be64 (take 8 (drop 8 m)), be64 (take 8 m)]"
    by (simp add: v_def upt4)
  have "concat (map be64_bytes (rev v)) = take 8 m @ take 8 (drop 8 m) @ take 8 (drop 16 m) @ take 8 (drop 24 m)"
    using assms by (simp add: v be64_bytes_be64)
  also have "\<dots> = take (8 + (8 + (8 + 8))) m" by (simp only: take_add drop_drop add.assoc [symmetric]) simp
  also have "\<dots> = take 32 m" by simp
  finally have "limbs v = be_int (take 32 m)" by (simp flip: be_int_words)
  moreover have "gfP_Unmarshal gfP_zero m = Some v"
    using gfP_Unmarshal_eq [of gfP_zero m] assms by (simp add: gfP_zero_def upt4 v)
  ultimately show ?thesis using that v by simp
qed

lemma montEncode_any:
  assumes "length a = 4"
  shows "gfp_ok (montEncode a)" "gfp_val (montEncode a) = to_fp (limbs a)"
proof -
  have "limbs r2 < Sm9_p" "0 \<le> limbs r2" "length r2 = 4" using consts_ok by (simp_all add: gfp_ok_def)
  moreover have "limbs a < 2 ^ 256" using limbs4_bound assms by simp
  ultimately have "limbs a * limbs r2 < 2 ^ 256 * Sm9_p" by (intro mult_strict_mono) simp_all
  then have m: "limbs (montEncode a) = limbs a * limbs r2 * Rinv mod Sm9_p" "length (montEncode a) = 4"
    using gfpMul_val [of a r2] assms \<open>length r2 = 4\<close> by (simp_all add: montEncode_def)
  then show "gfp_ok (montEncode a)" by (simp add: gfp_ok_def)
  have "gfp_val (montEncode a) = to_fp (limbs a) * gfp_val r2 * to_fp Rinv"
    by (simp add: gfp_val_def m to_fp_mult mult_ac)
  then show "gfp_val (montEncode a) = to_fp (limbs a)"
    by (simp only: gfp_val_r2 mult.assoc to_fp_R_Rinv mult_1_right)
qed

lemma marshal_coords_eq:
  assumes "list_all gfp_ok xs" "off + 32 * length xs \<le> length ret"
  shows "marshal_coords off xs ret
    = Some (take off ret @ concat (map (fp_bytes \<circ> gfp_val) xs) @ drop (off + 32 * length xs) ret)"
  using assms
proof (induction xs arbitrary: off ret)
  case (Cons x xs)
  have d: "limbs (montDecode x) = fp_int (gfp_val x)" "length (montDecode x) = 4"
    using Cons.prems(1) montDecode_val by (simp_all add: gfp_ok_def)
  have "gfP_Marshal (montDecode x) (drop off ret) = Some (fp_bytes (gfp_val x) @ drop (off + 32) ret)"
    using Cons.prems(2) gfP_Marshal_fixed [OF d(2), of "drop off ret"] by (simp add: d(1) fp_bytes_def add.commute)
  moreover have "length (take off ret @ fp_bytes (gfp_val x) @ drop (off + 32) ret) = length ret"
    using Cons.prems(2) by simp
  ultimately show ?case using Cons by (simp add: ac_simps)
qed simp

lemma unmarshal_coords_ex:
  "off + 32 * n \<le> length m \<Longrightarrow>
    \<exists>xs. unmarshal_coords off (replicate n gfP_zero) m = Some xs \<and> list_all gfp_ok xs \<and> length xs = n
      \<and> map gfp_val xs = map (\<lambda>i. fp_at m (off + 32 * i)) [0..<n]"
proof (induction n arbitrary: off)
  case (Suc n)
  have "32 \<le> length (drop off m)" using Suc.prems by simp
  then obtain v where v: "gfP_Unmarshal gfP_zero (drop off m) = Some v" "length v = 4"
    "limbs v = be_int (take 32 (drop off m))"
    by (rule gfP_Unmarshal_zero)
  obtain xs where xs: "unmarshal_coords (off + 32) (replicate n gfP_zero) m = Some xs" "list_all gfp_ok xs"
    "length xs = n" "map gfp_val xs = map (\<lambda>i. fp_at m (off + 32 + 32 * i)) [0..<n]"
    using Suc.IH [of "off + 32"] Suc.prems by auto
  have "map gfp_val (montEncode v # xs) = map (\<lambda>i. fp_at m (off + 32 * i)) (0 # map Suc [0..<n])"
    using montEncode_any [OF v(2)] v(3) xs(4) by (simp add: fp_at_def ac_simps)
  also have "0 # map Suc [0..<n] = [0..<Suc n]" by (simp add: map_Suc_upt upt_conv_Cons del: upt_Suc)
  finally show ?case using v xs montEncode_any [OF v(2)]
    by (intro exI [of _ "montEncode v # xs"]) simp
qed simp

lemma unmarshal_coords_eq:
  assumes "off + 32 * n \<le> length m"
  obtains xs where "unmarshal_coords off (replicate n gfP_zero) m = Some xs" "list_all gfp_ok xs" "length xs = n"
    "map gfp_val xs = map (\<lambda>i. fp_at m (off + 32 * i)) [0..<n]"
  using unmarshal_coords_ex [OF assms] by blast

text \<open>Reading an encoding into coordinates that may be in use.\<close>

definition read_into :: "gfP \<Rightarrow> gfP \<Rightarrow> gfP" where
  "read_into e x = montEncode (map2 (+) e (montDecode x))"

lemma unmarshal_coords_encoded:
  assumes "list_all gfp_ok xs" "list_all (\<lambda>e. length e = 4) es" "length es = length xs" "length pre = off"
  shows "unmarshal_coords off es (pre @ concat (map (fp_bytes \<circ> gfp_val) xs) @ rest) = Some (map2 read_into es xs)"
  using assms(3,1,2,4)
proof (induction es xs arbitrary: off pre rule: list_induct2)
  case (Cons e es x xs)
  let ?m = "fp_bytes (gfp_val x) @ concat (map (fp_bytes \<circ> gfp_val) xs) @ rest"
  obtain v where v: "gfP_Unmarshal gfP_zero ?m = Some v" "length v = 4" "limbs v = be_int (take 32 ?m)"
    using gfP_Unmarshal_zero [of ?m] by auto
  have d: "limbs (montDecode x) = fp_int (gfp_val x)" "length (montDecode x) = 4"
    using montDecode_val Cons.prems(1) by (simp_all add: gfp_ok_def)
  have "v = montDecode x" using v d by (intro limbs_inject) (simp_all add: be_int_fp_bytes)
  moreover have "gfP_Unmarshal e ?m = Some (map2 (+) e v)"
  proof -
    have four: "length gfP_zero = 4" "length e = 4" using Cons.prems(2) by (simp_all add: gfP_zero_def)
    have "32 \<le> length ?m" by simp
    from gfP_Unmarshal_eq [OF four(1) this] gfP_Unmarshal_eq [OF four(2) this] v(1)
    show ?thesis by (simp add: upt4 gfP_zero_def)
  qed
  moreover have "unmarshal_coords (off + 32) es ((pre @ fp_bytes (gfp_val x)) @ concat (map (fp_bytes \<circ> gfp_val) xs) @ rest)
      = Some (map2 read_into es xs)"
    by (rule Cons.IH) (use Cons.prems in simp_all)
  ultimately show ?case using Cons.prems(3) by (simp add: comp_def read_into_def)
qed simp

lemma read_into_zero: "gfp_ok x \<Longrightarrow> read_into gfP_zero x = x"
proof -
  assume x: "gfp_ok x"
  have d: "limbs (montDecode x) = fp_int (gfp_val x)" "length (montDecode x) = 4"
    using montDecode_val x by (simp_all add: gfp_ok_def)
  then have "map2 (+) gfP_zero (montDecode x) = montDecode x"
    by (auto simp: gfP_zero_def numeral_eq_Suc length_Suc_conv)
  then show ?thesis using montEncode_any [OF d(2)] x
    by (simp add: read_into_def d(1) flip: gfp_val_inject)
qed

lemma read_into_zeros: "list_all gfp_ok xs \<Longrightarrow> map2 read_into (replicate (length xs) gfP_zero) xs = xs"
  by (induction xs) (simp_all add: read_into_zero)

lemma read_into_one: "read_into (newGFp 1) (newGFp 1) \<noteq> newGFp 1"
proof -
  have d: "montDecode (newGFp 1) = [1, 0, 0, 0]"
  proof (rule limbs_inject)
    have "fp_int 1 = 1" using fp_int_to_fp [of 1] by (simp add: Sm9_p_def)
    then show "limbs (montDecode (newGFp 1)) = limbs [1, 0, 0, 0]" using montDecode_val [of "newGFp 1"] by simp
    show "length (montDecode (newGFp 1)) = length [1, 0, 0, 0 :: u64]"
      using montDecode_val [OF newGFp_val [THEN conjunct1, of 1]] by (simp add: gfp_ok_def)
  qed
  define v where "v = map2 (+) (newGFp 1) (montDecode (newGFp 1))"
  have "to_fp (limbs v) \<noteq> to_fp 1"
    unfolding v_def d by (simp only: newGFp_one to_fp_eq_iff) (simp add: Sm9_p_def)
  moreover have "length v = 4" unfolding v_def d by (simp add: newGFp_one)
  then have "gfp_val (montEncode v) = to_fp (limbs v)" by (rule montEncode_any)
  moreover have "gfp_val (newGFp 1) = to_fp 1" using newGFp_val [of 1] by simp
  ultimately have "gfp_val (read_into (newGFp 1) (newGFp 1)) \<noteq> gfp_val (newGFp 1)"
    by (simp only: read_into_def v_def [symmetric] not_False_eq_True)
  then show ?thesis by auto
qed

lemma unmarshal_coords_roundtrip:
  assumes "list_all gfp_ok xs" "length pre = off" "n = length xs"
  shows "unmarshal_coords off (replicate n gfP_zero) (pre @ concat (map (fp_bytes \<circ> gfp_val) xs) @ rest) = Some xs"
proof -
  note read_into_zeros [OF assms(1)]
  then show ?thesis unfolding assms(3)
    by (subst unmarshal_coords_encoded) (use assms(1,2) in \<open>simp_all add: gfP_zero_def list_all_length\<close>)
qed

text \<open>What the three \<open>Unmarshal\<close> find in a receiver that is new or, in G1, cleared.\<close>

lemma cleared_coords:
  "[gfP_zero, gfP_zero] = replicate 2 gfP_zero"
  "[gfP2_x (tp_x zero_twist), gfP2_y (tp_x zero_twist), gfP2_x (tp_y zero_twist), gfP2_y (tp_y zero_twist)]
    = replicate 4 gfP_zero"
  "gfP12_coords zero_gfP12 = replicate 12 gfP_zero"
  by (simp_all add: numeral_eq_Suc zero_twist_def gfP2_SetZero_def gfP_zero_def gfP12_coords_def gfP6_coords_def
      zero_gfP12_def gfP12_SetZero_def gfP6_SetZero_def)

section \<open>Points of G1\<close>

lemma G1_Unmarshal_coords:
  assumes "64 \<le> length m" "unmarshal_coords 0 (replicate 2 gfP_zero) m = Some [x, y]" "gfp_ok x" "gfp_ok y"
  shows "\<exists>p. G1_Unmarshal e m =
      Some (if gfp_val x = 0 \<and> gfp_val y = 0 \<or> on_curve 5 (gfp_val x, gfp_val y) then Inr (drop 64 m) else Inl MalformedPoint, Some p)
    \<and> (if gfp_val x = 0 \<and> gfp_val y = 0 then curvePoint_IsInfinity p
       else p = \<lparr>cp_x = x, cp_y = y, cp_z = newGFp 1, cp_t = newGFp 1\<rparr>)"
proof -
  let ?p = "\<lparr>cp_x = x, cp_y = y, cp_z = newGFp 1, cp_t = newGFp 1\<rparr>"
  have new: "(case e of None \<Rightarrow> zero_point | Some c \<Rightarrow> c\<lparr>cp_x := gfP_zero, cp_y := gfP_zero\<rparr>) = p \<Longrightarrow>
      [cp_x p, cp_y p] = replicate 2 gfP_zero" for p
    by (auto simp: zero_point_def numeral_eq_Suc split: option.splits)
  have "curve_ok ?p" using assms(3,4) by (simp add: curve_ok_def)
  moreover have "\<not> curvePoint_IsInfinity ?p"
    using gfp_eq_zero_iff [of "newGFp 1"] by (simp add: curvePoint_IsInfinity_def)
  ultimately have on: "curvePoint_IsOnCurve ?p = (on_curve 5 (gfp_val x, gfp_val y), ?p)"
    using curve_isOnCurve [of ?p]
    by (auto simp: on_curve_def power2_eq_square power3_eq_cube curvePoint_IsOnCurve_def curvePoint_MakeAffine_def Let_def)
  have "\<not> length m < 2 * 32" using assms(1) by simp
  then have "G1_Unmarshal e m =
      (if x = gfP_zero \<and> y = gfP_zero
       then Some (Inr (drop 64 m), Some \<lparr>cp_x = x, cp_y = newGFp 1, cp_z = gfP_zero, cp_t = gfP_zero\<rparr>)
       else Some (if on_curve 5 (gfp_val x, gfp_val y) then Inr (drop 64 m) else Inl MalformedPoint, Some ?p))"
    unfolding G1_Unmarshal_def Let_def new [OF refl] assms(2) by (simp add: on)
  then show ?thesis
    by (auto simp: gfp_eq_zero_iff [OF assms(3)] gfp_eq_zero_iff [OF assms(4)] curvePoint_IsInfinity_def)
qed

lemma two_coords:
  assumes "off + 64 \<le> length m"
  obtains x y where "unmarshal_coords off (replicate 2 gfP_zero) m = Some [x, y]" "gfp_ok x" "gfp_ok y"
    "gfp_val x = fp_at m off" "gfp_val y = fp_at m (off + 32)"
proof -
  obtain xs where "unmarshal_coords off (replicate 2 gfP_zero) m = Some xs" "list_all gfp_ok xs" "length xs = 2"
    "map gfp_val xs = map (\<lambda>i. fp_at m (off + 32 * i)) [0..<2]"
    using unmarshal_coords_eq [of off 2 m] assms by auto
  then show ?thesis using that by (auto simp: numeral_eq_Suc length_Suc_conv)
qed

lemma G1_Marshal_point:
  assumes "curve_pt p (x, y)" "gfp_val (cp_z p) ^ nat (Sm9_p - 1) = 1"
  shows "G1_Marshal (Some p) = Some (fp_bytes x @ fp_bytes y, Some (curvePoint_MakeAffine p))"
proof -
  let ?a = "curvePoint_MakeAffine p"
  have a: "curve_pt ?a (x, y)" "gfp_val (cp_x ?a) = x" "gfp_val (cp_y ?a) = y"
    using curve_makeAffine [OF assms] by simp_all
  then have "list_all gfp_ok [cp_x ?a, cp_y ?a]" by (simp add: jac_pt_def curve_ok_def)
  from marshal_coords_eq [OF this, of 0 "replicate (32 * 2) 0"] show ?thesis
    using g1.pt_not_inf [OF a(1)] a by (simp add: G1_Marshal_def G1_point_def del: marshal_coords.simps)
qed

lemma G1_Marshal_infinity:
  assumes "curvePoint_IsInfinity p"
  shows "\<exists>q. G1_Marshal (Some p) = Some (replicate 64 0, Some q)" "G1_Marshal None = G1_Marshal (Some zero_point)"
proof -
  have "newGFp 1 \<noteq> gfP_zero" using gfp_eq_zero_iff [of "newGFp 1"] by simp
  then show "\<exists>q. G1_Marshal (Some p) = Some (replicate 64 0, Some q)"
    using assms by (simp add: G1_Marshal_def G1_point_def curvePoint_MakeAffine_def curvePoint_IsInfinity_def newGFp_zero)
  show "G1_Marshal None = G1_Marshal (Some zero_point)" by (simp add: G1_Marshal_def G1_point_def)
qed

lemma five_nonzero: "(5 :: fp) \<noteq> 0"
proof -
  have "to_fp 5 \<noteq> to_fp 0" by (simp only: to_fp_eq_iff) (simp add: Sm9_p_def)
  then show ?thesis by (simp add: to_fp_of_int)
qed

lemma G1_Unmarshal_point:
  assumes "64 \<le> length m" "on_curve 5 (fp_at m 0, fp_at m 32)"
  shows "\<exists>q. G1_Unmarshal e m = Some (Inr (drop 64 m), Some q) \<and> curve_pt q (fp_at m 0, fp_at m 32) \<and> cp_z q = newGFp 1"
proof -
  obtain a b where ab: "unmarshal_coords 0 (replicate 2 gfP_zero) m = Some [a, b]" "gfp_ok a" "gfp_ok b"
    "gfp_val a = fp_at m 0" "gfp_val b = fp_at m 32"
    using two_coords [of 0 m] assms(1) by auto
  have "\<not> (gfp_val a = 0 \<and> gfp_val b = 0)"
    using assms(2) ab five_nonzero by (auto simp: on_curve_def)
  then show ?thesis using G1_Unmarshal_coords [OF assms(1) ab(1-3), of e] assms(2) ab
    by (auto simp: jac_pt_def jac_rep_def curve_ok_def)
qed

lemma G1_Unmarshal_any:
  assumes "64 \<le> length m"
  shows "\<exists>p. G1_Unmarshal e m = Some (if fp_at m 0 = 0 \<and> fp_at m 32 = 0 \<or> on_curve 5 (fp_at m 0, fp_at m 32)
        then Inr (drop 64 m) else Inl MalformedPoint, Some p)
      \<and> (if fp_at m 0 = 0 \<and> fp_at m 32 = 0 then curvePoint_IsInfinity p
         else gfp_val (cp_x p) = fp_at m 0 \<and> gfp_val (cp_y p) = fp_at m 32 \<and> cp_z p = newGFp 1)"
proof -
  obtain a b where ab: "unmarshal_coords 0 (replicate 2 gfP_zero) m = Some [a, b]" "gfp_ok a" "gfp_ok b"
    "gfp_val a = fp_at m 0" "gfp_val b = fp_at m 32"
    using two_coords [of 0 m] assms by auto
  show ?thesis using G1_Unmarshal_coords [OF assms ab(1-3), of e] ab(4,5) by auto
qed

lemma fp_at_pair: "fp_at (fp_bytes x @ fp_bytes y @ rest) 0 = x" "fp_at (fp_bytes x @ fp_bytes y @ rest) 32 = y"
  using fp_at_fp_bytes [of "[]" 0 x "fp_bytes y @ rest"] fp_at_fp_bytes [of "fp_bytes x" 32 y rest] by simp_all

section \<open>Points of G2\<close>

definition fp2_bytes :: "fp2 \<Rightarrow> byte list" where
  "fp2_bytes x = fp_bytes (fp2_i x) @ fp_bytes (fp2_1 x)"

definition fp2_at :: "byte list \<Rightarrow> nat \<Rightarrow> fp2" where
  "fp2_at m off = Fp2 (fp_at m off) (fp_at m (off + 32))"

lemma four_coords:
  assumes "off + 128 \<le> length m"
  obtains a b c d where "unmarshal_coords off (replicate 4 gfP_zero) m = Some [a, b, c, d]"
    "gfP2_ok \<lparr>gfP2_x = a, gfP2_y = b\<rparr>" "gfP2_ok \<lparr>gfP2_x = c, gfP2_y = d\<rparr>"
    "gfP2_val \<lparr>gfP2_x = a, gfP2_y = b\<rparr> = fp2_at m off" "gfP2_val \<lparr>gfP2_x = c, gfP2_y = d\<rparr> = fp2_at m (off + 64)"
proof -
  obtain xs where "unmarshal_coords off (replicate 4 gfP_zero) m = Some xs" "list_all gfp_ok xs" "length xs = 4"
    "map gfp_val xs = map (\<lambda>i. fp_at m (off + 32 * i)) [0..<4]"
    using unmarshal_coords_eq [of off 4 m] assms by auto
  moreover from \<open>length xs = 4\<close> obtain a b c d where "xs = [a, b, c, d]" by (rule length4_cases)
  ultimately show ?thesis using that [of a b c d] by (simp add: upt4 gfP2_ok_def gfP2_val_def fp2_at_def add.assoc)
qed

lemma G2_Unmarshal_new:
  assumes "129 \<le> length m" "m ! 0 = 1"
  shows "\<exists>p. G2_Unmarshal None m =
      Some (if fp2_at m 1 = 0 \<and> fp2_at m 65 = 0 \<or> on_curve twist_b (fp2_at m 1, fp2_at m 65) then Inr (drop 129 m) else Inl MalformedPoint, Some p)
    \<and> (if fp2_at m 1 = 0 \<and> fp2_at m 65 = 0 then twistPoint_IsInfinity p
       else twist_ok p \<and> twist_x p = fp2_at m 1 \<and> twist_y p = fp2_at m 65 \<and> tp_z p = gfP2_SetOne \<and> tp_t p = gfP2_SetOne)"
proof -
  obtain a b c d where u: "unmarshal_coords 1 (replicate 4 gfP_zero) m = Some [a, b, c, d]"
    and ok: "gfP2_ok \<lparr>gfP2_x = a, gfP2_y = b\<rparr>" "gfP2_ok \<lparr>gfP2_x = c, gfP2_y = d\<rparr>"
    and v: "gfP2_val \<lparr>gfP2_x = a, gfP2_y = b\<rparr> = fp2_at m 1" "gfP2_val \<lparr>gfP2_x = c, gfP2_y = d\<rparr> = fp2_at m 65"
  proof -
    have e: "1 + 128 \<le> length m" "1 + 64 = (65 :: nat)" using assms(1) by simp_all
    show thesis using four_coords [OF e(1)] that unfolding e(2) by blast
  qed
  let ?x = "\<lparr>gfP2_x = a, gfP2_y = b\<rparr>" and ?y = "\<lparr>gfP2_x = c, gfP2_y = d\<rparr>"
  let ?p = "\<lparr>tp_x = ?x, tp_y = ?y, tp_z = gfP2_SetOne, tp_t = gfP2_SetOne\<rparr>"
  have z: "gfP2_IsOne gfP2_SetOne" "\<not> gfP2_IsZero gfP2_SetOne" "gfP2_IsZero gfP2_SetZero"
    by (simp_all add: gfP2_IsOne_iff gfP2_IsZero_iff)
  have one: "norm2 1 ^ n = 1" for n by (simp add: norm2_def one_fp2_def)
  have "twist_ok ?p" using ok by (simp add: twist_ok_def)
  then have on: "twistPoint_IsOnCurve ?p = (on_curve twist_b (fp2_at m 1, fp2_at m 65), ?p)"
    using twist_isOnCurve [of ?p] z one v
    by (auto simp: on_curve_def power2_eq_square power3_eq_cube twistPoint_IsOnCurve_def twistPoint_MakeAffine_def
        twistPoint_IsInfinity_def Let_def)
  have "G2_Unmarshal None m =
      (if gfP2_IsZero ?x \<and> gfP2_IsZero ?y
       then Some (Inr (drop 129 m), Some \<lparr>tp_x = ?x, tp_y = gfP2_SetOne, tp_z = gfP2_SetZero, tp_t = gfP2_SetZero\<rparr>)
       else Some (if on_curve twist_b (fp2_at m 1, fp2_at m 65) then Inr (drop 129 m) else Inl MalformedPoint, Some ?p))"
    using assms unfolding G2_Unmarshal_def Let_def G2_point_def option.case cleared_coords u by (simp add: on)
  then show ?thesis using ok v z(3)
    by (auto simp: gfP2_IsZero_iff twist_ok_def twistPoint_IsInfinity_def)
qed

lemma G2_Marshal_point:
  assumes "twist_pt p (x, y)" "norm2 (twist_z p) ^ nat (Sm9_p - 1) = 1"
  shows "G2_Marshal (Some p) = Some (1 # fp2_bytes x @ fp2_bytes y, Some (twistPoint_MakeAffine p))"
proof -
  define a where "a = twistPoint_MakeAffine p"
  have a: "twist_pt a (x, y)" "twist_x a = x" "twist_y a = y"
    using twist_makeAffine [OF assms] by (simp_all add: a_def)
  then have "list_all gfp_ok [gfP2_x (tp_x a), gfP2_y (tp_x a), gfP2_x (tp_y a), gfP2_y (tp_y a)]"
    by (simp add: jac_pt_def twist_ok_def gfP2_ok_def)
  note m = marshal_coords_eq [OF this, of 1 "(replicate (1 + 32 * 4) 0)[0 := 0x01]"]
  have "fp2_bytes x @ fp2_bytes y = concat (map (fp_bytes \<circ> gfp_val)
      [gfP2_x (tp_x a), gfP2_y (tp_x a), gfP2_x (tp_y a), gfP2_y (tp_y a)])"
    unfolding a(2,3) [symmetric] by (simp add: fp2_bytes_def gfP2_val_def)
  then show ?thesis
    using g2.pt_not_inf [OF a(1)] m
    by (simp add: G2_Marshal_def G2_point_def Let_def numeral_eq_Suc del: marshal_coords.simps flip: a_def)
qed

lemma G2_Unmarshal_point:
  assumes "129 \<le> length m" "m ! 0 = 1" "on_curve twist_b (fp2_at m 1, fp2_at m 65)"
  shows "\<exists>q. G2_Unmarshal None m = Some (Inr (drop 129 m), Some q) \<and> twist_pt q (fp2_at m 1, fp2_at m 65) \<and> miller_pt q"
proof -
  have "\<not> (fp2_at m 1 = 0 \<and> fp2_at m 65 = 0)"
    using assms(3) five_nonzero by (auto simp: on_curve_def twist_b_def fp2_defs)
  then obtain q where "G2_Unmarshal None m = Some (Inr (drop 129 m), Some q)" "twist_ok q" "twist_x q = fp2_at m 1"
    "twist_y q = fp2_at m 65" "tp_z q = gfP2_SetOne" "tp_t q = gfP2_SetOne"
    using G2_Unmarshal_new [OF assms(1,2)] assms(3) by auto
  then show ?thesis using assms(3) by (auto simp: jac_pt_def jac_rep_def miller_pt_def)
qed

lemma length_fp2_bytes [simp]: "length (fp2_bytes x) = 64"
  by (simp add: fp2_bytes_def)

lemma fp2_at_pair:
  "fp2_at (1 # fp2_bytes x @ fp2_bytes y @ rest) 1 = x" "fp2_at (1 # fp2_bytes x @ fp2_bytes y @ rest) 65 = y"
  by (simp_all add: fp2_at_def fp2_bytes_def fp_at_def be_int_fp_bytes)

section \<open>Elements of GT\<close>

lemma gfP12_coords_ok: "gfP12_ok a \<Longrightarrow> list_all gfp_ok (gfP12_coords a)" "length (gfP12_coords a) = 12"
  by (simp_all add: gfP12_ok_def gfP6_ok_def gfP2_ok_def gfP12_coords_def gfP6_coords_def)

definition gt_bytes :: "gfP12 \<Rightarrow> byte list" where
  "gt_bytes a = concat (map (fp_bytes \<circ> gfp_val) (gfP12_coords a))"

lemma length_gt_bytes [simp]: "length (gt_bytes a) = 384"
  by (simp add: gt_bytes_def length_concat gfP12_coords_ok comp_def sum_list_triv)

lemma GT_Marshal_bytes: "gfP12_ok a \<Longrightarrow> GT_Marshal (Some a) = Some (gt_bytes a, Some a)"
  using marshal_coords_eq [OF gfP12_coords_ok(1), of a 0 "replicate (32 * 12) 0"]
  by (simp add: GT_Marshal_def gfP12_coords_ok(2) gt_bytes_def)

lemma length12: "length xs = 12 \<Longrightarrow> \<exists>a b c d e f a' b' c' d' e' f'. xs = [a, b, c, d, e, f, a', b', c', d', e', f']"
  by (auto simp: numeral_eq_Suc length_Suc_conv)

lemma GT_Unmarshal_into:
  assumes "gfP12_ok a" "q = (case e of None \<Rightarrow> zero_gfP12 | Some r \<Rightarrow> r)" "gfP12_ok q"
  shows "\<exists>g. GT_Unmarshal e (gt_bytes a @ rest) = Some (Inr rest, Some g)
    \<and> gfP12_coords g = map2 read_into (gfP12_coords q) (gfP12_coords a)"
proof -
  have "list_all (\<lambda>e. length e = 4) (gfP12_coords q)"
    using gfP12_coords_ok(1) [OF assms(3)] by (auto simp: list_all_length gfp_ok_def)
  then have u: "unmarshal_coords 0 (gfP12_coords q) (gt_bytes a @ rest) = Some (map2 read_into (gfP12_coords q) (gfP12_coords a))"
    using unmarshal_coords_encoded [OF gfP12_coords_ok(1) [OF assms(1)], of "gfP12_coords q" "[]" 0 rest]
    by (simp add: gt_bytes_def gfP12_coords_ok(2))
  obtain b0 b1 b2 b3 b4 b5 c0 c1 c2 c3 c4 c5 where xs: "map2 read_into (gfP12_coords q) (gfP12_coords a)
      = [b0, b1, b2, b3, b4, b5, c0, c1, c2, c3, c4, c5]"
    using length12 [of "map2 read_into (gfP12_coords q) (gfP12_coords a)"] gfP12_coords_ok(2) by auto
  show ?thesis unfolding xs
    by (simp add: GT_Unmarshal_def Let_def u xs flip: assms(2)) (simp add: gfP12_coords_def gfP6_coords_def)
qed

lemma gfP12_coords_inject: "gfP12_coords a = gfP12_coords b \<longleftrightarrow> a = b"
  by (auto simp: gfP12_coords_def gfP6_coords_def intro!: gfP12.equality gfP6.equality gfP2.equality)

lemma unmarshal_coords_defined:
  "list_all (\<lambda>e. length e = 4) es \<Longrightarrow> off + 32 * length es \<le> length m \<Longrightarrow>
    \<exists>xs. unmarshal_coords off es m = Some xs \<and> list_all gfp_ok xs \<and> length xs = length es"
proof (induction es arbitrary: off)
  case (Cons e es)
  obtain xs where xs: "unmarshal_coords (off + 32) es m = Some xs" "list_all gfp_ok xs" "length xs = length es"
    using Cons.IH [of "off + 32"] Cons.prems by auto
  have "length e = 4" "32 \<le> length (drop off m)" using Cons.prems by simp_all
  then obtain v where "gfP_Unmarshal e (drop off m) = Some v" "length v = 4" using gfP_Unmarshal_eq by simp
  then show ?case using xs montEncode_any(1) by simp
qed simp

lemma GT_Unmarshal_coords:
  assumes "384 \<le> length m" "unmarshal_coords 0 (gfP12_coords (case g of None \<Rightarrow> zero_gfP12 | Some r \<Rightarrow> r)) m = Some xs"
    and "list_all gfp_ok xs" "length xs = 12"
  shows "\<exists>p. GT_Unmarshal g m = Some (Inr (drop 384 m), Some p) \<and> gfP12_ok p \<and> gfP12_coords p = xs"
proof -
  obtain a b c d e f a' b' c' d' e' f' where "xs = [a, b, c, d, e, f, a', b', c', d', e', f']" using length12 [OF assms(4)] by blast
  then show ?thesis using assms
    by (simp add: GT_Unmarshal_def Let_def gfP12_ok_def gfP6_ok_def gfP2_ok_def gfP12_coords_def gfP6_coords_def)
qed

lemma GT_Unmarshal_any:
  assumes "384 \<le> length m"
  shows "\<exists>p. GT_Unmarshal None m = Some (Inr (drop 384 m), Some p) \<and> gfP12_ok p \<and> map gfp_val (gfP12_coords p) = map (\<lambda>i. fp_at m (32 * i)) [0..<12]"
    "gfP12_ok r \<Longrightarrow> \<exists>p. GT_Unmarshal (Some r) m = Some (Inr (drop 384 m), Some p) \<and> gfP12_ok p"
proof -
  obtain xs where xs: "unmarshal_coords 0 (replicate 12 gfP_zero) m = Some xs" "list_all gfp_ok xs" "length xs = 12"
    "map gfp_val xs = map (\<lambda>i. fp_at m (0 + 32 * i)) [0..<12]" using unmarshal_coords_eq [of 0 12 m] assms by auto
  have "unmarshal_coords 0 (gfP12_coords (case None of None \<Rightarrow> zero_gfP12 | Some r \<Rightarrow> r)) m = Some xs" using xs(1) by (simp add: cleared_coords)
  from GT_Unmarshal_coords [OF assms this xs(2,3)] xs(4)
  show "\<exists>p. GT_Unmarshal None m = Some (Inr (drop 384 m), Some p) \<and> gfP12_ok p \<and> map gfp_val (gfP12_coords p) = map (\<lambda>i. fp_at m (32 * i)) [0..<12]"
    by auto
  assume "gfP12_ok r"
  then have "list_all (\<lambda>e. length e = 4) (gfP12_coords r)" using gfP12_coords_ok(1) by (auto simp: list_all_length gfp_ok_def)
  then obtain xs where "unmarshal_coords 0 (gfP12_coords r) m = Some xs" "list_all gfp_ok xs" "length xs = 12"
    using unmarshal_coords_defined [of "gfP12_coords r" 0 m] assms gfP12_coords_ok(2) by auto
  then show "\<exists>p. GT_Unmarshal (Some r) m = Some (Inr (drop 384 m), Some p) \<and> gfP12_ok p"
    using GT_Unmarshal_coords [OF assms, of "Some r" xs] by auto
qed

section \<open>Properties\<close>

text \<open>
  C28: What the three \<open>Unmarshal\<close> decide, on every input. In G1 a short input leaves the receiver alone; the
  two coordinates are read modulo \<open>p\<close> whatever the receiver held, the pair of zeros is the point at infinity
  and every other pair has to be on the curve. In G2 (with a new receiver) a first byte 0 is the point at
  infinity, a first byte other than 0 and 1 is malformed before the length is looked at. In GT a short input leaves the
  receiver alone and every other one is accepted: a new receiver holds the twelve coordinates, read modulo \<open>p\<close>, and one in
  use a reduced element again. The bytes that follow are returned.
\<close>

theorem unmarshal_decisions:
  "(length m < 64 \<longrightarrow> G1_Unmarshal e m = Some (Inl NotEnoughData, e))
    \<and> (64 \<le> length m \<longrightarrow> (\<exists>p. G1_Unmarshal e m = Some (if fp_at m 0 = 0 \<and> fp_at m 32 = 0 \<or> on_curve 5 (fp_at m 0, fp_at m 32)
          then Inr (drop 64 m) else Inl MalformedPoint, Some p)
        \<and> (if fp_at m 0 = 0 \<and> fp_at m 32 = 0 then curvePoint_IsInfinity p
           else gfp_val (cp_x p) = fp_at m 0 \<and> gfp_val (cp_y p) = fp_at m 32 \<and> cp_z p = newGFp 1)))
    \<and> (m \<noteq> [] \<and> m ! 0 = 0 \<longrightarrow> G2_Unmarshal f m = Some (Inr (drop 1 m), Some twistPoint_SetInfinity))
    \<and> (m \<noteq> [] \<and> m ! 0 \<noteq> 0 \<and> m ! 0 \<noteq> 1 \<longrightarrow> G2_Unmarshal f m = Some (Inl MalformedPoint, Some (G2_point f)))
    \<and> (m = [] \<or> m ! 0 = 1 \<and> length m < 129 \<longrightarrow> G2_Unmarshal f m = Some (Inl NotEnoughData, Some (G2_point f)))
    \<and> (129 \<le> length m \<and> m ! 0 = 1 \<longrightarrow> (\<exists>p. G2_Unmarshal None m = Some (if fp2_at m 1 = 0 \<and> fp2_at m 65 = 0
          \<or> on_curve twist_b (fp2_at m 1, fp2_at m 65) then Inr (drop 129 m) else Inl MalformedPoint, Some p)
        \<and> (if fp2_at m 1 = 0 \<and> fp2_at m 65 = 0 then twistPoint_IsInfinity p
           else twist_x p = fp2_at m 1 \<and> twist_y p = fp2_at m 65 \<and> tp_z p = gfP2_SetOne)))
    \<and> (length m < 384 \<longrightarrow> GT_Unmarshal g m = Some (Inl NotEnoughData, g))
    \<and> (384 \<le> length m \<longrightarrow> (\<exists>p. GT_Unmarshal None m = Some (Inr (drop 384 m), Some p) \<and> gfP12_ok p
        \<and> map gfp_val (gfP12_coords p) = map (\<lambda>i. fp_at m (32 * i)) [0..<12]))
    \<and> (384 \<le> length m \<and> gfP12_ok r \<longrightarrow> (\<exists>p. GT_Unmarshal (Some r) m = Some (Inr (drop 384 m), Some p) \<and> gfP12_ok p))"
proof (intro conjI impI)
  assume "64 \<le> length m"
  then show "\<exists>p. G1_Unmarshal e m = Some (if fp_at m 0 = 0 \<and> fp_at m 32 = 0 \<or> on_curve 5 (fp_at m 0, fp_at m 32)
        then Inr (drop 64 m) else Inl MalformedPoint, Some p)
      \<and> (if fp_at m 0 = 0 \<and> fp_at m 32 = 0 then curvePoint_IsInfinity p
         else gfp_val (cp_x p) = fp_at m 0 \<and> gfp_val (cp_y p) = fp_at m 32 \<and> cp_z p = newGFp 1)"
    by (rule G1_Unmarshal_any)
next
  assume "129 \<le> length m \<and> m ! 0 = 1"
  then show "\<exists>p. G2_Unmarshal None m = Some (if fp2_at m 1 = 0 \<and> fp2_at m 65 = 0
        \<or> on_curve twist_b (fp2_at m 1, fp2_at m 65) then Inr (drop 129 m) else Inl MalformedPoint, Some p)
      \<and> (if fp2_at m 1 = 0 \<and> fp2_at m 65 = 0 then twistPoint_IsInfinity p
         else twist_x p = fp2_at m 1 \<and> twist_y p = fp2_at m 65 \<and> tp_z p = gfP2_SetOne)"
    using G2_Unmarshal_new [of m] by (elim conjE) (metis (lifting))
next
  assume "384 \<le> length m"
  then show "\<exists>p. GT_Unmarshal None m = Some (Inr (drop 384 m), Some p) \<and> gfP12_ok p
      \<and> map gfp_val (gfP12_coords p) = map (\<lambda>i. fp_at m (32 * i)) [0..<12]"
    by (rule GT_Unmarshal_any)
next
  assume "384 \<le> length m \<and> gfP12_ok r"
  then show "\<exists>p. GT_Unmarshal (Some r) m = Some (Inr (drop 384 m), Some p) \<and> gfP12_ok p" using GT_Unmarshal_any(2) by blast
qed (auto simp: G1_Unmarshal_def G2_Unmarshal_def GT_Unmarshal_def Let_def)

theorem unmarshal_decisions_witness:
  "G1_Unmarshal None [1, 2, 3] = Some (Inl NotEnoughData, None)
    \<and> G2_Unmarshal None [2] = Some (Inl MalformedPoint, Some (G2_point None))
    \<and> G2_Unmarshal None [0, 7] = Some (Inr [7], Some twistPoint_SetInfinity)
    \<and> (\<exists>p. GT_Unmarshal None (replicate 384 255 @ [7]) = Some (Inr [7], Some p))"
proof -
  have "384 \<le> length (replicate 384 255 @ [7 :: byte])" "drop 384 (replicate 384 255 @ [7 :: byte]) = [7]" by simp_all
  then have "\<exists>p. GT_Unmarshal None (replicate 384 255 @ [7]) = Some (Inr [7], Some p)"
    using unmarshal_decisions [where m = "replicate 384 255 @ [7]"] by metis
  then show ?thesis
    using unmarshal_decisions [of "[1, 2, 3]" None] unmarshal_decisions [where m = "[2]" and f = None]
      unmarshal_decisions [where m = "[0, 7]" and f = None] by simp
qed

text \<open>
  C9: Points of G1 and G2 survive their encoding. \<open>Marshal\<close> of a point in any Jacobian representation gives
  the bytes of its affine coordinates, in G1 64 bytes and in G2 the byte 1 and 128 bytes, the point at
  infinity of G1 is 64 zeros; \<open>Unmarshal\<close>, in G1 with any receiver and in G2 with a new one, gives back
  the affine point and the bytes that follow, and the G2 point is ready for the Miller loop.
\<close>

theorem point_roundtrips:
  assumes "curve_pt p (x, y)" "gfp_val (cp_z p) ^ nat (Sm9_p - 1) = 1" "curvePoint_IsInfinity o1"
    "twist_pt q (x', y')" "norm2 (twist_z q) ^ nat (Sm9_p - 1) = 1"
  shows "G1_Marshal (Some p) = Some (fp_bytes x @ fp_bytes y, Some (curvePoint_MakeAffine p))
    \<and> (\<exists>p'. G1_Unmarshal e (fp_bytes x @ fp_bytes y @ rest) = Some (Inr rest, Some p') \<and> curve_pt p' (x, y) \<and> cp_z p' = newGFp 1)
    \<and> map_option fst (G1_Marshal (Some o1)) = Some (replicate 64 0)
    \<and> (\<exists>o2. G1_Unmarshal e (replicate 64 0 @ rest) = Some (Inr rest, Some o2) \<and> curvePoint_IsInfinity o2)
    \<and> G2_Marshal (Some q) = Some (1 # fp2_bytes x' @ fp2_bytes y', Some (twistPoint_MakeAffine q))
    \<and> (\<exists>q'. G2_Unmarshal None (1 # fp2_bytes x' @ fp2_bytes y' @ rest) = Some (Inr rest, Some q')
        \<and> twist_pt q' (x', y') \<and> miller_pt q')"
proof (intro conjI)
  show "G1_Marshal (Some p) = Some (fp_bytes x @ fp_bytes y, Some (curvePoint_MakeAffine p))"
    by (rule G1_Marshal_point [OF assms(1,2)])
  have on: "on_curve 5 (x, y)" "on_curve twist_b (x', y')" using assms(1,4) by (simp_all add: jac_pt_def)
  show "\<exists>p'. G1_Unmarshal e (fp_bytes x @ fp_bytes y @ rest) = Some (Inr rest, Some p') \<and> curve_pt p' (x, y) \<and> cp_z p' = newGFp 1"
    using G1_Unmarshal_point [of "fp_bytes x @ fp_bytes y @ rest" e] on by (simp add: fp_at_pair)
  show "map_option fst (G1_Marshal (Some o1)) = Some (replicate 64 0)"
    using G1_Marshal_infinity [OF assms(3)] by auto
  have "fp_at (replicate 64 0 @ rest) k = 0" if "k = 0 \<or> k = 32" for k
    using that by (auto simp: fp_at_def take_append drop_append)
  then show "\<exists>o2. G1_Unmarshal e (replicate 64 0 @ rest) = Some (Inr rest, Some o2) \<and> curvePoint_IsInfinity o2"
    using G1_Unmarshal_any [of "replicate 64 0 @ rest" e] by simp
  show "G2_Marshal (Some q) = Some (1 # fp2_bytes x' @ fp2_bytes y', Some (twistPoint_MakeAffine q))"
    by (rule G2_Marshal_point [OF assms(4,5)])
  show "\<exists>q'. G2_Unmarshal None (1 # fp2_bytes x' @ fp2_bytes y' @ rest) = Some (Inr rest, Some q')
        \<and> twist_pt q' (x', y') \<and> miller_pt q'"
    using G2_Unmarshal_point [of "1 # fp2_bytes x' @ fp2_bytes y' @ rest"] on by (simp add: fp2_at_pair del: One_nat_def)
qed

theorem point_roundtrips_witness:
  "G1_Marshal (Some curveGen) = Some (fp_bytes (gfp_val G1x) @ fp_bytes (gfp_val G1y), Some (curvePoint_MakeAffine curveGen))
    \<and> G2_Marshal (Some twistGen) = Some (1 # fp2_bytes tgx @ fp2_bytes tgy, Some (twistPoint_MakeAffine twistGen))"
proof -
  have "curvePoint_IsInfinity zero_point" by (simp add: curvePoint_IsInfinity_def zero_point_def)
  moreover have "norm2 1 ^ n = 1" for n by (simp add: norm2_def one_fp2_def)
  ultimately show ?thesis
    using point_roundtrips [OF curveGen_pt _ _ twistGen_pt] by (simp add: twistGen_val) (simp add: curveGen_def)
qed

text \<open>
  The encoding of GT is the bytes of the twelve coordinates, and \<open>Unmarshal\<close> with a new receiver restores
  every element. A receiver in use is not cleared: every coordinate it holds is added, word by word and
  in Montgomery form, to the coordinate that is read.
\<close>

theorem gt_encoding:
  assumes "gfP12_ok a" "gfP12_ok r"
  shows "GT_Marshal (Some a) = Some (gt_bytes a, Some a) \<and> length (gt_bytes a) = 384
    \<and> GT_Unmarshal None (gt_bytes a @ rest) = Some (Inr rest, Some a)
    \<and> (\<exists>g. GT_Unmarshal (Some r) (gt_bytes a @ rest) = Some (Inr rest, Some g)
        \<and> gfP12_coords g = map2 read_into (gfP12_coords r) (gfP12_coords a))"
proof -
  have z: "gfP12_ok zero_gfP12" by (simp add: zero_gfP12_def)
  obtain g where g: "GT_Unmarshal None (gt_bytes a @ rest) = Some (Inr rest, Some g)"
    "gfP12_coords g = map2 read_into (gfP12_coords zero_gfP12) (gfP12_coords a)"
    using GT_Unmarshal_into [OF assms(1) _ z, of None rest] by auto
  then have "gfP12_coords g = gfP12_coords a"
    using read_into_zeros [OF gfP12_coords_ok(1) [OF assms(1)]] by (simp add: cleared_coords gfP12_coords_ok(2))
  then show ?thesis
    using g(1) GT_Unmarshal_into [OF assms(1) _ assms(2), of "Some r" rest] assms(1)
    by (simp add: gfP12_coords_inject GT_Marshal_bytes)
qed

theorem gt_encoding_witness:
  "\<exists>g. GT_Unmarshal (Some gfP12_SetOne) (gt_bytes gfP12_SetOne) = Some (Inr [], Some g) \<and> g \<noteq> gfP12_SetOne"
proof -
  obtain g where g: "GT_Unmarshal (Some gfP12_SetOne) (gt_bytes gfP12_SetOne) = Some (Inr [], Some g)"
    "gfP12_coords g = map2 read_into (gfP12_coords gfP12_SetOne) (gfP12_coords gfP12_SetOne)"
    using gt_encoding [of gfP12_SetOne gfP12_SetOne "[]"] by auto
  have "read_into (newGFp 1) (newGFp 1) \<noteq> newGFp 1" by (rule read_into_one)
  moreover have "gfP12_coords gfP12_SetOne ! 11 = newGFp 1"
    by (simp add: gfP12_coords_def gfP6_coords_def gfP12_SetOne_def gfP6_SetOne_def gfP2_SetOne_def)
  ultimately have "gfP12_coords g ! 11 \<noteq> gfP12_coords gfP12_SetOne ! 11"
    using g(2) gfP12_coords_ok(2) by simp
  then show ?thesis using g(1) by auto
qed

end
