(* ===== verification/Sm9_Elliptic.thy ===== *)
theory Sm9_Elliptic
  imports Sm9_Groups
begin

text \<open>
  The curve of G1 behind \<open>elliptic.Curve\<close>, \<open>elliptic.go\<close>, and the functions of \<open>curve_interface.go\<close>: affine
  points as pairs of integers, Jacobian points as twelve words, point compression with the square
  root modulo \<open>p\<close>, and the table of multiples of an arbitrary point. A result \<open>None\<close> is a panic.
\<close>

section \<open>Integers and points of G1\<close>

record CurveParams =
  cp_P :: int
  cp_N :: int
  cp_B :: int
  cp_Gx :: int
  cp_Gy :: int
  cp_BitSize :: nat

definition SM9 :: CurveParams where
  "SM9 = \<lparr>cp_P = 0xB640000002A3A6F1D603AB4FF58EC74521F2934B1A7AEEDBE56F9B27E351457D,
          cp_N = 0xB640000002A3A6F1D603AB4FF58EC74449F2934B18EA8BEEE56EE19CD69ECF25,
          cp_B = 5,
          cp_Gx = 0x93DE051D62BF718FF5ED0704487D01D6E1E4086909DC3280E8C4E4817C66DDDD,
          cp_Gy = 0x21FE8DDA4F21E607631065125C395BBC1C1C00CBFA6024350C464CD70A3EA616,
          cp_BitSize = 256\<rparr>"

definition Curve_IsOnCurve :: "int \<Rightarrow> int \<Rightarrow> bool" where
  "Curve_IsOnCurve x y =
     (let y2 = y * y mod cp_P SM9;
          x3 = (x * x * x + cp_B SM9) mod cp_P SM9
      in x3 = y2)"

text \<open>\<open>copy(m[hi-len(b):hi], b)\<close>, a panic when \<open>b\<close> is longer than \<open>hi\<close>.\<close>

definition copy_right :: "nat \<Rightarrow> byte list \<Rightarrow> byte list \<Rightarrow> byte list option" where
  "copy_right hi b m = (if length b \<le> hi then Some (take (hi - length b) m @ b @ drop hi m) else None)"

text \<open>The result is the group element or, after a message on the terminal, nil.\<close>

definition BigToG1 :: "int \<Rightarrow> int \<Rightarrow> G1 option option" where
  "BigToG1 x y =
     (case copy_right 32 (big_Bytes x) (replicate 64 0) of None \<Rightarrow> None | Some m \<Rightarrow>
      case copy_right 64 (big_Bytes y) m of None \<Rightarrow> None | Some m \<Rightarrow>
      case G1_Unmarshal None m of None \<Rightarrow> None
      | Some (Inl err, r) \<Rightarrow> Some None
      | Some (Inr rest, r) \<Rightarrow> Some (Some r))"

definition G1ToBig :: "G1 \<Rightarrow> (int \<times> int) option" where
  "G1ToBig g1 = map_option (\<lambda>(m, g1). (be_int (take 32 m), be_int (take 32 (drop 32 m)))) (G1_Marshal g1)"

text \<open>An argument that \<open>BigToG1\<close> has refused is a nil pointer, which the operations of G1 read.\<close>

definition Curve_Add :: "int \<Rightarrow> int \<Rightarrow> int \<Rightarrow> int \<Rightarrow> (int \<times> int) option" where
  "Curve_Add x1 y1 x2 y2 =
     (case BigToG1 x1 y1 of None \<Rightarrow> None | Some a \<Rightarrow>
      case BigToG1 x2 y2 of None \<Rightarrow> None | Some b \<Rightarrow>
      (case (a, b) of
         (Some a, Some b) \<Rightarrow> Option.bind (G1_Add None a b) G1ToBig
       | _ \<Rightarrow> None))"

definition Curve_Double :: "int \<Rightarrow> int \<Rightarrow> (int \<times> int) option" where
  "Curve_Double x1 y1 = Curve_Add x1 y1 x1 y1"

definition Curve_ScalarMult :: "int \<Rightarrow> int \<Rightarrow> byte list \<Rightarrow> (int \<times> int) option" where
  "Curve_ScalarMult x1 y1 k =
     (case BigToG1 x1 y1 of
        Some (Some p1) \<Rightarrow> Option.bind (G1_ScalarMult p1 (be_int k)) G1ToBig
      | _ \<Rightarrow> None)"

definition Curve_ScalarBaseMult :: "byte list \<Rightarrow> (int \<times> int) option" where
  "Curve_ScalarBaseMult k = Option.bind (G1_ScalarBaseMult (be_int k)) G1ToBig"

definition Curve_Neg :: "int \<Rightarrow> int \<Rightarrow> int \<times> int" where
  "Curve_Neg x1 y1 = (x1, cp_P SM9 - y1)"

definition Curve_CombinedMult :: "int \<Rightarrow> int \<Rightarrow> byte list \<Rightarrow> byte list \<Rightarrow> (int \<times> int) option" where
  "Curve_CombinedMult bigX bigY baseScalar scalar =
     (case Curve_ScalarBaseMult baseScalar of None \<Rightarrow> None | Some (x1, y1) \<Rightarrow>
      case Curve_ScalarMult bigX bigY scalar of None \<Rightarrow> None | Some (x2, y2) \<Rightarrow>
      Curve_Add x1 y1 x2 y2)"

text \<open>The conversions of the other groups: nil for an input that \<open>Unmarshal\<close> refuses.\<close>

definition BytesToG2 :: "byte list \<Rightarrow> G2 option option" where
  "BytesToG2 inp =
     map_option (\<lambda>(res, point). case res of Inl err \<Rightarrow> None | Inr rest \<Rightarrow> Some point) (G2_Unmarshal None inp)"

definition G2ToBytes :: "G2 \<Rightarrow> byte list option" where
  "G2ToBytes point = map_option fst (G2_Marshal point)"

definition BytesToGt :: "byte list \<Rightarrow> GT option option" where
  "BytesToGt inp =
     map_option (\<lambda>(res, point). case res of Inl err \<Rightarrow> None | Inr rest \<Rightarrow> Some point) (GT_Unmarshal None inp)"

definition GtToBytes :: "GT \<Rightarrow> byte list option" where
  "GtToBytes point = map_option fst (GT_Marshal point)"

section \<open>Jacobian points as words\<close>

definition InternalP2CurveP :: "u64 list \<Rightarrow> curvePoint" where
  "InternalP2CurveP xyz = \<lparr>cp_x = take 4 xyz, cp_y = take 4 (drop 4 xyz), cp_z = take 4 (drop 8 xyz), cp_t = gfP_zero\<rparr>"

definition InternalP2CurveAffineP :: "u64 list \<Rightarrow> curvePointAffine" where
  "InternalP2CurveAffineP xyz = \<lparr>cpa_x = take 4 xyz, cpa_y = take 4 (drop 4 xyz)\<rparr>"

definition CurveP2InternalP :: "curvePoint \<Rightarrow> u64 list" where
  "CurveP2InternalP p = cp_x p @ cp_y p @ cp_z p"

definition mogo_bigInt :: int where
  "mogo_bigInt = 0x49bffffffd5c590e29fc54b00a7138bade0d6cb4e58511241a9064d81caeba83"

definition AffineToPoint :: "int \<Rightarrow> int \<Rightarrow> u64 list option" where
  "AffineToPoint x y =
     (case fromBig 4 (x * mogo_bigInt mod Sm9_p) of None \<Rightarrow> None | Some xw \<Rightarrow>
      case fromBig 4 (y * mogo_bigInt mod Sm9_p) of None \<Rightarrow> None | Some yw \<Rightarrow>
      Some (xw @ yw @ [0x1a9064d81caeba83, 0xde0d6cb4e5851124, 0x29fc54b00a7138ba, 0x49bffffffd5c590e]))"

definition PointToAffine :: "u64 list \<Rightarrow> (int \<times> int) option" where
  "PointToAffine xyz =
     (let temp = curvePoint_MakeAffine (InternalP2CurveP xyz)
      in case gfP_Marshal (montDecode (cp_x temp)) (replicate 32 0) of None \<Rightarrow> None | Some ret1 \<Rightarrow>
         case gfP_Marshal (montDecode (cp_y temp)) (replicate 32 0) of None \<Rightarrow> None | Some ret2 \<Rightarrow>
         Some (be_int ret1, be_int ret2))"

definition JacobianAdd :: "u64 list \<Rightarrow> u64 list \<Rightarrow> u64 list" where
  "JacobianAdd a b =
     (let t1 = InternalP2CurveP a; t2 = InternalP2CurveP b
      in CurveP2InternalP (curvePoint_Add t1 t1 t2))"

definition JacobianAddAffine :: "u64 list \<Rightarrow> u64 list \<Rightarrow> u64 list" where
  "JacobianAddAffine a b =
     (let t1 = InternalP2CurveP a; t2 = InternalP2CurveAffineP b
      in CurveP2InternalP (curvePoint_Add_JA t1 t1 t2))"

definition JacobianDouble :: "u64 list \<Rightarrow> u64 list" where
  "JacobianDouble p1 = (let t1 = InternalP2CurveP p1 in CurveP2InternalP (curvePoint_Double t1 t1))"

definition PointNegCondition :: "u64 list \<Rightarrow> int \<Rightarrow> u64 list" where
  "PointNegCondition p1 condition =
     (if condition = 0 then p1 else CurveP2InternalP (curvePoint_Neg (InternalP2CurveP p1)))"

definition FieldMul :: "u64 list \<Rightarrow> u64 list \<Rightarrow> u64 list \<Rightarrow> u64 list option" where
  "FieldMul res in1 in2 =
     (if length in1 < 4 \<or> length in2 < 4 \<or> length res < 4 then None
      else Some (gfpMul (take 4 in2) (take 4 in1) @ drop 4 res))"

definition MontgomaryR :: "u64 list" where
  "MontgomaryR = [0x1a9064d81caeba83, 0xde0d6cb4e5851124, 0x29fc54b00a7138ba, 0x49bffffffd5c590e]"

definition MontgomaryR2 :: "u64 list" where
  "MontgomaryR2 = [0x27dea312b417e2d2, 0x88f8105fae1a5d3f, 0xe479b522d6706e7b, 0x2ea795a656f62fbd]"

definition ModInverseP :: "u64 list \<Rightarrow> u64 list option" where
  "ModInverseP a = (if length a < 4 then None else Some (gfP_Invert (take 4 a)))"

text \<open>\<open>ModInverse\<close> leaves its receiver, which holds one, alone when there is no inverse.\<close>

definition ModInverseOrder :: "int \<Rightarrow> int" where
  "ModInverseOrder a = (case big_ModInverse a Order of None \<Rightarrow> 1 | Some b \<Rightarrow> b)"

section \<open>Compression\<close>

definition constu :: int where
  "constu = 0x16c80000005474de3ac07569feb1d8e8a43e5269634f5ddb7cadf364fc6a28af"

definition constuplus1 :: int where
  "constuplus1 = 0x16c80000005474de3ac07569feb1d8e8a43e5269634f5ddb7cadf364fc6a28b0"

definition const2uplus1 :: int where
  "const2uplus1 = 0x2d90000000a8e9bc7580ead3fd63b1d1487ca4d2c69ebbb6f95be6c9f8d4515f"

text \<open>\<open>Exp\<close> with the positive exponents of this file.\<close>

definition exp_mod :: "int \<Rightarrow> int \<Rightarrow> int" where
  "exp_mod a e = a ^ nat e mod Sm9_p"

definition ModSqrtP :: "int \<Rightarrow> int" where
  "ModSqrtP a =
     (let one = 1;
          fone = -1 mod Sm9_p;
          temp = exp_mod a const2uplus1
      in if temp = one then exp_mod a constuplus1
         else if temp = fone then
           (let one = (a + a) mod Sm9_p;
                fone = (one + one) mod Sm9_p;
                fone = exp_mod fone constu
            in fone * one mod Sm9_p)
         else a)"

definition DecompressPointX4Y :: "int \<Rightarrow> bool \<Rightarrow> int" where
  "DecompressPointX4Y x ybit =
     (let x3 = (x * x * x + 5) mod Sm9_p;
          y = ModSqrtP x3
      in if ybit \<noteq> odd y then Sm9_p - y else y)"

definition CompressP :: "int \<Rightarrow> int \<Rightarrow> byte list option" where
  "CompressP x y =
     (if x = 0 \<and> y = 0 then Some [0x00]
      else
        let ret = (replicate (1 + 32) 0)[0 := if even y then 0x02 else 0x03]
        in copy_right (1 + 32) (big_Bytes x) ret)"

text \<open>The result \<open>Some None\<close> is the pair of nil pointers.\<close>

definition DecompressP :: "byte list \<Rightarrow> (int \<times> int) option option" where
  "DecompressP data =
     (if data = [] then Some None
      else if data ! 0 = 0x00 then Some (if length data = 1 then Some (0, 0) else None)
      else if data ! 0 = 0x02 \<or> data ! 0 = 0x03 then
        (if length data \<noteq> 1 + 32 then Some None
         else
           let x = be_int (drop 1 data);
               x3 = (x * x * x + 5) mod Sm9_p;
               y = ModSqrtP x3;
               y = if odd y \<noteq> bit (data ! 0 AND 0x01) 0 then Sm9_p - y else y
           in Some (Some (x, y)))
      else if data ! 0 = 0x04 then
        (if length data < 1 + 32 then None
         else Some (Some (be_int (take 32 (drop 1 data)), be_int (drop (1 + 32) data))))
      else Some None)"

datatype decompress_error = DecompressFail

definition Curve_Compress :: "int \<Rightarrow> int \<Rightarrow> byte list option" where
  "Curve_Compress x y = CompressP x y"

definition Curve_Decompress :: "byte list \<Rightarrow> (decompress_error + int \<times> int) option" where
  "Curve_Decompress inp =
     map_option (\<lambda>r. case r of None \<Rightarrow> Inl DecompressFail | Some xy \<Rightarrow> Inr xy) (DecompressP inp)"

section \<open>The table of multiples of a point\<close>

text \<open>
  One entry and one column of \<open>InitBigTable\<close>. The coordinate \<open>z\<close> is set to one before \<open>IsInfinity\<close> is asked,
  so the branch that would store zeros is never taken (and what it stores is overwritten).
\<close>

definition big_entry :: "nat \<Rightarrow> base_table \<times> curvePoint \<times> curvePoint \<Rightarrow> nat \<Rightarrow> base_table \<times> curvePoint \<times> curvePoint" where
  "big_entry j st i =
     (case st of (tab, t1, t3) \<Rightarrow>
        case (if i \<noteq> 0 then ((\<lambda>(t1, t3). let t3 = curvePoint_Double t3 t1 in (curvePoint_Set t3, t3)) ^^ 6) (t1, t3)
              else (t1, t3)) of (t1, t3) \<Rightarrow>
          let t1 = (curvePoint_MakeAffine t1)\<lparr>cp_z := [0x1a9064d81caeba83, 0xde0d6cb4e5851124, 0x29fc54b00a7138ba, 0x49bffffffd5c590e]\<rparr>
          in (tab[i := store_entry (tab ! i) j (cp_x t1) (cp_y t1)], t1, t3))"

definition big_column :: "curvePoint \<Rightarrow> base_table \<times> curvePoint \<times> curvePoint \<times> curvePoint \<Rightarrow> nat
    \<Rightarrow> base_table \<times> curvePoint \<times> curvePoint \<times> curvePoint" where
  "big_column basepoint st j =
     (case st of (tab, t1, t2, t3) \<Rightarrow>
        let t1 = curvePoint_Set t2
        in case foldl (big_entry j) (tab, t1, t3) [0..<43] of (tab, t1, t3) \<Rightarrow>
          let t2 = if j = 0 then curvePoint_Double t2 basepoint else curvePoint_Add t2 t2 basepoint
          in (tab, t1, t2, t3))"

definition InitBigTable :: "int \<Rightarrow> int \<Rightarrow> base_table option" where
  "InitBigTable Bx By =
     (case AffineToPoint Bx By of None \<Rightarrow> None | Some btpoint \<Rightarrow>
        let basepoint = InternalP2CurveP btpoint
        in Some (fst (foldl (big_column basepoint)
             (replicate 43 (replicate 256 0), basepoint, basepoint, basepoint) [0..<32])))"

lemma ModInverseOrder_inverse:
  "if gcd a Order = 1 then 0 \<le> ModInverseOrder a \<and> ModInverseOrder a < Order \<and> a * ModInverseOrder a mod Order = 1
   else ModInverseOrder a = 1"
proof -
  have "1 < Order" by (simp add: Order_def)
  from big_ModInverse_inverse [OF this, of a] show ?thesis
    by (auto simp: ModInverseOrder_def big_ModInverse_def split: option.splits if_splits)
qed

section \<open>Affine points\<close>

lemma SM9_params: "cp_P SM9 = Sm9_p" "cp_N SM9 = Order" "cp_B SM9 = 5"
  by (simp_all add: SM9_def Sm9_p_def Order_def)

lemma to_fp_p [simp]: "to_fp Sm9_p = 0"
  by (simp add: to_fp_eq_iff flip: to_fp_0)

lemma copy_coordinates:
  assumes "\<bar>x\<bar> < 256 ^ 32" "\<bar>y\<bar> < 256 ^ 32"
  shows "copy_right 32 (big_Bytes x) (replicate 64 0) = Some (fixed_bytes 32 \<bar>x\<bar> @ replicate 32 0)"
    "copy_right 64 (big_Bytes y) (fixed_bytes 32 \<bar>x\<bar> @ replicate 32 0) = Some (fixed_bytes 32 \<bar>x\<bar> @ fixed_bytes 32 \<bar>y\<bar>)"
proof -
  have len: "length (big_Bytes x) \<le> 32" "length (big_Bytes y) \<le> 32" using assms by (simp_all add: length_big_Bytes)
  have p: "replicate (32 - length (big_Bytes x)) 0 @ big_Bytes x = fixed_bytes 32 \<bar>x\<bar>"
    "replicate (32 - length (big_Bytes y)) 0 @ big_Bytes y = fixed_bytes 32 \<bar>y\<bar>"
    using padded_bytes_eq [of 32 x] padded_bytes_eq [of 32 y] assms len by (simp_all add: padded_bytes_def Let_def)
  show "copy_right 32 (big_Bytes x) (replicate 64 0) = Some (fixed_bytes 32 \<bar>x\<bar> @ replicate 32 0)"
    using len(1) by (simp add: copy_right_def flip: p(1))
  show "copy_right 64 (big_Bytes y) (fixed_bytes 32 \<bar>x\<bar> @ replicate 32 0) = Some (fixed_bytes 32 \<bar>x\<bar> @ fixed_bytes 32 \<bar>y\<bar>)"
    using len(2) by (simp add: copy_right_def flip: p(2))
qed

lemma BigToG1_eq:
  assumes "\<bar>x\<bar> < 256 ^ 32" "\<bar>y\<bar> < 256 ^ 32"
  defines "X \<equiv> to_fp \<bar>x\<bar>" and "Y \<equiv> to_fp \<bar>y\<bar>"
  shows "if X = 0 \<and> Y = 0 then \<exists>p. BigToG1 x y = Some (Some (Some p)) \<and> curvePoint_IsInfinity p
    else if on_curve 5 (X, Y) then \<exists>p. BigToG1 x y = Some (Some (Some p)) \<and> curve_pt p (X, Y) \<and> cp_z p = newGFp 1
    else BigToG1 x y = Some None"
proof -
  let ?m = "fixed_bytes 32 \<bar>x\<bar> @ fixed_bytes 32 \<bar>y\<bar>"
  have f: "fp_at ?m 0 = X" "fp_at ?m 32 = Y"
    using assms(1,2) by (simp_all add: fp_at_def X_def Y_def be_int_fixed_bytes)
  have "BigToG1 x y = (case G1_Unmarshal None ?m of None \<Rightarrow> None | Some (Inl err, r) \<Rightarrow> Some None | Some (Inr rest, r) \<Rightarrow> Some (Some r))"
    unfolding BigToG1_def copy_coordinates(1) [OF assms(1,2)] option.case copy_coordinates(2) [OF assms(1,2)] ..
  then show ?thesis
    using G1_Unmarshal_any [of ?m None] G1_Unmarshal_point [of ?m None] f by (auto split: if_splits)
qed

lemma G1ToBig_point:
  assumes "curve_pt p (x, y)" "gfp_val (cp_z p) ^ nat (Sm9_p - 1) = 1"
  shows "G1ToBig (Some p) = Some (fp_int x, fp_int y)"
  using G1_Marshal_point [OF assms] by (simp add: G1ToBig_def be_int_fp_bytes)

lemma G1ToBig_infinity: "curvePoint_IsInfinity p \<Longrightarrow> G1ToBig (Some p) = Some (0, 0)"
  using G1_Marshal_infinity(1) by (fastforce simp: G1ToBig_def)

lemma Curve_IsOnCurve_iff: "Curve_IsOnCurve x y \<longleftrightarrow> on_curve 5 (to_fp x, to_fp y)"
proof -
  have five: "(5 :: fp) = to_fp 5" by (simp add: to_fp_of_int)
  have "Curve_IsOnCurve x y \<longleftrightarrow> to_fp (x * x * x + 5) = to_fp (y * y)"
    by (simp add: Curve_IsOnCurve_def SM9_params to_fp_eq_iff Let_def)
  also have "\<dots> \<longleftrightarrow> to_fp x * to_fp x * to_fp x + 5 = to_fp y * to_fp y" by (simp only: to_fp_add to_fp_mult five)
  finally show ?thesis by (auto simp: on_curve_def)
qed

text \<open>An affine argument of the interface: both integers fit 32 bytes and the point is on the curve.\<close>

definition affine_arg :: "int \<Rightarrow> int \<Rightarrow> bool" where
  "affine_arg x y \<longleftrightarrow> 0 \<le> x \<and> x < 2 ^ 256 \<and> 0 \<le> y \<and> y < 2 ^ 256 \<and> Curve_IsOnCurve x y"

lemma affine_arg_BigToG1:
  assumes "affine_arg x y"
  obtains p where "BigToG1 x y = Some (Some (Some p))" "curve_pt p (to_fp x, to_fp y)" "cp_z p = newGFp 1"
proof -
  have "\<bar>x\<bar> < 256 ^ 32" "\<bar>y\<bar> < 256 ^ 32" "\<bar>x\<bar> = x" "\<bar>y\<bar> = y" using assms by (simp_all add: affine_arg_def)
  moreover have "on_curve 5 (to_fp x, to_fp y)" using assms by (simp add: affine_arg_def Curve_IsOnCurve_iff)
  moreover from this have "\<not> (to_fp x = 0 \<and> to_fp y = 0)" using five_nonzero by (auto simp: on_curve_def)
  ultimately show ?thesis using BigToG1_eq [of x y] that by auto
qed

lemma fermat_one: "gfp_val (newGFp 1) ^ n = 1"
  using newGFp_val [of 1] by simp

lemma affine_sum_z:
  assumes "curve_pt p (x1, y1)" "cp_z p = newGFp 1" "curve_pt q (x2, y2)" "cp_z q = newGFp 1" "x2 - x1 dvd 1"
  shows "curve_z (curvePoint_Add c p q) = 2 * (x2 - x1)"
proof -
  have z: "curve_z p = 1" "curve_z q = 1" using assms(2,4) newGFp_val [of 1] by simp_all
  moreover have "curve_x p = x1" "curve_x q = x2" using assms(1,3) z by (simp_all add: jac_pt_def jac_rep_def)
  moreover have "curve_z (curvePoint_Add c p q) = jac_add_z (curve_x p) (curve_z p) (curve_x q) (curve_z q)"
    using curve_add_other [of p q c] g1.pt_not_inf [OF assms(1)] g1.pt_not_inf [OF assms(3)]
      g1.chord_z_unit [OF assms(1,3,5)] assms(1,3) by (simp add: jac_pt_def)
  ultimately show ?thesis by (simp add: jac_add_z_def algebra_simps)
qed

lemma Curve_Add_points:
  assumes "BigToG1 x1 y1 = Some (Some (Some p))" "BigToG1 x2 y2 = Some (Some (Some q))"
  shows "Curve_Add x1 y1 x2 y2 = G1ToBig (Some (curvePoint_Add zero_point p q))"
  by (simp add: Curve_Add_def assms G1_Add_def G1_point_def)

lemma BigToG1_zero: obtains o1 where "BigToG1 0 0 = Some (Some (Some o1))" "curvePoint_IsInfinity o1"
  using BigToG1_eq [of 0 0] by auto

lemma unit_of_power: "(a :: fp) ^ n = 1 \<Longrightarrow> 0 < n \<Longrightarrow> a dvd 1"
  by (metis dvd_power)

lemma fp_int_ints: "fp_int (to_fp x) = x mod Sm9_p"
  by (rule fp_int_to_fp)

lemma G1ToBig_affine:
  "curve_pt p (x, y) \<Longrightarrow> cp_z p = newGFp 1 \<Longrightarrow> G1ToBig (Some p) = Some (fp_int x, fp_int y)"
  by (rule G1ToBig_point) (simp_all add: fermat_one)

lemma Curve_Add_neutral:
  assumes "affine_arg x y"
  shows "Curve_Add x y 0 0 = Some (x mod Sm9_p, y mod Sm9_p)" "Curve_Add 0 0 x y = Some (x mod Sm9_p, y mod Sm9_p)"
proof -
  obtain p where p: "BigToG1 x y = Some (Some (Some p))" "curve_pt p (to_fp x, to_fp y)" "cp_z p = newGFp 1"
    using affine_arg_BigToG1 [OF assms] .
  obtain o1 where o1: "BigToG1 0 0 = Some (Some (Some o1))" "curvePoint_IsInfinity o1" using BigToG1_zero .
  have "curvePoint_Add zero_point p o1 = p" "curvePoint_Add zero_point o1 p = p"
    using o1(2) g1.pt_not_inf [OF p(2)] by (simp_all add: curvePoint_Add_def)
  then show "Curve_Add x y 0 0 = Some (x mod Sm9_p, y mod Sm9_p)" "Curve_Add 0 0 x y = Some (x mod Sm9_p, y mod Sm9_p)"
    using Curve_Add_points [OF p(1) o1(1)] Curve_Add_points [OF o1(1) p(1)] G1ToBig_affine [OF p(2,3)]
    by (simp_all add: fp_int_ints)
qed

lemma Curve_Add_opposite:
  assumes "affine_arg x y" "y < Sm9_p" "to_fp y dvd 1"
  shows "Curve_Add x y x (Sm9_p - y) = Some (0, 0)"
proof -
  have ny: "to_fp (Sm9_p - y) = - to_fp y" by (simp add: to_fp_diff to_fp_p)
  obtain p where p: "BigToG1 x y = Some (Some (Some p))" "curve_pt p (to_fp x, to_fp y)"
    using affine_arg_BigToG1 [OF assms(1)] .
  have "affine_arg x (Sm9_p - y)"
    using assms(1,2) Sm9_p_bytes by (auto simp: affine_arg_def Curve_IsOnCurve_iff ny on_curve_def)
  then obtain q where q: "BigToG1 x (Sm9_p - y) = Some (Some (Some q))" "curve_pt q (to_fp x, to_fp (Sm9_p - y))"
    by (rule affine_arg_BigToG1)
  have "curvePoint_IsInfinity (curvePoint_Add zero_point p q)"
    using g1.add_opposite [OF p(2) _ assms(3)] q(2) by (simp add: ny)
  then show ?thesis using Curve_Add_points [OF p(1) q(1)] G1ToBig_infinity by simp
qed

lemma Curve_Add_chord:
  assumes "affine_arg x1 y1" "affine_arg x2 y2" "to_fp (2 * (x2 - x1)) ^ nat (Sm9_p - 1) = 1"
  shows "\<exists>l. l * (to_fp x2 - to_fp x1) = to_fp y2 - to_fp y1
      \<and> Curve_Add x1 y1 x2 y2 = Some (map_prod fp_int fp_int (line_sum l (to_fp x1, to_fp y1) (to_fp x2)))"
proof -
  obtain p where p: "BigToG1 x1 y1 = Some (Some (Some p))" "curve_pt p (to_fp x1, to_fp y1)" "cp_z p = newGFp 1"
    using affine_arg_BigToG1 [OF assms(1)] .
  obtain q where q: "BigToG1 x2 y2 = Some (Some (Some q))" "curve_pt q (to_fp x2, to_fp y2)" "cp_z q = newGFp 1"
    using affine_arg_BigToG1 [OF assms(2)] .
  have d: "to_fp (2 * (x2 - x1)) = 2 * (to_fp x2 - to_fp x1)"
    using to_fp_of_int [of 2] by (simp add: to_fp_mult to_fp_diff)
  have "2 * (to_fp x2 - to_fp x1) dvd 1" using unit_of_power [OF assms(3) [unfolded d]] by (simp add: Sm9_p_def)
  then have u: "to_fp x2 - to_fp x1 dvd 1" by (metis dvd_mult_right)
  obtain l where l: "l * (to_fp x2 - to_fp x1) = to_fp y2 - to_fp y1"
    "curve_pt (curvePoint_Add zero_point p q) (line_sum l (to_fp x1, to_fp y1) (to_fp x2))"
    using g1.add_chord [OF p(2) q(2) u] by blast
  have "curve_z (curvePoint_Add zero_point p q) ^ nat (Sm9_p - 1) = 1"
    unfolding affine_sum_z [OF p(2,3) q(2,3) u] using assms(3) unfolding d .
  then have "G1ToBig (Some (curvePoint_Add zero_point p q))
      = Some (map_prod fp_int fp_int (line_sum l (to_fp x1, to_fp y1) (to_fp x2)))"
    using l(2) G1ToBig_point by (cases "line_sum l (to_fp x1, to_fp y1) (to_fp x2)") simp
  with l(1) show ?thesis by (simp add: Curve_Add_points [OF p(1) q(1)]) blast
qed

lemma Curve_Double_tangent:
  assumes "affine_arg x y" "to_fp (2 * y) ^ nat (Sm9_p - 1) = 1"
  shows "\<exists>l. l * (2 * to_fp y) = 3 * (to_fp x * to_fp x)
      \<and> Curve_Double x y = Some (map_prod fp_int fp_int (line_sum l (to_fp x, to_fp y) (to_fp x)))"
proof -
  obtain p where p: "BigToG1 x y = Some (Some (Some p))" "curve_pt p (to_fp x, to_fp y)" "cp_z p = newGFp 1"
    using affine_arg_BigToG1 [OF assms(1)] .
  have d: "to_fp (2 * y) = 2 * to_fp y" using to_fp_of_int [of 2] by (simp add: to_fp_mult)
  have "2 * to_fp y dvd 1" using unit_of_power [OF assms(2) [unfolded d]] by (simp add: Sm9_p_def)
  then have u: "to_fp y dvd 1" by (metis dvd_mult_right)
  have same: "curvePoint_Add zero_point p p = curvePoint_Double zero_point p" by (rule g1.add_equal [OF p(2) p(2)])
  obtain l where l: "l * (2 * to_fp y) = 3 * (to_fp x * to_fp x)"
    "curve_pt (curvePoint_Double zero_point p) (line_sum l (to_fp x, to_fp y) (to_fp x))"
    using g1.dbl_tangent [OF p(2) u] by blast
  have "curve_z p = 1" using p(3) newGFp_val [of 1] by simp
  then have "curve_z (curvePoint_Double zero_point p) = to_fp (2 * y)"
    using curve_double_law [of p zero_point] g1.pt_not_inf [OF p(2)] p(2) by (simp add: jac_pt_def jac_rep_def d)
  then have "G1ToBig (Some (curvePoint_Double zero_point p))
      = Some (map_prod fp_int fp_int (line_sum l (to_fp x, to_fp y) (to_fp x)))"
    using l(2) assms(2) G1ToBig_point by (cases "line_sum l (to_fp x, to_fp y) (to_fp x)") simp
  with l(1) show ?thesis by (simp add: Curve_Double_def Curve_Add_points [OF p(1) p(1)] same) blast
qed

lemma Curve_Add_panics:
  assumes "\<bar>x\<bar> < 2 ^ 256 \<and> \<bar>y\<bar> < 2 ^ 256 \<and> \<not> Curve_IsOnCurve \<bar>x\<bar> \<bar>y\<bar> \<and> \<not> (x mod Sm9_p = 0 \<and> y mod Sm9_p = 0) \<or> 2 ^ 256 \<le> \<bar>x\<bar>"
  shows "Curve_Add x y x1 y1 = None"
proof (cases "2 ^ 256 \<le> \<bar>x\<bar>")
  case True
  then have "\<not> length (big_Bytes x) \<le> 32" by (simp add: length_big_Bytes)
  then show ?thesis by (simp add: Curve_Add_def BigToG1_def copy_right_def)
next
  case False
  have z: "to_fp \<bar>a\<bar> = 0 \<longleftrightarrow> a mod Sm9_p = 0" for a
    by (simp add: to_fp_eq_iff mod_eq_0_iff_dvd flip: to_fp_0)
  have "BigToG1 x y = Some None"
    using BigToG1_eq [of x y] assms False by (simp add: z Curve_IsOnCurve_iff)
  then show ?thesis by (simp add: Curve_Add_def split: option.splits)
qed

section \<open>Square roots and compression\<close>

lemma CompressP_bytes:
  assumes "0 \<le> x" "x < 2 ^ 256" "x \<noteq> 0 \<or> y \<noteq> 0"
  shows "CompressP x y = Some ((if even y then 2 else 3) # fixed_bytes 32 x)"
proof -
  have len: "length (big_Bytes x) \<le> 32" using assms(1,2) by (simp add: length_big_Bytes)
  have p: "replicate (32 - length (big_Bytes x)) 0 @ big_Bytes x = fixed_bytes 32 x"
    using padded_bytes_eq [of 32 x] assms(1,2) len by (simp add: padded_bytes_def Let_def)
  have "take (33 - length (big_Bytes x)) ((replicate 33 0)[0 := b]) = b # replicate (32 - length (big_Bytes x)) 0" for b :: byte
  proof -
    have "(replicate 33 0)[0 := b] = b # replicate 32 0" by (simp add: numeral_eq_Suc)
    moreover have "33 - length (big_Bytes x) = Suc (32 - length (big_Bytes x))" using len by simp
    ultimately show ?thesis by simp
  qed
  then show ?thesis using assms(3) len by (auto simp: CompressP_def Let_def copy_right_def p)
qed

lemma exp_mod_val: "to_fp (exp_mod a e) = to_fp a ^ nat e"
  by (simp add: exp_mod_def to_fp_power)

lemma square_root_consts:
  "nat const2uplus1 = Suc (2 * nat constu)" "nat constuplus1 = Suc (nat constu)"
  "nat ((Sm9_p - 1) div 2) = 2 * nat const2uplus1"
  by (simp_all add: const2uplus1_def constuplus1_def constu_def Sm9_p_def)

lemma ModSqrtP_square:
  assumes "0 \<le> a" "a < Sm9_p"
  shows "exp_mod a const2uplus1 = 1 \<Longrightarrow> to_fp (ModSqrtP a) * to_fp (ModSqrtP a) = to_fp a"
    "exp_mod a const2uplus1 = Sm9_p - 1 \<Longrightarrow>
      to_fp (ModSqrtP a) * to_fp (ModSqrtP a) = - (to_fp (exp_mod 2 ((Sm9_p - 1) div 2)) * to_fp a)"
    "exp_mod a const2uplus1 \<noteq> 1 \<Longrightarrow> exp_mod a const2uplus1 \<noteq> Sm9_p - 1 \<Longrightarrow> ModSqrtP a = a"
proof -
  let ?A = "to_fp a" and ?u = "nat constu"
  have fone: "-1 mod Sm9_p = Sm9_p - 1" "Sm9_p - 1 \<noteq> 1" by (simp_all add: Sm9_p_def)
  have two: "to_fp 2 = 2" "to_fp (Sm9_p - 1) = - 1" by (simp add: to_fp_of_int) (simp add: to_fp_diff)
  show "to_fp (ModSqrtP a) * to_fp (ModSqrtP a) = ?A" if h: "exp_mod a const2uplus1 = 1"
  proof -
    have "?A ^ Suc (2 * ?u) = 1" using arg_cong [OF h, of to_fp] by (simp only: exp_mod_val square_root_consts to_fp_1)
    moreover have "to_fp (ModSqrtP a) = ?A ^ Suc ?u" by (simp add: ModSqrtP_def h exp_mod_val square_root_consts)
    moreover have "?A ^ Suc ?u * ?A ^ Suc ?u = ?A ^ Suc (2 * ?u) * ?A"
      by (simp only: power_add [symmetric] power_Suc2 [symmetric]) (simp add: mult_2)
    ultimately show ?thesis by simp
  qed
  show "to_fp (ModSqrtP a) * to_fp (ModSqrtP a) = - (to_fp (exp_mod 2 ((Sm9_p - 1) div 2)) * ?A)"
    if h: "exp_mod a const2uplus1 = Sm9_p - 1"
  proof -
    have e: "?A ^ Suc (2 * ?u) = - 1" using arg_cong [OF h, of to_fp] by (simp only: exp_mod_val square_root_consts two)
    have "to_fp (ModSqrtP a) = (4 * ?A) ^ ?u * (2 * ?A)"
      using fone by (simp add: ModSqrtP_def h Let_def exp_mod_val to_fp_mult to_fp_add two)
    then have "to_fp (ModSqrtP a) * to_fp (ModSqrtP a) = ((4 * ?A) ^ ?u * (4 * ?A) ^ ?u * (4 * ?A)) * ?A"
      by (simp add: algebra_simps)
    also have "(4 * ?A) ^ ?u * (4 * ?A) ^ ?u * (4 * ?A) = (4 * ?A) ^ Suc (2 * ?u)"
      by (simp only: power_add [symmetric] power_Suc2 [symmetric]) (simp add: mult_2)
    also have "\<dots> = 2 ^ (2 * Suc (2 * ?u)) * ?A ^ Suc (2 * ?u)" by (simp only: power_mult_distrib power_mult) simp
    also have "2 ^ (2 * Suc (2 * ?u)) = to_fp (exp_mod 2 ((Sm9_p - 1) div 2))"
      by (simp only: exp_mod_val square_root_consts two)
    finally show ?thesis unfolding e by simp
  qed
  show "ModSqrtP a = a" if "exp_mod a const2uplus1 \<noteq> 1" "exp_mod a const2uplus1 \<noteq> Sm9_p - 1"
    using that by (simp add: ModSqrtP_def fone)
qed

lemma DecompressP_bytes:
  assumes "0 \<le> x" "x < 2 ^ 256"
  shows "DecompressP ((if even y then 2 else 3) # fixed_bytes 32 x)
    = Some (Some (x, let r = ModSqrtP ((x * x * x + 5) mod Sm9_p) in if odd r \<noteq> odd y then Sm9_p - r else r))"
proof -
  have "be_int (fixed_bytes 32 x) = x" using assms by (simp add: be_int_fixed_bytes)
  then show ?thesis by (auto simp: DecompressP_def Let_def)
qed

section \<open>Words and the table of a point\<close>

lemma mogo_val: "to_fp mogo_bigInt = to_fp (2 ^ 256)"
  by (simp only: to_fp_eq_iff) (simp add: mogo_bigInt_def Sm9_p_def)

lemma affine_words:
  obtains s where "fromBig 4 (x * mogo_bigInt mod Sm9_p) = Some s" "gfp_ok s" "gfp_val s = to_fp x"
proof -
  have b: "0 \<le> x * mogo_bigInt mod Sm9_p" "x * mogo_bigInt mod Sm9_p < Sm9_p" by simp_all
  moreover have "Sm9_p < 2 ^ (64 * 4)" by (simp add: Sm9_p_def)
  ultimately have "\<bar>x * mogo_bigInt mod Sm9_p\<bar> < 2 ^ (64 * 4)" by linarith
  from fromBig_some [OF this] obtain s where s: "fromBig 4 (x * mogo_bigInt mod Sm9_p) = Some s" "length s = 4"
    "limbs s = x * mogo_bigInt mod Sm9_p" using b by auto
  have "gfp_val s = to_fp x * (to_fp (2 ^ 256) * to_fp Rinv)"
    by (simp only: gfp_val_def s(3) to_fp_mult to_fp_mod mogo_val mult_ac)
  then have "gfp_val s = to_fp x" by (simp only: to_fp_R_Rinv mult_1_right)
  moreover have "gfp_ok s" using s b by (simp add: gfp_ok_def)
  ultimately show ?thesis using that s(1) by blast
qed

lemma AffineToPoint_words:
  obtains xw yw where "AffineToPoint x y = Some (xw @ yw @ newGFp 1)" "gfp_ok xw" "gfp_val xw = to_fp x"
    "gfp_ok yw" "gfp_val yw = to_fp y"
    "InternalP2CurveP (xw @ yw @ newGFp 1) = \<lparr>cp_x = xw, cp_y = yw, cp_z = newGFp 1, cp_t = gfP_zero\<rparr>"
proof -
  obtain xw where xw: "fromBig 4 (x * mogo_bigInt mod Sm9_p) = Some xw" "gfp_ok xw" "gfp_val xw = to_fp x"
    using affine_words .
  obtain yw where yw: "fromBig 4 (y * mogo_bigInt mod Sm9_p) = Some yw" "gfp_ok yw" "gfp_val yw = to_fp y"
    using affine_words .
  have "AffineToPoint x y = Some (xw @ yw @ newGFp 1)" by (simp add: AffineToPoint_def xw(1) yw(1) newGFp_one)
  moreover have "InternalP2CurveP (xw @ yw @ newGFp 1) = \<lparr>cp_x = xw, cp_y = yw, cp_z = newGFp 1, cp_t = gfP_zero\<rparr>"
    using xw(2) yw(2) by (simp add: InternalP2CurveP_def gfp_ok_def newGFp_one)
  ultimately show ?thesis using that xw yw by blast
qed

lemma gfP_Marshal_decoded:
  "gfp_ok a \<Longrightarrow> gfP_Marshal (montDecode a) (replicate 32 0) = Some (fixed_bytes 32 (fp_int (gfp_val a)))"
  using gfP_Marshal_fixed [of "montDecode a" "replicate 32 0"] montDecode_val [of a] by (simp add: gfp_ok_def)

lemma PointToAffine_words:
  assumes "gfp_ok xw" "gfp_val xw = to_fp x" "gfp_ok yw" "gfp_val yw = to_fp y"
    "InternalP2CurveP w = \<lparr>cp_x = xw, cp_y = yw, cp_z = newGFp 1, cp_t = gfP_zero\<rparr>"
  shows "PointToAffine w = Some (x mod Sm9_p, y mod Sm9_p)"
proof -
  have "be_int (fixed_bytes 32 (a mod Sm9_p)) = a mod Sm9_p" for a
    using be_int_fp_bytes [of "to_fp a"] by (simp add: fp_bytes_def fp_int_to_fp)
  then show ?thesis using assms
    by (simp add: PointToAffine_def curvePoint_MakeAffine_def gfP_Marshal_decoded fp_int_to_fp)
qed

text \<open>The six doublings of \<open>InitBigTable\<close>, which alternate between two points.\<close>

lemma big_doubles:
  assumes "multiple gen t1 n"
  shows "multiple gen (fst (((\<lambda>(t1, t3). let t3 = curvePoint_Double t3 t1 in (curvePoint_Set t3, t3)) ^^ k) (t1, t3))) (2 ^ k * n)"
proof (induction k)
  case (Suc k)
  then show ?case using multiple_double [OF Suc] by (simp add: case_prod_beta Let_def curvePoint_Set_def mult.assoc)
qed (simp add: assms)

lemma big_entry_step:
  assumes gok: "\<And>Q n. gen Q n \<Longrightarrow> curve_ok Q" and j: "j < 32" and i: "i < 43" and shape: "table_shape tab"
    and old: "\<forall>i'<43. \<forall>j'<32. j' < j \<or> j' = j \<and> i' < i \<longrightarrow> table_good gen tab i' j'"
    and t1: "multiple gen t1 (if i = 0 then int j + 1 else (int j + 1) * 64 ^ (i - 1))"
  shows "case big_entry j (tab, t1, t3) i of (tab', t1', t3') \<Rightarrow> table_shape tab'
    \<and> (\<forall>i'<43. \<forall>j'<32. j' < j \<or> j' = j \<and> i' < Suc i \<longrightarrow> table_good gen tab' i' j')
    \<and> multiple gen t1' ((int j + 1) * 64 ^ i)"
proof -
  define u where "u = (if i \<noteq> 0 then ((\<lambda>(t1, t3). let t3 = curvePoint_Double t3 t1 in (curvePoint_Set t3, t3)) ^^ 6) (t1, t3)
    else (t1, t3))"
  have u: "multiple gen (fst u) ((int j + 1) * 64 ^ i)"
  proof (cases "i = 0")
    case False
    then have "(64 :: int) ^ i = 64 * 64 ^ (i - 1)" by (cases i) auto
    then show ?thesis using False big_doubles [OF t1, of 6 t3] by (simp add: u_def algebra_simps)
  qed (use t1 in \<open>simp add: u_def\<close>)
  define v where "v = (curvePoint_MakeAffine (fst u))\<lparr>cp_z := newGFp 1\<rparr>"
  have v: "multiple gen v ((int j + 1) * 64 ^ i)" unfolding v_def by (rule multiple_affine [OF u])
  have z: "cp_z v = newGFp 1" by (simp add: v_def)
  have e: "big_entry j (tab, t1, t3) i = (tab[i := store_entry (tab ! i) j (cp_x v) (cp_y v)], v, snd u)"
    unfolding big_entry_def prod.case u_def [symmetric] v_def newGFp_one by (simp add: Let_def split: prod.splits)
  show ?thesis unfolding e prod.case using store_good [OF gok j i shape old v z] v by simp
qed

lemma big_column_step:
  assumes gok: "curve_ok B" and j: "j < 32" and shape: "table_shape tab"
    and old: "\<forall>i'<43. \<forall>j'<32. j' < j \<longrightarrow> table_good (\<lambda>P m. P = B \<and> m = 1) tab i' j'"
    and t2: "multiple (\<lambda>P m. P = B \<and> m = 1) t2 (int j + 1)"
  shows "case big_column B (tab, t1, t2, t3) j of (tab', t1', t2', t3') \<Rightarrow> table_shape tab'
    \<and> (\<forall>i'<43. \<forall>j'<32. j' < Suc j \<longrightarrow> table_good (\<lambda>P m. P = B \<and> m = 1) tab' i' j')
    \<and> multiple (\<lambda>P m. P = B \<and> m = 1) t2' (int (Suc j) + 1)"
proof -
  let ?gen = "\<lambda>P m. P = B \<and> m = (1 :: int)"
  define I where "I = (\<lambda>i (tab, t1, t3 :: curvePoint). table_shape tab
    \<and> (\<forall>i'<43. \<forall>j'<32. j' < j \<or> j' = j \<and> i' < i \<longrightarrow> table_good ?gen tab i' j')
    \<and> multiple ?gen t1 (if i = 0 then int j + 1 else (int j + 1) * 64 ^ (i - 1)))"
  obtain tab' t1' t3' where f: "foldl (big_entry j) (tab, t2, t3) [0..<43] = (tab', t1', t3')"
    by (metis prod_cases3)
  have "I 43 (foldl (big_entry j) (tab, t2, t3) [0..<43])"
  proof (rule foldl_upt_invariant)
    show "I 0 (tab, t2, t3)" using shape old t2 by (simp add: I_def)
    fix i s assume "0 \<le> i" "i < 43" "I i s"
    then show "I (Suc i) (big_entry j s i)"
      using big_entry_step [where gen = ?gen and j = j and i = i and tab = "fst s" and ?t1.0 = "fst (snd s)" and ?t3.0 = "snd (snd s)"]
        gok j by (auto simp: I_def split: prod.splits)
  qed simp
  then have I: "I 43 (tab', t1', t3')" by (simp only: f)
  define t2' where "t2' = (if j = 0 then curvePoint_Double t2 B else curvePoint_Add t2 t2 B)"
  have e: "big_column B (tab, t1, t2, t3) j = (tab', t1', t2', t3')"
    by (simp add: big_column_def Let_def curvePoint_Set_def f t2'_def)
  have g: "multiple ?gen B 1" by (rule multiple_gen) simp
  have "multiple ?gen t2' (int (Suc j) + 1)"
  proof (cases "j = 0")
    case True
    then show ?thesis using multiple_double [OF g, of t2] by (simp add: t2'_def)
  next
    case False
    then show ?thesis using multiple_add [OF t2 g, of t2] by (simp add: t2'_def add.commute)
  qed
  then show ?thesis unfolding e prod.case using I by (auto simp: I_def less_Suc_eq)
qed

text \<open>All 43 rows have 256 words, and every entry is right for its row and column.\<close>

definition table_filled :: "64 word list \<Rightarrow> base_table \<Rightarrow> bool" where
  "table_filled w tab = (length tab = 43 \<and> (\<forall>i<43. length (tab ! i) = 256)
    \<and> (\<forall>i<43. \<forall>j<32. table_good (\<lambda>P m. P = InternalP2CurveP w \<and> m = 1) tab i j))"

lemma InitBigTable_good:
  assumes "AffineToPoint x y = Some w" "curve_ok (InternalP2CurveP w)"
  shows "\<exists>tab. InitBigTable x y = Some tab \<and> table_shape tab
    \<and> (\<forall>i<43. \<forall>j<32. table_good (\<lambda>P m. P = InternalP2CurveP w \<and> m = 1) tab i j)"
proof -
  define B where "B = InternalP2CurveP w"
  let ?gen = "\<lambda>P m. P = B \<and> m = (1 :: int)"
  define J where "J = (\<lambda>j (tab, t1 :: curvePoint, t2, t3 :: curvePoint). table_shape tab
    \<and> (\<forall>i'<43. \<forall>j'<32. j' < j \<longrightarrow> table_good ?gen tab i' j') \<and> multiple ?gen t2 (int j + 1))"
  have "J 32 (foldl (big_column B) (replicate 43 (replicate 256 0), B, B, B) [0..<32])"
  proof (rule foldl_upt_invariant)
    have "multiple ?gen B 1" by (rule multiple_gen) simp
    then show "J 0 (replicate 43 (replicate 256 0), B, B, B)" by (simp add: J_def table_shape_def)
    fix j s assume "j < 32" "J j s"
    then show "J (Suc j) (big_column B s j)"
      using big_column_step [of B j "fst s" "fst (snd (snd s))" "fst (snd s)" "snd (snd (snd s))"] assms(2)
      by (auto simp: J_def B_def split: prod.splits)
  qed simp
  then show ?thesis by (auto simp: J_def InitBigTable_def assms(1) Let_def B_def [symmetric] split: prod.splits)
qed

section \<open>Properties\<close>

text \<open>
  C29: The curve behind \<open>elliptic.Curve\<close>. On affine points whose coordinates fit 32 bytes: (0, 0) is neutral
  and the sum is reduced, a point and its \<open>Neg\<close> sum to (0, 0), points with different \<open>x\<close> sum to the third
  point of the chord reflected and \<open>Double\<close> is the tangent rule (where the factor that has to be inverted
  satisfies Fermat's equation). An argument that is not on the curve, and is not (0, 0) modulo \<open>p\<close>, makes
  \<open>BigToG1\<close> return nil and the addition panic, and so does a first coordinate of more than 32 bytes.
\<close>

theorem elliptic_interface:
  assumes a: "affine_arg x1 y1" and b: "affine_arg x2 y2"
  shows "Curve_Add x1 y1 0 0 = Some (x1 mod Sm9_p, y1 mod Sm9_p) \<and> Curve_Add 0 0 x1 y1 = Some (x1 mod Sm9_p, y1 mod Sm9_p)
    \<and> (y1 < Sm9_p \<and> to_fp y1 dvd 1 \<longrightarrow> (case Curve_Neg x1 y1 of (x, y) \<Rightarrow> Curve_Add x1 y1 x y = Some (0, 0)))
    \<and> (to_fp (2 * (x2 - x1)) ^ nat (Sm9_p - 1) = 1 \<longrightarrow>
        (\<exists>l. l * (to_fp x2 - to_fp x1) = to_fp y2 - to_fp y1
          \<and> Curve_Add x1 y1 x2 y2 = Some (map_prod fp_int fp_int (line_sum l (to_fp x1, to_fp y1) (to_fp x2)))))
    \<and> (to_fp (2 * y1) ^ nat (Sm9_p - 1) = 1 \<longrightarrow>
        (\<exists>l. l * (2 * to_fp y1) = 3 * (to_fp x1 * to_fp x1)
          \<and> Curve_Double x1 y1 = Some (map_prod fp_int fp_int (line_sum l (to_fp x1, to_fp y1) (to_fp x1)))))
    \<and> (\<bar>x\<bar> < 2 ^ 256 \<and> \<bar>y\<bar> < 2 ^ 256 \<and> \<not> Curve_IsOnCurve \<bar>x\<bar> \<bar>y\<bar> \<and> \<not> (x mod Sm9_p = 0 \<and> y mod Sm9_p = 0) \<or> 2 ^ 256 \<le> \<bar>x\<bar>
        \<longrightarrow> Curve_Add x y x1 y1 = None)"
proof (intro conjI impI)
  show "Curve_Add x1 y1 0 0 = Some (x1 mod Sm9_p, y1 mod Sm9_p)" "Curve_Add 0 0 x1 y1 = Some (x1 mod Sm9_p, y1 mod Sm9_p)"
    by (rule Curve_Add_neutral [OF a])+
  show "case Curve_Neg x1 y1 of (x, y) \<Rightarrow> Curve_Add x1 y1 x y = Some (0, 0)" if "y1 < Sm9_p \<and> to_fp y1 dvd 1"
    using Curve_Add_opposite [OF a] that by (simp add: Curve_Neg_def SM9_params)
qed (use Curve_Add_chord [OF a b] Curve_Double_tangent [OF a] Curve_Add_panics [of x y x1 y1] in blast)+

theorem elliptic_interface_witness:
  "Curve_Add (cp_Gx SM9) (cp_Gy SM9) 0 0 = Some (cp_Gx SM9, cp_Gy SM9) \<and> Curve_Add 1 1 (cp_Gx SM9) (cp_Gy SM9) = None"
proof -
  have "on_curve 5 (to_fp (cp_Gx SM9), to_fp (cp_Gy SM9))" using G1_on_curve G1_val by (simp add: SM9_def)
  then have g: "affine_arg (cp_Gx SM9) (cp_Gy SM9)" by (simp add: affine_arg_def Curve_IsOnCurve_iff) (simp add: SM9_def)
  have "\<not> Curve_IsOnCurve 1 1" by (simp add: Curve_IsOnCurve_def SM9_def)
  then show ?thesis using elliptic_interface [OF g g, of 1 1] by (simp add: SM9_def Sm9_p_def)
qed

text \<open>
  C30: Point compression. \<open>CompressP\<close> writes the parity of \<open>y\<close> and the 32 bytes of \<open>x\<close>, and \<open>DecompressP\<close>
  gives back \<open>x\<close> and a \<open>y\<close> with that parity which is, up to sign, what \<open>ModSqrtP\<close> returns for \<open>a = x\<^sup>3 + 5\<close>. With
  \<open>p = 8 u + 5\<close>, that is a square root of \<open>a\<close> where \<open>a\<^bsup>2u+1\<^esup>\<close> is 1, and where it is \<open>- 1\<close>, as \<open>2\<close> is not a square;
  where it is neither, \<open>a\<close> is not a square and \<open>ModSqrtP\<close> returns \<open>a\<close> itself, so such an \<open>x\<close> is not refused.
\<close>

theorem point_compression:
  assumes "0 \<le> x" "x < 2 ^ 256" "x \<noteq> 0 \<or> y \<noteq> 0"
  defines "a \<equiv> (x * x * x + 5) mod Sm9_p"
  shows "\<exists>data y'. CompressP x y = Some data \<and> length data = 33 \<and> DecompressP data = Some (Some (x, y'))
    \<and> (y' = ModSqrtP a \<or> y' = Sm9_p - ModSqrtP a) \<and> even y' = even y
    \<and> (exp_mod a const2uplus1 = 1 \<longrightarrow> y' * y' mod Sm9_p = a)
    \<and> (exp_mod a const2uplus1 = Sm9_p - 1 \<longrightarrow> y' * y' mod Sm9_p = - exp_mod 2 ((Sm9_p - 1) div 2) * a mod Sm9_p)
    \<and> (exp_mod a const2uplus1 \<noteq> 1 \<and> exp_mod a const2uplus1 \<noteq> Sm9_p - 1 \<longrightarrow> ModSqrtP a = a)"
proof -
  define r where "r = ModSqrtP a"
  define y' where "y' = (if odd r \<noteq> odd y then Sm9_p - r else r)"
  have a: "0 \<le> a" "a < Sm9_p" by (simp_all add: a_def)
  have sq: "to_fp y' * to_fp y' = to_fp r * to_fp r"
    by (simp add: y'_def to_fp_diff)
  have mod: "y' * y' mod Sm9_p = b mod Sm9_p" if "to_fp r * to_fp r = to_fp b" for b
    using sq that by (simp flip: to_fp_mult add: to_fp_eq_iff)
  have "odd Sm9_p" by (simp add: Sm9_p_def)
  then have "even y' = even y" by (auto simp: y'_def)
  moreover have "y' * y' mod Sm9_p = a" if "exp_mod a const2uplus1 = 1"
    using mod [of a] ModSqrtP_square(1) [OF a that] a by (simp add: r_def)
  moreover have "y' * y' mod Sm9_p = - exp_mod 2 ((Sm9_p - 1) div 2) * a mod Sm9_p" if "exp_mod a const2uplus1 = Sm9_p - 1"
    using mod [of "- exp_mod 2 ((Sm9_p - 1) div 2) * a"] ModSqrtP_square(2) [OF a that]
    by (simp add: r_def to_fp_mult to_fp_minus)
  ultimately show ?thesis
    using CompressP_bytes [OF assms(1-3)] DecompressP_bytes [OF assms(1,2), of y] ModSqrtP_square(3) [OF a]
    by (intro exI [of _ "(if even y then 2 else 3) # fixed_bytes 32 x"] exI [of _ y']) (auto simp: Let_def y'_def r_def a_def)
qed

theorem point_compression_witness:
  "\<exists>data y'. CompressP 2 9 = Some data \<and> length data = 33 \<and> DecompressP data = Some (Some (2, y')) \<and> odd y'"
  using point_compression [of 2 9] by fastforce

text \<open>
  The words of \<open>curve_interface.go\<close>. \<open>AffineToPoint\<close> never fails, \<open>PointToAffine\<close> undoes it modulo \<open>p\<close>, and
  every entry of the table that \<open>InitBigTable\<close> builds for a point, row \<open>i\<close> and column \<open>j\<close>, holds the affine
  coordinates of a chain of doublings and additions of weight \<open>(j + 1) 64\<^sup>i\<close> over that point.
\<close>

theorem big_table:
  "\<exists>w. AffineToPoint x y = Some w \<and> length w = 12 \<and> PointToAffine w = Some (x mod Sm9_p, y mod Sm9_p)
    \<and> (\<exists>tab. InitBigTable x y = Some tab \<and> table_filled w tab)"
proof -
  obtain xw yw where w: "AffineToPoint x y = Some (xw @ yw @ newGFp 1)" "gfp_ok xw" "gfp_val xw = to_fp x"
    "gfp_ok yw" "gfp_val yw = to_fp y"
    "InternalP2CurveP (xw @ yw @ newGFp 1) = \<lparr>cp_x = xw, cp_y = yw, cp_z = newGFp 1, cp_t = gfP_zero\<rparr>"
    using AffineToPoint_words .
  have "length (xw @ yw @ newGFp 1) = 12" using w(2,4) by (simp add: gfp_ok_def newGFp_one)
  moreover have "curve_ok (InternalP2CurveP (xw @ yw @ newGFp 1))" using w newGFp_val by (simp add: curve_ok_def)
  ultimately show ?thesis
    using w(1) PointToAffine_words [OF w(2-6)] InitBigTable_good [OF w(1)] by (auto simp: table_filled_def table_shape_def)
qed

end
