(* ===== verification/Sm2_Field.thy ===== *)
theory Sm2_Field
  imports Big_Bytes
begin

text \<open>
  The field of the SM2 curve, \<open>sm2.go\<close> (the build without assembly). An element is an array of nine words, limbs
  of 29 bits at even and of 28 bits at odd indices, which stands for its value divided by \<open>2\<^sup>257\<close> modulo \<open>p\<close>.
  The limbs are kept below \<open>2\<^sup>30\<close> and \<open>2\<^sup>29\<close>.

  A product is a polynomial of 17 columns of 64 bits; \<open>sm2P256ReduceDegree\<close> spreads it over 18 limbs and clears
  the nine low ones. The two bodies of its loop act on the ten limbs from the one they clear.
\<close>

type_synonym fe = "u32 list"

definition bottom28Bits :: u32 where "bottom28Bits = 0xFFFFFFF"
definition bottom29Bits :: u32 where "bottom29Bits = 0x1FFFFFFF"

definition sm2_P :: int where
  "sm2_P = 0xFFFFFFFEFFFFFFFFFFFFFFFFFFFFFFFFFFFFFFFF00000000FFFFFFFFFFFFFFFF"

definition sm2_N :: int where
  "sm2_N = 0xFFFFFFFEFFFFFFFFFFFFFFFFFFFFFFFF7203DF6B21C6052B53BBF40939D54123"

definition sm2_RInverse :: int where
  "sm2_RInverse = 0x7ffffffd80000002fffffffe000000017ffffffe800000037ffffffc80000002"

definition sm2P256Zero31 :: fe where
  "sm2P256Zero31 = [0x7FFFFFF8, 0x3FFFFFFC, 0x800003FC, 0x3FFFDFFC, 0x7FFFFFFC, 0x3FFFFFFC, 0x7FFFFFFC, 0x37FFFFFC, 0x7FFFFFFC]"

definition sm2P256Carry :: "u32 list" where
  "sm2P256Carry = [
    0x0, 0x0, 0x0, 0x0, 0x0, 0x0, 0x0, 0x0, 0x0,
    0x2, 0x0, 0x1FFFFF00, 0x7FF, 0x0, 0x0, 0x0, 0x2000000, 0x0,
    0x4, 0x0, 0x1FFFFE00, 0xFFF, 0x0, 0x0, 0x0, 0x4000000, 0x0,
    0x6, 0x0, 0x1FFFFD00, 0x17FF, 0x0, 0x0, 0x0, 0x6000000, 0x0,
    0x8, 0x0, 0x1FFFFC00, 0x1FFF, 0x0, 0x0, 0x0, 0x8000000, 0x0,
    0xA, 0x0, 0x1FFFFB00, 0x27FF, 0x0, 0x0, 0x0, 0xA000000, 0x0,
    0xC, 0x0, 0x1FFFFA00, 0x2FFF, 0x0, 0x0, 0x0, 0xC000000, 0x0,
    0xE, 0x0, 0x1FFFF900, 0x37FF, 0x0, 0x0, 0x0, 0xE000000, 0x0]"

definition sm2P256Factor :: "fe list" where
  "sm2P256Factor = [
    [0x0, 0x0, 0x0, 0x0, 0x0, 0x0, 0x0, 0x0, 0x0],
    [0x2, 0x0, 0x1FFFFF00, 0x7FF, 0x0, 0x0, 0x0, 0x2000000, 0x0],
    [0x4, 0x0, 0x1FFFFE00, 0xFFF, 0x0, 0x0, 0x0, 0x4000000, 0x0],
    [0x6, 0x0, 0x1FFFFD00, 0x17FF, 0x0, 0x0, 0x0, 0x6000000, 0x0],
    [0x8, 0x0, 0x1FFFFC00, 0x1FFF, 0x0, 0x0, 0x0, 0x8000000, 0x0],
    [0xA, 0x0, 0x1FFFFB00, 0x27FF, 0x0, 0x0, 0x0, 0xA000000, 0x0],
    [0xC, 0x0, 0x1FFFFA00, 0x2FFF, 0x0, 0x0, 0x0, 0xC000000, 0x0],
    [0xE, 0x0, 0x1FFFF900, 0x37FF, 0x0, 0x0, 0x0, 0xE000000, 0x0],
    [0x10, 0x0, 0x1FFFF800, 0x3FFF, 0x0, 0x0, 0x0, 0x0, 0x01]]"

section \<open>Conversions, sums and differences\<close>

definition nonZeroToAllOnes :: "u32 \<Rightarrow> u32" where
  "nonZeroToAllOnes x = drop_bit 31 (x - 1) - 1"

definition sm2P256ReduceCarry :: "fe \<Rightarrow> u32 \<Rightarrow> fe" where
  "sm2P256ReduceCarry a carry =
     (let c = (\<lambda>j. sm2P256Carry ! (unat carry * 9 + j));
          a = a[0 := a ! 0 + c 0];
          a = a[2 := a ! 2 + c 2];
          a = a[3 := a ! 3 + c 3]
      in a[7 := a ! 7 + c 7])"

text \<open>The width of limb \<open>i\<close> and the two masks.\<close>

definition limb_bits :: "nat \<Rightarrow> nat" where
  "limb_bits i = (if even i then 29 else 28)"

definition limb_mask :: "nat \<Rightarrow> u32" where
  "limb_mask i = (if even i then bottom29Bits else bottom28Bits)"

text \<open>One limb of the loops of \<open>sm2P256Add\<close> and \<open>sm2P256Sub\<close>: what is written and the carry.\<close>

definition carry_step :: "(nat \<Rightarrow> u32) \<Rightarrow> fe \<times> u32 \<Rightarrow> nat \<Rightarrow> fe \<times> u32" where
  "carry_step f st i = (case st of (c, carry) \<Rightarrow>
     let ci = f i + carry
     in (c @ [ci AND limb_mask i], drop_bit (limb_bits i) ci))"

definition sm2P256Add :: "fe \<Rightarrow> fe \<Rightarrow> fe" where
  "sm2P256Add a b = (case foldl (carry_step (\<lambda>i. a ! i + b ! i)) ([], 0) [0..<9] of (c, carry) \<Rightarrow> sm2P256ReduceCarry c carry)"

definition sm2P256Sub :: "fe \<Rightarrow> fe \<Rightarrow> fe" where
  "sm2P256Sub a b =
     (case foldl (carry_step (\<lambda>i. a ! i - b ! i + sm2P256Zero31 ! i)) ([], 0) [0..<9] of (c, carry) \<Rightarrow> sm2P256ReduceCarry c carry)"

text \<open>\<open>x.Bits()[0]\<close> truncated to 32 bits, 0 for the number 0.\<close>

definition from_big_step :: "fe \<times> int \<Rightarrow> nat \<Rightarrow> fe \<times> int" where
  "from_big_step st i = (case st of (X, x) \<Rightarrow> (X @ [word_of_int x AND limb_mask i], drop_bit (limb_bits i) x))"

definition sm2P256FromBig :: "int \<Rightarrow> fe" where
  "sm2P256FromBig a = (let x = push_bit 257 a mod sm2_P in fst (foldl from_big_step ([], x) [0..<9]))"

definition sm2P256ToBig :: "fe \<Rightarrow> int" where
  "sm2P256ToBig X =
     (let r = foldl (\<lambda>r i. push_bit (limb_bits i) r + uint (X ! i)) (uint (X ! 8)) (rev [0..<8])
      in r * sm2_RInverse mod sm2_P)"

definition sm2P256Dup :: "fe \<Rightarrow> fe" where
  "sm2P256Dup a = a"

section \<open>Reduction\<close>

text \<open>The 17 columns as 18 limbs.\<close>

definition spread_even :: "u64 list \<Rightarrow> nat \<Rightarrow> u32 \<Rightarrow> u32" where
  "spread_even b i carry =
     drop_bit 25 (ucast (drop_bit 32 (b ! (i - 2))))
     + drop_bit 28 (ucast (b ! (i - 1)))
     + (push_bit 4 (ucast (drop_bit 32 (b ! (i - 1)))) AND bottom29Bits)
     + (ucast (b ! i) AND bottom29Bits) + carry"

definition spread_odd :: "u64 list \<Rightarrow> nat \<Rightarrow> u32 \<Rightarrow> u32" where
  "spread_odd b i carry =
     drop_bit 25 (ucast (drop_bit 32 (b ! (i - 2))))
     + drop_bit 29 (ucast (b ! (i - 1)))
     + (push_bit 3 (ucast (drop_bit 32 (b ! (i - 1)))) AND bottom28Bits)
     + (ucast (b ! i) AND bottom28Bits) + carry"

definition spread_step :: "u64 list \<Rightarrow> u32 list \<times> u32 \<Rightarrow> nat \<Rightarrow> u32 list \<times> u32" where
  "spread_step b st i = (case st of (tmp, carry) \<Rightarrow>
     let t = (if even i then spread_even b i carry else spread_odd b i carry)
     in (tmp @ [t AND limb_mask i], drop_bit (limb_bits i) t))"

definition spread_start :: "u64 list \<Rightarrow> u32 list \<times> u32" where
  "spread_start b =
     (let tmp0 = ucast (b ! 0) AND bottom29Bits;
          tmp1 = drop_bit 29 (ucast (b ! 0) :: u32);
          tmp1 = tmp1 OR (push_bit 3 (ucast (drop_bit 32 (b ! 0))) AND bottom28Bits);
          tmp1 = tmp1 + (ucast (b ! 1) AND bottom28Bits);
          carry = drop_bit 28 tmp1;
          tmp1 = tmp1 AND bottom28Bits
      in ([tmp0, tmp1], carry))"

definition spread :: "u64 list \<Rightarrow> u32 list" where
  "spread b =
     (case foldl (spread_step b) (spread_start b) [2..<17] of (tmp, carry) \<Rightarrow>
        tmp @ [drop_bit 25 (ucast (drop_bit 32 (b ! 15))) + drop_bit 29 (ucast (b ! 16))
               + push_bit 3 (ucast (drop_bit 32 (b ! 16))) + carry])"

text \<open>The body of the loop that clears an even limb, \<open>t0\<close>, and the one that clears an odd limb.\<close>

definition reduce_even :: "u32 list \<Rightarrow> u32 list" where
  "reduce_even t = (case t of [t0, t1, t2, t3, t4, t5, t6, t7, t8, t9] \<Rightarrow>
     let t1 = t1 + drop_bit 29 t0;
         x = t0 AND bottom29Bits
     in if 0 < x then
       let xMask = nonZeroToAllOnes x;
           t2 = t2 + (push_bit 7 x AND bottom29Bits);
           t3 = t3 + drop_bit 22 x;
           (set4, t3) = (if t3 < 0x10000000
             then (1, t3 + (0x10000000 AND xMask) - (push_bit 10 x AND bottom28Bits))
             else (0, t3 - (push_bit 10 x AND bottom28Bits)));
           (set7, t4, t5, t6) = (if t4 < 0x20000000
             then let t4 = t4 + (0x20000000 AND xMask) - set4 - drop_bit 18 x
               in if t5 < 0x10000000
                  then let t5 = t5 + (0x10000000 AND xMask) - 1
                    in if t6 < 0x20000000 then (1, t4, t5, t6 + (0x20000000 AND xMask) - 1)
                       else (0, t4, t5, t6 - 1)
                  else (0, t4, t5 - 1, t6)
             else (0, t4 - set4 - drop_bit 18 x, t5, t6));
           (t7, t8, t9) = (if t7 < 0x10000000
             then let t7 = t7 + (0x10000000 AND xMask) - set7 - (push_bit 24 x AND bottom28Bits);
                      t8 = t8 + (push_bit 28 x AND bottom29Bits)
               in if t8 < 0x20000000
                  then (t7, t8 + (0x20000000 AND xMask) - 1 - drop_bit 4 x, t9 + (drop_bit 1 x - 1 AND xMask))
                  else (t7, t8 - 1 - drop_bit 4 x, t9 + (drop_bit 1 x AND xMask))
             else let t7 = t7 - set7 - (push_bit 24 x AND bottom28Bits);
                      t8 = t8 + (push_bit 28 x AND bottom29Bits)
               in if t8 < 0x20000000
                  then (t7, t8 + (0x20000000 AND xMask) - drop_bit 4 x, t9 + (drop_bit 1 x - 1 AND xMask))
                  else (t7, t8 - drop_bit 4 x, t9 + (drop_bit 1 x AND xMask)))
       in [0, t1, t2, t3, t4, t5, t6, t7, t8, t9]
     else [0, t1, t2, t3, t4, t5, t6, t7, t8, t9]
   | _ \<Rightarrow> t)"

definition reduce_odd :: "u32 list \<Rightarrow> u32 list" where
  "reduce_odd t = (case t of [t0, t1, t2, t3, t4, t5, t6, t7, t8, t9] \<Rightarrow>
     let t1 = t1 + drop_bit 28 t0;
         x = t0 AND bottom28Bits
     in if 0 < x then
       let xMask = nonZeroToAllOnes x;
           t2 = t2 + (push_bit 7 x AND bottom28Bits);
           t3 = t3 + drop_bit 21 x;
           (set5, t3) = (if t3 < 0x20000000
             then (1, t3 + (0x20000000 AND xMask) - (push_bit 11 x AND bottom29Bits))
             else (0, t3 - (push_bit 11 x AND bottom29Bits)));
           (set8, t4, t5, t6) = (if t4 < 0x10000000
             then let t4 = t4 + (0x10000000 AND xMask) - set5 - drop_bit 18 x
               in if t5 < 0x20000000
                  then let t5 = t5 + (0x20000000 AND xMask) - 1
                    in if t6 < 0x10000000 then (1, t4, t5, t6 + (0x10000000 AND xMask) - 1)
                       else (0, t4, t5, t6 - 1)
                  else (0, t4, t5 - 1, t6)
             else (0, t4 - set5 - drop_bit 18 x, t5, t6));
           (set9, t7) = (if t7 < 0x20000000
             then (1, t7 + (0x20000000 AND xMask) - set8 - (push_bit 25 x AND bottom29Bits))
             else (0, t7 - set8 - (push_bit 25 x AND bottom29Bits)));
           (t8, t9) = (if t8 < 0x10000000
             then (t8 + (0x10000000 AND xMask) - set9 - drop_bit 4 x, t9 + (x - 1 AND xMask))
             else (t8 - set9 - drop_bit 4 x, t9 + (x AND xMask)))
       in [0, t1, t2, t3, t4, t5, t6, t7, t8, t9]
     else [0, t1, t2, t3, t4, t5, t6, t7, t8, t9]
   | _ \<Rightarrow> t)"

definition on_window :: "(u32 list \<Rightarrow> u32 list) \<Rightarrow> nat \<Rightarrow> u32 list \<Rightarrow> u32 list" where
  "on_window f i tmp = take i tmp @ f (take 10 (drop i tmp)) @ drop (i + 10) tmp"

definition reduce_limbs :: "u32 list \<Rightarrow> nat \<Rightarrow> u32 list" where
  "reduce_limbs tmp n = foldl (\<lambda>tmp i. if even i then on_window reduce_even i tmp else on_window reduce_odd i tmp) tmp [0..<n]"

text \<open>The nine high limbs, whose indices change parity, as an element.\<close>

definition collect_step :: "u32 list \<Rightarrow> fe \<times> u32 \<Rightarrow> nat \<Rightarrow> fe \<times> u32" where
  "collect_step tmp st i = (case st of (a, carry) \<Rightarrow>
     let ai = (if even i then tmp ! (i + 9) + carry + (push_bit 28 (tmp ! (i + 10)) AND bottom29Bits)
               else drop_bit 1 (tmp ! (i + 9)) + carry)
     in (a @ [ai AND limb_mask i], drop_bit (limb_bits i) ai))"

definition sm2P256ReduceDegree :: "u64 list \<Rightarrow> fe" where
  "sm2P256ReduceDegree b =
     (let tmp = reduce_limbs (spread b) 9
      in case foldl (collect_step tmp) ([], 0) [0..<8] of (a, carry) \<Rightarrow>
           let a8 = tmp ! 17 + carry;
               carry = drop_bit 29 a8
           in sm2P256ReduceCarry (a @ [a8 AND bottom29Bits]) carry)"

section \<open>Products\<close>

text \<open>Column \<open>k\<close> adds the products of limbs \<open>i\<close> and \<open>k - i\<close>, doubled when both are odd.\<close>

definition mul_column :: "fe \<Rightarrow> fe \<Rightarrow> nat \<Rightarrow> u64" where
  "mul_column a b k =
     sum_list (map (\<lambda>i. ucast (a ! i) * push_bit (if odd i \<and> odd (k - i) then 1 else 0) (ucast (b ! (k - i)))) [k - 8..<Suc (min k 8)])"

definition sm2P256Mul :: "fe \<Rightarrow> fe \<Rightarrow> fe" where
  "sm2P256Mul a b = sm2P256ReduceDegree (map (mul_column a b) [0..<17])"

text \<open>The columns of a square: the products of different limbs count twice.\<close>

definition square_column :: "fe \<Rightarrow> nat \<Rightarrow> u64" where
  "square_column a k =
     sum_list (map (\<lambda>i. ucast (a ! i) * push_bit ((if odd i \<and> odd (k - i) then 1 else 0) + (if i < k - i then 1 else 0)) (ucast (a ! (k - i))))
       [k - 8..<Suc (k div 2)])"

definition sm2P256Square :: "fe \<Rightarrow> fe" where
  "sm2P256Square a = sm2P256ReduceDegree (map (square_column a) [0..<17])"

definition sm2P256Scalar :: "fe \<Rightarrow> nat \<Rightarrow> fe" where
  "sm2P256Scalar b a = sm2P256Mul b (sm2P256Factor ! a)"

section \<open>Values of word expressions\<close>

lemma uint32_bound: "uint (x :: u32) < 2 ^ 32"
  using uint_lt2p [of x] by simp

lemma uint32_add: "uint x + uint y < 2 ^ 32 \<Longrightarrow> uint (x + y) = uint x + uint y" for x y :: u32
  by (simp add: uint_plus_if_size word_size)

lemma uint32_sub: "uint y \<le> uint x \<Longrightarrow> uint (x - y) = uint x - uint y" for x y :: u32
  by (simp add: uint_sub_if_size)

lemma uint32_take: "uint (take_bit n x :: u32) = uint x mod 2 ^ n"
proof -
  have "uint (take_bit n x) = take_bit n (uint x)" by (rule unsigned_take_bit_eq)
  then show ?thesis by (simp only: take_bit_eq_mod [of n "uint x"])
qed

lemma uint32_mask: "uint (x AND mask n :: u32) = uint x mod 2 ^ n"
  using uint32_take [of n x] unfolding take_bit_eq_mask [of n x] .

lemma uint32_drop: "uint (drop_bit n x :: u32) = uint x div 2 ^ n"
proof -
  have "uint (drop_bit n x) = drop_bit n (take_bit LENGTH(32) (uint x))" by (rule unsigned_drop_bit_eq)
  also have "take_bit LENGTH(32) (uint x) = uint x"
    using uint32_bound [of x] by (simp add: take_bit_eq_mod)
  finally show ?thesis by (simp only: drop_bit_eq_div [of n "uint x"])
qed

lemma bottom_masks: "bottom28Bits = mask 28" "bottom29Bits = mask 29"
  by (simp_all add: bottom28Bits_def bottom29Bits_def mask_eq_exp_minus_1)

lemma uint32_masked:
  "uint (x AND bottom28Bits) = uint x mod 2 ^ 28" "uint (x AND bottom29Bits) = uint x mod 2 ^ 29"
  unfolding bottom_masks by (rule uint32_mask)+

lemma uint32_push_mask:
  assumes "m \<le> 32"
  shows "uint (push_bit n x AND mask m :: u32) = uint x * 2 ^ n mod 2 ^ m"
proof -
  have "uint (push_bit n x) = uint x * 2 ^ n mod 2 ^ 32"
  proof -
    have "uint (push_bit n x) = take_bit LENGTH(32) (push_bit n (uint x))" by (rule unsigned_push_bit_eq)
    then show ?thesis by (simp only: take_bit_eq_mod push_bit_eq_mult) simp
  qed
  then show ?thesis unfolding uint32_mask using mod_mod_cancel [OF le_imp_power_dvd [OF assms]] by metis
qed

lemma uint32_push:
  "uint (push_bit n x AND bottom28Bits) = uint x * 2 ^ n mod 2 ^ 28" "uint (push_bit n x AND bottom29Bits) = uint x * 2 ^ n mod 2 ^ 29"
  unfolding bottom_masks by (rule uint32_push_mask, simp)+

lemma nonZeroToAllOnes_eq: "0 < uint x \<Longrightarrow> uint x \<le> 2 ^ 31 \<Longrightarrow> nonZeroToAllOnes x = - 1"
proof -
  assume x: "0 < uint x" "uint x \<le> 2 ^ 31"
  then have "uint (x - 1) = uint x - 1" by (simp add: uint32_sub)
  then have "uint (drop_bit 31 (x - 1)) = 0" using x by (simp add: uint32_drop)
  then have "drop_bit 31 (x - 1) = 0" by (simp only: word_uint_eq_iff unsigned_0)
  then show ?thesis by (simp add: nonZeroToAllOnes_def)
qed

end
