(* ===== verification/Sm2_Reduction.thy ===== *)
theory Sm2_Reduction
  imports Sm2_Field
begin

text \<open>
  The loop of \<open>sm2P256ReduceDegree\<close> that clears the nine low limbs. Each step adds a multiple of \<open>p\<close> to the value
  of the array and keeps the bounds of its limbs. The exception is an even limb that holds 1 when the
  limb nine places above is 0: it cannot lend what the limb below it borrows, and wraps.
\<close>

section \<open>Clearing a limb\<close>

text \<open>A limb that takes a subtraction, with a borrow from the next one when it is below \<open>2\<^sup>m\<close>.\<close>

definition borrow :: "nat \<Rightarrow> u32 \<Rightarrow> u32 \<Rightarrow> u32 \<times> u32" where
  "borrow m t d = (if t < 2 ^ m then (1, t + 2 ^ m - d) else (0, t - d))"

lemma borrow_val:
  assumes "m = 28 \<or> m = 29" "uint d \<le> 2 ^ m" "uint t < 2 ^ 31" "borrow m t d = (s, t')"
  shows "uint t' = uint t + 2 ^ m * uint s - uint d \<and> uint s \<le> 1
    \<and> uint t' \<le> max (2 ^ 30) (uint t)"
proof -
  have p: "uint (2 ^ m :: u32) = 2 ^ m" "(2 :: int) ^ m \<le> 2 ^ 29" using assms(1) by auto
  have l: "t < 2 ^ m \<longleftrightarrow> uint t < 2 ^ m" by (simp add: word_less_def p)
  have a: "uint (t + 2 ^ m) = uint t + 2 ^ m" by (subst uint32_add) (use p assms(3) in auto)
  show ?thesis
  proof (cases "t < 2 ^ m")
    case True
    then have "s = 1" "t' = t + 2 ^ m - d" using assms(4) by (simp_all add: borrow_def)
    moreover have "uint d \<le> uint (t + 2 ^ m)" unfolding a using assms(2) by (simp add: add_increasing)
    ultimately have v: "uint t' = uint t + 2 ^ m - uint d" "uint s = 1" using a by (simp_all add: uint32_sub)
    have b: "uint t < 2 ^ m" "0 \<le> uint d" "(2 :: int) ^ m \<le> 536870912" using True l p(2) by simp_all
    then have c: "uint t' \<le> 1073741824" "uint t < 1073741824" using v by linarith+
    then have "uint t' \<le> max (2 ^ 30) (uint t)" by simp
    moreover have "uint t' = uint t + 2 ^ m * uint s - uint d" "uint s \<le> 1" using v by simp_all
    ultimately show ?thesis by blast
  next
    case False
    then have "s = 0" "t' = t - d" using assms(4) by (simp_all add: borrow_def)
    moreover have "uint d \<le> uint t" using False l assms(2) by simp
    ultimately have v: "uint t' = uint t - uint d" "uint s = 0" by (simp_all add: uint32_sub)
    have "0 \<le> uint d" by simp
    then have "uint t' \<le> uint t" using v(1) by linarith
    then have "uint t' \<le> max (2 ^ 30) (uint t)" by (rule max.coboundedI2)
    moreover have "uint t' = uint t + 2 ^ m * uint s - uint d" "uint s \<le> 1" using v by simp_all
    ultimately show ?thesis by blast
  qed
qed

text \<open>The three branches of the body for an even limb.\<close>

lemma even_borrows:
  fixes t3 t4 t5 t6 t7 t8 t9 s d4 d7 m7 m8 h :: u32
  shows "(if t3 < 0x10000000 then (1, t3 + 0x10000000 - m7) else (0, t3 - m7)) = borrow 28 t3 m7"
    and "(if t4 < 0x20000000
          then if t5 < 0x10000000
            then if t6 < 0x20000000 then (1, t4 + 0x20000000 - s - d4, t5 + 0x10000000 - 1, t6 + 0x20000000 - 1)
                 else (0, t4 + 0x20000000 - s - d4, t5 + 0x10000000 - 1, t6 - 1)
            else (0, t4 + 0x20000000 - s - d4, t5 - 1, t6)
          else (0, t4 - s - d4, t5, t6))
      = (case borrow 29 t4 (s + d4) of (s5, t4) \<Rightarrow> case (if s5 = 1 then borrow 28 t5 1 else (0, t5)) of (s6, t5) \<Rightarrow>
          case (if s6 = 1 then borrow 29 t6 1 else (0, t6)) of (s7, t6) \<Rightarrow> (s7, t4, t5, t6))"
    and "(if t7 < 0x10000000
          then if t8 < 0x20000000 then (t7 + 0x10000000 - s - m7, t8 + 0x20000000 - 1 - d7, t9 + (h - 1))
               else (t7 + 0x10000000 - s - m7, t8 - 1 - d7, t9 + h)
          else if t8 < 0x20000000 then (t7 - s - m7, t8 + 0x20000000 - d7, t9 + (h - 1))
               else (t7 - s - m7, t8 - d7, t9 + h))
      = (case borrow 28 t7 (s + m7) of (s8, t7) \<Rightarrow> case borrow 29 t8 (s8 + d7) of (s9, t8) \<Rightarrow> (t7, t8, t9 + (h - s9)))"
  by (simp_all add: borrow_def)

lemma odd_borrows:
  fixes t3 t4 t5 t6 t7 t8 t9 s d4 d7 m7 x :: u32
  shows "(if t3 < 0x20000000 then (1, t3 + 0x20000000 - m7) else (0, t3 - m7)) = borrow 29 t3 m7"
    and "(if t4 < 0x10000000
          then if t5 < 0x20000000
            then if t6 < 0x10000000 then (1, t4 + 0x10000000 - s - d4, t5 + 0x20000000 - 1, t6 + 0x10000000 - 1)
                 else (0, t4 + 0x10000000 - s - d4, t5 + 0x20000000 - 1, t6 - 1)
            else (0, t4 + 0x10000000 - s - d4, t5 - 1, t6)
          else (0, t4 - s - d4, t5, t6))
      = (case borrow 28 t4 (s + d4) of (s5, t4) \<Rightarrow> case (if s5 = 1 then borrow 29 t5 1 else (0, t5)) of (s6, t5) \<Rightarrow>
          case (if s6 = 1 then borrow 28 t6 1 else (0, t6)) of (s7, t6) \<Rightarrow> (s7, t4, t5, t6))"
    and "(if t7 < 0x20000000 then (1, t7 + 0x20000000 - s - m7) else (0, t7 - s - m7)) = borrow 29 t7 (s + m7)"
    and "(if t8 < 0x10000000 then (t8 + 0x10000000 - s - d7, t9 + (x - 1)) else (t8 - s - d7, t9 + x))
      = (case borrow 28 t8 (s + d7) of (s9, t8) \<Rightarrow> (t8, t9 + (x - s9)))"
  by (simp_all add: borrow_def)

lemma reduce_even_borrow:
  "reduce_even [t0, t1, t2, t3, t4, t5, t6, t7, t8, t9] =
     (let t1 = t1 + drop_bit 29 t0; x = t0 AND bottom29Bits in
      if 0 < x then
        let t2 = t2 + (push_bit 7 x AND bottom29Bits);
            (s4, t3) = borrow 28 (t3 + drop_bit 22 x) (push_bit 10 x AND bottom28Bits);
            (s5, t4) = borrow 29 t4 (s4 + drop_bit 18 x);
            (s6, t5) = (if s5 = 1 then borrow 28 t5 1 else (0, t5));
            (s7, t6) = (if s6 = 1 then borrow 29 t6 1 else (0, t6));
            (s8, t7) = borrow 28 t7 (s7 + (push_bit 24 x AND bottom28Bits));
            (s9, t8) = borrow 29 (t8 + (push_bit 28 x AND bottom29Bits)) (s8 + drop_bit 4 x)
        in [0, t1, t2, t3, t4, t5, t6, t7, t8, t9 + (drop_bit 1 x - s9)]
      else [0, t1, t2, t3, t4, t5, t6, t7, t8, t9])"
proof (cases "0 < t0 AND bottom29Bits")
  case True
  define x where "x = t0 AND bottom29Bits"
  have "uint x < 2 ^ 29" by (simp add: x_def uint32_masked)
  moreover have "0 < uint x" using True by (simp add: x_def word_less_def)
  ultimately have m: "nonZeroToAllOnes x = - 1" by (intro nonZeroToAllOnes_eq) simp_all
  have x: "0 < x" using True by (simp add: x_def)
  show ?thesis
    unfolding reduce_even_def list.case Let_def x_def [symmetric] m word_and_max even_borrows
    by (simp add: x case_prod_beta)
next
  case False
  then show ?thesis by (simp add: reduce_even_def Let_def)
qed

lemma borrow_le:
  assumes "borrow m t d = (s, t')" "m = 28 \<or> m = 29" "uint d \<le> 2 ^ m" "uint t < 2 ^ 31" "uint t \<le> B" "2 ^ 30 \<le> B"
  shows "uint t' \<le> B"
  using borrow_val [OF assms(2,3,4,1)] assms(5,6) by linarith

lemma reduce_odd_borrow:
  "reduce_odd [t0, t1, t2, t3, t4, t5, t6, t7, t8, t9] =
     (let t1 = t1 + drop_bit 28 t0; x = t0 AND bottom28Bits in
      if 0 < x then
        let t2 = t2 + (push_bit 7 x AND bottom28Bits);
            (s4, t3) = borrow 29 (t3 + drop_bit 21 x) (push_bit 11 x AND bottom29Bits);
            (s5, t4) = borrow 28 t4 (s4 + drop_bit 18 x);
            (s6, t5) = (if s5 = 1 then borrow 29 t5 1 else (0, t5));
            (s7, t6) = (if s6 = 1 then borrow 28 t6 1 else (0, t6));
            (s8, t7) = borrow 29 t7 (s7 + (push_bit 25 x AND bottom29Bits));
            (s9, t8) = borrow 28 t8 (s8 + drop_bit 4 x)
        in [0, t1, t2, t3, t4, t5, t6, t7, t8, t9 + (x - s9)]
      else [0, t1, t2, t3, t4, t5, t6, t7, t8, t9])"
proof (cases "0 < t0 AND bottom28Bits")
  case True
  define x where "x = t0 AND bottom28Bits"
  have "uint x < 2 ^ 28" by (simp add: x_def uint32_masked)
  moreover have "0 < uint x" using True by (simp add: x_def word_less_def)
  ultimately have m: "nonZeroToAllOnes x = - 1" by (intro nonZeroToAllOnes_eq) simp_all
  have x: "0 < x" using True by (simp add: x_def)
  show ?thesis
    unfolding reduce_odd_def list.case Let_def x_def [symmetric] m word_and_max odd_borrows
    by (simp add: x case_prod_beta)
next
  case False
  then show ?thesis by (simp add: reduce_odd_def Let_def)
qed

lemma shift_split:
  fixes x :: int
  assumes "k + d = m"
  shows "x * 2 ^ k = 2 ^ m * (x div 2 ^ d) + x * 2 ^ k mod 2 ^ m"
proof -
  have m: "(2 :: int) ^ m = 2 ^ d * 2 ^ k" using assms by (simp flip: power_add add: add.commute)
  have "x * 2 ^ k div 2 ^ m = x div 2 ^ d" unfolding m by (rule div_mult_mult2) simp
  then show ?thesis by (metis mult_div_mod_eq)
qed

lemma borrow_if:
  assumes "m = 28 \<or> m = 29" "uint t \<le> 2 ^ 30" "uint c \<le> 1" "(if c = 1 then borrow m t 1 else (0, t)) = (s, t')"
  shows "uint t' = uint t + 2 ^ m * uint s - uint c \<and> uint s \<le> 1 \<and> uint t' \<le> 2 ^ 30"
proof (cases "c = 1")
  case True
  then show ?thesis using borrow_val [of m 1 t s t'] assms by auto
next
  case False
  then have "uint c \<noteq> 1" by (metis word_uint_eq_iff uint_1)
  then have "uint c = 0" using assms(3) unsigned_greater_eq [of c, where ?'a = int] by linarith
  then show ?thesis using assms False by simp
qed

text \<open>What a window may hold before its first limb is cleared, and after.\<close>

definition window_ok :: "u32 list \<Rightarrow> bool" where
  "window_ok t = (length t = 10 \<and> uint (t ! 0) \<le> 2 ^ 30 + 2 ^ 29 + 2 ^ 8 \<and> uint (t ! 1) \<le> 2 ^ 30 + 2 ^ 29 + 2 ^ 7
     \<and> uint (t ! 2) \<le> 2 ^ 30 + 2 ^ 7 \<and> list_all (\<lambda>j. uint (t ! j) \<le> 2 ^ 30) [3, 4, 5, 6, 7] \<and> uint (t ! 8) \<le> 2 ^ 29 + 2 ^ 28 \<and> uint (t ! 9) < 2 ^ 31 + 2 ^ 10)"

definition window_after :: "u32 list \<Rightarrow> u32 list \<Rightarrow> bool" where
  "window_after t u = (length u = 10 \<and> u ! 0 = 0 \<and> uint (u ! 1) \<le> uint (t ! 1) + 8 \<and> uint (u ! 2) \<le> uint (t ! 2) + 2 ^ 29
     \<and> uint (u ! 3) \<le> 2 ^ 30 + 2 ^ 7 \<and> list_all (\<lambda>j. uint (u ! j) \<le> 2 ^ 30) [4, 5, 6, 7, 8] \<and> uint (u ! 9) \<le> uint (t ! 9) + 2 ^ 28)"

text \<open>
  The borrows of both bodies on a window whose first limb has \<open>w\<close> bits: the numbers that are added and
  subtracted split the multiples of \<open>x\<close> by \<open>2\<^sup>6\<^sup>4\<close>, \<open>2\<^sup>9\<^sup>6\<close>, \<open>2\<^sup>2\<^sup>2\<^sup>4\<close> and \<open>2\<^sup>2\<^sup>5\<^sup>6\<close> at the limits of the limbs.
\<close>

lemma clear_window:
  fixes x q m2 m3 m7 m8 d2 d3 d7 d8 :: u32
  assumes ok: "window_ok [t0, t1, t2, t3, t4, t5, t6, t7, t8, t9]"
    and w: "w = 29 \<and> v = 28 \<or> w = 28 \<and> v = 29"
    and x: "uint t0 = uint x + 2 ^ w * uint q" "uint q \<le> 8"
    and m: "uint m2 < 2 ^ 29" "uint m3 < 2 ^ v" "uint m7 < 2 ^ v" "uint m8 \<le> 2 ^ 28"
    and d: "uint d2 < 2 ^ 7" "uint d3 < 2 ^ 11" "uint d7 < 2 ^ 25" "uint d8 \<le> 2 ^ 28" "1 \<le> uint t9 + uint d8"
    and split: "uint x * 2 ^ 64 = 2 ^ (57 + w) * uint d2 + 2 ^ 57 * uint m2" "uint x * 2 ^ 96 = 2 ^ 114 * uint d3 + 2 ^ (57 + w) * uint m3"
      "uint x * 2 ^ 224 = 2 ^ 228 * uint d7 + 2 ^ (171 + w) * uint m7" "uint x * 2 ^ 256 = 2 ^ (228 + w) * uint d8 + 2 ^ 228 * uint m8"
    and e3: "borrow v (t3 + d2) m3 = (s4, u3)"
    and e4: "borrow w t4 (s4 + d3) = (s5, u4)"
    and e5: "(if s5 = 1 then borrow v t5 1 else (0, t5)) = (s6, u5)"
    and e6: "(if s6 = 1 then borrow w t6 1 else (0, t6)) = (s7, u6)"
    and e7: "borrow v t7 (s7 + m7) = (s8, u7)"
    and e8: "borrow w (t8 + m8) (s8 + d7) = (s9, u8)"
    and u: "u1 = t1 + q" "u2 = t2 + m2" "u9 = t9 + (d8 - s9)"
  shows "window_after [t0, t1, t2, t3, t4, t5, t6, t7, t8, t9] [0, u1, u2, u3, u4, u5, u6, u7, u8, u9]
    \<and> 2 ^ w * uint u1 + 2 ^ 57 * uint u2 + 2 ^ (57 + w) * uint u3 + 2 ^ 114 * uint u4 + 2 ^ (114 + w) * uint u5 + 2 ^ 171 * uint u6 + 2 ^ (171 + w) * uint u7 + 2 ^ 228 * uint u8 + 2 ^ (228 + w) * uint u9
      = uint t0 + 2 ^ w * uint t1 + 2 ^ 57 * uint t2 + 2 ^ (57 + w) * uint t3 + 2 ^ 114 * uint t4 + 2 ^ (114 + w) * uint t5 + 2 ^ 171 * uint t6 + 2 ^ (171 + w) * uint t7 + 2 ^ 228 * uint t8 + 2 ^ (228 + w) * uint t9 + uint x * sm2_P"
proof -
  have p: "w = 28 \<or> w = 29" "v = 28 \<or> v = 29" using w by auto
  then have p2: "(2 :: int) ^ 28 \<le> 2 ^ w" "(2 :: int) ^ 28 \<le> 2 ^ v" by auto
  have b: "uint t0 \<le> 2 ^ 30 + 2 ^ 29 + 2 ^ 8" "uint t1 \<le> 2 ^ 30 + 2 ^ 29 + 2 ^ 7" "uint t2 \<le> 2 ^ 30 + 2 ^ 7"
    "uint t3 \<le> 2 ^ 30" "uint t4 \<le> 2 ^ 30" "uint t5 \<le> 2 ^ 30" "uint t6 \<le> 2 ^ 30" "uint t7 \<le> 2 ^ 30" "uint t8 \<le> 2 ^ 29 + 2 ^ 28" "uint t9 < 2 ^ 31 + 2 ^ 10"
    using ok by (simp_all add: window_ok_def)
  have v1: "uint u1 = uint t1 + uint q" unfolding u by (subst uint32_add) (use x(2) b(2) in simp_all)
  have v2: "uint u2 = uint t2 + uint m2" unfolding u by (subst uint32_add) (use m(1) b(3) in simp_all)
  have v3: "uint (t3 + d2) = uint t3 + uint d2" by (subst uint32_add) (use d(1) b(4) in simp_all)
  have w3: "uint u3 = uint t3 + uint d2 + 2 ^ v * uint s4 - uint m3" "uint s4 \<le> 1" "uint u3 \<le> 2 ^ 30 + 2 ^ 7"
    using borrow_val [OF p(2) _ _ e3] borrow_le [OF e3 p(2), of "2 ^ 30 + 2 ^ 7"] v3 m(2) d(1) b(4) by simp_all
  have "uint (s4 + d3) = uint s4 + uint d3" by (subst uint32_add) (use d(2) w3(2) in simp_all)
  then have w4: "uint u4 = uint t4 + 2 ^ w * uint s5 - (uint s4 + uint d3)" "uint s5 \<le> 1" "uint u4 \<le> 2 ^ 30"
    using borrow_val [OF p(1) _ _ e4] borrow_le [OF e4 p(1), of "2 ^ 30"] d(2) w3(2) p2(1) b(5) by simp_all
  note w5 = borrow_if [OF p(2) b(6) w4(2) e5]
  note w6 = borrow_if [OF p(1) b(7) conjunct1 [OF conjunct2 [OF w5]] e6]
  have "uint (s7 + m7) = uint s7 + uint m7" by (subst uint32_add) (use m(3) w6 p in auto)
  then have w7: "uint u7 = uint t7 + 2 ^ v * uint s8 - (uint s7 + uint m7)" "uint s8 \<le> 1" "uint u7 \<le> 2 ^ 30"
    using borrow_val [OF p(2) _ _ e7] borrow_le [OF e7 p(2), of "2 ^ 30"] m(3) w6 b(8) by simp_all
  have v8: "uint (t8 + m8) = uint t8 + uint m8" by (subst uint32_add) (use m(4) b(9) in simp_all)
  have "uint (s8 + d7) = uint s8 + uint d7" by (subst uint32_add) (use d(3) w7(2) in simp_all)
  then have w8: "uint u8 = uint t8 + uint m8 + 2 ^ w * uint s9 - (uint s8 + uint d7)" "uint s9 \<le> 1" "uint u8 \<le> 2 ^ 30"
    using borrow_val [OF p(1) _ _ e8] borrow_le [OF e8 p(1), of "2 ^ 30"] v8 m(4) d(3) w7(2) p2(1) b(9) by simp_all
  have "uint (t9 + d8) = uint t9 + uint d8" by (subst uint32_add) (use d(4) b(10) in simp_all)
  then have "uint (t9 + d8 - s9) = uint t9 + uint d8 - uint s9" using d(5) w8(2) by (simp add: uint32_sub)
  then have v9: "uint u9 = uint t9 + uint d8 - uint s9" unfolding u by (simp add: algebra_simps)
  have b9: "uint u9 \<le> uint t9 + 2 ^ 28" using v9 d(4) unsigned_greater_eq [of s9, where ?'a = int] by linarith
  have "window_after [t0, t1, t2, t3, t4, t5, t6, t7, t8, t9] [0, u1, u2, u3, u4, u5, u6, u7, u8, u9]"
    using v1 v2 b9 x(2) m(1) w3(3) w4(3) w5 w6 w7(3) w8(3) by (simp add: window_after_def)
  moreover have "2 ^ w * uint u1 + 2 ^ 57 * uint u2 + 2 ^ (57 + w) * uint u3 + 2 ^ 114 * uint u4 + 2 ^ (114 + w) * uint u5 + 2 ^ 171 * uint u6 + 2 ^ (171 + w) * uint u7 + 2 ^ 228 * uint u8 + 2 ^ (228 + w) * uint u9
      = uint t0 + 2 ^ w * uint t1 + 2 ^ 57 * uint t2 + 2 ^ (57 + w) * uint t3 + 2 ^ 114 * uint t4 + 2 ^ (114 + w) * uint t5 + 2 ^ 171 * uint t6 + 2 ^ (171 + w) * uint t7 + 2 ^ 228 * uint t8 + 2 ^ (228 + w) * uint t9 + uint x * sm2_P"
    using w split v1 v2 v9 x(1) w3(1) w4(1) w5 w6 w7(1) w8(1) unfolding sm2_P_def by (elim disjE conjE; simp)
  ultimately show ?thesis ..
qed

definition window_val :: "nat \<Rightarrow> u32 list \<Rightarrow> int" where
  "window_val w t = uint (t ! 0) + 2 ^ w * uint (t ! 1) + 2 ^ 57 * uint (t ! 2) + 2 ^ (57 + w) * uint (t ! 3) + 2 ^ 114 * uint (t ! 4) + 2 ^ (114 + w) * uint (t ! 5) + 2 ^ 171 * uint (t ! 6) + 2 ^ (171 + w) * uint (t ! 7) + 2 ^ 228 * uint (t ! 8) + 2 ^ (228 + w) * uint (t ! 9)"

lemma window_list: "length t = 10 \<Longrightarrow> t = [t ! 0, t ! 1, t ! 2, t ! 3, t ! 4, t ! 5, t ! 6, t ! 7, t ! 8, t ! 9]"
  by (rule nth_equalityI) (auto simp: less_Suc_eq numeral_nat)

lemma carry_word:
  fixes t :: u32
  assumes "uint t \<le> 2 ^ 30 + 2 ^ 29 + 2 ^ 8" "w = 28 \<or> w = 29"
  shows "uint t = uint (t AND mask w) + 2 ^ w * uint (drop_bit w t)" "uint (drop_bit w t) \<le> 8"
proof -
  show "uint t = uint (t AND mask w) + 2 ^ w * uint (drop_bit w t)"
    unfolding uint32_mask uint32_drop by simp
  have "uint (drop_bit w t) < 9" unfolding uint32_drop by (rule int_div_less) (use assms in auto)
  then show "uint (drop_bit w t) \<le> 8" by simp
qed

text \<open>Clearing the limb adds a multiple of \<open>p\<close>, unless the last limb is 0 and has to lend.\<close>

lemma reduce_even_val:
  assumes "window_ok t" "t ! 0 AND bottom29Bits \<noteq> 1 \<or> t ! 9 \<noteq> 0"
  shows "window_after t (reduce_even t) \<and> window_val 29 (reduce_even t) = window_val 29 t + uint (t ! 0) mod 2 ^ 29 * sm2_P"
proof -
  obtain t0 t1 t2 t3 t4 t5 t6 t7 t8 t9 where t: "t = [t0, t1, t2, t3, t4, t5, t6, t7, t8, t9]"
    using window_list assms(1) by (metis window_ok_def)
  define x where "x = t0 AND bottom29Bits"
  have x: "uint x = uint t0 mod 2 ^ 29" "uint x < 2 ^ 29" "0 \<le> uint x" by (simp_all add: x_def uint32_masked)
  have q: "uint t0 = uint x + 2 ^ 29 * uint (drop_bit 29 t0)" "uint (drop_bit 29 t0) \<le> 8"
    unfolding x_def bottom_masks by (rule carry_word; use assms(1) in \<open>simp add: t window_ok_def\<close>)+
  let ?u1 = "t1 + drop_bit 29 t0"
  show ?thesis
  proof (cases "x = 0")
    case True
    have "reduce_even t = [0, ?u1, t2, t3, t4, t5, t6, t7, t8, t9]"
      using True unfolding t reduce_even_borrow x_def [symmetric] Let_def by simp
    moreover have "uint ?u1 = uint t1 + uint (drop_bit 29 t0)"
      by (rule uint32_add) (use q(2) assms(1) in \<open>simp add: t window_ok_def\<close>)
    ultimately show ?thesis using q True assms(1) x(1) by (simp add: t window_val_def window_after_def window_ok_def)
  next
    case False
    define m2 m3 m7 m8 where "m2 = push_bit 7 x AND bottom29Bits" and "m3 = push_bit 10 x AND bottom28Bits"
      and "m7 = push_bit 24 x AND bottom28Bits" and "m8 = push_bit 28 x AND bottom29Bits"
    obtain s4 u3 where e3: "borrow 28 (t3 + drop_bit 22 x) m3 = (s4, u3)" by fastforce
    obtain s5 u4 where e4: "borrow 29 t4 (s4 + drop_bit 18 x) = (s5, u4)" by fastforce
    obtain s6 u5 where e5: "(if s5 = 1 then borrow 28 t5 1 else (0, t5)) = (s6, u5)" by fastforce
    obtain s7 u6 where e6: "(if s6 = 1 then borrow 29 t6 1 else (0, t6)) = (s7, u6)" by fastforce
    obtain s8 u7 where e7: "borrow 28 t7 (s7 + m7) = (s8, u7)" by fastforce
    obtain s9 u8 where e8: "borrow 29 (t8 + m8) (s8 + drop_bit 4 x) = (s9, u8)" by fastforce
    have r: "reduce_even t = [0, ?u1, t2 + m2, u3, u4, u5, u6, u7, u8, t9 + (drop_bit 1 x - s9)]"
      using False e3 e4 e5 e6 e7 e8
      unfolding t reduce_even_borrow x_def [symmetric] m2_def [symmetric] m3_def [symmetric] m7_def [symmetric] m8_def [symmetric] Let_def
      by (simp add: word_gt_0)
    have m: "uint m2 = uint x * 2 ^ 7 mod 2 ^ 29" "uint m3 = uint x * 2 ^ 10 mod 2 ^ 28"
      "uint m7 = uint x * 2 ^ 24 mod 2 ^ 28" "uint m8 = uint x * 2 ^ 28 mod 2 ^ 29"
      unfolding m2_def m3_def m7_def m8_def by (rule uint32_push)+
    have x2: "uint x * 2 ^ 7 = 2 ^ 29 * uint (drop_bit 22 x) + uint m2" "uint x * 2 ^ 10 = 2 ^ 28 * uint (drop_bit 18 x) + uint m3"
      "uint x * 2 ^ 24 = 2 ^ 28 * uint (drop_bit 4 x) + uint m7" "uint x * 2 ^ 28 = 2 ^ 29 * uint (drop_bit 1 x) + uint m8"
      unfolding m uint32_drop by (rule shift_split, simp)+
    have "uint m8 = uint x mod 2 ^ 1 * 2 ^ 28" unfolding m using mult_mod_left [of "uint x" "2 ^ 1" "2 ^ 28"] by simp
    then have m8: "uint m8 \<le> 2 ^ 28" by simp
    have one: "1 \<le> uint t9 + uint (drop_bit 1 x)"
    proof (cases "t9 = 0")
      case True
      then have "x \<noteq> 1" using assms(2) by (simp add: t x_def)
      then have "uint x \<noteq> 1" "uint x \<noteq> 0" using False by (metis word_uint_eq_iff uint_1, metis word_uint_eq_iff unsigned_0)
      then have "2 \<le> uint x" using x(3) by linarith
      then show ?thesis using True by (simp add: uint32_drop pos_imp_zdiv_pos_iff del: One_nat_def)
    next
      case False
      then have "uint t9 \<noteq> 0" by (metis word_uint_eq_iff unsigned_0)
      then show ?thesis using unsigned_greater_eq [of t9, where ?'a = int] unsigned_greater_eq [of "drop_bit 1 x", where ?'a = int] by linarith
    qed
    have dd: "uint (drop_bit 22 x) < 2 ^ 7" "uint (drop_bit 18 x) < 2 ^ 11" "uint (drop_bit 4 x) < 2 ^ 25" "uint (drop_bit 1 x) < 2 ^ 28"
      unfolding uint32_drop using x(2) by (intro int_div_less; simp)+
    have mm: "uint m2 < 2 ^ 29" "uint m3 < 2 ^ 28" "uint m7 < 2 ^ 28" unfolding m by simp_all
    have sp: "uint x * 2 ^ 64 = 2 ^ (57 + 29) * uint (drop_bit 22 x) + 2 ^ 57 * uint m2"
      "uint x * 2 ^ 96 = 2 ^ 114 * uint (drop_bit 18 x) + 2 ^ (57 + 29) * uint m3"
      "uint x * 2 ^ 224 = 2 ^ 228 * uint (drop_bit 4 x) + 2 ^ (171 + 29) * uint m7"
      "uint x * 2 ^ 256 = 2 ^ (228 + 29) * uint (drop_bit 1 x) + 2 ^ 228 * uint m8"
      using x2 by simp_all
    have "window_after t (reduce_even t) \<and> window_val 29 (reduce_even t) = window_val 29 t + uint x * sm2_P"
      using clear_window [OF assms(1) [unfolded t] disjI1 [OF conjI [OF refl refl]] q mm m8 dd(1-3) less_imp_le [OF dd(4)] one sp
          e3 e4 e5 e6 e7 e8 refl refl refl]
      unfolding r unfolding t by (simp add: window_val_def)
    then show ?thesis by (simp add: x(1) t)
  qed
qed

lemma reduce_odd_val:
  assumes "window_ok t"
  shows "window_after t (reduce_odd t) \<and> window_val 28 (reduce_odd t) = window_val 28 t + uint (t ! 0) mod 2 ^ 28 * sm2_P"
proof -
  obtain t0 t1 t2 t3 t4 t5 t6 t7 t8 t9 where t: "t = [t0, t1, t2, t3, t4, t5, t6, t7, t8, t9]"
    using window_list assms(1) by (metis window_ok_def)
  define x where "x = t0 AND bottom28Bits"
  have x: "uint x = uint t0 mod 2 ^ 28" "uint x < 2 ^ 28" "0 \<le> uint x" by (simp_all add: x_def uint32_masked)
  have q: "uint t0 = uint x + 2 ^ 28 * uint (drop_bit 28 t0)" "uint (drop_bit 28 t0) \<le> 8"
    unfolding x_def bottom_masks by (rule carry_word; use assms(1) in \<open>simp add: t window_ok_def\<close>)+
  let ?u1 = "t1 + drop_bit 28 t0"
  show ?thesis
  proof (cases "x = 0")
    case True
    have "reduce_odd t = [0, ?u1, t2, t3, t4, t5, t6, t7, t8, t9]"
      using True unfolding t reduce_odd_borrow x_def [symmetric] Let_def by simp
    moreover have "uint ?u1 = uint t1 + uint (drop_bit 28 t0)"
      by (rule uint32_add) (use q(2) assms(1) in \<open>simp add: t window_ok_def\<close>)
    ultimately show ?thesis using q True assms(1) x(1) by (simp add: t window_val_def window_after_def window_ok_def)
  next
    case False
    define m2 m3 m7 where "m2 = push_bit 7 x AND bottom28Bits" and "m3 = push_bit 11 x AND bottom29Bits"
      and "m7 = push_bit 25 x AND bottom29Bits"
    obtain s4 u3 where e3: "borrow 29 (t3 + drop_bit 21 x) m3 = (s4, u3)" by fastforce
    obtain s5 u4 where e4: "borrow 28 t4 (s4 + drop_bit 18 x) = (s5, u4)" by fastforce
    obtain s6 u5 where e5: "(if s5 = 1 then borrow 29 t5 1 else (0, t5)) = (s6, u5)" by fastforce
    obtain s7 u6 where e6: "(if s6 = 1 then borrow 28 t6 1 else (0, t6)) = (s7, u6)" by fastforce
    obtain s8 u7 where e7: "borrow 29 t7 (s7 + m7) = (s8, u7)" by fastforce
    obtain s9 u8 where e8: "borrow 28 (t8 + 0) (s8 + drop_bit 4 x) = (s9, u8)" by fastforce
    have r: "reduce_odd t = [0, ?u1, t2 + m2, u3, u4, u5, u6, u7, u8, t9 + (x - s9)]"
      using False e3 e4 e5 e6 e7 e8
      unfolding t reduce_odd_borrow x_def [symmetric] m2_def [symmetric] m3_def [symmetric] m7_def [symmetric] Let_def
      by (simp add: word_gt_0)
    have m: "uint m2 = uint x * 2 ^ 7 mod 2 ^ 28" "uint m3 = uint x * 2 ^ 11 mod 2 ^ 29" "uint m7 = uint x * 2 ^ 25 mod 2 ^ 29"
      unfolding m2_def m3_def m7_def by (rule uint32_push)+
    have x2: "uint x * 2 ^ 7 = 2 ^ 28 * uint (drop_bit 21 x) + uint m2" "uint x * 2 ^ 11 = 2 ^ 29 * uint (drop_bit 18 x) + uint m3"
      "uint x * 2 ^ 25 = 2 ^ 29 * uint (drop_bit 4 x) + uint m7"
      unfolding m uint32_drop by (rule shift_split, simp)+
    have "uint x \<noteq> 0" using False by (metis word_uint_eq_iff unsigned_0)
    then have one: "1 \<le> uint t9 + uint x" using x(3) unsigned_greater_eq [of t9, where ?'a = int] by linarith
    have dd: "uint (drop_bit 21 x) < 2 ^ 7" "uint (drop_bit 18 x) < 2 ^ 11" "uint (drop_bit 4 x) < 2 ^ 25"
      unfolding uint32_drop using x(2) by (intro int_div_less; simp)+
    have mm: "uint m2 < 2 ^ 29" "uint m3 < 2 ^ 29" "uint m7 < 2 ^ 29" using pos_mod_bound [of "2 ^ 28" "uint x * 2 ^ 7"] unfolding m by simp_all
    have sp: "uint x * 2 ^ 64 = 2 ^ (57 + 28) * uint (drop_bit 21 x) + 2 ^ 57 * uint m2"
      "uint x * 2 ^ 96 = 2 ^ 114 * uint (drop_bit 18 x) + 2 ^ (57 + 28) * uint m3"
      "uint x * 2 ^ 224 = 2 ^ 228 * uint (drop_bit 4 x) + 2 ^ (171 + 28) * uint m7"
      "uint x * 2 ^ 256 = 2 ^ (228 + 28) * uint x + 2 ^ 228 * uint (0 :: u32)"
      using x2 by simp_all
    have "window_after t (reduce_odd t) \<and> window_val 28 (reduce_odd t) = window_val 28 t + uint x * sm2_P"
      using clear_window [OF assms(1) [unfolded t] disjI2 [OF conjI [OF refl refl]] q mm _ dd less_imp_le [OF x(2)] one sp
          e3 e4 e5 e6 e7 e8 refl refl refl]
      unfolding r unfolding t by (simp add: window_val_def)
    then show ?thesis by (simp add: x(1) t)
  qed
qed

section \<open>The value of a list of limbs\<close>

fun limb_val :: "nat \<Rightarrow> u32 list \<Rightarrow> int" where
  "limb_val i [] = 0"
| "limb_val i (t # ts) = uint t + 2 ^ limb_bits i * limb_val (Suc i) ts"

primrec weight :: "nat \<Rightarrow> nat \<Rightarrow> nat" where
  "weight i 0 = 0"
| "weight i (Suc n) = limb_bits i + weight (Suc i) n"

lemma limb_val_append: "limb_val i (xs @ ys) = limb_val i xs + 2 ^ weight i (length xs) * limb_val (i + length xs) ys"
  by (induction xs arbitrary: i) (simp_all add: algebra_simps power_add)

lemma limb_val_zeros [simp]: "limb_val i (replicate n 0) = 0"
  by (induction n arbitrary: i) simp_all

lemma limb_val_window: "length t = 10 \<Longrightarrow> limb_val i t = window_val (limb_bits i) t"
  by (subst (1) window_list) (auto simp: window_val_def limb_bits_def)

lemma length_on_window:
  "length (f (take 10 (drop i tmp))) = 10 \<Longrightarrow> i + 10 \<le> length tmp \<Longrightarrow> length (on_window f i tmp) = length tmp"
  by (simp add: on_window_def)

lemma on_window_val:
  assumes "length tmp = 18" "i \<le> 8" "length (f (take 10 (drop i tmp))) = 10"
  shows "limb_val 0 (on_window f i tmp) = limb_val 0 tmp
    + 2 ^ weight 0 i * (window_val (limb_bits i) (f (take 10 (drop i tmp))) - window_val (limb_bits i) (take 10 (drop i tmp)))"
proof -
  have "tmp = take i tmp @ take 10 (drop i tmp) @ drop (i + 10) tmp" by (metis append_take_drop_id drop_drop add.commute)
  then have "limb_val 0 tmp = limb_val 0 (take i tmp @ take 10 (drop i tmp) @ drop (i + 10) tmp)" by simp
  then show ?thesis using assms
    by (simp add: on_window_def limb_val_append limb_val_window algebra_simps)
qed

lemma weight_9: "weight 0 9 = 257"
  by code_simp

lemma list_all_segment: "k + m \<le> length xs \<Longrightarrow> list_all P (take m (drop k xs)) \<longleftrightarrow> (\<forall>n<m. P (xs ! (k + n)))"
  by (auto simp: list_all_length)

text \<open>Which limbs may be in the array before limb \<open>i\<close> is cleared.\<close>

definition limbs_ok :: "nat \<Rightarrow> u32 list \<Rightarrow> bool" where
  "limbs_ok i tmp = (length tmp = 18 \<and> take i tmp = replicate i 0 \<and> window_ok (take 10 (drop i tmp))
     \<and> list_all (\<lambda>t. uint t < 2 ^ 29) (take (8 - i) (drop (i + 9) tmp)) \<and> uint (tmp ! 17) < 2 ^ 31 + 2 ^ 10)"

definition clear_limb :: "u32 list \<Rightarrow> nat \<Rightarrow> u32 list" where
  "clear_limb tmp i = (if even i then on_window reduce_even i tmp else on_window reduce_odd i tmp)"

lemma reduce_limbs_Suc: "reduce_limbs tmp (Suc n) = clear_limb (reduce_limbs tmp n) n" and reduce_limbs_0: "reduce_limbs tmp 0 = tmp"
  by (simp_all add: reduce_limbs_def clear_limb_def)

text \<open>The limb is not the number 1 before a limb that is 0: no borrow is lost.\<close>

definition lends :: "u32 list \<Rightarrow> nat \<Rightarrow> bool" where
  "lends tmp i = (odd i \<or> tmp ! i AND bottom29Bits \<noteq> 1 \<or> tmp ! (i + 9) \<noteq> 0)"

lemma clear_limb_val:
  assumes "limbs_ok i tmp" "i \<le> 8" "lends tmp i"
  shows "length (clear_limb tmp i) = 18 \<and> take (Suc i) (clear_limb tmp i) = replicate (Suc i) 0
    \<and> window_after (take 10 (drop i tmp)) (take 10 (drop i (clear_limb tmp i)))
    \<and> drop (i + 10) (clear_limb tmp i) = drop (i + 10) tmp
    \<and> limb_val 0 (clear_limb tmp i) mod sm2_P = limb_val 0 tmp mod sm2_P"
proof -
  let ?f = "if even i then reduce_even else reduce_odd" and ?t = "take 10 (drop i tmp)"
  have len: "length tmp = 18" "take i tmp = replicate i 0" "window_ok ?t" using assms(1) by (simp_all add: limbs_ok_def)
  have nth: "?t ! 0 = tmp ! i" "?t ! 9 = tmp ! (i + 9)" using len assms(2) by simp_all
  have "\<exists>k. window_after ?t (?f ?t) \<and> window_val (limb_bits i) (?f ?t) = window_val (limb_bits i) ?t + k * sm2_P"
  proof (cases "even i")
    case True
    have "?t ! 0 AND bottom29Bits \<noteq> 1 \<or> ?t ! 9 \<noteq> 0" unfolding nth using assms(3) True by (simp add: lends_def)
    from reduce_even_val [OF len(3) this] True show ?thesis unfolding limb_bits_def if_P [OF True] by blast
  next
    case False
    from reduce_odd_val [OF len(3)] False show ?thesis unfolding limb_bits_def if_not_P [OF False] by blast
  qed
  then obtain k where k: "window_after ?t (?f ?t)" "window_val (limb_bits i) (?f ?t) = window_val (limb_bits i) ?t + k * sm2_P"
    by blast
  have f10: "length (?f ?t) = 10" and f0: "?f ?t ! 0 = 0" using k(1) by (simp_all add: window_after_def)
  have c: "clear_limb tmp i = take i tmp @ ?f ?t @ drop (i + 10) tmp" by (simp add: clear_limb_def on_window_def)
  have "take (Suc i) (clear_limb tmp i) = replicate i 0 @ [0]"
    using len f10 f0 assms(2) by (simp add: c take_Suc_conv_app_nth nth_append)
  then have "take (Suc i) (clear_limb tmp i) = replicate (Suc i) 0" by (simp add: replicate_append_same)
  moreover have "limb_val 0 (clear_limb tmp i) = limb_val 0 tmp + 2 ^ weight 0 i * k * sm2_P"
    using on_window_val [OF len(1) assms(2), of ?f] f10 k(2) by (simp add: clear_limb_def algebra_simps split: if_splits)
  ultimately show ?thesis using k(1) f10 len assms(2) by (simp add: c)
qed

lemma clear_limb_ok:
  assumes "limbs_ok i tmp" "i < 8" "lends tmp i"
  shows "limbs_ok (Suc i) (clear_limb tmp i)"
proof -
  let ?new = "clear_limb tmp i" and ?t = "take 10 (drop i tmp)"
  have new: "length ?new = 18" "take (Suc i) ?new = replicate (Suc i) 0" "window_after ?t (take 10 (drop i ?new))"
    "drop (i + 10) ?new = drop (i + 10) tmp"
    using clear_limb_val [OF assms(1) _ assms(3)] assms(2) by simp_all
  have old: "length tmp = 18" "window_ok ?t" "list_all (\<lambda>t. uint t < 2 ^ 29) (take (8 - i) (drop (i + 9) tmp))" "uint (tmp ! 17) < 2 ^ 31 + 2 ^ 10"
    using assms(1) by (simp_all add: limbs_ok_def)
  have nth: "?t ! j = tmp ! (i + j)" "take 10 (drop i ?new) ! j = ?new ! (i + j)" if "j < 10" for j
    using that old new assms(2) by simp_all
  have nx: "take 10 (drop (Suc i) ?new) ! j = ?new ! (i + Suc j)" if "j < 10" for j
    using that new(1) assms(2) by simp
  have high: "?new ! (i + 10 + j) = tmp ! (i + 10 + j)" if "j < 8 - i" for j
    using arg_cong [OF new(4), of "\<lambda>xs. xs ! j"] new(1) old(1) that by simp
  have low: "uint (tmp ! (i + 9 + j)) < 2 ^ 29" if "j < 8 - i" for j
    using old(1,3) that by (simp add: list_all_length)
  have t: "uint (tmp ! (i + 1)) \<le> 2 ^ 30 + 2 ^ 29 + 2 ^ 7" "uint (tmp ! (i + 2)) \<le> 2 ^ 30 + 2 ^ 7"
    using old(1,2) assms(2) by (simp_all add: window_ok_def)
  have "uint (tmp ! (i + 9)) < 2 ^ 29" using low [of 0] assms(2) by simp
  then have u: "uint (?new ! (i + 1)) \<le> 2 ^ 30 + 2 ^ 29 + 2 ^ 8" "uint (?new ! (i + 2)) \<le> 2 ^ 30 + 2 ^ 29 + 2 ^ 7" "uint (?new ! (i + 3)) \<le> 2 ^ 30 + 2 ^ 7"
    "uint (?new ! (i + 4)) \<le> 2 ^ 30" "uint (?new ! (i + 5)) \<le> 2 ^ 30" "uint (?new ! (i + 6)) \<le> 2 ^ 30" "uint (?new ! (i + 7)) \<le> 2 ^ 30"
    "uint (?new ! (i + 8)) \<le> 2 ^ 30" "uint (?new ! (i + 9)) \<le> 2 ^ 29 + 2 ^ 28"
    using new(1,3) old(1) t assms(2) by (simp_all add: window_after_def)
  have n10: "?new ! (i + 10) = tmp ! (i + 10)" using high [of 0] assms(2) by simp
  have "uint (tmp ! (i + 10)) < 2 ^ 31 + 2 ^ 10"
  proof (cases "i = 7")
    case True
    then show ?thesis using old(4) by simp
  next
    case False
    then have "uint (tmp ! (i + 9 + 1)) < 2 ^ 29" by (intro low) (use assms(2) in simp)
    then show ?thesis by (simp add: add.commute [of i])
  qed
  then have "window_ok (take 10 (drop (Suc i) ?new))"
    using u n10 nx [of 0] nx [of 1] nx [of 2] nx [of 3] nx [of 4] nx [of 5] nx [of 6] nx [of 7] nx [of 8] nx [of 9] new(1) assms(2)
    unfolding window_ok_def by simp
  moreover have "uint (?new ! 17) < 2 ^ 31 + 2 ^ 10" using high [of "7 - i"] assms(2) old(4) by simp
  moreover have "list_all (\<lambda>t. uint t < 2 ^ 29) (take (8 - Suc i) (drop (Suc i + 9) ?new))"
  proof -
    have "uint (?new ! (Suc i + 9 + n)) < 2 ^ 29" if "n < 8 - Suc i" for n
    proof -
      have "Suc i + 9 + n = i + 10 + n" "i + 9 + Suc n = i + 10 + n" "Suc n < 8 - i" "n < 8 - i" using that by auto
      then show ?thesis using high [of n] low [of "Suc n"] by metis
    qed
    then show ?thesis using new(1) assms(2) by (simp add: list_all_segment)
  qed
  ultimately show ?thesis using new by (simp add: limbs_ok_def)
qed

text \<open>The reduction of an array lends at every even limb.\<close>

definition exact_limbs :: "u32 list \<Rightarrow> bool" where
  "exact_limbs tmp = list_all (\<lambda>i. lends (reduce_limbs tmp i) i) [0, 2, 4, 6, 8]"

lemma reduce_limbs_ok:
  assumes "limbs_ok 0 tmp" "exact_limbs tmp" "n \<le> 8"
  shows "limbs_ok n (reduce_limbs tmp n) \<and> limb_val 0 (reduce_limbs tmp n) mod sm2_P = limb_val 0 tmp mod sm2_P"
  using assms(3)
proof (induction n)
  case (Suc n)
  have "lends (reduce_limbs tmp n) n"
  proof (cases "even n")
    case True
    then have "n \<in> {0, 2, 4, 6, 8}" using Suc.prems by (auto elim!: evenE)
    then show ?thesis using assms(2) by (auto simp: exact_limbs_def)
  qed (simp add: lends_def)
  then show ?case using Suc clear_limb_ok [of n "reduce_limbs tmp n"] clear_limb_val [of n "reduce_limbs tmp n"]
    by (simp add: reduce_limbs_Suc)
qed (simp add: assms(1) reduce_limbs_0)

lemma reduce_limbs_val:
  assumes "limbs_ok 0 tmp" "exact_limbs tmp"
  obtains high where "length high = 9" "reduce_limbs tmp 9 = replicate 9 0 @ high"
    "2 ^ 257 * limb_val 9 high mod sm2_P = limb_val 0 tmp mod sm2_P"
    "list_all (\<lambda>t. uint t \<le> 2 ^ 30 + 2 ^ 29 + 2 ^ 8) (take 8 high)" "uint (high ! 8) < 2 ^ 31 + 2 ^ 29"
proof -
  let ?r = "reduce_limbs tmp 8"
  have r: "limbs_ok 8 ?r" "limb_val 0 ?r mod sm2_P = limb_val 0 tmp mod sm2_P" using reduce_limbs_ok [OF assms, of 8] by simp_all
  have "lends ?r 8" using assms(2) by (simp add: exact_limbs_def)
  note c = clear_limb_val [OF r(1) order_refl this, folded reduce_limbs_Suc, simplified]
  define high where "high = drop 9 (reduce_limbs tmp 9)"
  have s8: "Suc 8 = 9" by simp
  have c: "length (reduce_limbs tmp 9) = 18" "take 9 (reduce_limbs tmp 9) = replicate 9 0"
    "window_after (take 10 (drop 8 ?r)) (take 10 (drop 8 (reduce_limbs tmp 9)))"
    "limb_val 0 (reduce_limbs tmp 9) mod sm2_P = limb_val 0 ?r mod sm2_P"
    using clear_limb_val [OF r(1) order_refl \<open>lends ?r 8\<close>, folded reduce_limbs_Suc] unfolding s8 by blast+
  have h: "length high = 9" "reduce_limbs tmp 9 = replicate 9 0 @ high"
    using c(1,2) append_take_drop_id [of 9 "reduce_limbs tmp 9"] unfolding high_def by (simp, metis)
  have "limb_val 0 (reduce_limbs tmp 9) = 2 ^ 257 * limb_val 9 high"
    unfolding h(2) limb_val_append limb_val_zeros length_replicate weight_9 add_0 ..
  then have v: "2 ^ 257 * limb_val 9 high mod sm2_P = limb_val 0 tmp mod sm2_P"
    using c(4) r(2) by simp
  have nth: "take 10 (drop 8 (reduce_limbs tmp 9)) ! Suc j = high ! j" if "j < 9" for j
    using that c(1) by (simp add: high_def)
  have t: "window_ok (take 10 (drop 8 ?r))" using r(1) unfolding limbs_ok_def by blast
  have b: "uint (high ! 0) \<le> 2 ^ 30 + 2 ^ 29 + 2 ^ 8" "uint (high ! 1) \<le> 2 ^ 30 + 2 ^ 29 + 2 ^ 8" "uint (high ! 2) \<le> 2 ^ 30 + 2 ^ 29 + 2 ^ 8"
    "uint (high ! 3) \<le> 2 ^ 30" "uint (high ! 4) \<le> 2 ^ 30" "uint (high ! 5) \<le> 2 ^ 30" "uint (high ! 6) \<le> 2 ^ 30" "uint (high ! 7) \<le> 2 ^ 30"
    "uint (high ! 8) < 2 ^ 31 + 2 ^ 29"
    using nth [of 0] nth [of 1, unfolded Suc_1] nth [of 2] nth [of 3] nth [of 4] nth [of 5] nth [of 6] nth [of 7] nth [of 8] c(3) t
    unfolding window_after_def window_ok_def by simp_all
  then have "list_all (\<lambda>t. uint t \<le> 2 ^ 30 + 2 ^ 29 + 2 ^ 8) (take 8 high)"
    using h(1) by (auto simp: list_all_length less_Suc_eq numeral_eq_Suc)
  then show thesis using that h v b(9) by blast
qed

end
