(* ===== verification/Sm2_Mul.thy ===== *)
theory Sm2_Mul
  imports Sm2_Reduction
begin

text \<open>
  Products in the field of the SM2 curve: the columns of the product, their limbs, the nine high limbs as an
  element, and what \<open>sm2P256Mul\<close> and \<open>sm2P256Square\<close> compute.
\<close>

section \<open>The columns as limbs\<close>

lemma uint64_bound: "uint (x :: u64) < 2 ^ 64"
  using uint_lt2p [of x] by simp

lemma uint_low_half: "uint (ucast (b :: u64) :: u32) = uint b mod 2 ^ 32"
  by (simp add: unsigned_ucast_eq take_bit_eq_mod)

lemma uint_high_half: "uint (ucast (drop_bit 32 (b :: u64)) :: u32) = uint b div 2 ^ 32"
proof -
  have "uint (drop_bit 32 b) = uint b div 2 ^ 32" by (rule uint_drop_bit)
  moreover have "uint b div 2 ^ 32 < 2 ^ 32" by (rule int_div_less) (use uint64_bound [of b] in simp_all)
  ultimately show ?thesis by (simp add: unsigned_ucast_eq take_bit_eq_mod pos_imp_zdiv_nonneg_iff)
qed

text \<open>A column is its \<open>w\<close> low bits, its bits from \<open>w\<close> to 56 and its bits from 57.\<close>

definition col_mid :: "nat \<Rightarrow> u64 \<Rightarrow> int" where
  "col_mid w b = uint b div 2 ^ w mod 2 ^ (57 - w)"

definition col_top :: "u64 \<Rightarrow> int" where
  "col_top b = uint b div 2 ^ 57"

lemma col_split: "w \<le> 57 \<Longrightarrow> uint b mod 2 ^ w + 2 ^ w * col_mid w b + 2 ^ 57 * col_top b = uint (b :: u64)"
proof -
  assume w: "w \<le> 57"
  have "uint b div 2 ^ w = 2 ^ (57 - w) * (uint b div 2 ^ w div 2 ^ (57 - w)) + col_mid w b" unfolding col_mid_def by simp
  also have "uint b div 2 ^ w div 2 ^ (57 - w) = col_top b"
    using w by (simp add: col_top_def zdiv_zmult2_eq [symmetric] flip: power_add)
  finally have "2 ^ w * (uint b div 2 ^ w) = 2 ^ w * 2 ^ (57 - w) * col_top b + 2 ^ w * col_mid w b" by (simp add: algebra_simps)
  also have "(2 :: int) ^ w * 2 ^ (57 - w) = 2 ^ 57" using w by (simp flip: power_add)
  finally show ?thesis using mult_div_mod_eq [of "2 ^ w" "uint b"] by linarith
qed

lemma col_bounds: "0 \<le> col_mid w b" "col_mid w b < 2 ^ (57 - w)" "0 \<le> col_top b" "col_top b < 2 ^ 7"
proof -
  show "col_top b < 2 ^ 7" unfolding col_top_def by (rule int_div_less) (use uint64_bound [of b] in simp_all)
qed (simp_all add: col_mid_def col_top_def pos_imp_zdiv_nonneg_iff)

lemma col_top_bound: "col_top b < 128"
  using col_bounds(4) [of b] by simp

lemma col_top_word: "uint (drop_bit 25 (ucast (drop_bit 32 (b :: u64))) :: u32) = col_top b"
  unfolding uint32_drop uint_high_half col_top_def by (simp add: zdiv_zmult2_eq [symmetric])

lemma col_mid_word:
  assumes "w \<le> 32"
  shows "uint (drop_bit w (ucast (b :: u64)) :: u32) + uint b div 2 ^ 32 * 2 ^ (32 - w) mod 2 ^ (57 - w) = col_mid w b"
proof -
  define l h where "l = uint b mod 2 ^ 32" and "h = uint b div 2 ^ 32"
  have b: "uint b = l + 2 ^ 32 * h" by (simp add: l_def h_def)
  have p: "(2 :: int) ^ 32 = 2 ^ (32 - w) * 2 ^ w" "(2 :: int) ^ (57 - w) = 2 ^ 25 * 2 ^ (32 - w)"
  proof -
    have "57 - w = 25 + (32 - w)" using assms by simp
    then show "(2 :: int) ^ (57 - w) = 2 ^ 25 * 2 ^ (32 - w)" by (simp only: power_add)
  qed (use assms in \<open>simp flip: power_add\<close>)
  have "l div 2 ^ w < 2 ^ (32 - w)" by (rule int_div_less) (simp_all add: l_def flip: p)
  then have l: "0 \<le> l div 2 ^ w" "l div 2 ^ w < 2 ^ (32 - w)" by (simp_all add: l_def pos_imp_zdiv_nonneg_iff)
  have "uint b div 2 ^ w = 2 ^ (32 - w) * h + l div 2 ^ w"
    unfolding b p(1) by (simp add: div_add1_eq div_mult2_eq mult.assoc algebra_simps)
  then have "col_mid w b = (2 ^ (32 - w) * h + l div 2 ^ w) mod (2 ^ (32 - w) * 2 ^ 25)"
    unfolding col_mid_def p(2) by (simp add: mult.commute)
  also have "\<dots> = 2 ^ (32 - w) * (h mod 2 ^ 25) + l div 2 ^ w"
    using l by (simp add: zmod_zmult2_eq div_plus_div_distrib_dvd_left)
  also have "2 ^ (32 - w) * (h mod 2 ^ 25) = h * 2 ^ (32 - w) mod 2 ^ (57 - w)"
    unfolding p(2) by (simp add: mult_mod_left mult.commute)
  finally show ?thesis by (simp add: uint32_drop uint_low_half l_def h_def)
qed

fun col_val :: "nat \<Rightarrow> u64 list \<Rightarrow> int" where
  "col_val i [] = 0"
| "col_val i (b # bs) = uint b + 2 ^ limb_bits i * col_val (Suc i) bs"

lemma col_val_append: "col_val i (xs @ ys) = col_val i xs + 2 ^ weight i (length xs) * col_val (i + length xs) ys"
  by (induction xs arbitrary: i) (simp_all add: algebra_simps power_add)

lemma weight_Suc: "weight i (Suc n) = weight i n + limb_bits (i + n)"
  by (induction n arbitrary: i) simp_all

lemma weight_Suc2: "weight i (Suc (Suc n)) = weight i n + 57"
  unfolding weight_Suc by (simp add: limb_bits_def)

lemma limb_mask_eq: "limb_mask i = mask (limb_bits i)"
  by (simp add: limb_mask_def limb_bits_def bottom_masks)

lemma uint_mask_split: "uint (t AND limb_mask i) + 2 ^ limb_bits i * uint (drop_bit (limb_bits i) t) = uint (t :: u32)"
  unfolding limb_mask_eq uint32_mask uint32_drop by simp

lemma limb_bits_cases: "limb_bits i = 28 \<or> limb_bits i = 29"
  by (simp add: limb_bits_def)

text \<open>What the columns up to \<open>i\<close> still owe to the next limbs.\<close>

definition spread_inv :: "u64 list \<Rightarrow> nat \<Rightarrow> u32 list \<times> u32 \<Rightarrow> bool" where
  "spread_inv b i st = (case st of (tmp, carry) \<Rightarrow>
     length tmp = i \<and> list_all (\<lambda>t. uint t < 2 ^ 29) tmp \<and> uint carry \<le> 7
     \<and> limb_val 0 tmp
         + 2 ^ weight 0 i * (uint carry + col_mid (limb_bits (i - 1)) (b ! (i - 1)) + col_top (b ! (i - 2)))
         + 2 ^ weight 0 (Suc i) * col_top (b ! (i - 1)) = col_val 0 (take i b))"

lemma uint32_add': "uint a + uint b < 4294967296 \<Longrightarrow> uint (a + b) = uint a + uint b" for a b :: u32
  by (rule uint32_add) simp

lemma uint32_sum4:
  fixes a b c d :: u32
  assumes "uint a + uint b + uint c + uint d < 4294967296"
  shows "uint (a + b + c + d) = uint a + uint b + uint c + uint d"
proof -
  have p: "0 \<le> uint c" "0 \<le> uint d" by simp_all
  then have ab: "uint (a + b) = uint a + uint b" using assms by (intro uint32_add') linarith
  then have abc: "uint (a + b + c) = uint a + uint b + uint c" using assms p by (subst uint32_add') linarith+
  then show ?thesis using assms by (subst uint32_add') linarith+
qed

lemma uint32_sum5:
  fixes a b c d e :: u32
  assumes "uint a + uint b + uint c + uint d + uint e < 4294967296"
  shows "uint (a + b + c + d + e) = uint a + uint b + uint c + uint d + uint e"
proof -
  have "0 \<le> uint e" by simp
  then have "uint (a + b + c + d) = uint a + uint b + uint c + uint d" using assms by (intro uint32_sum4) linarith
  then show ?thesis using assms by (subst uint32_add') linarith+
qed

text \<open>The sum that both kinds of step compute.\<close>

lemma spread_sum:
  assumes "uint carry \<le> 7" "2 \<le> i" "i < length b"
  shows "uint (if even i then spread_even b i carry else spread_odd b i carry)
    = col_top (b ! (i - 2)) + col_mid (limb_bits (i - 1)) (b ! (i - 1)) + uint (b ! i) mod 2 ^ limb_bits i + uint carry"
proof -
  let ?h = "ucast (drop_bit 32 (b ! (i - 1))) :: u32"
  have step: "uint (drop_bit 25 (ucast (drop_bit 32 (b ! (i - 2)))) + drop_bit v (ucast (b ! (i - 1))) + (push_bit (32 - v) ?h AND mask w)
      + (ucast (b ! i) AND mask w) + carry) = col_top (b ! (i - 2)) + col_mid v (b ! (i - 1)) + uint (b ! i) mod 2 ^ w + uint carry"
    if v: "v = 28 \<and> w = 29 \<or> v = 29 \<and> w = 28" for v w
  proof -
    have "uint (drop_bit v (ucast (b ! (i - 1))) :: u32) + uint (push_bit (32 - v) ?h AND mask w) = col_mid v (b ! (i - 1))"
    proof -
      have "w = 57 - v" "v \<le> 32" "w \<le> 32" using v by auto
      then show ?thesis using col_mid_word [of v "b ! (i - 1)"] by (simp add: uint32_push_mask uint_high_half)
    qed
    moreover have "uint (ucast (b ! i) AND mask w :: u32) = uint (b ! i) mod 2 ^ w"
      unfolding uint32_mask uint_low_half using v by (auto simp: mod_mod_cancel)
    moreover have "col_mid v (b ! (i - 1)) < 536870912" "uint (b ! i) mod 2 ^ w < 536870912"
      using col_bounds(2) [of v "b ! (i - 1)"] v pos_mod_bound [of "2 ^ w" "uint (b ! i)"] by auto
    ultimately show ?thesis
      using col_bounds(3) [of "b ! (i - 2)"] col_top_bound [of "b ! (i - 2)"] assms(1) col_top_word [of "b ! (i - 2)"]
      by (subst uint32_sum5) linarith+
  qed
  show ?thesis
    using assms(2) step [of 28 29] step [of 29 28]
    by (cases "even i") (auto simp: spread_even_def spread_odd_def bottom_masks limb_bits_def)
qed

lemma spread_arith:
  fixes A W L S :: int
  assumes "L + A * (c + m + tp) + A * W * tq = S" "tp + m + lo + c = lo' + W * c'"
  shows "L + A * lo' + A * W * (c' + mi + tq) + A * 144115188075855872 * ti = S + A * (lo + W * mi + 144115188075855872 * ti)"
proof -
  have "A * (tp + m + lo + c) = A * (lo' + W * c')" using assms(2) by simp
  then show ?thesis using assms(1) by (simp add: algebra_simps)
qed

lemma spread_step_inv:
  assumes "spread_inv b i st" "2 \<le> i" "i < length b"
  shows "spread_inv b (Suc i) (spread_step b st i)"
proof -
  obtain tmp carry where st: "st = (tmp, carry)" by fastforce
  have p: "a * 2 ^ limb_bits i * 2 ^ limb_bits (Suc i) = a * 144115188075855872" for a :: int by (simp add: limb_bits_def)
  define t where "t = (if even i then spread_even b i carry else spread_odd b i carry)"
  have inv: "length tmp = i" "list_all (\<lambda>t. uint t < 2 ^ 29) tmp" "uint carry \<le> 7"
    "limb_val 0 tmp + 2 ^ weight 0 i * (uint carry + col_mid (limb_bits (i - 1)) (b ! (i - 1)) + col_top (b ! (i - 2)))
       + 2 ^ weight 0 (Suc i) * col_top (b ! (i - 1)) = col_val 0 (take i b)"
    using assms(1) by (simp_all add: st spread_inv_def)
  have t: "uint t = col_top (b ! (i - 2)) + col_mid (limb_bits (i - 1)) (b ! (i - 1)) + uint (b ! i) mod 2 ^ limb_bits i + uint carry"
    unfolding t_def by (rule spread_sum [OF inv(3) assms(2,3)])
  have "uint t = uint (t AND limb_mask i) + 2 ^ limb_bits i * uint (drop_bit (limb_bits i) t)" using uint_mask_split [of t i] by simp
  moreover have "uint (t AND limb_mask i) < 2 ^ 29" unfolding limb_mask_eq uint32_mask using limb_bits_cases [of i] by auto
  moreover have "uint (drop_bit (limb_bits i) t) \<le> 7"
  proof -
    have "uint (drop_bit (limb_bits i) t) < 8" unfolding uint32_drop
    proof (rule int_div_less)
      have "col_mid (limb_bits (i - 1)) (b ! (i - 1)) < 536870912" "uint (b ! i) mod 2 ^ limb_bits i < 536870912"
        using col_bounds(2) [of "limb_bits (i - 1)" "b ! (i - 1)"] limb_bits_cases [of i] limb_bits_cases [of "i - 1"]
          pos_mod_bound [of "2 ^ limb_bits i" "uint (b ! i)"] by auto
      then have "uint t < 2147483648" using t inv(3) col_top_bound [of "b ! (i - 2)"] by linarith
      then show "uint t < 8 * 2 ^ limb_bits i" using limb_bits_cases [of i] by auto
    qed simp
    then show ?thesis by simp
  qed
  moreover have "col_val 0 (take (Suc i) b) = col_val 0 (take i b)
      + 2 ^ weight 0 i * (uint (b ! i) mod 2 ^ limb_bits i + 2 ^ limb_bits i * col_mid (limb_bits i) (b ! i) + 2 ^ 57 * col_top (b ! i))"
    using assms(3) limb_bits_cases [of i] by (subst col_split) (auto simp: take_Suc_conv_app_nth col_val_append)
  moreover have "limb_val 0 tmp + 2 ^ weight 0 i * uint (t AND limb_mask i)
      + 2 ^ weight 0 i * 2 ^ limb_bits i * (uint (drop_bit (limb_bits i) t) + col_mid (limb_bits i) (b ! i) + col_top (b ! (i - 1)))
      + 2 ^ weight 0 i * 144115188075855872 * col_top (b ! i)
    = col_val 0 (take i b)
      + 2 ^ weight 0 i * (uint (b ! i) mod 2 ^ limb_bits i + 2 ^ limb_bits i * col_mid (limb_bits i) (b ! i) + 144115188075855872 * col_top (b ! i))"
    by (rule spread_arith [of _ _ "uint carry" "col_mid (limb_bits (i - 1)) (b ! (i - 1))" "col_top (b ! (i - 2))"])
      (use inv(4) [unfolded weight_Suc power_add] t uint_mask_split [of t i] in \<open>simp_all add: power_add algebra_simps\<close>)
  ultimately show ?thesis
    using inv(1-3) unfolding st spread_step_def spread_inv_def prod.case Let_def t_def [symmetric] weight_Suc2 weight_Suc
    by (simp add: limb_val_append power_add p)
qed

lemma disjoint_or: "drop_bit 29 (x :: u32) OR (push_bit 3 y AND mask 28) = drop_bit 29 x + (push_bit 3 y AND mask 28)"
proof -
  have "drop_bit 29 x AND (push_bit 3 y AND mask 28) = 0" by (rule bit_word_eqI) (auto simp: bit_simps dest: bit_imp_le_length)
  then show ?thesis using word_plus_and_or [of "drop_bit 29 x" "push_bit 3 y AND mask 28"] by simp
qed

lemma spread_start_inv:
  assumes "length b = 17"
  shows "spread_inv b 2 (spread_start b)"
proof -
  define t0 where "t0 = (ucast (b ! 0) AND bottom29Bits :: u32)"
  define t1 where "t1 = drop_bit 29 (ucast (b ! 0)) + (push_bit 3 (ucast (drop_bit 32 (b ! 0))) AND mask 28) + (ucast (b ! 1) AND bottom28Bits :: u32)"
  have t0: "uint t0 = uint (b ! 0) mod 2 ^ 29" unfolding t0_def uint32_masked uint_low_half by (simp add: mod_mod_cancel)
  have "uint (drop_bit 29 (ucast (b ! 0)) :: u32) + uint (push_bit 3 (ucast (drop_bit 32 (b ! 0))) AND mask 28 :: u32) = col_mid 29 (b ! 0)"
    using col_mid_word [of 29 "b ! 0"] by (simp add: uint32_push_mask uint_high_half)
  moreover have "uint (ucast (b ! 1) AND bottom28Bits :: u32) = uint (b ! 1) mod 2 ^ 28"
    unfolding uint32_masked uint_low_half by (simp add: mod_mod_cancel)
  moreover have "col_mid 29 (b ! 0) < 268435456" "uint (b ! 1) mod 2 ^ 28 < 268435456" using col_bounds(2) [of 29 "b ! 0"] by simp_all
  ultimately have t1: "uint t1 = col_mid 29 (b ! 0) + uint (b ! 1) mod 2 ^ 28" "uint t1 < 536870912"
    unfolding t1_def using uint32_sum4 [of "drop_bit 29 (ucast (b ! 0))" "push_bit 3 (ucast (drop_bit 32 (b ! 0))) AND mask 28" "ucast (b ! 1) AND bottom28Bits" 0]
    by simp_all
  have "uint t1 = uint (t1 AND bottom28Bits) + 2 ^ 28 * uint (drop_bit 28 t1)" unfolding uint32_masked uint32_drop by simp
  moreover have "uint (t1 AND bottom28Bits) < 2 ^ 29" unfolding uint32_masked by (rule less_trans [of _ "2 ^ 28"]) simp_all
  moreover have "uint (drop_bit 28 t1) < 2" unfolding uint32_drop by (rule int_div_less) (use t1(2) in simp_all)
  moreover have "spread_start b = ([t0, t1 AND bottom28Bits], drop_bit 28 t1)"
    unfolding spread_start_def t0_def t1_def bottom_masks Let_def disjoint_or ..
  moreover have "take 2 b = [b ! 0, b ! 1]" using assms by (simp add: numeral_2_eq_2 take_Suc_conv_app_nth)
  moreover have "uint t0 < 2 ^ 29" unfolding t0 by simp
  moreover have "weight 0 2 = 57" "weight 0 (Suc 2) = 86" by code_simp+
  ultimately show ?thesis
    using t0 t1(1) col_split [of 29 "b ! 0"] col_split [of 28 "b ! 1"]
    by (simp add: spread_inv_def limb_bits_def)
qed

lemma weight_16: "weight 0 16 = 456" and weight_17: "weight 0 17 = 485" and weight_18: "weight 0 (Suc 17) = 513"
  by code_simp+

lemma spread_val:
  assumes "length b = 17" "uint (b ! 16) \<le> 2 ^ 60"
  shows "limbs_ok 0 (spread b) \<and> limb_val 0 (spread b) = col_val 0 b"
proof -
  obtain tmp carry where f: "foldl (spread_step b) (spread_start b) [2..<17] = (tmp, carry)" by fastforce
  have "spread_inv b 17 (foldl (spread_step b) (spread_start b) [2..<17])"
    by (rule foldl_upt_invariant [of "spread_inv b"]) (use assms(1) spread_start_inv spread_step_inv in simp_all)
  then have inv: "length tmp = 17" "list_all (\<lambda>t. uint t < 2 ^ 29) tmp" "uint carry \<le> 7"
    "limb_val 0 tmp + 2 ^ 485 * (uint carry + col_mid 29 (b ! 16) + col_top (b ! 15)) + 2 ^ 513 * col_top (b ! 16) = col_val 0 b"
    unfolding f spread_inv_def prod.case weight_17 weight_18 using assms(1) by (simp_all add: limb_bits_def)
  define h where "h = uint (b ! 16) div 2 ^ 32"
  define g where "g = uint (b ! 16) mod 2 ^ 32 div 2 ^ 29"
  define t where "t = drop_bit 25 (ucast (drop_bit 32 (b ! 15))) + drop_bit 29 (ucast (b ! 16)) + push_bit 3 (ucast (drop_bit 32 (b ! 16))) + carry"
  have h: "0 \<le> h" "h < 268435457" unfolding h_def using assms(2) by (simp_all add: int_div_less pos_imp_zdiv_nonneg_iff)
  have g: "0 \<le> g" "g < 8" unfolding g_def by (simp_all add: int_div_less pos_imp_zdiv_nonneg_iff)
  have gw: "uint (drop_bit 29 (ucast (b ! 16)) :: u32) = g" unfolding uint32_drop uint_low_half g_def ..
  have hw: "uint (push_bit 3 (ucast (drop_bit 32 (b ! 16))) :: u32) = 8 * h"
  proof -
    have "uint (push_bit 3 (ucast (drop_bit 32 (b ! 16))) AND mask 32 :: u32) = uint (b ! 16) div 2 ^ 32 * 2 ^ 3 mod 2 ^ 32"
      by (simp only: uint32_push_mask uint_high_half order_refl)
    moreover have "(mask 32 :: u32) = - 1" by (simp add: mask_eq_exp_minus_1)
    ultimately have "uint (push_bit 3 (ucast (drop_bit 32 (b ! 16))) :: u32) = h * 2 ^ 3 mod 2 ^ 32"
      unfolding h_def by (simp only: word_and_max)
    then show ?thesis using h by simp
  qed
  have t: "uint t = col_top (b ! 15) + g + 8 * h + uint carry"
    unfolding t_def using col_top_bound [of "b ! 15"] h g inv(3) gw hw col_top_word [of "b ! 15"] by (subst uint32_sum4) linarith+
  have "g + 8 * h = col_mid 29 (b ! 16) + 2 ^ 28 * col_top (b ! 16)"
  proof -
    have "uint (b ! 16) = 2 ^ 32 * h + uint (b ! 16) mod 2 ^ 32" "uint (b ! 16) mod 2 ^ 32 = 2 ^ 29 * g + uint (b ! 16) mod 2 ^ 32 mod 2 ^ 29"
      unfolding h_def g_def by simp_all
    moreover have "uint (b ! 16) mod 2 ^ 32 mod 2 ^ 29 = uint (b ! 16) mod 2 ^ 29" by (simp add: mod_mod_cancel)
    ultimately show ?thesis using col_split [of 29 "b ! 16"] by simp
  qed
  then have v: "limb_val 0 tmp + 2 ^ 485 * uint t = col_val 0 b" using inv(4) unfolding t by simp
  have s: "spread b = tmp @ [t]" unfolding spread_def f prod.case t_def ..
  have "uint t < 2 ^ 31 + 2 ^ 10" unfolding t using h g inv(3) col_top_bound [of "b ! 15"] by simp
  moreover have "uint (tmp ! j) < 536870912" if "j < 17" for j using inv(1,2) that by (simp add: list_all_length)
  moreover have "list_all (\<lambda>t. uint t < 536870912) (drop 9 tmp)" using inv(2) by (auto simp: list_all_iff dest: in_set_dropD)
  ultimately have "limbs_ok 0 (spread b)"
    using inv(1) unfolding s limbs_ok_def window_ok_def by (simp add: nth_append list_all_segment order.strict_implies_order less_trans [where y = 536870912])
  then show ?thesis using v unfolding s limb_val_append inv(1) weight_17 by simp
qed

section \<open>Elements\<close>

text \<open>The bounds of an element, and those of limbs that were just masked.\<close>

definition fe_ok :: "fe \<Rightarrow> bool" where
  "fe_ok X = (length X = 9 \<and> list_all (\<lambda>i. uint (X ! i) < (if even i then 2 ^ 30 else 2 ^ 29)) [0..<9])"

definition fe_masked :: "fe \<Rightarrow> bool" where
  "fe_masked X = (length X = 9 \<and> list_all (\<lambda>i. uint (X ! i) < 2 ^ limb_bits i) [0..<9])"

lemma upt_9: "[0..<9] = [0, 1, 2, 3, 4, 5, 6, 7, 8]"
  by code_simp

lemma limb_val_9: "length X = 9 \<Longrightarrow> limb_val 0 X = uint (X ! 0) + 2 ^ 29 * uint (X ! 1) + 2 ^ 57 * uint (X ! 2) + 2 ^ 86 * uint (X ! 3)
    + 2 ^ 114 * uint (X ! 4) + 2 ^ 143 * uint (X ! 5) + 2 ^ 171 * uint (X ! 6) + 2 ^ 200 * uint (X ! 7) + 2 ^ 228 * uint (X ! 8)"
proof -
  assume "length X = 9"
  then have "X = [X ! 0, X ! 1, X ! 2, X ! 3, X ! 4, X ! 5, X ! 6, X ! 7, X ! 8]"
    by (intro nth_equalityI) (auto simp: less_Suc_eq numeral_nat)
  from arg_cong [OF this, of "limb_val 0"] show ?thesis by (simp add: limb_bits_def)
qed

lemma carry_cases: "uint (c :: u32) \<le> 7 \<Longrightarrow> c \<in> {0, 1, 2, 3, 4, 5, 6, 7}"
proof -
  assume "uint c \<le> 7"
  then have "unat c \<le> 7" unfolding unat_eq_nat_uint nat_le_iff by simp
  moreover have "c = of_nat (unat c)" by simp
  ultimately obtain n where n: "n \<le> 7" "c = of_nat n" by blast
  have "n \<in> {0, 1, 2, 3, 4, 5, 6, 7}" using n(1) by auto
  then show ?thesis unfolding n(2) by auto
qed

lemma reduce_carry_val:
  assumes "fe_masked a" "uint c \<le> 7"
  shows "fe_ok (sm2P256ReduceCarry a c) \<and> limb_val 0 (sm2P256ReduceCarry a c) = limb_val 0 a + uint c * (2 ^ 257 - 2 * sm2_P)"
proof -
  have len: "length a = 9" and b: "uint (a ! 0) < 536870912" "uint (a ! 1) < 268435456" "uint (a ! 2) < 536870912" "uint (a ! 3) < 268435456"
    "uint (a ! 4) < 536870912" "uint (a ! 5) < 268435456" "uint (a ! 6) < 536870912" "uint (a ! 7) < 268435456" "uint (a ! 8) < 536870912"
    using assms(1) unfolding fe_masked_def upt_9 by (simp_all add: limb_bits_def)
  define k where "k = (\<lambda>j. sm2P256Carry ! (unat c * 9 + j))"
  have k: "uint (k 0) = 2 * uint c" "2 ^ 57 * uint (k 2) + 2 ^ 86 * uint (k 3) = uint c * (2 ^ 97 - 2 ^ 65)" "uint (k 7) = 33554432 * uint c"
    "uint (k 2) \<le> 536870656" "uint (k 3) \<le> 16383"
    using carry_cases [OF assms(2)] by (auto simp: k_def sm2P256Carry_def)
  have r: "sm2P256ReduceCarry a c = a[0 := a ! 0 + k 0, 2 := a ! 2 + k 2, 3 := a ! 3 + k 3, 7 := a ! 7 + k 7]"
    unfolding sm2P256ReduceCarry_def Let_def k_def by simp
  have v: "uint (a ! 0 + k 0) = uint (a ! 0) + uint (k 0)" "uint (a ! 2 + k 2) = uint (a ! 2) + uint (k 2)"
    "uint (a ! 3 + k 3) = uint (a ! 3) + uint (k 3)" "uint (a ! 7 + k 7) = uint (a ! 7) + uint (k 7)"
    by (rule uint32_add'; use b k assms(2) in linarith)+
  have "fe_ok (sm2P256ReduceCarry a c)"
    using b k assms(2) len unfolding fe_ok_def upt_9 r by (simp add: v)
  moreover have "limb_val 0 (sm2P256ReduceCarry a c) = limb_val 0 a + uint c * (2 ^ 257 - 2 * sm2_P)"
    using k(1-3) len unfolding r by (simp add: limb_val_9 v sm2_P_def)
  ultimately show ?thesis ..
qed

text \<open>A limb of the high half enters the element at its own index; every second one is split.\<close>

definition collect_inv :: "u32 list \<Rightarrow> nat \<Rightarrow> fe \<times> u32 \<Rightarrow> bool" where
  "collect_inv high i st = (case st of (a, carry) \<Rightarrow>
     length a = i \<and> list_all (\<lambda>j. uint (a ! j) < 2 ^ limb_bits j) [0..<i] \<and> uint carry \<le> 7
     \<and> limb_val 0 a + 2 ^ weight 0 i * uint carry
       = limb_val 9 (take i high) + (if odd i then 2 ^ weight 9 i * (uint (high ! i) mod 2) else 0))"

lemma weight_shift: "weight 9 i + (if odd i then 1 else 0) = weight 0 i"
  by (induction i) (auto simp: weight_Suc limb_bits_def simp del: weight.simps(2))

lemma list_all_snoc:
  "length a = i \<Longrightarrow> list_all (\<lambda>j. P j (a ! j)) [0..<i] \<Longrightarrow> P i x \<Longrightarrow> list_all (\<lambda>j. P j ((a @ [x]) ! j)) [0..<Suc i]"
  by (auto simp: list_all_iff nth_append)

lemma collect_step_inv:
  assumes "collect_inv high i st" "i < 8" "length high = 9" "list_all (\<lambda>t. uint t \<le> 2 ^ 30 + 2 ^ 29 + 2 ^ 8) (take 8 high)"
  shows "collect_inv high (Suc i) (collect_step (replicate 9 0 @ high) st i)"
proof -
  obtain a carry where st: "st = (a, carry)" by fastforce
  have inv: "length a = i" "list_all (\<lambda>j. uint (a ! j) < 2 ^ limb_bits j) [0..<i]" "uint carry \<le> 7"
    "limb_val 0 a + 2 ^ weight 0 i * uint carry = limb_val 9 (take i high) + (if odd i then 2 ^ weight 9 i * (uint (high ! i) mod 2) else 0)"
    using assms(1) by (simp_all add: st collect_inv_def)
  have hi: "uint (high ! i) \<le> 1610612992" using assms(2-4) by (simp add: list_all_length)
  define t where "t = (if even i then high ! i + carry + (push_bit 28 (high ! (i + 1)) AND bottom29Bits) else drop_bit 1 (high ! i) + carry)"
  have step: "collect_step (replicate 9 0 @ high) st i = (a @ [t AND limb_mask i], drop_bit (limb_bits i) t)"
    using assms(2,3) by (simp add: st collect_step_def t_def nth_append Let_def)
  have v: "limb_val 0 a + 2 ^ weight 0 i * uint t
      = limb_val 9 (take (Suc i) high) + (if odd (Suc i) then 2 ^ weight 9 (Suc i) * (uint (high ! Suc i) mod 2) else 0)"
    and t: "uint t < 2147483648"
  proof -
    have take: "limb_val 9 (take (Suc i) high) = limb_val 9 (take i high) + 2 ^ weight 9 i * uint (high ! i)"
      using assms(2,3) by (simp add: take_Suc_conv_app_nth limb_val_append)
    have "limb_val 0 a + 2 ^ weight 0 i * uint t
      = limb_val 9 (take (Suc i) high) + (if odd (Suc i) then 2 ^ weight 9 (Suc i) * (uint (high ! Suc i) mod 2) else 0) \<and> uint t < 2147483648"
    proof (cases "even i")
      case True
      have "uint (push_bit 28 (high ! (i + 1)) AND bottom29Bits) = uint (high ! (i + 1)) mod 2 ^ 1 * 2 ^ 28"
        unfolding uint32_push mult_mod_left by simp
      moreover have "uint (high ! (i + 1)) mod 2 ^ 1 < 2" by simp
      ultimately have "uint t = uint (high ! i) + uint carry + 268435456 * (uint (high ! Suc i) mod 2)" "uint t < 2147483648"
        using True hi inv(3) uint32_sum4 [of "high ! i" carry "push_bit 28 (high ! (i + 1)) AND bottom29Bits" 0] by (simp_all add: t_def)
      then show ?thesis
        using True inv(4) weight_shift [of i] by (simp add: take weight_Suc limb_bits_def power_add algebra_simps del: weight.simps(2))
    next
      case False
      have "uint (drop_bit 1 (high ! i)) = uint (high ! i) div 2" unfolding uint32_drop by simp
      then have tv: "uint t = uint (high ! i) div 2 + uint carry" "uint t < 2147483648"
        using False hi inv(3) uint32_add' [of "drop_bit 1 (high ! i)" carry] unfolding t_def by simp_all
      have w: "weight 0 i = Suc (weight 9 i)" using weight_shift [of i] False by simp
      obtain q r where qr: "uint (high ! i) div 2 = q" "uint (high ! i) mod 2 = r" "uint (high ! i) = 2 * q + r"
        using mult_div_mod_eq [of 2 "uint (high ! i)"] by metis
      show ?thesis using False inv(4) tv w unfolding qr(1,2) unfolding take unfolding qr(3) by (simp add: algebra_simps)
    qed
    then show "limb_val 0 a + 2 ^ weight 0 i * uint t
      = limb_val 9 (take (Suc i) high) + (if odd (Suc i) then 2 ^ weight 9 (Suc i) * (uint (high ! Suc i) mod 2) else 0)"
      "uint t < 2147483648" by blast+
  qed
  have m: "uint (t AND limb_mask i) < 2 ^ limb_bits i" unfolding limb_mask_eq uint32_mask by simp
  have "uint (drop_bit (limb_bits i) t) < 8"
    unfolding uint32_drop by (rule int_div_less) (use t limb_bits_cases [of i] in auto)
  moreover have "list_all (\<lambda>j. uint ((a @ [t AND limb_mask i]) ! j) < 2 ^ limb_bits j) [0..<Suc i]"
    by (rule list_all_snoc [where P = "\<lambda>j x. uint x < 2 ^ limb_bits j"]) (use inv m in simp_all)
  moreover have "limb_val 0 (a @ [t AND limb_mask i]) + 2 ^ weight 0 (Suc i) * uint (drop_bit (limb_bits i) t) = limb_val 0 a + 2 ^ weight 0 i * uint t"
    using inv(1) uint_mask_split [of t i, symmetric] by (simp add: limb_val_append weight_Suc power_add algebra_simps del: weight.simps(2))
  ultimately show ?thesis using v inv(1) unfolding collect_inv_def step prod.case by simp
qed

text \<open>The reduction of 17 columns, when every limb can lend.\<close>

definition exact_reduction :: "u64 list \<Rightarrow> bool" where
  "exact_reduction b = exact_limbs (spread b)"

lemma weight_9_8: "weight 0 8 = 228" "weight 9 8 = 228"
  by code_simp+

lemma reduce_degree_val:
  assumes "length b = 17" "uint (b ! 16) \<le> 2 ^ 60" "exact_reduction b"
  shows "fe_ok (sm2P256ReduceDegree b) \<and> 2 ^ 257 * limb_val 0 (sm2P256ReduceDegree b) mod sm2_P = col_val 0 b mod sm2_P"
proof -
  have s: "limbs_ok 0 (spread b)" "limb_val 0 (spread b) = col_val 0 b" using spread_val [OF assms(1,2)] by simp_all
  obtain high where h: "length high = 9" "reduce_limbs (spread b) 9 = replicate 9 0 @ high"
    "2 ^ 257 * limb_val 9 high mod sm2_P = limb_val 0 (spread b) mod sm2_P"
    "list_all (\<lambda>t. uint t \<le> 2 ^ 30 + 2 ^ 29 + 2 ^ 8) (take 8 high)" "uint (high ! 8) < 2 ^ 31 + 2 ^ 29"
    using reduce_limbs_val [OF s(1)] assms(3) by (auto simp: exact_reduction_def)
  obtain a carry where f: "foldl (collect_step (replicate 9 0 @ high)) ([], 0) [0..<8] = (a, carry)" by fastforce
  have "collect_inv high 8 (foldl (collect_step (replicate 9 0 @ high)) ([], 0) [0..<8])"
    by (rule foldl_upt_invariant [of "collect_inv high"]) (use h collect_step_inv in \<open>simp_all add: collect_inv_def\<close>)
  then have inv: "length a = 8" "list_all (\<lambda>j. uint (a ! j) < 2 ^ limb_bits j) [0..<8]" "uint carry \<le> 7"
    "limb_val 0 a + 2 ^ 228 * uint carry = limb_val 9 (take 8 high)"
    unfolding f collect_inv_def prod.case weight_9_8 by simp_all
  define t where "t = high ! 8 + carry"
  have t: "uint t = uint (high ! 8) + uint carry" unfolding t_def by (rule uint32_add') (use h(5) inv(3) in simp)
  have r: "sm2P256ReduceDegree b = sm2P256ReduceCarry (a @ [t AND bottom29Bits]) (drop_bit 29 t)"
    unfolding sm2P256ReduceDegree_def Let_def h(2) f prod.case t_def using h(1) by (simp add: nth_append)
  have "uint (drop_bit 29 t) < 8" unfolding uint32_drop by (rule int_div_less) (use t h(5) inv(3) in simp_all)
  moreover have "fe_masked (a @ [t AND bottom29Bits])"
    unfolding fe_masked_def using list_all_snoc [where P = "\<lambda>j x. uint x < 2 ^ limb_bits j", OF inv(1,2), of "t AND bottom29Bits"] inv(1)
    by (simp add: uint32_masked limb_bits_def)
  ultimately have c: "fe_ok (sm2P256ReduceDegree b)"
    "limb_val 0 (sm2P256ReduceDegree b) = limb_val 0 (a @ [t AND bottom29Bits]) + uint (drop_bit 29 t) * (2 ^ 257 - 2 * sm2_P)"
    using reduce_carry_val [of "a @ [t AND bottom29Bits]" "drop_bit 29 t"] unfolding r by simp_all
  have "uint t = uint (t AND bottom29Bits) + 2 ^ 29 * uint (drop_bit 29 t)" unfolding uint32_masked uint32_drop by simp
  moreover have "limb_val 9 high = limb_val 9 (take 8 high) + 2 ^ 228 * uint (high ! 8)"
  proof -
    have "high = take 8 high @ [high ! 8]" using h(1) by (intro nth_equalityI) (auto simp: nth_append less_Suc_eq numeral_eq_Suc)
    from arg_cong [OF this, of "limb_val 9"] show ?thesis using h(1) by (simp add: limb_val_append weight_9_8 del: append_take_drop_id)
  qed
  moreover have "limb_val 0 (a @ [t AND bottom29Bits]) = limb_val 0 a + 2 ^ 228 * uint (t AND bottom29Bits)"
    unfolding limb_val_append inv(1) weight_9_8 by simp
  ultimately have "limb_val 0 (sm2P256ReduceDegree b) = limb_val 9 high - 2 * uint (drop_bit 29 t) * sm2_P"
    using inv(4) t unfolding c(2) by (simp add: algebra_simps)
  then have "2 ^ 257 * limb_val 0 (sm2P256ReduceDegree b) = 2 ^ 257 * limb_val 9 high + (- 2 * 2 ^ 257 * uint (drop_bit 29 t)) * sm2_P"
    by (simp only: right_diff_distrib)
  then have "2 ^ 257 * limb_val 0 (sm2P256ReduceDegree b) mod sm2_P
      = (2 ^ 257 * limb_val 9 high + (- 2 * 2 ^ 257 * uint (drop_bit 29 t)) * sm2_P) mod sm2_P"
    by (rule arg_cong)
  also have "\<dots> = 2 ^ 257 * limb_val 9 high mod sm2_P" by (rule mod_mult_self1)
  finally show ?thesis using c(1) h(3) s(2) by simp
qed

section \<open>Columns of a product\<close>

lemma uint_sum_list:
  fixes ws :: "u64 list"
  assumes "sum_list (map uint ws) < 2 ^ 64"
  shows "uint (sum_list ws) = sum_list (map uint ws)"
  using assms
proof (induction ws)
  case (Cons w ws)
  have "0 \<le> uint w" "uint w + sum_list (map uint ws) < 2 ^ 64" using Cons.prems by simp_all
  then have "sum_list (map uint ws) < 2 ^ 64" by linarith
  then have "uint (sum_list ws) = sum_list (map uint ws)" by (rule Cons.IH)
  then show ?case using Cons.prems by (simp add: uint_add_no_overflow)
qed simp

definition limb_term :: "fe \<Rightarrow> fe \<Rightarrow> nat \<Rightarrow> nat \<Rightarrow> int" where
  "limb_term a b k i = uint (a ! i) * uint (b ! (k - i)) * (if odd i \<and> odd (k - i) then 2 else 1)"

lemma limb_term_bound:
  assumes "fe_ok a" "fe_ok b" "i < 9" "k - i < 9"
  shows "0 \<le> limb_term a b k i" "limb_term a b k i \<le> 2 ^ 60"
proof -
  have l: "uint (X ! j) \<le> (if even j then 2 ^ 30 else 2 ^ 29)" if "fe_ok X" "j < 9" for X j
    using that by (simp add: fe_ok_def list_all_iff order.strict_implies_order)
  have "uint (a ! i) * uint (b ! (k - i)) \<le> (if even i then 2 ^ 30 else 2 ^ 29) * (if even (k - i) then 2 ^ 30 else 2 ^ 29)"
    by (rule mult_mono [OF l [OF assms(1,3)] l [OF assms(2,4)]]) simp_all
  then show "limb_term a b k i \<le> 2 ^ 60" by (auto simp: limb_term_def split: if_splits)
qed (simp add: limb_term_def)

lemma uint_ucast_64: "uint (ucast (x :: u32) :: u64) = uint x"
  using uint32_bound [of x] by (simp add: unsigned_ucast_eq take_bit_eq_mod)

lemma uint_push_ucast:
  assumes "s \<le> 1"
  shows "uint (push_bit s (ucast (x :: u32)) :: u64) = uint x * 2 ^ s"
proof -
  have "uint (push_bit s (ucast x :: u64)) = take_bit LENGTH(64) (push_bit s (uint (ucast x :: u64)))" by (rule unsigned_push_bit_eq)
  also have "\<dots> = uint x * 2 ^ s mod 2 ^ 64" unfolding uint_ucast_64 by (simp add: take_bit_eq_mod push_bit_eq_mult)
  finally show ?thesis using assms uint32_bound [of x] by (cases s) auto
qed

lemma uint_mul_column:
  assumes "fe_ok a" "fe_ok b" "k < 17"
  shows "uint (mul_column a b k) = sum_list (map (limb_term a b k) [k - 8..<Suc (min k 8)])"
proof -
  let ?is = "[k - 8..<Suc (min k 8)]"
  have i: "i < 9 \<and> k - i < 9" if "i \<in> set ?is" for i using that assms(3) by auto
  have e: "uint (ucast (a ! i) * push_bit s (ucast (b ! (k - i))) :: u64) = limb_term a b k i"
    if "i \<in> set ?is" "s = (if odd i \<and> odd (k - i) then 1 else 0)" for i s
  proof -
    have p: "uint (push_bit s (ucast (b ! (k - i))) :: u64) = uint (b ! (k - i)) * 2 ^ s"
      by (rule uint_push_ucast) (simp add: that(2))
    have "limb_term a b k i < 2 ^ 64" using limb_term_bound(2) [OF assms(1,2), of i k] i [OF that(1)] by simp
    moreover have t: "limb_term a b k i = uint (a ! i) * (uint (b ! (k - i)) * 2 ^ s)" by (simp add: limb_term_def that(2))
    ultimately show ?thesis by (subst uint_mult_no_overflow) (simp_all add: uint_ucast_64 p)
  qed
  have "sum_list (map (limb_term a b k) ?is) \<le> sum_list (map (\<lambda>_. 2 ^ 60) ?is)"
    by (rule sum_list_mono) (use limb_term_bound(2) [OF assms(1,2)] i in blast)
  also have "\<dots> < 2 ^ 64" by (simp add: sum_list_triv) linarith
  finally have b: "sum_list (map (limb_term a b k) ?is) < 2 ^ 64" .
  have m: "map uint (map (\<lambda>i. ucast (a ! i) * push_bit (if odd i \<and> odd (k - i) then 1 else 0) (ucast (b ! (k - i))) :: u64) ?is)
      = map (limb_term a b k) ?is"
    unfolding map_map o_def by (rule map_cong [OF refl], rule e) simp_all
  show ?thesis unfolding mul_column_def by (subst uint_sum_list) (simp_all only: m b)
qed

lemma weight_parity: "weight 0 i = 57 * (i div 2) + (if odd i then 29 else 0)"
proof (induction i)
  case (Suc i)
  have "57 * (Suc i div 2) = 57 * (i div 2) + (if odd i then 57 else 0)" by (auto elim!: oddE)
  then show ?case unfolding weight_Suc Suc by (simp add: limb_bits_def)
qed simp

lemma weight_add: "(2 :: int) ^ weight 0 i * 2 ^ weight 0 j = (if odd i \<and> odd j then 2 else 1) * 2 ^ weight 0 (i + j)"
  unfolding weight_parity power_add [symmetric] by (auto elim!: evenE oddE simp: power_add [symmetric] simp flip: power_Suc)

lemma limb_val_sum: "limb_val 0 xs = (\<Sum>i<length xs. uint (xs ! i) * 2 ^ weight 0 i)"
  by (induction xs rule: rev_induct) (simp_all add: limb_val_append nth_append)

lemma col_val_sum: "col_val 0 xs = (\<Sum>i<length xs. uint (xs ! i) * 2 ^ weight 0 i)"
  by (induction xs rule: rev_induct) (simp_all add: col_val_append nth_append)

lemma columns_val:
  assumes "fe_ok a" "fe_ok b"
  shows "col_val 0 (map (mul_column a b) [0..<17]) = limb_val 0 a * limb_val 0 b"
proof -
  let ?T = "\<lambda>k i. limb_term a b k i * 2 ^ weight 0 k"
  have l: "length a = 9" "length b = 9" using assms by (simp_all add: fe_ok_def)
  have "col_val 0 (map (mul_column a b) [0..<17]) = (\<Sum>k<17. uint (mul_column a b k) * 2 ^ weight 0 k)"
    unfolding col_val_sum by (rule sum.cong) (simp_all add: nth_append del: upt_Suc)
  also have "\<dots> = (\<Sum>k<17. \<Sum>i = k - 8..<Suc (min k 8). ?T k i)"
    by (rule sum.cong) (simp_all add: uint_mul_column [OF assms] interv_sum_list_conv_sum_set_nat sum_distrib_right del: upt_Suc sum.op_ivl_Suc)
  also have "\<dots> = (\<Sum>(k, i)\<in>(SIGMA k:{..<17}. {k - 8..<Suc (min k 8)}). ?T k i)" by (rule sum.Sigma) simp_all
  also have "\<dots> = (\<Sum>(i, j)\<in>{..<9} \<times> {..<9}. ?T (i + j) i)"
    by (rule sum.reindex_bij_witness [where i = "\<lambda>(i, j). (i + j, i)" and j = "\<lambda>(k, i). (i, k - i)"]) auto
  also have "\<dots> = (\<Sum>(i, j)\<in>{..<9} \<times> {..<9}. uint (a ! i) * 2 ^ weight 0 i * (uint (b ! j) * 2 ^ weight 0 j))"
  proof (rule sum.cong [OF refl], clarify)
    fix i j
    have "uint (a ! i) * uint (b ! j) * (2 ^ weight 0 i * 2 ^ weight 0 j) = ?T (i + j) i"
      unfolding weight_add by (simp add: limb_term_def)
    then show "?T (i + j) i = uint (a ! i) * 2 ^ weight 0 i * (uint (b ! j) * 2 ^ weight 0 j)" by (simp add: mult_ac)
  qed
  also have "\<dots> = limb_val 0 a * limb_val 0 b"
    unfolding limb_val_sum l sum_product by (rule sum.cartesian_product [symmetric])
  finally show ?thesis .
qed

section \<open>Multiplication and squaring\<close>

text \<open>Each column fits the input of the reduction; the last is one product.\<close>

lemma mul_column_16: "fe_ok a \<Longrightarrow> fe_ok b \<Longrightarrow> uint (mul_column a b 16) \<le> 2 ^ 60"
  using limb_term_bound(2) [of a b 8 16] by (simp add: uint_mul_column upt_rec)

lemma sm2P256Mul_val:
  assumes "fe_ok a" "fe_ok b" "exact_reduction (map (mul_column a b) [0..<17])"
  shows "fe_ok (sm2P256Mul a b) \<and> 2 ^ 257 * limb_val 0 (sm2P256Mul a b) mod sm2_P = limb_val 0 a * limb_val 0 b mod sm2_P"
proof -
  have "uint (map (mul_column a b) [0..<17] ! 16) \<le> 2 ^ 60"
    using mul_column_16 [OF assms(1,2)] by (simp add: nth_append del: upt_Suc)
  then show ?thesis
    using reduce_degree_val [of "map (mul_column a b) [0..<17]"] assms(3)
    unfolding sm2P256Mul_def columns_val [OF assms(1,2)] by simp
qed

lemma square_sum:
  fixes f :: "nat \<Rightarrow> u64"
  assumes "\<And>i. i \<le> k \<Longrightarrow> f (k - i) = f i"
  assumes "k < 17"
  shows "(\<Sum>i = k - 8..<Suc (k div 2). (if i < k - i then 2 else 1) * f i) = (\<Sum>i = k - 8..<Suc (min k 8). f i)"
proof -
  let ?A = "{i. k - 8 \<le> i \<and> 2 * i < k}" and ?B = "{i. k < 2 * i \<and> i \<le> min k 8}" and ?M = "{i. 2 * i = k}"
  have fin: "finite ?A" "finite ?B" "finite ?M" by (rule finite_subset [of _ "{..k}"]; auto)+
  have "(\<Sum>i = k - 8..<Suc (k div 2). (if i < k - i then 2 else 1) * f i) = (\<Sum>i\<in>?A \<union> ?M. (if i < k - i then 2 else 1) * f i)"
    by (rule sum.cong) (use assms(2) in auto)
  also have "\<dots> = (\<Sum>i\<in>?A. 2 * f i) + (\<Sum>i\<in>?M. f i)"
    by (subst sum.union_disjoint) (use fin in \<open>auto intro!: arg_cong2 [where f = "(+)"] sum.cong\<close>)
  also have "(\<Sum>i\<in>?A. 2 * f i) = sum f ?A + sum f ?A" by (simp flip: sum_distrib_left)
  also have "sum f ?A + sum f ?A + sum f ?M = sum f ?A + sum f ?M + sum f ?B"
  proof -
    have "sum f ?A = sum f ?B"
      by (rule sum.reindex_bij_witness [where i = "\<lambda>i. k - i" and j = "\<lambda>i. k - i"]) (auto simp: assms(1))
    then show ?thesis by simp
  qed
  also have "sum f ?A + sum f ?M + sum f ?B = sum f (?A \<union> ?M \<union> ?B)"
  proof -
    have "sum f (?A \<union> ?M \<union> ?B) = sum f (?A \<union> ?M) + sum f ?B" by (rule sum.union_disjoint) (use fin in auto)
    also have "sum f (?A \<union> ?M) = sum f ?A + sum f ?M" by (rule sum.union_disjoint) (use fin in auto)
    finally show ?thesis ..
  qed
  also have "?A \<union> ?M \<union> ?B = {k - 8..<Suc (min k 8)}" using assms(2) by auto
  finally show ?thesis .
qed

lemma square_column_eq: "k < 17 \<Longrightarrow> square_column a k = mul_column a a k"
proof -
  assume k: "k < 17"
  define f where "f i = ucast (a ! i) * push_bit (if odd i \<and> odd (k - i) then 1 else 0) (ucast (a ! (k - i)) :: u64)" for i
  have "f (k - i) = f i" if "i \<le> k" for i using that by (auto simp: f_def push_bit_eq_mult)
  then have "(\<Sum>i = k - 8..<Suc (k div 2). (if i < k - i then 2 else 1) * f i) = (\<Sum>i = k - 8..<Suc (min k 8). f i)" by (rule square_sum) (use k in simp_all)
  moreover have "square_column a k = (\<Sum>i = k - 8..<Suc (k div 2). (if i < k - i then 2 else 1) * f i)"
    unfolding square_column_def interv_sum_list_conv_sum_set_nat set_upt by (rule sum.cong [OF refl]) (simp add: f_def push_bit_eq_mult)
  ultimately show ?thesis unfolding mul_column_def interv_sum_list_conv_sum_set_nat set_upt f_def by (simp only:)
qed

lemma sm2P256Square_eq: "sm2P256Square a = sm2P256Mul a a"
  unfolding sm2P256Square_def sm2P256Mul_def by (rule arg_cong [where f = sm2P256ReduceDegree]) (simp add: square_column_eq del: upt_Suc)

end
