(* ===== verification/Sm2_Point.thy ===== *)
theory Sm2_Point
  imports Sm2_Mul "HOL-Library.Signed_Division"
begin

unbundle bit_operations_syntax

text \<open>
  The points of the SM2 curve (src/sm2/sm2.go): Jacobian triples of field elements, their formulas, the
  constant-time selections, the two scalar multiplications and the methods of \<open>sm2Curve\<close>. The straight-line
  formulas are written over a record of field operations, which the code instantiates with its own routines.
\<close>

section \<open>Curve parameters and coordinates\<close>

definition sm2_A :: int where "sm2_A = 0xFFFFFFFEFFFFFFFFFFFFFFFFFFFFFFFFFFFFFFFF00000000FFFFFFFFFFFFFFFC"
definition sm2_B :: int where "sm2_B = 0x28E9FA9E9D9F5E344D5A9E4BCF6509A7F39789F515AB8F92DDBCBD414D940E93"
definition sm2_Gx :: int where "sm2_Gx = 0x32C4AE2C1F1981195F9904466A39C9948FE30BBFF2660BE1715A4589334C74C7"
definition sm2_Gy :: int where "sm2_Gy = 0xBC3736A2F4F6779C59BDCEE36B692153D0A9877CC62A474002DF32E52139F0A0"

definition sm2_a :: fe where "sm2_a = sm2P256FromBig sm2_A"
definition sm2_b :: fe where "sm2_b = sm2P256FromBig sm2_B"

type_synonym int8 = "8 word"
type_synonym point = "fe \<times> fe \<times> fe"

record 'e field_ops =
  f_add :: "'e \<Rightarrow> 'e \<Rightarrow> 'e"
  f_sub :: "'e \<Rightarrow> 'e \<Rightarrow> 'e"
  f_mul :: "'e \<Rightarrow> 'e \<Rightarrow> 'e"
  f_square :: "'e \<Rightarrow> 'e"
  f_scalar :: "'e \<Rightarrow> nat \<Rightarrow> 'e"
  f_a :: 'e

definition sm2_ops :: "fe field_ops" where
  "sm2_ops = \<lparr>f_add = sm2P256Add, f_sub = sm2P256Sub, f_mul = sm2P256Mul, f_square = sm2P256Square,
              f_scalar = sm2P256Scalar, f_a = sm2_a\<rparr>"

section \<open>Formulas\<close>

definition point_double :: "'e field_ops \<Rightarrow> 'e \<times> 'e \<times> 'e \<Rightarrow> 'e \<times> 'e \<times> 'e" where
  "point_double F p = (case p of (x, y, z) \<Rightarrow>
     let x2 = f_square F x;
         y2 = f_square F y;
         z2 = f_square F z;
         z4 = f_square F z;
         z4 = f_mul F z4 z;
         z4 = f_mul F z4 z;
         y4 = f_square F y;
         y4 = f_mul F y4 y;
         y4 = f_mul F y4 y;
         y4 = f_scalar F y4 8;
         s = f_mul F x y2;
         s = f_scalar F s 4;
         m = x2;
         m = f_scalar F m 3;
         az4 = f_mul F (f_a F) z4;
         m = f_add F m az4;
         m2 = f_square F m;
         z3 = f_add F y z;
         z3 = f_square F z3;
         z3 = f_sub F z3 z2;
         z3 = f_sub F z3 y2;
         x3 = f_sub F m2 s;
         x3 = f_sub F x3 s;
         y3 = f_sub F s x3;
         y3 = f_mul F y3 m;
         y3 = f_sub F y3 y4
     in (x3, y3, z3))"

text \<open>The cross products \<open>u1, u2, s1, s2\<close> of \<open>sm2P256PointAdd\<close>, and its formula after the test for equal points.\<close>

definition point_cross :: "'e field_ops \<Rightarrow> 'e \<times> 'e \<times> 'e \<Rightarrow> 'e \<times> 'e \<times> 'e \<Rightarrow> 'e \<times> 'e \<times> 'e \<times> 'e" where
  "point_cross F p q = (case (p, q) of ((x1, y1, z1), (x2, y2, z2)) \<Rightarrow>
     let z12 = f_square F z1;
         z22 = f_square F z2;
         z13 = f_mul F z12 z1;
         z23 = f_mul F z22 z2;
         u1 = f_mul F x1 z22;
         u2 = f_mul F x2 z12;
         s1 = f_mul F y1 z23;
         s2 = f_mul F y2 z13
     in (u1, u2, s1, s2))"

definition point_chord :: "'e field_ops \<Rightarrow> 'e \<times> 'e \<times> 'e \<times> 'e \<Rightarrow> 'e \<Rightarrow> 'e \<Rightarrow> 'e \<times> 'e \<times> 'e" where
  "point_chord F c z1 z2 = (case c of (u1, u2, s1, s2) \<Rightarrow>
     let h = f_sub F u2 u1;
         r = f_sub F s2 s1;
         r2 = f_square F r;
         h2 = f_square F h;
         tm = f_mul F h2 h;
         x3 = f_sub F r2 tm;
         tm = f_mul F u1 h2;
         tm = f_scalar F tm 2;
         x3 = f_sub F x3 tm;
         tm = f_mul F u1 h2;
         tm = f_sub F tm x3;
         y3 = f_mul F r tm;
         tm = f_mul F h2 h;
         tm = f_mul F tm s1;
         y3 = f_sub F y3 tm;
         z3 = f_mul F z1 z2;
         z3 = f_mul F z3 h
     in (x3, y3, z3))"

definition point_add_mixed :: "'e field_ops \<Rightarrow> 'e \<times> 'e \<times> 'e \<Rightarrow> 'e \<Rightarrow> 'e \<Rightarrow> 'e \<times> 'e \<times> 'e" where
  "point_add_mixed F p x2 y2 = (case p of (x1, y1, z1) \<Rightarrow>
     let z1z1 = f_square F z1;
         tmp = f_add F z1 z1;
         u2 = f_mul F x2 z1z1;
         z1z1z1 = f_mul F z1 z1z1;
         s2 = f_mul F y2 z1z1z1;
         h = f_sub F u2 x1;
         i = f_add F h h;
         i = f_square F i;
         j = f_mul F h i;
         r = f_sub F s2 y1;
         r = f_add F r r;
         v = f_mul F x1 i;
         zOut = f_mul F tmp h;
         rr = f_square F r;
         xOut = f_sub F rr j;
         xOut = f_sub F xOut v;
         xOut = f_sub F xOut v;
         tmp = f_sub F v xOut;
         yOut = f_mul F tmp r;
         tmp = f_mul F y1 j;
         yOut = f_sub F yOut tmp;
         yOut = f_sub F yOut tmp
     in (xOut, yOut, zOut))"

definition sm2P256PointDouble :: "point \<Rightarrow> point" where
  "sm2P256PointDouble = point_double sm2_ops"

definition sm2P256PointAddMixed :: "point \<Rightarrow> fe \<Rightarrow> fe \<Rightarrow> point" where
  "sm2P256PointAddMixed = point_add_mixed sm2_ops"

text \<open>
  The result and the first argument as the call leaves it: for equal points it is doubled in place, and the
  call goes on with the cross products it has.
\<close>

definition sm2P256PointAdd :: "point \<Rightarrow> point \<Rightarrow> point \<times> point" where
  "sm2P256PointAdd p1 p2 =
     (if sm2P256ToBig (snd (snd p1)) = 0 then (p2, p1)
      else if sm2P256ToBig (snd (snd p2)) = 0 then (p1, p1)
      else case point_cross sm2_ops p1 p2 of (u1, u2, s1, s2) \<Rightarrow>
        let p1' = (if sm2P256ToBig u1 = sm2P256ToBig u2 \<and> sm2P256ToBig s1 = sm2P256ToBig s2
                   then sm2P256PointDouble p1 else p1)
        in (point_chord sm2_ops (u1, u2, s1, s2) (snd (snd p1')) (snd (snd p2)), p1'))"

text \<open>\<open>sm2P256PointSub\<close> negates \<open>y2\<close> in place and repeats the body of \<open>sm2P256PointAdd\<close>: result, first and second argument.\<close>

definition sm2P256PointSub :: "point \<Rightarrow> point \<Rightarrow> point \<times> point \<times> point" where
  "sm2P256PointSub p1 p2 = (case p2 of (x2, y2, z2) \<Rightarrow>
     let y = sm2P256ToBig y2;
         y = 0 - y;
         y2 = sm2P256FromBig y
     in case sm2P256PointAdd p1 (x2, y2, z2) of (p3, p1') \<Rightarrow> (p3, p1', (x2, y2, z2)))"

section \<open>Affine coordinates\<close>

text \<open>\<open>ModInverse\<close> leaves its receiver alone when there is no inverse.\<close>

definition sm2P256PointToAffine :: "point \<Rightarrow> fe \<times> fe" where
  "sm2P256PointToAffine p = (case p of (x, y, z) \<Rightarrow>
     let zz = sm2P256ToBig z;
         zz = (case big_ModInverse zz sm2_P of None \<Rightarrow> zz | Some i \<Rightarrow> i);
         zInv = sm2P256FromBig zz;
         zInvSq = sm2P256Square zInv;
         xOut = sm2P256Mul x zInvSq;
         zInv = sm2P256Mul zInv zInvSq;
         yOut = sm2P256Mul y zInv
     in (xOut, yOut))"

definition sm2P256ToAffine :: "point \<Rightarrow> int \<times> int" where
  "sm2P256ToAffine p = (case sm2P256PointToAffine p of (xx, yy) \<Rightarrow> (sm2P256ToBig xx, sm2P256ToBig yy))"

section \<open>Selections without branches\<close>

definition sm2P256CopyConditional :: "fe \<Rightarrow> fe \<Rightarrow> u32 \<Rightarrow> fe" where
  "sm2P256CopyConditional out inp msk =
     map (\<lambda>i. let tmp = msk AND (inp ! i XOR out ! i) in out ! i XOR tmp) [0..<9]"

definition copy_point :: "point \<Rightarrow> point \<Rightarrow> u32 \<Rightarrow> point" where
  "copy_point out inp msk = (case (out, inp) of ((x, y, z), (x', y', z')) \<Rightarrow>
     (sm2P256CopyConditional x x' msk, sm2P256CopyConditional y y' msk, sm2P256CopyConditional z z' msk))"

definition fe_zero :: fe where "fe_zero = replicate 9 0"

definition select_mask :: "u32 \<Rightarrow> u32 \<Rightarrow> u32" where
  "select_mask i index =
     (let mask = i XOR index;
          mask = mask OR drop_bit 2 mask;
          mask = mask OR drop_bit 1 mask;
          mask = mask AND 1
      in mask - 1)"

definition or_masked :: "fe \<Rightarrow> u32 list \<Rightarrow> u32 \<Rightarrow> fe" where
  "or_masked out row msk = map (\<lambda>j. out ! j OR (row ! j AND msk)) [0..<9]"

definition sm2P256SelectAffinePoint :: "u32 list \<Rightarrow> u32 \<Rightarrow> fe \<times> fe" where
  "sm2P256SelectAffinePoint table index =
     (case foldl (\<lambda>(xOut, yOut, table) i.
              let mask = select_mask (of_nat i) index
              in (or_masked xOut table mask, or_masked yOut (drop 9 table) mask, drop 18 table))
            (fe_zero, fe_zero, table) [1..<16] of (xOut, yOut, table) \<Rightarrow> (xOut, yOut))"

definition sm2P256SelectJacobianPoint :: "point list \<Rightarrow> u32 \<Rightarrow> point" where
  "sm2P256SelectJacobianPoint table index =
     foldl (\<lambda>(xOut, yOut, zOut) i.
              let mask = select_mask (of_nat i) index
              in (or_masked xOut (fst (table ! i)) mask, or_masked yOut (fst (snd (table ! i))) mask,
                  or_masked zOut (snd (snd (table ! i))) mask))
       (fe_zero, fe_zero, fe_zero) [1..<16]"

section \<open>Multiples of the generator\<close>

definition sm2P256Precomputed :: "u32 list" where
  "sm2P256Precomputed = [
    0x830053d, 0x328990f, 0x6c04fe1, 0xc0f72e5, 0x1e19f3c, 0x666b093, 0x175a87b, 0xec38276, 0x222cf4b,
    0x185a1bba, 0x354e593, 0x1295fac1, 0xf2bc469, 0x47c60fa, 0xc19b8a9, 0xf63533e, 0x903ae6b, 0xc79acba,
    0x15b061a4, 0x33e020b, 0xdffb34b, 0xfcf2c8, 0x16582e08, 0x262f203, 0xfb34381, 0xa55452, 0x604f0ff,
    0x41f1f90, 0xd64ced2, 0xee377bf, 0x75f05f0, 0x189467ae, 0xe2244e, 0x1e7700e8, 0x3fbc464, 0x9612d2e,
    0x1341b3b8, 0xee84e23, 0x1edfa5b4, 0x14e6030, 0x19e87be9, 0x92f533c, 0x1665d96c, 0x226653e, 0xa238d3e,
    0xf5c62c, 0x95bb7a, 0x1f0e5a41, 0x28789c3, 0x1f251d23, 0x8726609, 0xe918910, 0x8096848, 0xf63d028,
    0x152296a1, 0x9f561a8, 0x14d376fb, 0x898788a, 0x61a95fb, 0xa59466d, 0x159a003d, 0x1ad1698, 0x93cca08,
    0x1b314662, 0x706e006, 0x11ce1e30, 0x97b710, 0x172fbc0d, 0x8f50158, 0x11c7ffe7, 0xd182cce, 0xc6ad9e8,
    0x12ea31b2, 0xc4e4f38, 0x175b0d96, 0xec06337, 0x75a9c12, 0xb001fdf, 0x93e82f5, 0x34607de, 0xb8035ed,
    0x17f97924, 0x75cf9e6, 0xdceaedd, 0x2529924, 0x1a10c5ff, 0xb1a54dc, 0x19464d8, 0x2d1997, 0xde6a110,
    0x1e276ee5, 0x95c510c, 0x1aca7c7a, 0xfe48aca, 0x121ad4d9, 0xe4132c6, 0x8239b9d, 0x40ea9cd, 0x816c7b,
    0x632d7a4, 0xa679813, 0x5911fcf, 0x82b0f7c, 0x57b0ad5, 0xbef65, 0xd541365, 0x7f9921f, 0xc62e7a,
    0x3f4b32d, 0x58e50e1, 0x6427aed, 0xdcdda67, 0xe8c2d3e, 0x6aa54a4, 0x18df4c35, 0x49a6a8e, 0x3cd3d0c,
    0xd7adf2, 0xcbca97, 0x1bda5f2d, 0x3258579, 0x606b1e6, 0x6fc1b5b, 0x1ac27317, 0x503ca16, 0xa677435,
    0x57bc73, 0x3992a42, 0xbab987b, 0xfab25eb, 0x128912a4, 0x90a1dc4, 0x1402d591, 0x9ffbcfc, 0xaa48856,
    0x7a7c2dc, 0xcefd08a, 0x1b29bda6, 0xa785641, 0x16462d8c, 0x76241b7, 0x79b6c3b, 0x204ae18, 0xf41212b,
    0x1f567a4d, 0xd6ce6db, 0xedf1784, 0x111df34, 0x85d7955, 0x55fc189, 0x1b7ae265, 0xf9281ac, 0xded7740,
    0xf19468b, 0x83763bb, 0x8ff7234, 0x3da7df8, 0x9590ac3, 0xdc96f2a, 0x16e44896, 0x7931009, 0x99d5acc,
    0x10f7b842, 0xaef5e84, 0xc0310d7, 0xdebac2c, 0x2a7b137, 0x4342344, 0x19633649, 0x3a10624, 0x4b4cb56,
    0x1d809c59, 0xac007f, 0x1f0f4bcd, 0xa1ab06e, 0xc5042cf, 0x82c0c77, 0x76c7563, 0x22c30f3, 0x3bf1568,
    0x7a895be, 0xfcca554, 0x12e90e4c, 0x7b4ab5f, 0x13aeb76b, 0x5887e2c, 0x1d7fe1e3, 0x908c8e3, 0x95800ee,
    0xb36bd54, 0xf08905d, 0x4e73ae8, 0xf5a7e48, 0xa67cb0, 0x50e1067, 0x1b944a0a, 0xf29c83a, 0xb23cfb9,
    0xbe1db1, 0x54de6e8, 0xd4707f2, 0x8ebcc2d, 0x2c77056, 0x1568ce4, 0x15fcc849, 0x4069712, 0xe2ed85f,
    0x2c5ff09, 0x42a6929, 0x628e7ea, 0xbd5b355, 0xaf0bd79, 0xaa03699, 0xdb99816, 0x4379cef, 0x81d57b,
    0x11237f01, 0xe2a820b, 0xfd53b95, 0x6beb5ee, 0x1aeb790c, 0xe470d53, 0x2c2cfee, 0x1c1d8d8, 0xa520fc4,
    0x1518e034, 0xa584dd4, 0x29e572b, 0xd4594fc, 0x141a8f6f, 0x8dfccf3, 0x5d20ba3, 0x2eb60c3, 0x9f16eb0,
    0x11cec356, 0xf039f84, 0x1b0990c1, 0xc91e526, 0x10b65bae, 0xf0616e8, 0x173fa3ff, 0xec8ccf9, 0xbe32790,
    0x11da3e79, 0xe2f35c7, 0x908875c, 0xdacf7bd, 0x538c165, 0x8d1487f, 0x7c31aed, 0x21af228, 0x7e1689d,
    0xdfc23ca, 0x24f15dc, 0x25ef3c4, 0x35248cd, 0x99a0f43, 0xa4b6ecc, 0xd066b3, 0x2481152, 0x37a7688,
    0x15a444b6, 0xb62300c, 0x4b841b, 0xa655e79, 0xd53226d, 0xbeb348a, 0x127f3c2, 0xb989247, 0x71a277d,
    0x19e9dfcb, 0xb8f92d0, 0xe2d226c, 0x390a8b0, 0x183cc462, 0x7bd8167, 0x1f32a552, 0x5e02db4, 0xa146ee9,
    0x1a003957, 0x1c95f61, 0x1eeec155, 0x26f811f, 0xf9596ba, 0x3082bfb, 0x96df083, 0x3e3a289, 0x7e2d8be,
    0x157a63e0, 0x99b8941, 0x1da7d345, 0xcc6cd0, 0x10beed9a, 0x48e83c0, 0x13aa2e25, 0x7cad710, 0x4029988,
    0x13dfa9dd, 0xb94f884, 0x1f4adfef, 0xb88543, 0x16f5f8dc, 0xa6a67f4, 0x14e274e2, 0x5e56cf4, 0x2f24ef,
    0x1e9ef967, 0xfe09bad, 0xfe079b3, 0xcc0ae9e, 0xb3edf6d, 0x3e961bc, 0x130d7831, 0x31043d6, 0xba986f9,
    0x1d28055, 0x65240ca, 0x4971fa3, 0x81b17f8, 0x11ec34a5, 0x8366ddc, 0x1471809, 0xfa5f1c6, 0xc911e15,
    0x8849491, 0xcf4c2e2, 0x14471b91, 0x39f75be, 0x445c21e, 0xf1585e9, 0x72cc11f, 0x4c79f0c, 0xe5522e1,
    0x1874c1ee, 0x4444211, 0x7914884, 0x3d1b133, 0x25ba3c, 0x4194f65, 0x1c0457ef, 0xac4899d, 0xe1fa66c,
    0x130a7918, 0x9b8d312, 0x4b1c5c8, 0x61ccac3, 0x18c8aa6f, 0xe93cb0a, 0xdccb12c, 0xde10825, 0x969737d,
    0xf58c0c3, 0x7cee6a9, 0xc2c329a, 0xc7f9ed9, 0x107b3981, 0x696a40e, 0x152847ff, 0x4d88754, 0xb141f47,
    0x5a16ffe, 0x3a7870a, 0x18667659, 0x3b72b03, 0xb1c9435, 0x9285394, 0xa00005a, 0x37506c, 0x2edc0bb,
    0x19afe392, 0xeb39cac, 0x177ef286, 0xdf87197, 0x19f844ed, 0x31fe8, 0x15f9bfd, 0x80dbec, 0x342e96e,
    0x497aced, 0xe88e909, 0x1f5fa9ba, 0x530a6ee, 0x1ef4e3f1, 0x69ffd12, 0x583006d, 0x2ecc9b1, 0x362db70,
    0x18c7bdc5, 0xf4bb3c5, 0x1c90b957, 0xf067c09, 0x9768f2b, 0xf73566a, 0x1939a900, 0x198c38a, 0x202a2a1,
    0x4bbf5a6, 0x4e265bc, 0x1f44b6e7, 0x185ca49, 0xa39e81b, 0x24aff5b, 0x4acc9c2, 0x638bdd3, 0xb65b2a8,
    0x6def8be, 0xb94537a, 0x10b81dee, 0xe00ec55, 0x2f2cdf7, 0xc20622d, 0x2d20f36, 0xe03c8c9, 0x898ea76,
    0x8e3921b, 0x8905bff, 0x1e94b6c8, 0xee7ad86, 0x154797f2, 0xa620863, 0x3fbd0d9, 0x1f3caab, 0x30c24bd,
    0x19d3892f, 0x59c17a2, 0x1ab4b0ae, 0xf8714ee, 0x90c4098, 0xa9c800d, 0x1910236b, 0xea808d3, 0x9ae2f31,
    0x1a15ad64, 0xa48c8d1, 0x184635a4, 0xb725ef1, 0x11921dcc, 0x3f866df, 0x16c27568, 0xbdf580a, 0xb08f55c,
    0x186ee1c, 0xb1627fa, 0x34e82f6, 0x933837e, 0xf311be5, 0xfedb03b, 0x167f72cd, 0xa5469c0, 0x9c82531,
    0xb92a24b, 0x14fdc8b, 0x141980d1, 0xbdc3a49, 0x7e02bb1, 0xaf4e6dd, 0x106d99e1, 0xd4616fc, 0x93c2717,
    0x1c0a0507, 0xc6d5fed, 0x9a03d8b, 0xa1d22b0, 0x127853e3, 0xc4ac6b8, 0x1a048cf7, 0x9afb72c, 0x65d485d,
    0x72d5998, 0xe9fa744, 0xe49e82c, 0x253cf80, 0x5f777ce, 0xa3799a5, 0x17270cbb, 0xc1d1ef0, 0xdf74977,
    0x114cb859, 0xfa8e037, 0xb8f3fe5, 0xc734cc6, 0x70d3d61, 0xeadac62, 0x12093dd0, 0x9add67d, 0x87200d6,
    0x175bcbb, 0xb29b49f, 0x1806b79c, 0x12fb61f, 0x170b3a10, 0x3aaf1cf, 0xa224085, 0x79d26af, 0x97759e2,
    0x92e19f1, 0xb32714d, 0x1f00d9f1, 0xc728619, 0x9e6f627, 0xe745e24, 0x18ea4ace, 0xfc60a41, 0x125f5b2,
    0xc3cf512, 0x39ed486, 0xf4d15fa, 0xf9167fd, 0x1c1f5dd5, 0xc21a53e, 0x1897930, 0x957a112, 0x21059a0,
    0x1f9e3ddc, 0xa4dfced, 0x8427f6f, 0x726fbe7, 0x1ea658f8, 0x2fdcd4c, 0x17e9b66f, 0xb2e7c2e, 0x39923bf,
    0x1bae104, 0x3973ce5, 0xc6f264c, 0x3511b84, 0x124195d7, 0x11996bd, 0x20be23d, 0xdc437c4, 0x4b4f16b,
    0x11902a0, 0x6c29cc9, 0x1d5ffbe6, 0xdb0b4c7, 0x10144c14, 0x2f2b719, 0x301189, 0x2343336, 0xa0bf2ac]"

text \<open>A byte beyond the 32 of the array is an index out of range.\<close>

definition sm2P256GetScalar :: "byte list \<Rightarrow> byte list option" where
  "sm2P256GetScalar a =
     (let n = be_int a;
          scalarBytes = (if sm2_N \<le> n then big_Bytes (n mod sm2_N) else a)
      in if 32 < length scalarBytes then None
         else Some (rev scalarBytes @ replicate (32 - length scalarBytes) 0))"

definition sm2P256GetBit :: "byte list \<Rightarrow> nat \<Rightarrow> u32" where
  "sm2P256GetBit scalar b = ucast (drop_bit (b mod 8) (scalar ! (b div 8)) AND 1)"

definition base_index :: "byte list \<Rightarrow> nat \<Rightarrow> nat \<Rightarrow> u32" where
  "base_index scalar i j =
     (let bit0 = sm2P256GetBit scalar (31 - i + j);
          bit1 = sm2P256GetBit scalar (95 - i + j);
          bit2 = sm2P256GetBit scalar (159 - i + j);
          bit3 = sm2P256GetBit scalar (223 - i + j)
      in bit0 OR push_bit 1 bit1 OR push_bit 2 bit2 OR push_bit 3 bit3)"

text \<open>One addition of a table point: the point and \<open>nIsInfinityMask\<close>.\<close>

definition base_add :: "u32 list \<Rightarrow> u32 \<Rightarrow> point \<times> u32 \<Rightarrow> point \<times> u32" where
  "base_add table index st = (case st of (out, nIsInfinityMask) \<Rightarrow>
     case sm2P256SelectAffinePoint table index of (px, py) \<Rightarrow>
     let t = sm2P256PointAddMixed out px py;
         out = copy_point out (px, py, sm2P256Factor ! 1) nIsInfinityMask;
         pIsNoninfiniteMask = nonZeroToAllOnes index;
         mask = pIsNoninfiniteMask AND NOT nIsInfinityMask;
         out = copy_point out t mask
     in (out, nIsInfinityMask AND NOT pIsNoninfiniteMask))"

definition base_step :: "byte list \<Rightarrow> point \<times> u32 \<Rightarrow> nat \<Rightarrow> point \<times> u32" where
  "base_step scalar st i = (case st of (out, nIsInfinityMask) \<Rightarrow>
     let out = (if i \<noteq> 0 then sm2P256PointDouble out else out);
         st = base_add sm2P256Precomputed (base_index scalar i 0) (out, nIsInfinityMask)
     in base_add (drop (30 * 9) sm2P256Precomputed) (base_index scalar i 32) st)"

definition sm2P256ScalarBaseMult :: "byte list \<Rightarrow> point" where
  "sm2P256ScalarBaseMult scalar =
     fst (foldl (base_step scalar) ((fe_zero, fe_zero, fe_zero), NOT 0) [0..<32])"

section \<open>Signed windows of a scalar\<close>

definition WNafReversed :: "int8 list \<Rightarrow> int8 list" where
  "WNafReversed wnaf = rev wnaf"

definition boolToUint :: "bool \<Rightarrow> nat" where
  "boolToUint b = (if b then 1 else 0)"

definition abs8 :: "int8 \<Rightarrow> u32" where
  "abs8 a = (if a <s 0 then scast (- a) else scast a)"

text \<open>The digit at the low end of \<open>k\<close> and the next carry.\<close>

definition wnaf_digit :: "nat \<Rightarrow> bool \<Rightarrow> int \<times> bool" where
  "wnaf_digit k carry =
     (let digit = int k AND 15;
          digit = (if carry then digit + 1 else digit);
          carry = (digit AND 8 \<noteq> 0);
          digit = (if carry then digit - 16 else digit)
      in (digit, carry))"

lemma nat_bitlen_drop: "nat_bitlen (drop_bit n k) = nat_bitlen k - n"
proof (induction n arbitrary: k)
  case (Suc n)
  have "drop_bit (Suc n) k = drop_bit n (k div 2)" by (simp add: drop_bit_Suc)
  moreover have "nat_bitlen (k div 2) = nat_bitlen k - 1" by (subst (2) nat_bitlen.simps) (simp add: nat_bitlen.simps)
  ultimately show ?case using Suc [of "k div 2"] by simp
qed simp

text \<open>The loop; a write beyond the slice would be an index out of range.\<close>

function wnaf_loop :: "nat \<Rightarrow> nat \<Rightarrow> bool \<Rightarrow> nat \<Rightarrow> int8 list \<Rightarrow> (nat \<times> int8 list) option" where
  "wnaf_loop k pos carry len wnaf =
     (if pos \<le> nat_bitlen k then
        if of_bool (bit k pos) = boolToUint carry then wnaf_loop k (Suc pos) carry len wnaf
        else
          let k = drop_bit pos k
          in case wnaf_digit k carry of (digit, carry) \<Rightarrow>
               if len + pos < length wnaf
               then wnaf_loop k 4 carry (len + pos) (wnaf[len + pos := word_of_int digit])
               else None
      else Some (len, wnaf))"
  by pat_completeness auto

termination
  by (relation "measure (\<lambda>(k, pos, _). Suc (nat_bitlen k) - pos)") (auto simp: nat_bitlen_drop)

declare wnaf_loop.simps [simp del]

definition sm2GenrateWNaf :: "byte list \<Rightarrow> int8 list option" where
  "sm2GenrateWNaf b =
     (let n = be_int b;
          k = nat (if sm2_N \<le> n then n mod sm2_N else n);
          wnaf = replicate (nat_bitlen k + 1) 0
      in if k = 0 then Some wnaf
         else case wnaf_loop k 0 False 0 wnaf of None \<Rightarrow> None
              | Some (len, wnaf) \<Rightarrow> Some (if len + 1 < length wnaf then take (len + 1) wnaf else wnaf))"

section \<open>Multiples of a point\<close>

definition precomp_step :: "fe \<Rightarrow> fe \<Rightarrow> point list \<Rightarrow> nat \<Rightarrow> point list" where
  "precomp_step x y precomp i =
     (let precomp = precomp[i := sm2P256PointDouble (precomp ! (i div 2))]
      in precomp[i + 1 := sm2P256PointAddMixed (precomp ! i) x y])"

definition precomp_table :: "fe \<Rightarrow> fe \<Rightarrow> point list" where
  "precomp_table x y =
     foldl (precomp_step x y) ((replicate 16 (fe_zero, fe_zero, fe_zero))[1 := (x, y, sm2P256Factor ! 1)]) [2, 4, 6]"

text \<open>One digit: the point, \<open>nIsInfinityMask\<close> and the zeros not yet doubled.\<close>

definition mult_digit :: "point list \<Rightarrow> point \<times> u32 \<Rightarrow> int8 \<Rightarrow> point \<times> u32" where
  "mult_digit precomp st d = (case st of (out, nIsInfinityMask) \<Rightarrow>
     let index = abs8 d;
         out = sm2P256PointDouble out;
         p = sm2P256SelectJacobianPoint precomp index
     in case (if 0 <s d then (case sm2P256PointAdd out p of (t, out) \<Rightarrow> (t, out, p)) else sm2P256PointSub out p) of (t, out, p) \<Rightarrow>
     let out = copy_point out p nIsInfinityMask;
         pIsNoninfiniteMask = nonZeroToAllOnes index;
         mask = pIsNoninfiniteMask AND NOT nIsInfinityMask;
         out = copy_point out t mask
     in (out, nIsInfinityMask AND NOT pIsNoninfiniteMask))"

definition mult_step :: "point list \<Rightarrow> point \<times> u32 \<times> nat \<Rightarrow> int8 \<Rightarrow> point \<times> u32 \<times> nat" where
  "mult_step precomp st d = (case st of (out, nIsInfinityMask, zeroes) \<Rightarrow>
     if d = 0 then (out, nIsInfinityMask, Suc zeroes)
     else case mult_digit precomp ((sm2P256PointDouble ^^ zeroes) out, nIsInfinityMask) d of (out, nIsInfinityMask) \<Rightarrow>
            (out, nIsInfinityMask, 0))"

definition sm2P256ScalarMult :: "fe \<Rightarrow> fe \<Rightarrow> int8 list \<Rightarrow> point" where
  "sm2P256ScalarMult x y scalar =
     (case foldl (mult_step (precomp_table x y)) ((fe_zero, fe_zero, fe_zero), NOT 0, 0) scalar of (out, _, zeroes) \<Rightarrow>
        (sm2P256PointDouble ^^ zeroes) out)"

section \<open>The methods of the curve\<close>

definition sm2Curve_IsOnCurve :: "int \<Rightarrow> int \<Rightarrow> bool" where
  "sm2Curve_IsOnCurve X Y =
     (let x = sm2P256FromBig X;
          y = sm2P256FromBig Y;
          x3 = sm2P256Square x;
          x3 = sm2P256Mul x3 x;
          a = sm2P256Mul sm2_a x;
          x3 = sm2P256Add x3 a;
          x3 = sm2P256Add x3 sm2_b;
          y2 = sm2P256Square y
      in sm2P256ToBig x3 = sm2P256ToBig y2)"

definition zForAffine :: "int \<Rightarrow> int \<Rightarrow> int" where
  "zForAffine x y = (if x \<noteq> 0 \<or> y \<noteq> 0 then 1 else 0)"

definition sm2Curve_Add :: "int \<Rightarrow> int \<Rightarrow> int \<Rightarrow> int \<Rightarrow> int \<times> int" where
  "sm2Curve_Add x1 y1 x2 y2 =
     (let z1 = zForAffine x1 y1;
          z2 = zForAffine x2 y2
      in sm2P256ToAffine (fst (sm2P256PointAdd (sm2P256FromBig x1, sm2P256FromBig y1, sm2P256FromBig z1)
                                               (sm2P256FromBig x2, sm2P256FromBig y2, sm2P256FromBig z2))))"

definition sm2Curve_Double :: "int \<Rightarrow> int \<Rightarrow> int \<times> int" where
  "sm2Curve_Double x1 y1 =
     (let z1 = zForAffine x1 y1
      in sm2P256ToAffine (sm2P256PointDouble (sm2P256FromBig x1, sm2P256FromBig y1, sm2P256FromBig z1)))"

definition sm2Curve_ScalarMult :: "int \<Rightarrow> int \<Rightarrow> byte list \<Rightarrow> (int \<times> int) option" where
  "sm2Curve_ScalarMult x1 y1 k =
     (case sm2GenrateWNaf k of None \<Rightarrow> None
      | Some scalar \<Rightarrow>
          let scalarReversed = WNafReversed scalar
          in Some (sm2P256ToAffine (sm2P256ScalarMult (sm2P256FromBig x1) (sm2P256FromBig y1) scalarReversed)))"

definition sm2Curve_ScalarBaseMult :: "byte list \<Rightarrow> (int \<times> int) option" where
  "sm2Curve_ScalarBaseMult k =
     (case sm2P256GetScalar k of None \<Rightarrow> None
      | Some scalarReversed \<Rightarrow> Some (sm2P256ToAffine (sm2P256ScalarBaseMult scalarReversed)))"

end
