(* ===== verification/Sm2_Elem.thy ===== *)
theory Sm2_Elem
  imports Sm2_Mul
begin

text \<open>
  The elements of sm2.go as members of the prime field: the residues modulo \<open>sm2_P\<close> as a ring, the residue an
  element stands for (the number \<open>sm2P256ToBig\<close> returns), and the routines as operations on residues.
\<close>

section \<open>The residues\<close>

lemma sm2_P_pos [simp]: "0 < sm2_P" "sm2_P \<noteq> 0" "1 < sm2_P" "0 \<le> sm2_P"
  by (simp_all add: sm2_P_def)

typedef fq = "{x :: int. 0 \<le> x \<and> x < sm2_P}"
  by (rule exI [of _ 0]) simp

setup_lifting type_definition_fq

lift_definition to_fq :: "int \<Rightarrow> fq" is "\<lambda>x. x mod sm2_P"
  by simp

lift_definition fq_int :: "fq \<Rightarrow> int" is "\<lambda>x. x" .

instantiation fq :: comm_ring_1
begin

lift_definition zero_fq :: fq is 0 by simp
lift_definition one_fq :: fq is 1 by simp
lift_definition plus_fq :: "fq \<Rightarrow> fq \<Rightarrow> fq" is "\<lambda>x y. (x + y) mod sm2_P" by simp
lift_definition minus_fq :: "fq \<Rightarrow> fq \<Rightarrow> fq" is "\<lambda>x y. (x - y) mod sm2_P" by simp
lift_definition uminus_fq :: "fq \<Rightarrow> fq" is "\<lambda>x. (- x) mod sm2_P" by simp
lift_definition times_fq :: "fq \<Rightarrow> fq \<Rightarrow> fq" is "\<lambda>x y. (x * y) mod sm2_P" by simp

instance
proof
  fix a b c :: fq
  show "a * b * c = a * (b * c)" by transfer (simp add: mod_simps mult.assoc)
  show "a * b = b * a" by transfer (simp add: mult.commute)
  show "1 * a = a" by transfer simp
  show "a + b + c = a + (b + c)" by transfer (simp add: mod_simps add.assoc)
  show "a + b = b + a" by transfer (simp add: add.commute)
  show "0 + a = a" by transfer simp
  show "- a + a = 0" by transfer (simp add: mod_simps)
  show "a - b = a + - b" by transfer (simp add: mod_simps)
  show "(a + b) * c = a * c + b * c" by transfer (simp add: mod_simps distrib_right)
  show "(0 :: fq) \<noteq> 1" by transfer simp
qed

end

lemma to_fq_eq_iff: "to_fq a = to_fq b \<longleftrightarrow> a mod sm2_P = b mod sm2_P"
  by transfer simp

lemma to_fq_add: "to_fq (a + b) = to_fq a + to_fq b"
  by transfer (simp add: mod_simps)

lemma to_fq_diff: "to_fq (a - b) = to_fq a - to_fq b"
  by transfer (simp add: mod_simps)

lemma to_fq_mult: "to_fq (a * b) = to_fq a * to_fq b"
  by transfer (simp add: mod_simps)

lemma to_fq_0 [simp]: "to_fq 0 = 0"
  by transfer simp

lemma to_fq_1 [simp]: "to_fq 1 = 1"
  by transfer simp

lemma to_fq_mod [simp]: "to_fq (a mod sm2_P) = to_fq a"
  by transfer simp

lemma to_fq_P [simp]: "to_fq sm2_P = 0"
  by transfer simp

lemma to_fq_of_int: "to_fq k = of_int k"
proof (induction k rule: int_induct [of _ 0])
  case base then show ?case by simp
next
  case (step1 i) then show ?case by (simp add: to_fq_add)
next
  case (step2 i) then show ?case by (simp add: to_fq_diff)
qed

section \<open>The residue of an element\<close>

definition fe_val :: "fe \<Rightarrow> fq" where
  "fe_val X = to_fq (sm2P256ToBig X)"

lemma RInverse: "2 ^ 257 * sm2_RInverse mod sm2_P = 1"
proof -
  have "2 ^ 257 * sm2_RInverse = 1 + 115792089129476408767522629297870205758541517347941659817034995947026826395649 * sm2_P" by (simp add: sm2_RInverse_def sm2_P_def)
  then show ?thesis by (simp only: mod_mult_self1) simp
qed

lemma ToBig_val: "length X = 9 \<Longrightarrow> sm2P256ToBig X = limb_val 0 X * sm2_RInverse mod sm2_P"
proof -
  assume "length X = 9"
  moreover have "rev [0..<8] = [7, 6, 5, 4, 3, 2, 1, 0]" by code_simp
  ultimately show ?thesis
    unfolding sm2P256ToBig_def by (simp add: limb_val_9 limb_bits_def push_bit_eq_mult algebra_simps)
qed

lemma fe_val_limbs: "length X = 9 \<Longrightarrow> fe_val X = to_fq (limb_val 0 X) * to_fq sm2_RInverse"
  by (simp add: fe_val_def ToBig_val to_fq_mult)

lemma to_fq_RInverse: "to_fq (2 ^ 257) * to_fq sm2_RInverse = 1"
  unfolding to_fq_mult [symmetric] using RInverse by (simp only: to_fq_eq_iff [of _ 1, unfolded to_fq_1]) simp

lemma ToBig_bounds: "0 \<le> sm2P256ToBig X" "sm2P256ToBig X < sm2_P"
  by (simp_all add: sm2P256ToBig_def Let_def)

lemma ToBig_eq_iff: "sm2P256ToBig X = sm2P256ToBig Y \<longleftrightarrow> fe_val X = fe_val Y"
  using ToBig_bounds [of X] ToBig_bounds [of Y] by (simp add: fe_val_def to_fq_eq_iff)

lemma ToBig_eq_0_iff: "sm2P256ToBig X = 0 \<longleftrightarrow> fe_val X = 0"
  using ToBig_bounds [of X] to_fq_eq_iff [of "sm2P256ToBig X" 0] by (simp add: fe_val_def)

definition exact_mul :: "fe \<Rightarrow> fe \<Rightarrow> bool" where
  "exact_mul a b = exact_reduction (map (mul_column a b) [0..<17])"

lemma fe_val_mul:
  assumes "fe_ok a" "fe_ok b" "exact_mul a b"
  shows "fe_ok (sm2P256Mul a b) \<and> fe_val (sm2P256Mul a b) = fe_val a * fe_val b"
proof -
  let ?R = "to_fq sm2_RInverse" and ?v = "\<lambda>X. to_fq (limb_val 0 X)"
  have m: "fe_ok (sm2P256Mul a b)" "2 ^ 257 * limb_val 0 (sm2P256Mul a b) mod sm2_P = limb_val 0 a * limb_val 0 b mod sm2_P"
    using sm2P256Mul_val [OF assms(1,2)] assms(3) by (simp_all add: exact_mul_def)
  have "to_fq (2 ^ 257) * ?v (sm2P256Mul a b) = ?v a * ?v b"
    using m(2) unfolding to_fq_mult [symmetric] to_fq_eq_iff .
  then have "?R * (to_fq (2 ^ 257) * ?v (sm2P256Mul a b)) * ?R = ?R * (?v a * ?v b) * ?R" by simp
  then have "(to_fq (2 ^ 257) * ?R) * (?v (sm2P256Mul a b) * ?R) = (?v a * ?R) * (?v b * ?R)" by (simp only: mult_ac)
  then have "?v (sm2P256Mul a b) * ?R = (?v a * ?R) * (?v b * ?R)" unfolding to_fq_RInverse by simp
  then show ?thesis using m(1) assms(1,2) by (simp add: fe_val_limbs fe_ok_def)
qed

section \<open>Sums and differences\<close>

text \<open>The carry loop over nine limbs that stay below \<open>7 * 2 ^ 29\<close>.\<close>

definition carry_inv :: "(nat \<Rightarrow> u32) \<Rightarrow> nat \<Rightarrow> fe \<times> u32 \<Rightarrow> bool" where
  "carry_inv f i st = (case st of (c, carry) \<Rightarrow>
     length c = i \<and> list_all (\<lambda>j. uint (c ! j) < 2 ^ limb_bits j) [0..<i] \<and> uint carry \<le> 7
     \<and> limb_val 0 c + 2 ^ weight 0 i * uint carry = (\<Sum>j<i. uint (f j) * 2 ^ weight 0 j))"

lemma carry_step_inv:
  assumes "carry_inv f i st" "uint (f i) < 7 * 2 ^ limb_bits i"
  shows "carry_inv f (Suc i) (carry_step f st i)"
proof -
  obtain c carry where st: "st = (c, carry)" by fastforce
  define t where "t = f i + carry"
  have inv: "length c = i" "list_all (\<lambda>j. uint (c ! j) < 2 ^ limb_bits j) [0..<i]" "uint carry \<le> 7"
    "limb_val 0 c + 2 ^ weight 0 i * uint carry = (\<Sum>j<i. uint (f j) * 2 ^ weight 0 j)"
    using assms(1) by (simp_all add: st carry_inv_def)
  have "uint (f i) < 3758096384" using assms(2) limb_bits_cases [of i] by auto
  then have t: "uint t = uint (f i) + uint carry" unfolding t_def by (intro uint32_add') (use inv(3) in linarith)
  have "uint t < 8 * 2 ^ limb_bits i" unfolding t using assms(2) inv(3) limb_bits_cases [of i] by auto
  then have "uint t div 2 ^ limb_bits i < 8" by (intro int_div_less) (simp_all add: mult.commute)
  then have "uint (drop_bit (limb_bits i) t) \<le> 7" unfolding uint32_drop by simp
  moreover have "list_all (\<lambda>j. uint ((c @ [t AND limb_mask i]) ! j) < 2 ^ limb_bits j) [0..<Suc i]"
    using inv(1,2) by (auto simp: list_all_iff nth_append limb_mask_eq uint32_mask)
  moreover have "limb_val 0 (c @ [t AND limb_mask i]) + 2 ^ weight 0 (Suc i) * uint (drop_bit (limb_bits i) t)
      = limb_val 0 c + 2 ^ weight 0 i * (uint (t AND limb_mask i) + 2 ^ limb_bits i * uint (drop_bit (limb_bits i) t))"
    unfolding weight_Suc limb_val_append inv(1) by (simp add: power_add algebra_simps)
  then have "limb_val 0 (c @ [t AND limb_mask i]) + 2 ^ weight 0 (Suc i) * uint (drop_bit (limb_bits i) t)
      = (\<Sum>j<Suc i. uint (f j) * 2 ^ weight 0 j)"
    unfolding uint_mask_split t using inv(4) by (simp add: algebra_simps)
  ultimately show ?thesis unfolding st carry_step_def carry_inv_def Let_def prod.case t_def [symmetric] using inv(1) by simp
qed

lemma carry_loop:
  assumes "\<And>i. i < 9 \<Longrightarrow> uint (f i) < 7 * 2 ^ limb_bits i"
  shows "case foldl (carry_step f) ([], 0) [0..<9] of (c, carry) \<Rightarrow>
    fe_ok (sm2P256ReduceCarry c carry) \<and> fe_val (sm2P256ReduceCarry c carry) = to_fq (\<Sum>j<9. uint (f j) * 2 ^ weight 0 j) * to_fq sm2_RInverse"
proof -
  obtain c carry where f: "foldl (carry_step f) ([], 0) [0..<9] = (c, carry)" by fastforce
  have "carry_inv f 9 (foldl (carry_step f) ([], 0) [0..<9])"
    by (rule foldl_upt_invariant [of "carry_inv f"]) (simp_all add: carry_inv_def [of _ 0] carry_step_inv assms)
  then have inv: "fe_masked c" "uint carry \<le> 7" "limb_val 0 c + 2 ^ 257 * uint carry = (\<Sum>j<9. uint (f j) * 2 ^ weight 0 j)"
    unfolding f carry_inv_def fe_masked_def weight_9 by simp_all
  have r: "fe_ok (sm2P256ReduceCarry c carry)"
    "limb_val 0 (sm2P256ReduceCarry c carry) = (\<Sum>j<9. uint (f j) * 2 ^ weight 0 j) - 2 * uint carry * sm2_P"
    using reduce_carry_val [OF inv(1,2)] inv(3) by (simp_all add: algebra_simps)
  then show ?thesis unfolding f prod.case by (simp add: fe_val_limbs fe_ok_def to_fq_diff to_fq_mult)
qed

lemma fe_bounds: "fe_ok X \<Longrightarrow> i < 9 \<Longrightarrow> uint (X ! i) < 2 * 2 ^ limb_bits i"
proof -
  assume "fe_ok X" "i < 9"
  then have "uint (X ! i) < (if even i then 2 ^ 30 else 2 ^ 29)" unfolding fe_ok_def list_all_iff by simp
  then show ?thesis by (simp add: limb_bits_def split: if_splits)
qed

lemma fe_val_sum: "fe_ok X \<Longrightarrow> fe_val X = to_fq (\<Sum>j<9. uint (X ! j) * 2 ^ weight 0 j) * to_fq sm2_RInverse"
  using limb_val_sum [of X] by (simp add: fe_val_limbs fe_ok_def)

lemma fe_val_add:
  assumes "fe_ok a" "fe_ok b"
  shows "fe_ok (sm2P256Add a b)" "fe_val (sm2P256Add a b) = fe_val a + fe_val b"
proof -
  have s: "uint (a ! i + b ! i) = uint (a ! i) + uint (b ! i)" if "i < 9" for i
    by (rule uint32_add') (use fe_bounds [OF assms(1) that] fe_bounds [OF assms(2) that] limb_bits_cases [of i] in auto)
  have "uint (a ! i + b ! i) < 7 * 2 ^ limb_bits i" if "i < 9" for i
    using fe_bounds [OF assms(1) that] fe_bounds [OF assms(2) that] zero_less_power [of "2 :: int" "limb_bits i"] unfolding s [OF that] by linarith
  note carry_loop [where f = "\<lambda>i. a ! i + b ! i", OF this]
  then have "fe_ok (sm2P256Add a b) \<and> fe_val (sm2P256Add a b) = to_fq (\<Sum>j<9. uint (a ! j + b ! j) * 2 ^ weight 0 j) * to_fq sm2_RInverse"
    unfolding sm2P256Add_def by (simp split: prod.splits)
  moreover have "(\<Sum>j<9. uint (a ! j + b ! j) * 2 ^ weight 0 j) = (\<Sum>j<9. uint (a ! j) * 2 ^ weight 0 j) + (\<Sum>j<9. uint (b ! j) * 2 ^ weight 0 j)"
    unfolding sum.distrib [symmetric] by (rule sum.cong) (simp_all add: s distrib_right)
  ultimately show "fe_ok (sm2P256Add a b)" "fe_val (sm2P256Add a b) = fe_val a + fe_val b"
    by (simp_all add: fe_val_sum [OF assms(1)] fe_val_sum [OF assms(2)] to_fq_add distrib_right)
qed

lemma zero31: "i < 9 \<Longrightarrow> 2 * 2 ^ limb_bits i \<le> uint (sm2P256Zero31 ! i) \<and> uint (sm2P256Zero31 ! i) \<le> 4 * 2 ^ limb_bits i + 1024"
proof -
  assume "i < 9"
  then have "i \<in> {0, 1, 2, 3, 4, 5, 6, 7, 8}" by auto
  then show ?thesis by (auto simp: sm2P256Zero31_def limb_bits_def)
qed

lemma zero31_val: "to_fq (\<Sum>j<9. uint (sm2P256Zero31 ! j) * 2 ^ weight 0 j) = 0"
proof -
  have "limb_val 0 sm2P256Zero31 mod sm2_P = 0" by (simp add: sm2P256Zero31_def sm2_P_def limb_bits_def)
  moreover have "(\<Sum>j<9. uint (sm2P256Zero31 ! j) * 2 ^ weight 0 j) = limb_val 0 sm2P256Zero31"
  proof -
    have "length sm2P256Zero31 = 9" by (simp add: sm2P256Zero31_def)
    then show ?thesis using limb_val_sum [of sm2P256Zero31] by (simp only:)
  qed
  ultimately show ?thesis using to_fq_eq_iff [of "limb_val 0 sm2P256Zero31" 0] by simp
qed

lemma fe_val_sub:
  assumes "fe_ok a" "fe_ok b"
  shows "fe_ok (sm2P256Sub a b)" "fe_val (sm2P256Sub a b) = fe_val a - fe_val b"
proof -
  let ?f = "\<lambda>i. a ! i - b ! i + sm2P256Zero31 ! i"
  have s: "uint (?f i) = uint (a ! i) - uint (b ! i) + uint (sm2P256Zero31 ! i)" if "i < 9" for i
  proof -
    have b: "uint (a ! i) < 1073741824" "uint (b ! i) \<le> uint (sm2P256Zero31 ! i)" "uint (sm2P256Zero31 ! i) \<le> 2147484672"
      using fe_bounds [OF assms(1) that] fe_bounds [OF assms(2) that] zero31 [OF that] limb_bits_cases [of i] by auto
    have "uint (a ! i + (sm2P256Zero31 ! i - b ! i)) = uint (a ! i) + uint (sm2P256Zero31 ! i - b ! i)"
      by (rule uint32_add') (use b uint32_sub [OF b(2)] unsigned_greater_eq [of "b ! i", where ?'a = int] in linarith)
    moreover have "a ! i + (sm2P256Zero31 ! i - b ! i) = ?f i" by simp
    ultimately show ?thesis using uint32_sub [OF b(2)] by simp
  qed
  have "uint (?f i) < 7 * 2 ^ limb_bits i" if "i < 9" for i
  proof -
    have "(1024 :: int) < 2 ^ limb_bits i" using limb_bits_cases [of i] by auto
    then show ?thesis using fe_bounds [OF assms(1) that] zero31 [OF that] unsigned_greater_eq [of "b ! i", where ?'a = int]
      unfolding s [OF that] by linarith
  qed
  note carry_loop [where f = ?f, OF this]
  then have "fe_ok (sm2P256Sub a b) \<and> fe_val (sm2P256Sub a b) = to_fq (\<Sum>j<9. uint (?f j) * 2 ^ weight 0 j) * to_fq sm2_RInverse"
    unfolding sm2P256Sub_def by (simp split: prod.splits)
  moreover have "(\<Sum>j<9. uint (?f j) * 2 ^ weight 0 j) = (\<Sum>j<9. uint (a ! j) * 2 ^ weight 0 j) - (\<Sum>j<9. uint (b ! j) * 2 ^ weight 0 j)
      + (\<Sum>j<9. uint (sm2P256Zero31 ! j) * 2 ^ weight 0 j)"
    unfolding sum.distrib [symmetric] sum_subtractf [symmetric] by (rule sum.cong [OF refl], simp only: s lessThan_iff, simp add: algebra_simps)
  ultimately show "fe_ok (sm2P256Sub a b)" "fe_val (sm2P256Sub a b) = fe_val a - fe_val b"
    by (simp_all add: fe_val_sum [OF assms(1)] fe_val_sum [OF assms(2)] to_fq_add to_fq_diff zero31_val left_diff_distrib)
qed

section \<open>Conversions\<close>

definition from_big_inv :: "int \<Rightarrow> nat \<Rightarrow> fe \<times> int \<Rightarrow> bool" where
  "from_big_inv x i st = (case st of (X, x') \<Rightarrow>
     length X = i \<and> list_all (\<lambda>j. uint (X ! j) < 2 ^ limb_bits j) [0..<i] \<and> x' = x div 2 ^ weight 0 i
     \<and> limb_val 0 X + 2 ^ weight 0 i * x' = x)"

lemma from_big_step_inv:
  assumes "from_big_inv x i st"
  shows "from_big_inv x (Suc i) (from_big_step st i)"
proof -
  obtain X x' where st: "st = (X, x')" by fastforce
  have inv: "length X = i" "list_all (\<lambda>j. uint (X ! j) < 2 ^ limb_bits j) [0..<i]" "x' = x div 2 ^ weight 0 i" "limb_val 0 X + 2 ^ weight 0 i * x' = x"
    using assms unfolding st from_big_inv_def prod.case by blast+
  let ?t = "word_of_int x' AND limb_mask i :: u32"
  have "uint ?t = x' mod 2 ^ 32 mod 2 ^ limb_bits i" unfolding limb_mask_eq uint32_mask by (simp add: uint_word_of_int)
  also have "\<dots> = x' mod 2 ^ limb_bits i" by (rule mod_mod_cancel) (simp add: le_imp_power_dvd limb_bits_def)
  finally have t: "uint ?t = x' mod 2 ^ limb_bits i" .
  have "limb_val 0 (X @ [?t]) + 2 ^ weight 0 (Suc i) * (x' div 2 ^ limb_bits i)
      = limb_val 0 X + 2 ^ weight 0 i * (uint ?t + 2 ^ limb_bits i * (x' div 2 ^ limb_bits i))"
    unfolding limb_val_append inv(1) weight_Suc power_add by (simp add: distrib_left mult_ac)
  also have "\<dots> = x" unfolding t mod_mult_div_eq using inv(4) by simp
  finally have "limb_val 0 (X @ [?t]) + 2 ^ weight 0 (Suc i) * (x' div 2 ^ limb_bits i) = x" .
  moreover have "x' div 2 ^ limb_bits i = x div 2 ^ weight 0 (Suc i)"
    unfolding inv(3) weight_Suc power_add by (simp add: zdiv_zmult2_eq)
  moreover have "list_all (\<lambda>j. uint ((X @ [?t]) ! j) < 2 ^ limb_bits j) [0..<Suc i]"
    using inv(1,2) by (auto simp: list_all_iff nth_append t)
  ultimately show ?thesis unfolding st from_big_step_def from_big_inv_def prod.case using inv(1) by (simp add: drop_bit_eq_div)
qed

lemma FromBig_limbs: "fe_masked (sm2P256FromBig a) \<and> limb_val 0 (sm2P256FromBig a) = 2 ^ 257 * a mod sm2_P"
proof -
  let ?x = "push_bit 257 a mod sm2_P"
  obtain X x' where f: "foldl from_big_step ([], ?x) [0..<9] = (X, x')" by fastforce
  have "from_big_inv ?x 9 (foldl from_big_step ([], ?x) [0..<9])"
    by (rule foldl_upt_invariant [of "from_big_inv ?x"]) (simp_all add: from_big_inv_def [of _ 0] from_big_step_inv)
  then have inv: "fe_masked X" "x' = ?x div 2 ^ 257" "limb_val 0 X + 2 ^ 257 * x' = ?x"
    unfolding f from_big_inv_def fe_masked_def weight_9 by simp_all
  have "?x < 2 ^ 257" using pos_mod_bound [of sm2_P "push_bit 257 a"] by (simp add: sm2_P_def)
  moreover have "0 \<le> ?x" by simp
  ultimately have "x' = 0" unfolding inv(2) by (rule div_pos_pos_trivial [rotated])
  then show ?thesis using inv(1,3) unfolding sm2P256FromBig_def Let_def f by (simp add: push_bit_eq_mult mult.commute)
qed

lemma fe_masked_ok: "fe_masked X \<Longrightarrow> fe_ok X"
  by (auto simp: fe_masked_def fe_ok_def list_all_iff limb_bits_def)

lemma FromBig_ok: "fe_ok (sm2P256FromBig a)"
  by (rule fe_masked_ok) (simp add: FromBig_limbs)

lemma fe_val_FromBig: "fe_val (sm2P256FromBig a) = to_fq a"
proof -
  have "fe_val (sm2P256FromBig a) = to_fq (2 ^ 257 * a) * to_fq sm2_RInverse"
    using FromBig_limbs [of a] FromBig_ok [of a] by (simp add: fe_val_limbs fe_ok_def)
  also have "\<dots> = to_fq (2 ^ 257) * to_fq sm2_RInverse * to_fq a" unfolding to_fq_mult by (simp only: mult_ac)
  finally show ?thesis by (simp only: to_fq_RInverse mult_1)
qed

lemma ToBig_FromBig: "sm2P256ToBig (sm2P256FromBig a) = a mod sm2_P"
proof -
  have "sm2P256ToBig (sm2P256FromBig a) mod sm2_P = a mod sm2_P"
    using fe_val_FromBig [of a] unfolding fe_val_def to_fq_eq_iff .
  then show ?thesis using ToBig_bounds [of "sm2P256FromBig a"] by simp
qed

lemma factors_ok: "list_all fe_ok sm2P256Factor"
  unfolding sm2P256Factor_def by (simp add: fe_ok_def upt_9)

lemma factors_val: "map (limb_val 0) sm2P256Factor = map (\<lambda>k. k * (2 ^ 257 - 2 * sm2_P)) [0, 1, 2, 3, 4, 5, 6, 7, 8]"
  unfolding sm2P256Factor_def by (simp add: limb_bits_def sm2_P_def)

lemma fe_ok_factor: "k \<le> 8 \<Longrightarrow> fe_ok (sm2P256Factor ! k) \<and> fe_val (sm2P256Factor ! k) = of_nat k"
proof -
  assume k: "k \<le> 8"
  have len: "length sm2P256Factor = 9" using arg_cong [OF factors_val, of length] by simp
  have ok: "fe_ok (sm2P256Factor ! k)" using factors_ok k len by (simp add: list_all_length)
  have "limb_val 0 (sm2P256Factor ! k) = map (limb_val 0) sm2P256Factor ! k" using k len by simp
  also have "\<dots> = int k * 2 ^ 257 - 2 * int k * sm2_P" unfolding factors_val using k by (auto simp: le_Suc_eq numeral_eq_Suc algebra_simps)
  finally have "limb_val 0 (sm2P256Factor ! k) = int k * 2 ^ 257 - 2 * int k * sm2_P" .
  then have "fe_val (sm2P256Factor ! k) = to_fq (int k * 2 ^ 257 - 2 * int k * sm2_P) * to_fq sm2_RInverse"
    using ok by (simp add: fe_val_limbs fe_ok_def)
  also have "\<dots> = to_fq (int k) * (to_fq (2 ^ 257) * to_fq sm2_RInverse)" unfolding to_fq_diff to_fq_mult to_fq_P by (simp only: mult_zero_right diff_zero mult.assoc)
  finally show ?thesis using ok to_fq_of_int [of "int k"] unfolding to_fq_RInverse by simp
qed

lemma fe_val_scalar:
  assumes "fe_ok a" "k \<le> 8" "exact_mul a (sm2P256Factor ! k)"
  shows "fe_ok (sm2P256Scalar a k) \<and> fe_val (sm2P256Scalar a k) = fe_val a * of_nat k"
  using fe_val_mul [OF assms(1) _ assms(3)] fe_ok_factor [OF assms(2)] by (simp add: sm2P256Scalar_def)

section \<open>The arithmetic of the field\<close>

lemma ToBig_eqI: "fe_val X = to_fq v \<Longrightarrow> sm2P256ToBig X = v mod sm2_P"
  using ToBig_bounds [of X] by (simp add: fe_val_def to_fq_eq_iff)

text \<open>
  C17: Elements whose limbs are below 2 to the 30 and 2 to the 29 are closed under the field operations of sm2.go,
  and \<open>sm2P256ToBig\<close> takes a sum, a difference and an exact product to the sum, difference and product
  modulo the prime. A product is exact when no limb of the reduction lends what it does not have.
\<close>

theorem sm2_field_arithmetic:
  assumes "fe_ok a" "fe_ok b"
  shows "fe_ok (sm2P256Add a b) \<and> sm2P256ToBig (sm2P256Add a b) = (sm2P256ToBig a + sm2P256ToBig b) mod sm2_P
    \<and> fe_ok (sm2P256Sub a b) \<and> sm2P256ToBig (sm2P256Sub a b) = (sm2P256ToBig a - sm2P256ToBig b) mod sm2_P
    \<and> (exact_mul a b \<longrightarrow> fe_ok (sm2P256Mul a b) \<and> sm2P256ToBig (sm2P256Mul a b) = sm2P256ToBig a * sm2P256ToBig b mod sm2_P)"
  using fe_val_add [OF assms(1,2)] fe_val_sub [OF assms(1,2)] fe_val_mul [OF assms]
  by (auto intro!: ToBig_eqI simp: to_fq_add to_fq_diff to_fq_mult fe_val_def [of a] fe_val_def [of b])

text \<open>The coordinates of the generator as the table of multiples holds them.\<close>

definition table_gx :: fe where
  "table_gx = [0x830053d, 0x328990f, 0x6c04fe1, 0xc0f72e5, 0x1e19f3c, 0x666b093, 0x175a87b, 0xec38276, 0x222cf4b]"

definition table_gy :: fe where
  "table_gy = [0x185a1bba, 0x354e593, 0x1295fac1, 0xf2bc469, 0x47c60fa, 0xc19b8a9, 0xf63533e, 0x903ae6b, 0xc79acba]"

lemma table_g_ok: "fe_ok table_gx" "fe_ok table_gy"
  unfolding fe_ok_def upt_9 by (simp_all add: table_gx_def table_gy_def)

lemma table_g_exact: "exact_mul table_gx table_gy"
  by code_simp

theorem sm2_field_arithmetic_witness:
  "sm2P256ToBig (sm2P256Mul table_gx table_gy) = sm2P256ToBig table_gx * sm2P256ToBig table_gy mod sm2_P"
  using sm2_field_arithmetic [OF table_g_ok] table_g_exact by blast

text \<open>
  The conversions between numbers and elements are inverse modulo the prime, whatever the sign and size of the
  number, and \<open>sm2P256Square\<close> computes exactly what \<open>sm2P256Mul\<close> computes on two equal arguments.
\<close>

theorem sm2_conversions:
  "fe_ok (sm2P256FromBig x) \<and> sm2P256ToBig (sm2P256FromBig x) = x mod sm2_P \<and> 0 \<le> sm2P256ToBig X \<and> sm2P256ToBig X < sm2_P
   \<and> sm2P256Square X = sm2P256Mul X X"
  by (simp add: FromBig_ok ToBig_FromBig ToBig_bounds sm2P256Square_eq)

text \<open>Two numbers whose product the reduction gets wrong.\<close>

definition lost_a :: fe where "lost_a = [0, 0, 1, 0, 0, 0, 0, 0, 0]"
definition lost_b :: fe where "lost_b = [0, 2, 1, 0, 524288, 0, 33554432, 1, 1]"

lemma lost_ok: "fe_ok lost_a" "fe_ok lost_b"
  unfolding fe_ok_def upt_9 by (simp_all add: lost_a_def lost_b_def)

lemma lost_product: "sm2P256Mul lost_a lost_b = [276561921, 136314879, 503316503, 134217538, 536870896, 268419331, 258175, 265337856, 49815551]"
  by code_simp

text \<open>An example: without its hypothesis the exact product fails, on two elements with masked limbs.\<close>

lemma exact_mul_needed:
  "fe_masked lost_a \<and> fe_masked lost_b
   \<and> sm2P256ToBig (sm2P256Mul lost_a lost_b) \<noteq> sm2P256ToBig lost_a * sm2P256ToBig lost_b mod sm2_P"
proof (intro conjI notI)
  show "fe_masked lost_a" "fe_masked lost_b"
    unfolding fe_masked_def upt_9 by (simp_all add: lost_a_def lost_b_def limb_bits_def)
next
  let ?R = "to_fq sm2_RInverse" and ?v = "\<lambda>X. to_fq (limb_val 0 X)" and ?M = "sm2P256Mul lost_a lost_b"
  assume e: "sm2P256ToBig ?M = sm2P256ToBig lost_a * sm2P256ToBig lost_b mod sm2_P"
  have len: "length lost_a = 9" "length lost_b = 9" "length ?M = 9" unfolding lost_product by (simp_all add: lost_a_def lost_b_def)
  have "fe_val ?M = fe_val lost_a * fe_val lost_b" unfolding fe_val_def e by (simp add: to_fq_mult)
  then have "?v ?M * ?R = ?v lost_a * ?R * (?v lost_b * ?R)" by (simp add: fe_val_limbs len)
  then have "(?v ?M * ?R) * (to_fq (2 ^ 257) * to_fq (2 ^ 257)) = ?v lost_a * ?R * (?v lost_b * ?R) * (to_fq (2 ^ 257) * to_fq (2 ^ 257))"
    by (rule arg_cong)
  then have "(to_fq (2 ^ 257) * ?v ?M) * (to_fq (2 ^ 257) * ?R) = ?v lost_a * ?v lost_b * ((to_fq (2 ^ 257) * ?R) * (to_fq (2 ^ 257) * ?R))"
    by (simp only: mult_ac)
  then have "to_fq (2 ^ 257 * limb_val 0 ?M) = to_fq (limb_val 0 lost_a * limb_val 0 lost_b)"
    unfolding to_fq_RInverse to_fq_mult mult_1_right .
  moreover have "2 ^ 257 * limb_val 0 ?M = limb_val 0 lost_a * limb_val 0 lost_b
      + 42976788003720431075618484388785546477300728811908237746565226233412914249728 * sm2_P
      + 28269553036454149273332760012065102214869525710010467697157381883177730048"
    unfolding lost_product by (simp add: lost_a_def lost_b_def limb_bits_def sm2_P_def)
  ultimately have "to_fq (limb_val 0 lost_a * limb_val 0 lost_b) = to_fq (limb_val 0 lost_a * limb_val 0 lost_b)
      + to_fq 42976788003720431075618484388785546477300728811908237746565226233412914249728 * to_fq sm2_P
      + to_fq 28269553036454149273332760012065102214869525710010467697157381883177730048"
    by (simp only: to_fq_add to_fq_mult)
  then have "to_fq 28269553036454149273332760012065102214869525710010467697157381883177730048 = 0" by simp
  then show False unfolding to_fq_0 [symmetric] to_fq_eq_iff by (simp add: sm2_P_def)
qed

end
