(* ===== verification/Sm2_Law.thy ===== *)
theory Sm2_Law
  imports Sm2_Point Sm2_Elem Jacobian "HOL-Library.Monad_Syntax"
begin

text \<open>
  What the point formulas of sm2.go compute: over any ring they are the tangent and chord constructions of
  \<open>y\<^sup>2 = x\<^sup>3 + a x + b\<close> in Jacobian coordinates; over the elements of the code they compute the same on the
  residues as long as every product of the run is exact. The second statement is relational: one locale says
  what it means for two interpretations of the field operations to agree, and each formula respects it.
\<close>

section \<open>The formulas over a ring\<close>

definition ring_ops :: "'a::comm_ring_1 \<Rightarrow> 'a field_ops" where
  "ring_ops a = \<lparr>f_add = (+), f_sub = (-), f_mul = (*), f_square = (\<lambda>x. x * x), f_scalar = (\<lambda>x k. x * of_nat k), f_a = a\<rparr>"

definition weierstrass :: "'a::comm_ring_1 \<Rightarrow> 'a \<Rightarrow> 'a \<times> 'a \<Rightarrow> bool" where
  "weierstrass a b P = (case P of (x, y) \<Rightarrow> y * y = x * x * x + a * x + b)"

definition triple_rep :: "'a::comm_ring_1 \<times> 'a \<times> 'a \<Rightarrow> 'a \<times> 'a \<Rightarrow> bool" where
  "triple_rep p P = (case p of (X, Y, Z) \<Rightarrow> jac_rep X Y Z P)"

lemma double_tangent:
  fixes x y z l a :: "'a::comm_ring_1"
  assumes "triple_rep p (x, y)" "l * (2 * y) = 3 * (x * x) + a"
  shows "triple_rep (point_double (ring_ops a) p) (line_sum l (x, y) x)"
proof -
  obtain X Y z where p: "p = (X, Y, z)" by (cases p)
  have X: "X = x * (z * z)" and Y: "Y = y * (z * z * z)" using assms(1) by (simp_all add: p triple_rep_def jac_rep_def)
  define Z3 where "Z3 = (Y + z) * (Y + z) - z * z - Y * Y"
  have Z3: "Z3 = 2 * y * (z * z * z * z)" by (simp add: Z3_def Y algebra_simps)
  define M where "M = X * X * 3 + a * (z * z * z * z)"
  have "M = (3 * (x * x) + a) * (z * z * z * z)" by (simp add: M_def X algebra_simps)
  then have "M = l * (2 * y) * (z * z * z * z)" by (simp only: assms(2))
  then have M: "M = l * Z3" by (simp add: Z3 algebra_simps)
  define S where "S = X * (Y * Y) * 4"
  have S: "S = x * (Z3 * Z3)" by (simp add: S_def X Y Z3 algebra_simps)
  have Q: "Y * Y * Y * Y * 8 = y * (Z3 * Z3 * Z3)" by (simp add: Y Z3 algebra_simps)
  have "point_double (ring_ops a) p = (M * M - S - S, (S - (M * M - S - S)) * M - Y * Y * Y * Y * 8, Z3)"
    by (simp add: point_double_def ring_ops_def p Let_def M_def S_def Z3_def)
  also have "triple_rep \<dots> (line_sum l (x, y) x)"
    unfolding Q M S by (simp add: triple_rep_def jac_rep_def line_sum_def Let_def algebra_simps)
  finally show ?thesis .
qed

lemma add_chord_line:
  fixes x1 y1 x2 y2 l a :: "'a::comm_ring_1"
  assumes "triple_rep p (x1, y1)" "triple_rep q (x2, y2)" "l * (x2 - x1) = y2 - y1"
  shows "triple_rep (point_chord (ring_ops a) (point_cross (ring_ops a) p q) (snd (snd p)) (snd (snd q))) (line_sum l (x1, y1) x2)"
proof -
  obtain X1 Y1 z1 X2 Y2 z2 where pq: "p = (X1, Y1, z1)" "q = (X2, Y2, z2)" by (cases p; cases q)
  have r: "X1 = x1 * (z1 * z1)" "Y1 = y1 * (z1 * z1 * z1)" "X2 = x2 * (z2 * z2)" "Y2 = y2 * (z2 * z2 * z2)"
    using assms(1,2) by (simp_all add: pq triple_rep_def jac_rep_def)
  define u1 u2 s1 s2 where u: "u1 = X1 * (z2 * z2)" "u2 = X2 * (z1 * z1)" "s1 = Y1 * (z2 * z2 * z2)" "s2 = Y2 * (z1 * z1 * z1)"
  define D where "D = x2 - x1"
  define Z3 where "Z3 = z1 * z2 * (u2 - u1)"
  have Z3: "Z3 = D * (z1 * z1 * z1 * (z2 * z2 * z2))" by (simp add: Z3_def u r D_def algebra_simps)
  have "s2 - s1 = (y2 - y1) * (z1 * z1 * z1 * (z2 * z2 * z2))" by (simp add: u r algebra_simps)
  then have R: "s2 - s1 = l * Z3" by (simp add: assms(3) [symmetric] Z3 D_def mult_ac)
  have h: "u2 - u1 = D * (z1 * z1 * (z2 * z2))" by (simp add: u r D_def algebra_simps)
  have h3: "(u2 - u1) * (u2 - u1) * (u2 - u1) = D * (Z3 * Z3)" unfolding h Z3 by (simp add: mult_ac)
  have V: "u1 * ((u2 - u1) * (u2 - u1)) = x1 * (Z3 * Z3)" unfolding h Z3 by (simp add: u r mult_ac)
  have W: "D * (Z3 * Z3) * s1 = y1 * (Z3 * Z3 * Z3)" unfolding Z3 by (simp add: u r mult_ac)
  have "point_chord (ring_ops a) (point_cross (ring_ops a) p q) (snd (snd p)) (snd (snd q))
    = (let x3 = (s2 - s1) * (s2 - s1) - (u2 - u1) * (u2 - u1) * (u2 - u1) - u1 * ((u2 - u1) * (u2 - u1)) * 2
       in (x3, (s2 - s1) * (u1 * ((u2 - u1) * (u2 - u1)) - x3) - (u2 - u1) * (u2 - u1) * (u2 - u1) * s1, Z3))"
    unfolding point_chord_def point_cross_def ring_ops_def pq Let_def u Z3_def by (simp only: prod.case field_ops.simps fst_conv snd_conv of_nat_numeral)
  also have "triple_rep \<dots> (line_sum l (x1, y1) x2)"
    unfolding h3 V W R Let_def by (simp add: triple_rep_def jac_rep_def line_sum_def Let_def D_def algebra_simps)
  finally show ?thesis .
qed

lemma mixed_chord_line:
  fixes x1 y1 x2 y2 l a :: "'a::comm_ring_1"
  assumes "triple_rep p (x1, y1)" "l * (x2 - x1) = y2 - y1"
  shows "triple_rep (point_add_mixed (ring_ops a) p x2 y2) (line_sum l (x1, y1) x2)"
proof -
  obtain X Y z where p: "p = (X, Y, z)" by (cases p)
  let ?H = "x2 * (z * z) - X"
  have i: "(?H + ?H) * (?H + ?H) = (?H * ?H + ?H * ?H) + (?H * ?H + ?H * ?H)" by (simp only: distrib_left distrib_right add.assoc)
  have z: "(z + z) * ?H = (z + ?H) * (z + ?H) - z * z - ?H * ?H" by (simp only: distrib_left distrib_right) (simp add: algebra_simps)
  have "jac_rep X Y z (x1, y1)" using assms(1) by (simp add: p triple_rep_def)
  from jac_madd [OF this assms(2)] show ?thesis
    unfolding point_add_mixed_def ring_ops_def p triple_rep_def by (simp only: prod.case field_ops.simps Let_def i z mult_ac)
qed

section \<open>Sums stay on the curve\<close>

lemma chord_on_curve:
  fixes x1 y1 x2 y2 l d a b :: "'a::comm_ring_1"
  assumes "weierstrass a b (x1, y1)" "weierstrass a b (x2, y2)" and l: "l * (x2 - x1) = y2 - y1" and d: "(x2 - x1) * d = 1"
  shows "weierstrass a b (line_sum l (x1, y1) x2)"
proof -
  define D where "D = x2 - x1"
  have x2: "x2 = x1 + D" and y2: "y2 = y1 + l * D" using l by (simp_all add: D_def algebra_simps)
  have 1: "y1 * y1 = x1 * x1 * x1 + a * x1 + b" using assms(1) by (simp add: weierstrass_def)
  have "y2 * y2 = x2 * x2 * x2 + a * x2 + b" using assms(2) by (simp add: weierstrass_def)
  then have "D * (2 * l * y1 + l * l * D) = D * (3 * x1 * x1 + 3 * x1 * D + D * D + a)"
    using 1 unfolding x2 y2 by (simp add: algebra_simps)
  then have "d * (D * (2 * l * y1 + l * l * D)) = d * (D * (3 * x1 * x1 + 3 * x1 * D + D * D + a))" by simp
  then have "(D * d) * (2 * l * y1 + l * l * D) = (D * d) * (3 * x1 * x1 + 3 * x1 * D + D * D + a)" by (simp only: mult_ac)
  then have e: "2 * l * y1 = 3 * x1 * x1 + 3 * x1 * D + D * D + a - l * l * D"
    using d by (simp add: D_def [symmetric]) (simp add: algebra_simps)
  define x3 where "x3 = l * l - x1 - x2"
  define t where "t = x1 - x3"
  have lt: "l * l = t + t + x3 + x3 + x3 + D" by (simp add: t_def x3_def x2 algebra_simps)
  have "(l * t - y1) * (l * t - y1) = t * (l * l * t) - t * (2 * l * y1) + y1 * y1" by (simp add: algebra_simps)
  also have "\<dots> = x3 * x3 * x3 + a * x3 + b" unfolding e 1 lt by (simp add: t_def algebra_simps)
  finally show ?thesis
    by (simp only: weierstrass_def line_sum_def Let_def prod.case x3_def [symmetric] t_def [symmetric])
qed

lemma tangent_on_curve:
  fixes x y l a b :: "'a::comm_ring_1"
  assumes "weierstrass a b (x, y)" and l: "l * (2 * y) = 3 * (x * x) + a"
  shows "weierstrass a b (line_sum l (x, y) x)"
proof -
  define x3 where "x3 = l * l - x - x"
  define t where "t = x - x3"
  have 1: "y * y = x * x * x + a * x + b" using assms(1) by (simp add: weierstrass_def)
  have lt: "l * l = t + t + x3 + x3 + x3" by (simp add: t_def x3_def algebra_simps)
  have "(l * t - y) * (l * t - y) = t * (l * l * t) - t * (l * (2 * y)) + y * y" by (simp add: algebra_simps)
  also have "\<dots> = x3 * x3 * x3 + a * x3 + b" unfolding l 1 lt by (simp add: t_def algebra_simps)
  finally show ?thesis
    by (simp only: weierstrass_def line_sum_def Let_def prod.case x3_def [symmetric] t_def [symmetric])
qed

section \<open>Runs on elements and on residues\<close>

text \<open>A triple of one interpretation stands for a triple of another when its components do.\<close>

definition rel_triple :: "('e \<Rightarrow> 'v \<Rightarrow> bool) \<Rightarrow> 'e \<times> 'e \<times> 'e \<Rightarrow> 'v \<times> 'v \<times> 'v \<Rightarrow> bool" where
  "rel_triple R p q = (case (p, q) of ((x, y, z), (x', y', z')) \<Rightarrow> R x x' \<and> R y y' \<and> R z z')"

definition rel_cross :: "('e \<Rightarrow> 'v \<Rightarrow> bool) \<Rightarrow> 'e \<times> 'e \<times> 'e \<times> 'e \<Rightarrow> 'v \<times> 'v \<times> 'v \<times> 'v \<Rightarrow> bool" where
  "rel_cross R p q = (case (p, q) of ((u1, c1), (u2, c2)) \<Rightarrow> R u1 u2 \<and> rel_triple R c1 c2)"

locale field_rel =
  fixes F :: "'e field_ops" and G :: "'v field_ops" and R :: "'e \<Rightarrow> 'v \<Rightarrow> bool"
  assumes r_add: "R x x' \<Longrightarrow> R y y' \<Longrightarrow> R (f_add F x y) (f_add G x' y')"
    and r_sub: "R x x' \<Longrightarrow> R y y' \<Longrightarrow> R (f_sub F x y) (f_sub G x' y')"
    and r_mul: "R x x' \<Longrightarrow> R y y' \<Longrightarrow> R (f_mul F x y) (f_mul G x' y')"
    and r_square: "R x x' \<Longrightarrow> R (f_square F x) (f_square G x')"
    and r_scalar: "R x x' \<Longrightarrow> k \<le> 8 \<Longrightarrow> R (f_scalar F x k) (f_scalar G x' k)"
    and r_a: "R (f_a F) (f_a G)"
begin

lemmas respects = r_add r_sub r_mul r_square r_scalar r_a

lemma double_rel: "rel_triple R p q \<Longrightarrow> rel_triple R (point_double F p) (point_double G q)"
  by (cases p; cases q) (simp add: rel_triple_def point_double_def Let_def respects)

lemma mixed_rel: "rel_triple R p q \<Longrightarrow> R x x' \<Longrightarrow> R y y' \<Longrightarrow> rel_triple R (point_add_mixed F p x y) (point_add_mixed G q x' y')"
  by (cases p; cases q) (simp add: rel_triple_def point_add_mixed_def Let_def respects)

lemma cross_rel: "rel_triple R p p' \<Longrightarrow> rel_triple R q q' \<Longrightarrow> rel_cross R (point_cross F p q) (point_cross G p' q')"
  by (cases p; cases q; cases p'; cases q') (simp add: rel_cross_def rel_triple_def point_cross_def Let_def respects)

lemma chord_rel: "rel_cross R c c' \<Longrightarrow> R z1 z1' \<Longrightarrow> R z2 z2' \<Longrightarrow> rel_triple R (point_chord F c z1 z2) (point_chord G c' z1' z2')"
  by (cases c; cases c') (simp add: rel_cross_def rel_triple_def point_chord_def Let_def respects)

end

text \<open>The run that stops at a product whose reduction loses a borrow.\<close>

definition checked :: "bool \<Rightarrow> 'a \<Rightarrow> 'a option" where
  "checked b x = (if b then Some x else None)"

definition checked_mul :: "fe option \<Rightarrow> fe option \<Rightarrow> fe option" where
  "checked_mul a b = do { x \<leftarrow> a; y \<leftarrow> b; checked (exact_mul x y) (sm2P256Mul x y) }"

definition checked_ops :: "fe option field_ops" where
  "checked_ops = \<lparr>f_add = (\<lambda>a b. do { x \<leftarrow> a; y \<leftarrow> b; Some (sm2P256Add x y) }),
     f_sub = (\<lambda>a b. do { x \<leftarrow> a; y \<leftarrow> b; Some (sm2P256Sub x y) }),
     f_mul = checked_mul, f_square = (\<lambda>a. checked_mul a a),
     f_scalar = (\<lambda>a k. checked_mul a (Some (sm2P256Factor ! k))), f_a = Some sm2_a\<rparr>"

definition start :: "fe \<Rightarrow> fe option" where
  "start x = checked (fe_ok x) x"

definition start_point :: "point \<Rightarrow> fe option \<times> fe option \<times> fe option" where
  "start_point p = (case p of (x, y, z) \<Rightarrow> (start x, start y, start z))"

definition point_val :: "point \<Rightarrow> fq \<times> fq \<times> fq" where
  "point_val p = (case p of (x, y, z) \<Rightarrow> (fe_val x, fe_val y, fe_val z))"

abbreviation fq_ops :: "fq field_ops" where
  "fq_ops \<equiv> ring_ops (to_fq sm2_A)"

text \<open>The checked run against the run of the code, and against the formula on the residues.\<close>

definition same_run :: "'a option \<Rightarrow> 'a \<Rightarrow> bool" where
  "same_run c x = (c = None \<or> c = Some x)"

definition has_val :: "fe option \<Rightarrow> fq \<Rightarrow> bool" where
  "has_val c v = (\<forall>x\<in>set_option c. fe_ok x \<and> fe_val x = v)"

interpretation code_run: field_rel checked_ops sm2_ops same_run
  by unfold_locales (auto simp: checked_ops_def sm2_ops_def same_run_def checked_mul_def checked_def sm2P256Square_eq sm2P256Scalar_def split: bind_splits)

interpretation val_run: field_rel checked_ops fq_ops has_val
  by unfold_locales
    (auto simp: checked_ops_def ring_ops_def has_val_def checked_mul_def checked_def fe_val_add fe_val_sub fe_val_mul fe_ok_factor
        sm2_a_def FromBig_ok fe_val_FromBig split: bind_splits if_splits)

lemma same_run_start [simp]: "same_run (start x) x"
  by (simp add: same_run_def start_def checked_def)

lemma has_val_start [simp]: "has_val (start x) (fe_val x)"
  by (simp add: has_val_def start_def checked_def)

lemma start_point_rel: "rel_triple same_run (start_point p) p" "rel_triple has_val (start_point p) (point_val p)"
  by (cases p; simp add: rel_triple_def start_point_def point_val_def)+

section \<open>Addition with its special cases\<close>

text \<open>The branches of \<open>sm2P256PointAdd\<close> on residues.\<close>

definition fq_point_add :: "fq \<times> fq \<times> fq \<Rightarrow> fq \<times> fq \<times> fq \<Rightarrow> fq \<times> fq \<times> fq" where
  "fq_point_add p q =
     (if snd (snd p) = 0 then q
      else if snd (snd q) = 0 then p
      else case point_cross fq_ops p q of (u1, u2, s1, s2) \<Rightarrow>
        let p' = (if u1 = u2 \<and> s1 = s2 then point_double fq_ops p else p)
        in point_chord fq_ops (u1, u2, s1, s2) (snd (snd p')) (snd (snd q)))"

definition checked_point_add :: "point \<Rightarrow> point \<Rightarrow> fe option \<times> fe option \<times> fe option" where
  "checked_point_add p q =
     (if sm2P256ToBig (snd (snd p)) = 0 then start_point q
      else if sm2P256ToBig (snd (snd q)) = 0 then start_point p
      else case point_cross checked_ops (start_point p) (start_point q) of
        (Some u1, Some u2, Some s1, Some s2) \<Rightarrow>
          let p' = (if sm2P256ToBig u1 = sm2P256ToBig u2 \<and> sm2P256ToBig s1 = sm2P256ToBig s2
                    then point_double checked_ops (start_point p) else start_point p)
          in point_chord checked_ops (Some u1, Some u2, Some s1, Some s2) (snd (snd p')) (snd (snd (start_point q)))
      | _ \<Rightarrow> (None, None, None))"

lemma rel_triple_z: "rel_triple R p q \<Longrightarrow> R (snd (snd p)) (snd (snd q))"
  by (cases p; cases q) (simp add: rel_triple_def)

lemma rel_none: "rel_triple same_run (None, None, None) p" "rel_triple has_val (None, None, None) v"
  by (cases p; cases v; simp add: rel_triple_def same_run_def has_val_def)+

lemma checked_point_add_rel:
  "rel_triple same_run (checked_point_add p q) (fst (sm2P256PointAdd p q))
   \<and> rel_triple has_val (checked_point_add p q) (fq_point_add (point_val p) (point_val q))"
proof -
  have z: "snd (snd (point_val r)) = fe_val (snd (snd r))" for r by (cases r) (simp add: point_val_def)
  consider (1) "sm2P256ToBig (snd (snd p)) = 0"
    | (2) "sm2P256ToBig (snd (snd p)) \<noteq> 0" "sm2P256ToBig (snd (snd q)) = 0"
    | (3) "sm2P256ToBig (snd (snd p)) \<noteq> 0" "sm2P256ToBig (snd (snd q)) \<noteq> 0" by blast
  then show ?thesis
  proof cases
    case 3
    obtain c1 c2 d1 d2 where c: "point_cross checked_ops (start_point p) (start_point q) = (c1, c2, d1, d2)" by (cases "point_cross checked_ops (start_point p) (start_point q)")
    show ?thesis
    proof (cases "c1 = None \<or> c2 = None \<or> d1 = None \<or> d2 = None")
      case True
      then have "checked_point_add p q = (None, None, None)"
        using 3 by (auto simp: checked_point_add_def c split: option.splits)
      then show ?thesis by (simp add: rel_none)
    next
      case False
      then obtain u1 u2 s1 s2 where s: "c1 = Some u1" "c2 = Some u2" "d1 = Some s1" "d2 = Some s2" by auto
      have code: "point_cross sm2_ops p q = (u1, u2, s1, s2)"
        using code_run.cross_rel [OF start_point_rel(1) start_point_rel(1), of p q] unfolding c s
        by (cases "point_cross sm2_ops p q") (simp add: rel_cross_def rel_triple_def same_run_def)
      have val: "point_cross fq_ops (point_val p) (point_val q) = (fe_val u1, fe_val u2, fe_val s1, fe_val s2)"
        using val_run.cross_rel [OF start_point_rel(2) start_point_rel(2), of p q] unfolding c s
        by (cases "point_cross fq_ops (point_val p) (point_val q)") (simp add: rel_cross_def rel_triple_def has_val_def)
      have rc: "rel_cross same_run (Some u1, Some u2, Some s1, Some s2) (u1, u2, s1, s2)"
        by (simp add: rel_cross_def rel_triple_def same_run_def)
      have rv: "rel_cross has_val (Some u1, Some u2, Some s1, Some s2) (fe_val u1, fe_val u2, fe_val s1, fe_val s2)"
        using val_run.cross_rel [OF start_point_rel(2) start_point_rel(2), of p q] unfolding c s val .
      let ?e = "sm2P256ToBig u1 = sm2P256ToBig u2 \<and> sm2P256ToBig s1 = sm2P256ToBig s2"
      let ?p = "if ?e then point_double checked_ops (start_point p) else start_point p"
      have pc: "rel_triple same_run ?p (if ?e then sm2P256PointDouble p else p)"
        using code_run.double_rel [OF start_point_rel(1), of p] start_point_rel(1) [of p] by (simp add: sm2P256PointDouble_def)
      have pv: "rel_triple has_val ?p (if ?e then point_double fq_ops (point_val p) else point_val p)"
        using val_run.double_rel [OF start_point_rel(2), of p] start_point_rel(2) [of p] by simp
      have k: "checked_point_add p q = point_chord checked_ops (Some u1, Some u2, Some s1, Some s2) (snd (snd ?p)) (snd (snd (start_point q)))"
        using 3 unfolding checked_point_add_def c s Let_def by simp
      have kc: "fst (sm2P256PointAdd p q) = point_chord sm2_ops (u1, u2, s1, s2) (snd (snd (if ?e then sm2P256PointDouble p else p))) (snd (snd q))"
        using 3 unfolding sm2P256PointAdd_def code Let_def by simp
      have kv: "fq_point_add (point_val p) (point_val q) = point_chord fq_ops (fe_val u1, fe_val u2, fe_val s1, fe_val s2)
          (snd (snd (if ?e then point_double fq_ops (point_val p) else point_val p))) (snd (snd (point_val q)))"
        using 3 unfolding fq_point_add_def val Let_def z ToBig_eq_0_iff ToBig_eq_iff by simp
      show ?thesis unfolding k kc kv
        by (rule conjI code_run.chord_rel val_run.chord_rel rc rv rel_triple_z [OF pc] rel_triple_z [OF pv]
            rel_triple_z [OF start_point_rel(1)] rel_triple_z [OF start_point_rel(2)])+
    qed
  qed (use z start_point_rel in \<open>simp_all add: checked_point_add_def sm2P256PointAdd_def fq_point_add_def ToBig_eq_0_iff\<close>)
qed

text \<open>Two equal points have no difference of cross products: the sum is the point at infinity.\<close>

lemma add_equal_infinity: "snd (snd (fq_point_add p p)) = 0"
  by (cases p) (simp add: fq_point_add_def point_cross_def point_chord_def ring_ops_def Let_def)

section \<open>What the routines compute\<close>

text \<open>
  C37: The formulas of \<open>sm2P256PointDouble\<close>, \<open>sm2P256PointAdd\<close> and \<open>sm2P256PointAddMixed\<close>, over any commutative ring,
  are the tangent and chord constructions: on Jacobian representations of two points of y^2 = x^3 + a x + b they
  give a representation of the third point of the line, reflected, and that point is on the curve.
\<close>

theorem sm2_point_formulas:
  fixes a b :: "'a::comm_ring_1"
  assumes "triple_rep p (x1, y1)" "triple_rep q (x2, y2)" "weierstrass a b (x1, y1)" "weierstrass a b (x2, y2)"
    and "l * (2 * y1) = 3 * (x1 * x1) + a" "m * (x2 - x1) = y2 - y1" "(x2 - x1) * d = 1"
  shows "triple_rep (point_double (ring_ops a) p) (line_sum l (x1, y1) x1) \<and> weierstrass a b (line_sum l (x1, y1) x1)
    \<and> triple_rep (point_chord (ring_ops a) (point_cross (ring_ops a) p q) (snd (snd p)) (snd (snd q))) (line_sum m (x1, y1) x2)
    \<and> triple_rep (point_add_mixed (ring_ops a) p x2 y2) (line_sum m (x1, y1) x2) \<and> weierstrass a b (line_sum m (x1, y1) x2)"
  by (intro conjI double_tangent add_chord_line [OF _ _ assms(6)] mixed_chord_line [OF _ assms(6)] tangent_on_curve
      chord_on_curve [OF _ _ assms(6,7)] assms)

theorem sm2_point_formulas_witness:
  "triple_rep (point_double (ring_ops 2) (0, 8, 2 :: int)) (line_sum 1 (0, 1) 0)
   \<and> triple_rep (point_add_mixed (ring_ops 2) (0, 8, 2) 1 2) (line_sum 1 (0, 1) (1 :: int))"
  using sm2_point_formulas [of "(0, 8, 2 :: int)" 0 1 "(9, 54, 3)" 1 2 2 1 1 1 1]
  by (simp add: triple_rep_def jac_rep_def weierstrass_def)

text \<open>The negation of \<open>sm2P256PointSub\<close>.\<close>

definition negated :: "point \<Rightarrow> point" where
  "negated q = (case q of (x, y, z) \<Rightarrow> (x, sm2P256FromBig (0 - sm2P256ToBig y), z))"

definition opposite :: "fq \<times> fq \<times> fq \<Rightarrow> fq \<times> fq \<times> fq" where
  "opposite q = (case q of (x, y, z) \<Rightarrow> (x, - y, z))"

lemma point_val_negated: "point_val (negated q) = opposite (point_val q)"
proof -
  have "fe_val (sm2P256FromBig (0 - sm2P256ToBig y)) = - fe_val y" for y
    unfolding fe_val_FromBig to_fq_diff by (simp add: fe_val_def)
  then show ?thesis by (cases q) (simp add: negated_def opposite_def point_val_def)
qed

lemma PointSub_negated: "fst (sm2P256PointSub p q) = fst (sm2P256PointAdd p (negated q))"
  by (cases q) (simp add: sm2P256PointSub_def negated_def Let_def case_prod_beta)

text \<open>
  C38: The point routines of sm2.go implement the formulas on residues: the run that stops at the first product whose
  reduction loses a borrow either stops or ends with the limbs the routine returns, and these stand for what
  the formula, with its special cases, gives on the residues of the arguments; subtraction adds the opposite.
\<close>

theorem sm2_point_runs:
  "rel_triple same_run (point_double checked_ops (start_point p)) (sm2P256PointDouble p)
   \<and> rel_triple has_val (point_double checked_ops (start_point p)) (point_double fq_ops (point_val p))
   \<and> rel_triple same_run (point_add_mixed checked_ops (start_point p) (start x) (start y)) (sm2P256PointAddMixed p x y)
   \<and> rel_triple has_val (point_add_mixed checked_ops (start_point p) (start x) (start y)) (point_add_mixed fq_ops (point_val p) (fe_val x) (fe_val y))
   \<and> rel_triple same_run (checked_point_add p q) (fst (sm2P256PointAdd p q))
   \<and> rel_triple has_val (checked_point_add p q) (fq_point_add (point_val p) (point_val q))
   \<and> rel_triple same_run (checked_point_add p (negated q)) (fst (sm2P256PointSub p q))
   \<and> rel_triple has_val (checked_point_add p (negated q)) (fq_point_add (point_val p) (opposite (point_val q)))"
  using code_run.double_rel [OF start_point_rel(1)] val_run.double_rel [OF start_point_rel(2)]
    code_run.mixed_rel [OF start_point_rel(1) same_run_start same_run_start]
    val_run.mixed_rel [OF start_point_rel(2) has_val_start has_val_start]
    checked_point_add_rel [of p q] checked_point_add_rel [of p "negated q"]
  by (simp add: sm2P256PointDouble_def sm2P256PointAddMixed_def PointSub_negated point_val_negated)

section \<open>The sum of a point and itself\<close>

lemma mul_zero_columns: "map (mul_column X fe_zero) [0..<17] = replicate 17 0"
proof (rule nth_equalityI)
  fix k
  assume "k < length (map (mul_column X fe_zero) [0..<17])"
  then have "map (\<lambda>i. ucast (X ! i) * push_bit (if odd i \<and> odd (k - i) then 1 else 0) (ucast (fe_zero ! (k - i))) :: u64) [k - 8..<Suc (min k 8)]
      = map (\<lambda>_. 0) [k - 8..<Suc (min k 8)]"
    by (intro map_cong refl) (auto simp: fe_zero_def simp del: upt_Suc)
  then have "mul_column X fe_zero k = sum_list (map (\<lambda>_. 0) [k - 8..<Suc (min k 8)])" unfolding mul_column_def by (rule arg_cong)
  also have "\<dots> = 0" by (simp only: map_replicate_const sum_list_replicate) simp
  finally show "map (mul_column X fe_zero) [0..<17] ! k = replicate 17 0 ! k"
    using \<open>k < length _\<close> by (simp add: nth_append del: upt_Suc)
qed simp

lemma mul_zero: "sm2P256Mul X fe_zero = fe_zero"
proof -
  have "sm2P256ReduceDegree (replicate 17 0) = fe_zero" by code_simp
  then show ?thesis unfolding sm2P256Mul_def mul_zero_columns .
qed

lemma FromBig_0: "sm2P256FromBig 0 = fe_zero"
  by code_simp

lemma ToAffine_infinity: "sm2P256ToBig z = 0 \<Longrightarrow> sm2P256ToAffine (x, y, z) = (0, 0)"
proof -
  assume z: "sm2P256ToBig z = 0"
  have "big_ModInverse 0 sm2_P = None" by (simp add: big_ModInverse_def sm2_P_def)
  moreover have "sm2P256ToBig fe_zero = 0" by (simp add: sm2P256ToBig_def fe_zero_def upt_rec)
  ultimately show ?thesis
    using z by (simp add: sm2P256ToAffine_def sm2P256PointToAffine_def Let_def FromBig_0 sm2P256Square_eq mul_zero)
qed

definition affine_point :: "int \<Rightarrow> int \<Rightarrow> point" where
  "affine_point x y = (sm2P256FromBig x, sm2P256FromBig y, sm2P256FromBig (zForAffine x y))"

text \<open>
  C39: \<open>Add\<close> does not double: the sum of a point and itself is the point at infinity, returned as (0, 0), unless a
  product of the run loses a borrow. The routine doubles its argument in place and goes on with the chord of
  two equal points; and a point whose \<open>z\<close> is 0 modulo the prime has the affine coordinates (0, 0).
\<close>

theorem sm2_add_equal_points:
  "(snd (snd (checked_point_add (affine_point x y) (affine_point x y))) = None \<or> sm2Curve_Add x y x y = (0, 0))
   \<and> snd (snd (fq_point_add u u)) = 0 \<and> sm2P256ToAffine (X, Y, sm2P256FromBig 0) = (0, 0)"
proof (intro conjI)
  let ?P = "affine_point x y" and ?z = "snd (snd (checked_point_add (affine_point x y) (affine_point x y)))"
  have r: "same_run ?z (snd (snd (fst (sm2P256PointAdd ?P ?P))))" "has_val ?z 0"
    using checked_point_add_rel [of ?P ?P] rel_triple_z add_equal_infinity [of "point_val ?P"] by metis+
  show "?z = None \<or> sm2Curve_Add x y x y = (0, 0)"
  proof (cases ?z)
    case (Some z)
    then have "snd (snd (fst (sm2P256PointAdd ?P ?P))) = z" "sm2P256ToBig z = 0"
      using r by (simp_all add: same_run_def has_val_def ToBig_eq_0_iff)
    then have "sm2P256ToAffine (fst (sm2P256PointAdd ?P ?P)) = (0, 0)"
      using ToAffine_infinity by (cases "fst (sm2P256PointAdd ?P ?P)") simp
    then show ?thesis by (simp add: sm2Curve_Add_def affine_point_def Let_def)
  qed simp
qed (simp_all add: add_equal_infinity ToAffine_infinity ToBig_FromBig)

end
