(* ===== verification/Sm2_Scalar.thy ===== *)
theory Sm2_Scalar
  imports Sm2_Law
begin

unbundle bit_operations_syntax

text \<open>
  The scalar multiplications of sm2.go: the signed windows of \<open>sm2GenrateWNaf\<close> have the value of the scalar, and
  the two loops add up multiples of their point with the weight of the scalar.
\<close>

section \<open>Signed windows\<close>

fun naf_val :: "int8 list \<Rightarrow> int" where
  "naf_val [] = 0"
| "naf_val (d # ds) = sint d + 2 * naf_val ds"

lemma naf_val_append: "naf_val (xs @ ys) = naf_val xs + 2 ^ length xs * naf_val ys"
  by (induction xs) (simp_all add: algebra_simps)

lemma naf_val_zeros: "list_all (\<lambda>d. d = 0) xs \<Longrightarrow> naf_val xs = 0"
  by (induction xs) simp_all

lemma naf_val_update:
  assumes "i < length ds" "ds ! i = 0"
  shows "naf_val (ds[i := d]) = naf_val ds + 2 ^ i * sint d"
proof -
  have "naf_val (take i ds @ d # drop (Suc i) ds) = naf_val (take i ds @ ds ! i # drop (Suc i) ds) + 2 ^ i * sint d"
    using assms by (simp add: naf_val_append algebra_simps)
  then show ?thesis using assms(1) by (simp add: upd_conv_take_nth_drop id_take_nth_drop [symmetric])
qed

definition naf_digit :: "int8 \<Rightarrow> bool" where
  "naf_digit d = (d = 0 \<or> odd (sint d) \<and> \<bar>sint d\<bar> \<le> 7)"

text \<open>Among four consecutive digits at most one is not 0.\<close>

definition spaced :: "int8 list \<Rightarrow> bool" where
  "spaced w \<longleftrightarrow> list_all (\<lambda>j. list_all (\<lambda>i. w ! i = 0 \<or> w ! j = 0 \<or> i + 4 \<le> j) [0..<j]) [0..<length w]"

text \<open>One window: an odd number splits into a digit and sixteen times the rest.\<close>

lemma and_low_bits: "x AND 15 = x mod 16" "0 \<le> x \<Longrightarrow> x < 16 \<Longrightarrow> x AND 8 \<noteq> 0 \<longleftrightarrow> 8 \<le> x" for x :: int
proof -
  have "x AND mask 4 = x mod 2 ^ 4" by (simp only: take_bit_eq_mask [symmetric] take_bit_eq_mod)
  then show "x AND 15 = x mod 16" by (simp add: mask_eq_exp_minus_1)
  assume "0 \<le> x" "x < 16"
  then have "x \<in> {0, 1, 2, 3, 4, 5, 6, 7, 8, 9, 10, 11, 12, 13, 14, 15}" unfolding insert_iff empty_iff by presburger
  then show "x AND 8 \<noteq> 0 \<longleftrightarrow> 8 \<le> x" by (elim insertE emptyE) simp_all
qed

lemma wnaf_digit_split:
  assumes "odd (int k + of_bool c)" "wnaf_digit k c = (d, c')"
  shows "int k + of_bool c = 16 * (int k div 16 + of_bool c') + d" "odd d" "\<bar>d\<bar> \<le> 7" "c' \<longleftrightarrow> 8 \<le> int k mod 16 + of_bool c"
    "c' \<longrightarrow> 4 \<le> nat_bitlen k"
proof -
  define e where "e = int k mod 16 + of_bool c"
  have k: "int k + of_bool c = 16 * (int k div 16) + e" by (simp add: e_def)
  then have odd: "odd e" using assms(1) by (metis dvd_add_right_iff even_mult_iff even_numeral)
  have "0 \<le> e" "e \<le> 16" by (simp_all add: e_def) (smt (verit) pos_mod_bound of_bool_less_eq_one)
  then have e: "0 \<le> e" "e < 16" using odd by (auto simp: less_le)
  have "(if c then (int k AND 15) + 1 else int k AND 15) = e" unfolding and_low_bits(1) by (simp add: e_def)
  then have "wnaf_digit k c = (if 8 \<le> e then e - 16 else e, 8 \<le> e)"
    unfolding wnaf_digit_def Let_def and_low_bits(2) [OF e, symmetric] by simp
  then have d: "d = (if 8 \<le> e then e - 16 else e)" "c' = (8 \<le> e)" using assms(2) by simp_all
  show "int k + of_bool c = 16 * (int k div 16 + of_bool c') + d" using k d by (simp split: if_splits)
  show "odd d" using odd d(1) by (simp split: if_splits)
  show "\<bar>d\<bar> \<le> 7" using e odd d(1) by (auto split: if_splits) (presburger+)?
  show "c' \<longleftrightarrow> 8 \<le> int k mod 16 + of_bool c" using d(2) by (simp add: e_def)
  show "c' \<longrightarrow> 4 \<le> nat_bitlen k"
  proof
    assume "c'"
    then have "8 \<le> e" using d(2) by simp
    moreover have "e \<noteq> 8" using odd by auto
    ultimately have "8 \<le> int k mod 16" by (cases c) (simp_all add: e_def)
    moreover have "int k mod 16 \<le> int k" by (simp add: zmod_le_nonneg_dividend)
    ultimately have "8 \<le> k" by simp
    moreover have "k < 2 ^ nat_bitlen k" by (rule nat_bitlen_bound)
    ultimately have "(2 :: nat) ^ 3 < 2 ^ nat_bitlen k" by simp
    then have "3 < nat_bitlen k" by (subst (asm) power_strict_increasing_iff) simp_all
    then show "4 \<le> nat_bitlen k" by simp
  qed
qed

definition wnaf_inv :: "nat \<Rightarrow> nat \<Rightarrow> nat \<Rightarrow> bool \<Rightarrow> nat \<Rightarrow> int8 list \<Rightarrow> bool" where
  "wnaf_inv K k pos carry len w \<longleftrightarrow>
     int K = naf_val w + 2 ^ (len + pos) * (int k div 2 ^ pos + of_bool carry)
     \<and> len + nat_bitlen k < length w \<and> (carry \<longrightarrow> pos \<le> nat_bitlen k) \<and> (pos < 4 \<longrightarrow> len = 0 \<and> w ! 0 = 0)
     \<and> (\<forall>i<length w. len < i \<longrightarrow> w ! i = 0) \<and> list_all naf_digit w \<and> spaced w"

lemma int_shift: "int k div 2 ^ pos = 2 * (int k div 2 ^ Suc pos) + of_bool (bit k pos)"
proof -
  have "k div 2 ^ pos = 2 * (k div 2 ^ Suc pos) + of_bool (bit k pos)"
    using div_mult2_eq [of k "2 ^ pos" 2] by (simp add: bit_iff_odd of_bool_odd_eq_mod_2 mult.commute)
  then have "int (k div 2 ^ pos) = 2 * int (k div 2 ^ Suc pos) + of_bool (bit k pos)" by (metis of_nat_add of_nat_mult of_nat_numeral of_nat_of_bool)
  then show ?thesis unfolding zdiv_int of_nat_power by simp
qed

lemma wnaf_loop_val:
  "wnaf_inv K k pos carry len w \<Longrightarrow>
   \<exists>len' w'. wnaf_loop k pos carry len w = Some (len', w') \<and> length w' = length w \<and> len' < length w' \<and> naf_val w' = int K
     \<and> (\<forall>i<length w'. len' < i \<longrightarrow> w' ! i = 0) \<and> list_all naf_digit w' \<and> spaced w'"
proof (induction k pos carry len w rule: wnaf_loop.induct)
  case (1 k pos carry len w)
  have inv: "int K = naf_val w + 2 ^ (len + pos) * (int k div 2 ^ pos + of_bool carry)"
    "len + nat_bitlen k < length w" "carry \<longrightarrow> pos \<le> nat_bitlen k" "pos < 4 \<longrightarrow> len = 0 \<and> w ! 0 = 0"
    "\<forall>i<length w. len < i \<longrightarrow> w ! i = 0" "list_all naf_digit w" "spaced w"
    using 1(3) by (simp_all add: wnaf_inv_def)
  consider (stop) "nat_bitlen k < pos" | (skip) "pos \<le> nat_bitlen k" "of_bool (bit k pos) = boolToUint carry"
    | (digit) "pos \<le> nat_bitlen k" "of_bool (bit k pos) \<noteq> boolToUint carry" by force
  then show ?case
  proof cases
    case stop
    have "k < 2 ^ pos" using nat_bitlen_bound [of k] stop by (meson less_le_trans less_imp_le power_increasing one_le_numeral)
    then have "int (k div 2 ^ pos) = 0" by simp
    then have "int k div 2 ^ pos = 0" unfolding zdiv_int by simp
    then show ?thesis using stop inv by (simp add: wnaf_loop.simps [of k])
  next
    case skip
    have c: "bit k pos = carry" using skip(2) by (cases "bit k pos"; cases carry) (simp_all add: boolToUint_def)
    have "int k div 2 ^ pos + of_bool carry = 2 * (int k div 2 ^ Suc pos + of_bool carry)"
      using int_shift [of k pos] c by (cases carry) simp_all
    then have "int K = naf_val w + 2 ^ (len + Suc pos) * (int k div 2 ^ Suc pos + of_bool carry)" using inv(1) by simp
    moreover have "carry \<longrightarrow> Suc pos \<le> nat_bitlen k"
    proof
      assume "carry"
      then have "bit k pos" using c by simp
      then have "k div 2 ^ pos \<noteq> 0" unfolding bit_iff_odd by (intro notI) simp
      then have "2 ^ pos \<le> k" using div_less [of k "2 ^ pos"] by (intro leI notI) simp
      then have "(2 :: nat) ^ pos < 2 ^ nat_bitlen k" using nat_bitlen_bound [of k] by linarith
      then show "Suc pos \<le> nat_bitlen k" by (simp add: Suc_le_eq)
    qed
    ultimately have "wnaf_inv K k (Suc pos) carry len w" using inv by (simp add: wnaf_inv_def)
    from 1(1) [OF skip this] show ?thesis using skip by (simp add: wnaf_loop.simps [of k])
  next
    case digit
    define k' where "k' = drop_bit pos k"
    obtain d c' where dc: "wnaf_digit k' carry = (d, c')" by fastforce
    have k': "int k' = int k div 2 ^ pos" by (simp add: k'_def drop_bit_eq_div zdiv_int)
    have odd: "odd (int k' + of_bool carry)"
    proof -
      have "bit k pos \<noteq> carry" using digit(2) by (cases "bit k pos"; cases carry) (simp_all add: boolToUint_def)
      then show ?thesis by (cases carry) (simp_all add: k'_def bit_iff_odd_drop_bit)
    qed
    note s = wnaf_digit_split [OF odd dc]
    have len: "len + pos < length w" using inv(2) digit(1) by simp
    have z: "w ! (len + pos) = 0" using inv(4,5) len by (cases pos) auto
    have si: "sint (word_of_int d :: int8) = d"
      using s(3) by (simp add: signed_of_int signed_take_bit_int_eq_self)
    have "int K = naf_val w + 2 ^ (len + pos) * (16 * (int k' div 16 + of_bool c') + d)"
      using inv(1) s(1) by (simp add: k')
    also have "\<dots> = naf_val (w[len + pos := word_of_int d]) + 2 ^ (len + pos + 4) * (int k' div 2 ^ 4 + of_bool c')"
      unfolding naf_val_update [OF len z] si by (simp add: algebra_simps power_add)
    finally have "int K = naf_val (w[len + pos := word_of_int d]) + 2 ^ (len + pos + 4) * (int k' div 2 ^ 4 + of_bool c')" .
    moreover have "naf_digit (word_of_int d)" using s(2,3) by (simp add: naf_digit_def si)
    then have "list_all naf_digit (w[len + pos := word_of_int d])"
      using inv(6) by (auto simp: list_all_iff dest: set_update_subset_insert [THEN subsetD])
    moreover have "spaced (w[len + pos := word_of_int d])"
    proof -
      have "(w[len + pos := word_of_int d]) ! i = 0 \<or> (w[len + pos := word_of_int d]) ! j = 0 \<or> i + 4 \<le> j" if ij: "i < j" "j < length w" for i j
      proof -
        have z0: "w ! n = 0" if "n < length w" "len < n \<or> pos < 4" for n using inv(4,5) that by (cases n) auto
        have "w ! i = 0 \<or> w ! j = 0 \<or> i + 4 \<le> j" using inv(7) ij by (auto simp: spaced_def list_all_iff)
        moreover have "i = len + pos \<Longrightarrow> w ! j = 0" using z0 [of j] ij by auto
        moreover have "j = len + pos \<Longrightarrow> w ! i = 0 \<or> i + 4 \<le> j" using z0 [of i] ij by (cases "pos < 4") auto
        ultimately show ?thesis using ij by (cases "i = len + pos"; cases "j = len + pos") auto
      qed
      then show ?thesis by (simp add: spaced_def list_all_iff)
    qed
    ultimately have "wnaf_inv K k' 4 c' (len + pos) (w[len + pos := word_of_int d])"
      using inv(2,5) digit(1) s(5) by (auto simp: wnaf_inv_def k'_def nat_bitlen_drop)
    from 1(2) [OF digit k'_def dc [symmetric] len this] show ?thesis
      using digit len by (simp add: wnaf_loop.simps [of k] k'_def [symmetric] dc Let_def)
  qed
qed

lemma sm2_wnaf_digits:
  "\<exists>w. sm2GenrateWNaf b = Some w \<and> naf_val w = be_int b mod sm2_N \<and> list_all naf_digit w \<and> spaced w \<and> 0 < length w \<and> length w \<le> 257"
proof -
  let ?n = "if sm2_N \<le> be_int b then be_int b mod sm2_N else be_int b"
  define K where "K = nat ?n"
  define w where "w = (replicate (nat_bitlen K + 1) 0 :: int8 list)"
  have n: "?n = be_int b mod sm2_N" "0 \<le> ?n" "?n < sm2_N" using be_int_bounds(1) [of b] by (simp_all add: sm2_N_def)
  then have K: "int K = be_int b mod sm2_N" "int K < 2 ^ 256" by (simp_all add: K_def sm2_N_def)
  have len: "length w \<le> 257"
  proof -
    have "K < 2 ^ 256" using K(2) by (simp add: nat_less_iff)
    then have "nat_bitlen K \<le> 256" using nat_bitlen_le [of K 256] by simp
    then show ?thesis by (simp add: w_def)
  qed
  have z: "list_all (\<lambda>d. d = 0) w" by (simp add: w_def list_all_iff)
  then have zd: "list_all naf_digit w" "spaced w" by (simp_all add: list_all_iff naf_digit_def spaced_def)
  show ?thesis
  proof (cases "K = 0")
    case True
    then have "sm2GenrateWNaf b = Some w"
      unfolding sm2GenrateWNaf_def Let_def K_def [symmetric] w_def [symmetric] by simp
    then show ?thesis using True K(1) zd naf_val_zeros [OF z] len by (simp add: w_def)
  next
    case False
    have "wnaf_inv K K 0 False 0 w" using zd naf_val_zeros [OF z] by (simp add: wnaf_inv_def w_def)
    then obtain l w' where w': "wnaf_loop K 0 False 0 w = Some (l, w')" "length w' = length w" "l < length w'" "naf_val w' = int K"
      "\<forall>i<length w'. l < i \<longrightarrow> w' ! i = 0" "list_all naf_digit w'" "spaced w'"
      using wnaf_loop_val by blast
    let ?t = "if l + 1 < length w' then take (l + 1) w' else w'"
    have s: "sm2GenrateWNaf b = Some ?t"
      using False w'(1) unfolding sm2GenrateWNaf_def Let_def K_def [symmetric] w_def [symmetric] by simp
    have "naf_val ?t = int K"
    proof (cases "l + 1 < length w'")
      case True
      have "list_all (\<lambda>d. d = 0) (drop (l + 1) w')" using w'(5) by (simp add: list_all_length)
      then have "naf_val (take (l + 1) w' @ drop (l + 1) w') = naf_val (take (l + 1) w')"
        unfolding naf_val_append by (simp add: naf_val_zeros)
      then show ?thesis using True w'(4) by simp
    qed (simp add: w'(4))
    moreover have "list_all naf_digit ?t" using w'(6) by (auto simp: list_all_iff dest: in_set_takeD)
    moreover have "spaced ?t" using w'(7) by (auto simp: spaced_def list_all_iff)
    ultimately show ?thesis using s K(1) w'(2,3) len by (auto simp: min_def)
  qed
qed

text \<open>
  C16: \<open>sm2GenrateWNaf\<close> returns for every byte string, never writes beyond its slice, and its digits are 0 or odd and
  at most 7 in absolute value, at most one of four consecutive ones not 0; weighted by the powers of 2 they add up to the scalar modulo the order.
\<close>

theorem sm2_wnaf:
  "\<exists>w. sm2GenrateWNaf b = Some w \<and> naf_val w = be_int b mod sm2_N \<and> list_all naf_digit w \<and> spaced w \<and> 0 < length w \<and> length w \<le> 257"
  by (rule sm2_wnaf_digits)

end
