(* ===== verification/Sm2_Chain.thy ===== *)
theory Sm2_Chain
  imports Sm2_Scalar
begin

unbundle bit_operations_syntax

text \<open>
  The scalar multiplication of a point: the result is built from the point by doublings, negations and
  additions whose weights add up to the scalar, and no step adds points of the same weight modulo the order,
  with one exception.
\<close>

section \<open>Multiples\<close>

text \<open>
  \<open>sm2_multiple x y p n\<close>: \<open>p\<close> is reached from the point (x, y, 1) by the routines of the code with weight \<open>n\<close>, and no
  addition on the way met two points whose weights agree modulo the order.
\<close>

inductive sm2_multiple :: "fe \<Rightarrow> fe \<Rightarrow> point \<Rightarrow> int \<Rightarrow> bool" for x y where
  one: "sm2_multiple x y (x, y, sm2P256Factor ! 1) 1"
| double: "sm2_multiple x y p n \<Longrightarrow> sm2_multiple x y (sm2P256PointDouble p) (2 * n)"
| mixed: "sm2_multiple x y p n \<Longrightarrow> \<not> sm2_N dvd n - 1 \<Longrightarrow> sm2_multiple x y (sm2P256PointAddMixed p x y) (n + 1)"
| add: "sm2_multiple x y p m \<Longrightarrow> sm2_multiple x y q n \<Longrightarrow> \<not> sm2_N dvd m - n \<Longrightarrow> sm2_multiple x y (fst (sm2P256PointAdd p q)) (m + n)"
| negate: "sm2_multiple x y q n \<Longrightarrow> sm2_multiple x y (negated q) (- n)"

section \<open>The shape of points\<close>

definition nine :: "point \<Rightarrow> bool" where
  "nine p = (case p of (x, y, z) \<Rightarrow> length x = 9 \<and> length y = 9 \<and> length z = 9)"

lemma length_ReduceCarry [simp]: "length (sm2P256ReduceCarry a c) = length a"
  by (simp add: sm2P256ReduceCarry_def Let_def)

lemma length_carry_loop: "length (fst (foldl (carry_step f) ([], 0) [0..<n])) = n"
  by (induction n) (simp_all add: carry_step_def case_prod_beta Let_def)

lemma length_collect_loop: "length (fst (foldl (collect_step t) ([], 0) [0..<n])) = n"
  by (induction n) (simp_all add: collect_step_def case_prod_beta Let_def)

lemma length_Add [simp]: "length (sm2P256Add a b) = 9"
  using length_carry_loop [of _ 9] by (simp add: sm2P256Add_def case_prod_beta del: upt_Suc)

lemma length_Sub [simp]: "length (sm2P256Sub a b) = 9"
  using length_carry_loop [of _ 9] by (simp add: sm2P256Sub_def case_prod_beta del: upt_Suc)

lemma length_Mul [simp]: "length (sm2P256Mul a b) = 9"
  using length_collect_loop [of _ 8] by (simp add: sm2P256Mul_def sm2P256ReduceDegree_def case_prod_beta Let_def del: upt_Suc)

lemma nine_double: "nine (sm2P256PointDouble p)"
  by (cases p) (simp add: nine_def sm2P256PointDouble_def point_double_def sm2_ops_def Let_def sm2P256Square_eq)

lemma nine_mixed: "nine (sm2P256PointAddMixed p x y)"
  by (cases p) (simp add: nine_def sm2P256PointAddMixed_def point_add_mixed_def sm2_ops_def Let_def sm2P256Square_eq)

lemma nine_chord: "nine (point_chord sm2_ops c z1 z2)"
  by (cases c) (simp add: nine_def point_chord_def sm2_ops_def Let_def)

lemma nine_add: "nine p \<Longrightarrow> nine q \<Longrightarrow> nine (fst (sm2P256PointAdd p q))"
  by (simp add: sm2P256PointAdd_def nine_chord Let_def split: prod.splits)

lemma nine_negated: "nine p \<Longrightarrow> nine (negated p)"
  using FromBig_ok by (cases p) (simp add: nine_def negated_def fe_ok_def)

lemma nine_multiple: "sm2_multiple x y p n \<Longrightarrow> length x = 9 \<Longrightarrow> length y = 9 \<Longrightarrow> nine p"
proof (induction rule: sm2_multiple.induct)
  case one
  have "length (sm2P256Factor ! 1) = 9" using fe_ok_factor [of 1] by (simp add: fe_ok_def)
  then show ?case using one by (simp add: nine_def)
qed (simp_all add: nine_double nine_mixed nine_add nine_negated PointSub_negated)

section \<open>Selections\<close>

lemma xor_twice: "a XOR (b XOR a) = b" for a b :: u32
  by (rule bit_word_eqI) (auto simp: bit_simps)

lemma copy_point_all: "nine p \<Longrightarrow> nine q \<Longrightarrow> copy_point p q (- 1) = q"
  by (cases p; cases q) (auto simp: nine_def copy_point_def sm2P256CopyConditional_def xor_twice intro!: nth_equalityI simp del: upt_Suc)

lemma copy_point_none: "nine p \<Longrightarrow> copy_point p q 0 = p"
  by (cases p; cases q) (auto simp: nine_def copy_point_def sm2P256CopyConditional_def intro!: nth_equalityI simp del: upt_Suc)

lemma select_mask_eq: "i < 16 \<Longrightarrow> j < 16 \<Longrightarrow> select_mask (of_nat i) (of_nat j) = (if i = j then - 1 else 0)"
proof -
  have "list_all (\<lambda>i. list_all (\<lambda>j. select_mask (of_nat i) (of_nat j) = (if i = j then - 1 else 0)) [0..<16]) [0..<16]"
    by code_simp
  then show "i < 16 \<Longrightarrow> j < 16 \<Longrightarrow> select_mask (of_nat i) (of_nat j) = (if i = j then - 1 else 0)" by (simp add: list_all_iff)
qed

lemma or_masked_zero: "length out = 9 \<Longrightarrow> or_masked out row 0 = out"
  by (auto simp: or_masked_def intro!: nth_equalityI simp del: upt_Suc)

lemma or_masked_all: "length row = 9 \<Longrightarrow> or_masked fe_zero row (- 1) = row"
  by (auto simp: or_masked_def fe_zero_def intro!: nth_equalityI simp del: upt_Suc)

lemma SelectJacobian_entry:
  assumes "0 < j" "j < 16" "nine (table ! j)"
  shows "sm2P256SelectJacobianPoint table (of_nat j) = table ! j"
proof -
  let ?f = "\<lambda>(xOut, yOut, zOut) i. let mask = select_mask (of_nat i) (of_nat j)
    in (or_masked xOut (fst (table ! i)) mask, or_masked yOut (fst (snd (table ! i))) mask, or_masked zOut (snd (snd (table ! i))) mask)"
  let ?I = "\<lambda>i st. st = (if j < i then table ! j else (fe_zero, fe_zero, fe_zero))"
  obtain a b c where t: "table ! j = (a, b, c)" by (cases "table ! j")
  have len: "length a = 9" "length b = 9" "length c = 9" "length fe_zero = 9"
    using assms(3) by (simp_all add: nine_def t fe_zero_def)
  have "?I 16 (foldl ?f (fe_zero, fe_zero, fe_zero) [1..<16])"
  proof (rule foldl_upt_invariant [of ?I])
    fix k st
    assume k: "1 \<le> k" "k < 16" and st: "?I k st"
    show "?I (Suc k) (?f st k)"
    proof (cases "k = j")
      case True
      then have "select_mask (of_nat k) (of_nat j) = - 1" using select_mask_eq [of k j] k by simp
      then show ?thesis using True st by (simp add: Let_def t or_masked_all len)
    next
      case False
      then have "select_mask (of_nat k) (of_nat j) = 0" using select_mask_eq [of k j] k assms(2) by simp
      then show ?thesis using False st by (auto simp: Let_def t or_masked_zero len)
    qed
  qed (use assms(1) in simp_all)
  then show ?thesis using assms(2) by (simp add: sm2P256SelectJacobianPoint_def)
qed

section \<open>The table of odd multiples\<close>

lemma N_not_dvd: "0 < \<bar>n\<bar> \<Longrightarrow> \<bar>n\<bar> < sm2_N \<Longrightarrow> \<not> sm2_N dvd n"
  using dvd_imp_le_int [of n sm2_N] by auto

lemma precomp_multiples:
  "j \<in> {1, 3, 5, 7} \<Longrightarrow> sm2_multiple x y (precomp_table x y ! j) (int j)"
proof -
  let ?p1 = "(x, y, sm2P256Factor ! 1)"
  let ?p2 = "sm2P256PointDouble ?p1" let ?p3 = "sm2P256PointAddMixed ?p2 x y"
  let ?p4 = "sm2P256PointDouble ?p2" let ?p5 = "sm2P256PointAddMixed ?p4 x y"
  let ?p6 = "sm2P256PointDouble ?p3" let ?p7 = "sm2P256PointAddMixed ?p6 x y"
  have n: "\<not> sm2_N dvd 2 - 1" "\<not> sm2_N dvd 4 - 1" "\<not> sm2_N dvd 6 - 1" by (rule N_not_dvd; simp add: sm2_N_def)+
  have 1: "sm2_multiple x y ?p1 1" by (rule one)
  have 2: "sm2_multiple x y ?p2 2" using double [OF 1] by simp
  have 3: "sm2_multiple x y ?p3 3" using mixed [OF 2 n(1)] by simp
  have 4: "sm2_multiple x y ?p4 4" using double [OF 2] by simp
  have 5: "sm2_multiple x y ?p5 5" using mixed [OF 4 n(2)] by simp
  have 6: "sm2_multiple x y ?p6 6" using double [OF 3] by simp
  have 7: "sm2_multiple x y ?p7 7" using mixed [OF 6 n(3)] by simp
  have t: "precomp_table x y ! 1 = ?p1" "precomp_table x y ! 3 = ?p3" "precomp_table x y ! 5 = ?p5" "precomp_table x y ! 7 = ?p7"
    by (simp_all add: precomp_table_def precomp_step_def Let_def del: replicate.simps)
  show "j \<in> {1, 3, 5, 7} \<Longrightarrow> sm2_multiple x y (precomp_table x y ! j) (int j)"
    using 1 3 5 7 by (auto simp: t simp del: One_nat_def)
qed

section \<open>One digit\<close>

text \<open>The digits of the windows as words.\<close>

lemma sint_minus_digit: "s \<in> {1, 3, 5, 7, - 1, - 3, - 5, - 7} \<Longrightarrow> sint (- word_of_int s :: int8) = - s"
  by auto

lemma digit_set: "naf_digit d \<Longrightarrow> d \<noteq> 0 \<Longrightarrow> sint d \<in> {1, 3, 5, 7, - 1, - 3, - 5, - 7}"
proof -
  assume "naf_digit d" "d \<noteq> 0"
  then have d: "odd (sint d)" "\<bar>sint d\<bar> \<le> 7" by (simp_all add: naf_digit_def)
  have "[- 7..7] = [- 7, - 6, - 5, - 4, - 3, - 2, - 1, 0, 1, 2, 3, 4, 5, 6, 7 :: int]" by code_simp
  moreover have "sint d \<in> set [- 7..7]" unfolding set_upto atLeastAtMost_iff using d(2) by linarith
  ultimately show ?thesis using d(1) by auto
qed

lemma digit_cases:
  assumes "naf_digit d" "d \<noteq> 0"
  obtains j :: nat where "j \<in> {1, 3, 5, 7}" "abs8 d = of_nat j" "0 <s d \<longleftrightarrow> 0 < sint d" "\<bar>sint d\<bar> = int j"
proof -
  note i = digit_set [OF assms]
  have e: "d = word_of_int (sint d)" by simp
  define j where "j = nat \<bar>sint d\<bar>"
  have j: "j \<in> {1, 3, 5, 7}" using i by (auto simp: j_def)
  have "abs8 d = of_nat j"
  proof (cases "0 < sint d")
    case True
    then have "abs8 d = word_of_int (sint d)" unfolding abs8_def word_sless_alt scast_eq by (simp only: signed_0 if_False not_less order.strict_implies_order) auto
    then show ?thesis using True by (simp add: j_def)
  next
    case False
    then have "sint d < 0" using i by auto
    then have "abs8 d = word_of_int (sint (- d))" unfolding abs8_def word_sless_alt scast_eq by (simp only: signed_0 if_True)
    moreover have "sint (- d) = - sint d"
      using sint_minus_digit [OF i] unfolding e [symmetric] .
    moreover have "(of_nat j :: u32) = word_of_int (- sint d)" using \<open>sint d < 0\<close> unfolding j_def by (subst of_nat_nat) simp_all
    ultimately show ?thesis by (simp only:)
  qed
  moreover have "0 <s d \<longleftrightarrow> 0 < sint d" by (simp only: word_sless_alt signed_0)
  moreover have "\<bar>sint d\<bar> = int j" by (simp add: j_def)
  ultimately show thesis using that j by blast
qed

lemma digit_mask:
  assumes "j \<in> {1, 3, 5, 7}"
  shows "nonZeroToAllOnes (of_nat j) = - 1"
  by (rule nonZeroToAllOnes_eq) (use assms in auto)

lemma nine_add_arg: "nine p \<Longrightarrow> nine (snd (sm2P256PointAdd p q))"
  by (simp add: sm2P256PointAdd_def Let_def nine_double split: prod.splits)

lemma PointSub_parts: "sm2P256PointSub p q = (fst (sm2P256PointAdd p (negated q)), snd (sm2P256PointAdd p (negated q)), negated q)"
  by (cases q) (simp add: sm2P256PointSub_def negated_def Let_def case_prod_beta)

text \<open>
  What a digit does: it adds the entry of its size, negated for a negative digit, to the doubled point; at the start
  it only copies the entry.
\<close>

definition entry :: "fe \<Rightarrow> fe \<Rightarrow> int8 \<Rightarrow> point" where
  "entry x y d = (let q = precomp_table x y ! nat \<bar>sint d\<bar> in if 0 < sint d then q else negated q)"

lemma entry_multiple:
  assumes "naf_digit d" "d \<noteq> 0"
  shows "sm2_multiple x y (entry x y d) (sint d)"
proof -
  obtain j where j: "j \<in> {1, 3, 5, 7}" "\<bar>sint d\<bar> = int j" using digit_cases [OF assms] by blast
  have "sm2_multiple x y (precomp_table x y ! j) (int j)" by (rule precomp_multiples [OF j(1)])
  moreover have "nat \<bar>sint d\<bar> = j" using j(2) by simp
  moreover have "sint d = (if 0 < sint d then int j else - int j)" using j(2) by (simp add: abs_if split: if_splits)
  ultimately show ?thesis
    using negate [of x y "precomp_table x y ! j" "int j"] unfolding entry_def Let_def by (cases "0 < sint d") simp_all
qed

lemma mult_digit_eq:
  assumes "length x = 9" "length y = 9" "naf_digit d" "d \<noteq> 0" "nine p"
  shows "mult_digit (precomp_table x y) (p, 0) d = (fst (sm2P256PointAdd (sm2P256PointDouble p) (entry x y d)), 0)"
    and "mult_digit (precomp_table x y) (p, - 1) d = (entry x y d, 0)"
proof -
  obtain j where j: "j \<in> {1, 3, 5, 7}" "abs8 d = of_nat j" "0 <s d \<longleftrightarrow> 0 < sint d" "\<bar>sint d\<bar> = int j"
    using digit_cases [OF assms(3,4)] by blast
  let ?p = "sm2P256PointDouble p" and ?q = "precomp_table x y ! j" and ?e = "entry x y d"
  have nine: "nine ?q" "nine ?e"
    using nine_multiple [OF precomp_multiples [OF j(1)] assms(1,2)] nine_multiple [OF entry_multiple [OF assms(3,4)] assms(1,2)] .
  have s: "sm2P256SelectJacobianPoint (precomp_table x y) (of_nat j) = ?q"
    by (rule SelectJacobian_entry) (use j(1) nine(1) in auto)
  have "(if 0 <s d then (case sm2P256PointAdd ?p ?q of (t, out) \<Rightarrow> (t, out, ?q)) else sm2P256PointSub ?p ?q)
      = (fst (sm2P256PointAdd ?p ?e), snd (sm2P256PointAdd ?p ?e), ?e)"
    unfolding j(3) PointSub_parts by (simp add: entry_def j(4) case_prod_beta)
  then have m: "mult_digit (precomp_table x y) (p, msk) d
      = (copy_point (copy_point (snd (sm2P256PointAdd ?p ?e)) ?e msk) (fst (sm2P256PointAdd ?p ?e)) (NOT msk), 0)" for msk
    unfolding mult_digit_def Let_def prod.case j(2) s digit_mask [OF j(1)] by (simp add: case_prod_beta)
  show "mult_digit (precomp_table x y) (p, 0) d = (fst (sm2P256PointAdd ?p ?e), 0)"
    "mult_digit (precomp_table x y) (p, - 1) d = (?e, 0)"
    unfolding m using nine by (simp_all add: copy_point_none copy_point_all nine_add_arg nine_add nine_double)
qed

section \<open>The loop\<close>

lemma nine_doubles: "nine p \<Longrightarrow> nine ((sm2P256PointDouble ^^ n) p)"
  by (induction n) (simp_all add: nine_double)

lemma doubles_multiple: "sm2_multiple x y p n \<Longrightarrow> sm2_multiple x y ((sm2P256PointDouble ^^ k) p) (2 ^ k * n)"
proof (induction k)
  case (Suc k)
  then show ?case using double [OF Suc.IH] by (simp add: mult.assoc)
qed simp

text \<open>The value of the digits read so far, the highest first.\<close>

abbreviation high_val :: "int8 list \<Rightarrow> int" where
  "high_val s \<equiv> naf_val (rev s)"

definition infinity :: point where
  "infinity = (fe_zero, fe_zero, fe_zero)"

text \<open>The next digit never doubles by adding.\<close>

definition no_clash :: "int8 list \<Rightarrow> bool" where
  "no_clash s \<longleftrightarrow> (\<forall>i<length s. s ! i \<noteq> 0 \<longrightarrow> \<not> sm2_N dvd 2 * high_val (take i s) - sint (s ! i))"

lemma no_clash_snoc: "no_clash (s @ [d]) \<longleftrightarrow> no_clash s \<and> (d \<noteq> 0 \<longrightarrow> \<not> sm2_N dvd 2 * high_val s - sint d)"
  by (auto simp: no_clash_def nth_append less_Suc_eq)

definition mult_inv :: "fe \<Rightarrow> fe \<Rightarrow> int8 list \<Rightarrow> point \<times> u32 \<times> nat \<Rightarrow> bool" where
  "mult_inv x y s st = (case st of (out, msk, zeroes) \<Rightarrow>
     nine out \<and> (if list_all (\<lambda>d. d = 0) s then msk = - 1 \<and> out = infinity \<and> zeroes = length s
                 else msk = 0 \<and> (\<exists>n. sm2_multiple x y out n \<and> high_val s = 2 ^ zeroes * n)))"

lemma mult_loop:
  assumes "length x = 9" "length y = 9" "list_all naf_digit s" "no_clash s"
  shows "mult_inv x y s (foldl (mult_step (precomp_table x y)) ((fe_zero, fe_zero, fe_zero), NOT 0, 0) s)"
  using assms(3,4)
proof (induction s rule: rev_induct)
  case Nil
  then show ?case by (simp add: mult_inv_def nine_def fe_zero_def infinity_def)
next
  case (snoc d s)
  obtain out msk zeroes where st: "foldl (mult_step (precomp_table x y)) ((fe_zero, fe_zero, fe_zero), NOT 0, 0) s = (out, msk, zeroes)"
    by (cases "foldl (mult_step (precomp_table x y)) ((fe_zero, fe_zero, fe_zero), NOT 0, 0) s")
  have "no_clash s" using snoc.prems(2) by (simp add: no_clash_snoc)
  then have inv: "mult_inv x y s (out, msk, zeroes)" using snoc.IH snoc.prems(1) unfolding st by simp
  then have nine: "nine out" by (simp add: mult_inv_def)
  show ?case
  proof (cases "d = 0")
    case True
    then show ?thesis using inv unfolding st foldl_append by (auto simp: mult_step_def mult_inv_def)
  next
    case False
    have d: "naf_digit d" using snoc.prems(1) by simp
    let ?p = "(sm2P256PointDouble ^^ zeroes) out"
    note eq = mult_digit_eq [OF assms(1,2) d False nine_doubles [OF nine, of zeroes]]
    have e: "sm2_multiple x y (entry x y d) (sint d)" by (rule entry_multiple [OF d False])
    show ?thesis
    proof (cases "list_all (\<lambda>d. d = 0) s")
      case True
      then have "msk = - 1" "high_val s = 0" using inv naf_val_zeros [of "rev s"] by (simp_all add: mult_inv_def list_all_iff)
      then show ?thesis
        using False e nine_multiple [OF e assms(1,2)] unfolding foldl_append st by (auto simp: mult_step_def eq mult_inv_def)
    next
      case nz: False
      then obtain n where n: "msk = 0" "sm2_multiple x y out n" "high_val s = 2 ^ zeroes * n"
        using inv by (auto simp: mult_inv_def)
      have p: "sm2_multiple x y (sm2P256PointDouble ?p) (2 * high_val s)"
        using double [OF doubles_multiple [OF n(2)]] unfolding n(3) .
      have "\<not> sm2_N dvd 2 * high_val s - sint d"
        using snoc.prems(2) False by (simp add: no_clash_snoc)
      note q = add [OF p e this]
      show ?thesis
        using False nz q nine_multiple [OF q assms(1,2)] unfolding foldl_append st
        by (auto simp: mult_step_def eq n(1) mult_inv_def naf_val_append add.commute [of "sint d"])
    qed
  qed
qed

lemma ScalarMult_multiple:
  assumes "length x = 9" "length y = 9" "list_all naf_digit s" "no_clash s" "\<not> list_all (\<lambda>d. d = 0) s"
  shows "sm2_multiple x y (sm2P256ScalarMult x y s) (high_val s)"
proof -
  obtain out msk zeroes where st: "foldl (mult_step (precomp_table x y)) ((fe_zero, fe_zero, fe_zero), NOT 0, 0) s = (out, msk, zeroes)"
    by (cases "foldl (mult_step (precomp_table x y)) ((fe_zero, fe_zero, fe_zero), NOT 0, 0) s")
  obtain n where "sm2_multiple x y out n" "high_val s = 2 ^ zeroes * n"
    using mult_loop [OF assms(1-4)] assms(5) unfolding st by (auto simp: mult_inv_def)
  then show ?thesis using doubles_multiple [of x y out n zeroes] unfolding sm2P256ScalarMult_def st by simp
qed

section \<open>The digits of a scalar below the order\<close>

lemma naf_val_bound: "list_all naf_digit ds \<Longrightarrow> \<bar>naf_val ds\<bar> \<le> 7 * (2 ^ length ds - 1)"
proof (induction ds)
  case (Cons d ds)
  then have "\<bar>sint d\<bar> \<le> 7" "\<bar>naf_val ds\<bar> \<le> 7 * (2 ^ length ds - 1)" by (auto simp: naf_digit_def)
  then show ?case by (simp add: abs_le_iff)
qed simp

lemma clash_bounds:
  assumes "list_all naf_digit (s @ d # t)" "high_val (s @ d # t) = K" "0 \<le> K" "K < sm2_N" "d \<noteq> 0" "sm2_N dvd 2 * high_val s - sint d"
  shows "t = [] \<and> K = sm2_N + 2 * sint d"
proof -
  let ?v = "2 * high_val s - sint d"
  define m where "m = (2 :: int) ^ length t"
  have d: "odd (sint d)" "sint d \<le> 7" "- 7 \<le> sint d" using assms(1,5) by (auto simp: naf_digit_def)
  have "\<bar>high_val t\<bar> \<le> 7 * (m - 1)" using naf_val_bound [of "rev t"] assms(1) by (simp add: list_all_rev m_def)
  then have low: "high_val t \<le> 7 * m - 7" "- high_val t \<le> 7 * m - 7" unfolding abs_le_iff by (simp_all add: right_diff_distrib)
  have K: "K = high_val t + m * (sint d + 2 * high_val s)" using assms(2) by (simp add: naf_val_append algebra_simps m_def)
  have m: "1 \<le> m" by (simp add: m_def)
  have v: "m * ?v = K - high_val t - m * (2 * sint d)" unfolding K by (simp add: algebra_simps)
  have "m * (2 * sint d) \<le> m * 14" "m * - 14 \<le> m * (2 * sint d)" by (intro mult_left_mono; use d m in linarith)+
  then have sd: "m * (2 * sint d) \<le> 14 * m" "- 14 * m \<le> m * (2 * sint d)" by linarith+
  have "- 21 * m < m * ?v" unfolding v using low sd assms(3) m by linarith
  then have lower: "- 21 < ?v" using mult_less_cancel_left_pos [of m "- 21" ?v] m by (simp add: mult.commute)
  obtain q where q: "?v = sm2_N * q" using assms(6) by (elim dvdE)
  have odd: "odd ?v" using d(1) by simp
  have "0 < q"
  proof (rule ccontr)
    assume "\<not> 0 < q"
    moreover have "q \<noteq> 0" using odd q by auto
    ultimately have "q \<le> - 1" by simp
    then have "sm2_N * q \<le> sm2_N * - 1" by (intro mult_left_mono) (simp_all add: sm2_N_def)
    then show False using lower q by (simp add: sm2_N_def)
  qed
  then have ge: "sm2_N \<le> ?v" unfolding q using mult_left_mono [of 1 q sm2_N] by (simp add: sm2_N_def)
  show ?thesis
  proof (cases t)
    case Nil
    then have v: "?v = K - 2 * sint d" using K by (simp add: m_def)
    have "K - 2 * sint d < 2 * sm2_N" using assms(4) d unfolding sm2_N_def by linarith
    then have "sm2_N * q < sm2_N * 2" using v q by simp
    then have "q < 2" by (subst (asm) mult_less_cancel_left_pos) (simp_all add: sm2_N_def)
    then have "q = 1" using \<open>0 < q\<close> by simp
    then show ?thesis using v q Nil by simp
  next
    case (Cons a t')
    then have m2: "2 \<le> m" using self_le_power [of "2 :: int" "length t"] by (simp add: m_def)
    have "m * ?v \<le> K + 21 * m" unfolding v using low sd by linarith
    moreover have "m * sm2_N \<le> m * ?v" using ge m by (intro mult_left_mono) simp_all
    ultimately have "m * (sm2_N - 21) \<le> K" by (simp add: right_diff_distrib)
    moreover have "2 * (sm2_N - 21) \<le> m * (sm2_N - 21)" using m2 by (intro mult_right_mono) (simp_all add: sm2_N_def)
    ultimately show ?thesis using assms(4) by (simp add: sm2_N_def)
  qed
qed

lemma no_clash_prefix:
  assumes "list_all naf_digit (s @ t)" "high_val (s @ t) = K" "0 \<le> K" "K < sm2_N"
    and "t = [] \<Longrightarrow> s \<noteq> [] \<Longrightarrow> last s = 0 \<or> K \<noteq> sm2_N + 2 * sint (last s)"
  shows "no_clash s"
  unfolding no_clash_def
proof (intro allI impI notI)
  fix i
  assume i: "i < length s" "s ! i \<noteq> 0" and c: "sm2_N dvd 2 * high_val (take i s) - sint (s ! i)"
  have e: "s @ t = take i s @ s ! i # (drop (Suc i) s @ t)" using i(1) by (simp add: id_take_nth_drop [symmetric])
  have "drop (Suc i) s @ t = [] \<and> K = sm2_N + 2 * sint (s ! i)"
    by (rule clash_bounds [OF _ _ assms(3,4) i(2) c]) (use assms(1,2) e in simp_all)
  moreover have "s \<noteq> []" using i(1) by auto
  moreover from calculation have "last s = s ! i" using i(1) by (cases "length s = Suc i") (auto simp: last_conv_nth)
  ultimately show False using assms(5) i by auto
qed

text \<open>The lowest digit determines the scalar modulo 16.\<close>

lemma naf_val_mod_16:
  assumes "spaced w" "w = d # ds" "d \<noteq> 0"
  shows "naf_val w mod 16 = sint d mod 16"
proof -
  have "ds ! i = 0" if "i < 3" "i < length ds" for i
  proof -
    have "\<forall>j<length w. \<forall>i<j. w ! i = 0 \<or> w ! j = 0 \<or> i + 4 \<le> j" using assms(1) by (auto simp: spaced_def list_all_iff)
    then have "w ! 0 = 0 \<or> w ! Suc i = 0 \<or> 0 + 4 \<le> Suc i" using that assms(2) by (metis Suc_less_eq length_Cons zero_less_Suc)
    then show ?thesis using assms(2,3) that by simp
  qed
  then have z: "list_all (\<lambda>d. d = 0) (take 3 ds)" by (simp add: list_all_length)
  have "naf_val ds = naf_val (take 3 ds @ drop 3 ds)" by simp
  also have "\<dots> = 2 ^ length (take 3 ds) * naf_val (drop 3 ds)" by (simp only: naf_val_append naf_val_zeros [OF z])
  also have "\<dots> = 8 * naf_val (drop 3 ds)" by (cases "3 \<le> length ds") (simp_all add: min_def)
  finally show ?thesis using assms(2) by (simp add: mult.assoc [symmetric])
qed

lemma naf_val_eq_0: "list_all naf_digit ds \<Longrightarrow> naf_val ds = 0 \<Longrightarrow> list_all (\<lambda>d. d = 0) ds"
proof (induction ds)
  case (Cons d ds)
  then have "even (sint d)" by (metis dvd_triv_left even_add even_zero naf_val.simps(2))
  then have "d = 0" using Cons.prems(1) by (auto simp: naf_digit_def)
  then show ?case using Cons by simp
qed simp

lemma double_infinity: "sm2P256ToBig (snd (snd (sm2P256PointDouble infinity))) = 0"
proof -
  have "sm2P256Add fe_zero fe_zero = fe_zero" by code_simp
  then have "snd (snd (sm2P256PointDouble infinity)) = sm2P256Sub (sm2P256Sub fe_zero fe_zero) fe_zero"
    by (simp add: sm2P256PointDouble_def point_double_def sm2_ops_def infinity_def Let_def sm2P256Square_eq mul_zero)
  moreover have "fe_ok fe_zero" unfolding FromBig_0 [symmetric] by (rule FromBig_ok)
  moreover have "fe_val fe_zero = 0" using fe_val_FromBig [of 0] by (simp add: FromBig_0)
  ultimately show ?thesis by (simp add: ToBig_eq_0_iff fe_val_sub)
qed

lemma sm2GenrateWNaf_0: "be_int k mod sm2_N = 0 \<Longrightarrow> sm2GenrateWNaf k = Some [0]"
proof -
  assume "be_int k mod sm2_N = 0"
  moreover have "0 \<le> be_int k" by (rule be_int_bounds)
  ultimately have "nat (if sm2_N \<le> be_int k then be_int k mod sm2_N else be_int k) = 0"
    using mod_pos_pos_trivial [of "be_int k" sm2_N] by auto
  then show ?thesis unfolding sm2GenrateWNaf_def Let_def by (simp add: nat_bitlen.simps)
qed

text \<open>The lowest digit when the last addition meets equal weights.\<close>

lemma clash_digit:
  assumes "naf_digit d" "d \<noteq> 0" "K mod 16 = sint d mod 16" "K < sm2_N"
  shows "K = sm2_N + 2 * sint d \<Longrightarrow> K = sm2_N - 6" "K = sm2_N - 6 \<Longrightarrow> sint d = - 3"
proof -
  show "K = sm2_N - 6" if "K = sm2_N + 2 * sint d"
    using digit_set [OF assms(1,2)] assms(3,4) unfolding that by (elim insertE emptyE) (simp_all add: sm2_N_def)
  show "sint d = - 3" if "K = sm2_N - 6"
    using digit_set [OF assms(1,2)] assms(3) unfolding that by (elim insertE emptyE) (simp_all add: sm2_N_def)
qed

text \<open>The digits of a scalar that is not 0, highest first: all but the last, and the last.\<close>

lemma scalar_digits:
  assumes "sm2GenrateWNaf k = Some w" "naf_val w = K" "list_all naf_digit w" "spaced w" "0 < length w" "0 < K" "K < sm2_N"
  shows "if K = sm2_N - 6 then \<exists>s d. rev w = s @ [d] \<and> sint d = - 3 \<and> no_clash s \<and> \<not> list_all (\<lambda>d. d = 0) s
    else no_clash (rev w) \<and> \<not> list_all (\<lambda>d. d = 0) (rev w)"
proof -
  obtain d ds where w: "w = d # ds" using assms(5) by (cases w) auto
  have n: "list_all naf_digit (rev w)" "high_val (rev w) = K" "naf_digit d" using assms(2,3) by (simp_all add: list_all_rev w)
  have nz: "\<not> list_all (\<lambda>d. d = 0) (rev w)" using naf_val_zeros [of w] assms(2,6) by (auto simp: list_all_rev)
  have m16: "d \<noteq> 0 \<Longrightarrow> K mod 16 = sint d mod 16" using naf_val_mod_16 [OF assms(4) w] assms(2) by simp
  show ?thesis
  proof (cases "K = sm2_N - 6")
    case True
    have "d \<noteq> 0"
    proof
      assume "d = 0"
      then have "even K" using assms(2) by (auto simp: w)
      then show False unfolding True by (simp add: sm2_N_def)
    qed
    then have d: "sint d = - 3" using clash_digit(2) [OF n(3) _ m16 assms(7) True] by blast
    have "no_clash (rev ds)"
      by (rule no_clash_prefix [of "rev ds" "[d]" K]) (use n assms(6,7) in \<open>simp_all add: w\<close>)
    moreover have "\<not> list_all (\<lambda>d. d = 0) (rev ds)"
      using naf_val_zeros [of ds] assms(2,6) d by (auto simp: list_all_rev w)
    ultimately show ?thesis using True d by (auto simp: w)
  next
    case False
    have "no_clash (rev w)"
    proof (rule no_clash_prefix [of "rev w" "[]" K])
      show "last (rev w) = 0 \<or> K \<noteq> sm2_N + 2 * sint (last (rev w))"
        using clash_digit(1) [OF n(3) _ m16 assms(7)] False by (auto simp: w)
    qed (use n assms(6,7) in simp_all)
    then show ?thesis using False nz by simp
  qed
qed

lemma ScalarMult_clash:
  assumes "length x = 9" "length y = 9" "list_all naf_digit (s @ [d])" "no_clash s" "\<not> list_all (\<lambda>d. d = 0) s" "sint d = - 3"
  shows "\<exists>q. sm2P256ScalarMult x y (s @ [d]) = fst (sm2P256PointSub q (precomp_table x y ! 3)) \<and> sm2_multiple x y q (2 * high_val s)"
proof -
  obtain out msk zeroes where st: "foldl (mult_step (precomp_table x y)) ((fe_zero, fe_zero, fe_zero), NOT 0, 0) s = (out, msk, zeroes)"
    by (cases "foldl (mult_step (precomp_table x y)) ((fe_zero, fe_zero, fe_zero), NOT 0, 0) s")
  obtain n where n: "nine out" "msk = 0" "sm2_multiple x y out n" "high_val s = 2 ^ zeroes * n"
    using mult_loop [OF assms(1,2) _ assms(4)] assms(3,5) unfolding st by (auto simp: mult_inv_def)
  have d: "naf_digit d" "d \<noteq> 0" using assms(3,6) by auto
  let ?q = "sm2P256PointDouble ((sm2P256PointDouble ^^ zeroes) out)"
  have "sm2P256ScalarMult x y (s @ [d]) = fst (sm2P256PointAdd ?q (entry x y d))"
    using d(2) unfolding sm2P256ScalarMult_def foldl_append st
    by (simp add: mult_step_def n(2) mult_digit_eq [OF assms(1,2) d nine_doubles [OF n(1)]])
  moreover have "entry x y d = negated (precomp_table x y ! 3)" by (simp add: entry_def assms(6))
  moreover have "sm2_multiple x y ?q (2 * high_val s)" using double [OF doubles_multiple [OF n(3)]] unfolding n(4) .
  ultimately show ?thesis unfolding PointSub_negated by metis
qed

lemma ScalarMult_exact:
  fixes x1 y1 k
  defines "K \<equiv> be_int k mod sm2_N" and "X \<equiv> sm2P256FromBig x1" and "Y \<equiv> sm2P256FromBig y1"
  shows "if K = 0 then sm2Curve_ScalarMult x1 y1 k = Some (0, 0)
    else if K = sm2_N - 6 then \<exists>q r. sm2Curve_ScalarMult x1 y1 k = Some (sm2P256ToAffine (fst (sm2P256PointSub q r)))
      \<and> sm2_multiple X Y q (sm2_N - 3) \<and> sm2_multiple X Y r 3
    else \<exists>p. sm2Curve_ScalarMult x1 y1 k = Some (sm2P256ToAffine p) \<and> sm2_multiple X Y p K"
proof -
  have len: "length X = 9" "length Y = 9" using FromBig_ok by (simp_all add: X_def Y_def fe_ok_def)
  obtain w where w: "sm2GenrateWNaf k = Some w" "naf_val w = K" "list_all naf_digit w" "spaced w" "0 < length w"
    using sm2_wnaf_digits [of k] unfolding K_def by blast
  have r: "sm2Curve_ScalarMult x1 y1 k = Some (sm2P256ToAffine (sm2P256ScalarMult X Y (rev w)))"
    by (simp add: sm2Curve_ScalarMult_def w(1) Let_def WNafReversed_def X_def Y_def)
  have K: "0 \<le> K" "K < sm2_N" by (simp_all add: K_def sm2_N_def)
  have n: "list_all naf_digit (rev w)" "high_val (rev w) = K" using w(2,3) by (simp_all add: list_all_rev)
  show ?thesis
  proof (cases "K = 0")
    case True
    then have "w = [0]" using sm2GenrateWNaf_0 [of k] w(1) by (simp add: K_def)
    then have "sm2P256ScalarMult X Y (rev w) = sm2P256PointDouble infinity"
      by (simp add: sm2P256ScalarMult_def mult_step_def infinity_def)
    then show ?thesis
      using r True double_infinity ToAffine_infinity by (cases "sm2P256PointDouble infinity") simp
  next
    case False
    then have "0 < K" using K(1) by simp
    note dig = scalar_digits [OF w this K(2)]
    show ?thesis
    proof (cases "K = sm2_N - 6")
      case True
      then obtain s d where s: "rev w = s @ [d]" "sint d = - 3" "no_clash s" "\<not> list_all (\<lambda>d. d = 0) s" using dig by auto
      then obtain q where q: "sm2P256ScalarMult X Y (rev w) = fst (sm2P256PointSub q (precomp_table X Y ! 3))"
        "sm2_multiple X Y q (2 * high_val s)" using ScalarMult_clash [OF len _ s(3,4,2)] n(1) by auto
      have v: "2 * high_val s = sm2_N - 3" using n(2) s(2) True by (simp add: s(1))
      have "sm2_multiple X Y (precomp_table X Y ! 3) 3" using precomp_multiples [of 3 X Y] by simp
      then show ?thesis using q(2) unfolding if_not_P [OF False] if_P [OF True] r q(1) v by blast
    next
      case other: False
      then have "no_clash (rev w)" "\<not> list_all (\<lambda>d. d = 0) (rev w)" using dig by simp_all
      from ScalarMult_multiple [OF len n(1) this] show ?thesis
        unfolding if_not_P [OF False] if_not_P [OF other] r n(2) by blast
    qed
  qed
qed

text \<open>
  C15: \<open>ScalarMult\<close> returns for every scalar: the point at infinity when the scalar is 0 modulo the order, and otherwise a
  point reached by doublings, negations and additions of different weights whose weight is the scalar modulo
  the order. The exception is the order minus 6: there the last step subtracts the triple of the point from
  the point of weight minus 3, which \<open>sm2P256PointSub\<close>, adding two equal points, does not do.
\<close>

theorem sm2_scalar_mult:
  "let K = be_int k mod sm2_N; X = sm2P256FromBig x1; Y = sm2P256FromBig y1
   in if K = 0 then sm2Curve_ScalarMult x1 y1 k = Some (0, 0)
      else if K = sm2_N - 6 then \<exists>q r. sm2Curve_ScalarMult x1 y1 k = Some (sm2P256ToAffine (fst (sm2P256PointSub q r)))
        \<and> sm2_multiple X Y q (sm2_N - 3) \<and> sm2_multiple X Y r 3
      else \<exists>p. sm2Curve_ScalarMult x1 y1 k = Some (sm2P256ToAffine p) \<and> sm2_multiple X Y p K"
  unfolding Let_def by (rule ScalarMult_exact)

end
