(* ===== verification/Tls_Record.thy ===== *)
theory Tls_Record
  imports Prelude
begin

unbundle bit_operations_syntax

text \<open>
  One direction of the record layer of package \<open>tls\<close> (conn.go): the state \<open>halfConn\<close>, the change of cipher, the
  sequence number, the padding of block ciphers and the protection of a record. Ciphers and MAC functions
  come from outside the file: a cipher is its kind with its operations, a MAC function its size and its value.
\<close>

section \<open>The state\<close>

type_synonym u16 = "16 word"

definition VersionSSL30 :: u16 where "VersionSSL30 = 0x0300"
definition VersionTLS10 :: u16 where "VersionTLS10 = 0x0301"
definition VersionTLS11 :: u16 where "VersionTLS11 = 0x0302"
definition VersionTLS12 :: u16 where "VersionTLS12 = 0x0303"

definition recordHeaderLen :: nat where "recordHeaderLen = 5"

text \<open>
  \<open>cipher.Stream\<close> with its key stream, \<open>aead\<close> with the length of its explicit nonce, \<open>Overhead\<close>, \<open>Seal\<close> and \<open>Open\<close>
  over nonce, text and additional data, \<open>cbcMode\<close> with \<open>BlockSize\<close>, \<open>CryptBlocks\<close> and \<open>SetIV\<close>; \<open>'s\<close> is the state
  of the object.
\<close>

datatype 's cipher =
    Stream "'s \<Rightarrow> byte list \<Rightarrow> byte list \<times> 's" 's
  | Aead nat nat "byte list \<Rightarrow> byte list \<Rightarrow> byte list \<Rightarrow> byte list" "byte list \<Rightarrow> byte list \<Rightarrow> byte list \<Rightarrow> byte list option"
  | Cbc nat "'s \<Rightarrow> byte list \<Rightarrow> byte list \<times> 's" "byte list \<Rightarrow> 's" 's

record macFunction =
  mac_Size :: nat
  mac_MAC :: "byte list \<Rightarrow> byte list \<Rightarrow> byte list \<Rightarrow> byte list"

type_synonym alert = byte

definition alertCloseNotify :: alert where "alertCloseNotify = 0"
definition alertUnexpectedMessage :: alert where "alertUnexpectedMessage = 10"
definition alertBadRecordMAC :: alert where "alertBadRecordMAC = 20"
definition alertRecordOverflow :: alert where "alertRecordOverflow = 22"
definition alertProtocolVersion :: alert where "alertProtocolVersion = 70"
definition alertInternalError :: alert where "alertInternalError = 80"
definition alertNoRenegotiation :: alert where "alertNoRenegotiation = 100"

text \<open>The errors of a connection: \<open>net.OpError\<close> of a local or remote alert, an alert itself, those of package \<open>io\<close> and those the package creates.\<close>

datatype tls_error =
    LocalError alert
  | AlertError alert
  | RemoteError alert
  | EOF
  | UnexpectedEOF
  | EntropyError
  | RecordHeaderError
  | UnknownRecordType
  | HandshakeFinished
  | HandshakePending
  | errClosed
  | errShutdown
  | ErrNoProgress
  | MessageTooLong

record 's halfConn =
  hc_err :: "tls_error option"
  hc_version :: u16
  hc_cipher :: "'s cipher option"
  hc_mac :: "macFunction option"
  hc_seq :: "byte list"
  hc_nextCipher :: "'s cipher option"
  hc_nextMac :: "macFunction option"

definition setErrorLocked :: "'s halfConn \<Rightarrow> tls_error option \<Rightarrow> 's halfConn" where
  "setErrorLocked hc err = hc\<lparr>hc_err := err\<rparr>"

definition prepareCipherSpec :: "'s halfConn \<Rightarrow> u16 \<Rightarrow> 's cipher option \<Rightarrow> macFunction option \<Rightarrow> 's halfConn" where
  "prepareCipherSpec hc version cipher mac = hc\<lparr>hc_version := version, hc_nextCipher := cipher, hc_nextMac := mac\<rparr>"

definition changeCipherSpec :: "'s halfConn \<Rightarrow> 's halfConn \<times> alert option" where
  "changeCipherSpec hc =
     (if hc_nextCipher hc = None then (hc, Some alertInternalError)
      else (hc\<lparr>hc_cipher := hc_nextCipher hc, hc_mac := hc_nextMac hc, hc_nextCipher := None, hc_nextMac := None,
               hc_seq := replicate (length (hc_seq hc)) 0\<rparr>, None))"

text \<open>From the last byte; \<open>None\<close> is the panic at the end of the numbers.\<close>

fun inc_bytes :: "byte list \<Rightarrow> nat \<Rightarrow> byte list option" where
  "inc_bytes s 0 = None"
| "inc_bytes s (Suc i) =
     (let s = s[i := s ! i + 1] in if s ! i \<noteq> 0 then Some s else inc_bytes s i)"

definition incSeq :: "'s halfConn \<Rightarrow> 's halfConn option" where
  "incSeq hc = map_option (\<lambda>s. hc\<lparr>hc_seq := s\<rparr>) (inc_bytes (hc_seq hc) 8)"

text \<open>
  The length of the explicit nonce or initialisation vector before a payload, as \<open>writeRecordLocked\<close> finds it:
  the block size of a CBC cipher from version 1.1, and what an AEAD asks for.
\<close>

definition explicit_len :: "'s halfConn \<Rightarrow> nat" where
  "explicit_len hc = (case hc_cipher hc of
     Some (Cbc b f iv s) \<Rightarrow> if VersionTLS11 \<le> hc_version hc then b else 0
   | Some (Aead n ov sl op) \<Rightarrow> n
   | _ \<Rightarrow> 0)"

section \<open>Padding\<close>

text \<open>\<open>byte(int32(^t) >> 31)\<close>.\<close>

definition sign_mask :: "u64 \<Rightarrow> byte" where
  "sign_mask t = ucast (signed_drop_bit 31 (ucast (NOT t) :: u32))"

definition padding_step :: "byte list \<Rightarrow> byte \<Rightarrow> byte \<Rightarrow> nat \<Rightarrow> byte" where
  "padding_step payload paddingLen good i =
     (let t = ucast paddingLen - of_nat i;
          msk = sign_mask t;
          b = payload ! (length payload - 1 - i)
      in good AND NOT ((msk AND paddingLen) XOR (msk AND b)))"

definition fold_bits :: "byte \<Rightarrow> byte" where
  "fold_bits good =
     (let good = good AND push_bit 4 good;
          good = good AND push_bit 2 good;
          good = good AND push_bit 1 good
      in signed_drop_bit 7 good)"

definition extractPadding :: "byte list \<Rightarrow> nat \<times> byte" where
  "extractPadding payload =
     (if length payload < 1 then (0, 0)
      else
        let paddingLen = payload ! (length payload - 1);
            t = of_nat (length payload - 1) - ucast paddingLen;
            good = sign_mask t;
            toCheck = 255;
            toCheck = (if toCheck + 1 > length payload then length payload - 1 else toCheck);
            good = foldl (padding_step payload paddingLen) good [0..<toCheck]
        in (unat paddingLen + 1, fold_bits good))"

definition extractPaddingSSL30 :: "byte list \<Rightarrow> nat \<times> byte" where
  "extractPaddingSSL30 payload =
     (if length payload < 1 then (0, 0)
      else
        let paddingLen = unat (payload ! (length payload - 1)) + 1
        in if length payload < paddingLen then (0, 0) else (paddingLen, 255))"

definition roundUp :: "nat \<Rightarrow> nat \<Rightarrow> nat" where
  "roundUp a b = a + (b - a mod b) mod b"

definition padToBlockSize :: "byte list \<Rightarrow> nat \<Rightarrow> byte list \<times> byte list" where
  "padToBlockSize payload blockSize =
     (let overrun = length payload mod blockSize;
          paddingLen = blockSize - overrun;
          prefix = take (length payload - overrun) payload;
          finalBlock = drop (length payload - overrun) payload @ replicate (blockSize - overrun) (of_nat (paddingLen - 1))
      in (prefix, finalBlock))"

section \<open>Protection of a record\<close>

definition u16_bytes :: "nat \<Rightarrow> byte list" where
  "u16_bytes n = [of_nat (n div 256), of_nat n]"

definition set_length :: "byte list \<Rightarrow> nat \<Rightarrow> byte list" where
  "set_length data n = data[3 := of_nat (n div 256), 4 := of_nat n]"

text \<open>The length is negative for a payload shorter than the overhead; \<open>n >> 8\<close> rounds down.\<close>

definition additionalData :: "byte list \<Rightarrow> byte list \<Rightarrow> int \<Rightarrow> byte list" where
  "additionalData sq data n = sq @ take 3 data @ [of_int (n div 256), of_int n]"

text \<open>The payload of a record under the cipher, with the new state of the cipher.\<close>

definition encrypt_payload :: "'s halfConn \<Rightarrow> 's cipher \<Rightarrow> byte list \<Rightarrow> nat \<Rightarrow> byte list \<times> 's cipher" where
  "encrypt_payload hc c data explicitIVLen =
     (let payload = drop recordHeaderLen data
      in case c of
        Stream f s \<Rightarrow> (case f s payload of (out, s) \<Rightarrow> (take recordHeaderLen data @ out, Stream f s))
      | Aead nonceLen overhead seal opn \<Rightarrow>
          let payloadLen = length data - recordHeaderLen - explicitIVLen;
              nonce = take explicitIVLen payload;
              nonce = (if length nonce = 0 then hc_seq hc else nonce);
              payload = drop explicitIVLen payload
          in (take (recordHeaderLen + explicitIVLen) data @ seal nonce payload (additionalData (hc_seq hc) data (int payloadLen)),
              Aead nonceLen overhead seal opn)
      | Cbc blockSize crypt setIV s \<Rightarrow>
          let s = (if 0 < explicitIVLen then setIV (take explicitIVLen payload) else s);
              payload = drop explicitIVLen payload
          in case padToBlockSize payload blockSize of (prefix, finalBlock) \<Rightarrow>
             case crypt s prefix of (out1, s) \<Rightarrow>
             case crypt s finalBlock of (out2, s) \<Rightarrow>
               (take (recordHeaderLen + explicitIVLen) data @ out1 @ out2, Cbc blockSize crypt setIV s))"

definition encrypt :: "'s halfConn \<Rightarrow> byte list \<Rightarrow> nat \<Rightarrow> (byte list \<times> 's halfConn) option" where
  "encrypt hc data explicitIVLen =
     (let data = (case hc_mac hc of None \<Rightarrow> data
                  | Some m \<Rightarrow> data @ mac_MAC m (hc_seq hc) (take recordHeaderLen data) (drop (recordHeaderLen + explicitIVLen) data))
      in case (case hc_cipher hc of None \<Rightarrow> (data, hc)
               | Some c \<Rightarrow> (case encrypt_payload hc c data explicitIVLen of (data, c) \<Rightarrow> (data, hc\<lparr>hc_cipher := Some c\<rparr>)))
         of (data, hc) \<Rightarrow>
           let n = length data - recordHeaderLen;
               data = set_length data n
           in map_option (\<lambda>hc. (data, hc)) (incSeq hc))"

text \<open>
  The first half of \<open>decrypt\<close>: \<open>None\<close> is the alert; otherwise the data with the decrypted payload in place, the cipher,
  the length of the explicit nonce and of the padding, and the byte of the padding check.
\<close>

definition decrypt_payload ::
  "'s halfConn \<Rightarrow> 's cipher \<Rightarrow> byte list \<Rightarrow> nat \<Rightarrow> (byte list \<times> 's cipher \<times> nat \<times> nat \<times> byte) option" where
  "decrypt_payload hc c data macSize =
     (let payload = drop recordHeaderLen data
      in case c of
        Stream f s \<Rightarrow> (case f s payload of (out, s) \<Rightarrow> Some (take recordHeaderLen data @ out, Stream f s, 0, 0, 255))
      | Aead nonceLen overhead seal opn \<Rightarrow>
          if length payload < nonceLen then None
          else
            let nonce = take nonceLen payload;
                payload = drop nonceLen payload;
                nonce = (if length nonce = 0 then hc_seq hc else nonce);
                n = int (length payload) - int overhead
            in (case opn nonce payload (additionalData (hc_seq hc) data n) of None \<Rightarrow> None
                | Some payload \<Rightarrow>
                    Some (take (recordHeaderLen + nonceLen) data @ payload, Aead nonceLen overhead seal opn, nonceLen, 0, 255))
      | Cbc blockSize crypt setIV s \<Rightarrow>
          let explicitIVLen = (if VersionTLS11 \<le> hc_version hc then blockSize else 0)
          in if length payload mod blockSize \<noteq> 0 \<or> length payload < roundUp (explicitIVLen + macSize + 1) blockSize then None
             else
               let s = (if 0 < explicitIVLen then setIV (take explicitIVLen payload) else s);
                   payload = drop explicitIVLen payload
               in case crypt s payload of (payload, s) \<Rightarrow>
                  case (if hc_version hc = VersionSSL30 then extractPaddingSSL30 payload else extractPadding payload) of
                    (paddingLen, paddingGood) \<Rightarrow>
                  Some (take (recordHeaderLen + explicitIVLen) data @ payload, Cbc blockSize crypt setIV s,
                        explicitIVLen, paddingLen, paddingGood))"

text \<open>The second half: the MAC. \<open>uint32(n) >> 31\<close> is bit 31 of \<open>n\<close>.\<close>

definition strip_mac :: "macFunction \<Rightarrow> byte list \<Rightarrow> byte list \<Rightarrow> nat \<Rightarrow> nat \<Rightarrow> byte \<Rightarrow> byte list option" where
  "strip_mac m sq data explicitIVLen paddingLen paddingGood =
     (let payload = drop (recordHeaderLen + explicitIVLen) data
      in if length payload < mac_Size m then None
         else
           let n = int (length payload) - int (mac_Size m) - int paddingLen;
               n = nat (if bit n 31 then 0 else n);
               data = set_length data n;
               remoteMAC = take (mac_Size m) (drop n payload);
               localMAC = mac_MAC m sq (take recordHeaderLen data) (take n payload)
           in if localMAC \<noteq> remoteMAC \<or> paddingGood \<noteq> 255 then None
              else Some (take (recordHeaderLen + explicitIVLen + n) data))"

text \<open>The result with the bytes of the record and the new state; a rejected record leaves the state of its cipher changed.\<close>

datatype 's decrypted =
    Rejected alert "'s halfConn"
  | Accepted nat "byte list" "'s halfConn"

definition decrypt :: "'s halfConn \<Rightarrow> byte list \<Rightarrow> 's decrypted option" where
  "decrypt hc data =
     (let macSize = (case hc_mac hc of None \<Rightarrow> 0 | Some m \<Rightarrow> mac_Size m)
      in case (case hc_cipher hc of None \<Rightarrow> Some (data, hc, 0, 0, 255)
               | Some c \<Rightarrow> (case decrypt_payload hc c data macSize of None \<Rightarrow> None
                           | Some (data, c, explicitIVLen, paddingLen, paddingGood) \<Rightarrow>
                               Some (data, hc\<lparr>hc_cipher := Some c\<rparr>, explicitIVLen, paddingLen, paddingGood))) of
           None \<Rightarrow> Some (Rejected alertBadRecordMAC hc)
         | Some (data, hc, explicitIVLen, paddingLen, paddingGood) \<Rightarrow>
             (case (case hc_mac hc of None \<Rightarrow> Some data
                    | Some m \<Rightarrow> strip_mac m (hc_seq hc) data explicitIVLen paddingLen paddingGood) of
                None \<Rightarrow> Some (Rejected alertBadRecordMAC hc)
              | Some data \<Rightarrow> map_option (\<lambda>hc. Accepted (recordHeaderLen + explicitIVLen) data hc) (incSeq hc)))"

section \<open>The padding check\<close>

lemma ucast_word_of_int: "(ucast (word_of_int x :: u64) :: u32) = word_of_int x"
  by (rule bit_word_eqI) (simp add: bit_unsigned_iff bit_word_of_int_iff)

lemma signed_drop_top: "signed_drop_bit (LENGTH('a) - 1) w = (if bit w (LENGTH('a) - 1) then - 1 else 0)"
  for w :: "'a::len word"
  by (rule bit_word_eqI) (auto simp: bit_signed_drop_bit_iff Suc_le_eq)

lemma signed_drop_31: "signed_drop_bit 31 (w :: u32) = (if sint w < 0 then - 1 else 0)"
  using signed_drop_top [of w] bit_last_iff [of w] by simp

lemma ucast_all_ones: "(ucast (- 1 :: u32) :: byte) = - 1"
  by (rule bit_word_eqI) (simp add: bit_unsigned_iff)

lemma not_difference: "NOT (of_nat a - of_nat b :: u64) = word_of_int (int b - int a - 1)"
  by (simp add: not_eq_complement)

lemma sign_mask_difference:
  assumes "a < 2 ^ 31" "b < 2 ^ 31"
  shows "sign_mask (of_nat a - of_nat b) = (if b \<le> a then - 1 else 0)"
proof -
  let ?x = "int b - int a - 1"
  have "ucast (NOT (of_nat a - of_nat b :: u64)) = (word_of_int ?x :: u32)"
    unfolding not_difference by (rule ucast_word_of_int)
  moreover have "sint (word_of_int ?x :: u32) = ?x" using assms by (subst signed_of_int) (simp add: signed_take_bit_int_eq_self)
  ultimately have "signed_drop_bit 31 (ucast (NOT (of_nat a - of_nat b :: u64)) :: u32) = (if int b - int a - 1 < 0 then - 1 else 0)"
    unfolding signed_drop_31 by simp
  then show ?thesis by (simp add: sign_mask_def ucast_all_ones)
qed

lemma bit_and_push: "n < 8 \<Longrightarrow> bit (a AND push_bit k a) n \<longleftrightarrow> bit a n \<and> k \<le> n \<and> bit (a :: byte) (n - k)"
  by (auto simp: bit_and_iff bit_push_bit_iff)

lemma byte_all_ones: "g = - 1 \<longleftrightarrow> list_all (bit (g :: byte)) [0, 1, 2, 3, 4, 5, 6, 7]"
proof -
  have "g = - 1 \<longleftrightarrow> (\<forall>n \<in> set [0..<8]. bit g n)" by (auto simp: bit_eq_iff bit_simps)
  moreover have "[0..<8] = [0, 1, 2, 3, 4, 5, 6, 7]" by (simp add: upt_rec)
  ultimately show ?thesis by (simp only: list_all_iff)
qed

lemma fold_bits_eq: "fold_bits g = (if g = - 1 then - 1 else 0)"
proof -
  have "bit (let good = g AND push_bit 4 g; good = good AND push_bit 2 good in good AND push_bit 1 good) 7 \<longleftrightarrow> g = - 1"
    unfolding Let_def byte_all_ones by (subst bit_and_push, simp)+ auto
  then show ?thesis using signed_drop_top [where 'a = 8] by (simp add: fold_bits_def Let_def)
qed

lemma and_not_eq_all: "g AND NOT d = - 1 \<longleftrightarrow> g = - 1 \<and> d = (0 :: byte)"
  by (auto simp: bit_eq_iff bit_simps)

lemma and_not_fold: "foldl (\<lambda>g i. g AND NOT (d i)) g xs = - 1 \<longleftrightarrow> g = - 1 \<and> (\<forall>i \<in> set xs. d i = (0 :: byte))"
  by (induction xs arbitrary: g) (auto simp: and_not_eq_all)

lemma xor_eq_0: "a XOR b = 0 \<longleftrightarrow> a = (b :: byte)"
proof -
  have "a = (a XOR b) XOR b" by (simp add: xor.assoc)
  then show ?thesis by auto
qed

text \<open>The last \<open>n + 1\<close> bytes fit and those the loop looks at are \<open>n\<close>.\<close>

definition padding_checked :: "byte list \<Rightarrow> nat \<Rightarrow> bool" where
  "padding_checked p n = (n < length p \<and> list_all (\<lambda>b. b = of_nat n) (take (min (n + 1) (min 255 (length p - 1))) (rev p)))"

lemma extractPadding_eq:
  assumes "length p < 2 ^ 31"
  shows "extractPadding p = (if p = [] then (0, 0)
    else let n = unat (last p) in (n + 1, if padding_checked p n then 255 else 0))"
proof (cases "p = []")
  case False
  let ?l = "last p" let ?n = "unat ?l" let ?m = "min 255 (length p - 1)"
  let ?d = "\<lambda>i. (sign_mask (ucast ?l - of_nat i) AND ?l) XOR (sign_mask (ucast ?l - of_nat i) AND p ! (length p - 1 - i))"
  have l: "p ! (length p - 1) = ?l" using False by (simp add: last_conv_nth)
  have u: "(ucast ?l :: u64) = of_nat ?n" by simp
  have p: "0 < length p" using False by simp
  have n: "?n < 256" using unsigned_less [of ?l] by simp
  have m: "(if (255 :: nat) + 1 > length p then length p - 1 else 255) = ?m" by auto
  have good: "sign_mask (of_nat (length p - 1) - ucast ?l) = (if ?n < length p then - 1 else 0)"
  proof -
    have "sign_mask (of_nat (length p - 1) - ucast ?l) = (if ?n \<le> length p - 1 then - 1 else 0)"
      unfolding u by (rule sign_mask_difference) (use assms n in auto)
    moreover have "?n \<le> length p - 1 \<longleftrightarrow> ?n < length p" using p by linarith
    ultimately show ?thesis by simp
  qed
  have step: "?d i = 0 \<longleftrightarrow> (i \<le> ?n \<longrightarrow> rev p ! i = of_nat ?n)" if "i < ?m" for i
  proof -
    have "sign_mask (ucast ?l - of_nat i) = (if i \<le> ?n then - 1 else 0)"
      unfolding u by (rule sign_mask_difference) (use n that in auto)
    moreover have "rev p ! i = p ! (length p - 1 - i)" using that rev_nth [of i p] by (cases "i < length p") auto
    ultimately show ?thesis by (auto simp: xor_eq_0)
  qed
  have "foldl (padding_step p ?l) (sign_mask (of_nat (length p - 1) - ucast ?l)) [0..<?m] = - 1
      \<longleftrightarrow> ?n < length p \<and> (\<forall>i < ?m. i \<le> ?n \<longrightarrow> rev p ! i = of_nat ?n)"
    using step unfolding good padding_step_def Let_def and_not_fold by auto
  also have "\<dots> \<longleftrightarrow> padding_checked p ?n"
    by (auto simp: padding_checked_def list_all_length less_Suc_eq_le)
  finally have f: "foldl (padding_step p ?l) (sign_mask (of_nat (length p - 1) - ucast ?l)) [0..<?m] = - 1 \<longleftrightarrow> padding_checked p ?n" .
  show ?thesis
    using False unfolding extractPadding_def Let_def l m fold_bits_eq f by (simp add: Suc_le_eq)
qed (simp add: extractPadding_def)

lemma padToBlockSize_eq:
  assumes "0 < bs"
  shows "padToBlockSize p bs = (pre, fin) \<Longrightarrow> pre @ fin = p @ replicate (bs - length p mod bs) (of_nat (bs - length p mod bs - 1))"
    and "padToBlockSize p bs = (pre, fin) \<Longrightarrow> length fin = bs"
    and "padToBlockSize p bs = (pre, fin) \<Longrightarrow> length pre mod bs = 0"
proof -
  have "length p mod bs \<le> length p" "length p mod bs < bs" using assms by (auto intro: mod_less_eq_dividend)
  then show "padToBlockSize p bs = (pre, fin) \<Longrightarrow> pre @ fin = p @ replicate (bs - length p mod bs) (of_nat (bs - length p mod bs - 1))"
    and "padToBlockSize p bs = (pre, fin) \<Longrightarrow> length fin = bs" "padToBlockSize p bs = (pre, fin) \<Longrightarrow> length pre mod bs = 0"
    by (auto simp: padToBlockSize_def Let_def simp flip: minus_mod_eq_mult_div)
qed

lemma last_padded: "0 < k \<Longrightarrow> last (p @ replicate k b) = b"
  by (cases k) (simp_all add: last_append)

lemma extractPadding_padded:
  assumes "0 < k" "k \<le> 256" "length p + k < 2 ^ 31"
  shows "extractPadding (p @ replicate k (of_nat (k - 1))) = (k, 255)"
proof -
  let ?b = "of_nat (k - 1) :: byte" and ?q = "p @ replicate k (of_nat (k - 1) :: byte)"
  have n: "unat ?b = k - 1" using assms(2) by (simp add: unat_of_nat)
  have "take (min (k - 1 + 1) (min 255 (length ?q - 1))) (rev ?q) = replicate (min k (min 255 (length ?q - 1))) ?b"
    using assms(1) by (simp add: min_def)
  then have "padding_checked ?q (k - 1)" using assms(1) by (simp only: padding_checked_def) (auto simp: list_all_iff)
  moreover have "length ?q < 2 ^ 31" "?q \<noteq> []" using assms by auto
  ultimately show ?thesis
    using assms(1) by (simp only: extractPadding_eq last_padded n Let_def if_False if_True) simp
qed

lemma extractPaddingSSL30_padded:
  assumes "0 < k" "k \<le> 256"
  shows "extractPaddingSSL30 (p @ replicate k (of_nat (k - 1))) = (k, 255)"
proof -
  have "(p @ replicate k b) ! (length (p @ replicate k b) - 1) = b" for b :: byte using assms(1) by (auto simp: nth_append)
  moreover have "unat (of_nat (k - 1) :: byte) = k - 1" using assms(2) by (simp add: unat_of_nat)
  ultimately show ?thesis using assms(1) by (simp only: extractPaddingSSL30_def Let_def) simp
qed

text \<open>
  C13: The check of the padding finds the padding that \<open>padToBlockSize\<close> writes, and removes exactly it. In general it accepts
  a payload when the padding fits and the bytes it looks at repeat its length; these are all of
  the padding but the first byte of the longest one: with 255 in the last 255 bytes every byte before them passes.
\<close>

theorem tls_padding:
  assumes "0 < bs" "bs \<le> 256" "length p < 2 ^ 30"
  shows "extractPadding p = (if p = [] then (0, 0) else (unat (last p) + 1, if padding_checked p (unat (last p)) then 255 else 0))
    \<and> (case padToBlockSize p bs of (pre, fin) \<Rightarrow>
      length fin = bs \<and> length pre mod bs = 0 \<and> take (length p) (pre @ fin) = p
      \<and> extractPadding (pre @ fin) = (length pre + bs - length p, 255)
      \<and> extractPaddingSSL30 (pre @ fin) = (length pre + bs - length p, 255))
    \<and> extractPadding (p @ [b] @ replicate 255 255) = (256, 255)"
proof (intro conjI)
  show "extractPadding p = (if p = [] then (0, 0) else (unat (last p) + 1, if padding_checked p (unat (last p)) then 255 else 0))"
    using assms by (simp add: extractPadding_eq Let_def)
next
  obtain pre fin where f: "padToBlockSize p bs = (pre, fin)" by fastforce
  note pad = padToBlockSize_eq [OF assms(1) f]
  define k where "k = bs - length p mod bs"
  have k: "0 < k" "k \<le> 256" "length p + k < 2 ^ 31" using assms mod_less_divisor [OF assms(1)] by (auto simp: k_def)
  have q: "pre @ fin = p @ replicate k (of_nat (k - 1))" using pad(1) by (simp add: k_def)
  then have "length pre + bs - length p = k" using pad(2) by (metis add_diff_cancel_left' length_append length_replicate)
  then show "case padToBlockSize p bs of (pre, fin) \<Rightarrow>
      length fin = bs \<and> length pre mod bs = 0 \<and> take (length p) (pre @ fin) = p
      \<and> extractPadding (pre @ fin) = (length pre + bs - length p, 255)
      \<and> extractPaddingSSL30 (pre @ fin) = (length pre + bs - length p, 255)"
    using pad(2,3) extractPadding_padded [OF k] extractPaddingSSL30_padded [OF k(1,2)] unfolding f prod.case q by simp
next
  let ?q = "(p @ [b]) @ replicate 255 (255 :: byte)"
  have "padding_checked ?q 255" by (simp add: padding_checked_def list_all_iff)
  then show "extractPadding (p @ [b] @ replicate 255 255) = (256, 255)"
    using assms extractPadding_eq [of ?q] last_padded [of 255 "p @ [b]" 255] by (simp add: Let_def)
qed

theorem tls_padding_witness:
  "extractPadding [1, 7, 7] = (8, 0) \<and> extractPadding [2, 3] = (4, 0)"
  using tls_padding [of 16 "[1, 7, 7]"] tls_padding [of 16 "[2, 3]"] by (simp add: padding_checked_def)

end
