(* ===== verification/Tls_Ticket.thy ===== *)
theory Tls_Ticket
  imports Tls_Record
begin

text \<open>
  Session tickets (ticket.go, and the ticket keys of common.go): the encoding of a session, its protection with
  AES-CTR and HMAC-SHA-256, and the selection of the key. The ciphers of the standard library are arguments.
\<close>

section \<open>The session\<close>

record sessionState =
  ss_vers :: u16
  ss_cipherSuite :: u16
  ss_masterSecret :: "byte list"
  ss_certificates :: "byte list list"
  ss_usedOldKey :: bool

definition sessionState_equal :: "sessionState \<Rightarrow> sessionState \<Rightarrow> bool" where
  "sessionState_equal s s1 =
     (if ss_vers s \<noteq> ss_vers s1 \<or> ss_cipherSuite s \<noteq> ss_cipherSuite s1 \<or> ss_masterSecret s \<noteq> ss_masterSecret s1 then False
      else if length (ss_certificates s) \<noteq> length (ss_certificates s1) then False
      else list_all2 (=) (ss_certificates s) (ss_certificates s1))"

definition u32_bytes :: "nat \<Rightarrow> byte list" where
  "u32_bytes n = [of_nat (n div 2 ^ 24), of_nat (n div 2 ^ 16), of_nat (n div 2 ^ 8), of_nat n]"

definition marshal_cert :: "byte list \<Rightarrow> byte list" where
  "marshal_cert cert = u32_bytes (length cert) @ cert"

definition sessionState_marshal :: "sessionState \<Rightarrow> byte list" where
  "sessionState_marshal s =
     u16_bytes (unat (ss_vers s)) @ u16_bytes (unat (ss_cipherSuite s)) @ u16_bytes (length (ss_masterSecret s)) @ ss_masterSecret s
     @ u16_bytes (length (ss_certificates s)) @ concat (map marshal_cert (ss_certificates s))"

definition u16_val :: "byte list \<Rightarrow> nat" where
  "u16_val b = 256 * unat (b ! 0) + unat (b ! 1)"

definition u32_val :: "byte list \<Rightarrow> nat" where
  "u32_val b = 2 ^ 24 * unat (b ! 0) + 2 ^ 16 * unat (b ! 1) + 2 ^ 8 * unat (b ! 2) + unat (b ! 3)"

text \<open>The loop over the slots: those it did not reach stay empty, and \<open>None\<close> is a failure.\<close>

fun unmarshal_certs :: "nat \<Rightarrow> byte list \<Rightarrow> byte list list \<times> byte list option" where
  "unmarshal_certs 0 data = ([], Some data)"
| "unmarshal_certs (Suc k) data =
     (if length data < 4 then (replicate (Suc k) [], None)
      else let certLen = u32_val data; data = drop 4 data
           in if length data < certLen then (replicate (Suc k) [], None)
              else case unmarshal_certs k (drop certLen data) of (certs, rest) \<Rightarrow> (take certLen data # certs, rest))"

definition sessionState_unmarshal :: "sessionState \<Rightarrow> byte list \<Rightarrow> sessionState \<times> bool" where
  "sessionState_unmarshal s data =
     (if length data < 8 then (s, False)
      else
        let s = s\<lparr>ss_vers := of_nat (u16_val data), ss_cipherSuite := of_nat (u16_val (drop 2 data))\<rparr>;
            masterSecretLen = u16_val (drop 4 data);
            data = drop 6 data
        in if length data < masterSecretLen then (s, False)
           else
             let s = s\<lparr>ss_masterSecret := take masterSecretLen data\<rparr>;
                 data = drop masterSecretLen data
             in if length data < 2 then (s, False)
                else case unmarshal_certs (u16_val data) (drop 2 data) of (certs, rest) \<Rightarrow>
                       (s\<lparr>ss_certificates := certs\<rparr>, rest = Some []))"

section \<open>Tickets\<close>

definition ticketKeyNameLen :: nat where "ticketKeyNameLen = 16"
definition aes_BlockSize :: nat where "aes_BlockSize = 16"
definition sha256_Size :: nat where "sha256_Size = 32"

record ticketKey =
  keyName :: "byte list"
  aesKey :: "byte list"
  hmacKey :: "byte list"

definition ticketKeyFromBytes :: "(byte list \<Rightarrow> byte list) \<Rightarrow> byte list \<Rightarrow> ticketKey" where
  "ticketKeyFromBytes sha512 b =
     (let hashed = sha512 b
      in \<lparr>keyName = take ticketKeyNameLen hashed, aesKey = take 16 (drop ticketKeyNameLen hashed),
          hmacKey = take 16 (drop (ticketKeyNameLen + 16) hashed)\<rparr>)"

record ticketConfig =
  SessionTicketsDisabled :: bool
  sessionTicketKeys :: "ticketKey list"

text \<open>\<open>None\<close> is the panic on an empty list.\<close>

definition SetSessionTicketKeys :: "(byte list \<Rightarrow> byte list) \<Rightarrow> ticketConfig \<Rightarrow> byte list list \<Rightarrow> ticketConfig option" where
  "SetSessionTicketKeys sha512 c keys =
     (if keys = [] then None else Some (c\<lparr>sessionTicketKeys := map (ticketKeyFromBytes sha512) keys\<rparr>))"

text \<open>The bytes \<open>rnd\<close> are those the source of randomness will give; \<open>None\<close> is the panic without a key.\<close>

definition encryptTicket ::
  "(byte list \<Rightarrow> byte list \<Rightarrow> byte list \<Rightarrow> byte list) \<Rightarrow> (byte list \<Rightarrow> byte list \<Rightarrow> byte list) \<Rightarrow> ticketConfig \<Rightarrow> byte list \<Rightarrow> sessionState
   \<Rightarrow> (tls_error + byte list) option" where
  "encryptTicket ctr hmac c rnd state =
     (let serialized = sessionState_marshal state
      in if length rnd < aes_BlockSize then Some (Inl EntropyError)
         else case sessionTicketKeys c of
             [] \<Rightarrow> None
           | key # _ \<Rightarrow>
               let iv = take aes_BlockSize rnd;
                   encrypted = keyName key @ iv @ ctr (aesKey key) iv serialized
               in Some (Inr (encrypted @ hmac (hmacKey key) encrypted)))"

fun find_key :: "byte list \<Rightarrow> ticketKey list \<Rightarrow> nat \<Rightarrow> nat option" where
  "find_key name [] i = None"
| "find_key name (k # ks) i = (if name = keyName k then Some i else find_key name ks (i + 1))"

text \<open>The state if the ticket is authentic, whether it is in order, and the slice \<open>encrypted\<close>, decrypted in place.\<close>

definition decryptTicket ::
  "(byte list \<Rightarrow> byte list \<Rightarrow> byte list \<Rightarrow> byte list) \<Rightarrow> (byte list \<Rightarrow> byte list \<Rightarrow> byte list) \<Rightarrow> ticketConfig \<Rightarrow> byte list
   \<Rightarrow> sessionState option \<times> bool \<times> byte list" where
  "decryptTicket ctr hmac c encrypted =
     (if SessionTicketsDisabled c \<or> length encrypted < ticketKeyNameLen + aes_BlockSize + sha256_Size then (None, False, encrypted)
      else
        let body = take (length encrypted - sha256_Size) encrypted;
            macBytes = drop (length encrypted - sha256_Size) encrypted;
            iv = take aes_BlockSize (drop ticketKeyNameLen encrypted)
        in case find_key (take ticketKeyNameLen encrypted) (sessionTicketKeys c) 0 of
             None \<Rightarrow> (None, False, encrypted)
           | Some keyIndex \<Rightarrow>
               let key = sessionTicketKeys c ! keyIndex
               in if macBytes \<noteq> hmac (hmacKey key) body then (None, False, encrypted)
                  else
                    let plaintext = ctr (aesKey key) iv (drop (ticketKeyNameLen + aes_BlockSize) body);
                        state = \<lparr>ss_vers = 0, ss_cipherSuite = 0, ss_masterSecret = [], ss_certificates = [], ss_usedOldKey = (0 < keyIndex)\<rparr>
                    in case sessionState_unmarshal state plaintext of (state, ok) \<Rightarrow>
                         (Some state, ok, take (ticketKeyNameLen + aes_BlockSize) body @ plaintext @ macBytes))"

section \<open>The encoding\<close>

lemma length_u16_bytes [simp]: "length (u16_bytes n) = 2"
  by (simp add: u16_bytes_def)

lemma length_u32_bytes [simp]: "length (u32_bytes n) = 4"
  by (simp add: u32_bytes_def)

lemma u16_val_bytes: "n < 2 ^ 16 \<Longrightarrow> u16_val (u16_bytes n @ x) = n"
  by (simp add: u16_val_def u16_bytes_def unat_of_nat)

lemma digits: "2 ^ 8 * a + d = (n :: nat) \<Longrightarrow> 2 ^ 8 * b + e = a \<Longrightarrow> 2 ^ 8 * c + f = b \<Longrightarrow> 2 ^ 24 * c + 2 ^ 16 * f + 2 ^ 8 * e + d = n"
  by simp

lemma u32_val_bytes: "n < 2 ^ 32 \<Longrightarrow> u32_val (u32_bytes n @ x) = n"
proof -
  assume n: "n < 2 ^ 32"
  have d: "n div 2 ^ 16 = n div 2 ^ 8 div 2 ^ 8" "n div 2 ^ 24 = n div 2 ^ 8 div 2 ^ 8 div 2 ^ 8" by (simp_all add: div_mult2_eq [symmetric])
  have "n div 2 ^ 24 < 256" using n by (simp add: div_less_iff_less_mult)
  then have "u32_val (u32_bytes n @ x) = 2 ^ 24 * (n div 2 ^ 8 div 2 ^ 8 div 2 ^ 8) + 2 ^ 16 * (n div 2 ^ 8 div 2 ^ 8 mod 2 ^ 8)
      + 2 ^ 8 * (n div 2 ^ 8 mod 2 ^ 8) + n mod 2 ^ 8"
    unfolding u32_val_def u32_bytes_def d by (simp add: unat_of_nat)
  then show ?thesis
    using digits [OF mult_div_mod_eq [of "2 ^ 8" n] mult_div_mod_eq [of "2 ^ 8" "n div 2 ^ 8"] mult_div_mod_eq [of "2 ^ 8" "n div 2 ^ 8 div 2 ^ 8"]]
    by (rule trans)
qed

lemma byte_multiples: "256 * (b :: byte) = 0" "65536 * (b :: byte) = 0" "16777216 * (b :: byte) = 0"
proof -
  have "(256 :: byte) = 0" "(65536 :: byte) = 0" "(16777216 :: byte) = 0" by simp_all
  then show "256 * b = 0" "65536 * b = 0" "16777216 * b = 0" by (simp_all only: mult_zero_left)
qed

lemma two_bytes: "2 \<le> length b \<Longrightarrow> \<exists>b0 b1 x. b = b0 # b1 # x"
  by (cases b; cases "tl b") auto

lemma unat_byte: "unat (b :: byte) < 256"
  using unsigned_less [of b] by simp

lemma u16_bytes_val: "2 \<le> length b \<Longrightarrow> u16_bytes (u16_val b) = take 2 b"
  using two_bytes [of b] unat_byte by (auto simp: u16_bytes_def u16_val_def byte_multiples)

lemma u32_bytes_val: "4 \<le> length b \<Longrightarrow> u32_bytes (u32_val b) = take 4 b"
proof -
  assume l: "4 \<le> length b"
  obtain b0 b1 x where x: "b = b0 # b1 # x" using l two_bytes [of b] by auto
  obtain b2 b3 y where y: "x = b2 # b3 # y" using l x two_bytes [of x] by auto
  define m where "m = 2 ^ 8 * (2 ^ 8 * (2 ^ 8 * unat b0 + unat b1) + unat b2) + unat b3"
  have "u32_val b = m" by (simp add: u32_val_def x y m_def)
  moreover have d: "m div 2 ^ 8 = 2 ^ 8 * (2 ^ 8 * unat b0 + unat b1) + unat b2" using unat_byte [of b3] by (simp add: m_def)
  moreover have "m div 2 ^ 8 div 2 ^ 8 = 2 ^ 8 * unat b0 + unat b1" unfolding d using unat_byte [of b2] by simp
  moreover from this have "m div 2 ^ 8 div 2 ^ 8 div 2 ^ 8 = unat b0" using unat_byte [of b1] by simp
  moreover have "n div 2 ^ 16 = n div 2 ^ 8 div 2 ^ 8" "n div 2 ^ 24 = n div 2 ^ 8 div 2 ^ 8 div 2 ^ 8" for n :: nat
    by (simp_all add: div_mult2_eq [symmetric])
  ultimately show ?thesis unfolding u32_bytes_def by (simp add: x y m_def byte_multiples)
qed

lemma unmarshal_certs_marshal:
  assumes "list_all (\<lambda>c. length c < 2 ^ 32) certs"
  shows "unmarshal_certs (length certs) (concat (map marshal_cert certs) @ rest) = (certs, Some rest)"
  using assms by (induction certs) (simp_all add: marshal_cert_def u32_val_bytes Let_def)

lemma unmarshal_certs_canonical:
  "unmarshal_certs k data = (certs, Some rest) \<Longrightarrow> length certs = k \<and> data = concat (map marshal_cert certs) @ rest"
proof (induction k arbitrary: data certs)
  case (Suc k)
  let ?n = "u32_val data"
  obtain certs' rest' where r: "unmarshal_certs k (drop ?n (drop 4 data)) = (certs', rest')" by fastforce
  have l: "4 \<le> length data" "?n \<le> length (drop 4 data)" using Suc.prems by (auto simp: Let_def split: if_splits)
  then have c: "certs = take ?n (drop 4 data) # certs'" "rest' = Some rest" using Suc.prems r by (auto simp: Let_def)
  have ih: "length certs' = k" "drop ?n (drop 4 data) = concat (map marshal_cert certs') @ rest" using Suc.IH r c(2) by auto
  have "data = take 4 data @ take ?n (drop 4 data) @ drop ?n (drop 4 data)" by (simp only: append_take_drop_id)
  also have "\<dots> = marshal_cert (take ?n (drop 4 data)) @ drop ?n (drop 4 data)"
    using l by (simp add: marshal_cert_def u32_bytes_val [OF l(1)] min_absorb2)
  finally show ?case using ih c by simp
qed simp

definition session_fits :: "sessionState \<Rightarrow> bool" where
  "session_fits s = (length (ss_masterSecret s) < 2 ^ 16 \<and> length (ss_certificates s) < 2 ^ 16 \<and> list_all (\<lambda>c. length c < 2 ^ 32) (ss_certificates s))"

lemma u16_unat: "of_nat (u16_val (u16_bytes (unat (v :: u16)) @ x)) = v"
proof -
  have "unat v < 2 ^ 16" using unsigned_less [of v] by simp
  then show ?thesis by (simp add: u16_val_bytes)
qed

lemma session_roundtrip:
  assumes "session_fits s"
  shows "sessionState_unmarshal s0 (sessionState_marshal s) = (s\<lparr>ss_usedOldKey := ss_usedOldKey s0\<rparr>, True)"
proof -
  let ?v = "u16_bytes (unat (ss_vers s))" and ?c = "u16_bytes (unat (ss_cipherSuite s))" and ?m = "u16_bytes (length (ss_masterSecret s))"
  let ?tail = "u16_bytes (length (ss_certificates s)) @ concat (map marshal_cert (ss_certificates s))"
  let ?d = "?v @ ?c @ ?m @ ss_masterSecret s @ ?tail"
  have d: "drop 2 ?d = ?c @ ?m @ ss_masterSecret s @ ?tail" "drop 4 ?d = ?m @ ss_masterSecret s @ ?tail" "drop 6 ?d = ss_masterSecret s @ ?tail"
    by simp_all
  have l: "\<not> length ?d < 8" "u16_val (?m @ ss_masterSecret s @ ?tail) = length (ss_masterSecret s)" "u16_val ?tail = length (ss_certificates s)"
    using assms by (simp_all add: session_fits_def u16_val_bytes)
  have "unmarshal_certs (length (ss_certificates s)) (drop 2 ?tail) = (ss_certificates s, Some [])"
    using unmarshal_certs_marshal [of "ss_certificates s" "[]"] assms by (simp add: session_fits_def)
  then show ?thesis
    unfolding sessionState_unmarshal_def sessionState_marshal_def d Let_def l(2) u16_unat if_not_P [OF l(1)] by (simp add: l(3))
qed

lemma u16_unat_val: "2 \<le> length b \<Longrightarrow> u16_bytes (unat (of_nat (u16_val b) :: u16)) = take 2 b"
proof -
  assume l: "2 \<le> length b"
  obtain b0 b1 x where "b = b0 # b1 # x" using two_bytes [OF l] by blast
  then have "u16_val b < 2 ^ 16" using unat_byte [of b0] unat_byte [of b1] by (simp add: u16_val_def)
  then show ?thesis using u16_bytes_val [OF l] by (simp add: unat_of_nat)
qed

lemma session_canonical:
  assumes "sessionState_unmarshal s0 data = (s, True)"
  shows "sessionState_marshal s = data \<and> ss_usedOldKey s = ss_usedOldKey s0"
proof -
  let ?n = "u16_val (drop 4 data)" let ?r = "drop ?n (drop 6 data)"
  have l: "8 \<le> length data" "?n \<le> length (drop 6 data)" "2 \<le> length ?r"
    using assms by (auto simp: sessionState_unmarshal_def Let_def split: if_splits)
  obtain certs rest where c: "unmarshal_certs (u16_val ?r) (drop 2 ?r) = (certs, rest)" by fastforce
  have s: "s = s0\<lparr>ss_vers := of_nat (u16_val data), ss_cipherSuite := of_nat (u16_val (drop 2 data)), ss_masterSecret := take ?n (drop 6 data), ss_certificates := certs\<rparr>"
    "rest = Some []"
    using assms l c by (auto simp: sessionState_unmarshal_def Let_def not_less)
  have certs: "length certs = u16_val ?r" "drop 2 ?r = concat (map marshal_cert certs)"
    using unmarshal_certs_canonical [of "u16_val ?r" "drop 2 ?r" certs "[]"] c s(2) by auto
  have six: "drop 6 data = drop 2 (drop 4 data)" and four: "drop 4 data = drop 2 (drop 2 data)" by simp_all
  have "data = take 2 data @ take 2 (drop 2 data) @ take 2 (drop 4 data) @ take ?n (drop 6 data) @ take 2 ?r @ drop 2 ?r"
    by (simp only: six four append_take_drop_id)
  then show ?thesis using l s(1) certs by (simp add: sessionState_marshal_def u16_unat_val u16_bytes_val min_absorb2)
qed

section \<open>The ticket\<close>

lemma find_key_Some:
  "find_key name ks i = Some j \<Longrightarrow> i \<le> j \<and> j - i < length ks \<and> keyName (ks ! (j - i)) = name"
  by (induction name ks i rule: find_key.induct) (force simp: nth_Cons' Suc_le_eq split: if_splits)+

text \<open>What the documentation of packages \<open>cipher\<close> and \<open>hmac\<close> says of AES-CTR and HMAC-SHA-256.\<close>

definition ticket_crypto :: "(byte list \<Rightarrow> byte list \<Rightarrow> byte list \<Rightarrow> byte list) \<Rightarrow> (byte list \<Rightarrow> byte list \<Rightarrow> byte list) \<Rightarrow> bool" where
  "ticket_crypto ctr hmac = ((\<forall>k iv x. ctr k iv (ctr k iv x) = x \<and> length (ctr k iv x) = length x) \<and> (\<forall>k x. length (hmac k x) = sha256_Size))"

lemma decryptTicket_accepts:
  assumes "\<not> SessionTicketsDisabled c" "find_key (keyName key) (sessionTicketKeys c) 0 = Some i" "sessionTicketKeys c ! i = key"
    and "length (keyName key) = ticketKeyNameLen" "length iv = aes_BlockSize" "length (hmac (hmacKey key) (keyName key @ iv @ x)) = sha256_Size"
    and "body = keyName key @ iv @ x"
  shows "decryptTicket ctr hmac c (body @ hmac (hmacKey key) body)
    = (case sessionState_unmarshal \<lparr>ss_vers = 0, ss_cipherSuite = 0, ss_masterSecret = [], ss_certificates = [], ss_usedOldKey = (0 < i)\<rparr> (ctr (aesKey key) iv x) of
        (state, ok) \<Rightarrow> (Some state, ok, keyName key @ iv @ ctr (aesKey key) iv x @ hmac (hmacKey key) body))"
  using assms by (simp add: decryptTicket_def Let_def split: prod.splits)

text \<open>A ticket in order under a key: its name, its MAC, and the session it holds.\<close>

definition ticket_of ::
  "(byte list \<Rightarrow> byte list \<Rightarrow> byte list \<Rightarrow> byte list) \<Rightarrow> (byte list \<Rightarrow> byte list \<Rightarrow> byte list) \<Rightarrow> byte list \<Rightarrow> sessionState \<Rightarrow> ticketKey \<Rightarrow> bool" where
  "ticket_of ctr hmac t state key =
     (take ticketKeyNameLen t = keyName key
      \<and> drop (length t - sha256_Size) t = hmac (hmacKey key) (take (length t - sha256_Size) t)
      \<and> sessionState_marshal state = ctr (aesKey key) (take aes_BlockSize (drop ticketKeyNameLen t))
          (drop (ticketKeyNameLen + aes_BlockSize) (take (length t - sha256_Size) t)))"

lemma decryptTicket_authentic:
  assumes "decryptTicket ctr hmac c t = (Some state, True, buf)"
  shows "list_ex (ticket_of ctr hmac t state) (sessionTicketKeys c)"
proof -
  obtain i where i: "find_key (take ticketKeyNameLen t) (sessionTicketKeys c) 0 = Some i"
    using assms by (auto simp: decryptTicket_def Let_def split: if_splits option.splits)
  let ?k = "sessionTicketKeys c ! i"
  have k: "?k \<in> set (sessionTicketKeys c)" "keyName ?k = take ticketKeyNameLen t" using find_key_Some [OF i] by auto
  let ?body = "take (length t - sha256_Size) t"
  let ?p = "ctr (aesKey ?k) (take aes_BlockSize (drop ticketKeyNameLen t)) (drop (ticketKeyNameLen + aes_BlockSize) ?body)"
  have m: "drop (length t - sha256_Size) t = hmac (hmacKey ?k) ?body"
    and u: "sessionState_unmarshal \<lparr>ss_vers = 0, ss_cipherSuite = 0, ss_masterSecret = [], ss_certificates = [], ss_usedOldKey = (0 < i)\<rparr> ?p = (state, True)"
    using assms i by (auto simp: decryptTicket_def Let_def split: if_splits prod.splits)
  have "ticket_of ctr hmac t state ?k" using k(2) m session_canonical [OF u] by (simp add: ticket_of_def)
  then show ?thesis using k(1) by (auto simp: list_ex_iff)
qed

text \<open>
  C12: A ticket that a server issues is accepted by every server that finds the key under its name, and gives back the session, marked
  when the key is not the first; the slice of the ticket is overwritten with the session in the clear. A ticket
  that is accepted in order has the name and the MAC of one of the keys and holds the encoding of the session it
  gives, byte for byte. Without a key \<open>encryptTicket\<close> panics, and without randomness it fails.
\<close>

theorem tls_tickets:
  assumes "ticket_crypto ctr hmac" "session_fits s" "aes_BlockSize \<le> length rnd" "sessionTicketKeys c = key # ks" "length (keyName key) = ticketKeyNameLen"
    and "\<not> SessionTicketsDisabled c'" "find_key (keyName key) (sessionTicketKeys c') 0 = Some i" "sessionTicketKeys c' ! i = key"
  shows "(\<exists>t pre mac. encryptTicket ctr hmac c rnd s = Some (Inr t)
      \<and> decryptTicket ctr hmac c' t = (Some (s\<lparr>ss_usedOldKey := (0 < i)\<rparr>), True, pre @ sessionState_marshal s @ mac) \<and> length pre = 32 \<and> length mac = 32)
    \<and> (\<forall>t' state buf. decryptTicket ctr hmac c' t' = (Some state, True, buf) \<longrightarrow> list_ex (ticket_of ctr hmac t' state) (sessionTicketKeys c'))
    \<and> encryptTicket ctr hmac (c\<lparr>sessionTicketKeys := []\<rparr>) rnd s = None
    \<and> encryptTicket ctr hmac c [] s = Some (Inl EntropyError)"
proof (intro conjI allI impI)
  let ?iv = "take aes_BlockSize rnd" let ?x = "ctr (aesKey key) ?iv (sessionState_marshal s)"
  let ?body = "keyName key @ ?iv @ ?x" let ?mac = "hmac (hmacKey key) ?body"
  have l: "length ?iv = aes_BlockSize" "length ?mac = sha256_Size" "ctr (aesKey key) ?iv ?x = sessionState_marshal s"
    using assms(1,3) by (simp_all add: ticket_crypto_def)
  have "decryptTicket ctr hmac c' (?body @ ?mac) = (Some (s\<lparr>ss_usedOldKey := (0 < i)\<rparr>), True, keyName key @ ?iv @ sessionState_marshal s @ ?mac)"
    using decryptTicket_accepts [OF assms(6-8,5) l(1), of hmac ?x ?body ctr] l(2) session_roundtrip [OF assms(2)] unfolding l(3) by simp
  moreover have "encryptTicket ctr hmac c rnd s = Some (Inr (?body @ ?mac))" using assms(3,4) by (simp add: encryptTicket_def Let_def)
  ultimately show "\<exists>t pre mac. encryptTicket ctr hmac c rnd s = Some (Inr t)
      \<and> decryptTicket ctr hmac c' t = (Some (s\<lparr>ss_usedOldKey := (0 < i)\<rparr>), True, pre @ sessionState_marshal s @ mac) \<and> length pre = 32 \<and> length mac = 32"
    using l(1,2) assms(5)
    by (intro exI [of _ "?body @ ?mac"] exI [of _ "keyName key @ ?iv"] exI [of _ ?mac]) (simp add: ticketKeyNameLen_def aes_BlockSize_def sha256_Size_def)
next
  show "encryptTicket ctr hmac (c\<lparr>sessionTicketKeys := []\<rparr>) rnd s = None" using assms(3) by (simp add: encryptTicket_def Let_def)
  show "encryptTicket ctr hmac c [] s = Some (Inl EntropyError)" by (simp add: encryptTicket_def Let_def aes_BlockSize_def)
qed (rule decryptTicket_authentic)

theorem tls_tickets_witness:
  "let ctr = (\<lambda>k iv x. map (\<lambda>b. NOT b) x); hmac = (\<lambda>k x. replicate 32 (foldl (+) 0 (k @ x)));
       old = \<lparr>keyName = replicate 16 1, aesKey = replicate 16 2, hmacKey = replicate 16 3\<rparr>;
       new = \<lparr>keyName = replicate 16 4, aesKey = replicate 16 5, hmacKey = replicate 16 6\<rparr>;
       s = \<lparr>ss_vers = VersionTLS12, ss_cipherSuite = 0xe013, ss_masterSecret = [1, 2, 3], ss_certificates = [[], [9]], ss_usedOldKey = False\<rparr>
   in \<exists>t buf. encryptTicket ctr hmac \<lparr>SessionTicketsDisabled = False, sessionTicketKeys = [old]\<rparr> (replicate 16 7) s = Some (Inr t)
     \<and> decryptTicket ctr hmac \<lparr>SessionTicketsDisabled = False, sessionTicketKeys = [new, old]\<rparr> t = (Some (s\<lparr>ss_usedOldKey := True\<rparr>), True, buf)"
proof -
  let ?ctr = "\<lambda>(k :: byte list) (iv :: byte list) x. map (\<lambda>b. NOT b) x :: byte list"
  let ?hmac = "\<lambda>k x. replicate 32 (foldl (+) 0 (k @ x)) :: byte list"
  let ?old = "\<lparr>keyName = replicate 16 1, aesKey = replicate 16 2, hmacKey = replicate 16 3\<rparr> :: ticketKey"
  let ?new = "\<lparr>keyName = replicate 16 4, aesKey = replicate 16 5, hmacKey = replicate 16 6\<rparr> :: ticketKey"
  let ?s = "\<lparr>ss_vers = VersionTLS12, ss_cipherSuite = 0xe013, ss_masterSecret = [1, 2, 3], ss_certificates = [[], [9]], ss_usedOldKey = False\<rparr>"
  let ?c = "\<lparr>SessionTicketsDisabled = False, sessionTicketKeys = [?old]\<rparr>" and ?c' = "\<lparr>SessionTicketsDisabled = False, sessionTicketKeys = [?new, ?old]\<rparr>"
  have crypto: "ticket_crypto ?ctr ?hmac" by (simp add: ticket_crypto_def comp_def sha256_Size_def)
  have fits: "session_fits ?s" by (simp add: session_fits_def)
  have found: "find_key (keyName ?old) (sessionTicketKeys ?c') 0 = Some 1" by simp
  have lens: "aes_BlockSize \<le> length (replicate 16 (7 :: byte))" "length (keyName ?old) = ticketKeyNameLen" by (simp_all add: aes_BlockSize_def ticketKeyNameLen_def)
  show ?thesis
    using conjunct1 [OF tls_tickets [OF crypto fits lens(1) _ lens(2) _ found, of ?c "[]"]] unfolding Let_def by auto
qed

end
