(* ===== verification/Tls_Protect.thy ===== *)
theory Tls_Protect
  imports Tls_Record
begin

unbundle bit_operations_syntax

text \<open>
  The two ends of a direction of the record layer: what \<open>decrypt\<close> recovers of a record that \<open>encrypt\<close> protected.
\<close>

section \<open>Matching ends\<close>

text \<open>
  What the documentation of package \<open>cipher\<close> promises of a cipher and its inverse: \<open>R\<close> relates the states at the two ends.
\<close>

definition inverse_step :: "('s \<Rightarrow> 't \<Rightarrow> bool) \<Rightarrow> ('s \<Rightarrow> byte list \<Rightarrow> byte list \<times> 's) \<Rightarrow> ('t \<Rightarrow> byte list \<Rightarrow> byte list \<times> 't) \<Rightarrow> 's \<Rightarrow> 't \<Rightarrow> byte list \<Rightarrow> bool" where
  "inverse_step R f g s t x = (case f s x of (y, s') \<Rightarrow> case g t y of (z, t') \<Rightarrow> z = x \<and> length y = length x \<and> R s' t')"

fun dual_cipher :: "('s \<Rightarrow> 't \<Rightarrow> bool) \<Rightarrow> 's cipher \<Rightarrow> 't cipher \<Rightarrow> bool" where
  "dual_cipher R (Stream f s) (Stream g t) = (R s t \<and> (\<forall>s t x. R s t \<longrightarrow> inverse_step R f g s t x))"
| "dual_cipher R (Aead n ov sl op) (Aead n' ov' sl' op') =
     (n = n' \<and> ov = ov' \<and> n + ov \<le> 1024 \<and> (\<forall>nonce x ad. op' nonce (sl nonce x ad) ad = Some x \<and> length (sl nonce x ad) = length x + ov))"
| "dual_cipher R (Cbc b f iv s) (Cbc b' g iv' t) =
     (b = b' \<and> 0 < b \<and> b \<le> 256 \<and> R s t \<and> (\<forall>v. length v = b \<longrightarrow> R (iv v) (iv' v)) \<and>
      (\<forall>s t x. R s t \<longrightarrow> length x mod b = 0 \<longrightarrow> inverse_step R f g s t x) \<and>
      (\<forall>t y1 y2. length y1 mod b = 0 \<longrightarrow> g t (y1 @ y2) = (case g t y1 of (x1, t) \<Rightarrow> case g t y2 of (x2, t) \<Rightarrow> (x1 @ x2, t))))"
| "dual_cipher R _ _ = False"

definition is_cbc :: "'s cipher \<Rightarrow> bool" where
  "is_cbc c = (case c of Cbc b f iv s \<Rightarrow> True | _ \<Rightarrow> False)"

definition mac_ok :: "macFunction \<Rightarrow> bool" where
  "mac_ok m = (mac_Size m \<le> 512 \<and> (\<forall>sq h x. length (mac_MAC m sq h x) = mac_Size m))"

fun dual_ciphers :: "('s \<Rightarrow> 't \<Rightarrow> bool) \<Rightarrow> macFunction option \<Rightarrow> 's cipher option \<Rightarrow> 't cipher option \<Rightarrow> bool" where
  "dual_ciphers R m None None = True"
| "dual_ciphers R m (Some c) (Some d) = (dual_cipher R c d \<and> (is_cbc d \<longrightarrow> m \<noteq> None))"
| "dual_ciphers R m _ _ = False"

definition matched :: "('s \<Rightarrow> 't \<Rightarrow> bool) \<Rightarrow> 's halfConn \<Rightarrow> 't halfConn \<Rightarrow> bool" where
  "matched R w r =
     (hc_version w = hc_version r \<and> hc_mac w = hc_mac r \<and> hc_seq w = hc_seq r \<and> length (hc_seq r) = 8 \<and>
      (\<forall>m. hc_mac r = Some m \<longrightarrow> mac_ok m) \<and> dual_ciphers R (hc_mac r) (hc_cipher w) (hc_cipher r))"

definition record_header :: "byte \<Rightarrow> byte \<Rightarrow> byte \<Rightarrow> nat \<Rightarrow> byte list" where
  "record_header typ v1 v2 n = [typ, v1, v2] @ u16_bytes n"

lemma length_record_header [simp]: "length (record_header t v1 v2 n) = 5"
  by (simp add: record_header_def u16_bytes_def)

lemma set_length_header [simp]: "set_length (record_header t v1 v2 n @ x) m = record_header t v1 v2 m @ x"
  by (simp add: set_length_def record_header_def u16_bytes_def)

lemma additionalData_header [simp]: "additionalData sq (record_header t v1 v2 n @ x) m = additionalData sq (record_header t v1 v2 0) m"
  by (simp add: additionalData_def record_header_def)

section \<open>The sequence number\<close>

lemma inc_bytes_length: "inc_bytes s i = Some s' \<Longrightarrow> length s' = length s"
  by (induction s i rule: inc_bytes.induct) (auto simp: Let_def split: if_splits)

lemma incSeq_matched:
  assumes "matched R w r" "incSeq w = Some w'"
  shows "\<exists>r'. incSeq r = Some r' \<and> matched R w' r'"
  using assms inc_bytes_length by (auto simp: matched_def incSeq_def)

section \<open>The cipher\<close>

lemma is_cbc_simps [simp]: "\<not> is_cbc (Stream f s)" "\<not> is_cbc (Aead n ov sl op)" "is_cbc (Cbc b f iv s)"
  by (simp_all add: is_cbc_def)

lemma roundUp_le: "0 < b \<Longrightarrow> n mod b = 0 \<Longrightarrow> a \<le> n \<Longrightarrow> roundUp a b \<le> n"
proof -
  assume b: "0 < b" and n: "n mod b = 0" "a \<le> n"
  show "roundUp a b \<le> n"
  proof (cases "a mod b = 0")
    case True
    then show ?thesis using n by (simp add: roundUp_def)
  next
    case False
    have "a mod b < b" using b by simp
    have "roundUp a b = a + (b - a mod b)" using False b by (simp add: roundUp_def)
    also have "\<dots> = b * (a div b) + b" using mult_div_mod_eq [of b a] \<open>a mod b < b\<close> by linarith
    finally have "roundUp a b = b * (a div b + 1)" by simp
    moreover have "a div b \<noteq> n div b"
    proof
      assume "a div b = n div b"
      then have "a = n + a mod b" using mult_div_mod_eq [of b a] mult_div_mod_eq [of b n] n(1) by simp
      then show False using n(2) False by linarith
    qed
    then have "a div b + 1 \<le> n div b" using div_le_mono [OF n(2), of b] by simp
    then have "b * (a div b + 1) \<le> b * (n div b)" by (rule mult_le_mono2)
    ultimately show ?thesis using n(1) mult_div_mod_eq [of b n] by simp
  qed
qed

text \<open>What the cipher of the reader recovers of a payload, with its padding.\<close>

definition recovered :: "('s \<Rightarrow> 't \<Rightarrow> bool) \<Rightarrow> macFunction option \<Rightarrow> 's cipher option \<Rightarrow> byte list \<Rightarrow> byte list \<Rightarrow> byte list \<Rightarrow> (byte list \<times> 't cipher \<times> nat \<times> nat \<times> byte) option \<Rightarrow> bool" where
  "recovered R m c h iv y res = (\<exists>d pad. res = Some (h @ iv @ y @ pad, d, length iv, length pad, 255)
     \<and> dual_ciphers R m c (Some d) \<and> (m = None \<longrightarrow> pad = []) \<and> length pad \<le> 256)"

lemma stream_payload:
  assumes "dual_cipher R (Stream f s) (Stream g t)"
    and "encrypt_payload w (Stream f s) (record_header a v1 v2 n @ y) 0 = (data, c)"
  shows "\<exists>out. data = record_header a v1 v2 n @ out \<and> length out = length y
    \<and> recovered R m (Some c) (record_header a v1 v2 k) [] y (decrypt_payload r (Stream g t) (record_header a v1 v2 k @ out) ms)"
proof -
  obtain out s' where o: "f s y = (out, s')" by fastforce
  obtain z t' where z: "g t out = (z, t')" by fastforce
  have "z = y" "length out = length y" "R s' t'"
    using spec [OF spec [OF spec [OF conjunct2 [OF assms(1) [unfolded dual_cipher.simps]]]], of s t y] assms(1) o z by (auto simp: inverse_step_def)
  then show ?thesis using assms o z by (auto simp: encrypt_payload_def decrypt_payload_def recovered_def recordHeaderLen_def)
qed

lemma aead_payload:
  assumes "dual_cipher R (Aead n ov sl op) (Aead n' ov' sl' op')" "length iv = n" "hc_seq w = hc_seq r"
    and "encrypt_payload w (Aead n ov sl op) (record_header a v1 v2 l @ iv @ y) (length iv) = (data, c)"
  shows "\<exists>out. data = record_header a v1 v2 l @ out \<and> length out = length iv + length y + ov
    \<and> recovered R m (Some c) (record_header a v1 v2 k) iv y (decrypt_payload r (Aead n' ov' sl' op') (record_header a v1 v2 k @ out) ms)"
proof -
  let ?nonce = "if length iv = 0 then hc_seq r else iv"
  let ?ad = "additionalData (hc_seq r) (record_header a v1 v2 0) (int (length y))"
  let ?out = "iv @ sl ?nonce y ?ad"
  have e: "data = record_header a v1 v2 l @ ?out" "c = Aead n ov sl op"
    using assms(2-4) by (auto simp: encrypt_payload_def recordHeaderLen_def Let_def)
  have o: "op' ?nonce (sl ?nonce y ?ad) ?ad = Some y" "length (sl ?nonce y ?ad) = length y + ov" "n' = n" "ov' = ov" using assms(1) by auto
  have "decrypt_payload r (Aead n' ov' sl' op') (record_header a v1 v2 k @ ?out) ms
      = Some (record_header a v1 v2 k @ iv @ y, Aead n' ov' sl' op', length iv, 0, 255)"
    using o(1,2) assms(2) unfolding o(3,4) by (auto simp: decrypt_payload_def recordHeaderLen_def Let_def)
  then show ?thesis using e o assms(1) by (auto simp: recovered_def)
qed

lemma cbc_payload:
  assumes "dual_cipher R (Cbc b f iv s) (Cbc b' g iv' t)" "length v = 0 \<or> length v = b" "m = Some mac" "ms \<le> length y" "length y < 2 ^ 30"
    and "hc_version r = hc_version w" "length v = (if VersionTLS11 \<le> hc_version w then b else 0)"
    and "encrypt_payload w (Cbc b f iv s) (record_header a v1 v2 l @ v @ y) (length v) = (data, c)"
  shows "\<exists>out. data = record_header a v1 v2 l @ out \<and> length out \<le> length v + length y + 256
    \<and> recovered R m (Some c) (record_header a v1 v2 k) v y (decrypt_payload r (Cbc b' g iv' t) (record_header a v1 v2 k @ out) ms)"
proof -
  have b: "b' = b" "0 < b" "b \<le> 256" using assms(1) by auto
  have inv: "R s t \<Longrightarrow> length x mod b = 0 \<Longrightarrow> inverse_step R f g s t x" for s t x using assms(1) by auto
  have chain: "length y1 mod b = 0 \<Longrightarrow> g t (y1 @ y2) = (case g t y1 of (x1, t) \<Rightarrow> case g t y2 of (x2, t) \<Rightarrow> (x1 @ x2, t))" for t y1 y2
    using assms(1) by auto
  define s0 where "s0 = (if 0 < length v then iv v else s)"
  define t0 where "t0 = (if 0 < length v then iv' v else t)"
  have R0: "R s0 t0" using assms(1,2) by (auto simp: s0_def t0_def)
  obtain pre fin where p: "padToBlockSize y b = (pre, fin)" by fastforce
  note pad = padToBlockSize_eq [OF b(2) p]
  obtain o1 s1 where o1: "f s0 pre = (o1, s1)" by fastforce
  obtain o2 s2 where o2: "f s1 fin = (o2, s2)" by fastforce
  obtain z1 t1 where z1: "g t0 o1 = (z1, t1)" by fastforce
  obtain z2 t2 where z2: "g t1 o2 = (z2, t2)" by fastforce
  have e: "data = record_header a v1 v2 l @ v @ o1 @ o2 \<and> c = Cbc b f iv s2"
    using assms(8) o1 o2 by (cases "v = []") (simp_all add: encrypt_payload_def recordHeaderLen_def Let_def p s0_def)
  have i1: "z1 = pre" "length o1 = length pre" "R s1 t1" using inv [OF R0 pad(3)] o1 z1 by (auto simp: inverse_step_def)
  have i2: "z2 = fin" "length o2 = length fin" "R s2 t2" using inv [OF i1(3), of fin] pad(2) o2 z2 by (auto simp: inverse_step_def)
  have g: "g t0 (o1 @ o2) = (pre @ fin, t2)" using chain [of o1 t0 o2] pad(3) i1 i2 z1 z2 by simp
  define q where "q = b - length y mod b"
  have q: "0 < q" "q \<le> 256" "length y + q < 2 ^ 31" using b assms(5) mod_less_divisor [OF b(2), of "length y"] by (auto simp: q_def)
  have y: "pre @ fin = y @ replicate q (of_nat (q - 1))" using pad(1) by (simp add: q_def)
  have len: "length o1 + length o2 = length y + q" using i1(2) i2(2) arg_cong [OF y, of length] by simp
  have "length (pre @ fin) mod b = 0" using pad(2,3) by simp
  then have mods: "(length v + (length o1 + length o2)) mod b = 0" using assms(2) i1(2) i2(2) by auto
  have "roundUp (length v + ms + 1) b \<le> length v + (length o1 + length o2)"
    by (rule roundUp_le [OF b(2) mods]) (use len q(1) assms(4) in auto)
  moreover have "(if VersionTLS11 \<le> hc_version r then b else 0) = length v" using assms(6,7) by simp
  moreover have "(if hc_version r = VersionSSL30 then extractPaddingSSL30 (pre @ fin) else extractPadding (pre @ fin)) = (q, 255)"
    unfolding y using extractPadding_padded [OF q] extractPaddingSSL30_padded [OF q(1,2)] by simp
  ultimately have "decrypt_payload r (Cbc b g iv' t) (record_header a v1 v2 k @ v @ o1 @ o2) ms
      = Some (record_header a v1 v2 k @ v @ pre @ fin, Cbc b g iv' t2, length v, q, 255)"
    using mods g by (cases "v = []") (simp_all add: decrypt_payload_def recordHeaderLen_def Let_def t0_def)
  then show ?thesis using e len q(2) assms(1,3) i2(3) unfolding y b(1) recovered_def
    by (intro exI [of _ "v @ o1 @ o2"]) auto
qed

section \<open>A record\<close>

definition mac_bytes :: "'s halfConn \<Rightarrow> byte list \<Rightarrow> byte list \<Rightarrow> byte list" where
  "mac_bytes hc h x = (case hc_mac hc of None \<Rightarrow> [] | Some m \<Rightarrow> mac_MAC m (hc_seq hc) h x)"

lemma strip_mac_eq:
  assumes "mac_ok m" "tag = mac_MAC m sq (record_header a v1 v2 (length x)) x" "length x < 2 ^ 29" "length pad \<le> 256"
  shows "strip_mac m sq (record_header a v1 v2 k @ v @ (x @ tag) @ pad) (length v) (length pad) 255
    = Some (record_header a v1 v2 (length x) @ v @ x)"
proof -
  have l: "length tag = mac_Size m" using assms(1,2) by (simp add: mac_ok_def)
  have "\<not> bit (int (length x)) 31" using assms(3) by (simp add: bit_iff_odd)
  moreover have "int (length (x @ tag @ pad)) - int (mac_Size m) - int (length pad) = int (length x)" using l by simp
  ultimately show ?thesis using l assms(2) by (simp add: strip_mac_def recordHeaderLen_def Let_def)
qed

lemma incSeq_cipher: "incSeq (hc\<lparr>hc_cipher := c\<rparr>) = map_option (\<lambda>hc. hc\<lparr>hc_cipher := c\<rparr>) (incSeq hc)"
  by (cases "inc_bytes (hc_seq hc) 8") (simp_all add: incSeq_def)

text \<open>
  A record: the writer puts the header, the explicit nonce \<open>iv\<close> of the right length and the payload \<open>x\<close> into the block.
\<close>

lemma cipher_record:
  assumes "matched R w r" "length iv = explicit_len w" "length x < 2 ^ 29"
    and "mac_bytes w (record_header a v1 v2 (length x)) x = tag"
    and "hc_cipher w = Some c" "encrypt_payload w c (record_header a v1 v2 (length x) @ iv @ x @ tag) (length iv) = (data, c')"
  shows "\<exists>d out. hc_cipher r = Some d \<and> data = record_header a v1 v2 (length x) @ out \<and> length out \<le> length x + 2048
    \<and> recovered R (hc_mac r) (Some c') (record_header a v1 v2 k) iv (x @ tag)
        (decrypt_payload r d (record_header a v1 v2 k @ out) (case hc_mac r of None \<Rightarrow> 0 | Some m \<Rightarrow> mac_Size m))"
proof -
  let ?ms = "case hc_mac r of None \<Rightarrow> 0 | Some m \<Rightarrow> mac_Size m"
  obtain d where d: "hc_cipher r = Some d" "dual_cipher R c d" "is_cbc d \<longrightarrow> hc_mac r \<noteq> None"
    using assms(1,5) by (cases "hc_cipher r") (auto simp: matched_def)
  have tag: "length tag = ?ms" "?ms \<le> 512"
    using assms(1,4) by (auto simp: matched_def mac_bytes_def mac_ok_def split: option.splits)
  show ?thesis
  proof (cases c)
    case c: (Stream f s)
    then obtain g t where g: "d = Stream g t" using d(2) by (cases d) auto
    have "iv = []" using assms(2,5) c by (simp add: explicit_len_def)
    then show ?thesis
      using stream_payload [OF d(2) [unfolded c g], of w a v1 v2 "length x" "x @ tag" data c' "hc_mac r" k r ?ms] assms(6) d(1) tag
      unfolding c g by auto
  next
    case c: (Aead n ov sl op)
    then obtain n' ov' sl' op' where g: "d = Aead n' ov' sl' op'" using d(2) by (cases d) auto
    have iv: "length iv = n" using assms(2,5) c by (simp add: explicit_len_def)
    moreover have "hc_seq w = hc_seq r" using assms(1) by (simp add: matched_def)
    moreover have "length iv + ov \<le> 1024" using d(2) iv by (auto simp: c g)
    ultimately show ?thesis
      using aead_payload [OF d(2) [unfolded c g], of iv w r a v1 v2 "length x" "x @ tag" data c' "hc_mac r" k ?ms] assms(6) d(1) tag
      unfolding c g by auto
  next
    case c: (Cbc b f v s)
    then obtain b' g v' t where g: "d = Cbc b' g v' t" using d(2) by (cases d) auto
    obtain m where m: "hc_mac r = Some m" using d(3) by (auto simp: g)
    have vers: "hc_version r = hc_version w" using assms(1) by (simp add: matched_def)
    have iv: "length iv = (if VersionTLS11 \<le> hc_version w then b else 0)" using assms(2,5) c by (simp add: explicit_len_def)
    moreover have "b \<le> 256" using d(2) by (simp add: c g)
    ultimately show ?thesis
      using cbc_payload [OF d(2) [unfolded c g] _ m _ _ vers iv, of ?ms "x @ tag" a v1 v2 "length x" data c' k] assms(3,6) d(1) tag
      unfolding c g by (auto simp: m split: if_splits)
  qed
qed

lemma matched_step:
  assumes "matched R w r" "dual_ciphers R (hc_mac r) c d" "incSeq w = Some w'"
  shows "\<exists>r'. incSeq r = Some r' \<and> matched R (w'\<lparr>hc_cipher := c\<rparr>) (r'\<lparr>hc_cipher := d\<rparr>)"
  using incSeq_matched [OF assms(1,3)] assms(1,2) by (auto simp: matched_def incSeq_def)

text \<open>The second half of \<open>decrypt\<close> on what the first recovered.\<close>

definition decrypt_end :: "'s halfConn \<Rightarrow> (byte list \<times> 's halfConn \<times> nat \<times> nat \<times> byte) \<Rightarrow> 's decrypted option" where
  "decrypt_end hc0 st = (case st of (data, hc, explicitIVLen, paddingLen, paddingGood) \<Rightarrow>
     (case (case hc_mac hc of None \<Rightarrow> Some data
            | Some m \<Rightarrow> strip_mac m (hc_seq hc) data explicitIVLen paddingLen paddingGood) of
        None \<Rightarrow> Some (Rejected alertBadRecordMAC hc)
      | Some data \<Rightarrow> map_option (\<lambda>hc. Accepted (recordHeaderLen + explicitIVLen) data hc) (incSeq hc)))"

lemma decrypt_no_cipher: "hc_cipher r = None \<Longrightarrow> decrypt r data = decrypt_end r (data, r, 0, 0, 255)"
  by (simp add: decrypt_def decrypt_end_def)

lemma decrypt_cipher:
  assumes "hc_cipher r = Some d"
    and "decrypt_payload r d data (case hc_mac r of None \<Rightarrow> 0 | Some m \<Rightarrow> mac_Size m) = Some (data', d', n, p, g)"
  shows "decrypt r data = decrypt_end r (data', r\<lparr>hc_cipher := Some d'\<rparr>, n, p, g)"
  using assms by (simp add: decrypt_def decrypt_end_def Let_def)

lemma decrypt_end_matched:
  assumes "matched R w r" "length x < 2 ^ 29" "mac_bytes w (record_header a v1 v2 (length x)) x = tag" "length pad \<le> 256"
    and "hc_mac r = None \<longrightarrow> pad = []" "hc_mac r' = hc_mac r" "hc_seq r' = hc_seq r" "incSeq r' = Some r''"
  shows "\<exists>h. length h = 5 \<and> decrypt_end r (record_header a v1 v2 k @ iv @ (x @ tag) @ pad, r', length iv, length pad, 255)
    = Some (Accepted (5 + length iv) (h @ iv @ x) r'')"
proof (cases "hc_mac r")
  case None
  then have "pad = []" "tag = []" using assms(1,3,5) by (auto simp: matched_def mac_bytes_def)
  then show ?thesis using None assms(6,8)
    by (intro exI [of _ "record_header a v1 v2 k"]) (simp add: decrypt_end_def recordHeaderLen_def)
next
  case (Some m)
  have "mac_ok m" "tag = mac_MAC m (hc_seq r) (record_header a v1 v2 (length x)) x"
    using assms(1,3) Some by (auto simp: matched_def mac_bytes_def)
  from strip_mac_eq [OF this assms(2,4), of k iv] show ?thesis using Some assms(6-8)
    by (intro exI [of _ "record_header a v1 v2 (length x)"]) (simp add: decrypt_end_def recordHeaderLen_def)
qed

lemma encrypt_no_cipher:
  assumes "hc_cipher w = None" "out = iv @ x @ mac_bytes w (record_header a v1 v2 (length x)) x"
  shows "encrypt w (record_header a v1 v2 (length x) @ iv @ x) (length iv)
    = map_option (\<lambda>hc. (record_header a v1 v2 (length out) @ out, hc)) (incSeq w)"
  using assms by (cases "hc_mac w") (simp_all add: encrypt_def mac_bytes_def recordHeaderLen_def Let_def)

lemma encrypt_cipher:
  assumes "hc_cipher w = Some c"
    and "encrypt_payload w c (record_header a v1 v2 (length x) @ iv @ x @ mac_bytes w (record_header a v1 v2 (length x)) x) (length iv)
      = (record_header a v1 v2 (length x) @ out, c')"
  shows "encrypt w (record_header a v1 v2 (length x) @ iv @ x) (length iv)
    = map_option (\<lambda>hc. (record_header a v1 v2 (length out) @ out, hc\<lparr>hc_cipher := Some c'\<rparr>)) (incSeq w)"
  using assms by (cases "hc_mac w"; cases "incSeq w") (simp_all add: encrypt_def mac_bytes_def recordHeaderLen_def Let_def incSeq_cipher)

text \<open>
  The reader accepts the record of the writer, recovers the payload, and the two ends match again.
\<close>

lemma record_accepted:
  assumes m: "matched R w r" "length iv = explicit_len w" "length x < 2 ^ 29"
    and e: "encrypt w (record_header a v1 v2 (length x) @ iv @ x) (length iv) = Some (data, w')"
  shows "\<exists>out h r'. data = record_header a v1 v2 (length out) @ out \<and> length out \<le> length x + 2048
    \<and> decrypt r data = Some (Accepted (5 + length iv) (h @ iv @ x) r') \<and> length h = 5 \<and> matched R w' r'"
proof -
  define tag where "tag = mac_bytes w (record_header a v1 v2 (length x)) x"
  have tag: "mac_bytes w (record_header a v1 v2 (length x)) x = tag" by (simp add: tag_def)
  have lt: "length tag \<le> 512" using m(1) by (auto simp: matched_def mac_bytes_def mac_ok_def tag_def split: option.splits)
  show ?thesis
  proof (cases "hc_cipher w")
    case None
    then have r: "hc_cipher r = None" using m(1) by (cases "hc_cipher r") (auto simp: matched_def)
    have iv: "iv = []" using m(2) None by (simp add: explicit_len_def)
    let ?out = "iv @ x @ tag"
    have i: "incSeq w = Some w'" "data = record_header a v1 v2 (length ?out) @ ?out"
      using e encrypt_no_cipher [OF None, of ?out iv x a v1 v2] by (auto simp: tag)
    obtain r' where r': "incSeq r = Some r'" "matched R w' r'" using incSeq_matched [OF m(1) i(1)] by auto
    obtain h where h: "length h = 5" "decrypt r data = Some (Accepted (5 + length iv) (h @ iv @ x) r')"
      using decrypt_end_matched [OF m(1,3) tag, of "[]" r r' "length ?out" iv] r'(1) by (auto simp: decrypt_no_cipher [OF r] i(2) iv)
    have "length ?out \<le> length x + 2048" using lt iv by simp
    then show ?thesis using h r'(2) i(2) by blast
  next
    case (Some c)
    obtain data1 c' where p: "encrypt_payload w c (record_header a v1 v2 (length x) @ iv @ x @ tag) (length iv) = (data1, c')" by fastforce
    note prot = cipher_record [OF m tag Some p]
    obtain d out where d: "hc_cipher r = Some d" "data1 = record_header a v1 v2 (length x) @ out" "length out \<le> length x + 2048"
      using prot by blast
    have rec: "recovered R (hc_mac r) (Some c') (record_header a v1 v2 k) iv (x @ tag)
        (decrypt_payload r d (record_header a v1 v2 k @ out) (case hc_mac r of None \<Rightarrow> 0 | Some m \<Rightarrow> mac_Size m))" for k
      using prot [of k] d(1,2) by auto
    obtain w1 where i: "incSeq w = Some w1" "data = record_header a v1 v2 (length out) @ out" "w' = w1\<lparr>hc_cipher := Some c'\<rparr>"
      using e encrypt_cipher [OF Some, of a v1 v2 x iv out c'] p d(2) by (auto simp: tag)
    obtain d' pad where q: "dual_ciphers R (hc_mac r) (Some c') (Some d')" "hc_mac r = None \<longrightarrow> pad = []" "length pad \<le> 256"
      "decrypt_payload r d data (case hc_mac r of None \<Rightarrow> 0 | Some m \<Rightarrow> mac_Size m)
        = Some (record_header a v1 v2 (length out) @ iv @ (x @ tag) @ pad, d', length iv, length pad, 255)"
      using rec [of "length out", folded i(2)] unfolding recovered_def by (elim exE conjE)
    obtain r1 where r1: "incSeq r = Some r1" "matched R w' (r1\<lparr>hc_cipher := Some d'\<rparr>)"
      using matched_step [OF m(1) q(1) i(1)] unfolding i(3) by blast
    then have "incSeq (r\<lparr>hc_cipher := Some d'\<rparr>) = Some (r1\<lparr>hc_cipher := Some d'\<rparr>)" by (simp add: incSeq_cipher)
    then obtain h where "length h = 5" "decrypt r data = Some (Accepted (5 + length iv) (h @ iv @ x) (r1\<lparr>hc_cipher := Some d'\<rparr>))"
      using decrypt_end_matched [OF m(1,3) tag q(3,2), of "r\<lparr>hc_cipher := Some d'\<rparr>" "r1\<lparr>hc_cipher := Some d'\<rparr>" "length out" iv] unfolding decrypt_cipher [OF d(1) q(4)] by auto
    then show ?thesis using r1(2) i(2) d(3) by blast
  qed
qed

end
