(* ===== verification/Tls_Conn.thy ===== *)
theory Tls_Conn
  imports Tls_Protect
begin

unbundle bit_operations_syntax

text \<open>
  A connection over its two record layers (conn.go): writing and reading records, alerts, and the user's
  \<open>Write\<close>, \<open>Read\<close> and \<open>Close\<close>. The network is the bytes that arrive before the end of file, and those written.
  A value \<open>None\<close> is a call that does not return: a panic, or a loop without end.
\<close>

section \<open>The state\<close>

definition maxPlaintext :: nat where "maxPlaintext = 16384"
definition maxCiphertext :: nat where "maxCiphertext = 16384 + 2048"

type_synonym recordType = byte

definition recordTypeChangeCipherSpec :: recordType where "recordTypeChangeCipherSpec = 20"
definition recordTypeAlert :: recordType where "recordTypeAlert = 21"
definition recordTypeHandshake :: recordType where "recordTypeHandshake = 22"
definition recordTypeApplicationData :: recordType where "recordTypeApplicationData = 23"

definition alertLevelWarning :: byte where "alertLevelWarning = 1"
definition alertLevelError :: byte where "alertLevelError = 2"

text \<open>
  \<open>c_rawInput\<close> is what has arrived and what will arrive, \<open>c_wire\<close> what was written to the network, \<open>c_rand\<close> the bytes the
  configured source of randomness will give; \<open>c_renegotiates\<close> is \<open>Renegotiation != RenegotiateNever\<close>.
\<close>

record 's conn =
  c_isClient :: bool
  c_handshakeErr :: "tls_error option"
  c_handshakeComplete :: bool
  c_vers :: u16
  c_haveVers :: bool
  c_renegotiates :: bool
  c_DynamicRecordSizingDisabled :: bool
  c_rand :: "byte list"
  c_closeNotifyErr :: "tls_error option"
  c_closeNotifySent :: bool
  c_closed :: bool
  c_in :: "'s halfConn"
  c_out :: "'s halfConn"
  c_rawInput :: "byte list"
  c_input :: "byte list option"
  c_hand :: "byte list"
  c_buffering :: bool
  c_sendBuf :: "byte list"
  c_wire :: "byte list"
  c_bytesSent :: nat
  c_packetsSent :: nat

section \<open>Writing\<close>

definition tcpMSSEstimate :: int where "tcpMSSEstimate = 1208"
definition recordSizeBoostThreshold :: nat where "recordSizeBoostThreshold = 128 * 1024"

definition maxPayloadSizeForWrite :: "'s conn \<Rightarrow> recordType \<Rightarrow> nat \<Rightarrow> int \<times> 's conn" where
  "maxPayloadSizeForWrite c typ explicitIVLen =
     (if c_DynamicRecordSizingDisabled c \<or> typ \<noteq> recordTypeApplicationData then (int maxPlaintext, c)
      else if recordSizeBoostThreshold \<le> c_bytesSent c then (int maxPlaintext, c)
      else
        let macSize = (case hc_mac (c_out c) of None \<Rightarrow> 0 | Some m \<Rightarrow> int (mac_Size m));
            payloadBytes = tcpMSSEstimate - int recordHeaderLen - int explicitIVLen;
            payloadBytes = (case hc_cipher (c_out c) of
                None \<Rightarrow> payloadBytes
              | Some (Stream f s) \<Rightarrow> payloadBytes - macSize
              | Some (Aead n overhead seal opn) \<Rightarrow> payloadBytes - int overhead
              | Some (Cbc blockSize f iv s) \<Rightarrow> (payloadBytes AND NOT (int blockSize - 1)) - 1 - macSize);
            pkt = c_packetsSent c;
            c = c\<lparr>c_packetsSent := pkt + 1\<rparr>
        in if 1000 < pkt then (int maxPlaintext, c)
           else let n = payloadBytes * int (pkt + 1)
                in (if int maxPlaintext < n then int maxPlaintext else n, c))"

definition conn_write :: "'s conn \<Rightarrow> byte list \<Rightarrow> 's conn" where
  "conn_write c data =
     (if c_buffering c then c\<lparr>c_sendBuf := c_sendBuf c @ data\<rparr>
      else c\<lparr>c_wire := c_wire c @ data, c_bytesSent := c_bytesSent c + length data\<rparr>)"

definition flush :: "'s conn \<Rightarrow> 's conn" where
  "flush c =
     (if c_sendBuf c = [] then c
      else c\<lparr>c_wire := c_wire c @ c_sendBuf c, c_bytesSent := c_bytesSent c + length (c_sendBuf c), c_sendBuf := [], c_buffering := False\<rparr>)"

text \<open>The explicit nonce: the sequence number for an AEAD, random bytes for CBC; \<open>io.ReadFull\<close> takes what there is.\<close>

definition explicit_iv :: "'s conn \<Rightarrow> byte list option \<times> 's conn" where
  "explicit_iv c =
     (let n = explicit_len (c_out c) in
      case hc_cipher (c_out c) of
        Some (Aead _ _ _ _) \<Rightarrow> (Some (take n (hc_seq (c_out c)) @ replicate (n - length (hc_seq (c_out c))) 0), c)
      | _ \<Rightarrow> (if length (c_rand c) < n then None else Some (take n (c_rand c)), c\<lparr>c_rand := drop n (c_rand c)\<rparr>))"

definition record_bytes :: "recordType \<Rightarrow> u16 \<Rightarrow> byte list \<Rightarrow> byte list \<Rightarrow> byte list" where
  "record_bytes typ vers iv payload =
     (let vers = (if vers = 0 then VersionTLS10 else vers)
      in [typ, ucast (drop_bit 8 vers), ucast vers, of_nat (length payload div 256), of_nat (length payload)] @ iv @ payload)"

text \<open>The result is the connection, the number of bytes written, and the error.\<close>

partial_function (option) write_loop :: "recordType \<Rightarrow> 's conn \<Rightarrow> byte list \<Rightarrow> nat \<Rightarrow> ('s conn \<times> nat \<times> tls_error option) option" where
  "write_loop typ c data n =
     (if data = [] then Some (c, n, None)
      else
        let explicitIVLen = explicit_len (c_out c) in
        case maxPayloadSizeForWrite c typ explicitIVLen of (maxPayload, c) \<Rightarrow>
        let m = (if maxPayload < int (length data) then maxPayload else int (length data)) in
        if int explicitIVLen + m < 0 then None
        else case explicit_iv c of
          (None, c) \<Rightarrow> Some (c, n, Some EntropyError)
        | (Some iv, c) \<Rightarrow>
            if m < 0 then None
            else case encrypt (c_out c) (record_bytes typ (c_vers c) iv (take (nat m) data)) explicitIVLen of
              None \<Rightarrow> None
            | Some (bytes, hc) \<Rightarrow> write_loop typ (conn_write (c\<lparr>c_out := hc\<rparr>) bytes) (drop (nat m) data) (n + nat m))"

definition sendAlertLocked :: "'s conn \<Rightarrow> alert \<Rightarrow> ('s conn \<times> tls_error option) option" where
  "sendAlertLocked c err =
     (let level = (if err = alertNoRenegotiation \<or> err = alertCloseNotify then alertLevelWarning else alertLevelError)
      in case write_loop recordTypeAlert c [level, err] 0 of
           None \<Rightarrow> None
         | Some (c, n, writeErr) \<Rightarrow>
             if err = alertCloseNotify then Some (c, writeErr)
             else Some (c\<lparr>c_out := setErrorLocked (c_out c) (Some (LocalError err))\<rparr>, Some (LocalError err)))"

definition writeRecordLocked :: "'s conn \<Rightarrow> recordType \<Rightarrow> byte list \<Rightarrow> ('s conn \<times> nat \<times> tls_error option) option" where
  "writeRecordLocked c typ data =
     (case write_loop typ c data 0 of
        None \<Rightarrow> None
      | Some (c, n, Some err) \<Rightarrow> Some (c, n, Some err)
      | Some (c, n, None) \<Rightarrow>
          if typ = recordTypeChangeCipherSpec then
            (case changeCipherSpec (c_out c) of
               (hc, None) \<Rightarrow> Some (c\<lparr>c_out := hc\<rparr>, n, None)
             | (hc, Some err) \<Rightarrow> map_option (\<lambda>(c, err). (c, n, err)) (sendAlertLocked (c\<lparr>c_out := hc\<rparr>) err))
          else Some (c, n, None))"

text \<open>
  \<open>Write\<close> without its call of \<open>Handshake\<close>, which returns at once when the handshake is complete; before TLS 1.1 the first byte goes in a record of its own with CBC.
\<close>

definition splits_first :: "'s conn \<Rightarrow> byte list \<Rightarrow> bool" where
  "splits_first c b =
     (1 < length b \<and> c_vers c \<le> VersionTLS10 \<and> (case hc_cipher (c_out c) of Some (Cbc _ _ _ _) \<Rightarrow> True | _ \<Rightarrow> False))"

definition conn_Write :: "'s conn \<Rightarrow> byte list \<Rightarrow> ('s conn \<times> nat \<times> tls_error option) option" where
  "conn_Write c b =
     (if c_closed c then Some (c, 0, Some errClosed)
      else if hc_err (c_out c) \<noteq> None then Some (c, 0, hc_err (c_out c))
      else if \<not> c_handshakeComplete c then Some (c, 0, Some (AlertError alertInternalError))
      else if c_closeNotifySent c then Some (c, 0, Some errShutdown)
      else
        let split = splits_first c b
        in case (if split then writeRecordLocked c recordTypeApplicationData (take 1 b) else Some (c, 0, None)) of
             None \<Rightarrow> None
           | Some (c, n, Some err) \<Rightarrow> Some (c\<lparr>c_out := setErrorLocked (c_out c) (Some err)\<rparr>, n, Some err)
           | Some (c, m, None) \<Rightarrow>
               (case writeRecordLocked c recordTypeApplicationData (if split then drop 1 b else b) of
                  None \<Rightarrow> None
                | Some (c, n, err) \<Rightarrow> Some (c\<lparr>c_out := setErrorLocked (c_out c) err\<rparr>, n + (if split then 1 else 0), err)))"

definition closeNotify :: "'s conn \<Rightarrow> ('s conn \<times> tls_error option) option" where
  "closeNotify c =
     (if c_closeNotifySent c then Some (c, c_closeNotifyErr c)
      else map_option (\<lambda>(c, err). (c\<lparr>c_closeNotifyErr := err, c_closeNotifySent := True\<rparr>, err)) (sendAlertLocked c alertCloseNotify))"

section \<open>Reading\<close>

definition set_in_err :: "'s conn \<Rightarrow> tls_error option \<Rightarrow> 's conn \<times> tls_error option" where
  "set_in_err c err = (c\<lparr>c_in := setErrorLocked (c_in c) err\<rparr>, err)"

text \<open>\<open>c.in.setErrorLocked(c.sendAlert(err))\<close>, and the alert before another error.\<close>

definition alert_in :: "'s conn \<Rightarrow> alert \<Rightarrow> ('s conn \<times> tls_error option) option" where
  "alert_in c err = map_option (\<lambda>(c, err). set_in_err c err) (sendAlertLocked c err)"

definition alert_then :: "'s conn \<Rightarrow> alert \<Rightarrow> tls_error \<Rightarrow> ('s conn \<times> tls_error option) option" where
  "alert_then c err e = map_option (\<lambda>(c, _). set_in_err c (Some e)) (sendAlertLocked c err)"

definition u16_at :: "byte list \<Rightarrow> nat \<Rightarrow> nat" where
  "u16_at b i = 256 * unat (b ! i) + unat (b ! (i + 1))"

text \<open>The record the type of which is not an alert, decrypted.\<close>

definition read_record_data :: "recordType \<Rightarrow> 's conn \<Rightarrow> recordType \<Rightarrow> byte list \<Rightarrow> ('s conn \<times> tls_error option) option" where
  "read_record_data want c typ data =
     (if typ = recordTypeChangeCipherSpec then
        if typ \<noteq> want \<or> length data \<noteq> 1 \<or> data ! 0 \<noteq> 1 then alert_in c alertUnexpectedMessage
        else (case changeCipherSpec (c_in c) of
                (hc, None) \<Rightarrow> Some (c\<lparr>c_in := hc\<rparr>, hc_err hc)
              | (hc, Some err) \<Rightarrow> alert_in (c\<lparr>c_in := hc\<rparr>) err)
      else if typ = recordTypeApplicationData then
        if typ \<noteq> want then alert_in c alertUnexpectedMessage
        else Some (c\<lparr>c_input := Some data\<rparr>, hc_err (c_in c))
      else if typ = recordTypeHandshake then
        if typ \<noteq> want \<and> \<not> (c_isClient c \<and> c_renegotiates c) then alert_in c alertNoRenegotiation
        else Some (c\<lparr>c_hand := c_hand c @ data\<rparr>, hc_err (c_in c))
      else alert_in c alertUnexpectedMessage)"

text \<open>From the label \<open>Again\<close>.\<close>

function read_again :: "recordType \<Rightarrow> 's conn \<Rightarrow> ('s conn \<times> tls_error option) option" where
  "read_again want c =
     (let b = c_rawInput c; typ = b ! 0; vers = of_nat (u16_at b 1) :: u16; n = u16_at b 3
      in if length b < recordHeaderLen then Some (set_in_err c (Some EOF))
         else if want = recordTypeHandshake \<and> typ = 0x80 then alert_then c alertProtocolVersion RecordHeaderError
         else if c_haveVers c \<and> vers \<noteq> c_vers c then alert_then c alertProtocolVersion RecordHeaderError
         else if maxCiphertext < n then alert_then c alertRecordOverflow RecordHeaderError
         else if \<not> c_haveVers c \<and> (typ \<noteq> recordTypeAlert \<and> typ \<noteq> want \<or> 0x1000 \<le> vers)
           then alert_then c alertUnexpectedMessage RecordHeaderError
         else if length b < recordHeaderLen + n then Some (set_in_err c (Some UnexpectedEOF))
         else case decrypt (c_in c) (take (recordHeaderLen + n) b) of
             None \<Rightarrow> None
           | Some (Rejected err hc) \<Rightarrow> alert_in (c\<lparr>c_in := hc, c_rawInput := drop (recordHeaderLen + n) b\<rparr>) err
           | Some (Accepted off bytes hc) \<Rightarrow>
               let c = c\<lparr>c_in := hc, c_rawInput := drop (recordHeaderLen + n) b\<rparr>;
                   data = drop off bytes
               in if maxPlaintext < length data then alert_in c alertRecordOverflow
                  else if typ = recordTypeAlert then
                    if length data \<noteq> 2 then alert_in c alertUnexpectedMessage
                    else if data ! 1 = alertCloseNotify then Some (set_in_err c (Some EOF))
                    else if data ! 0 = alertLevelWarning then read_again want c
                    else if data ! 0 = alertLevelError then Some (set_in_err c (Some (RemoteError (data ! 1))))
                    else alert_in c alertUnexpectedMessage
                  else read_record_data want c typ data)"
  by pat_completeness auto
termination by (relation "measure (\<lambda>(_, c). length (c_rawInput c))") (auto simp: recordHeaderLen_def)

declare read_again.simps [simp del]

definition readRecord :: "'s conn \<Rightarrow> recordType \<Rightarrow> ('s conn \<times> tls_error option) option" where
  "readRecord c want =
     (if want = recordTypeHandshake \<or> want = recordTypeChangeCipherSpec then
        if c_handshakeComplete c then alert_then c alertInternalError HandshakeFinished else read_again want c
      else if want = recordTypeApplicationData then
        if \<not> c_handshakeComplete c then alert_then c alertInternalError HandshakePending else read_again want c
      else alert_then c alertInternalError UnknownRecordType)"

end
