(* ===== verification/Tls_Stream.thy ===== *)
theory Tls_Stream
  imports Tls_Conn Big_Bytes
begin

unbundle bit_operations_syntax

text \<open>
  What a user writes to a connection arrives: the records of one end, read by the other, give the same bytes in the
  same order, and the ends stay in step.
\<close>

section \<open>Sequence numbers\<close>

lemma uint_byte_inc: "uint (b + 1 :: byte) = (if b + 1 = 0 then uint b - 255 else uint b + 1)"
proof -
  have u: "uint (b + 1) = (uint b + 1) mod 256" by (simp add: uint_word_ariths)
  have z: "b + 1 = 0 \<longleftrightarrow> uint (b + 1) = 0" by (simp add: uint_0_iff)
  have "0 \<le> uint b" "uint b < 256" using uint_bounded [of b] by auto
  then have "uint b \<noteq> 255 \<Longrightarrow> (uint b + 1) mod 256 = uint b + 1" "uint b + 1 \<noteq> 0" by (auto, linarith)
  then show ?thesis unfolding z u by (cases "uint b = 255") simp_all
qed

lemma inc_bytes_val:
  assumes "i \<le> length s" "be_int (take i s) + 1 < 256 ^ i"
  shows "\<exists>s'. inc_bytes s i = Some s' \<and> be_int (take i s') = be_int (take i s) + 1 \<and> drop i s' = drop i s \<and> length s' = length s"
  using assms
proof (induction i arbitrary: s)
  case (Suc i)
  let ?s = "s[i := s ! i + 1]"
  have i: "i < length s" using Suc.prems(1) by simp
  have t: "take (Suc i) s = take i s @ [s ! i]" using i by (simp add: take_Suc_conv_app_nth)
  show ?case
  proof (cases "s ! i + 1 = 0")
    case False
    then have "be_int (take (Suc i) ?s) = be_int (take (Suc i) s) + 1"
      using i by (simp add: take_Suc_conv_app_nth be_int_snoc uint_byte_inc)
    then show ?thesis using False i by simp
  next
    case True
    then have u: "uint (s ! i) = 255" using uint_byte_inc [of "s ! i"] by simp
    have b: "be_int (take i ?s) + 1 < 256 ^ i" using Suc.prems(2) by (simp add: t be_int_snoc u)
    obtain s' where s': "inc_bytes ?s i = Some s'" "be_int (take i s') = be_int (take i ?s) + 1" "drop i s' = drop i ?s" "length s' = length s"
      using Suc.IH [OF _ b] i by auto
    have "s' ! i = 0" using arg_cong [OF s'(3), of "\<lambda>l. l ! 0"] i s'(4) True by simp
    then have "be_int (take (Suc i) s') = be_int (take (Suc i) s) + 1"
      using i s'(2,4) by (simp add: take_Suc_conv_app_nth be_int_snoc u)
    moreover have "drop (Suc i) s' = drop (Suc i) s" using arg_cong [OF s'(3), of "drop 1"] by simp
    ultimately show ?thesis using s'(1,4) True i by simp
  qed
qed (simp add: be_int_Nil)

lemma incSeq_val:
  assumes "length (hc_seq hc) = 8" "be_int (hc_seq hc) + 1 < 2 ^ 64"
  shows "\<exists>hc'. incSeq hc = Some hc' \<and> be_int (hc_seq hc') = be_int (hc_seq hc) + 1 \<and> hc' = hc\<lparr>hc_seq := hc_seq hc'\<rparr>"
  using inc_bytes_val [of 8 "hc_seq hc"] assms by (auto simp: incSeq_def)

section \<open>One record\<close>

lemma decrypt_keeps_err: "decrypt r data = Some (Accepted off bs r') \<Longrightarrow> hc_err r' = hc_err r"
  by (auto simp: decrypt_def Let_def incSeq_def split: option.splits prod.splits)

lemma encrypt_defined:
  assumes "matched R w r" "length iv = explicit_len w" "length x < 2 ^ 29" "incSeq w = Some w1"
  shows "\<exists>data c. encrypt w (record_header a v1 v2 (length x) @ iv @ x) (length iv) = Some (data, w1\<lparr>hc_cipher := c\<rparr>)"
proof (cases "hc_cipher w")
  case None
  moreover have "w1\<lparr>hc_cipher := None\<rparr> = w1" using None assms(4) by (auto simp: incSeq_def)
  ultimately show ?thesis using encrypt_no_cipher [of w _ iv x a v1 v2] assms(4) by (metis option.simps(9))
next
  case (Some c)
  obtain data1 c' where p: "encrypt_payload w c (record_header a v1 v2 (length x) @ iv @ x @ mac_bytes w (record_header a v1 v2 (length x)) x) (length iv) = (data1, c')"
    by fastforce
  then obtain out where "data1 = record_header a v1 v2 (length x) @ out" using cipher_record [OF assms(1-3) refl Some p] by blast
  then show ?thesis using encrypt_cipher [OF Some, of a v1 v2 x iv out c'] p assms(4) by auto
qed

lemma record_bytes_eq:
  "vers \<noteq> 0 \<Longrightarrow> record_bytes typ vers iv x = record_header typ (ucast (drop_bit 8 vers)) (ucast vers) (length x) @ iv @ x"
  by (simp add: record_bytes_def record_header_def u16_bytes_def Let_def)

lemma header_version: "(of_nat (u16_at (record_header typ (ucast (drop_bit 8 vers)) (ucast vers) n @ x) 1) :: u16) = vers"
proof -
  have "unat (ucast (drop_bit 8 vers) :: byte) = (unat vers div 256) mod 256"
    by (simp add: unsigned_ucast_eq take_bit_eq_mod unsigned_drop_bit_eq drop_bit_eq_div unat_div)
  moreover have "unat (ucast vers :: byte) = unat vers mod 256" by (simp add: unsigned_ucast_eq take_bit_eq_mod)
  moreover have "unat vers < 65536" using unsigned_less [of vers] by simp
  ultimately have "u16_at (record_header typ (ucast (drop_bit 8 vers)) (ucast vers) n @ x) 1 = unat vers"
    by (simp add: u16_at_def record_header_def)
  then show ?thesis by simp
qed

lemma header_length: "n < 65536 \<Longrightarrow> u16_at (record_header typ v1 v2 n @ x) 3 = n"
  by (simp add: u16_at_def record_header_def u16_bytes_def unat_of_nat nth_append)

section \<open>The connection\<close>

text \<open>The reader's side of a connection in use, and the ends of one direction.\<close>

definition connected :: "('s \<Rightarrow> 't \<Rightarrow> bool) \<Rightarrow> 's conn \<Rightarrow> 't conn \<Rightarrow> bool" where
  "connected R a b =
     (matched R (c_out a) (c_in b) \<and> c_vers a = c_vers b \<and> c_vers b \<noteq> 0 \<and> c_haveVers b \<and> c_handshakeComplete b
      \<and> hc_err (c_in b) = None \<and> c_input b = None \<and> \<not> c_buffering a)"

lemma record_read:
  assumes m: "matched R w (c_in b)" "length iv = explicit_len w" "length x \<le> maxPlaintext"
    and c: "c_vers b = vers" "vers \<noteq> 0" "c_haveVers b" "c_handshakeComplete b" "hc_err (c_in b) = None"
    and e: "encrypt w (record_bytes recordTypeApplicationData vers iv x) (length iv) = Some (bytes, w')"
  shows "\<exists>r'. matched R w' r' \<and> hc_err r' = None
    \<and> (\<forall>rest. readRecord (b\<lparr>c_rawInput := bytes @ rest\<rparr>) recordTypeApplicationData = Some (b\<lparr>c_rawInput := rest, c_input := Some x, c_in := r'\<rparr>, None))"
proof -
  have l: "length x < 2 ^ 29" using m(3) by (simp add: maxPlaintext_def)
  let ?h = "record_header recordTypeApplicationData (ucast (drop_bit 8 vers)) (ucast vers)"
  obtain out h r' where o: "bytes = ?h (length out) @ out" "length out \<le> length x + 2048"
    "decrypt (c_in b) bytes = Some (Accepted (5 + length iv) (h @ iv @ x) r')" "length h = 5" "matched R w' r'"
    using record_accepted [OF m(1,2) l e [unfolded record_bytes_eq [OF c(2)]]] by blast
  let ?n = "length out"
  have n: "?n \<le> maxCiphertext" "?n < 65536" using o(2) m(3) by (auto simp: maxCiphertext_def maxPlaintext_def)
  have types: "recordTypeApplicationData \<noteq> recordTypeHandshake" "recordTypeApplicationData \<noteq> recordTypeAlert"
    "recordTypeApplicationData \<noteq> recordTypeChangeCipherSpec"
    by (simp_all add: recordTypeApplicationData_def recordTypeHandshake_def recordTypeAlert_def recordTypeChangeCipherSpec_def)
  have err: "hc_err r' = None" using decrypt_keeps_err [OF o(3)] c(5) by simp
  have "readRecord (b\<lparr>c_rawInput := bytes @ rest\<rparr>) recordTypeApplicationData = Some (b\<lparr>c_rawInput := rest, c_input := Some x, c_in := r'\<rparr>, None)" for rest
  proof -
    define buf where "buf = bytes @ rest"
    have v: "(of_nat (u16_at buf 1) :: u16) = vers" unfolding buf_def o(1) append_assoc by (rule header_version)
    have k: "u16_at buf 3 = ?n" unfolding buf_def o(1) append_assoc by (rule header_length [OF n(2)])
    have t: "buf ! 0 = recordTypeApplicationData" unfolding buf_def o(1) by (simp add: record_header_def)
    have f: "take (recordHeaderLen + ?n) buf = bytes" "drop (recordHeaderLen + ?n) buf = rest"
      "\<not> length buf < recordHeaderLen + ?n" "\<not> length buf < recordHeaderLen"
      unfolding buf_def o(1) by (simp_all add: recordHeaderLen_def)
    have "read_again recordTypeApplicationData (b\<lparr>c_rawInput := buf\<rparr>) = Some (b\<lparr>c_rawInput := rest, c_input := Some x, c_in := r'\<rparr>, None)"
      using c n(1) o(3,4) m(3) types err
      by (subst read_again.simps) (simp add: Let_def v [unfolded One_nat_def] k t f read_record_data_def)
    then show ?thesis using c(4) types unfolding buf_def by (simp add: readRecord_def)
  qed
  then show ?thesis using o(5) err by blast
qed

lemma and_not_lower: "0 \<le> m \<Longrightarrow> x - m \<le> x AND NOT (m :: int)"
proof -
  assume m: "0 \<le> m"
  have "x = (x AND m) + (x AND NOT m)"
    by (subst disjunctive_add) (auto simp: bit_simps bit.conj_disj_distrib [symmetric])
  moreover have "x AND m \<le> m" using AND_upper2 [OF m, of x] by simp
  ultimately show ?thesis by linarith
qed

text \<open>Fragments are never empty and fit into a record.\<close>

lemma maxPayload_bounds:
  assumes "matched R (c_out a) r" "maxPayloadSizeForWrite a typ (explicit_len (c_out a)) = (n, a')"
  shows "1 \<le> n" "n \<le> int maxPlaintext" "a' = a\<lparr>c_packetsSent := c_packetsSent a'\<rparr>"
proof -
  let ?mac = "case hc_mac (c_out a) of None \<Rightarrow> 0 | Some m \<Rightarrow> int (mac_Size m)"
  define p where "p = (case hc_cipher (c_out a) of None \<Rightarrow> tcpMSSEstimate - int recordHeaderLen - int (explicit_len (c_out a))
    | Some (Stream f s) \<Rightarrow> tcpMSSEstimate - int recordHeaderLen - int (explicit_len (c_out a)) - ?mac
    | Some (Aead n overhead seal opn) \<Rightarrow> tcpMSSEstimate - int recordHeaderLen - int (explicit_len (c_out a)) - int overhead
    | Some (Cbc b f iv s) \<Rightarrow> ((tcpMSSEstimate - int recordHeaderLen - int (explicit_len (c_out a))) AND NOT (int b - 1)) - 1 - ?mac)"
  have mac: "?mac \<le> 512" "hc_mac r = hc_mac (c_out a)" using assms(1) by (auto simp: matched_def mac_ok_def split: option.splits)
  have d: "dual_ciphers R (hc_mac r) (hc_cipher (c_out a)) (hc_cipher r)" using assms(1) by (simp add: matched_def)
  have p: "1 \<le> p"
  proof (cases "hc_cipher (c_out a)")
    case (Some c)
    then obtain d where d: "dual_cipher R c d" using d by (cases "hc_cipher r") auto
    show ?thesis
    proof (cases c)
      case (Aead n ov sl op)
      then show ?thesis using d Some by (cases d) (auto simp: p_def explicit_len_def tcpMSSEstimate_def recordHeaderLen_def)
    next
      case (Cbc b f iv s)
      then have b: "0 < b" "b \<le> 256" using d by (cases d; simp)+
      then have "explicit_len (c_out a) \<le> 256" using Some Cbc by (simp add: explicit_len_def)
      then show ?thesis
        using and_not_lower [of "int b - 1" "tcpMSSEstimate - int recordHeaderLen - int (explicit_len (c_out a))"] b mac(1) Some Cbc
        by (simp add: p_def tcpMSSEstimate_def recordHeaderLen_def)
    qed (use Some mac(1) in \<open>simp add: p_def explicit_len_def tcpMSSEstimate_def recordHeaderLen_def\<close>)
  qed (simp add: p_def explicit_len_def tcpMSSEstimate_def recordHeaderLen_def)
  have q: "1 \<le> p * int (k + 1)" for k using mult_mono [of 1 p 1 "int (k + 1)"] p by simp
  have "(n, a') = (int maxPlaintext, a) \<or> (n = int maxPlaintext \<or> n = p * int (c_packetsSent a + 1) \<and> n \<le> int maxPlaintext) \<and> a' = a\<lparr>c_packetsSent := c_packetsSent a + 1\<rparr>"
    using assms(2) unfolding maxPayloadSizeForWrite_def Let_def p_def [symmetric] by (auto split: if_splits)
  then show "1 \<le> n" "n \<le> int maxPlaintext" "a' = a\<lparr>c_packetsSent := c_packetsSent a'\<rparr>"
    using q [of "c_packetsSent a"] by (auto simp: maxPlaintext_def)
qed

lemma explicit_iv_val:
  assumes "explicit_len (c_out a) \<le> length (c_rand a)"
  shows "\<exists>iv a'. explicit_iv a = (Some iv, a') \<and> a' = a\<lparr>c_rand := c_rand a'\<rparr> \<and> length iv = explicit_len (c_out a)
    \<and> length (c_rand a) - explicit_len (c_out a) \<le> length (c_rand a')"
  using assms by (auto simp: explicit_iv_def Let_def explicit_len_def split: option.splits cipher.splits)

lemma explicit_len_cong: "hc_cipher h = hc_cipher h' \<Longrightarrow> hc_version h = hc_version h' \<Longrightarrow> explicit_len h = explicit_len h'"
  unfolding explicit_len_def by (simp only:)

lemma encrypt_payload_len:
  "encrypt_payload w c d n = (d', c') \<Longrightarrow> explicit_len (h\<lparr>hc_cipher := Some c'\<rparr>) = explicit_len (h\<lparr>hc_cipher := Some c\<rparr>)"
  by (cases c) (auto simp: encrypt_payload_def explicit_len_def Let_def split: prod.splits)

lemma incSeq_keeps:
  "incSeq w = Some w' \<Longrightarrow> hc_cipher w' = hc_cipher w \<and> hc_version w' = hc_version w \<and> hc_err w' = hc_err w"
  by (auto simp: incSeq_def)

lemma encrypt_keeps:
  assumes "encrypt w data n = Some (d, w')"
  shows "explicit_len w' = explicit_len w \<and> hc_err w' = hc_err w"
proof (cases "hc_cipher w")
  case None
  then have "incSeq w = Some w'" using assms by (auto simp: encrypt_def Let_def)
  from incSeq_keeps [OF this] show ?thesis using explicit_len_cong [of w' w] by simp
next
  case (Some c)
  then obtain x d' c' where p: "encrypt_payload w c x n = (d', c')" "incSeq (w\<lparr>hc_cipher := Some c'\<rparr>) = Some w'"
    using assms by (auto simp: encrypt_def Let_def split: prod.splits)
  have "w = w\<lparr>hc_cipher := Some c\<rparr>" using Some by simp
  then show ?thesis using incSeq_keeps [OF p(2)] encrypt_payload_len [OF p(1), of w] explicit_len_cong [of w' "w\<lparr>hc_cipher := Some c'\<rparr>"] by simp
qed

definition same_session :: "'s conn \<Rightarrow> 's conn \<Rightarrow> bool" where
  "same_session a a' =
     (c_vers a' = c_vers a \<and> c_handshakeComplete a' = c_handshakeComplete a \<and> c_buffering a' = c_buffering a \<and> c_closed a' = c_closed a
      \<and> c_closeNotifySent a' = c_closeNotifySent a \<and> explicit_len (c_out a') = explicit_len (c_out a) \<and> hc_err (c_out a') = hc_err (c_out a))"

text \<open>The reader calls \<open>readRecord\<close> and takes the data, \<open>k\<close> times.\<close>

fun read_data :: "nat \<Rightarrow> 's conn \<Rightarrow> (byte list \<times> 's conn) option" where
  "read_data 0 c = Some ([], c)"
| "read_data (Suc k) c =
     (case readRecord c recordTypeApplicationData of
        Some (c, None) \<Rightarrow> (case c_input c of
            Some x \<Rightarrow> map_option (\<lambda>(y, c). (x @ y, c)) (read_data k (c\<lparr>c_input := None\<rparr>))
          | None \<Rightarrow> None)
      | _ \<Rightarrow> None)"

definition delivers :: "('s \<Rightarrow> 't \<Rightarrow> bool) \<Rightarrow> 's conn \<Rightarrow> 't conn \<Rightarrow> byte list \<Rightarrow> 's conn \<Rightarrow> bool" where
  "delivers R a b data a' =
     (\<exists>bytes k r. c_wire a' = c_wire a @ bytes \<and> matched R (c_out a') r \<and> hc_err r = None
      \<and> (\<forall>rest. read_data k (b\<lparr>c_rawInput := bytes @ rest\<rparr>) = Some (data, b\<lparr>c_rawInput := rest, c_input := None, c_in := r\<rparr>)))"

lemma delivers_nothing: "connected R a b \<Longrightarrow> delivers R a b [] a"
  unfolding delivers_def connected_def
  by (intro exI [of _ "[]"] exI [of _ 0] exI [of _ "c_in b"]) auto

lemma delivers_connected:
  assumes "delivers R a b data a'" "connected R a b" "same_session a a'"
  obtains r where "matched R (c_out a') r" "connected R a' (b\<lparr>c_in := r\<rparr>)"
    "\<exists>bytes k. c_wire a' = c_wire a @ bytes \<and> (\<forall>rest. read_data k (b\<lparr>c_rawInput := bytes @ rest\<rparr>) = Some (data, b\<lparr>c_rawInput := rest, c_input := None, c_in := r\<rparr>))"
  using assms by (auto simp: delivers_def connected_def same_session_def)

lemma read_data_append:
  "read_data k c = Some (x, d) \<Longrightarrow> read_data l d = Some (y, e) \<Longrightarrow> read_data (k + l) c = Some (x @ y, e)"
  by (induction k arbitrary: c x) (auto split: option.splits)

lemma delivers_append:
  assumes "delivers R a b x a1" "connected R a b" "\<And>r. matched R (c_out a1) r \<Longrightarrow> hc_err r = None \<Longrightarrow> delivers R a1 (b\<lparr>c_in := r\<rparr>) y a2"
  shows "delivers R a b (x @ y) a2"
proof -
  obtain bytes k r where 1: "c_wire a1 = c_wire a @ bytes" "matched R (c_out a1) r" "hc_err r = None"
    "\<And>rest. read_data k (b\<lparr>c_rawInput := bytes @ rest\<rparr>) = Some (x, b\<lparr>c_rawInput := rest, c_input := None, c_in := r\<rparr>)"
    using assms(1) unfolding delivers_def by blast
  obtain bytes' k' r' where 2: "c_wire a2 = c_wire a1 @ bytes'" "matched R (c_out a2) r'" "hc_err r' = None"
    "\<And>rest. read_data k' (b\<lparr>c_in := r, c_rawInput := bytes' @ rest\<rparr>) = Some (y, b\<lparr>c_in := r, c_rawInput := rest, c_input := None, c_in := r'\<rparr>)"
    using assms(3) [OF 1(2,3)] unfolding delivers_def by blast
  have c: "b\<lparr>c_rawInput := z, c_input := None, c_in := r\<rparr> = b\<lparr>c_in := r, c_rawInput := z\<rparr>" for z
    using assms(2) by (cases b) (simp add: connected_def)
  have "read_data (k + k') (b\<lparr>c_rawInput := (bytes @ bytes') @ rest\<rparr>) = Some (x @ y, b\<lparr>c_rawInput := rest, c_input := None, c_in := r'\<rparr>)" for rest
    using read_data_append [OF 1(4) [unfolded c] 2(4)] by simp
  then show ?thesis using 1(1) 2(1-3) unfolding delivers_def by (intro exI conjI allI) auto
qed

lemma write_step:
  assumes c: "connected R a b" and d: "data \<noteq> []" and q: "be_int (hc_seq (c_out a)) + 1 < 2 ^ 64" and k: "explicit_len (c_out a) \<le> length (c_rand a)"
  shows "\<exists>m a'. 0 < m \<and> m \<le> length data
    \<and> write_loop recordTypeApplicationData a data n = write_loop recordTypeApplicationData a' (drop m data) (n + m)
    \<and> delivers R a b (take m data) a' \<and> same_session a a' \<and> be_int (hc_seq (c_out a')) = be_int (hc_seq (c_out a)) + 1
    \<and> length (c_rand a) - explicit_len (c_out a) \<le> length (c_rand a')"
proof -
  have m: "matched R (c_out a) (c_in b)" using c by (simp add: connected_def)
  obtain mp a1 where mp: "maxPayloadSizeForWrite a recordTypeApplicationData (explicit_len (c_out a)) = (mp, a1)" by fastforce
  note a1 = maxPayload_bounds [OF m mp]
  have o1: "c_out a1 = c_out a" "c_rand a1 = c_rand a" "c_vers a1 = c_vers a" using arg_cong [OF a1(3), of c_out] arg_cong [OF a1(3), of c_rand] arg_cong [OF a1(3), of c_vers] by simp_all
  define l where "l = nat (if mp < int (length data) then mp else int (length data))"
  have l: "0 < l" "l \<le> length data" "l \<le> maxPlaintext" "int l = (if mp < int (length data) then mp else int (length data))"
    using a1(1,2) d by (auto simp: l_def)
  let ?x = "take l data"
  have x: "length ?x = l" "length ?x < 2 ^ 29" using l(2,3) by (auto simp: maxPlaintext_def)
  obtain iv a2 where iv: "explicit_iv a1 = (Some iv, a2)" "a2 = a1\<lparr>c_rand := c_rand a2\<rparr>" "length iv = explicit_len (c_out a)"
    "length (c_rand a) - explicit_len (c_out a) \<le> length (c_rand a2)"
    using explicit_iv_val [of a1] k unfolding o1 by blast
  have o2: "c_out a2 = c_out a" "c_vers a2 = c_vers a" using arg_cong [OF iv(2), of c_out] arg_cong [OF iv(2), of c_vers] o1 by simp_all
  have v: "c_vers a \<noteq> 0" using c by (simp add: connected_def)
  obtain w where w: "incSeq (c_out a) = Some w" "be_int (hc_seq w) = be_int (hc_seq (c_out a)) + 1"
    using incSeq_val [of "c_out a"] q m by (auto simp: matched_def)
  obtain bytes ch where e: "encrypt (c_out a) (record_bytes recordTypeApplicationData (c_vers a) iv ?x) (length iv) = Some (bytes, w\<lparr>hc_cipher := ch\<rparr>)"
    using encrypt_defined [OF m iv(3) x(2) w(1)] unfolding record_bytes_eq [OF v] by blast
  define a' where "a' = a\<lparr>c_packetsSent := c_packetsSent a1, c_rand := c_rand a2, c_out := w\<lparr>hc_cipher := ch\<rparr>,
      c_wire := c_wire a @ bytes, c_bytesSent := c_bytesSent a + length bytes\<rparr>"
  have f: "conn_write (a2\<lparr>c_out := w\<lparr>hc_cipher := ch\<rparr>\<rparr>) bytes = a'"
    using c unfolding conn_write_def connected_def a'_def by (subst iv(2), subst a1(3)) (cases a; cases a1; cases a2; use a1(3) iv(2) in simp)
  have "write_loop recordTypeApplicationData a data n = write_loop recordTypeApplicationData a' (drop l data) (n + l)"
    using d e l(1) by (subst write_loop.simps) (simp add: mp Let_def iv(1,3) o2 l(4) [symmetric] f)
  moreover obtain r where r: "matched R (w\<lparr>hc_cipher := ch\<rparr>) r" "hc_err r = None"
    "\<And>rest. readRecord (b\<lparr>c_rawInput := bytes @ rest\<rparr>) recordTypeApplicationData = Some (b\<lparr>c_rawInput := rest, c_input := Some ?x, c_in := r\<rparr>, None)"
    using record_read [OF m iv(3) _ _ v _ _ _ e] c x(1) l(3) by (auto simp: connected_def)
  then have "delivers R a b ?x a'"
    unfolding delivers_def by (intro exI [of _ bytes] exI [of _ 1] exI [of _ r]) (simp add: a'_def)
  moreover have "same_session a a'" using encrypt_keeps [OF e] by (simp add: same_session_def a'_def)
  ultimately show ?thesis using l(1,2) w(2) iv(4) by (intro exI [of _ l] exI [of _ a']) (simp add: a'_def)
qed

lemma connected_reader:
  "connected R a b \<Longrightarrow> same_session a a' \<Longrightarrow> matched R (c_out a') r \<Longrightarrow> hc_err r = None \<Longrightarrow> connected R a' (b\<lparr>c_in := r\<rparr>)"
  by (simp add: connected_def same_session_def)

lemma same_session_trans: "same_session a b \<Longrightarrow> same_session b c \<Longrightarrow> same_session a c"
  by (simp add: same_session_def)

definition room :: "'s conn \<Rightarrow> nat \<Rightarrow> bool" where
  "room a n = (be_int (hc_seq (c_out a)) + int n < 2 ^ 64 \<and> explicit_len (c_out a) * n \<le> length (c_rand a))"

lemma room_mono: "room a n \<Longrightarrow> m \<le> n \<Longrightarrow> room a m"
  unfolding room_def using order.trans [OF mult_le_mono2 [of m n "explicit_len (c_out a)"]] by auto

lemma write_loop_delivers:
  assumes "connected R a b" "room a (length data)"
  shows "\<exists>a'. write_loop recordTypeApplicationData a data n = Some (a', n + length data, None) \<and> delivers R a b data a' \<and> same_session a a'
    \<and> (\<forall>k. room a (length data + k) \<longrightarrow> room a' k)"
  using assms
proof (induction data arbitrary: a b n rule: length_induct)
  case (1 data)
  show ?case
  proof (cases "data = []")
    case True
    then show ?thesis
      using 1(2) delivers_nothing [OF 1(2)] by (intro exI [of _ a]) (subst write_loop.simps, simp add: same_session_def)
  next
    case False
    let ?e = "explicit_len (c_out a)"
    have len: "1 \<le> length data" using False by (cases data) auto
    have q: "be_int (hc_seq (c_out a)) + 1 < 2 ^ 64" "?e \<le> length (c_rand a)"
      using 1(3) len order.trans [OF mult_le_mono2 [OF len, of ?e, unfolded mult_1_right]] by (auto simp: room_def)
    obtain m a1 where s: "0 < m" "m \<le> length data"
      "write_loop recordTypeApplicationData a data n = write_loop recordTypeApplicationData a1 (drop m data) (n + m)"
      "delivers R a b (take m data) a1" "same_session a a1" "be_int (hc_seq (c_out a1)) = be_int (hc_seq (c_out a)) + 1"
      "length (c_rand a) - ?e \<le> length (c_rand a1)"
      using write_step [OF 1(2) False q, of n] by blast
    have room: "room a (length data + k) \<Longrightarrow> room a1 (length (drop m data) + k)" for k
    proof -
      assume k: "room a (length data + k)"
      have "?e * (length (drop m data) + k) + ?e \<le> ?e * (length data + k)"
        using s(1,2) mult_le_mono2 [of "length (drop m data) + k + 1" "length data + k" ?e] by (simp add: algebra_simps)
      then show "room a1 (length (drop m data) + k)" using k s(1,2,5-7) by (auto simp: room_def same_session_def)
    qed
    have step: "\<exists>a'. write_loop recordTypeApplicationData a1 (drop m data) (n + m) = Some (a', n + m + length (drop m data), None)
      \<and> delivers R a1 (b\<lparr>c_in := r\<rparr>) (drop m data) a' \<and> same_session a1 a' \<and> (\<forall>k. room a1 (length (drop m data) + k) \<longrightarrow> room a' k)"
      if r: "matched R (c_out a1) r" "hc_err r = None" for r
      using 1(1) [rule_format, of "drop m data" a1 "b\<lparr>c_in := r\<rparr>" "n + m"] s(1) len room [of 0] 1(3) connected_reader [OF 1(2) s(5) r] by simp
    obtain r where r: "matched R (c_out a1) r" "hc_err r = None" using s(4) by (auto simp: delivers_def)
    obtain a' where a': "write_loop recordTypeApplicationData a1 (drop m data) (n + m) = Some (a', n + m + length (drop m data), None)"
      "same_session a1 a'" "\<forall>k. room a1 (length (drop m data) + k) \<longrightarrow> room a' k" using step [OF r] by blast
    have "delivers R a b (take m data @ drop m data) a'"
      using step a'(1) by (intro delivers_append [OF s(4) 1(2)]) force
    then show ?thesis
      using a' s(2,3) room same_session_trans [OF s(5) a'(2)] by (intro exI [of _ a']) auto
  qed
qed

lemma writeRecord_data:
  "write_loop recordTypeApplicationData a x 0 = Some (a', n, None) \<Longrightarrow> writeRecordLocked a recordTypeApplicationData x = Some (a', n, None)"
  by (simp add: writeRecordLocked_def recordTypeApplicationData_def recordTypeChangeCipherSpec_def)

text \<open>
  C10: What \<open>Write\<close> accepts arrives. With room in the sequence numbers and in the source of randomness, \<open>Write\<close> on a connection in
  use returns, writes all of its data, and the peer that reads the bytes it put on the wire gets the data, in order and
  without an error; bytes that follow stay unread, and the two ends match again for the next call. The cipher, the
  MAC, the fragments and the split of the first byte before TLS 1.1 do not matter.
\<close>

theorem tls_stream:
  assumes "connected R a b" "room a (length data)"
    and "c_handshakeComplete a" "\<not> c_closed a" "\<not> c_closeNotifySent a" "hc_err (c_out a) = None"
  shows "\<exists>a' bytes k b'. conn_Write a data = Some (a', length data, None) \<and> c_wire a' = c_wire a @ bytes
    \<and> connected R a' b' \<and> (\<forall>rest. read_data k (b\<lparr>c_rawInput := bytes @ rest\<rparr>) = Some (data, b'\<lparr>c_rawInput := rest\<rparr>))"
proof -
  define split where "split = splits_first a data"
  let ?x = "if split then take 1 data else []" and ?y = "if split then drop 1 data else data"
  have xy: "?x @ ?y = data" by simp
  have len: "length ?x + length ?y = length data" using arg_cong [OF xy, of length] by simp
  have rx: "room a (length ?x)" using room_mono [OF assms(2)] len by simp
  obtain a1 where a1: "write_loop recordTypeApplicationData a ?x 0 = Some (a1, length ?x, None)" "delivers R a b ?x a1" "same_session a a1"
    "\<forall>k. room a (length ?x + k) \<longrightarrow> room a1 k"
    using write_loop_delivers [OF assms(1) rx, of 0] by auto
  have step: "\<exists>a2. write_loop recordTypeApplicationData a1 ?y 0 = Some (a2, length ?y, None) \<and> delivers R a1 (b\<lparr>c_in := r\<rparr>) ?y a2 \<and> same_session a1 a2"
    if r: "matched R (c_out a1) r" "hc_err r = None" for r
    using write_loop_delivers [OF connected_reader [OF assms(1) a1(3) r], of ?y 0] a1(4) assms(2) len by auto
  obtain r where r: "matched R (c_out a1) r" "hc_err r = None" using a1(2) by (auto simp: delivers_def)
  obtain a2 where a2: "write_loop recordTypeApplicationData a1 ?y 0 = Some (a2, length ?y, None)" "same_session a1 a2" using step [OF r] by blast
  have "delivers R a b (?x @ ?y) a2" using step a2(1) by (intro delivers_append [OF a1(2) assms(1)]) force
  then obtain bytes k r' where d: "c_wire a2 = c_wire a @ bytes" "matched R (c_out a2) r'" "hc_err r' = None"
    "\<And>rest. read_data k (b\<lparr>c_rawInput := bytes @ rest\<rparr>) = Some (data, b\<lparr>c_rawInput := rest, c_input := None, c_in := r'\<rparr>)"
    unfolding delivers_def xy by blast
  let ?a = "a2\<lparr>c_out := setErrorLocked (c_out a2) None\<rparr>" and ?b = "b\<lparr>c_input := None, c_in := r'\<rparr>"
  have err: "hc_err (c_out a2) = None" using a1(3) a2(2) assms(6) by (simp add: same_session_def)
  then have same: "?a = a2" by (simp add: setErrorLocked_def)
  have "conn_Write a data = Some (?a, length data, None)"
  proof (cases split)
    case True
    then have "1 < length data" by (simp add: split_def splits_first_def)
    then show ?thesis using assms(3-6) True writeRecord_data [OF a1(1)] writeRecord_data [OF a2(1)]
      by (simp add: conn_Write_def Let_def split_def)
  next
    case False
    then have "a1 = a" using a1(1) by (subst (asm) write_loop.simps) simp
    then show ?thesis using assms(3-6) False writeRecord_data [OF a2(1)]
      by (simp add: conn_Write_def Let_def split_def)
  qed
  moreover have "connected R a2 ?b"
    using connected_reader [OF assms(1) same_session_trans [OF a1(3) a2(2)] d(2,3)] by (simp add: connected_def)
  ultimately show ?thesis using d(1,4) unfolding same
    by (intro exI [of _ a2] exI [of _ bytes] exI [of _ k] exI [of _ ?b]) simp
qed

text \<open>A connection of TLS 1.1 with a block cipher of two bytes, for the example.\<close>

definition example_cipher :: "byte cipher" where
  "example_cipher = Cbc 2 (\<lambda>s x. (map (\<lambda>b. b XOR s) x, s)) (foldl (XOR) 0) 9"

definition example_mac :: macFunction where
  "example_mac = \<lparr>mac_Size = 1, mac_MAC = (\<lambda>sq h x. [foldl (+) 0 (sq @ h @ x)])\<rparr>"

definition example_half :: "byte halfConn" where
  "example_half = \<lparr>hc_err = None, hc_version = VersionTLS11, hc_cipher = Some example_cipher, hc_mac = Some example_mac,
     hc_seq = replicate 8 0, hc_nextCipher = None, hc_nextMac = None\<rparr>"

definition example_conn :: "byte conn" where
  "example_conn = \<lparr>c_isClient = True, c_handshakeErr = None, c_handshakeComplete = True, c_vers = VersionTLS11, c_haveVers = True,
     c_renegotiates = False, c_DynamicRecordSizingDisabled = False, c_rand = [1, 2, 3, 4, 5, 6], c_closeNotifyErr = None, c_closeNotifySent = False,
     c_closed = False, c_in = example_half, c_out = example_half, c_rawInput = [], c_input = None, c_hand = [], c_buffering = False,
     c_sendBuf = [], c_wire = [], c_bytesSent = 0, c_packetsSent = 0\<rparr>"

lemma example_dual: "dual_cipher (=) example_cipher example_cipher"
proof -
  have "map (\<lambda>b. b XOR s) (map (\<lambda>b. b XOR s) x) = x" for s :: byte and x by (simp add: comp_def xor.assoc)
  then show ?thesis by (simp add: example_cipher_def inverse_step_def)
qed

theorem tls_stream_witness:
  "\<exists>a' bytes k b'. conn_Write example_conn [7, 8, 9] = Some (a', 3, None) \<and> c_wire a' = bytes \<and> connected (=) a' b'
    \<and> (\<forall>rest. read_data k (example_conn\<lparr>c_rawInput := bytes @ rest\<rparr>) = Some ([7, 8, 9], b'\<lparr>c_rawInput := rest\<rparr>))"
proof -
  have "connected (=) example_conn example_conn"
    using example_dual
    by (simp add: connected_def matched_def example_conn_def example_half_def example_mac_def mac_ok_def VersionTLS11_def)
  moreover have "room example_conn (length [7, 8, 9 :: byte])"
    by (simp add: room_def example_conn_def example_half_def explicit_len_def example_cipher_def be_int_zeros)
  moreover have "c_handshakeComplete example_conn" "\<not> c_closed example_conn" "\<not> c_closeNotifySent example_conn"
    "hc_err (c_out example_conn) = None" and wire: "c_wire example_conn = []"
    by (simp_all add: example_conn_def example_half_def)
  ultimately show ?thesis using tls_stream [of "(=)" example_conn example_conn "[7, 8, 9]"] by (simp add: wire numeral_3_eq_3)
qed

end
