(* ===== verification/Crypto_Registry.thy ===== *)
theory Crypto_Registry
  imports Sm3
begin

text \<open>
  \<open>cryptosm.go\<close>: the identifiers of hash functions, their sizes and the table of constructors that the packages
  register. A \<open>Hash\<close> is an unsigned number; a panic is \<open>None\<close>; a hash object is a value of the type \<open>'h\<close> and
  its constructor a function of the unit. The constructors of the standard library, which \<open>init\<close> registers,
  are parameters; that of SM3 is the model of this library.
\<close>

type_synonym Hash = nat

definition H_MD4 :: Hash where "H_MD4 = 1"
definition H_MD5 :: Hash where "H_MD5 = 2"
definition H_SHA1 :: Hash where "H_SHA1 = 3"
definition H_SHA224 :: Hash where "H_SHA224 = 4"
definition H_SHA256 :: Hash where "H_SHA256 = 5"
definition H_SHA384 :: Hash where "H_SHA384 = 6"
definition H_SHA512 :: Hash where "H_SHA512 = 7"
definition H_MD5SHA1 :: Hash where "H_MD5SHA1 = 8"
definition H_RIPEMD160 :: Hash where "H_RIPEMD160 = 9"
definition H_SHA3_224 :: Hash where "H_SHA3_224 = 10"
definition H_SHA3_256 :: Hash where "H_SHA3_256 = 11"
definition H_SHA3_384 :: Hash where "H_SHA3_384 = 12"
definition H_SHA3_512 :: Hash where "H_SHA3_512 = 13"
definition H_SHA512_224 :: Hash where "H_SHA512_224 = 14"
definition H_SHA512_256 :: Hash where "H_SHA512_256 = 15"
definition H_BLAKE2s_256 :: Hash where "H_BLAKE2s_256 = 16"
definition H_BLAKE2b_256 :: Hash where "H_BLAKE2b_256 = 17"
definition H_BLAKE2b_384 :: Hash where "H_BLAKE2b_384 = 18"
definition H_BLAKE2b_512 :: Hash where "H_BLAKE2b_512 = 19"
definition H_SM3 :: Hash where "H_SM3 = 20"
definition maxHash :: Hash where "maxHash = 21"

lemmas hash_ids = H_MD4_def H_MD5_def H_SHA1_def H_SHA224_def H_SHA256_def H_SHA384_def H_SHA512_def H_MD5SHA1_def H_RIPEMD160_def H_SHA3_224_def H_SHA3_256_def H_SHA3_384_def H_SHA3_512_def H_SHA512_224_def H_SHA512_256_def H_BLAKE2s_256_def H_BLAKE2b_256_def H_BLAKE2b_384_def H_BLAKE2b_512_def H_SM3_def maxHash_def

definition HashFunc :: "Hash \<Rightarrow> Hash" where
  "HashFunc h = h"

text \<open>A composite literal with indices: the elements that it does not name are zero.\<close>

definition digestSizes :: "byte list" where
  "digestSizes = foldl (\<lambda>a (h, n). a[h := n]) (replicate maxHash 0)
     [(H_MD4, 16), (H_MD5, 16), (H_SHA1, 20), (H_SHA224, 28), (H_SHA256, 32), (H_SHA384, 48), (H_SHA512, 64), (H_SHA512_224, 28), (H_SHA512_256, 32), (H_SHA3_224, 28), (H_SHA3_256, 32), (H_SHA3_384, 48), (H_SHA3_512, 64), (H_MD5SHA1, 36), (H_RIPEMD160, 20), (H_BLAKE2s_256, 32), (H_BLAKE2b_256, 32), (H_BLAKE2b_384, 48), (H_BLAKE2b_512, 64), (H_SM3, 32)]"

definition Hash_Size :: "Hash \<Rightarrow> nat option" where
  "Hash_Size h = (if 0 < h \<and> h < maxHash then Some (unat (digestSizes ! h)) else None)"

type_synonym 'h hashes = "(unit \<Rightarrow> 'h) option list"

definition empty_hashes :: "'h hashes" where
  "empty_hashes = replicate maxHash None"

definition Hash_New :: "'h hashes \<Rightarrow> Hash \<Rightarrow> 'h option" where
  "Hash_New hashes h = (if 0 < h \<and> h < maxHash then (case hashes ! h of Some f \<Rightarrow> Some (f ()) | None \<Rightarrow> None) else None)"

definition Available :: "'h hashes \<Rightarrow> Hash \<Rightarrow> bool" where
  "Available hashes h = (h < maxHash \<and> hashes ! h \<noteq> None)"

text \<open>The constructor that is registered may be nil.\<close>

definition RegisterHash :: "'h hashes \<Rightarrow> Hash \<Rightarrow> (unit \<Rightarrow> 'h) option \<Rightarrow> 'h hashes option" where
  "RegisterHash hashes h f = (if maxHash \<le> h then None else Some (hashes[h := f]))"

text \<open>The constructors of the standard library and the conversion of an SM3 digest to the interface.\<close>

record 'h constructors =
  md5_New :: "unit \<Rightarrow> 'h"
  sha1_New :: "unit \<Rightarrow> 'h"
  sha256_New224 :: "unit \<Rightarrow> 'h"
  sha256_New :: "unit \<Rightarrow> 'h"
  sha512_New384 :: "unit \<Rightarrow> 'h"
  sha512_New :: "unit \<Rightarrow> 'h"
  sha512_New512_224 :: "unit \<Rightarrow> 'h"
  sha512_New512_256 :: "unit \<Rightarrow> 'h"
  sm3_object :: "digest \<Rightarrow> 'h"

definition registrations :: "'h constructors \<Rightarrow> (Hash \<times> (unit \<Rightarrow> 'h)) list" where
  "registrations lib = [(H_MD5, md5_New lib), (H_SHA1, sha1_New lib), (H_SHA224, sha256_New224 lib), (H_SHA256, sha256_New lib),
     (H_SHA384, sha512_New384 lib), (H_SHA512, sha512_New lib), (H_SHA512_224, sha512_New512_224 lib),
     (H_SHA512_256, sha512_New512_256 lib), (H_SM3, \<lambda>_. sm3_object lib New)]"

definition registry_init :: "'h constructors \<Rightarrow> 'h hashes \<Rightarrow> 'h hashes option" where
  "registry_init lib hashes = foldl (\<lambda>t (h, f). case t of None \<Rightarrow> None | Some t \<Rightarrow> RegisterHash t h (Some f)) (Some hashes) (registrations lib)"

section \<open>The table as a map\<close>

text \<open>The abstract state: the constructor of every identifier that has one.\<close>

definition registered :: "'h hashes \<Rightarrow> Hash \<Rightarrow> (unit \<Rightarrow> 'h) option" where
  "registered hashes h = (if h < maxHash then hashes ! h else None)"

definition table_ok :: "'h hashes \<Rightarrow> bool" where
  "table_ok hashes = (length hashes = maxHash)"

lemma registered_empty: "registered empty_hashes = (\<lambda>_. None)" "table_ok empty_hashes"
  by (auto simp: registered_def empty_hashes_def table_ok_def)

lemma registered_RegisterHash:
  assumes "table_ok hashes"
  shows "case RegisterHash hashes h f of
      None \<Rightarrow> maxHash \<le> h
    | Some hashes' \<Rightarrow> h < maxHash \<and> table_ok hashes' \<and> registered hashes' = (registered hashes)(h := f)"
  using assms by (auto simp: RegisterHash_def registered_def table_ok_def fun_eq_iff nth_list_update)

lemma register_all:
  assumes "list_all (\<lambda>(h, f). h < maxHash) rs" "table_ok hashes"
  shows "\<exists>t. foldl (\<lambda>t (h, f). case t of None \<Rightarrow> None | Some t \<Rightarrow> RegisterHash t h (Some f)) (Some hashes) rs = Some t
    \<and> table_ok t \<and> registered t = registered hashes ++ map_of (rev rs)"
  using assms
proof (induction rs arbitrary: hashes)
  case (Cons r rs)
  obtain h f where r: "r = (h, f)" by fastforce
  then obtain t where t: "RegisterHash hashes h (Some f) = Some t" "table_ok t" "registered t = (registered hashes)(h \<mapsto> f)"
    using Cons.prems registered_RegisterHash [OF Cons.prems(2), of h "Some f"] by (auto split: option.splits)
  have e: "(registered hashes)(h \<mapsto> f) ++ map_of (rev rs) = registered hashes ++ map_of (rev (r # rs))"
    by (auto simp: r map_add_def split: option.split)
  have "list_all (\<lambda>(h, f). h < maxHash) rs" using Cons.prems(1) by simp
  from Cons.IH [OF this t(2)] show ?case unfolding t(3) e by (simp only: r foldl_Cons prod.case option.case t(1))
qed simp

lemma digestSizes_eq: "map unat digestSizes = [0, 16, 16, 20, 28, 32, 48, 64, 36, 20, 28, 32, 48, 64, 28, 32, 32, 32, 48, 64, 32]"
  by code_simp

section \<open>Properties\<close>

text \<open>
  C35: The table of constructors refines a map from identifiers to constructors: registering updates it at the
  identifier and panics for the identifiers from \<open>maxHash\<close> on; \<open>New\<close> and \<open>Available\<close> read it. The
  identifier 0 can be registered and is then available, but \<open>New\<close> panics for it.
\<close>

theorem registry_refines_map:
  assumes "table_ok hashes"
  shows "(case RegisterHash hashes h f of
      None \<Rightarrow> maxHash \<le> h
    | Some hashes' \<Rightarrow> h < maxHash \<and> table_ok hashes' \<and> registered hashes' = (registered hashes)(h := f)
        \<and> Available hashes' h = (f \<noteq> None)
        \<and> Hash_New hashes' h = (if h = 0 then None else map_option (\<lambda>f. f ()) f))
    \<and> Available hashes k = (registered hashes k \<noteq> None)
    \<and> Hash_New hashes k = (if k = 0 then None else map_option (\<lambda>f. f ()) (registered hashes k))"
  using assms
  by (auto simp: RegisterHash_def registered_def table_ok_def Available_def Hash_New_def fun_eq_iff nth_list_update split: option.splits)

theorem registry_refines_map_witness:
  "\<exists>t. RegisterHash (empty_hashes :: nat hashes) 0 (Some (\<lambda>_. 7)) = Some t \<and> Available t 0 \<and> Hash_New t 0 = None"
  using registry_refines_map [OF registered_empty(2), of 0 "Some (\<lambda>_. 7 :: nat)"]
  by (simp add: RegisterHash_def maxHash_def)

text \<open>
  After \<open>init\<close> the functions that are available are the nine that it registers, \<open>New\<close> calls the constructor
  of each and panics for every other identifier; \<open>Size\<close> is defined and positive exactly for the identifiers from 1 to
  20, and the digest of SM3 has the size that the table gives.
\<close>

theorem registry_after_init:
  "\<exists>t. registry_init lib empty_hashes = Some t \<and> registered t = map_of (registrations lib)
    \<and> Collect (Available t) = {H_MD5, H_SHA1, H_SHA224, H_SHA256, H_SHA384, H_SHA512, H_SHA512_224, H_SHA512_256, H_SM3}
    \<and> Hash_New t H_SM3 = Some (sm3_object lib New)
    \<and> (case Hash_Size h of None \<Rightarrow> h = 0 \<or> maxHash \<le> h | Some n \<Rightarrow> 0 < h \<and> h < maxHash \<and> 0 < n)
    \<and> Hash_Size H_SM3 = map_option length (Sum (fst (Write New m)) [])"
proof -
  obtain t where t: "registry_init lib empty_hashes = Some t" and ok: "table_ok t"
    and r: "registered t = (\<lambda>_. None) ++ map_of (rev (registrations lib))"
    using register_all [OF _ registered_empty(2), of "registrations lib"]
    by (auto simp: registry_init_def registered_empty registrations_def hash_ids)
  have d: "distinct (map fst (registrations lib))" by (simp add: registrations_def hash_ids)
  have r: "registered t = map_of (registrations lib)"
    unfolding r using d map_of_inject_set [of "rev (registrations lib)" "registrations lib"] by (simp add: distinct_rev flip: rev_map)
  have "Available t k = (registered t k \<noteq> None)" for k by (auto simp: Available_def registered_def)
  then have "Collect (Available t) = dom (map_of (registrations lib))" by (auto simp: r)
  also have "\<dots> = {H_MD5, H_SHA1, H_SHA224, H_SHA256, H_SHA384, H_SHA512, H_SHA512_224, H_SHA512_256, H_SM3}"
    by (simp add: dom_map_of_conv_image_fst registrations_def)
  finally have a: "Collect (Available t) = \<dots>" .
  have "registered t H_SM3 = Some (\<lambda>_. sm3_object lib New)" unfolding r by (simp add: registrations_def hash_ids)
  then have n: "Hash_New t H_SM3 = Some (sm3_object lib New)" by (simp add: Hash_New_def registered_def hash_ids)
  have len: "length digestSizes = 21" using arg_cong [OF digestSizes_eq, of length] by simp
  have s: "Hash_Size k = (if 0 < k \<and> k < 21 then Some (map unat digestSizes ! k) else None)" for k
    by (simp add: Hash_Size_def len maxHash_def)
  have "Sum (fst (Write New m)) [] = Some (sm3_hash m)"
    using sm3.sum_writes [of "[m]" "[]"] by simp
  then have sm3: "Hash_Size H_SM3 = map_option length (Sum (fst (Write New m)) [])"
    unfolding s by (simp add: digestSizes_eq H_SM3_def)
  have "list_all (\<lambda>h. 0 < map unat digestSizes ! h) [1..<21]" unfolding digestSizes_eq by code_simp
  then have "0 < map unat digestSizes ! h" if "0 < h" "h < 21" using that by (simp add: list_all_iff)
  then have "case Hash_Size h of None \<Rightarrow> h = 0 \<or> maxHash \<le> h | Some n \<Rightarrow> 0 < h \<and> h < maxHash \<and> 0 < n"
    unfolding s by (auto simp: maxHash_def)
  then show ?thesis using t r a n sm3 by blast
qed

end
