(* ===== verification/Tls_Prf.thy ===== *)
theory Tls_Prf
  imports Tls_Record Crypto_Registry
begin

unbundle bit_operations_syntax

text \<open>
  The key schedule of package \<open>tls\<close> (prf.go): the pseudo-random functions of each version, the master secret and the keys
  of a connection, and the hash of the handshake messages. The hash functions of the standard library and HMAC are
  fields of an argument; SM3 is the model of this library. A hash object is the bytes written to it. A
  value \<open>None\<close> is a panic or a loop without end.
\<close>

section \<open>Hash functions\<close>

type_synonym hashfun = "byte list \<Rightarrow> byte list"

record hash_lib =
  md5 :: hashfun
  sha1 :: hashfun
  sha256 :: hashfun
  sha384 :: hashfun
  hmac :: "hashfun \<Rightarrow> byte list \<Rightarrow> byte list \<Rightarrow> byte list"

definition sm3_sum :: hashfun where
  "sm3_sum m = (case Sum_data m of Some h \<Rightarrow> h | None \<Rightarrow> [])"

section \<open>Pseudo-random functions\<close>

definition splitPreMasterSecret :: "byte list \<Rightarrow> byte list \<times> byte list" where
  "splitPreMasterSecret secret = (take ((length secret + 1) div 2) secret, drop (length secret div 2) secret)"

text \<open>The loop of \<open>pHash\<close> for the \<open>n\<close> bytes that are left; \<open>f\<close> is HMAC under the secret.\<close>

partial_function (option) pHash_loop :: "hashfun \<Rightarrow> byte list \<Rightarrow> byte list \<Rightarrow> nat \<Rightarrow> byte list option" where
  "pHash_loop f seed a n =
     (if n = 0 then Some []
      else
        let b = f (a @ seed);
            todo = (if length b > n then n else length b)
        in Option.bind (pHash_loop f seed (f a) (n - todo)) (\<lambda>rest. Some (take todo b @ rest)))"

definition pHash :: "hash_lib \<Rightarrow> nat \<Rightarrow> byte list \<Rightarrow> byte list \<Rightarrow> hashfun \<Rightarrow> byte list option" where
  "pHash H n secret seed hash = (let f = hmac H hash secret in pHash_loop f seed (f seed) n)"

type_synonym prf_fun = "nat \<Rightarrow> byte list \<Rightarrow> byte list \<Rightarrow> byte list \<Rightarrow> byte list option"

definition prf10 :: "hash_lib \<Rightarrow> prf_fun" where
  "prf10 H n secret label seed =
     (let labelAndSeed = label @ seed
      in case splitPreMasterSecret secret of (s1, s2) \<Rightarrow>
         case pHash H n s1 labelAndSeed (md5 H) of None \<Rightarrow> None
         | Some result \<Rightarrow> map_option (\<lambda>result2. map2 (XOR) result result2) (pHash H n s2 labelAndSeed (sha1 H)))"

definition prf12 :: "hash_lib \<Rightarrow> hashfun \<Rightarrow> prf_fun" where
  "prf12 H hashFunc n secret label seed = pHash H n secret (label @ seed) hashFunc"

text \<open>The array \<open>b\<close> of \<open>prf30\<close> has 11 elements: the twelfth round writes beyond it.\<close>

function prf30_loop :: "hash_lib \<Rightarrow> byte list \<Rightarrow> byte list \<Rightarrow> nat \<Rightarrow> nat \<Rightarrow> byte list option" where
  "prf30_loop H secret seed i n =
     (if n = 0 then Some []
      else if 11 \<le> i then None
      else
        let digest = sha1 H (replicate (i + 1) (65 + of_nat i) @ secret @ seed);
            out = md5 H (secret @ digest)
        in map_option (\<lambda>rest. take n out @ rest) (prf30_loop H secret seed (i + 1) (n - length out)))"
  by pat_completeness auto
termination by (relation "measure (\<lambda>(H, secret, seed, i, n). 11 - i)") auto

declare prf30_loop.simps [simp del]

definition prf30 :: "hash_lib \<Rightarrow> prf_fun" where
  "prf30 H n secret label seed = prf30_loop H secret seed 0 n"

section \<open>The key schedule\<close>

definition suiteECDHE :: int where "suiteECDHE = 1"
definition suiteSM2E :: int where "suiteSM2E = 2"
definition suiteECDSA :: int where "suiteECDSA = 4"
definition suiteSM2 :: int where "suiteSM2 = 8"
definition suiteTLS12 :: int where "suiteTLS12 = 16"
definition suiteSHA384 :: int where "suiteSHA384 = 32"
definition suiteDefaultOff :: int where "suiteDefaultOff = 64"

definition masterSecretLength :: nat where "masterSecretLength = 48"
definition finishedVerifyLength :: nat where "finishedVerifyLength = 12"

definition ascii :: "string \<Rightarrow> byte list" where
  "ascii s = map of_char s"

definition masterSecretLabel :: "byte list" where "masterSecretLabel = ascii ''master secret''"
definition keyExpansionLabel :: "byte list" where "keyExpansionLabel = ascii ''key expansion''"
definition clientFinishedLabel :: "byte list" where "clientFinishedLabel = ascii ''client finished''"
definition serverFinishedLabel :: "byte list" where "serverFinishedLabel = ascii ''server finished''"

text \<open>\<open>flags\<close> is the field of the cipher suite.\<close>

definition prfAndHashForVersion :: "hash_lib \<Rightarrow> u16 \<Rightarrow> int \<Rightarrow> (prf_fun \<times> Hash) option" where
  "prfAndHashForVersion H version flags =
     (if version = VersionSSL30 then
        if flags AND suiteSM2 \<noteq> 0 then Some (prf12 H sm3_sum, H_SM3) else Some (prf30 H, 0)
      else if version = VersionTLS10 \<or> version = VersionTLS11 then
        if flags AND suiteSM2 \<noteq> 0 then Some (prf12 H sm3_sum, H_SM3) else Some (prf10 H, 0)
      else if version = VersionTLS12 then
        if flags AND suiteSM2 \<noteq> 0 then Some (prf12 H sm3_sum, H_SM3) else Some (prf12 H (sha256 H), H_SHA256)
      else None)"

definition prfForVersion :: "hash_lib \<Rightarrow> u16 \<Rightarrow> int \<Rightarrow> prf_fun option" where
  "prfForVersion H version flags = map_option fst (prfAndHashForVersion H version flags)"

definition masterFromPreMasterSecret :: "hash_lib \<Rightarrow> u16 \<Rightarrow> int \<Rightarrow> byte list \<Rightarrow> byte list \<Rightarrow> byte list \<Rightarrow> byte list option" where
  "masterFromPreMasterSecret H version flags preMasterSecret clientRandom serverRandom =
     (let seed = clientRandom @ serverRandom
      in case prfForVersion H version flags of None \<Rightarrow> None
         | Some prf \<Rightarrow> prf masterSecretLength preMasterSecret masterSecretLabel seed)"

record connection_keys =
  clientMAC :: "byte list"
  serverMAC :: "byte list"
  clientKey :: "byte list"
  serverKey :: "byte list"
  clientIV :: "byte list"
  serverIV :: "byte list"

definition keysFromMasterSecret ::
  "hash_lib \<Rightarrow> u16 \<Rightarrow> int \<Rightarrow> byte list \<Rightarrow> byte list \<Rightarrow> byte list \<Rightarrow> nat \<Rightarrow> nat \<Rightarrow> nat \<Rightarrow> connection_keys option" where
  "keysFromMasterSecret H version flags masterSecret clientRandom serverRandom macLen keyLen ivLen =
     (let seed = serverRandom @ clientRandom;
          n = 2 * macLen + 2 * keyLen + 2 * ivLen
      in case prfForVersion H version flags of None \<Rightarrow> None
         | Some prf \<Rightarrow>
           (case prf n masterSecret keyExpansionLabel seed of None \<Rightarrow> None
            | Some keyMaterial \<Rightarrow>
                let clientMAC = take macLen keyMaterial; keyMaterial = drop macLen keyMaterial;
                    serverMAC = take macLen keyMaterial; keyMaterial = drop macLen keyMaterial;
                    clientKey = take keyLen keyMaterial; keyMaterial = drop keyLen keyMaterial;
                    serverKey = take keyLen keyMaterial; keyMaterial = drop keyLen keyMaterial;
                    clientIV = take ivLen keyMaterial; keyMaterial = drop ivLen keyMaterial;
                    serverIV = take ivLen keyMaterial
                in Some \<lparr>clientMAC = clientMAC, serverMAC = serverMAC, clientKey = clientKey, serverKey = serverKey,
                         clientIV = clientIV, serverIV = serverIV\<rparr>))"

definition hashSHA1 :: byte where "hashSHA1 = 2"
definition hashSHA256 :: byte where "hashSHA256 = 4"
definition hashSHA384 :: byte where "hashSHA384 = 5"
definition hashSM3 :: byte where "hashSM3 = 7"

definition lookupTLSHash :: "byte \<Rightarrow> Hash option" where
  "lookupTLSHash hash =
     (if hash = hashSHA1 then Some H_SHA1 else if hash = hashSHA256 then Some H_SHA256
      else if hash = hashSHA384 then Some H_SHA384 else if hash = hashSM3 then Some H_SM3 else None)"

text \<open>\<open>New\<close> of the identifiers this file uses, all of them registered.\<close>

definition hash_New :: "hash_lib \<Rightarrow> Hash \<Rightarrow> hashfun" where
  "hash_New H h = (if h = H_SHA1 then sha1 H else if h = H_SHA384 then sha384 H else if h = H_SM3 then sm3_sum else sha256 H)"

section \<open>The hash of the handshake\<close>

text \<open>The MD5 objects are nil for a version with one hash.\<close>

record finishedHash =
  fh_hash :: hashfun
  fh_client :: "byte list"
  fh_server :: "byte list"
  fh_clientMD5 :: "byte list option"
  fh_serverMD5 :: "byte list option"
  fh_buffer :: "byte list option"
  fh_version :: u16
  fh_prf :: prf_fun

definition newFinishedHash :: "hash_lib \<Rightarrow> u16 \<Rightarrow> int \<Rightarrow> finishedHash option" where
  "newFinishedHash H version flags =
     (let buffer = (if version = VersionSSL30 \<or> VersionTLS12 \<le> version then Some [] else None)
      in case prfAndHashForVersion H version flags of None \<Rightarrow> None
         | Some (prf, hash) \<Rightarrow>
             if hash \<noteq> 0
             then Some \<lparr>fh_hash = hash_New H hash, fh_client = [], fh_server = [], fh_clientMD5 = None, fh_serverMD5 = None,
                        fh_buffer = buffer, fh_version = version, fh_prf = prf\<rparr>
             else Some \<lparr>fh_hash = sha1 H, fh_client = [], fh_server = [], fh_clientMD5 = Some [], fh_serverMD5 = Some [],
                        fh_buffer = buffer, fh_version = version, fh_prf = prf\<rparr>)"

definition finishedHash_Write :: "finishedHash \<Rightarrow> byte list \<Rightarrow> finishedHash option" where
  "finishedHash_Write h msg =
     (let h = h\<lparr>fh_client := fh_client h @ msg, fh_server := fh_server h @ msg\<rparr>;
          md5s = (if fh_version h < VersionTLS12
                  then (case (fh_clientMD5 h, fh_serverMD5 h) of
                          (Some c, Some s) \<Rightarrow> Some (h\<lparr>fh_clientMD5 := Some (c @ msg), fh_serverMD5 := Some (s @ msg)\<rparr>)
                        | _ \<Rightarrow> None)
                  else Some h)
      in map_option (\<lambda>h. h\<lparr>fh_buffer := map_option (\<lambda>b. b @ msg) (fh_buffer h)\<rparr>) md5s)"

definition finishedHash_Sum :: "hash_lib \<Rightarrow> finishedHash \<Rightarrow> byte list option" where
  "finishedHash_Sum H h =
     (if VersionTLS12 \<le> fh_version h then Some (fh_hash h (fh_client h))
      else map_option (\<lambda>c. md5 H c @ fh_hash h (fh_client h)) (fh_clientMD5 h))"

definition ssl30Pad1 :: "byte list" where "ssl30Pad1 = replicate 48 0x36"
definition ssl30Pad2 :: "byte list" where "ssl30Pad2 = replicate 48 0x5c"

text \<open>The sum, and what the two objects hold after it: they are the ones of the handshake.\<close>

definition finishedSum30 :: "hash_lib \<Rightarrow> byte list \<Rightarrow> byte list \<Rightarrow> byte list \<Rightarrow> byte list \<Rightarrow> byte list \<times> byte list \<times> byte list" where
  "finishedSum30 H md5buf sha1buf masterSecret magic =
     (let md5buf = md5buf @ magic @ masterSecret @ ssl30Pad1;
          md5Digest = md5 H md5buf;
          md5buf = masterSecret @ ssl30Pad2 @ md5Digest;
          md5Digest = md5 H md5buf;
          sha1buf = sha1buf @ magic @ masterSecret @ take 40 ssl30Pad1;
          sha1Digest = sha1 H sha1buf;
          sha1buf = masterSecret @ take 40 ssl30Pad2 @ sha1Digest;
          sha1Digest = sha1 H sha1buf
      in (md5Digest @ sha1Digest, md5buf, sha1buf))"

definition ssl3ClientFinishedMagic :: "byte list" where "ssl3ClientFinishedMagic = [0x43, 0x4c, 0x4e, 0x54]"
definition ssl3ServerFinishedMagic :: "byte list" where "ssl3ServerFinishedMagic = [0x53, 0x52, 0x56, 0x52]"

definition clientSum :: "hash_lib \<Rightarrow> finishedHash \<Rightarrow> byte list \<Rightarrow> (byte list \<times> finishedHash) option" where
  "clientSum H h masterSecret =
     (if fh_version h = VersionSSL30 then
        (case fh_clientMD5 h of None \<Rightarrow> None
         | Some c \<Rightarrow> (case finishedSum30 H c (fh_client h) masterSecret ssl3ClientFinishedMagic of
             (out, c, s) \<Rightarrow> Some (out, h\<lparr>fh_clientMD5 := Some c, fh_client := s\<rparr>)))
      else (case finishedHash_Sum H h of None \<Rightarrow> None
            | Some digest \<Rightarrow> map_option (\<lambda>out. (out, h)) (fh_prf h finishedVerifyLength masterSecret clientFinishedLabel digest)))"

definition serverSum :: "hash_lib \<Rightarrow> finishedHash \<Rightarrow> byte list \<Rightarrow> (byte list \<times> finishedHash) option" where
  "serverSum H h masterSecret =
     (if fh_version h = VersionSSL30 then
        (case fh_serverMD5 h of None \<Rightarrow> None
         | Some c \<Rightarrow> (case finishedSum30 H c (fh_server h) masterSecret ssl3ServerFinishedMagic of
             (out, c, s) \<Rightarrow> Some (out, h\<lparr>fh_serverMD5 := Some c, fh_server := s\<rparr>)))
      else (case finishedHash_Sum H h of None \<Rightarrow> None
            | Some digest \<Rightarrow> map_option (\<lambda>out. (out, h)) (fh_prf h finishedVerifyLength masterSecret serverFinishedLabel digest)))"

definition discardHandshakeBuffer :: "finishedHash \<Rightarrow> finishedHash" where
  "discardHandshakeBuffer h = h\<lparr>fh_buffer := None\<rparr>"

section \<open>The signature of a client's certificate\<close>

record signatureAndHash =
  sah_hash :: byte
  sah_signature :: byte

definition signatureRSA :: byte where "signatureRSA = 1"
definition signatureECDSA :: byte where "signatureECDSA = 3"
definition signatureSM2 :: byte where "signatureSM2 = 8"

definition supportedSignatureAlgorithms :: "signatureAndHash list" where
  "supportedSignatureAlgorithms =
     [\<lparr>sah_hash = hashSHA256, sah_signature = signatureECDSA\<rparr>, \<lparr>sah_hash = hashSM3, sah_signature = signatureSM2\<rparr>]"

definition isSupportedSignatureAndHash :: "signatureAndHash \<Rightarrow> signatureAndHash list \<Rightarrow> bool" where
  "isSupportedSignatureAndHash sigHash sigHashes = list_ex (\<lambda>s. s = sigHash) sigHashes"

text \<open>\<open>None\<close> is the error.\<close>

definition selectClientCertSignatureAlgorithm :: "finishedHash \<Rightarrow> signatureAndHash list \<Rightarrow> byte \<Rightarrow> signatureAndHash option" where
  "selectClientCertSignatureAlgorithm h serverList sigType =
     (if fh_version h < VersionTLS12 then Some \<lparr>sah_hash = 0, sah_signature = sigType\<rparr>
      else List.find (\<lambda>v. sah_signature v = sigType \<and> isSupportedSignatureAndHash v supportedSignatureAlgorithms) serverList)"

datatype cert_hash = Panics | Unsupported | Digest "byte list" Hash

definition hashForClientCertificate :: "hash_lib \<Rightarrow> finishedHash \<Rightarrow> signatureAndHash \<Rightarrow> byte list \<Rightarrow> cert_hash" where
  "hashForClientCertificate H h sah masterSecret =
     (if (fh_version h = VersionSSL30 \<or> VersionTLS12 \<le> fh_version h) \<and> fh_buffer h = None then Panics
      else if fh_version h = VersionSSL30 then
        if sah_signature sah \<noteq> signatureRSA then Unsupported
        else (case fh_buffer h of None \<Rightarrow> Panics
              | Some b \<Rightarrow> Digest (fst (finishedSum30 H b b masterSecret [])) H_MD5SHA1)
      else if VersionTLS12 \<le> fh_version h then
        (case lookupTLSHash (sah_hash sah) of None \<Rightarrow> Unsupported
         | Some hashAlg \<Rightarrow> (case fh_buffer h of None \<Rightarrow> Panics | Some b \<Rightarrow> Digest (hash_New H hashAlg b) hashAlg))
      else if sah_signature sah = signatureSM2 then Digest (fh_hash h (fh_server h)) H_SM3
      else if sah_signature sah = signatureECDSA then Digest (fh_hash h (fh_server h)) H_SHA1
      else (case finishedHash_Sum H h of None \<Rightarrow> Panics | Some d \<Rightarrow> Digest d H_MD5SHA1))"

section \<open>P_hash\<close>

text \<open>The bytes of \<open>P_hash\<close> in the standard: blocks over the iterates of \<open>f\<close> on the seed.\<close>

definition P_blocks :: "hashfun \<Rightarrow> byte list \<Rightarrow> nat list \<Rightarrow> byte list" where
  "P_blocks f seed is = concat (map (\<lambda>i. f ((f ^^ Suc i) seed @ seed)) is)"

definition P_hash :: "hashfun \<Rightarrow> byte list \<Rightarrow> nat \<Rightarrow> byte list" where
  "P_hash f seed n = take n (P_blocks f seed [0..<n])"

definition constant_size :: "hashfun \<Rightarrow> bool" where
  "constant_size f = (f [] \<noteq> [] \<and> (\<forall>x. length (f x) = length (f [])))"

lemma P_blocks_simps: "P_blocks f seed [] = []" "P_blocks f seed (i # is) = f ((f ^^ Suc i) seed @ seed) @ P_blocks f seed is"
  "P_blocks f seed (is @ js) = P_blocks f seed is @ P_blocks f seed js"
  by (simp_all add: P_blocks_def)

lemma length_P_blocks: "constant_size f \<Longrightarrow> length (P_blocks f seed is) = length is * length (f [])"
  by (induction "is") (simp_all add: P_blocks_simps constant_size_def)

lemma take_P_blocks:
  assumes "constant_size f" "m \<le> l"
  shows "take m (P_blocks f seed [k..<k + l]) = take m (P_blocks f seed [k..<k + m])"
proof -
  have "[k..<k + l] = [k..<k + m] @ [k + m..<k + l]" using upt_add_eq_append [of k "k + m" "l - m"] assms(2) by simp
  moreover have "m \<le> length (P_blocks f seed [k..<k + m])"
    using assms(1) by (simp add: length_P_blocks) (simp add: constant_size_def Suc_le_eq)
  ultimately show ?thesis by (simp add: P_blocks_simps)
qed

lemma pHash_loop_eq:
  assumes "constant_size f"
  shows "pHash_loop f seed ((f ^^ Suc k) seed) n = Some (take n (P_blocks f seed [k..<k + n]))"
proof (induction n arbitrary: k rule: less_induct)
  case (less n)
  show ?case
  proof (cases "n = 0")
    case True
    then show ?thesis by (subst pHash_loop.simps) simp
  next
    case False
    let ?b = "f ((f ^^ Suc k) seed @ seed)"
    define t where "t = (if length ?b > n then n else length ?b)"
    have b: "0 < length ?b" using assms by (metis constant_size_def length_greater_0_conv)
    then have t: "0 < t" "t \<le> n" "take t ?b = take n ?b" "n - t = n - length ?b" using False by (auto simp: t_def)
    have "pHash_loop f seed ((f ^^ Suc k) seed) n
      = Option.bind (pHash_loop f seed ((f ^^ Suc (Suc k)) seed) (n - t)) (\<lambda>rest. Some (take t ?b @ rest))"
      using False by (subst pHash_loop.simps) (simp add: Let_def t_def)
    also have "\<dots> = Some (take t ?b @ take (n - t) (P_blocks f seed [Suc k..<Suc k + (n - t)]))"
      using less [of "n - t" "Suc k"] t(1) False by simp
    also have "take (n - t) (P_blocks f seed [Suc k..<Suc k + (n - t)]) = take (n - t) (P_blocks f seed [Suc k..<Suc k + (n - 1)])"
      by (rule take_P_blocks [OF assms, symmetric]) (use t(1) in simp)
    also have "[Suc k..<Suc k + (n - 1)] = [Suc k..<k + n]" using False by simp
    also have "take t ?b @ take (n - t) (P_blocks f seed [Suc k..<k + n]) = take n (P_blocks f seed [k..<k + n])"
      using False t(3,4) by (simp add: upt_conv_Cons P_blocks_simps)
    finally show ?thesis .
  qed
qed

lemma length_P_hash: "constant_size f \<Longrightarrow> length (P_hash f seed n) = n"
  by (simp add: P_hash_def length_P_blocks) (simp add: constant_size_def Suc_le_eq min_absorb2)

lemma pHash_eq: "constant_size (hmac H hash secret) \<Longrightarrow> pHash H n secret seed hash = Some (P_hash (hmac H hash secret) seed n)"
  using pHash_loop_eq [of "hmac H hash secret" seed 0 n] by (simp add: pHash_def P_hash_def Let_def)

section \<open>The reference\<close>

definition hash_lib_ok :: "hash_lib \<Rightarrow> bool" where
  "hash_lib_ok H = ((\<forall>x. length (md5 H x) = 16) \<and>
     (\<forall>k. constant_size (hmac H (md5 H) k) \<and> constant_size (hmac H (sha1 H) k) \<and> constant_size (hmac H (sha256 H) k) \<and> constant_size (hmac H sm3_sum k)))"

definition ssl30_block :: "hash_lib \<Rightarrow> byte list \<Rightarrow> byte list \<Rightarrow> nat \<Rightarrow> byte list" where
  "ssl30_block H secret seed i = md5 H (secret @ sha1 H (replicate (i + 1) (65 + of_nat i) @ secret @ seed))"

lemma prf30_loop_eq:
  assumes "\<forall>x. length (md5 H x) = 16" "i \<le> 11"
  shows "prf30_loop H secret seed i n = (if n \<le> 16 * (11 - i) then Some (take n (concat (map (ssl30_block H secret seed) [i..<11]))) else None)"
  using assms(2)
proof (induction "11 - i" arbitrary: i n)
  case 0
  then show ?case by (subst prf30_loop.simps) simp
next
  case (Suc d)
  then have i: "i < 11" by simp
  have l: "length (ssl30_block H secret seed i) = 16" using assms(1) by (simp add: ssl30_block_def)
  have "prf30_loop H secret seed i n = (if n = 0 then Some [] else map_option (\<lambda>rest. take n (ssl30_block H secret seed i) @ rest)
      (prf30_loop H secret seed (i + 1) (n - 16)))"
    using i l by (subst prf30_loop.simps) (simp add: Let_def ssl30_block_def)
  then show ?case using Suc(1) [of "i + 1" "n - 16"] Suc(2) i l by (auto simp: upt_conv_Cons)
qed

text \<open>The pseudo-random function of a version in its standard; \<open>sm2\<close> for the suites of SM2.\<close>

definition prf_bytes :: "hash_lib \<Rightarrow> u16 \<Rightarrow> bool \<Rightarrow> nat \<Rightarrow> byte list \<Rightarrow> byte list \<Rightarrow> byte list \<Rightarrow> byte list" where
  "prf_bytes H version sm2 n secret label seed =
     (if sm2 then P_hash (hmac H sm3_sum secret) (label @ seed) n
      else if version = VersionTLS12 then P_hash (hmac H (sha256 H) secret) (label @ seed) n
      else if version = VersionSSL30 then take n (concat (map (ssl30_block H secret seed) [0..<11]))
      else map2 (XOR) (P_hash (hmac H (md5 H) (fst (splitPreMasterSecret secret))) (label @ seed) n)
             (P_hash (hmac H (sha1 H) (snd (splitPreMasterSecret secret))) (label @ seed) n))"

definition prf_defined :: "u16 \<Rightarrow> bool \<Rightarrow> nat \<Rightarrow> bool" where
  "prf_defined version sm2 n =
     (version \<in> {VersionSSL30, VersionTLS10, VersionTLS11, VersionTLS12} \<and> (version = VersionSSL30 \<and> \<not> sm2 \<longrightarrow> n \<le> 176))"

lemmas versions = VersionSSL30_def VersionTLS10_def VersionTLS11_def VersionTLS12_def

lemma split_result: "(case x of None \<Rightarrow> None | Some y \<Rightarrow> Some (f y)) = map_option f x"
  by (cases x) simp_all

lemma prfForVersion_eq:
  assumes "hash_lib_ok H"
  shows "(case prfForVersion H version flags of None \<Rightarrow> None | Some prf \<Rightarrow> prf n secret label seed)
    = (if prf_defined version (flags AND suiteSM2 \<noteq> 0) n then Some (prf_bytes H version (flags AND suiteSM2 \<noteq> 0) n secret label seed) else None)"
proof -
  have h: "constant_size (hmac H (md5 H) k)" "constant_size (hmac H (sha1 H) k)" "constant_size (hmac H (sha256 H) k)" "constant_size (hmac H sm3_sum k)" for k
    using assms by (simp_all add: hash_lib_ok_def)
  have p: "prf12 H sm3_sum n secret label seed = Some (P_hash (hmac H sm3_sum secret) (label @ seed) n)"
    "prf12 H (sha256 H) n secret label seed = Some (P_hash (hmac H (sha256 H) secret) (label @ seed) n)"
    using h by (simp_all add: prf12_def pHash_eq)
  have q: "prf10 H n secret label seed = Some (map2 (XOR) (P_hash (hmac H (md5 H) (fst (splitPreMasterSecret secret))) (label @ seed) n)
             (P_hash (hmac H (sha1 H) (snd (splitPreMasterSecret secret))) (label @ seed) n))"
    using h by (simp add: prf10_def pHash_eq Let_def split: prod.splits)
  have r: "prf30 H n secret label seed = (if n \<le> 176 then Some (take n (concat (map (ssl30_block H secret seed) [0..<11]))) else None)"
    using prf30_loop_eq [of H 0 secret seed n] assms by (simp add: prf30_def hash_lib_ok_def)
  consider "version = VersionSSL30" | "version = VersionTLS10" | "version = VersionTLS11" | "version = VersionTLS12"
    | "version \<notin> {VersionSSL30, VersionTLS10, VersionTLS11, VersionTLS12}" by blast
  then show ?thesis
    by cases (simp_all add: prfForVersion_def prfAndHashForVersion_def prf_defined_def prf_bytes_def p q r, (simp_all add: versions)?)
qed

lemma length_prf_bytes:
  assumes "hash_lib_ok H" "prf_defined version sm2 n"
  shows "length (prf_bytes H version sm2 n secret label seed) = n"
proof -
  have "length (ssl30_block H secret seed i) = 16" for i using assms(1) by (simp add: ssl30_block_def hash_lib_ok_def)
  then have "length (concat (map (ssl30_block H secret seed) [0..<11])) = 176" by (simp add: length_concat comp_def sum_list_triv)
  then show ?thesis using assms by (auto simp: prf_bytes_def prf_defined_def hash_lib_ok_def length_P_hash)
qed

text \<open>The keys cut out of the key material.\<close>

definition cut_keys :: "byte list \<Rightarrow> nat \<Rightarrow> nat \<Rightarrow> nat \<Rightarrow> connection_keys" where
  "cut_keys km a b c =
     \<lparr>clientMAC = take a km, serverMAC = take a (drop a km), clientKey = take b (drop a (drop a km)),
      serverKey = take b (drop b (drop a (drop a km))), clientIV = take c (drop b (drop b (drop a (drop a km)))),
      serverIV = take c (drop c (drop b (drop b (drop a (drop a km)))))\<rparr>"

lemma cut_keys_parts:
  assumes "length km = 2 * a + 2 * b + 2 * c"
  shows "clientMAC (cut_keys km a b c) @ serverMAC (cut_keys km a b c) @ clientKey (cut_keys km a b c) @ serverKey (cut_keys km a b c)
      @ clientIV (cut_keys km a b c) @ serverIV (cut_keys km a b c) = km"
    "map length [clientMAC (cut_keys km a b c), serverMAC (cut_keys km a b c), clientKey (cut_keys km a b c), serverKey (cut_keys km a b c),
      clientIV (cut_keys km a b c), serverIV (cut_keys km a b c)] = [a, a, b, b, c, c]"
proof -
  let ?r = "drop c (drop b (drop b (drop a (drop a km))))"
  have "take c ?r = ?r" using assms by simp
  then show "clientMAC (cut_keys km a b c) @ serverMAC (cut_keys km a b c) @ clientKey (cut_keys km a b c) @ serverKey (cut_keys km a b c)
      @ clientIV (cut_keys km a b c) @ serverIV (cut_keys km a b c) = km"
    by (simp only: cut_keys_def connection_keys.simps append_take_drop_id)
  show "map length [clientMAC (cut_keys km a b c), serverMAC (cut_keys km a b c), clientKey (cut_keys km a b c), serverKey (cut_keys km a b c),
      clientIV (cut_keys km a b c), serverIV (cut_keys km a b c)] = [a, a, b, b, c, c]"
    using assms by (simp add: cut_keys_def)
qed

lemma keysFromMasterSecret_eq:
  assumes "hash_lib_ok H"
  shows "keysFromMasterSecret H version flags ms cr sr a b c
    = (let sm2 = (flags AND suiteSM2 \<noteq> 0); n = 2 * a + 2 * b + 2 * c in
       if prf_defined version sm2 n then Some (cut_keys (prf_bytes H version sm2 n ms keyExpansionLabel (sr @ cr)) a b c) else None)"
proof -
  have "keysFromMasterSecret H version flags ms cr sr a b c = map_option (\<lambda>km. cut_keys km a b c)
      (case prfForVersion H version flags of None \<Rightarrow> None | Some prf \<Rightarrow> prf (2 * a + 2 * b + 2 * c) ms keyExpansionLabel (sr @ cr))"
    by (simp add: keysFromMasterSecret_def cut_keys_def Let_def split: option.split del: drop_drop)
  then show ?thesis unfolding prfForVersion_eq [OF assms] by (simp add: Let_def)
qed

lemma masterFromPreMasterSecret_eq:
  assumes "hash_lib_ok H"
  shows "masterFromPreMasterSecret H version flags pms cr sr
    = (let sm2 = (flags AND suiteSM2 \<noteq> 0) in
       if prf_defined version sm2 48 then Some (prf_bytes H version sm2 48 pms masterSecretLabel (cr @ sr)) else None)"
  unfolding masterFromPreMasterSecret_def masterSecretLength_def Let_def by (rule prfForVersion_eq [OF assms])

text \<open>
  C14: The key schedule gives secrets of the lengths it promises: the master secret has 48 bytes, and the six keys the lengths asked
  for; in their order they are the output of the pseudo-random function that the standard of the version prescribes.
  It panics for an unknown version, and for SSL 3.0 when the keys need more than 176 bytes.
\<close>

theorem tls_key_schedule:
  assumes "hash_lib_ok H"
  shows "let sm2 = (flags AND suiteSM2 \<noteq> 0); n = 2 * macLen + 2 * keyLen + 2 * ivLen in
    (case masterFromPreMasterSecret H version flags pms cr sr of
       None \<Rightarrow> \<not> prf_defined version sm2 48
     | Some ms \<Rightarrow> prf_defined version sm2 48 \<and> length ms = 48 \<and> ms = prf_bytes H version sm2 48 pms masterSecretLabel (cr @ sr))
    \<and> (case keysFromMasterSecret H version flags ms cr sr macLen keyLen ivLen of
       None \<Rightarrow> \<not> prf_defined version sm2 n
     | Some k \<Rightarrow> prf_defined version sm2 n
         \<and> map length [clientMAC k, serverMAC k, clientKey k, serverKey k, clientIV k, serverIV k] = [macLen, macLen, keyLen, keyLen, ivLen, ivLen]
         \<and> clientMAC k @ serverMAC k @ clientKey k @ serverKey k @ clientIV k @ serverIV k
           = prf_bytes H version sm2 n ms keyExpansionLabel (sr @ cr))"
  using cut_keys_parts [OF length_prf_bytes [OF assms], of version "flags AND suiteSM2 \<noteq> 0" macLen keyLen ivLen ms keyExpansionLabel "sr @ cr"]
    length_prf_bytes [OF assms, of version "flags AND suiteSM2 \<noteq> 0" 48 pms masterSecretLabel "cr @ sr"]
  unfolding keysFromMasterSecret_eq [OF assms] masterFromPreMasterSecret_eq [OF assms] Let_def by (simp del: list.map)

definition example_lib :: hash_lib where
  "example_lib = \<lparr>md5 = (\<lambda>x. replicate 16 (foldl (+) 1 x)), sha1 = (\<lambda>x. replicate 20 (foldl (+) 2 x)),
     sha256 = (\<lambda>x. replicate 32 (foldl (+) 3 x)), sha384 = (\<lambda>x. replicate 48 (foldl (+) 4 x)),
     hmac = (\<lambda>h k x. [foldl (+) 5 (k @ x)])\<rparr>"

lemma example_lib_ok: "hash_lib_ok example_lib"
  by (simp add: hash_lib_ok_def example_lib_def constant_size_def)

theorem tls_key_schedule_witness:
  "(\<exists>ms. masterFromPreMasterSecret example_lib VersionTLS12 8 [1, 2] [3] [4] = Some ms \<and> length ms = 48)
    \<and> keysFromMasterSecret example_lib VersionSSL30 0 [] [3] [4] 40 40 9 = None"
proof -
  have "prf_defined VersionTLS12 True 48" "\<not> prf_defined VersionSSL30 False 178" by (simp_all add: prf_defined_def versions)
  then show ?thesis
    using tls_key_schedule [OF example_lib_ok, where version = VersionTLS12 and flags = 8 and pms = "[1, 2]" and ms = "[]" and cr = "[3]" and sr = "[4]"
        and macLen = 40 and keyLen = 40 and ivLen = 9]
      tls_key_schedule [OF example_lib_ok, where version = VersionSSL30 and flags = 0 and pms = "[1, 2]" and ms = "[]" and cr = "[3]" and sr = "[4]"
        and macLen = 40 and keyLen = 40 and ivLen = 9]
    by (cases "masterFromPreMasterSecret example_lib VersionTLS12 8 [1, 2] [3] [4]"; cases "keysFromMasterSecret example_lib VersionSSL30 0 [] [3] [4] 40 40 9")
      (simp_all add: suiteSM2_def Let_def)
qed

section \<open>Finished\<close>

fun write_all :: "finishedHash \<Rightarrow> byte list list \<Rightarrow> finishedHash option" where
  "write_all h [] = Some h"
| "write_all h (m # ms) = (case finishedHash_Write h m of None \<Rightarrow> None | Some h \<Rightarrow> write_all h ms)"

text \<open>The hash of a handshake whose messages are \<open>m\<close>.\<close>

definition hashed :: "hash_lib \<Rightarrow> u16 \<Rightarrow> bool \<Rightarrow> prf_fun \<Rightarrow> byte list \<Rightarrow> finishedHash" where
  "hashed H version sm2 prf m =
     (let one = (sm2 \<or> version = VersionTLS12)
      in \<lparr>fh_hash = (if sm2 then sm3_sum else if one then sha256 H else sha1 H), fh_client = m, fh_server = m,
          fh_clientMD5 = (if one then None else Some m), fh_serverMD5 = (if one then None else Some m),
          fh_buffer = (if version = VersionSSL30 \<or> version = VersionTLS12 then Some m else None), fh_version = version, fh_prf = prf\<rparr>)"

lemma newFinishedHash_eq:
  "newFinishedHash H version flags
    = map_option (\<lambda>prf. hashed H version (flags AND suiteSM2 \<noteq> 0) prf []) (prfForVersion H version flags)"
proof -
  consider "version = VersionSSL30" | "version = VersionTLS10" | "version = VersionTLS11" | "version = VersionTLS12"
    | "version \<notin> {VersionSSL30, VersionTLS10, VersionTLS11, VersionTLS12}" by blast
  then show ?thesis
    by cases (simp_all add: newFinishedHash_def prfForVersion_def prfAndHashForVersion_def hashed_def hash_New_def hash_ids versions Let_def)
qed

lemma Write_hashed:
  assumes "version \<in> {VersionSSL30, VersionTLS10, VersionTLS11, VersionTLS12}"
  shows "finishedHash_Write (hashed H version sm2 prf m) x
    = (if sm2 \<and> version \<noteq> VersionTLS12 then None else Some (hashed H version sm2 prf (m @ x)))"
  using assms by (auto simp: finishedHash_Write_def hashed_def versions)

lemma write_all_hashed:
  assumes "version \<in> {VersionSSL30, VersionTLS10, VersionTLS11, VersionTLS12}"
  shows "write_all (hashed H version sm2 prf m) ms
    = (if sm2 \<and> version \<noteq> VersionTLS12 \<and> ms \<noteq> [] then None else Some (hashed H version sm2 prf (m @ concat ms)))"
  by (induction ms arbitrary: m) (simp_all add: Write_hashed [OF assms])

lemma Sum_hashed:
  assumes "version \<in> {VersionSSL30, VersionTLS10, VersionTLS11, VersionTLS12}" "version = VersionTLS12 \<or> \<not> sm2"
  shows "finishedHash_Sum H (hashed H version sm2 prf m)
    = Some (if sm2 then sm3_hash m else if version = VersionTLS12 then sha256 H m else md5 H m @ sha1 H m)"
  using assms by (auto simp: finishedHash_Sum_def hashed_def sm3_sum_def Sum_data_eq versions)

text \<open>
  C40: The hash of the handshake depends on the bytes of the messages only, however they are written: SM3 for the SM2 suites and SHA-256 in
  TLS 1.2, MD5 and SHA-1 before it, and \<open>verify_data\<close> is the first 12 bytes of the pseudo-random function on it (TLS). A SM2
  suite before TLS 1.2 has no MD5 object: the first message panics.
\<close>

theorem tls_finished:
  assumes "hash_lib_ok H" "newFinishedHash H version flags = Some h" "ms \<noteq> []"
  shows "let sm2 = (flags AND suiteSM2 \<noteq> 0); m = concat ms;
             digest = (if sm2 then sm3_hash m else if version = VersionTLS12 then sha256 H m else md5 H m @ sha1 H m)
    in if sm2 \<and> version \<noteq> VersionTLS12 then write_all h ms = None
       else \<exists>h'. write_all h ms = Some h' \<and> finishedHash_Sum H h' = Some digest
         \<and> fh_buffer h' = (if version = VersionSSL30 \<or> version = VersionTLS12 then Some m else None)
         \<and> (version = VersionSSL30
            \<or> clientSum H h' secret = Some (prf_bytes H version sm2 12 secret clientFinishedLabel digest, h')
              \<and> serverSum H h' secret = Some (prf_bytes H version sm2 12 secret serverFinishedLabel digest, h'))"
proof -
  define sm2 where "sm2 = (flags AND suiteSM2 \<noteq> 0)"
  obtain pf where p: "prfForVersion H version flags = Some pf" "h = hashed H version sm2 pf []"
    using assms(2) by (auto simp: newFinishedHash_eq sm2_def)
  then have v: "version \<in> {VersionSSL30, VersionTLS10, VersionTLS11, VersionTLS12}"
    by (auto simp: prfForVersion_def prfAndHashForVersion_def split: if_splits)
  have verify: "version \<noteq> VersionSSL30 \<Longrightarrow> pf 12 secret label seed = Some (prf_bytes H version sm2 12 secret label seed)" for label seed
    using prfForVersion_eq [OF assms(1), where version = version and flags = flags and n = 12 and secret = secret and label = label and seed = seed] p(1) v
    by (simp add: prf_defined_def sm2_def)
  have fields: "fh_version (hashed H version sm2 pf (concat ms)) = version" "fh_prf (hashed H version sm2 pf (concat ms)) = pf"
    "fh_buffer (hashed H version sm2 pf (concat ms)) = (if version = VersionSSL30 \<or> version = VersionTLS12 then Some (concat ms) else None)"
    by (simp_all add: hashed_def Let_def)
  show ?thesis
  proof (cases "sm2 \<and> version \<noteq> VersionTLS12")
    case True
    then show ?thesis using assms(3) unfolding Let_def sm2_def [symmetric] p(2) write_all_hashed [OF v] by simp
  next
    case False
    then have w: "write_all h ms = Some (hashed H version sm2 pf (concat ms))" unfolding p(2) write_all_hashed [OF v] by auto
    have s: "finishedHash_Sum H (hashed H version sm2 pf (concat ms))
        = Some (if sm2 then sm3_hash (concat ms) else if version = VersionTLS12 then sha256 H (concat ms) else md5 H (concat ms) @ sha1 H (concat ms))"
      using False by (intro Sum_hashed [OF v]) auto
    show ?thesis
      unfolding Let_def sm2_def [symmetric] if_not_P [OF False] w
      by (intro exI [of _ "hashed H version sm2 pf (concat ms)"])
        (simp add: s fields clientSum_def serverSum_def finishedVerifyLength_def verify)
  qed
qed

theorem tls_finished_witness:
  "write_all (hashed example_lib VersionTLS11 True (prf12 example_lib sm3_sum) []) [[1], [2]] = None"
proof -
  have "newFinishedHash example_lib VersionTLS11 8 = Some (hashed example_lib VersionTLS11 True (prf12 example_lib sm3_sum) [])"
    by (simp add: newFinishedHash_eq prfForVersion_def prfAndHashForVersion_def suiteSM2_def versions)
  from tls_finished [OF example_lib_ok this, of "[[1], [2]]"] show ?thesis by (simp add: suiteSM2_def versions Let_def)
qed

end
