(* ===== verification/Tls_Suites.thy ===== *)
theory Tls_Suites
  imports Tls_Stream Tls_Prf Sm4
begin

unbundle bit_operations_syntax

text \<open>
  The cipher suites of package \<open>tls\<close> (cipher_suites.go) and the step that puts their keys into a connection
  (\<open>establishKeys\<close> of both handshakes). The block ciphers, GCM, ChaCha20-Poly1305 and RC4 of other libraries are fields of an
  argument; SM4 and SM3 are the models of this library, CBC is the mode of the standard library over a block.
\<close>

section \<open>Blocks and modes\<close>

record block =
  bk_size :: nat
  bk_encrypt :: "byte list \<Rightarrow> byte list"
  bk_decrypt :: "byte list \<Rightarrow> byte list"

text \<open>\<open>CryptBlocks\<close> of the CBC modes on whole blocks; the state is the chaining block.\<close>

function cbc_enc :: "nat \<Rightarrow> (byte list \<Rightarrow> byte list) \<Rightarrow> byte list \<Rightarrow> byte list \<Rightarrow> byte list \<times> byte list" where
  "cbc_enc n E iv x =
     (if n = 0 \<or> length x < n then ([], iv)
      else let c = E (map2 (XOR) (take n x) iv)
           in case cbc_enc n E c (drop n x) of (out, iv) \<Rightarrow> (c @ out, iv))"
  by pat_completeness auto
termination by (relation "measure (\<lambda>(n, E, iv, x). length x)") auto

function cbc_dec :: "nat \<Rightarrow> (byte list \<Rightarrow> byte list) \<Rightarrow> byte list \<Rightarrow> byte list \<Rightarrow> byte list \<times> byte list" where
  "cbc_dec n D iv x =
     (if n = 0 \<or> length x < n then ([], iv)
      else case cbc_dec n D (take n x) (drop n x) of (out, iv') \<Rightarrow> (map2 (XOR) (D (take n x)) iv @ out, iv'))"
  by pat_completeness auto
termination by (relation "measure (\<lambda>(n, D, iv, x). length x)") auto

declare cbc_enc.simps [simp del] cbc_dec.simps [simp del]

text \<open>\<open>None\<close> is the panic for a nil block or an initialisation vector of another length.\<close>

definition NewCBC :: "block option \<Rightarrow> byte list \<Rightarrow> bool \<Rightarrow> byte list cipher option" where
  "NewCBC block iv isRead =
     (case block of None \<Rightarrow> None
      | Some b \<Rightarrow> if length iv \<noteq> bk_size b then None
                 else Some (Cbc (bk_size b) (if isRead then cbc_dec (bk_size b) (bk_decrypt b) else cbc_enc (bk_size b) (bk_encrypt b)) (\<lambda>v. v) iv))"

definition sm4_crypt :: "(byte list \<Rightarrow> byte list \<Rightarrow> sm4_error + byte list) \<Rightarrow> byte list \<Rightarrow> byte list" where
  "sm4_crypt f x = (case f (replicate 16 0) x of Inl e \<Rightarrow> [] | Inr out \<Rightarrow> out)"

definition sm4_block :: "byte list \<Rightarrow> block option" where
  "sm4_block key = (case NewCipher key of Inl e \<Rightarrow> None
     | Inr c \<Rightarrow> Some \<lparr>bk_size = 16, bk_encrypt = sm4_crypt (Encrypt c), bk_decrypt = sm4_crypt (Decrypt c)\<rparr>)"

section \<open>Ciphers, MACs and AEADs\<close>

text \<open>An AEAD of package \<open>cipher\<close>: \<open>Overhead\<close>, \<open>Seal\<close> and \<open>Open\<close>.\<close>

record aead_fun =
  ae_overhead :: nat
  ae_seal :: "byte list \<Rightarrow> byte list \<Rightarrow> byte list \<Rightarrow> byte list"
  ae_open :: "byte list \<Rightarrow> byte list \<Rightarrow> byte list \<Rightarrow> byte list option"

record suite_lib =
  lib_hash :: hash_lib
  lib_aes :: "byte list \<Rightarrow> block option"
  lib_3des :: "byte list \<Rightarrow> block option"
  lib_rc4 :: "byte list \<Rightarrow> (byte list \<Rightarrow> byte list \<Rightarrow> byte list \<times> byte list) \<times> byte list"
  lib_gcm :: "block \<Rightarrow> aead_fun option"
  lib_chacha :: "byte list \<Rightarrow> aead_fun option"

datatype cipher_name = cipherRC4 | cipher3DES | cipherAES | cipherSM4

definition suite_cipher :: "suite_lib \<Rightarrow> cipher_name \<Rightarrow> byte list \<Rightarrow> byte list \<Rightarrow> bool \<Rightarrow> byte list cipher option" where
  "suite_cipher L f key iv isRead =
     (case f of
        cipherRC4 \<Rightarrow> (case lib_rc4 L key of (xor_stream, s) \<Rightarrow> Some (Stream xor_stream s))
      | cipher3DES \<Rightarrow> NewCBC (lib_3des L key) iv isRead
      | cipherAES \<Rightarrow> NewCBC (lib_aes L key) iv isRead
      | cipherSM4 \<Rightarrow> NewCBC (sm4_block key) iv isRead)"

definition tls10MAC :: "nat \<Rightarrow> hashfun \<Rightarrow> macFunction" where
  "tls10MAC n h = \<lparr>mac_Size = n, mac_MAC = (\<lambda>sq header data. h (sq @ header @ data))\<rparr>"

definition ssl30MAC :: "nat \<Rightarrow> hashfun \<Rightarrow> byte list \<Rightarrow> macFunction" where
  "ssl30MAC n h key = \<lparr>mac_Size = n, mac_MAC = (\<lambda>sq header data.
     let padLength = (if n = 20 then 40 else 48);
         digestBuf = h (key @ take padLength ssl30Pad1 @ sq @ take 1 header @ take 2 (drop 3 header) @ data)
     in h (key @ take padLength ssl30Pad2 @ digestBuf))\<rparr>"

datatype mac_name = macSHA1 | macSHA256 | macSM3

definition suite_mac :: "suite_lib \<Rightarrow> mac_name \<Rightarrow> u16 \<Rightarrow> byte list \<Rightarrow> macFunction" where
  "suite_mac L f version key =
     (let H = lib_hash L in case f of
        macSHA1 \<Rightarrow> if version = VersionSSL30 then ssl30MAC 20 (sha1 H) key else tls10MAC 20 (hmac H (sha1 H) key)
      | macSHA256 \<Rightarrow> tls10MAC 32 (hmac H (sha256 H) key)
      | macSM3 \<Rightarrow> tls10MAC 32 (hmac H sm3_sum key))"

text \<open>The 12 bytes of a nonce; the records give 8 bytes to each wrapper.\<close>

definition nonce12 :: "byte list \<Rightarrow> byte list" where
  "nonce12 fixed = take 12 (fixed @ replicate 12 0)"

definition fixedNonceAEAD :: "aead_fun \<Rightarrow> byte list \<Rightarrow> byte list cipher" where
  "fixedNonceAEAD a fixed =
     (let full = (\<lambda>nonce. take 4 (nonce12 fixed) @ take 8 nonce @ drop (4 + length (take 8 nonce)) (nonce12 fixed))
      in Aead 8 (ae_overhead a) (\<lambda>nonce. ae_seal a (full nonce)) (\<lambda>nonce. ae_open a (full nonce)))"

definition xorNonceAEAD :: "aead_fun \<Rightarrow> byte list \<Rightarrow> byte list cipher" where
  "xorNonceAEAD a fixed =
     (let full = (\<lambda>nonce. take 4 (nonce12 fixed) @ map2 (XOR) (drop 4 (nonce12 fixed)) nonce)
      in Aead 0 (ae_overhead a) (\<lambda>nonce. ae_seal a (full nonce)) (\<lambda>nonce. ae_open a (full nonce)))"

datatype aead_name = aeadAESGCM | aeadSM4GCM | aeadChaCha20Poly1305

definition suite_aead :: "suite_lib \<Rightarrow> aead_name \<Rightarrow> byte list \<Rightarrow> byte list \<Rightarrow> byte list cipher option" where
  "suite_aead L f key fixedNonce =
     (case f of
        aeadAESGCM \<Rightarrow> (case lib_aes L key of None \<Rightarrow> None | Some b \<Rightarrow> map_option (\<lambda>a. fixedNonceAEAD a fixedNonce) (lib_gcm L b))
      | aeadSM4GCM \<Rightarrow> (case sm4_block key of None \<Rightarrow> None | Some b \<Rightarrow> map_option (\<lambda>a. fixedNonceAEAD a fixedNonce) (lib_gcm L b))
      | aeadChaCha20Poly1305 \<Rightarrow> map_option (\<lambda>a. xorNonceAEAD a fixedNonce) (lib_chacha L key))"

section \<open>The suites\<close>

text \<open>The function of the key agreement is its name: it is part of the handshake.\<close>

datatype ka_name = rsaKA | ecdheRSAKA | ecdheECDSAKA | ecdheSM2KA | sm2KA

record cipherSuite =
  cs_id :: u16
  cs_keyLen :: nat
  cs_macLen :: nat
  cs_ivLen :: nat
  cs_ka :: ka_name
  cs_flags :: int
  cs_cipher :: "cipher_name option"
  cs_mac :: "mac_name option"
  cs_aead :: "aead_name option"

definition suite :: "u16 \<Rightarrow> nat \<Rightarrow> nat \<Rightarrow> nat \<Rightarrow> ka_name \<Rightarrow> int \<Rightarrow> cipher_name option \<Rightarrow> mac_name option \<Rightarrow> aead_name option \<Rightarrow> cipherSuite" where
  "suite i k m v ka fl c mc a = \<lparr>cs_id = i, cs_keyLen = k, cs_macLen = m, cs_ivLen = v, cs_ka = ka, cs_flags = fl,
     cs_cipher = c, cs_mac = mc, cs_aead = a\<rparr>"

definition TLS_RSA_WITH_RC4_128_SHA :: u16 where "TLS_RSA_WITH_RC4_128_SHA = 0x0005"
definition TLS_RSA_WITH_3DES_EDE_CBC_SHA :: u16 where "TLS_RSA_WITH_3DES_EDE_CBC_SHA = 0x000a"
definition TLS_RSA_WITH_AES_128_CBC_SHA :: u16 where "TLS_RSA_WITH_AES_128_CBC_SHA = 0x002f"
definition TLS_RSA_WITH_AES_256_CBC_SHA :: u16 where "TLS_RSA_WITH_AES_256_CBC_SHA = 0x0035"
definition TLS_RSA_WITH_AES_128_CBC_SHA256 :: u16 where "TLS_RSA_WITH_AES_128_CBC_SHA256 = 0x003c"
definition TLS_RSA_WITH_AES_128_GCM_SHA256 :: u16 where "TLS_RSA_WITH_AES_128_GCM_SHA256 = 0x009c"
definition TLS_RSA_WITH_AES_256_GCM_SHA384 :: u16 where "TLS_RSA_WITH_AES_256_GCM_SHA384 = 0x009d"
definition TLS_ECDHE_ECDSA_WITH_RC4_128_SHA :: u16 where "TLS_ECDHE_ECDSA_WITH_RC4_128_SHA = 0xc007"
definition TLS_ECDHE_ECDSA_WITH_AES_128_CBC_SHA :: u16 where "TLS_ECDHE_ECDSA_WITH_AES_128_CBC_SHA = 0xc009"
definition TLS_ECDHE_ECDSA_WITH_AES_256_CBC_SHA :: u16 where "TLS_ECDHE_ECDSA_WITH_AES_256_CBC_SHA = 0xc00a"
definition TLS_ECDHE_RSA_WITH_RC4_128_SHA :: u16 where "TLS_ECDHE_RSA_WITH_RC4_128_SHA = 0xc011"
definition TLS_ECDHE_RSA_WITH_3DES_EDE_CBC_SHA :: u16 where "TLS_ECDHE_RSA_WITH_3DES_EDE_CBC_SHA = 0xc012"
definition TLS_ECDHE_RSA_WITH_AES_128_CBC_SHA :: u16 where "TLS_ECDHE_RSA_WITH_AES_128_CBC_SHA = 0xc013"
definition TLS_ECDHE_RSA_WITH_AES_256_CBC_SHA :: u16 where "TLS_ECDHE_RSA_WITH_AES_256_CBC_SHA = 0xc014"
definition TLS_ECDHE_ECDSA_WITH_AES_128_CBC_SHA256 :: u16 where "TLS_ECDHE_ECDSA_WITH_AES_128_CBC_SHA256 = 0xc023"
definition TLS_ECDHE_RSA_WITH_AES_128_CBC_SHA256 :: u16 where "TLS_ECDHE_RSA_WITH_AES_128_CBC_SHA256 = 0xc027"
definition TLS_ECDHE_RSA_WITH_AES_128_GCM_SHA256 :: u16 where "TLS_ECDHE_RSA_WITH_AES_128_GCM_SHA256 = 0xc02f"
definition TLS_ECDHE_ECDSA_WITH_AES_128_GCM_SHA256 :: u16 where "TLS_ECDHE_ECDSA_WITH_AES_128_GCM_SHA256 = 0xc02b"
definition TLS_ECDHE_RSA_WITH_AES_256_GCM_SHA384 :: u16 where "TLS_ECDHE_RSA_WITH_AES_256_GCM_SHA384 = 0xc030"
definition TLS_ECDHE_ECDSA_WITH_AES_256_GCM_SHA384 :: u16 where "TLS_ECDHE_ECDSA_WITH_AES_256_GCM_SHA384 = 0xc02c"
definition TLS_ECDHE_RSA_WITH_CHACHA20_POLY1305 :: u16 where "TLS_ECDHE_RSA_WITH_CHACHA20_POLY1305 = 0xcca8"
definition TLS_ECDHE_ECDSA_WITH_CHACHA20_POLY1305 :: u16 where "TLS_ECDHE_ECDSA_WITH_CHACHA20_POLY1305 = 0xcca9"
definition TLS_ECDHE_SM2_WITH_SM4_SM3 :: u16 where "TLS_ECDHE_SM2_WITH_SM4_SM3 = 0xe031"
definition TLS_SM2_WITH_SM4_SM3 :: u16 where "TLS_SM2_WITH_SM4_SM3 = 0xe033"
definition TLS_SM4_GCM_SM3 :: u16 where "TLS_SM4_GCM_SM3 = 0x00c6"
definition TLS_SM4_CCM_SM3 :: u16 where "TLS_SM4_CCM_SM3 = 0x00c7"
definition TLS_FALLBACK_SCSV :: u16 where "TLS_FALLBACK_SCSV = 0x5600"

lemmas suite_ids = TLS_RSA_WITH_RC4_128_SHA_def TLS_RSA_WITH_3DES_EDE_CBC_SHA_def TLS_RSA_WITH_AES_128_CBC_SHA_def TLS_RSA_WITH_AES_256_CBC_SHA_def TLS_RSA_WITH_AES_128_CBC_SHA256_def TLS_RSA_WITH_AES_128_GCM_SHA256_def TLS_RSA_WITH_AES_256_GCM_SHA384_def TLS_ECDHE_ECDSA_WITH_RC4_128_SHA_def TLS_ECDHE_ECDSA_WITH_AES_128_CBC_SHA_def TLS_ECDHE_ECDSA_WITH_AES_256_CBC_SHA_def TLS_ECDHE_RSA_WITH_RC4_128_SHA_def TLS_ECDHE_RSA_WITH_3DES_EDE_CBC_SHA_def TLS_ECDHE_RSA_WITH_AES_128_CBC_SHA_def TLS_ECDHE_RSA_WITH_AES_256_CBC_SHA_def TLS_ECDHE_ECDSA_WITH_AES_128_CBC_SHA256_def TLS_ECDHE_RSA_WITH_AES_128_CBC_SHA256_def TLS_ECDHE_RSA_WITH_AES_128_GCM_SHA256_def TLS_ECDHE_ECDSA_WITH_AES_128_GCM_SHA256_def TLS_ECDHE_RSA_WITH_AES_256_GCM_SHA384_def TLS_ECDHE_ECDSA_WITH_AES_256_GCM_SHA384_def TLS_ECDHE_RSA_WITH_CHACHA20_POLY1305_def TLS_ECDHE_ECDSA_WITH_CHACHA20_POLY1305_def TLS_ECDHE_SM2_WITH_SM4_SM3_def TLS_SM2_WITH_SM4_SM3_def TLS_SM4_GCM_SM3_def TLS_SM4_CCM_SM3_def TLS_FALLBACK_SCSV_def

definition cipherSuites :: "cipherSuite list" where
  "cipherSuites =
    [suite TLS_ECDHE_RSA_WITH_CHACHA20_POLY1305 32 0 12 ecdheRSAKA (suiteECDHE OR suiteTLS12) None None (Some aeadChaCha20Poly1305),
     suite TLS_ECDHE_ECDSA_WITH_CHACHA20_POLY1305 32 0 12 ecdheECDSAKA (suiteECDHE OR suiteECDSA OR suiteTLS12) None None (Some aeadChaCha20Poly1305),
     suite TLS_ECDHE_RSA_WITH_AES_128_GCM_SHA256 16 0 4 ecdheRSAKA (suiteECDHE OR suiteTLS12) None None (Some aeadAESGCM),
     suite TLS_ECDHE_ECDSA_WITH_AES_128_GCM_SHA256 16 0 4 ecdheECDSAKA (suiteECDHE OR suiteECDSA OR suiteTLS12) None None (Some aeadAESGCM),
     suite TLS_ECDHE_RSA_WITH_AES_256_GCM_SHA384 32 0 4 ecdheRSAKA (suiteECDHE OR suiteTLS12 OR suiteSHA384) None None (Some aeadAESGCM),
     suite TLS_ECDHE_ECDSA_WITH_AES_256_GCM_SHA384 32 0 4 ecdheECDSAKA (suiteECDHE OR suiteECDSA OR suiteTLS12 OR suiteSHA384) None None (Some aeadAESGCM),
     suite TLS_ECDHE_RSA_WITH_AES_128_CBC_SHA256 16 32 16 ecdheRSAKA (suiteECDHE OR suiteTLS12 OR suiteDefaultOff) (Some cipherAES) (Some macSHA256) None,
     suite TLS_ECDHE_RSA_WITH_AES_128_CBC_SHA 16 20 16 ecdheRSAKA (suiteECDHE) (Some cipherAES) (Some macSHA1) None,
     suite TLS_ECDHE_ECDSA_WITH_AES_128_CBC_SHA256 16 32 16 ecdheECDSAKA (suiteECDHE OR suiteECDSA OR suiteTLS12 OR suiteDefaultOff) (Some cipherAES) (Some macSHA256) None,
     suite TLS_ECDHE_ECDSA_WITH_AES_128_CBC_SHA 16 20 16 ecdheECDSAKA (suiteECDHE OR suiteECDSA) (Some cipherAES) (Some macSHA1) None,
     suite TLS_ECDHE_RSA_WITH_AES_256_CBC_SHA 32 20 16 ecdheRSAKA (suiteECDHE) (Some cipherAES) (Some macSHA1) None,
     suite TLS_ECDHE_ECDSA_WITH_AES_256_CBC_SHA 32 20 16 ecdheECDSAKA (suiteECDHE OR suiteECDSA) (Some cipherAES) (Some macSHA1) None,
     suite TLS_RSA_WITH_AES_128_GCM_SHA256 16 0 4 rsaKA (suiteTLS12) None None (Some aeadAESGCM),
     suite TLS_RSA_WITH_AES_256_GCM_SHA384 32 0 4 rsaKA (suiteTLS12 OR suiteSHA384) None None (Some aeadAESGCM),
     suite TLS_RSA_WITH_AES_128_CBC_SHA256 16 32 16 rsaKA (suiteTLS12 OR suiteDefaultOff) (Some cipherAES) (Some macSHA256) None,
     suite TLS_RSA_WITH_AES_128_CBC_SHA 16 20 16 rsaKA (0) (Some cipherAES) (Some macSHA1) None,
     suite TLS_RSA_WITH_AES_256_CBC_SHA 32 20 16 rsaKA (0) (Some cipherAES) (Some macSHA1) None,
     suite TLS_ECDHE_RSA_WITH_3DES_EDE_CBC_SHA 24 20 8 ecdheRSAKA (suiteECDHE) (Some cipher3DES) (Some macSHA1) None,
     suite TLS_RSA_WITH_3DES_EDE_CBC_SHA 24 20 8 rsaKA (0) (Some cipher3DES) (Some macSHA1) None,
     suite TLS_ECDHE_SM2_WITH_SM4_SM3 16 20 16 ecdheSM2KA (suiteECDHE OR suiteSM2 OR suiteTLS12) (Some cipherSM4) (Some macSM3) None,
     suite TLS_SM2_WITH_SM4_SM3 16 20 16 sm2KA (suiteSM2E OR suiteSM2 OR suiteTLS12) (Some cipherSM4) (Some macSM3) None,
     suite TLS_SM4_GCM_SM3 16 0 4 sm2KA (suiteSM2E OR suiteSM2 OR suiteTLS12) None None (Some aeadSM4GCM),
     suite TLS_SM4_CCM_SM3 16 0 4 sm2KA (suiteSM2E OR suiteSM2 OR suiteTLS12) None None (Some aeadSM4GCM),
     suite TLS_RSA_WITH_RC4_128_SHA 16 20 0 rsaKA (suiteDefaultOff) (Some cipherRC4) (Some macSHA1) None,
     suite TLS_ECDHE_RSA_WITH_RC4_128_SHA 16 20 0 ecdheRSAKA (suiteECDHE OR suiteDefaultOff) (Some cipherRC4) (Some macSHA1) None,
     suite TLS_ECDHE_ECDSA_WITH_RC4_128_SHA 16 20 0 ecdheECDSAKA (suiteECDHE OR suiteECDSA OR suiteDefaultOff) (Some cipherRC4) (Some macSHA1) None]"

definition mutualCipherSuite :: "u16 list \<Rightarrow> u16 \<Rightarrow> cipherSuite option" where
  "mutualCipherSuite have_ids want = (if list_ex (\<lambda>i. i = want) have_ids then List.find (\<lambda>s. cs_id s = want) cipherSuites else None)"

section \<open>The keys of a connection\<close>

text \<open>Both ends cut the same keys; each reads with what the other writes with.\<close>

definition client_establishKeys :: "suite_lib \<Rightarrow> byte list conn \<Rightarrow> cipherSuite \<Rightarrow> byte list \<Rightarrow> byte list \<Rightarrow> byte list \<Rightarrow> byte list conn option" where
  "client_establishKeys L c s masterSecret helloRandom serverRandom =
     Option.bind (keysFromMasterSecret (lib_hash L) (c_vers c) (cs_flags s) masterSecret helloRandom serverRandom (cs_macLen s) (cs_keyLen s) (cs_ivLen s))
       (\<lambda>k. case (cs_cipher s, cs_mac s, cs_aead s) of
          (Some f, Some m, _) \<Rightarrow>
            Option.bind (suite_cipher L f (clientKey k) (clientIV k) False) (\<lambda>clientCipher.
            Option.bind (suite_cipher L f (serverKey k) (serverIV k) True) (\<lambda>serverCipher.
              Some (c\<lparr>c_in := prepareCipherSpec (c_in c) (c_vers c) (Some serverCipher) (Some (suite_mac L m (c_vers c) (serverMAC k))),
                      c_out := prepareCipherSpec (c_out c) (c_vers c) (Some clientCipher) (Some (suite_mac L m (c_vers c) (clientMAC k)))\<rparr>)))
        | (None, _, Some a) \<Rightarrow>
            Option.bind (suite_aead L a (clientKey k) (clientIV k)) (\<lambda>clientCipher.
            Option.bind (suite_aead L a (serverKey k) (serverIV k)) (\<lambda>serverCipher.
              Some (c\<lparr>c_in := prepareCipherSpec (c_in c) (c_vers c) (Some serverCipher) None,
                      c_out := prepareCipherSpec (c_out c) (c_vers c) (Some clientCipher) None\<rparr>)))
        | _ \<Rightarrow> None)"

definition server_establishKeys :: "suite_lib \<Rightarrow> byte list conn \<Rightarrow> cipherSuite \<Rightarrow> byte list \<Rightarrow> byte list \<Rightarrow> byte list \<Rightarrow> byte list conn option" where
  "server_establishKeys L c s masterSecret clientRandom helloRandom =
     Option.bind (keysFromMasterSecret (lib_hash L) (c_vers c) (cs_flags s) masterSecret clientRandom helloRandom (cs_macLen s) (cs_keyLen s) (cs_ivLen s))
       (\<lambda>k. case (cs_aead s, cs_cipher s, cs_mac s) of
          (None, Some f, Some m) \<Rightarrow>
            Option.bind (suite_cipher L f (clientKey k) (clientIV k) True) (\<lambda>clientCipher.
            Option.bind (suite_cipher L f (serverKey k) (serverIV k) False) (\<lambda>serverCipher.
              Some (c\<lparr>c_in := prepareCipherSpec (c_in c) (c_vers c) (Some clientCipher) (Some (suite_mac L m (c_vers c) (clientMAC k))),
                      c_out := prepareCipherSpec (c_out c) (c_vers c) (Some serverCipher) (Some (suite_mac L m (c_vers c) (serverMAC k)))\<rparr>)))
        | (Some a, _, _) \<Rightarrow>
            Option.bind (suite_aead L a (clientKey k) (clientIV k)) (\<lambda>clientCipher.
            Option.bind (suite_aead L a (serverKey k) (serverIV k)) (\<lambda>serverCipher.
              Some (c\<lparr>c_in := prepareCipherSpec (c_in c) (c_vers c) (Some clientCipher) None,
                      c_out := prepareCipherSpec (c_out c) (c_vers c) (Some serverCipher) None\<rparr>)))
        | _ \<Rightarrow> None)"

section \<open>CBC\<close>

definition block_ok :: "nat \<Rightarrow> block \<Rightarrow> bool" where
  "block_ok n b = (bk_size b = n \<and> 0 < n \<and> n \<le> 256 \<and> (\<forall>x. length x = n \<longrightarrow> length (bk_encrypt b x) = n \<and> bk_decrypt b (bk_encrypt b x) = x))"

lemma xor_blocks: "length x = length iv \<Longrightarrow> map2 (XOR) (map2 (XOR) x iv) iv = (x :: byte list)"
  by (induction x iv rule: list_induct2) (simp_all add: xor.assoc)

lemma cbc_short: "length x < n \<Longrightarrow> cbc_enc n E iv x = ([], iv) \<and> cbc_dec n D iv x = ([], iv)"
  by (subst cbc_enc.simps, subst cbc_dec.simps) simp

lemma cbc_enc_block:
  "0 < n \<Longrightarrow> length b = n \<Longrightarrow> cbc_enc n E iv (b @ x) = (let c = E (map2 (XOR) b iv) in case cbc_enc n E c x of (out, iv) \<Rightarrow> (c @ out, iv))"
  by (subst cbc_enc.simps) simp

lemma cbc_dec_block:
  "0 < n \<Longrightarrow> length c = n \<Longrightarrow> cbc_dec n D iv (c @ x) = (case cbc_dec n D c x of (out, iv') \<Rightarrow> (map2 (XOR) (D c) iv @ out, iv'))"
  by (subst cbc_dec.simps) simp

lemma blocks_induct [consumes 2, case_names Nil block]:
  assumes "length x mod n = 0" "0 < n" "P []" "\<And>b y. length b = n \<Longrightarrow> length y mod n = 0 \<Longrightarrow> P y \<Longrightarrow> P (b @ y)"
  shows "P x"
  using assms(1)
proof (induction x rule: length_induct)
  case (1 x)
  show ?case
  proof (cases "x = []")
    case False
    then have "n \<le> length x" using 1(2) assms(2) by (auto simp: mod_eq_0_iff_dvd dest!: dvd_imp_le)
    moreover from this have "length (drop n x) mod n = 0" using 1(2) by (simp add: le_mod_geq [symmetric])
    ultimately show ?thesis using 1(1) assms(2) assms(4) [of "take n x" "drop n x"] False by simp
  qed (use assms(3) in simp)
qed

lemma cbc_inverse:
  assumes "block_ok n b" "length x mod n = 0" "length iv = n"
  shows "\<exists>out iv'. cbc_enc n (bk_encrypt b) iv x = (out, iv') \<and> cbc_dec n (bk_decrypt b) iv out = (x, iv') \<and> length out = length x \<and> length iv' = n"
proof -
  have n: "0 < n" using assms(1) by (simp add: block_ok_def)
  have nil: "cbc_enc n E v [] = ([], v)" "cbc_dec n D v [] = ([], v)" for E D v using cbc_short [of "[]" n] n by auto
  show ?thesis
    using assms(2) n assms(3)
  proof (induction x arbitrary: iv rule: blocks_induct)
    case Nil
    then show ?case by (simp add: nil)
  next
    case (block p y)
    let ?c = "bk_encrypt b (map2 (XOR) p iv)"
    have c: "length ?c = n" "bk_decrypt b ?c = map2 (XOR) p iv" using assms(1) block(1,4) by (simp_all add: block_ok_def)
    obtain out iv' where o: "cbc_enc n (bk_encrypt b) ?c y = (out, iv')" "cbc_dec n (bk_decrypt b) ?c out = (y, iv')" "length out = length y" "length iv' = n"
      using block(3) [OF c(1)] by blast
    have "cbc_enc n (bk_encrypt b) iv (p @ y) = (?c @ out, iv')" using cbc_enc_block [OF n block(1)] o(1) by (simp add: Let_def)
    moreover have "cbc_dec n (bk_decrypt b) iv (?c @ out) = (p @ y, iv')" using cbc_dec_block [OF n c(1)] o(2) xor_blocks [of p iv] block(1,4) by (simp add: c(2))
    ultimately show ?case using o(3,4) block(1) c(1) by auto
  qed
qed

lemma cbc_dec_append:
  assumes "0 < n" "length x mod n = 0"
  shows "cbc_dec n D iv (x @ y) = (case cbc_dec n D iv x of (x1, iv) \<Rightarrow> case cbc_dec n D iv y of (x2, iv) \<Rightarrow> (x1 @ x2, iv))"
  using assms(2,1)
proof (induction x arbitrary: iv rule: blocks_induct)
  case Nil
  then show ?case using cbc_short [of "[]" n] assms(1) by simp
next
  case (block b z)
  then show ?case using cbc_dec_block [OF assms(1) block(1)] by (simp split: prod.splits)
qed

text \<open>The states at the two ends: equal, and a chaining block for CBC.\<close>

definition same_state :: "nat option \<Rightarrow> byte list \<Rightarrow> byte list \<Rightarrow> bool" where
  "same_state n s t = (s = t \<and> (\<forall>k. n = Some k \<longrightarrow> length s = k))"

lemma NewCBC_dual:
  assumes "block_ok n b" "length iv = n"
  shows "\<exists>w r. NewCBC (Some b) iv False = Some w \<and> NewCBC (Some b) iv True = Some r \<and> dual_cipher (same_state (Some n)) w r \<and> is_cbc r"
proof -
  have n: "bk_size b = n" "0 < n" "n \<le> 256" using assms(1) by (simp_all add: block_ok_def)
  have "inverse_step (same_state (Some n)) (cbc_enc n (bk_encrypt b)) (cbc_dec n (bk_decrypt b)) s t x"
    if "same_state (Some n) s t" "length x mod n = 0" for s t x
    using cbc_inverse [OF assms(1) that(2), of s] that(1) by (auto simp: same_state_def inverse_step_def)
  then show ?thesis
    using n assms(2) cbc_dec_append [OF n(2)] by (auto simp: NewCBC_def same_state_def)
qed

section \<open>The parts of a suite\<close>

lemma sm4_block_ok: "length key = 16 \<Longrightarrow> \<exists>b. sm4_block key = Some b \<and> block_ok 16 b"
proof -
  assume "length key = 16"
  then obtain c where c: "NewCipher key = Inr c" using NewCipher_succeeds by blast
  have "length (sm4_crypt (Encrypt c) x) = 16 \<and> sm4_crypt (Decrypt c) (sm4_crypt (Encrypt c) x) = x" if x: "length x = 16" for x
  proof -
    have "\<exists>out. Encrypt c (replicate 16 0) x = Inr out \<and> length out = 16"
      using x NewCipher_subkeys [OF c] by (simp add: Encrypt_def encryptBlock_def crypt_block_def)
    then obtain out where o: "Encrypt c (replicate 16 0) x = Inr out" "length out = 16" by blast
    have "Decrypt c (replicate 16 0) out = Inr x"
      using crypt_block_inverse [of "[0..<32]" "subkeys c" "replicate 16 0" x out "replicate 16 0"] o(1) x
      by (simp add: Encrypt_def Decrypt_def encryptBlock_def decryptBlock_def)
    then show ?thesis using o by (simp add: sm4_crypt_def)
  qed
  then show ?thesis using c by (auto simp: sm4_block_def block_ok_def)
qed

definition aead_ok :: "aead_fun \<Rightarrow> bool" where
  "aead_ok a = (ae_overhead a = 16 \<and> (\<forall>nonce x ad. ae_open a nonce (ae_seal a nonce x ad) ad = Some x \<and> length (ae_seal a nonce x ad) = length x + 16))"

text \<open>What the documentation of the other libraries says of their ciphers and hash functions.\<close>

definition suite_lib_ok :: "suite_lib \<Rightarrow> bool" where
  "suite_lib_ok L =
     (hash_lib_ok (lib_hash L)
      \<and> (\<forall>x. length (sha1 (lib_hash L) x) = 20)
      \<and> (\<forall>k x. length (hmac (lib_hash L) (sha1 (lib_hash L)) k x) = 20 \<and> length (hmac (lib_hash L) (sha256 (lib_hash L)) k x) = 32
           \<and> length (hmac (lib_hash L) sm3_sum k x) = 32)
      \<and> (\<forall>key. length key \<in> {16, 32} \<longrightarrow> (\<exists>b. lib_aes L key = Some b \<and> block_ok 16 b))
      \<and> (\<forall>key. length key = 24 \<longrightarrow> (\<exists>b. lib_3des L key = Some b \<and> block_ok 8 b))
      \<and> (\<forall>key s x. inverse_step (=) (fst (lib_rc4 L key)) (fst (lib_rc4 L key)) s s x)
      \<and> (\<forall>b. block_ok 16 b \<longrightarrow> (\<exists>a. lib_gcm L b = Some a \<and> aead_ok a))
      \<and> (\<forall>key. length key = 32 \<longrightarrow> (\<exists>a. lib_chacha L key = Some a \<and> aead_ok a)))"

definition cipher_lens :: "cipher_name \<Rightarrow> nat \<Rightarrow> nat \<Rightarrow> bool" where
  "cipher_lens f k v = (case f of cipherRC4 \<Rightarrow> True | cipher3DES \<Rightarrow> k = 24 \<and> v = 8 | cipherAES \<Rightarrow> k \<in> {16, 32} \<and> v = 16 | cipherSM4 \<Rightarrow> k = 16 \<and> v = 16)"

definition aead_lens :: "aead_name \<Rightarrow> nat \<Rightarrow> bool" where
  "aead_lens f k = (case f of aeadAESGCM \<Rightarrow> k \<in> {16, 32} | aeadSM4GCM \<Rightarrow> k = 16 | aeadChaCha20Poly1305 \<Rightarrow> k = 32)"

definition suite_ok :: "cipherSuite \<Rightarrow> bool" where
  "suite_ok s = (2 * cs_macLen s + 2 * cs_keyLen s + 2 * cs_ivLen s \<le> 176 \<and>
     (case (cs_cipher s, cs_mac s, cs_aead s) of
        (Some f, Some m, None) \<Rightarrow> cipher_lens f (cs_keyLen s) (cs_ivLen s)
      | (None, None, Some a) \<Rightarrow> aead_lens a (cs_keyLen s)
      | _ \<Rightarrow> False))"

lemma cipherSuites_ok: "list_all suite_ok cipherSuites"
  by (simp add: cipherSuites_def suite_def suite_ok_def cipher_lens_def aead_lens_def)

definition state_len :: "cipher_name \<Rightarrow> nat option" where
  "state_len f = (case f of cipherRC4 \<Rightarrow> None | cipher3DES \<Rightarrow> Some 8 | cipherAES \<Rightarrow> Some 16 | cipherSM4 \<Rightarrow> Some 16)"

lemma suite_cipher_dual:
  assumes "suite_lib_ok L" "cipher_lens f (length key) (length iv)"
  shows "\<exists>w r. suite_cipher L f key iv False = Some w \<and> suite_cipher L f key iv True = Some r \<and> dual_cipher (same_state (state_len f)) w r"
proof (cases f)
  case cipherRC4
  have "inverse_step (=) (fst (lib_rc4 L key)) (fst (lib_rc4 L key)) s s x" for s x using assms(1) by (simp add: suite_lib_ok_def)
  moreover have "same_state None = (=)" by (auto simp: fun_eq_iff same_state_def)
  ultimately show ?thesis using cipherRC4 by (auto simp: suite_cipher_def state_len_def split: prod.splits)
next
  case cipher3DES
  then obtain b where "lib_3des L key = Some b" "block_ok 8 b" using assms by (auto simp: suite_lib_ok_def cipher_lens_def)
  then show ?thesis using NewCBC_dual [of 8 b iv] assms(2) cipher3DES by (auto simp: suite_cipher_def state_len_def cipher_lens_def)
next
  case cipherAES
  then obtain b where "lib_aes L key = Some b" "block_ok 16 b" using assms by (auto simp: suite_lib_ok_def cipher_lens_def)
  then show ?thesis using NewCBC_dual [of 16 b iv] assms(2) cipherAES by (auto simp: suite_cipher_def state_len_def cipher_lens_def)
next
  case cipherSM4
  then obtain b where "sm4_block key = Some b" "block_ok 16 b" using assms sm4_block_ok by (auto simp: cipher_lens_def)
  then show ?thesis using NewCBC_dual [of 16 b iv] assms(2) cipherSM4 by (auto simp: suite_cipher_def state_len_def cipher_lens_def)
qed

lemma nonce_dual:
  assumes "aead_ok a"
  shows "dual_cipher R (fixedNonceAEAD a n) (fixedNonceAEAD a n)" "dual_cipher R (xorNonceAEAD a n) (xorNonceAEAD a n)"
    "\<not> is_cbc (fixedNonceAEAD a n)" "\<not> is_cbc (xorNonceAEAD a n)"
  using assms by (simp_all add: fixedNonceAEAD_def xorNonceAEAD_def aead_ok_def Let_def)

lemma suite_aead_dual:
  assumes "suite_lib_ok L" "aead_lens f (length key)"
  shows "\<exists>c. suite_aead L f key n = Some c \<and> dual_cipher R c c \<and> \<not> is_cbc c"
proof (cases f)
  case aeadAESGCM
  then obtain b where b: "lib_aes L key = Some b" "block_ok 16 b" using assms by (auto simp: suite_lib_ok_def aead_lens_def)
  moreover from this obtain a where "lib_gcm L b = Some a" "aead_ok a" using assms(1) by (auto simp: suite_lib_ok_def)
  ultimately show ?thesis using aeadAESGCM by (simp add: suite_aead_def nonce_dual)
next
  case aeadSM4GCM
  then obtain b where b: "sm4_block key = Some b" "block_ok 16 b" using assms sm4_block_ok by (auto simp: aead_lens_def)
  moreover from this obtain a where "lib_gcm L b = Some a" "aead_ok a" using assms(1) by (auto simp: suite_lib_ok_def)
  ultimately show ?thesis using aeadSM4GCM by (simp add: suite_aead_def nonce_dual)
next
  case aeadChaCha20Poly1305
  then obtain a where "lib_chacha L key = Some a" "aead_ok a" using assms by (auto simp: suite_lib_ok_def aead_lens_def)
  then show ?thesis using aeadChaCha20Poly1305 by (simp add: suite_aead_def nonce_dual)
qed

lemma suite_mac_ok: "suite_lib_ok L \<Longrightarrow> mac_ok (suite_mac L f v key)"
  by (cases f) (simp_all add: suite_mac_def mac_ok_def tls10MAC_def ssl30MAC_def suite_lib_ok_def Let_def)

section \<open>The channel\<close>

text \<open>A direction after the change of cipher: no error of the switch, and matching ends.\<close>

definition switched :: "(byte list \<Rightarrow> byte list \<Rightarrow> bool) \<Rightarrow> byte list halfConn \<Rightarrow> byte list halfConn \<Rightarrow> bool" where
  "switched R w r = (snd (changeCipherSpec w) = None \<and> snd (changeCipherSpec r) = None \<and> matched R (fst (changeCipherSpec w)) (fst (changeCipherSpec r)))"

lemma switched_prepared:
  assumes "length (hc_seq h) = 8" "length (hc_seq h') = 8" "dual_cipher R w r" "is_cbc r \<longrightarrow> m \<noteq> None" "\<forall>x. m = Some x \<longrightarrow> mac_ok x"
  shows "switched R (prepareCipherSpec h v (Some w) m) (prepareCipherSpec h' v (Some r) m)"
  using assms by (simp add: switched_def changeCipherSpec_def prepareCipherSpec_def matched_def)

lemma suite_keys:
  assumes "suite_lib_ok L" "version \<in> {VersionSSL30, VersionTLS10, VersionTLS11, VersionTLS12}" "2 * a + 2 * b + 2 * c \<le> 176"
  shows "\<exists>k. keysFromMasterSecret (lib_hash L) version flags ms cr sr a b c = Some k
    \<and> length (clientKey k) = b \<and> length (serverKey k) = b \<and> length (clientIV k) = c \<and> length (serverIV k) = c"
proof -
  have h: "hash_lib_ok (lib_hash L)" using assms(1) by (simp add: suite_lib_ok_def)
  have p: "prf_defined version sm2 (2 * a + 2 * b + 2 * c)" for sm2 using assms(2,3) by (simp add: prf_defined_def)
  show ?thesis
    using cut_keys_parts(2) [OF length_prf_bytes [OF h p]] p by (simp add: keysFromMasterSecret_eq [OF h] Let_def)
qed

text \<open>
  C11: The two ends of a handshake agree. With the same suite, version, master secret and random numbers, \<open>establishKeys\<close> succeeds at the client
  and at the server for every suite of the table and every version, and after the change of cipher the
  writing half of each end matches the reading half of the other: the state from which records arrive as written.
\<close>

theorem tls_channel:
  assumes "suite_lib_ok L" "mutualCipherSuite have_ids want = Some s"
    and "c_vers c \<in> {VersionSSL30, VersionTLS10, VersionTLS11, VersionTLS12}" "c_vers d = c_vers c"
    and "list_all (\<lambda>h. length (hc_seq h) = 8) [c_in c, c_out c, c_in d, c_out d]"
  shows "\<exists>c' d' R. client_establishKeys L c s ms cr sr = Some c' \<and> server_establishKeys L d s ms cr sr = Some d'
    \<and> switched R (c_out c') (c_in d') \<and> switched R (c_out d') (c_in c')"
proof -
  have "s \<in> set cipherSuites" using assms(2) by (auto simp: mutualCipherSuite_def find_Some_iff split: if_splits)
  then have ok: "suite_ok s" using cipherSuites_ok by (simp add: list_all_iff)
  have q: "length (hc_seq (c_in c)) = 8" "length (hc_seq (c_out c)) = 8" "length (hc_seq (c_in d)) = 8" "length (hc_seq (c_out d)) = 8"
    using assms(5) by simp_all
  obtain k where k: "keysFromMasterSecret (lib_hash L) (c_vers c) (cs_flags s) ms cr sr (cs_macLen s) (cs_keyLen s) (cs_ivLen s) = Some k"
    "length (clientKey k) = cs_keyLen s" "length (serverKey k) = cs_keyLen s" "length (clientIV k) = cs_ivLen s" "length (serverIV k) = cs_ivLen s"
    using suite_keys [OF assms(1,3)] ok unfolding suite_ok_def by blast
  consider f m where "cs_cipher s = Some f" "cs_mac s = Some m" "cs_aead s = None" "cipher_lens f (cs_keyLen s) (cs_ivLen s)"
    | a where "cs_cipher s = None" "cs_mac s = None" "cs_aead s = Some a" "aead_lens a (cs_keyLen s)"
    using ok by (auto simp: suite_ok_def split: option.splits)
  then show ?thesis
  proof cases
    case 1
    obtain w r where c: "suite_cipher L f (clientKey k) (clientIV k) False = Some w" "suite_cipher L f (clientKey k) (clientIV k) True = Some r"
      "dual_cipher (same_state (state_len f)) w r" using suite_cipher_dual [OF assms(1)] 1(4) k(2,4) by metis
    obtain w' r' where d: "suite_cipher L f (serverKey k) (serverIV k) False = Some w'" "suite_cipher L f (serverKey k) (serverIV k) True = Some r'"
      "dual_cipher (same_state (state_len f)) w' r'" using suite_cipher_dual [OF assms(1)] 1(4) k(3,5) by metis
    show ?thesis
      using switched_prepared [OF q(2,3) c(3), of "Some (suite_mac L m (c_vers c) (clientMAC k))" "c_vers c"]
        switched_prepared [OF q(4,1) d(3), of "Some (suite_mac L m (c_vers c) (serverMAC k))" "c_vers c"] suite_mac_ok [OF assms(1)]
      by (auto simp: client_establishKeys_def server_establishKeys_def k(1) 1(1-3) c(1,2) d(1,2) assms(4))
  next
    case 2
    obtain x where c: "suite_aead L a (clientKey k) (clientIV k) = Some x" "dual_cipher (same_state None) x x" "\<not> is_cbc x"
      using suite_aead_dual [OF assms(1)] 2(4) k(2) by metis
    obtain y where d: "suite_aead L a (serverKey k) (serverIV k) = Some y" "dual_cipher (same_state None) y y" "\<not> is_cbc y"
      using suite_aead_dual [OF assms(1)] 2(4) k(3) by metis
    show ?thesis
      using switched_prepared [OF q(2,3) c(2), of None "c_vers c"] switched_prepared [OF q(4,1) d(2), of None "c_vers c"] c(3) d(3)
      by (auto simp: client_establishKeys_def server_establishKeys_def k(1) 2(1-3) c(1) d(1) assms(4))
  qed
qed

text \<open>A library of the lengths of the real one, and a connection before its keys.\<close>

definition example_hashes :: hash_lib where
  "example_hashes = \<lparr>md5 = (\<lambda>x. replicate 16 (foldl (+) 1 x)), sha1 = (\<lambda>x. replicate 20 (foldl (+) 2 x)),
     sha256 = (\<lambda>x. replicate 32 (foldl (+) 3 x)), sha384 = (\<lambda>x. replicate 48 (foldl (+) 4 x)),
     hmac = (\<lambda>h k x. replicate (length (h [])) (foldl (+) 5 (k @ x)))\<rparr>"

definition example_aead :: aead_fun where
  "example_aead = \<lparr>ae_overhead = 16, ae_seal = (\<lambda>nonce x ad. x @ replicate 16 (foldl (+) 0 (nonce @ x @ ad))),
     ae_open = (\<lambda>nonce y ad. let x = take (length y - 16) y in
       if drop (length y - 16) y = replicate 16 (foldl (+) 0 (nonce @ x @ ad)) then Some x else None)\<rparr>"

definition example_suite_lib :: suite_lib where
  "example_suite_lib = \<lparr>lib_hash = example_hashes,
     lib_aes = (\<lambda>key. Some \<lparr>bk_size = 16, bk_encrypt = map (\<lambda>b. NOT b), bk_decrypt = map (\<lambda>b. NOT b)\<rparr>),
     lib_3des = (\<lambda>key. Some \<lparr>bk_size = 8, bk_encrypt = rev, bk_decrypt = rev\<rparr>),
     lib_rc4 = (\<lambda>key. (\<lambda>s x. (map (\<lambda>b. NOT b) x, s @ replicate (length x) 0), key)),
     lib_gcm = (\<lambda>b. Some example_aead), lib_chacha = (\<lambda>key. Some example_aead)\<rparr>"

lemma example_suite_lib_ok: "suite_lib_ok example_suite_lib"
proof -
  have s: "length (sm3_sum x) = 32" for x by (simp add: sm3_sum_def Sum_data_eq)
  have h: "hash_lib_ok example_hashes" by (simp add: hash_lib_ok_def example_hashes_def constant_size_def s)
  have a: "aead_ok example_aead" by (simp add: aead_ok_def example_aead_def Let_def)
  show ?thesis
    using h a by (simp add: suite_lib_ok_def example_suite_lib_def block_ok_def inverse_step_def comp_def) (simp add: example_hashes_def s)
qed

definition example_end :: "byte list conn" where
  "example_end = \<lparr>c_isClient = True, c_handshakeErr = None, c_handshakeComplete = False, c_vers = VersionTLS12, c_haveVers = True,
     c_renegotiates = False, c_DynamicRecordSizingDisabled = False, c_rand = [], c_closeNotifyErr = None, c_closeNotifySent = False,
     c_closed = False, c_in = \<lparr>hc_err = None, hc_version = 0, hc_cipher = None, hc_mac = None, hc_seq = replicate 8 3, hc_nextCipher = None, hc_nextMac = None\<rparr>,
     c_out = \<lparr>hc_err = None, hc_version = 0, hc_cipher = None, hc_mac = None, hc_seq = replicate 8 3, hc_nextCipher = None, hc_nextMac = None\<rparr>,
     c_rawInput = [], c_input = None, c_hand = [], c_buffering = False, c_sendBuf = [], c_wire = [], c_bytesSent = 0, c_packetsSent = 0\<rparr>"

theorem tls_channel_witness:
  "\<exists>s c' d' R. mutualCipherSuite [TLS_RSA_WITH_AES_128_CBC_SHA, TLS_SM2_WITH_SM4_SM3] TLS_SM2_WITH_SM4_SM3 = Some s
    \<and> client_establishKeys example_suite_lib example_end s [1, 2] [3] [4] = Some c'
    \<and> server_establishKeys example_suite_lib (example_end\<lparr>c_isClient := False\<rparr>) s [1, 2] [3] [4] = Some d'
    \<and> switched R (c_out c') (c_in d') \<and> switched R (c_out d') (c_in c')"
proof -
  obtain s where s: "mutualCipherSuite [TLS_RSA_WITH_AES_128_CBC_SHA, TLS_SM2_WITH_SM4_SM3] TLS_SM2_WITH_SM4_SM3 = Some s"
    by (simp add: mutualCipherSuite_def cipherSuites_def suite_def suite_ids)
  have "c_vers example_end \<in> {VersionSSL30, VersionTLS10, VersionTLS11, VersionTLS12}" "c_vers (example_end\<lparr>c_isClient := False\<rparr>) = c_vers example_end"
    "list_all (\<lambda>h. length (hc_seq h) = 8) [c_in example_end, c_out example_end, c_in (example_end\<lparr>c_isClient := False\<rparr>), c_out (example_end\<lparr>c_isClient := False\<rparr>)]"
    by (simp_all add: example_end_def)
  from tls_channel [OF example_suite_lib_ok s this] s show ?thesis by blast
qed

end
