(* ===== verification/Tls_Codec.thy ===== *)
theory Tls_Codec
  imports Tls_Ticket Tls_Prf
begin

unbundle bit_operations_syntax

text \<open>
  What the encodings of handshake messages share (handshake_messages.go and the constants of common.go): lengths of 24 bits, the header of
  a message, lists of items with a length in front, the comparison functions, and the interface of a message type.
\<close>

section \<open>Types of messages\<close>

type_synonym u32 = "32 word"

definition maxHandshake :: nat where "maxHandshake = 65536"

definition typeHelloRequest :: byte where "typeHelloRequest = 0"
definition typeClientHello :: byte where "typeClientHello = 1"
definition typeServerHello :: byte where "typeServerHello = 2"
definition typeNewSessionTicket :: byte where "typeNewSessionTicket = 4"
definition typeCertificate :: byte where "typeCertificate = 11"
definition typeServerKeyExchange :: byte where "typeServerKeyExchange = 12"
definition typeCertificateRequest :: byte where "typeCertificateRequest = 13"
definition typeServerHelloDone :: byte where "typeServerHelloDone = 14"
definition typeCertificateVerify :: byte where "typeCertificateVerify = 15"
definition typeClientKeyExchange :: byte where "typeClientKeyExchange = 16"
definition typeFinished :: byte where "typeFinished = 20"
definition typeCertificateStatus :: byte where "typeCertificateStatus = 22"
definition typeNextProtocol :: byte where "typeNextProtocol = 67"
definition statusTypeOCSP :: byte where "statusTypeOCSP = 1"

lemmas message_types = typeHelloRequest_def typeClientHello_def typeServerHello_def typeNewSessionTicket_def typeCertificate_def
  typeServerKeyExchange_def typeCertificateRequest_def typeServerHelloDone_def typeCertificateVerify_def typeClientKeyExchange_def
  typeFinished_def typeCertificateStatus_def typeNextProtocol_def

section \<open>Writing\<close>

definition u24_bytes :: "nat \<Rightarrow> byte list" where
  "u24_bytes n = [of_nat (n div 2 ^ 16), of_nat (n div 2 ^ 8), of_nat n]"

definition handshake_header :: "byte \<Rightarrow> nat \<Rightarrow> byte list" where
  "handshake_header typ n = typ # u24_bytes n"

text \<open>A buffer of \<open>n\<close> zero bytes after the copies into it from its start.\<close>

definition filled :: "nat \<Rightarrow> byte list \<Rightarrow> byte list" where
  "filled n x = take n (x @ replicate (n - length x) 0)"

definition vec8 :: "byte list \<Rightarrow> byte list" where "vec8 x = of_nat (length x) # x"
definition vec16 :: "byte list \<Rightarrow> byte list" where "vec16 x = u16_bytes (length x) @ x"
definition vec24 :: "byte list \<Rightarrow> byte list" where "vec24 x = u24_bytes (length x) @ x"

definition sah_bytes :: "signatureAndHash \<Rightarrow> byte list" where
  "sah_bytes s = [sah_hash s, sah_signature s]"

definition u16_word_bytes :: "u16 \<Rightarrow> byte list" where
  "u16_word_bytes w = u16_bytes (unat w)"

section \<open>Reading\<close>

definition u24_val :: "byte list \<Rightarrow> nat" where
  "u24_val b = 2 ^ 16 * unat (b ! 0) + 2 ^ 8 * unat (b ! 1) + unat (b ! 2)"

fun read_u16s :: "nat \<Rightarrow> byte list \<Rightarrow> u16 list" where
  "read_u16s 0 d = []"
| "read_u16s (Suc n) d = of_nat (u16_val d) # read_u16s n (drop 2 d)"

fun read_sahs :: "nat \<Rightarrow> byte list \<Rightarrow> signatureAndHash list" where
  "read_sahs 0 d = []"
| "read_sahs (Suc n) d = \<lparr>sah_hash = d ! 0, sah_signature = d ! 1\<rparr> # read_sahs n (drop 2 d)"

text \<open>The loops that append items: the items so far, and whether all of the bytes were in order.\<close>

function read_names :: "byte list \<Rightarrow> byte list list \<times> bool" where
  "read_names d =
     (if d = [] then ([], True)
      else let n = unat (d ! 0); d = drop 1 d
           in if n = 0 \<or> length d < n then ([], False)
              else case read_names (drop n d) of (xs, ok) \<Rightarrow> (take n d # xs, ok))"
  by pat_completeness auto
termination by (relation "measure length") auto

function read_items :: "bool \<Rightarrow> byte list \<Rightarrow> byte list list \<times> bool" where
  "read_items empty_allowed d =
     (if d = [] then ([], True)
      else if length d < 2 then ([], False)
      else let n = u16_val d; d = drop 2 d
           in if \<not> empty_allowed \<and> n = 0 \<or> length d < n then ([], False)
              else case read_items empty_allowed (drop n d) of (xs, ok) \<Rightarrow> (take n d # xs, ok))"
  by pat_completeness auto
termination by (relation "measure (\<lambda>(_, d). length d)") auto

declare read_names.simps [simp del] read_items.simps [simp del]

section \<open>Comparing\<close>

text \<open>\<open>bytes.Equal\<close> does not tell a nil slice from an empty one.\<close>

definition eq_raw :: "byte list option \<Rightarrow> byte list option \<Rightarrow> bool" where
  "eq_raw a b = (case_option [] (\<lambda>x. x) a = case_option [] (\<lambda>x. x) b)"

definition eq_lists :: "'a list \<Rightarrow> 'a list \<Rightarrow> bool" where
  "eq_lists x y = (if length x \<noteq> length y then False else list_all (\<lambda>i. y ! i = x ! i) [0..<length x])"

lemma eq_lists_iff [simp]: "eq_lists x y \<longleftrightarrow> x = y"
proof -
  have "list_all (\<lambda>i. y ! i = x ! i) [0..<length x] \<longleftrightarrow> (\<forall>i<length x. y ! i = x ! i)" by (auto simp only: list_all_iff set_upt atLeastLessThan_iff)
  moreover have "(\<forall>i<length x. y ! i = x ! i) \<longleftrightarrow> (\<forall>i<length x. x ! i = y ! i)" by metis
  ultimately show ?thesis unfolding eq_lists_def list_eq_iff_nth_eq by (simp only: if_False if_True split: if_split) blast
qed

section \<open>The encodings invert\<close>

lemma length_u24_bytes [simp]: "length (u24_bytes n) = 3"
  by (simp add: u24_bytes_def)

lemma length_handshake_header [simp]: "length (handshake_header typ n) = 4"
  by (simp add: handshake_header_def)

lemma u24_val_bytes: "n < 2 ^ 24 \<Longrightarrow> u24_val (u24_bytes n @ x) = n"
proof -
  assume n: "n < 2 ^ 24"
  have d: "n div 2 ^ 16 = n div 2 ^ 8 div 2 ^ 8" by (simp add: div_mult2_eq [symmetric])
  have "n div 2 ^ 16 < 256" using n by (simp add: div_less_iff_less_mult)
  then have "u24_val (u24_bytes n @ x) = 2 ^ 16 * (n div 2 ^ 8 div 2 ^ 8) + 2 ^ 8 * (n div 2 ^ 8 mod 2 ^ 8) + n mod 2 ^ 8"
    unfolding u24_val_def u24_bytes_def d by (simp add: unat_of_nat)
  moreover have "2 ^ 16 * c + 2 ^ 8 * e + d = n" if "2 ^ 8 * a + d = n" "2 ^ 8 * c + e = a" for a c d e using that by simp
  ultimately show ?thesis using mult_div_mod_eq by (metis (no_types))
qed

lemma u24_val_less: "u24_val b < 2 ^ 24"
  using unat_byte [of "b ! 0"] unat_byte [of "b ! 1"] unat_byte [of "b ! 2"] by (simp add: u24_val_def)

lemma u16_val_less: "u16_val b < 2 ^ 16"
  using unat_byte [of "b ! 0"] unat_byte [of "b ! 1"] by (simp add: u16_val_def)

lemma header_parts:
  "handshake_header typ n @ x = typ # u24_bytes n @ x" "drop 4 (handshake_header typ n @ x) = x" "drop 1 (handshake_header typ n @ x) = u24_bytes n @ x"
  by (simp_all add: handshake_header_def)

lemma filled_exact [simp]: "length x = n \<Longrightarrow> filled n x = x"
  by (simp add: filled_def)

lemma length_filled [simp]: "length (filled n x) = n"
  by (simp add: filled_def)

lemma length_vec [simp]:
  "length (vec8 x) = 1 + length x" "length (vec16 x) = 2 + length x" "length (vec24 x) = 3 + length x"
  by (simp_all add: vec8_def vec16_def vec24_def)

lemma length_pairs [simp]: "length (sah_bytes s) = 2" "length (u16_word_bytes w) = 2"
  by (simp_all add: sah_bytes_def u16_word_bytes_def)

lemma length_concat_const: "\<forall>a\<in>set xs. length (f a) = k \<Longrightarrow> length (concat (map f xs)) = k * length xs"
  by (induction xs) simp_all

lemma length_pair_lists [simp]:
  "length (concat (map sah_bytes ss)) = 2 * length ss" "length (concat (map u16_word_bytes ws)) = 2 * length ws"
  by (simp_all add: length_concat_const)

lemma length_concat_vec:
  "length (concat (map vec8 xs)) = sum_list (map (\<lambda>x. 1 + length x) xs)"
  "length (concat (map vec16 xs)) = sum_list (map (\<lambda>x. 2 + length x) xs)"
  "length (concat (map vec24 xs)) = 3 * length xs + sum_list (map length xs)"
  by (induction xs) simp_all

lemma u16_word_val [simp]: "of_nat (u16_val (u16_word_bytes w @ x)) = w"
  by (simp add: u16_word_bytes_def u16_unat)

lemma read_u16s_bytes: "read_u16s (length ws) (concat (map u16_word_bytes ws) @ x) = ws"
  by (induction ws) simp_all

lemma read_sahs_bytes: "read_sahs (length ss) (concat (map sah_bytes ss) @ x) = ss"
  by (induction ss) (simp_all add: sah_bytes_def)

lemma length_reads [simp]: "length (read_u16s n d) = n" "length (read_sahs n d) = n"
  by (induction n arbitrary: d) simp_all

lemma unat_length_byte: "n < 256 \<Longrightarrow> unat (of_nat n :: byte) = n"
  by (simp add: unat_of_nat)

lemma read_names_vec:
  "list_all (\<lambda>x. x \<noteq> [] \<and> length x < 256) xs \<Longrightarrow> read_names (concat (map vec8 xs)) = (xs, True)"
proof (induction xs)
  case (Cons x xs)
  then show ?case by (subst read_names.simps) (simp add: vec8_def [of x] Let_def unat_length_byte)
qed (simp add: read_names.simps)

lemma read_items_vec:
  "list_all (\<lambda>x. (x \<noteq> [] \<or> e) \<and> length x < 2 ^ 16) xs \<Longrightarrow> read_items e (concat (map vec16 xs)) = (xs, True)"
proof (induction xs)
  case (Cons x xs)
  then show ?case by (subst read_items.simps) (auto simp: vec16_def [of x] Let_def u16_val_bytes u16_bytes_def [of 0])
qed (simp add: read_items.simps)

section \<open>The interface of a message\<close>

text \<open>A whole message: its type, and the length of what follows the header.\<close>

definition framed :: "byte \<Rightarrow> byte list \<Rightarrow> bool" where
  "framed typ x = (4 \<le> length x \<and> x ! 0 = typ \<and> u24_val (drop 1 x) = length x - 4)"

lemma framed_header: "length x = 4 + n \<Longrightarrow> n < 2 ^ 24 \<Longrightarrow> take 4 x = handshake_header typ n \<Longrightarrow> framed typ x"
proof -
  assume l: "length x = 4 + n" "n < 2 ^ 24" and h: "take 4 x = handshake_header typ n"
  have "x = handshake_header typ n @ drop 4 x" using append_take_drop_id [of 4 x] h by simp
  from arg_cong [OF this, of "\<lambda>x. x ! 0"] arg_cong [OF this, of "drop 1"]
  have "x ! 0 = typ" "drop 1 x = u24_bytes n @ drop 4 x" by (simp_all add: handshake_header_def)
  then show ?thesis using l by (simp add: framed_def u24_val_bytes)
qed

lemma message_framed: "length body = n \<Longrightarrow> n < 2 ^ 24 \<Longrightarrow> framed t (handshake_header t n @ body)"
  by (rule framed_header [of _ n]) simp_all

lemma message_parts:
  "length (handshake_header t n @ b) = 4 + length b"
  "drop 4 (handshake_header t n @ b) = b" "drop 5 (handshake_header t n @ b) = drop 1 b" "drop 7 (handshake_header t n @ b) = drop 3 b"
  "drop 8 (handshake_header t n @ b) = drop 4 b" "drop 10 (handshake_header t n @ b) = drop 6 b" "(handshake_header t n @ b) ! 4 = b ! 0"
  by (simp_all add: nth_append)

lemma message_length: "n < 2 ^ 24 \<Longrightarrow> u24_val (drop 1 (handshake_header t n @ b)) = n"
  by (simp add: handshake_header_def u24_val_bytes)

lemma message_length_drop: "n < 2 ^ 24 \<Longrightarrow> u24_val (drop (Suc 0) (handshake_header t n) @ b) = n"
  by (simp add: handshake_header_def u24_val_bytes)

lemma message_length32: "n < 2 ^ 24 \<Longrightarrow> (of_nat (u24_val (drop 1 (handshake_header t n @ b))) :: u32) = of_nat n"
  by (simp only: message_length)

lemmas message = message_parts message_length message_length_drop message_length32

text \<open>
  What the connection relies on: a message that fits is written as a framed string of bytes, and a new object of the
  type reads that string into what the writer keeps.
\<close>

locale handshake_codec =
  fixes kind :: byte
    and marshal :: "'m \<Rightarrow> ('m \<times> byte list) option"
    and unmarshal :: "'m \<Rightarrow> byte list \<Rightarrow> 'm \<times> bool"
    and fresh :: 'm
    and fits :: "'m \<Rightarrow> bool"
  assumes codec: "fits m \<Longrightarrow> \<exists>m' x. marshal m = Some (m', x) \<and> framed kind x \<and> unmarshal fresh x = (m', True)"
begin

lemma roundtrip: "fits m \<Longrightarrow> marshal m = Some (m', x) \<Longrightarrow> unmarshal fresh x = (m', True)"
  using codec [of m] by auto

lemma framing: "fits m \<Longrightarrow> marshal m = Some (m', x) \<Longrightarrow> framed kind x"
  using codec [of m] by auto

text \<open>The bytes of a message in front of others are cut off as they were written.\<close>

lemma cut: "fits m \<Longrightarrow> marshal m = Some (m', x) \<Longrightarrow> take (4 + u24_val (drop 1 (x @ rest))) (x @ rest) = x"
proof -
  assume "fits m" "marshal m = Some (m', x)"
  then have f: "framed kind x" by (rule framing)
  then have l: "4 \<le> length x" by (simp add: framed_def)
  have "u24_val (drop 1 (x @ rest)) = u24_val (drop 1 x)" using l unfolding u24_val_def by (simp add: nth_append less_diff_conv)
  then show ?thesis using f by (simp add: framed_def)
qed

text \<open>Two messages that fit and are written as the same bytes are the same.\<close>

lemma unambiguous: "fits m \<Longrightarrow> fits n \<Longrightarrow> marshal m = Some (m', x) \<Longrightarrow> marshal n = Some (n', x) \<Longrightarrow> m' = n'"
  using roundtrip [of m m' x] roundtrip [of n n' x] by simp

end

end
