(* ===== verification/Tls_Messages.thy ===== *)
theory Tls_Messages
  imports Tls_Codec
begin

unbundle bit_operations_syntax

text \<open>
  The handshake messages after the hellos (handshake_messages.go): each with its \<open>equal\<close>, \<open>marshal\<close> and \<open>unmarshal\<close>. An object
  caches its encoding in \<open>raw\<close>; \<open>unmarshal\<close> gives the object it leaves behind, also when it fails.
\<close>

section \<open>Certificates\<close>

record certificateMsg =
  cert_raw :: "byte list option"
  cert_certificates :: "byte list list"

definition certificate_equal :: "certificateMsg \<Rightarrow> certificateMsg \<Rightarrow> bool" where
  "certificate_equal m m1 = (eq_raw (cert_raw m) (cert_raw m1) \<and> eq_lists (cert_certificates m) (cert_certificates m1))"

definition certificate_marshal :: "certificateMsg \<Rightarrow> certificateMsg \<times> byte list" where
  "certificate_marshal m =
     (case cert_raw m of Some x \<Rightarrow> (m, x)
      | None \<Rightarrow>
          let i = sum_list (map length (cert_certificates m));
              len = 3 + 3 * length (cert_certificates m) + i;
              x = filled (4 + len) (handshake_header typeCertificate len @ u24_bytes (len - 3) @ concat (map vec24 (cert_certificates m)))
          in (m\<lparr>cert_raw := Some x\<rparr>, x))"

text \<open>The two passes over the list; the first one works on 32-bit lengths.\<close>

function count_certs :: "u32 \<Rightarrow> byte list \<Rightarrow> nat option" where
  "count_certs certsLen d =
     (if certsLen = 0 then Some 0
      else if length d < 4 then None
      else let certLen = of_nat (u24_val d) :: u32
           in if of_nat (length d) < 3 + certLen then None
              else map_option Suc (count_certs (certsLen - (3 + certLen)) (drop (unat (3 + certLen)) d)))"
  by pat_completeness auto
termination
proof (relation "measure (\<lambda>(_, d). length d)")
  fix d :: "byte list" and l :: u32
  assume l: "l = of_nat (u24_val d)" "\<not> length d < 4"
  have "unat (3 + l) = 3 + u24_val d" using u24_val_less [of d] by (simp add: l(1) unat_word_ariths unat_of_nat)
  then show "((c - (3 + l), drop (unat (3 + l)) d), (c, d)) \<in> measure (\<lambda>(_, d). length d)" for c using l(2) by simp
qed simp

declare count_certs.simps [simp del]

fun split_certs :: "nat \<Rightarrow> byte list \<Rightarrow> byte list list" where
  "split_certs 0 d = []"
| "split_certs (Suc k) d = take (u24_val d) (drop 3 d) # split_certs k (drop (3 + u24_val d) d)"

definition certificate_unmarshal :: "certificateMsg \<Rightarrow> byte list \<Rightarrow> certificateMsg \<times> bool" where
  "certificate_unmarshal m data =
     (if length data < 7 then (m, False)
      else
        let m = m\<lparr>cert_raw := Some data\<rparr>;
            certsLen = of_nat (u24_val (drop 4 data)) :: u32
        in if of_nat (length data) \<noteq> certsLen + 7 then (m, False)
           else case count_certs certsLen (drop 7 data) of
               None \<Rightarrow> (m, False)
             | Some numCerts \<Rightarrow> (m\<lparr>cert_certificates := split_certs numCerts (drop 7 data)\<rparr>, True))"

section \<open>Key exchange, finished and done\<close>

record serverKeyExchangeMsg =
  ske_raw :: "byte list option"
  ske_key :: "byte list"

definition serverKeyExchange_equal :: "serverKeyExchangeMsg \<Rightarrow> serverKeyExchangeMsg \<Rightarrow> bool" where
  "serverKeyExchange_equal m m1 = (eq_raw (ske_raw m) (ske_raw m1) \<and> ske_key m = ske_key m1)"

definition serverKeyExchange_marshal :: "serverKeyExchangeMsg \<Rightarrow> serverKeyExchangeMsg \<times> byte list" where
  "serverKeyExchange_marshal m =
     (case ske_raw m of Some x \<Rightarrow> (m, x)
      | None \<Rightarrow>
          let len = length (ske_key m);
              x = filled (len + 4) (handshake_header typeServerKeyExchange len @ ske_key m)
          in (m\<lparr>ske_raw := Some x\<rparr>, x))"

definition serverKeyExchange_unmarshal :: "serverKeyExchangeMsg \<Rightarrow> byte list \<Rightarrow> serverKeyExchangeMsg \<times> bool" where
  "serverKeyExchange_unmarshal m data =
     (let m = m\<lparr>ske_raw := Some data\<rparr>
      in if length data < 4 then (m, False) else (m\<lparr>ske_key := drop 4 data\<rparr>, True))"

record clientKeyExchangeMsg =
  cke_raw :: "byte list option"
  cke_ciphertext :: "byte list"

definition clientKeyExchange_equal :: "clientKeyExchangeMsg \<Rightarrow> clientKeyExchangeMsg \<Rightarrow> bool" where
  "clientKeyExchange_equal m m1 = (eq_raw (cke_raw m) (cke_raw m1) \<and> cke_ciphertext m = cke_ciphertext m1)"

definition clientKeyExchange_marshal :: "clientKeyExchangeMsg \<Rightarrow> clientKeyExchangeMsg \<times> byte list" where
  "clientKeyExchange_marshal m =
     (case cke_raw m of Some x \<Rightarrow> (m, x)
      | None \<Rightarrow>
          let len = length (cke_ciphertext m);
              x = filled (len + 4) (handshake_header typeClientKeyExchange len @ cke_ciphertext m)
          in (m\<lparr>cke_raw := Some x\<rparr>, x))"

definition clientKeyExchange_unmarshal :: "clientKeyExchangeMsg \<Rightarrow> byte list \<Rightarrow> clientKeyExchangeMsg \<times> bool" where
  "clientKeyExchange_unmarshal m data =
     (let m = m\<lparr>cke_raw := Some data\<rparr>
      in if length data < 4 then (m, False)
         else if u24_val (drop 1 data) \<noteq> length data - 4 then (m, False)
         else (m\<lparr>cke_ciphertext := drop 4 data\<rparr>, True))"

record finishedMsg =
  fin_raw :: "byte list option"
  fin_verifyData :: "byte list"

definition finished_equal :: "finishedMsg \<Rightarrow> finishedMsg \<Rightarrow> bool" where
  "finished_equal m m1 = (eq_raw (fin_raw m) (fin_raw m1) \<and> fin_verifyData m = fin_verifyData m1)"

definition finished_marshal :: "finishedMsg \<Rightarrow> finishedMsg \<times> byte list" where
  "finished_marshal m =
     (case fin_raw m of Some x \<Rightarrow> (m, x)
      | None \<Rightarrow>
          let x = filled (4 + length (fin_verifyData m)) ([typeFinished, 0, 0, of_nat (length (fin_verifyData m))] @ fin_verifyData m)
          in (m\<lparr>fin_raw := Some x\<rparr>, x))"

definition finished_unmarshal :: "finishedMsg \<Rightarrow> byte list \<Rightarrow> finishedMsg \<times> bool" where
  "finished_unmarshal m data =
     (let m = m\<lparr>fin_raw := Some data\<rparr>
      in if length data < 4 then (m, False) else (m\<lparr>fin_verifyData := drop 4 data\<rparr>, True))"

text \<open>Two messages without content.\<close>

datatype serverHelloDoneMsg = ServerHelloDoneMsg
datatype helloRequestMsg = HelloRequestMsg

definition serverHelloDone_marshal :: "serverHelloDoneMsg \<Rightarrow> serverHelloDoneMsg \<times> byte list" where
  "serverHelloDone_marshal m = (m, filled 4 [typeServerHelloDone])"

definition serverHelloDone_unmarshal :: "serverHelloDoneMsg \<Rightarrow> byte list \<Rightarrow> serverHelloDoneMsg \<times> bool" where
  "serverHelloDone_unmarshal m data = (m, length data = 4)"

definition helloRequest_marshal :: "helloRequestMsg \<Rightarrow> helloRequestMsg \<times> byte list" where
  "helloRequest_marshal m = (m, [typeHelloRequest, 0, 0, 0])"

definition helloRequest_unmarshal :: "helloRequestMsg \<Rightarrow> byte list \<Rightarrow> helloRequestMsg \<times> bool" where
  "helloRequest_unmarshal m data = (m, length data = 4)"

section \<open>Certificate status, next protocol and tickets\<close>

record certificateStatusMsg =
  cst_raw :: "byte list option"
  cst_statusType :: byte
  cst_response :: "byte list"

definition certificateStatus_equal :: "certificateStatusMsg \<Rightarrow> certificateStatusMsg \<Rightarrow> bool" where
  "certificateStatus_equal m m1 =
     (eq_raw (cst_raw m) (cst_raw m1) \<and> cst_statusType m = cst_statusType m1 \<and> cst_response m = cst_response m1)"

definition certificateStatus_marshal :: "certificateStatusMsg \<Rightarrow> certificateStatusMsg \<times> byte list" where
  "certificateStatus_marshal m =
     (case cst_raw m of Some x \<Rightarrow> (m, x)
      | None \<Rightarrow>
          let x = (if cst_statusType m = statusTypeOCSP then
                     let len = length (cst_response m) + 4
                     in filled (4 + 4 + length (cst_response m))
                          (handshake_header typeCertificateStatus len @ [statusTypeOCSP] @ u24_bytes (len - 4) @ cst_response m)
                   else [typeCertificateStatus, 0, 0, 1, cst_statusType m])
          in (m\<lparr>cst_raw := Some x\<rparr>, x))"

definition certificateStatus_unmarshal :: "certificateStatusMsg \<Rightarrow> byte list \<Rightarrow> certificateStatusMsg \<times> bool" where
  "certificateStatus_unmarshal m data =
     (let m = m\<lparr>cst_raw := Some data\<rparr>
      in if length data < 5 then (m, False)
         else
           let m = m\<lparr>cst_statusType := data ! 4, cst_response := []\<rparr>
           in if cst_statusType m = statusTypeOCSP then
                if length data < 8 then (m, False)
                else if (of_nat (length data) :: u32) \<noteq> 4 + 4 + of_nat (u24_val (drop 5 data)) then (m, False)
                else (m\<lparr>cst_response := drop 8 data\<rparr>, True)
              else (m, True))"

record nextProtoMsg =
  np_raw :: "byte list option"
  np_proto :: "byte list"

definition nextProto_equal :: "nextProtoMsg \<Rightarrow> nextProtoMsg \<Rightarrow> bool" where
  "nextProto_equal m m1 = (eq_raw (np_raw m) (np_raw m1) \<and> np_proto m = np_proto m1)"

definition nextProto_marshal :: "nextProtoMsg \<Rightarrow> nextProtoMsg \<times> byte list" where
  "nextProto_marshal m =
     (case np_raw m of Some x \<Rightarrow> (m, x)
      | None \<Rightarrow>
          let l = (if 255 < length (np_proto m) then 255 else length (np_proto m));
              padding = 32 - (l + 2) mod 32;
              len = l + padding + 2;
              x = filled (len + 4) (handshake_header typeNextProtocol len @ [of_nat l] @ take l (np_proto m) @ [of_nat padding])
          in (m\<lparr>np_raw := Some x\<rparr>, x))"

definition nextProto_unmarshal :: "nextProtoMsg \<Rightarrow> byte list \<Rightarrow> nextProtoMsg \<times> bool" where
  "nextProto_unmarshal m data =
     (let m = m\<lparr>np_raw := Some data\<rparr>
      in if length data < 5 then (m, False)
         else
           let data = drop 4 data; protoLen = unat (data ! 0); data = drop 1 data
           in if length data < protoLen then (m, False)
              else
                let m = m\<lparr>np_proto := take protoLen data\<rparr>; data = drop protoLen data
                in if length data < 1 then (m, False)
                   else
                     let paddingLen = unat (data ! 0); data = drop 1 data
                     in (m, length data = paddingLen))"

record newSessionTicketMsg =
  nst_raw :: "byte list option"
  nst_ticket :: "byte list"

definition newSessionTicket_equal :: "newSessionTicketMsg \<Rightarrow> newSessionTicketMsg \<Rightarrow> bool" where
  "newSessionTicket_equal m m1 = (eq_raw (nst_raw m) (nst_raw m1) \<and> nst_ticket m = nst_ticket m1)"

definition newSessionTicket_marshal :: "newSessionTicketMsg \<Rightarrow> newSessionTicketMsg \<times> byte list" where
  "newSessionTicket_marshal m =
     (case nst_raw m of Some x \<Rightarrow> (m, x)
      | None \<Rightarrow>
          let ticketLen = length (nst_ticket m);
              len = 2 + 4 + ticketLen;
              x = filled (4 + len) (handshake_header typeNewSessionTicket len @ [0, 0, 0, 0] @ u16_bytes ticketLen @ nst_ticket m)
          in (m\<lparr>nst_raw := Some x\<rparr>, x))"

definition newSessionTicket_unmarshal :: "newSessionTicketMsg \<Rightarrow> byte list \<Rightarrow> newSessionTicketMsg \<times> bool" where
  "newSessionTicket_unmarshal m data =
     (let m = m\<lparr>nst_raw := Some data\<rparr>
      in if length data < 10 then (m, False)
         else if (of_nat (length data) - 4 :: u32) \<noteq> of_nat (u24_val (drop 1 data)) then (m, False)
         else if length data - 10 \<noteq> u16_val (drop 8 data) then (m, False)
         else (m\<lparr>nst_ticket := drop 10 data\<rparr>, True))"

section \<open>The client's certificate\<close>

record certificateRequestMsg =
  cr_raw :: "byte list option"
  cr_hasSignatureAndHash :: bool
  cr_certificateTypes :: "byte list"
  cr_signatureAndHashes :: "signatureAndHash list"
  cr_certificateAuthorities :: "byte list list"

definition certificateRequest_equal :: "certificateRequestMsg \<Rightarrow> certificateRequestMsg \<Rightarrow> bool" where
  "certificateRequest_equal m m1 =
     (eq_raw (cr_raw m) (cr_raw m1) \<and> cr_certificateTypes m = cr_certificateTypes m1
      \<and> eq_lists (cr_certificateAuthorities m) (cr_certificateAuthorities m1) \<and> eq_lists (cr_signatureAndHashes m) (cr_signatureAndHashes m1))"

definition certificateRequest_marshal :: "certificateRequestMsg \<Rightarrow> certificateRequestMsg \<times> byte list" where
  "certificateRequest_marshal m =
     (case cr_raw m of Some x \<Rightarrow> (m, x)
      | None \<Rightarrow>
          let casLength = sum_list (map (\<lambda>ca. 2 + length ca) (cr_certificateAuthorities m));
              n = length (cr_signatureAndHashes m) * 2;
              len = 1 + length (cr_certificateTypes m) + 2 + casLength + (if cr_hasSignatureAndHash m then 2 + n else 0);
              x = filled (4 + len)
                (handshake_header typeCertificateRequest len @ vec8 (cr_certificateTypes m)
                 @ (if cr_hasSignatureAndHash m then u16_bytes n @ concat (map sah_bytes (cr_signatureAndHashes m)) else [])
                 @ u16_bytes casLength @ concat (map vec16 (cr_certificateAuthorities m)))
          in (m\<lparr>cr_raw := Some x\<rparr>, x))"

text \<open>From the length of the authorities on.\<close>

definition read_authorities :: "certificateRequestMsg \<Rightarrow> byte list \<Rightarrow> certificateRequestMsg \<times> bool" where
  "read_authorities m data =
     (if length data < 2 then (m, False)
      else
        let casLength = u16_val data; data = drop 2 data
        in if length data < casLength then (m, False)
           else case read_items True (take casLength data) of (cas, ok) \<Rightarrow>
             (m\<lparr>cr_certificateAuthorities := cas\<rparr>, ok \<and> drop casLength data = []))"

definition certificateRequest_unmarshal :: "certificateRequestMsg \<Rightarrow> byte list \<Rightarrow> certificateRequestMsg \<times> bool" where
  "certificateRequest_unmarshal m data =
     (let m = m\<lparr>cr_raw := Some data\<rparr>
      in if length data < 5 then (m, False)
         else if (of_nat (length data) - 4 :: u32) \<noteq> of_nat (u24_val (drop 1 data)) then (m, False)
         else
           let numCertTypes = unat (data ! 4); data = drop 5 data
           in if numCertTypes = 0 \<or> length data \<le> numCertTypes then (m, False)
              else
                let m = m\<lparr>cr_certificateTypes := take numCertTypes data\<rparr>; data = drop numCertTypes data
                in if cr_hasSignatureAndHash m then
                     if length data < 2 then (m, False)
                     else
                       let sigAndHashLen = u16_val data; data = drop 2 data
                       in if odd sigAndHashLen then (m, False)
                          else if length data < sigAndHashLen then (m, False)
                          else read_authorities (m\<lparr>cr_signatureAndHashes := read_sahs (sigAndHashLen div 2) data\<rparr>)
                                 (drop (2 * (sigAndHashLen div 2)) data)
                   else read_authorities m data)"

record certificateVerifyMsg =
  cv_raw :: "byte list option"
  cv_hasSignatureAndHash :: bool
  cv_signatureAndHash :: signatureAndHash
  cv_signature :: "byte list"

definition certificateVerify_equal :: "certificateVerifyMsg \<Rightarrow> certificateVerifyMsg \<Rightarrow> bool" where
  "certificateVerify_equal m m1 =
     (eq_raw (cv_raw m) (cv_raw m1) \<and> cv_hasSignatureAndHash m = cv_hasSignatureAndHash m1
      \<and> sah_hash (cv_signatureAndHash m) = sah_hash (cv_signatureAndHash m1)
      \<and> sah_signature (cv_signatureAndHash m) = sah_signature (cv_signatureAndHash m1) \<and> cv_signature m = cv_signature m1)"

definition certificateVerify_marshal :: "certificateVerifyMsg \<Rightarrow> certificateVerifyMsg \<times> byte list" where
  "certificateVerify_marshal m =
     (case cv_raw m of Some x \<Rightarrow> (m, x)
      | None \<Rightarrow>
          let siglength = length (cv_signature m);
              len = 2 + siglength + (if cv_hasSignatureAndHash m then 2 else 0);
              x = filled (4 + len)
                (handshake_header typeCertificateVerify len @ (if cv_hasSignatureAndHash m then sah_bytes (cv_signatureAndHash m) else [])
                 @ u16_bytes siglength @ cv_signature m)
          in (m\<lparr>cv_raw := Some x\<rparr>, x))"

definition certificateVerify_unmarshal :: "certificateVerifyMsg \<Rightarrow> byte list \<Rightarrow> certificateVerifyMsg \<times> bool" where
  "certificateVerify_unmarshal m data =
     (let m = m\<lparr>cv_raw := Some data\<rparr>
      in if length data < 6 then (m, False)
         else if (of_nat (length data) - 4 :: u32) \<noteq> of_nat (u24_val (drop 1 data)) then (m, False)
         else
           let data = drop 4 data;
               m = (if cv_hasSignatureAndHash m then m\<lparr>cv_signatureAndHash := \<lparr>sah_hash = data ! 0, sah_signature = data ! 1\<rparr>\<rparr> else m);
               data = (if cv_hasSignatureAndHash m then drop 2 data else data)
           in if length data < 2 then (m, False)
              else if length (drop 2 data) \<noteq> u16_val data then (m, False)
              else (m\<lparr>cv_signature := drop 2 data\<rparr>, True))"

section \<open>What was written is read\<close>

definition certificate_fits :: "certificateMsg \<Rightarrow> bool" where
  "certificate_fits m =
     (cert_raw m = None \<and> list_all (\<lambda>c. length c < 2 ^ 24) (cert_certificates m)
      \<and> (cert_certificates m \<noteq> [] \<longrightarrow> last (cert_certificates m) \<noteq> [])
      \<and> 3 + 3 * length (cert_certificates m) + sum_list (map length (cert_certificates m)) < 2 ^ 24)"

lemma split_certs_bytes:
  "list_all (\<lambda>c. length c < 2 ^ 24) certs \<Longrightarrow> split_certs (length certs) (concat (map vec24 certs)) = certs"
  by (induction certs) (simp_all add: vec24_def u24_val_bytes)

lemma count_certs_bytes:
  assumes "list_all (\<lambda>c. length c < 2 ^ 24) certs" "certs \<noteq> [] \<longrightarrow> last certs \<noteq> []" "length (concat (map vec24 certs)) < 2 ^ 24"
  shows "count_certs (of_nat (length (concat (map vec24 certs)))) (concat (map vec24 certs)) = Some (length certs)"
  using assms
proof (induction certs)
  case (Cons c certs)
  let ?rest = "concat (map vec24 certs)" let ?d = "vec24 c @ ?rest"
  have l: "length ?d < 2 ^ 32" "length c < 2 ^ 24" "length ?rest < 2 ^ 24" using Cons.prems(1,3) by simp_all
  have v: "u24_val ?d = length c" using Cons.prems(1) by (simp add: vec24_def u24_val_bytes)
  have s: "(3 + of_nat (length c) :: u32) = of_nat (3 + length c)" by simp
  have n: "unat (of_nat (3 + length c) :: u32) = 3 + length c" using l(2) by (simp only: unat_of_nat) simp
  have "4 \<le> length ?d"
  proof (cases "certs = []")
    case True
    then show ?thesis using Cons.prems(2) by (cases c) simp_all
  next
    case False
    then obtain c' cs where "certs = c' # cs" by (cases certs) auto
    then show ?thesis by simp
  qed
  moreover have "(of_nat (length ?d) :: u32) \<noteq> 0" using l(1) proof -
    have "unat (of_nat (length ?d) :: u32) = length ?d" using l(1) by (simp only: unat_of_nat) simp
    moreover have "length ?d \<noteq> 0" by simp
    ultimately show ?thesis by (metis unat_0)
  qed
  moreover have "\<not> (of_nat (length ?d) :: u32) < of_nat (3 + length c)"
    using l by (simp only: word_less_nat_alt unat_of_nat) simp
  moreover have "(of_nat (length ?d) :: u32) - of_nat (3 + length c) = of_nat (length ?rest)" by simp
  moreover have "drop (3 + length c) ?d = ?rest" by simp
  ultimately have "count_certs (of_nat (length ?d)) ?d = map_option Suc (count_certs (of_nat (length ?rest)) ?rest)"
    by (subst count_certs.simps) (simp only: v s n Let_def if_False not_less [symmetric] not_not)
  then show ?case using Cons by (cases "certs = []") simp_all
qed (simp add: count_certs.simps)

lemma certificate_roundtrip:
  assumes "certificate_fits m" "certificate_marshal m = (m', x)" "cert_raw m0 = r"
  shows "certificate_unmarshal m0 x = (m', True)" "framed typeCertificate x"
proof -
  let ?c = "concat (map vec24 (cert_certificates m))" let ?len = "3 + length ?c"
  let ?x = "handshake_header typeCertificate ?len @ u24_bytes (length ?c) @ ?c"
  have f: "cert_raw m = None" "list_all (\<lambda>c. length c < 2 ^ 24) (cert_certificates m)" "cert_certificates m \<noteq> [] \<longrightarrow> last (cert_certificates m) \<noteq> []"
    "?len < 2 ^ 24" using assms(1) by (simp_all add: certificate_fits_def length_concat_vec)
  have x: "x = ?x" "m' = m\<lparr>cert_raw := Some ?x\<rparr>"
    using assms(2) f(1) by (auto simp: certificate_marshal_def Let_def length_concat_vec add.assoc)
  have l: "length ?x = 7 + length ?c" "drop 7 ?x = ?c" by simp_all
  have v: "u24_val (drop 4 ?x) = length ?c" using f(4) by (simp add: message u24_val_bytes)
  have n: "(of_nat (length ?x) :: u32) = of_nat (length ?c) + 7" by (simp add: l)
  have "count_certs (of_nat (length ?c)) ?c = Some (length (cert_certificates m))" using count_certs_bytes f by simp
  then show "certificate_unmarshal m0 x = (m', True)"
    unfolding x certificate_unmarshal_def Let_def v n l(2) using l(1) split_certs_bytes [OF f(2)] by (cases m; cases m0) simp
  show "framed typeCertificate x" unfolding x using f(4) by (intro message_framed) simp_all
qed

definition certificate_msg :: "byte list list \<Rightarrow> certificateMsg" where
  "certificate_msg certs = \<lparr>cert_raw = None, cert_certificates = certs\<rparr>"

interpretation certificate: handshake_codec typeCertificate "\<lambda>m. Some (certificate_marshal m)" certificate_unmarshal "certificate_msg []" certificate_fits
  by unfold_locales (metis certificate_roundtrip surj_pair)

definition serverKeyExchange_fits :: "serverKeyExchangeMsg \<Rightarrow> bool" where
  "serverKeyExchange_fits m = (ske_raw m = None \<and> length (ske_key m) < 2 ^ 24)"

interpretation serverKeyExchange: handshake_codec typeServerKeyExchange "\<lambda>m. Some (serverKeyExchange_marshal m)" serverKeyExchange_unmarshal
  "\<lparr>ske_raw = None, ske_key = []\<rparr>" serverKeyExchange_fits
  by unfold_locales (auto simp: serverKeyExchange_fits_def serverKeyExchange_marshal_def serverKeyExchange_unmarshal_def Let_def message message_framed)

definition clientKeyExchange_fits :: "clientKeyExchangeMsg \<Rightarrow> bool" where
  "clientKeyExchange_fits m = (cke_raw m = None \<and> length (cke_ciphertext m) < 2 ^ 24)"

interpretation clientKeyExchange: handshake_codec typeClientKeyExchange "\<lambda>m. Some (clientKeyExchange_marshal m)" clientKeyExchange_unmarshal
  "\<lparr>cke_raw = None, cke_ciphertext = []\<rparr>" clientKeyExchange_fits
  by unfold_locales (auto simp: clientKeyExchange_fits_def clientKeyExchange_marshal_def clientKeyExchange_unmarshal_def Let_def message message_framed)

definition finished_fits :: "finishedMsg \<Rightarrow> bool" where
  "finished_fits m = (fin_raw m = None \<and> length (fin_verifyData m) < 256)"

lemma finished_header: "n < 256 \<Longrightarrow> [t, 0, 0, of_nat n] @ x = handshake_header t n @ x"
  by (simp add: handshake_header_def u24_bytes_def)

interpretation finished: handshake_codec typeFinished "\<lambda>m. Some (finished_marshal m)" finished_unmarshal
  "\<lparr>fin_raw = None, fin_verifyData = []\<rparr>" finished_fits
  by unfold_locales (auto simp: finished_fits_def finished_marshal_def finished_unmarshal_def Let_def finished_header [simplified] message message_framed)

interpretation serverHelloDone: handshake_codec typeServerHelloDone "\<lambda>m. Some (serverHelloDone_marshal m)" serverHelloDone_unmarshal ServerHelloDoneMsg "\<lambda>_. True"
proof
  fix m :: serverHelloDoneMsg
  show "\<exists>m' x. Some (serverHelloDone_marshal m) = Some (m', x) \<and> framed typeServerHelloDone x \<and> serverHelloDone_unmarshal ServerHelloDoneMsg x = (m', True)"
    by (cases m) (simp add: serverHelloDone_marshal_def serverHelloDone_unmarshal_def filled_def framed_def u24_val_def)
qed

interpretation helloRequest: handshake_codec typeHelloRequest "\<lambda>m. Some (helloRequest_marshal m)" helloRequest_unmarshal HelloRequestMsg "\<lambda>_. True"
proof
  fix m :: helloRequestMsg
  show "\<exists>m' x. Some (helloRequest_marshal m) = Some (m', x) \<and> framed typeHelloRequest x \<and> helloRequest_unmarshal HelloRequestMsg x = (m', True)"
    by (cases m) (simp add: helloRequest_marshal_def helloRequest_unmarshal_def framed_def u24_val_def)
qed

definition certificateStatus_fits :: "certificateStatusMsg \<Rightarrow> bool" where
  "certificateStatus_fits m =
     (cst_raw m = None \<and> length (cst_response m) + 4 < 2 ^ 24 \<and> (cst_statusType m \<noteq> statusTypeOCSP \<longrightarrow> cst_response m = []))"

lemma short_message: "[t, 0, 0, 1, b] = handshake_header t 1 @ [b]"
  by (simp add: handshake_header_def u24_bytes_def)

interpretation certificateStatus: handshake_codec typeCertificateStatus "\<lambda>m. Some (certificateStatus_marshal m)" certificateStatus_unmarshal
  "\<lparr>cst_raw = None, cst_statusType = 0, cst_response = []\<rparr>" certificateStatus_fits
proof
  fix m assume f: "certificateStatus_fits m"
  show "\<exists>m' x. Some (certificateStatus_marshal m) = Some (m', x) \<and> framed typeCertificateStatus x
    \<and> certificateStatus_unmarshal \<lparr>cst_raw = None, cst_statusType = 0, cst_response = []\<rparr> x = (m', True)"
  proof (cases "cst_statusType m = statusTypeOCSP")
    case True
    let ?n = "length (cst_response m)"
    let ?x = "handshake_header typeCertificateStatus (?n + 4) @ statusTypeOCSP # u24_bytes ?n @ cst_response m"
    have "certificateStatus_marshal m = (m\<lparr>cst_raw := Some ?x\<rparr>, ?x)"
      using f True by (simp add: certificateStatus_marshal_def certificateStatus_fits_def Let_def)
    moreover have "framed typeCertificateStatus ?x" using f by (intro message_framed) (simp_all add: certificateStatus_fits_def)
    moreover have "u24_val (drop 5 ?x) = ?n" "?x ! 4 = statusTypeOCSP" "drop 8 ?x = cst_response m" "length ?x = 8 + ?n"
      using f by (simp_all add: message u24_val_bytes certificateStatus_fits_def)
    then have "certificateStatus_unmarshal \<lparr>cst_raw = None, cst_statusType = 0, cst_response = []\<rparr> ?x = (m\<lparr>cst_raw := Some ?x\<rparr>, True)"
      unfolding certificateStatus_unmarshal_def Let_def using True by (cases m) simp
    ultimately show ?thesis by blast
  next
    case False
    then show ?thesis using f
      by (cases m) (simp add: certificateStatus_marshal_def certificateStatus_unmarshal_def certificateStatus_fits_def Let_def short_message message message_framed)
  qed
qed

text \<open>A protocol name is cut after 255 bytes.\<close>

definition nextProto_fits :: "nextProtoMsg \<Rightarrow> bool" where
  "nextProto_fits m = (np_raw m = None \<and> length (np_proto m) < 256)"

interpretation nextProto: handshake_codec typeNextProtocol "\<lambda>m. Some (nextProto_marshal m)" nextProto_unmarshal
  "\<lparr>np_raw = None, np_proto = []\<rparr>" nextProto_fits
proof
  fix m assume f: "nextProto_fits m"
  let ?n = "length (np_proto m)"
  define p where "p = 32 - (?n + 2) mod 32"
  let ?x = "handshake_header typeNextProtocol (?n + p + 2) @ of_nat ?n # np_proto m @ of_nat p # replicate p 0"
  have n: "?n < 256" "p < 256" using f by (auto simp: nextProto_fits_def p_def)
  have "nextProto_marshal m = (m\<lparr>np_raw := Some ?x\<rparr>, ?x)"
    using f n unfolding nextProto_marshal_def Let_def by (simp add: nextProto_fits_def filled_def p_def [symmetric, simplified])
  moreover have "framed typeNextProtocol ?x" using n by (intro message_framed) simp_all
  moreover have "nextProto_unmarshal \<lparr>np_raw = None, np_proto = []\<rparr> ?x = (m\<lparr>np_raw := Some ?x\<rparr>, True)"
    unfolding nextProto_unmarshal_def Let_def message_parts using n by (cases m) (simp add: unat_length_byte)
  ultimately show "\<exists>m' x. Some (nextProto_marshal m) = Some (m', x) \<and> framed typeNextProtocol x
    \<and> nextProto_unmarshal \<lparr>np_raw = None, np_proto = []\<rparr> x = (m', True)" by blast
qed

definition newSessionTicket_fits :: "newSessionTicketMsg \<Rightarrow> bool" where
  "newSessionTicket_fits m = (nst_raw m = None \<and> length (nst_ticket m) < 2 ^ 16)"

interpretation newSessionTicket: handshake_codec typeNewSessionTicket "\<lambda>m. Some (newSessionTicket_marshal m)" newSessionTicket_unmarshal
  "\<lparr>nst_raw = None, nst_ticket = []\<rparr>" newSessionTicket_fits
proof
  fix m assume f: "newSessionTicket_fits m"
  let ?n = "length (nst_ticket m)"
  let ?x = "handshake_header typeNewSessionTicket (6 + ?n) @ [0, 0, 0, 0] @ u16_bytes ?n @ nst_ticket m"
  have "newSessionTicket_marshal m = (m\<lparr>nst_raw := Some ?x\<rparr>, ?x)"
    using f by (simp add: newSessionTicket_marshal_def newSessionTicket_fits_def Let_def)
  moreover have "framed typeNewSessionTicket ?x" using f by (intro message_framed) (simp_all add: newSessionTicket_fits_def)
  moreover have "u16_val (drop 8 ?x) = ?n" "drop 10 ?x = nst_ticket m" "length ?x = 10 + ?n" "u24_val (drop 1 ?x) = 6 + ?n"
    using f by (simp_all add: newSessionTicket_fits_def message u16_val_bytes)
  then have "newSessionTicket_unmarshal \<lparr>nst_raw = None, nst_ticket = []\<rparr> ?x = (m\<lparr>nst_raw := Some ?x\<rparr>, True)"
    unfolding newSessionTicket_unmarshal_def Let_def by (cases m) simp
  ultimately show "\<exists>m' x. Some (newSessionTicket_marshal m) = Some (m', x) \<and> framed typeNewSessionTicket x
    \<and> newSessionTicket_unmarshal \<lparr>nst_raw = None, nst_ticket = []\<rparr> x = (m', True)" by blast
qed

definition certificateVerify_fits :: "bool \<Rightarrow> certificateVerifyMsg \<Rightarrow> bool" where
  "certificateVerify_fits has m =
     (cv_raw m = None \<and> cv_hasSignatureAndHash m = has \<and> (\<not> has \<longrightarrow> cv_signatureAndHash m = \<lparr>sah_hash = 0, sah_signature = 0\<rparr>)
      \<and> length (cv_signature m) < 2 ^ 16)"

definition certificateVerify_msg :: "bool \<Rightarrow> certificateVerifyMsg" where
  "certificateVerify_msg has =
     \<lparr>cv_raw = None, cv_hasSignatureAndHash = has, cv_signatureAndHash = \<lparr>sah_hash = 0, sah_signature = 0\<rparr>, cv_signature = []\<rparr>"

interpretation certificateVerify: handshake_codec typeCertificateVerify "\<lambda>m. Some (certificateVerify_marshal m)" certificateVerify_unmarshal
  "certificateVerify_msg has" "certificateVerify_fits has" for has
proof
  fix m assume f: "certificateVerify_fits has m"
  let ?n = "length (cv_signature m)" let ?s = "if has then sah_bytes (cv_signatureAndHash m) else []"
  let ?b = "?s @ u16_bytes ?n @ cv_signature m"
  let ?x = "handshake_header typeCertificateVerify (length ?b) @ ?b"
  have l: "length ?b < 2 ^ 24" "2 \<le> length ?b" using f by (auto simp: certificateVerify_fits_def)
  have "certificateVerify_marshal m = (m\<lparr>cv_raw := Some ?x\<rparr>, ?x)"
    using f by (simp add: certificateVerify_marshal_def certificateVerify_fits_def Let_def add_ac)
  moreover have "framed typeCertificateVerify ?x" using l(1) by (rule message_framed [OF refl])
  moreover have "certificateVerify_unmarshal (certificateVerify_msg has) ?x = (m\<lparr>cv_raw := Some ?x\<rparr>, True)"
    unfolding certificateVerify_unmarshal_def Let_def message_length32 [OF l(1)] message_parts using f l(2)
    by (cases m) (auto simp: certificateVerify_fits_def certificateVerify_msg_def u16_val_bytes sah_bytes_def)
  ultimately show "\<exists>m' x. Some (certificateVerify_marshal m) = Some (m', x) \<and> framed typeCertificateVerify x
    \<and> certificateVerify_unmarshal (certificateVerify_msg has) x = (m', True)" by blast
qed

definition certificateRequest_fits :: "bool \<Rightarrow> certificateRequestMsg \<Rightarrow> bool" where
  "certificateRequest_fits has m =
     (cr_raw m = None \<and> cr_hasSignatureAndHash m = has \<and> (\<not> has \<longrightarrow> cr_signatureAndHashes m = [])
      \<and> cr_certificateTypes m \<noteq> [] \<and> length (cr_certificateTypes m) < 256 \<and> 2 * length (cr_signatureAndHashes m) < 2 ^ 16
      \<and> length (concat (map vec16 (cr_certificateAuthorities m))) < 2 ^ 16)"

definition certificateRequest_msg :: "bool \<Rightarrow> certificateRequestMsg" where
  "certificateRequest_msg has =
     \<lparr>cr_raw = None, cr_hasSignatureAndHash = has, cr_certificateTypes = [], cr_signatureAndHashes = [], cr_certificateAuthorities = []\<rparr>"

lemma items_small: "length (concat (map vec16 xs)) < 2 ^ 16 \<Longrightarrow> list_all (\<lambda>x. (x \<noteq> [] \<or> True) \<and> length x < 2 ^ 16) xs"
  by (induction xs) simp_all

lemma read_authorities_bytes:
  assumes "length (concat (map vec16 cas)) < 2 ^ 16"
  shows "read_authorities m (u16_bytes (length (concat (map vec16 cas))) @ concat (map vec16 cas)) = (m\<lparr>cr_certificateAuthorities := cas\<rparr>, True)"
  using assms unfolding read_authorities_def Let_def u16_val_bytes [OF assms] by (simp add: read_items_vec [OF items_small])

interpretation certificateRequest: handshake_codec typeCertificateRequest "\<lambda>m. Some (certificateRequest_marshal m)" certificateRequest_unmarshal
  "certificateRequest_msg has" "certificateRequest_fits has" for has
proof
  fix m assume f: "certificateRequest_fits has m"
  let ?t = "cr_certificateTypes m" and ?s = "concat (map sah_bytes (cr_signatureAndHashes m))" and ?c = "concat (map vec16 (cr_certificateAuthorities m))"
  let ?n = "2 * length (cr_signatureAndHashes m)"
  let ?a = "u16_bytes (length ?c) @ ?c" let ?sa = "(if has then u16_bytes ?n @ ?s else []) @ ?a" let ?b = "vec8 ?t @ ?sa"
  let ?x = "handshake_header typeCertificateRequest (length ?b) @ ?b"
  have l: "length ?b < 2 ^ 24" "length ?c < 2 ^ 16" "?n < 2 ^ 16" "0 < length ?t" "length ?t < 256" "2 \<le> length ?sa"
    using f by (auto simp: certificateRequest_fits_def)
  have x: "certificateRequest_marshal m = (m\<lparr>cr_raw := Some ?x\<rparr>, ?x)"
    using f by (simp add: certificateRequest_marshal_def certificateRequest_fits_def Let_def add_ac mult.commute length_concat_vec)
  have b: "?b ! 0 = of_nat (length ?t)" "drop 1 ?b = ?t @ ?sa" by (simp_all add: vec8_def)
  have t: "unat (of_nat (length ?t) :: byte) = length ?t" "\<not> (length ?t = 0 \<or> length (?t @ ?sa) \<le> length ?t)" "\<not> length ?x < 5"
    using l by (simp_all add: unat_length_byte)
  let ?m = "certificateRequest_msg has\<lparr>cr_raw := Some ?x, cr_certificateTypes := ?t\<rparr>"
  have sa: "certificateRequest_unmarshal (certificateRequest_msg has) ?x =
      (if has then read_authorities (?m\<lparr>cr_signatureAndHashes := cr_signatureAndHashes m\<rparr>) ?a else read_authorities ?m ?a)"
    unfolding certificateRequest_unmarshal_def Let_def message_length32 [OF l(1)] message_parts b t(1) if_not_P [OF t(2)]
    using l(1-3,5) by (simp add: certificateRequest_msg_def u16_val_bytes read_sahs_bytes length_concat_vec)
  have "certificateRequest_unmarshal (certificateRequest_msg has) ?x = (m\<lparr>cr_raw := Some ?x\<rparr>, True)"
    unfolding sa read_authorities_bytes [OF l(2)] using f by (cases m) (auto simp: certificateRequest_fits_def certificateRequest_msg_def)
  then show "\<exists>m' x. Some (certificateRequest_marshal m) = Some (m', x) \<and> framed typeCertificateRequest x
    \<and> certificateRequest_unmarshal (certificateRequest_msg has) x = (m', True)"
    unfolding x using message_framed [OF refl l(1)] by blast
qed

end
