(* ===== verification/Tls_Hello.thy ===== *)
theory Tls_Hello
  imports Tls_Codec
begin

unbundle bit_operations_syntax

text \<open>
  The hello messages (handshake_messages.go): their fields, the extensions in the order they are written, and the loop that
  reads them. A Go string is the list of its bytes.
\<close>

section \<open>Extensions\<close>

definition extensionServerName :: u16 where "extensionServerName = 0"
definition extensionStatusRequest :: u16 where "extensionStatusRequest = 5"
definition extensionSupportedCurves :: u16 where "extensionSupportedCurves = 10"
definition extensionSupportedPoints :: u16 where "extensionSupportedPoints = 11"
definition extensionSignatureAlgorithms :: u16 where "extensionSignatureAlgorithms = 13"
definition extensionALPN :: u16 where "extensionALPN = 16"
definition extensionSCT :: u16 where "extensionSCT = 18"
definition extensionSessionTicket :: u16 where "extensionSessionTicket = 35"
definition extensionNextProtoNeg :: u16 where "extensionNextProtoNeg = 13172"
definition extensionRenegotiationInfo :: u16 where "extensionRenegotiationInfo = 0xff01"
definition scsvRenegotiation :: u16 where "scsvRenegotiation = 0x00ff"

lemmas extension_ids = extensionServerName_def extensionStatusRequest_def extensionSupportedCurves_def extensionSupportedPoints_def
  extensionSignatureAlgorithms_def extensionALPN_def extensionSCT_def extensionSessionTicket_def extensionNextProtoNeg_def extensionRenegotiationInfo_def

type_synonym CurveID = u16

section \<open>The client's hello\<close>

record clientHelloMsg =
  ch_raw :: "byte list option"
  ch_vers :: u16
  ch_random :: "byte list"
  ch_sessionId :: "byte list"
  ch_cipherSuites :: "u16 list"
  ch_compressionMethods :: "byte list"
  ch_nextProtoNeg :: bool
  ch_serverName :: "byte list"
  ch_ocspStapling :: bool
  ch_scts :: bool
  ch_supportedCurves :: "CurveID list"
  ch_supportedPoints :: "byte list"
  ch_ticketSupported :: bool
  ch_sessionTicket :: "byte list"
  ch_signatureAndHashes :: "signatureAndHash list"
  ch_secureRenegotiation :: "byte list"
  ch_secureRenegotiationSupported :: bool
  ch_alpnProtocols :: "byte list list"

definition clientHello_equal :: "clientHelloMsg \<Rightarrow> clientHelloMsg \<Rightarrow> bool" where
  "clientHello_equal m m1 =
     (eq_raw (ch_raw m) (ch_raw m1) \<and> ch_vers m = ch_vers m1 \<and> ch_random m = ch_random m1 \<and> ch_sessionId m = ch_sessionId m1
      \<and> eq_lists (ch_cipherSuites m) (ch_cipherSuites m1) \<and> ch_compressionMethods m = ch_compressionMethods m1
      \<and> ch_nextProtoNeg m = ch_nextProtoNeg m1 \<and> ch_serverName m = ch_serverName m1 \<and> ch_ocspStapling m = ch_ocspStapling m1
      \<and> ch_scts m = ch_scts m1 \<and> eq_lists (ch_supportedCurves m) (ch_supportedCurves m1) \<and> ch_supportedPoints m = ch_supportedPoints m1
      \<and> ch_ticketSupported m = ch_ticketSupported m1 \<and> ch_sessionTicket m = ch_sessionTicket m1
      \<and> eq_lists (ch_signatureAndHashes m) (ch_signatureAndHashes m1)
      \<and> ch_secureRenegotiationSupported m = ch_secureRenegotiationSupported m1 \<and> ch_secureRenegotiation m = ch_secureRenegotiation m1
      \<and> eq_lists (ch_alpnProtocols m) (ch_alpnProtocols m1))"

text \<open>The counts: the number of the extensions, and their length without the four bytes of each header.\<close>

definition ch_numExtensions :: "clientHelloMsg \<Rightarrow> nat" where
  "ch_numExtensions m =
     of_bool (ch_nextProtoNeg m) + of_bool (ch_ocspStapling m) + of_bool (0 < length (ch_serverName m))
     + of_bool (0 < length (ch_supportedCurves m)) + of_bool (0 < length (ch_supportedPoints m)) + of_bool (ch_ticketSupported m)
     + of_bool (0 < length (ch_signatureAndHashes m)) + of_bool (ch_secureRenegotiationSupported m)
     + of_bool (0 < length (ch_alpnProtocols m)) + of_bool (ch_scts m)"

definition ch_extensionsLength :: "clientHelloMsg \<Rightarrow> nat" where
  "ch_extensionsLength m =
     (if ch_ocspStapling m then 1 + 2 + 2 else 0)
     + (if 0 < length (ch_serverName m) then 5 + length (ch_serverName m) else 0)
     + (if 0 < length (ch_supportedCurves m) then 2 + 2 * length (ch_supportedCurves m) else 0)
     + (if 0 < length (ch_supportedPoints m) then 1 + length (ch_supportedPoints m) else 0)
     + (if ch_ticketSupported m then length (ch_sessionTicket m) else 0)
     + (if 0 < length (ch_signatureAndHashes m) then 2 + 2 * length (ch_signatureAndHashes m) else 0)
     + (if ch_secureRenegotiationSupported m then 1 + length (ch_secureRenegotiation m) else 0)
     + (if 0 < length (ch_alpnProtocols m) then 2 + sum_list (map (\<lambda>s. 1 + length s) (ch_alpnProtocols m)) else 0)"

text \<open>The extensions, one after the other.\<close>

definition ext :: "u16 \<Rightarrow> nat \<Rightarrow> byte list \<Rightarrow> byte list" where
  "ext i l body = u16_bytes (unat i) @ u16_bytes l @ body"

definition write_nextProtoNeg :: "clientHelloMsg \<Rightarrow> byte list" where
  "write_nextProtoNeg m = (if ch_nextProtoNeg m then ext extensionNextProtoNeg 0 [] else [])"

definition write_serverName :: "clientHelloMsg \<Rightarrow> byte list" where
  "write_serverName m =
     (let n = length (ch_serverName m)
      in if 0 < n then ext extensionServerName (n + 5) (u16_bytes (n + 3) @ [0] @ u16_bytes n @ ch_serverName m) else [])"

definition write_ocspStapling :: "clientHelloMsg \<Rightarrow> byte list" where
  "write_ocspStapling m = (if ch_ocspStapling m then ext extensionStatusRequest 5 [1, 0, 0, 0, 0] else [])"

definition write_supportedCurves :: "clientHelloMsg \<Rightarrow> byte list" where
  "write_supportedCurves m =
     (let l = 2 + 2 * length (ch_supportedCurves m)
      in if 0 < length (ch_supportedCurves m)
         then ext extensionSupportedCurves l (u16_bytes (l - 2) @ concat (map u16_word_bytes (ch_supportedCurves m))) else [])"

definition write_supportedPoints :: "clientHelloMsg \<Rightarrow> byte list" where
  "write_supportedPoints m =
     (let l = 1 + length (ch_supportedPoints m)
      in if 0 < length (ch_supportedPoints m) then ext extensionSupportedPoints l (of_nat (l - 1) # ch_supportedPoints m) else [])"

definition write_sessionTicket :: "clientHelloMsg \<Rightarrow> byte list" where
  "write_sessionTicket m =
     (if ch_ticketSupported m then ext extensionSessionTicket (length (ch_sessionTicket m)) (ch_sessionTicket m) else [])"

definition write_signatureAndHashes :: "clientHelloMsg \<Rightarrow> byte list" where
  "write_signatureAndHashes m =
     (let l = 2 + 2 * length (ch_signatureAndHashes m)
      in if 0 < length (ch_signatureAndHashes m)
         then ext extensionSignatureAlgorithms l (u16_bytes (l - 2) @ concat (map sah_bytes (ch_signatureAndHashes m))) else [])"

text \<open>The length of the renegotiation extension goes into its lower byte only.\<close>

definition write_renegotiation :: "byte list \<Rightarrow> byte list" where
  "write_renegotiation x =
     u16_bytes (unat extensionRenegotiationInfo) @ [0, of_nat (length x + 1), of_nat (length x)] @ x"

definition write_secureRenegotiation :: "clientHelloMsg \<Rightarrow> byte list" where
  "write_secureRenegotiation m = (if ch_secureRenegotiationSupported m then write_renegotiation (ch_secureRenegotiation m) else [])"

definition write_alpnProtocols :: "clientHelloMsg \<Rightarrow> byte list" where
  "write_alpnProtocols m =
     (let stringsLength = sum_list (map (\<lambda>s. 1 + length s) (ch_alpnProtocols m))
      in if 0 < length (ch_alpnProtocols m)
         then ext extensionALPN (stringsLength + 2) (u16_bytes stringsLength @ concat (map vec8 (ch_alpnProtocols m))) else [])"

definition write_scts :: "clientHelloMsg \<Rightarrow> byte list" where
  "write_scts m = (if ch_scts m then ext extensionSCT 0 [] else [])"

definition write_client_extensions :: "clientHelloMsg \<Rightarrow> byte list" where
  "write_client_extensions m =
     write_nextProtoNeg m @ write_serverName m @ write_ocspStapling m @ write_supportedCurves m @ write_supportedPoints m
     @ write_sessionTicket m @ write_signatureAndHashes m @ write_secureRenegotiation m @ write_alpnProtocols m @ write_scts m"

text \<open>\<open>None\<close> is the panic on a protocol name that is empty or too long.\<close>

definition clientHello_marshal :: "clientHelloMsg \<Rightarrow> (clientHelloMsg \<times> byte list) option" where
  "clientHello_marshal m =
     (case ch_raw m of Some x \<Rightarrow> Some (m, x)
      | None \<Rightarrow>
          if list_ex (\<lambda>s. length s = 0 \<or> 255 < length s) (ch_alpnProtocols m) then None
          else
            let len = 2 + 32 + 1 + length (ch_sessionId m) + 2 + length (ch_cipherSuites m) * 2 + 1 + length (ch_compressionMethods m);
                numExtensions = ch_numExtensions m;
                extensionsLength = ch_extensionsLength m + 4 * numExtensions;
                len = (if 0 < numExtensions then len + 2 + extensionsLength else len);
                x = filled (4 + len)
                  (handshake_header typeClientHello len @ u16_bytes (unat (ch_vers m)) @ filled 32 (ch_random m)
                   @ vec8 (ch_sessionId m)
                   @ [of_nat (length (ch_cipherSuites m) div 2 ^ 7), of_nat (2 * length (ch_cipherSuites m))]
                   @ concat (map u16_word_bytes (ch_cipherSuites m))
                   @ vec8 (ch_compressionMethods m)
                   @ (if 0 < numExtensions then u16_bytes extensionsLength else [])
                   @ write_client_extensions m)
            in Some (m\<lparr>ch_raw := Some x\<rparr>, x))"

text \<open>The list of names: the first of type 0 counts, and the rest is not read.\<close>

function read_serverName :: "byte list \<Rightarrow> byte list option \<times> bool" where
  "read_serverName d =
     (if d = [] then (None, True)
      else if length d < 3 then (None, False)
      else let nameType = d ! 0; nameLen = u16_val (drop 1 d); d = drop 3 d
           in if length d < nameLen then (None, False)
              else if nameType = 0 then (Some (take nameLen d), True)
              else read_serverName (drop nameLen d))"
  by pat_completeness auto
termination by (relation "measure length") auto

declare read_serverName.simps [simp del]

text \<open>One extension: \<open>n\<close> is its length, and \<open>data\<close> begins with its content.\<close>

definition read_client_extension :: "clientHelloMsg \<Rightarrow> u16 \<Rightarrow> nat \<Rightarrow> byte list \<Rightarrow> clientHelloMsg \<times> bool" where
  "read_client_extension m extension n data =
     (if extension = extensionServerName then
        let d = take n data
        in if length d < 2 then (m, False)
           else if length (drop 2 d) \<noteq> u16_val d then (m, False)
           else case read_serverName (drop 2 d) of
               (None, ok) \<Rightarrow> (m, ok)
             | (Some name, ok) \<Rightarrow> (m\<lparr>ch_serverName := name\<rparr>, ok)
      else if extension = extensionNextProtoNeg then
        if 0 < n then (m, False) else (m\<lparr>ch_nextProtoNeg := True\<rparr>, True)
      else if extension = extensionStatusRequest then
        (m\<lparr>ch_ocspStapling := (0 < n \<and> data ! 0 = statusTypeOCSP)\<rparr>, True)
      else if extension = extensionSupportedCurves then
        if n < 2 then (m, False)
        else let l = u16_val data
             in if odd l \<or> n \<noteq> l + 2 then (m, False)
                else (m\<lparr>ch_supportedCurves := read_u16s (l div 2) (drop 2 data)\<rparr>, True)
      else if extension = extensionSupportedPoints then
        if n < 1 then (m, False)
        else let l = unat (data ! 0)
             in if n \<noteq> l + 1 then (m, False) else (m\<lparr>ch_supportedPoints := take l (drop 1 data)\<rparr>, True)
      else if extension = extensionSessionTicket then
        (m\<lparr>ch_ticketSupported := True, ch_sessionTicket := take n data\<rparr>, True)
      else if extension = extensionSignatureAlgorithms then
        if n < 2 \<or> odd n then (m, False)
        else let l = u16_val data
             in if l \<noteq> n - 2 then (m, False)
                else (m\<lparr>ch_signatureAndHashes := read_sahs (l div 2) (drop 2 data)\<rparr>, True)
      else if extension = extensionRenegotiationInfo then
        if n = 0 then (m, False)
        else let d = take n data; l = unat (d ! 0); d = drop 1 d
             in if l \<noteq> length d then (m, False)
                else (m\<lparr>ch_secureRenegotiation := d, ch_secureRenegotiationSupported := True\<rparr>, True)
      else if extension = extensionALPN then
        if n < 2 then (m, False)
        else let l = u16_val data
             in if l \<noteq> n - 2 then (m, False)
                else case read_names (drop 2 (take n data)) of (names, ok) \<Rightarrow>
                  (m\<lparr>ch_alpnProtocols := ch_alpnProtocols m @ names\<rparr>, ok)
      else if extension = extensionSCT then
        (m\<lparr>ch_scts := True\<rparr>, n = 0)
      else (m, True))"

text \<open>The loop over the extensions of either hello.\<close>

function read_extensions :: "('m \<Rightarrow> u16 \<Rightarrow> nat \<Rightarrow> byte list \<Rightarrow> 'm \<times> bool) \<Rightarrow> 'm \<Rightarrow> byte list \<Rightarrow> 'm \<times> bool" where
  "read_extensions f m data =
     (if data = [] then (m, True)
      else if length data < 4 then (m, False)
      else let extension = of_nat (u16_val data); n = u16_val (drop 2 data); data = drop 4 data
           in if length data < n then (m, False)
              else case f m extension n data of
                  (m, False) \<Rightarrow> (m, False)
                | (m, True) \<Rightarrow> read_extensions f m (drop n data))"
  by pat_completeness auto
termination by (relation "measure (\<lambda>(_, _, data). length data)") auto

declare read_extensions.simps [simp del]

text \<open>What both hellos do after their fields: the extensions are optional.\<close>

definition read_extension_block :: "('m \<Rightarrow> u16 \<Rightarrow> nat \<Rightarrow> byte list \<Rightarrow> 'm \<times> bool) \<Rightarrow> 'm \<Rightarrow> byte list \<Rightarrow> 'm \<times> bool" where
  "read_extension_block f m data =
     (if data = [] then (m, True)
      else if length data < 2 then (m, False)
      else if u16_val data \<noteq> length (drop 2 data) then (m, False)
      else read_extensions f m (drop 2 data))"

definition clientHello_unmarshal :: "clientHelloMsg \<Rightarrow> byte list \<Rightarrow> clientHelloMsg \<times> bool" where
  "clientHello_unmarshal m data =
     (if length data < 42 then (m, False)
      else
        let m = m\<lparr>ch_raw := Some data, ch_vers := of_nat (u16_val (drop 4 data)), ch_random := take 32 (drop 6 data)\<rparr>;
            sessionIdLen = unat (data ! 38)
        in if 32 < sessionIdLen \<or> length data < 39 + sessionIdLen then (m, False)
           else
             let m = m\<lparr>ch_sessionId := take sessionIdLen (drop 39 data)\<rparr>; data = drop (39 + sessionIdLen) data
             in if length data < 2 then (m, False)
                else
                  let cipherSuiteLen = u16_val data
                  in if odd cipherSuiteLen \<or> length data < 2 + cipherSuiteLen then (m, False)
                     else
                       let suites = read_u16s (cipherSuiteLen div 2) (drop 2 data);
                           m = m\<lparr>ch_cipherSuites := suites,
                                 ch_secureRenegotiationSupported := (list_ex (\<lambda>s. s = scsvRenegotiation) suites \<or> ch_secureRenegotiationSupported m)\<rparr>;
                           data = drop (2 + cipherSuiteLen) data
                       in if length data < 1 then (m, False)
                          else
                            let compressionMethodsLen = unat (data ! 0)
                            in if length data < 1 + compressionMethodsLen then (m, False)
                               else
                                 let m = m\<lparr>ch_compressionMethods := take compressionMethodsLen (drop 1 data),
                                       ch_nextProtoNeg := False, ch_serverName := [], ch_ocspStapling := False, ch_ticketSupported := False,
                                       ch_sessionTicket := [], ch_signatureAndHashes := [], ch_alpnProtocols := [], ch_scts := False\<rparr>
                                 in read_extension_block read_client_extension m (drop (1 + compressionMethodsLen) data))"

section \<open>The server's hello\<close>

record serverHelloMsg =
  sh_raw :: "byte list option"
  sh_vers :: u16
  sh_random :: "byte list"
  sh_sessionId :: "byte list"
  sh_cipherSuite :: u16
  sh_compressionMethod :: byte
  sh_nextProtoNeg :: bool
  sh_nextProtos :: "byte list list"
  sh_ocspStapling :: bool
  sh_scts :: "byte list list"
  sh_ticketSupported :: bool
  sh_secureRenegotiation :: "byte list"
  sh_secureRenegotiationSupported :: bool
  sh_alpnProtocol :: "byte list"

definition serverHello_equal :: "serverHelloMsg \<Rightarrow> serverHelloMsg \<Rightarrow> bool" where
  "serverHello_equal m m1 =
     (if \<not> eq_lists (sh_scts m) (sh_scts m1) then False
      else eq_raw (sh_raw m) (sh_raw m1) \<and> sh_vers m = sh_vers m1 \<and> sh_random m = sh_random m1 \<and> sh_sessionId m = sh_sessionId m1
        \<and> sh_cipherSuite m = sh_cipherSuite m1 \<and> sh_compressionMethod m = sh_compressionMethod m1
        \<and> sh_nextProtoNeg m = sh_nextProtoNeg m1 \<and> eq_lists (sh_nextProtos m) (sh_nextProtos m1)
        \<and> sh_ocspStapling m = sh_ocspStapling m1 \<and> sh_ticketSupported m = sh_ticketSupported m1
        \<and> sh_secureRenegotiationSupported m = sh_secureRenegotiationSupported m1
        \<and> sh_secureRenegotiation m = sh_secureRenegotiation m1 \<and> sh_alpnProtocol m = sh_alpnProtocol m1)"

definition nextProtoLen :: "serverHelloMsg \<Rightarrow> nat" where
  "nextProtoLen m = (if sh_nextProtoNeg m then sum_list (map length (sh_nextProtos m)) + length (sh_nextProtos m) else 0)"

definition sctLen :: "serverHelloMsg \<Rightarrow> nat" where
  "sctLen m = sum_list (map (\<lambda>sct. length sct + 2) (sh_scts m))"

definition sh_numExtensions :: "serverHelloMsg \<Rightarrow> nat" where
  "sh_numExtensions m =
     of_bool (sh_nextProtoNeg m) + of_bool (sh_ocspStapling m) + of_bool (sh_ticketSupported m) + of_bool (sh_secureRenegotiationSupported m)
     + of_bool (0 < length (sh_alpnProtocol m)) + of_bool (0 < length (sh_scts m))"

definition sh_extensionsLength :: "serverHelloMsg \<Rightarrow> nat" where
  "sh_extensionsLength m =
     nextProtoLen m + (if sh_secureRenegotiationSupported m then 1 + length (sh_secureRenegotiation m) else 0)
     + (if 0 < length (sh_alpnProtocol m) then 2 + 1 + length (sh_alpnProtocol m) else 0)
     + (if 0 < length (sh_scts m) then 2 + sctLen m else 0)"

definition write_nextProtos :: "serverHelloMsg \<Rightarrow> byte list" where
  "write_nextProtos m =
     (if sh_nextProtoNeg m then
        ext extensionNextProtoNeg (nextProtoLen m) (concat (map (\<lambda>v. vec8 (take (if 255 < length v then 255 else length v) v)) (sh_nextProtos m)))
      else [])"

definition write_server_ocsp :: "serverHelloMsg \<Rightarrow> byte list" where
  "write_server_ocsp m = (if sh_ocspStapling m then ext extensionStatusRequest 0 [] else [])"

definition write_server_ticket :: "serverHelloMsg \<Rightarrow> byte list" where
  "write_server_ticket m = (if sh_ticketSupported m then ext extensionSessionTicket 0 [] else [])"

definition write_server_renegotiation :: "serverHelloMsg \<Rightarrow> byte list" where
  "write_server_renegotiation m = (if sh_secureRenegotiationSupported m then write_renegotiation (sh_secureRenegotiation m) else [])"

definition write_alpnProtocol :: "serverHelloMsg \<Rightarrow> byte list" where
  "write_alpnProtocol m =
     (let alpnLen = length (sh_alpnProtocol m); l = 2 + 1 + alpnLen
      in if 0 < alpnLen then ext extensionALPN l (u16_bytes (l - 2) @ [of_nat (l - 2 - 1)] @ sh_alpnProtocol m) else [])"

definition write_server_scts :: "serverHelloMsg \<Rightarrow> byte list" where
  "write_server_scts m =
     (if 0 < sctLen m then ext extensionSCT (sctLen m + 2) (u16_bytes (sctLen m) @ concat (map vec16 (sh_scts m))) else [])"

definition write_server_extensions :: "serverHelloMsg \<Rightarrow> byte list" where
  "write_server_extensions m =
     write_nextProtos m @ write_server_ocsp m @ write_server_ticket m @ write_server_renegotiation m @ write_alpnProtocol m @ write_server_scts m"

definition serverHello_marshal :: "serverHelloMsg \<Rightarrow> (serverHelloMsg \<times> byte list) option" where
  "serverHello_marshal m =
     (case sh_raw m of Some x \<Rightarrow> Some (m, x)
      | None \<Rightarrow>
          if 256 \<le> length (sh_alpnProtocol m) then None
          else
            let len = 38 + length (sh_sessionId m);
                numExtensions = sh_numExtensions m;
                extensionsLength = sh_extensionsLength m + 4 * numExtensions;
                len = (if 0 < numExtensions then len + 2 + extensionsLength else len);
                x = filled (4 + len)
                  (handshake_header typeServerHello len @ u16_bytes (unat (sh_vers m)) @ filled 32 (sh_random m)
                   @ vec8 (sh_sessionId m) @ u16_bytes (unat (sh_cipherSuite m)) @ [sh_compressionMethod m]
                   @ (if 0 < numExtensions then u16_bytes extensionsLength else [])
                   @ write_server_extensions m)
            in Some (m\<lparr>sh_raw := Some x\<rparr>, x))"

definition read_server_extension :: "serverHelloMsg \<Rightarrow> u16 \<Rightarrow> nat \<Rightarrow> byte list \<Rightarrow> serverHelloMsg \<times> bool" where
  "read_server_extension m extension n data =
     (let d = take n data in
      if extension = extensionNextProtoNeg then
        case read_names d of (names, ok) \<Rightarrow> (m\<lparr>sh_nextProtoNeg := True, sh_nextProtos := sh_nextProtos m @ names\<rparr>, ok)
      else if extension = extensionStatusRequest then
        if 0 < n then (m, False) else (m\<lparr>sh_ocspStapling := True\<rparr>, True)
      else if extension = extensionSessionTicket then
        if 0 < n then (m, False) else (m\<lparr>sh_ticketSupported := True\<rparr>, True)
      else if extension = extensionRenegotiationInfo then
        if n = 0 then (m, False)
        else let l = unat (d ! 0); d = drop 1 d
             in if l \<noteq> length d then (m, False)
                else (m\<lparr>sh_secureRenegotiation := d, sh_secureRenegotiationSupported := True\<rparr>, True)
      else if extension = extensionALPN then
        if length d < 3 then (m, False)
        else if u16_val d \<noteq> length d - 2 then (m, False)
        else let d = drop 2 d; l = unat (d ! 0)
             in if l \<noteq> length d - 1 then (m, False)
                else if drop 1 d = [] then (m, False)
                else (m\<lparr>sh_alpnProtocol := drop 1 d\<rparr>, True)
      else if extension = extensionSCT then
        if length d < 2 then (m, False)
        else let l = u16_val d; d = drop 2 d
             in if length d \<noteq> l \<or> l = 0 then (m, False)
                else case read_items False d of (scts, ok) \<Rightarrow> (m\<lparr>sh_scts := scts\<rparr>, ok)
      else (m, True))"

definition serverHello_unmarshal :: "serverHelloMsg \<Rightarrow> byte list \<Rightarrow> serverHelloMsg \<times> bool" where
  "serverHello_unmarshal m data =
     (if length data < 42 then (m, False)
      else
        let m = m\<lparr>sh_raw := Some data, sh_vers := of_nat (u16_val (drop 4 data)), sh_random := take 32 (drop 6 data)\<rparr>;
            sessionIdLen = unat (data ! 38)
        in if 32 < sessionIdLen \<or> length data < 39 + sessionIdLen then (m, False)
           else
             let m = m\<lparr>sh_sessionId := take sessionIdLen (drop 39 data)\<rparr>; data = drop (39 + sessionIdLen) data
             in if length data < 3 then (m, False)
                else
                  let m = m\<lparr>sh_cipherSuite := of_nat (u16_val data), sh_compressionMethod := data ! 2,
                            sh_nextProtoNeg := False, sh_nextProtos := [], sh_ocspStapling := False, sh_scts := [],
                            sh_ticketSupported := False, sh_alpnProtocol := []\<rparr>
                  in read_extension_block read_server_extension m (drop 3 data))"

section \<open>What was written is read\<close>

lemma length_ext [simp]: "length (ext i l body) = 4 + length body"
  by (simp add: ext_def)

lemma read_ext:
  assumes "length body = l" "l < 2 ^ 16" "f m i l (body @ rest) = (m', True)"
  shows "read_extensions f m (ext i l body @ rest) = read_extensions f m' rest"
proof -
  let ?d = "ext i l body @ rest"
  have v: "(of_nat (u16_val ?d) :: u16) = i" "u16_val (drop 2 ?d) = l" "drop 4 ?d = body @ rest" "\<not> length ?d < 4" "?d \<noteq> []"
    using assms(2) u16_unat [of i] by (simp_all add: ext_def u16_val_bytes) (simp add: u16_bytes_def)
  show ?thesis
    by (subst read_extensions.simps) (simp only: v Let_def if_False assms(3), simp add: assms(1))
qed

lemma read_no_extensions: "read_extensions f m [] = (m, True)"
  by (simp add: read_extensions.simps)

lemma write_renegotiation_ext: "length x < 255 \<Longrightarrow> write_renegotiation x = ext extensionRenegotiationInfo (length x + 1) (vec8 x)"
  by (simp add: write_renegotiation_def ext_def vec8_def u16_bytes_def)

lemma first_u16: "n < 2 ^ 16 \<Longrightarrow> u16_val (u16_bytes n @ x) = n"
  by (rule u16_val_bytes)

definition client_lists_fit :: "clientHelloMsg \<Rightarrow> bool" where
  "client_lists_fit m =
     (length (ch_sessionId m) \<le> 32 \<and> 2 * length (ch_cipherSuites m) < 2 ^ 16 \<and> length (ch_compressionMethods m) < 256
      \<and> length (ch_supportedPoints m) < 256 \<and> length (ch_secureRenegotiation m) < 255
      \<and> list_all (\<lambda>s. s \<noteq> [] \<and> length s < 256) (ch_alpnProtocols m) \<and> ch_extensionsLength m + 4 * ch_numExtensions m < 2 ^ 16)"

text \<open>
  A hello that fits: no cached encoding, lists within their lengths, 32 random bytes, and no value for an extension that is not sent; a client
  that lists the signalling suite supports secure renegotiation.
\<close>

definition clientHello_fits :: "clientHelloMsg \<Rightarrow> bool" where
  "clientHello_fits m =
     (ch_raw m = None \<and> client_lists_fit m \<and> length (ch_random m) = 32
      \<and> (ch_ticketSupported m \<or> ch_sessionTicket m = []) \<and> (ch_secureRenegotiationSupported m \<or> ch_secureRenegotiation m = [])
      \<and> (list_ex (\<lambda>s. s = scsvRenegotiation) (ch_cipherSuites m) \<longrightarrow> ch_secureRenegotiationSupported m))"

definition clientHello_new :: clientHelloMsg where
  "clientHello_new = \<lparr>ch_raw = None, ch_vers = 0, ch_random = [], ch_sessionId = [], ch_cipherSuites = [], ch_compressionMethods = [],
     ch_nextProtoNeg = False, ch_serverName = [], ch_ocspStapling = False, ch_scts = False, ch_supportedCurves = [], ch_supportedPoints = [],
     ch_ticketSupported = False, ch_sessionTicket = [], ch_signatureAndHashes = [], ch_secureRenegotiation = [],
     ch_secureRenegotiationSupported = False, ch_alpnProtocols = []\<rparr>"

lemma client_lengths:
  assumes "client_lists_fit m"
  shows "length (ch_serverName m) + 5 < 2 ^ 16" "2 + 2 * length (ch_supportedCurves m) < 2 ^ 16" "2 + 2 * length (ch_signatureAndHashes m) < 2 ^ 16"
    "ch_ticketSupported m \<Longrightarrow> length (ch_sessionTicket m) < 2 ^ 16" "2 + sum_list (map (\<lambda>s. 1 + length s) (ch_alpnProtocols m)) < 2 ^ 16"
  using assms unfolding client_lists_fit_def ch_extensionsLength_def by (auto split: if_splits)

lemma length_client_extensions:
  assumes "client_lists_fit m"
  shows "length (write_client_extensions m) = ch_extensionsLength m + 4 * ch_numExtensions m"
  using assms unfolding client_lists_fit_def write_client_extensions_def ch_extensionsLength_def ch_numExtensions_def
  by (simp add: write_nextProtoNeg_def write_serverName_def write_ocspStapling_def write_supportedCurves_def write_supportedPoints_def write_sessionTicket_def
      write_signatureAndHashes_def write_secureRenegotiation_def write_alpnProtocols_def write_scts_def write_renegotiation_ext length_concat_vec Let_def)


lemma read_nextProtoNeg:
  "\<not> ch_nextProtoNeg r \<Longrightarrow> read_extensions read_client_extension r (write_nextProtoNeg m @ rest)
     = read_extensions read_client_extension (r\<lparr>ch_nextProtoNeg := ch_nextProtoNeg m\<rparr>) rest"
  by (cases r) (simp add: write_nextProtoNeg_def read_ext read_client_extension_def extension_ids)

lemma read_serverName_step:
  assumes "client_lists_fit m" "ch_serverName r = []"
  shows "read_extensions read_client_extension r (write_serverName m @ rest) = read_extensions read_client_extension (r\<lparr>ch_serverName := ch_serverName m\<rparr>) rest"
proof (cases "ch_serverName m = []")
  case False
  let ?n = "length (ch_serverName m)" let ?d = "0 # u16_bytes ?n @ ch_serverName m"
  have n: "?n + 3 < 2 ^ 16" "?n < 2 ^ 16" using client_lengths(1) [OF assms(1)] by simp_all
  have "read_serverName ?d = (Some (ch_serverName m), True)"
    by (subst read_serverName.simps) (simp add: Let_def first_u16 [OF n(2)])
  moreover have "take (3 + ?n) (0 # u16_bytes ?n @ ch_serverName m @ rest) = ?d" by (simp add: take_Cons')
  ultimately have "read_client_extension r extensionServerName (?n + 5) ((u16_bytes (?n + 3) @ ?d) @ rest) = (r\<lparr>ch_serverName := ch_serverName m\<rparr>, True)"
    by (simp add: read_client_extension_def Let_def first_u16 [OF n(1)])
  then show ?thesis using False client_lengths(1) [OF assms(1)] by (simp add: write_serverName_def Let_def read_ext)
qed (use assms(2) in \<open>cases r; simp add: write_serverName_def\<close>)

lemma read_ocspStapling:
  "\<not> ch_ocspStapling r \<Longrightarrow> read_extensions read_client_extension r (write_ocspStapling m @ rest)
     = read_extensions read_client_extension (r\<lparr>ch_ocspStapling := ch_ocspStapling m\<rparr>) rest"
  by (cases r) (simp add: write_ocspStapling_def read_ext read_client_extension_def extension_ids statusTypeOCSP_def)

lemma read_supportedCurves:
  "client_lists_fit m \<Longrightarrow> ch_supportedCurves r = [] \<Longrightarrow> read_extensions read_client_extension r (write_supportedCurves m @ rest)
     = read_extensions read_client_extension (r\<lparr>ch_supportedCurves := ch_supportedCurves m\<rparr>) rest"
  using client_lengths(2) [of m]
  by (cases r) (auto simp: write_supportedCurves_def read_ext read_client_extension_def extension_ids Let_def first_u16 read_u16s_bytes)

lemma read_supportedPoints:
  "client_lists_fit m \<Longrightarrow> ch_supportedPoints r = [] \<Longrightarrow> read_extensions read_client_extension r (write_supportedPoints m @ rest)
     = read_extensions read_client_extension (r\<lparr>ch_supportedPoints := ch_supportedPoints m\<rparr>) rest"
  by (cases r) (auto simp: write_supportedPoints_def read_ext read_client_extension_def extension_ids Let_def unat_length_byte client_lists_fit_def)

lemma read_sessionTicket:
  "client_lists_fit m \<Longrightarrow> \<not> ch_ticketSupported r \<Longrightarrow> ch_sessionTicket r = [] \<Longrightarrow> ch_ticketSupported m \<or> ch_sessionTicket m = [] \<Longrightarrow>
     read_extensions read_client_extension r (write_sessionTicket m @ rest)
     = read_extensions read_client_extension (r\<lparr>ch_ticketSupported := ch_ticketSupported m, ch_sessionTicket := ch_sessionTicket m\<rparr>) rest"
  using client_lengths(4) [of m]
  by (cases r) (auto simp: write_sessionTicket_def read_ext read_client_extension_def extension_ids)

lemma read_signatureAndHashes:
  "client_lists_fit m \<Longrightarrow> ch_signatureAndHashes r = [] \<Longrightarrow> read_extensions read_client_extension r (write_signatureAndHashes m @ rest)
     = read_extensions read_client_extension (r\<lparr>ch_signatureAndHashes := ch_signatureAndHashes m\<rparr>) rest"
  using client_lengths(3) [of m]
  by (cases r) (auto simp: write_signatureAndHashes_def read_ext read_client_extension_def extension_ids Let_def first_u16 read_sahs_bytes)

lemma read_secureRenegotiation:
  "client_lists_fit m \<Longrightarrow> (ch_secureRenegotiationSupported r \<longrightarrow> ch_secureRenegotiationSupported m) \<Longrightarrow> ch_secureRenegotiation r = [] \<Longrightarrow>
     ch_secureRenegotiationSupported m \<or> ch_secureRenegotiation m = [] \<Longrightarrow>
     read_extensions read_client_extension r (write_secureRenegotiation m @ rest)
     = read_extensions read_client_extension (r\<lparr>ch_secureRenegotiation := ch_secureRenegotiation m, ch_secureRenegotiationSupported := ch_secureRenegotiationSupported m\<rparr>) rest"
  by (cases r) (auto simp: write_secureRenegotiation_def write_renegotiation_ext read_ext read_client_extension_def extension_ids Let_def client_lists_fit_def
      vec8_def unat_length_byte)

lemma read_alpnProtocols:
  "client_lists_fit m \<Longrightarrow> ch_alpnProtocols r = [] \<Longrightarrow> read_extensions read_client_extension r (write_alpnProtocols m @ rest)
     = read_extensions read_client_extension (r\<lparr>ch_alpnProtocols := ch_alpnProtocols m\<rparr>) rest"
  using client_lengths(5) [of m]
  by (cases r) (auto simp: write_alpnProtocols_def read_ext read_client_extension_def extension_ids Let_def first_u16 length_concat_vec read_names_vec client_lists_fit_def)

lemma read_scts:
  "\<not> ch_scts r \<Longrightarrow> read_extensions read_client_extension r (write_scts m)
     = (r\<lparr>ch_scts := ch_scts m\<rparr>, True)"
  using read_ext [of "[]" 0 read_client_extension r extensionSCT "[]" "r\<lparr>ch_scts := True\<rparr>"]
  by (cases r) (simp add: write_scts_def read_client_extension_def extension_ids read_no_extensions)

lemmas read_client_steps = read_nextProtoNeg read_serverName_step read_ocspStapling read_supportedCurves read_supportedPoints read_sessionTicket
  read_signatureAndHashes read_secureRenegotiation read_alpnProtocols read_scts

lemma read_client_block:
  assumes "client_lists_fit m" "ch_ticketSupported m \<or> ch_sessionTicket m = []" "ch_secureRenegotiationSupported m \<or> ch_secureRenegotiation m = []"
    and "r = \<lparr>ch_raw = x, ch_vers = ch_vers m, ch_random = ch_random m, ch_sessionId = ch_sessionId m, ch_cipherSuites = ch_cipherSuites m,
      ch_compressionMethods = ch_compressionMethods m, ch_nextProtoNeg = False, ch_serverName = [], ch_ocspStapling = False, ch_scts = False,
      ch_supportedCurves = [], ch_supportedPoints = [], ch_ticketSupported = False, ch_sessionTicket = [], ch_signatureAndHashes = [],
      ch_secureRenegotiation = [], ch_secureRenegotiationSupported = b, ch_alpnProtocols = []\<rparr>"
    and "b \<longrightarrow> ch_secureRenegotiationSupported m"
  shows "read_extensions read_client_extension r (write_client_extensions m) = (m\<lparr>ch_raw := x\<rparr>, True)"
  unfolding write_client_extensions_def append_assoc assms(4) using assms(1-3,5)
  by (simp add: read_client_steps)

lemma no_client_extensions: "client_lists_fit m \<Longrightarrow> ch_numExtensions m = 0 \<Longrightarrow> write_client_extensions m = []"
  using length_client_extensions [of m] by (simp add: ch_extensionsLength_def ch_numExtensions_def split: if_splits)

lemma hello_prefix:
  fixes t :: byte and n :: nat and v :: u16 and rest :: "byte list"
  assumes "length r = 32" "length s \<le> 32"
  defines "x \<equiv> handshake_header t n @ u16_bytes (unat v) @ r @ vec8 s @ rest"
  shows "(of_nat (u16_val (drop 4 x)) :: u16) = v" "take 32 (drop 6 x) = r" "unat (x ! 38) = length s" "take (length s) (drop 39 x) = s"
    "drop (39 + length s) x = rest" "length x = 39 + length s + length rest"
proof -
  have d: "drop 4 x = u16_bytes (unat v) @ r @ vec8 s @ rest" "drop 6 x = r @ vec8 s @ rest" by (simp_all add: x_def)
  have e: "drop 38 x = vec8 s @ rest" "drop 39 x = s @ rest" using assms(1) by (simp_all add: x_def vec8_def)
  show "(of_nat (u16_val (drop 4 x)) :: u16) = v" "take 32 (drop 6 x) = r" "length x = 39 + length s + length rest"
    using assms(1) unfolding d by (simp_all add: u16_unat x_def)
  show "take (length s) (drop 39 x) = s" unfolding e by simp
  have "drop (39 + length s) x = drop (length s) (drop 39 x)" by (simp add: add.commute)
  then show "drop (39 + length s) x = rest" unfolding e by simp
  have "38 \<le> length x" using assms(1) by (simp add: x_def)
  then have "x ! 38 = drop 38 x ! 0" by simp
  then show "unat (x ! 38) = length s" unfolding e using assms(2) by (simp add: vec8_def unat_length_byte)
qed

lemma read_extension_block_bytes:
  assumes "length y = l" "l < 2 ^ 16" "read_extensions f m y = r" "y = [] \<Longrightarrow> k = 0" "0 < k \<or> y = []"
  shows "read_extension_block f m ((if 0 < (k :: nat) then u16_bytes l else []) @ y) = r"
proof (cases "y = []")
  case True
  then show ?thesis using assms(3-5) by (simp add: read_extension_block_def read_no_extensions)
next
  case False
  then have "0 < k" using assms(5) by simp
  moreover have "u16_bytes l @ y \<noteq> []" "\<not> length (u16_bytes l @ y) < 2" "u16_val (u16_bytes l @ y) = length (drop 2 (u16_bytes l @ y))"
    "drop 2 (u16_bytes l @ y) = y" using assms(1,2) False by (simp_all add: u16_val_bytes)
  ultimately show ?thesis using assms(3) unfolding read_extension_block_def by (simp only: if_True if_False simp_thms)
qed

lemma suites_header: "[of_nat (n div 2 ^ 7), of_nat (2 * n)] = u16_bytes (2 * n)"
proof -
  have e: "2 * n div 256 = n div 2 ^ 7" by simp
  show ?thesis unfolding u16_bytes_def e ..
qed

lemma client_roundtrip:
  assumes "clientHello_fits m"
  shows "\<exists>m' x. clientHello_marshal m = Some (m', x) \<and> framed typeClientHello x \<and> clientHello_unmarshal clientHello_new x = (m', True)"
proof -
  let ?e = "ch_extensionsLength m + 4 * ch_numExtensions m" and ?k = "ch_numExtensions m"
  let ?block = "(if 0 < ?k then u16_bytes ?e else []) @ write_client_extensions m"
  let ?c = "concat (map u16_word_bytes (ch_cipherSuites m))"
  let ?s = "u16_bytes (2 * length (ch_cipherSuites m)) @ ?c @ vec8 (ch_compressionMethods m) @ ?block"
  let ?body = "u16_bytes (unat (ch_vers m)) @ ch_random m @ vec8 (ch_sessionId m) @ ?s"
  let ?x = "handshake_header typeClientHello (length ?body) @ ?body"
  have f: "client_lists_fit m" "ch_raw m = None" "length (ch_random m) = 32" "length (ch_sessionId m) \<le> 32"
    "2 * length (ch_cipherSuites m) < 2 ^ 16" "length (ch_compressionMethods m) < 256" "?e < 2 ^ 16"
    "list_all (\<lambda>s. s \<noteq> [] \<and> length s < 256) (ch_alpnProtocols m)"
    using assms by (simp_all add: clientHello_fits_def client_lists_fit_def)
  have ext: "length (write_client_extensions m) = ?e" "?k = 0 \<Longrightarrow> write_client_extensions m = []"
    using length_client_extensions [OF f(1)] no_client_extensions [OF f(1)] by simp_all
  have k: "write_client_extensions m = [] \<Longrightarrow> ?k = 0" "0 < ?k \<or> write_client_extensions m = []" using ext by auto
  have "\<not> (length s = 0 \<or> 255 < length s)" if "s \<in> set (ch_alpnProtocols m)" for s using f(8) that by (auto simp: list_all_iff)
  then have "\<not> list_ex (\<lambda>s. length s = 0 \<or> 255 < length s) (ch_alpnProtocols m)" unfolding list_ex_iff by blast
  then have marshal: "clientHello_marshal m = Some (m\<lparr>ch_raw := Some ?x\<rparr>, ?x)"
    unfolding clientHello_marshal_def Let_def suites_header using f(2,3) ext by (auto simp: add_ac mult.commute)
  have len: "length ?body < 2 ^ 24" using f(3-7) ext(1) by simp
  have p: "(of_nat (u16_val (drop 4 ?x)) :: u16) = ch_vers m" "take 32 (drop 6 ?x) = ch_random m" "unat (?x ! 38) = length (ch_sessionId m)"
    "take (length (ch_sessionId m)) (drop 39 ?x) = ch_sessionId m" "drop (39 + length (ch_sessionId m)) ?x = ?s"
    "length ?x = 39 + length (ch_sessionId m) + length ?s"
    by (rule hello_prefix [OF f(3,4)])+
  have s: "u16_val ?s = 2 * length (ch_cipherSuites m)" "drop 2 ?s = ?c @ vec8 (ch_compressionMethods m) @ ?block"
    "drop (2 + 2 * length (ch_cipherSuites m)) ?s = vec8 (ch_compressionMethods m) @ ?block"
    "\<not> length ?s < 2" "\<not> (odd (2 * length (ch_cipherSuites m)) \<or> length ?s < 2 + 2 * length (ch_cipherSuites m))"
    using first_u16 [OF f(5)] by simp_all
  have r: "read_u16s (2 * length (ch_cipherSuites m) div 2) (?c @ vec8 (ch_compressionMethods m) @ ?block) = ch_cipherSuites m"
    using read_u16s_bytes by simp
  let ?v = "vec8 (ch_compressionMethods m) @ ?block"
  have c: "unat (?v ! 0) = length (ch_compressionMethods m)" "take (length (ch_compressionMethods m)) (drop 1 ?v) = ch_compressionMethods m"
    "drop (1 + length (ch_compressionMethods m)) ?v = ?block" "\<not> length ?v < 1" "\<not> length ?v < 1 + length (ch_compressionMethods m)"
    using f(6) by (simp_all add: vec8_def unat_length_byte)
  have big: "\<not> length ?x < 42" "\<not> (32 < length (ch_sessionId m) \<or> length ?x < 39 + length (ch_sessionId m))" unfolding p(6) using f(4) by simp_all
  have "clientHello_unmarshal clientHello_new ?x = (m\<lparr>ch_raw := Some ?x\<rparr>, True)"
    unfolding clientHello_unmarshal_def if_not_P [OF big(1)] Let_def p(1-5) if_not_P [OF big(2)] if_not_P [OF s(4)] s(1-3) if_not_P [OF s(5)] r
      if_not_P [OF c(4)] c(1-3) if_not_P [OF c(5)]
    by (rule read_extension_block_bytes [OF ext(1) f(7) _ k], rule read_client_block [OF f(1)])
      (use assms in \<open>auto simp: clientHello_fits_def clientHello_new_def\<close>)
  then show ?thesis unfolding marshal using message_framed [OF refl len] by blast
qed

text \<open>The server's hello: protocol names are cut at 255 bytes, which a hello that fits does not need.\<close>

definition server_lists_fit :: "serverHelloMsg \<Rightarrow> bool" where
  "server_lists_fit m =
     (length (sh_sessionId m) \<le> 32 \<and> length (sh_secureRenegotiation m) < 255 \<and> length (sh_alpnProtocol m) < 256
      \<and> list_all (\<lambda>s. s \<noteq> [] \<and> length s < 256) (sh_nextProtos m) \<and> list_all (\<lambda>s. s \<noteq> [] \<and> length s < 2 ^ 16) (sh_scts m)
      \<and> sh_extensionsLength m + 4 * sh_numExtensions m < 2 ^ 16)"

definition serverHello_fits :: "serverHelloMsg \<Rightarrow> bool" where
  "serverHello_fits m =
     (sh_raw m = None \<and> server_lists_fit m \<and> length (sh_random m) = 32
      \<and> (sh_nextProtoNeg m \<or> sh_nextProtos m = []) \<and> (sh_secureRenegotiationSupported m \<or> sh_secureRenegotiation m = []))"

definition serverHello_new :: serverHelloMsg where
  "serverHello_new = \<lparr>sh_raw = None, sh_vers = 0, sh_random = [], sh_sessionId = [], sh_cipherSuite = 0, sh_compressionMethod = 0,
     sh_nextProtoNeg = False, sh_nextProtos = [], sh_ocspStapling = False, sh_scts = [], sh_ticketSupported = False,
     sh_secureRenegotiation = [], sh_secureRenegotiationSupported = False, sh_alpnProtocol = []\<rparr>"

lemma whole_names: "list_all (\<lambda>s. s \<noteq> [] \<and> length s < 256) vs \<Longrightarrow>
    concat (map (\<lambda>v. vec8 (take (if 255 < length v then 255 else length v) v)) vs) = concat (map vec8 vs)"
  by (induction vs) simp_all

lemma nextProtoLen_eq: "sh_nextProtoNeg m \<Longrightarrow> nextProtoLen m = length (concat (map vec8 (sh_nextProtos m)))"
proof -
  have "sum_list (map length xs) + length xs = sum_list (map (\<lambda>x. 1 + length x) xs)" for xs :: "byte list list" by (induction xs) simp_all
  then show "sh_nextProtoNeg m \<Longrightarrow> ?thesis" by (simp only: nextProtoLen_def length_concat_vec if_True)
qed

lemma sctLen_eq: "sctLen m = length (concat (map vec16 (sh_scts m)))"
  unfolding sctLen_def length_concat_vec by (simp add: add.commute)

lemma sctLen_pos: "0 < sctLen m \<longleftrightarrow> sh_scts m \<noteq> []"
  by (cases "sh_scts m") (simp_all add: sctLen_def)

lemma server_lengths:
  assumes "server_lists_fit m"
  shows "sh_nextProtoNeg m \<Longrightarrow> nextProtoLen m < 2 ^ 16" "2 + 1 + length (sh_alpnProtocol m) < 2 ^ 16" "sctLen m + 2 < 2 ^ 16"
proof -
  have "nextProtoLen m < 2 ^ 16 \<and> 2 + 1 + length (sh_alpnProtocol m) < 2 ^ 16 \<and> (sh_scts m \<noteq> [] \<longrightarrow> sctLen m + 2 < 2 ^ 16)"
    using assms unfolding server_lists_fit_def sh_extensionsLength_def by (auto split: if_splits)
  moreover have "sh_scts m = [] \<Longrightarrow> sctLen m = 0" by (simp add: sctLen_def)
  ultimately show "sh_nextProtoNeg m \<Longrightarrow> nextProtoLen m < 2 ^ 16" "2 + 1 + length (sh_alpnProtocol m) < 2 ^ 16" "sctLen m + 2 < 2 ^ 16" by auto
qed

lemma length_server_extensions:
  assumes "server_lists_fit m"
  shows "length (write_server_extensions m) = sh_extensionsLength m + 4 * sh_numExtensions m"
proof -
  have "list_all (\<lambda>s. s \<noteq> [] \<and> length s < 256) (sh_nextProtos m)" "length (sh_secureRenegotiation m) < 255"
    using assms by (simp_all add: server_lists_fit_def)
  moreover have "length (write_nextProtos m) = nextProtoLen m + 4 * of_bool (sh_nextProtoNeg m)"
    using whole_names [OF calculation(1)] nextProtoLen_eq [of m] by (simp add: write_nextProtos_def) (simp add: nextProtoLen_def)
  moreover have "length (write_server_scts m) = (if sh_scts m \<noteq> [] then 2 + sctLen m + 4 else 0)"
    using sctLen_pos [of m] by (simp add: write_server_scts_def flip: sctLen_eq)
  ultimately show ?thesis
    by (simp add: write_server_extensions_def sh_extensionsLength_def sh_numExtensions_def write_server_ocsp_def write_server_ticket_def
        write_server_renegotiation_def write_alpnProtocol_def write_renegotiation_ext Let_def)
qed

lemma read_nextProtos:
  assumes "server_lists_fit m" "\<not> sh_nextProtoNeg r" "sh_nextProtos r = []" "sh_nextProtoNeg m \<or> sh_nextProtos m = []"
  shows "read_extensions read_server_extension r (write_nextProtos m @ rest)
    = read_extensions read_server_extension (r\<lparr>sh_nextProtoNeg := sh_nextProtoNeg m, sh_nextProtos := sh_nextProtos m\<rparr>) rest"
proof (cases "sh_nextProtoNeg m")
  case True
  have l: "list_all (\<lambda>s. s \<noteq> [] \<and> length s < 256) (sh_nextProtos m)" using assms(1) by (simp add: server_lists_fit_def)
  have "read_server_extension r extensionNextProtoNeg (nextProtoLen m) (concat (map vec8 (sh_nextProtos m)) @ rest)
      = (r\<lparr>sh_nextProtoNeg := True, sh_nextProtos := sh_nextProtos m\<rparr>, True)"
    using assms(3) by (simp add: read_server_extension_def nextProtoLen_eq [OF True] read_names_vec [OF l])
  then show ?thesis
    using True read_ext [OF nextProtoLen_eq [OF True, symmetric] server_lengths(1) [OF assms(1) True]]
    by (simp add: write_nextProtos_def whole_names [OF l])
qed (use assms in \<open>cases r; simp add: write_nextProtos_def\<close>)

lemma read_server_ocsp:
  "\<not> sh_ocspStapling r \<Longrightarrow> read_extensions read_server_extension r (write_server_ocsp m @ rest)
     = read_extensions read_server_extension (r\<lparr>sh_ocspStapling := sh_ocspStapling m\<rparr>) rest"
  by (cases r) (simp add: write_server_ocsp_def read_ext read_server_extension_def extension_ids)

lemma read_server_ticket:
  "\<not> sh_ticketSupported r \<Longrightarrow> read_extensions read_server_extension r (write_server_ticket m @ rest)
     = read_extensions read_server_extension (r\<lparr>sh_ticketSupported := sh_ticketSupported m\<rparr>) rest"
  by (cases r) (simp add: write_server_ticket_def read_ext read_server_extension_def extension_ids)

lemma read_server_renegotiation:
  "server_lists_fit m \<Longrightarrow> \<not> sh_secureRenegotiationSupported r \<Longrightarrow> sh_secureRenegotiation r = [] \<Longrightarrow>
     sh_secureRenegotiationSupported m \<or> sh_secureRenegotiation m = [] \<Longrightarrow>
     read_extensions read_server_extension r (write_server_renegotiation m @ rest)
     = read_extensions read_server_extension (r\<lparr>sh_secureRenegotiation := sh_secureRenegotiation m, sh_secureRenegotiationSupported := sh_secureRenegotiationSupported m\<rparr>) rest"
  by (cases r) (auto simp: write_server_renegotiation_def write_renegotiation_ext read_ext read_server_extension_def extension_ids Let_def server_lists_fit_def
      vec8_def unat_length_byte)

lemma read_alpnProtocol:
  assumes "server_lists_fit m" "sh_alpnProtocol r = []"
  shows "read_extensions read_server_extension r (write_alpnProtocol m @ rest)
    = read_extensions read_server_extension (r\<lparr>sh_alpnProtocol := sh_alpnProtocol m\<rparr>) rest"
proof (cases "sh_alpnProtocol m = []")
  case False
  let ?n = "length (sh_alpnProtocol m)" let ?b = "u16_bytes (1 + ?n) @ of_nat ?n # sh_alpnProtocol m"
  have n: "1 + ?n < 2 ^ 16" "?n < 256" using assms(1) by (simp_all add: server_lists_fit_def)
  have "take (3 + ?n) (?b @ rest) = ?b" by (simp add: take_Cons')
  then have "read_server_extension r extensionALPN (3 + ?n) (?b @ rest) = (r\<lparr>sh_alpnProtocol := sh_alpnProtocol m\<rparr>, True)"
    unfolding read_server_extension_def Let_def using False first_u16 [OF n(1)] n(2) by (simp add: extension_ids unat_length_byte)
  then show ?thesis using False read_ext [of ?b "3 + ?n" read_server_extension r extensionALPN rest] n(2)
    by (simp add: write_alpnProtocol_def Let_def)
qed (use assms in \<open>cases r; simp add: write_alpnProtocol_def\<close>)

lemma read_server_scts:
  assumes "server_lists_fit m" "sh_scts r = []"
  shows "read_extensions read_server_extension r (write_server_scts m) = (r\<lparr>sh_scts := sh_scts m\<rparr>, True)"
proof (cases "sh_scts m = []")
  case True
  then show ?thesis using assms(2) sctLen_pos [of m] by (cases r) (simp add: write_server_scts_def read_no_extensions)
next
  case False
  let ?c = "concat (map vec16 (sh_scts m))" let ?b = "u16_bytes (sctLen m) @ ?c"
  have l: "list_all (\<lambda>x. (x \<noteq> [] \<or> False) \<and> length x < 2 ^ 16) (sh_scts m)" using assms(1) by (simp add: server_lists_fit_def)
  have n: "sctLen m < 2 ^ 16" "0 < sctLen m" "length ?b = sctLen m + 2" using server_lengths(3) [OF assms(1)] False sctLen_pos [of m] by (simp_all add: sctLen_eq)
  have "read_server_extension r extensionSCT (sctLen m + 2) (?b @ []) = (r\<lparr>sh_scts := sh_scts m\<rparr>, True)"
    unfolding read_server_extension_def Let_def append_Nil2 take_all [OF eq_imp_le [OF n(3)]] first_u16 [OF n(1)]
    using n(2) read_items_vec [OF l] by (simp add: extension_ids flip: sctLen_eq)
  from read_ext [of ?b "sctLen m + 2" read_server_extension r extensionSCT "[]", OF n(3) server_lengths(3) [OF assms(1)] this] show ?thesis
    using n(2) by (simp add: write_server_scts_def read_no_extensions)
qed

lemmas read_server_steps = read_nextProtos read_server_ocsp read_server_ticket read_server_renegotiation read_alpnProtocol read_server_scts

lemma read_server_block:
  assumes "server_lists_fit m" "sh_nextProtoNeg m \<or> sh_nextProtos m = []" "sh_secureRenegotiationSupported m \<or> sh_secureRenegotiation m = []"
    and "r = \<lparr>sh_raw = x, sh_vers = sh_vers m, sh_random = sh_random m, sh_sessionId = sh_sessionId m, sh_cipherSuite = sh_cipherSuite m,
      sh_compressionMethod = sh_compressionMethod m, sh_nextProtoNeg = False, sh_nextProtos = [], sh_ocspStapling = False, sh_scts = [],
      sh_ticketSupported = False, sh_secureRenegotiation = [], sh_secureRenegotiationSupported = False, sh_alpnProtocol = []\<rparr>"
  shows "read_extensions read_server_extension r (write_server_extensions m) = (m\<lparr>sh_raw := x\<rparr>, True)"
  unfolding write_server_extensions_def append_assoc assms(4) using assms(1-3)
  by (simp add: read_server_steps)

lemma server_roundtrip:
  assumes "serverHello_fits m"
  shows "\<exists>m' x. serverHello_marshal m = Some (m', x) \<and> framed typeServerHello x \<and> serverHello_unmarshal serverHello_new x = (m', True)"
proof -
  let ?k = "sh_numExtensions m" let ?e = "sh_extensionsLength m + 4 * ?k"
  let ?block = "(if 0 < ?k then u16_bytes ?e else []) @ write_server_extensions m"
  let ?s = "u16_bytes (unat (sh_cipherSuite m)) @ [sh_compressionMethod m] @ ?block"
  let ?body = "u16_bytes (unat (sh_vers m)) @ sh_random m @ vec8 (sh_sessionId m) @ ?s"
  let ?x = "handshake_header typeServerHello (length ?body) @ ?body"
  have f: "server_lists_fit m" "sh_raw m = None" "length (sh_random m) = 32" "length (sh_sessionId m) \<le> 32" "?e < 2 ^ 16" "length (sh_alpnProtocol m) < 256"
    using assms by (simp_all add: serverHello_fits_def server_lists_fit_def)
  have ext: "length (write_server_extensions m) = ?e" by (rule length_server_extensions [OF f(1)])
  have zero: "?k = 0 \<Longrightarrow> sh_extensionsLength m = 0" by (auto simp: sh_numExtensions_def sh_extensionsLength_def nextProtoLen_def split: if_splits)
  have k: "write_server_extensions m = [] \<Longrightarrow> ?k = 0" using ext by simp
  have k0: "0 < ?k \<or> write_server_extensions m = []" using ext zero by (cases "?k = 0") simp_all
  have marshal: "serverHello_marshal m = Some (m\<lparr>sh_raw := Some ?x\<rparr>, ?x)"
    unfolding serverHello_marshal_def Let_def using f(2,3,6) ext zero by (auto simp: add_ac)
  have len: "length ?body < 2 ^ 24" using f(3-5) ext by simp
  have p: "(of_nat (u16_val (drop 4 ?x)) :: u16) = sh_vers m" "take 32 (drop 6 ?x) = sh_random m" "unat (?x ! 38) = length (sh_sessionId m)"
    "take (length (sh_sessionId m)) (drop 39 ?x) = sh_sessionId m" "drop (39 + length (sh_sessionId m)) ?x = ?s"
    "length ?x = 39 + length (sh_sessionId m) + length ?s"
    by (rule hello_prefix [OF f(3,4)])+
  have s: "(of_nat (u16_val ?s) :: u16) = sh_cipherSuite m" "?s ! 2 = sh_compressionMethod m" "drop 3 ?s = ?block" "\<not> length ?s < 3"
    using u16_unat [of "sh_cipherSuite m"] by (simp_all add: nth_append)
  have big: "\<not> (32 < length (sh_sessionId m) \<or> length ?x < 39 + length (sh_sessionId m))" unfolding p(6) using f(4) by simp
  show ?thesis
  proof (cases "length ?x < 42")
    case False
    have "serverHello_unmarshal serverHello_new ?x = (m\<lparr>sh_raw := Some ?x\<rparr>, True)"
      unfolding serverHello_unmarshal_def if_not_P [OF False] Let_def p(1-5) if_not_P [OF big] if_not_P [OF s(4)] s(1-3)
      by (rule read_extension_block_bytes [OF ext f(5) _ k k0], rule read_server_block [OF f(1)])
        (use assms in \<open>auto simp: serverHello_fits_def serverHello_new_def\<close>)
    then show ?thesis unfolding marshal using message_framed [OF refl len] by blast
  qed (use s(4) p(6) in linarith)
qed

interpretation clientHello: handshake_codec typeClientHello clientHello_marshal clientHello_unmarshal clientHello_new clientHello_fits
  by unfold_locales (rule client_roundtrip)

interpretation serverHello: handshake_codec typeServerHello serverHello_marshal serverHello_unmarshal serverHello_new serverHello_fits
  by unfold_locales (rule server_roundtrip)

end
