(* ===== verification/Tls_Handshake.thy ===== *)
theory Tls_Handshake
  imports Tls_Messages Tls_Hello Tls_Stream
begin

text \<open>
  Handshake messages on a connection (\<open>readHandshake\<close> of conn.go): the next message is cut from the bytes that the handshake
  records brought, its type selects the decoder, and the alerts that are sent when it is not in order.
\<close>

section \<open>The messages of the protocol\<close>

datatype handshakeMessage =
    HelloRequest helloRequestMsg
  | ClientHello clientHelloMsg
  | ServerHello serverHelloMsg
  | NewSessionTicket newSessionTicketMsg
  | Certificate certificateMsg
  | CertificateRequest certificateRequestMsg
  | CertificateStatus certificateStatusMsg
  | ServerKeyExchange serverKeyExchangeMsg
  | ServerHelloDone serverHelloDoneMsg
  | ClientKeyExchange clientKeyExchangeMsg
  | CertificateVerify certificateVerifyMsg
  | NextProtocol nextProtoMsg
  | Finished finishedMsg

text \<open>The call of the method \<open>marshal\<close> and \<open>unmarshal\<close> of an object; \<open>None\<close> is the panic.\<close>

fun message_marshal :: "handshakeMessage \<Rightarrow> (handshakeMessage \<times> byte list) option" where
  "message_marshal (HelloRequest m) = Some (apfst HelloRequest (helloRequest_marshal m))"
| "message_marshal (ClientHello m) = map_option (apfst ClientHello) (clientHello_marshal m)"
| "message_marshal (ServerHello m) = map_option (apfst ServerHello) (serverHello_marshal m)"
| "message_marshal (NewSessionTicket m) = Some (apfst NewSessionTicket (newSessionTicket_marshal m))"
| "message_marshal (Certificate m) = Some (apfst Certificate (certificate_marshal m))"
| "message_marshal (CertificateRequest m) = Some (apfst CertificateRequest (certificateRequest_marshal m))"
| "message_marshal (CertificateStatus m) = Some (apfst CertificateStatus (certificateStatus_marshal m))"
| "message_marshal (ServerKeyExchange m) = Some (apfst ServerKeyExchange (serverKeyExchange_marshal m))"
| "message_marshal (ServerHelloDone m) = Some (apfst ServerHelloDone (serverHelloDone_marshal m))"
| "message_marshal (ClientKeyExchange m) = Some (apfst ClientKeyExchange (clientKeyExchange_marshal m))"
| "message_marshal (CertificateVerify m) = Some (apfst CertificateVerify (certificateVerify_marshal m))"
| "message_marshal (NextProtocol m) = Some (apfst NextProtocol (nextProto_marshal m))"
| "message_marshal (Finished m) = Some (apfst Finished (finished_marshal m))"

fun message_unmarshal :: "handshakeMessage \<Rightarrow> byte list \<Rightarrow> handshakeMessage \<times> bool" where
  "message_unmarshal (HelloRequest m) data = apfst HelloRequest (helloRequest_unmarshal m data)"
| "message_unmarshal (ClientHello m) data = apfst ClientHello (clientHello_unmarshal m data)"
| "message_unmarshal (ServerHello m) data = apfst ServerHello (serverHello_unmarshal m data)"
| "message_unmarshal (NewSessionTicket m) data = apfst NewSessionTicket (newSessionTicket_unmarshal m data)"
| "message_unmarshal (Certificate m) data = apfst Certificate (certificate_unmarshal m data)"
| "message_unmarshal (CertificateRequest m) data = apfst CertificateRequest (certificateRequest_unmarshal m data)"
| "message_unmarshal (CertificateStatus m) data = apfst CertificateStatus (certificateStatus_unmarshal m data)"
| "message_unmarshal (ServerKeyExchange m) data = apfst ServerKeyExchange (serverKeyExchange_unmarshal m data)"
| "message_unmarshal (ServerHelloDone m) data = apfst ServerHelloDone (serverHelloDone_unmarshal m data)"
| "message_unmarshal (ClientKeyExchange m) data = apfst ClientKeyExchange (clientKeyExchange_unmarshal m data)"
| "message_unmarshal (CertificateVerify m) data = apfst CertificateVerify (certificateVerify_unmarshal m data)"
| "message_unmarshal (NextProtocol m) data = apfst NextProtocol (nextProto_unmarshal m data)"
| "message_unmarshal (Finished m) data = apfst Finished (finished_unmarshal m data)"

text \<open>The new object for a type, in a connection of version \<open>vers\<close>.\<close>

definition new_message :: "u16 \<Rightarrow> byte \<Rightarrow> handshakeMessage option" where
  "new_message vers t =
     (if t = typeHelloRequest then Some (HelloRequest HelloRequestMsg)
      else if t = typeClientHello then Some (ClientHello clientHello_new)
      else if t = typeServerHello then Some (ServerHello serverHello_new)
      else if t = typeNewSessionTicket then Some (NewSessionTicket \<lparr>nst_raw = None, nst_ticket = []\<rparr>)
      else if t = typeCertificate then Some (Certificate (certificate_msg []))
      else if t = typeCertificateRequest then Some (CertificateRequest (certificateRequest_msg (VersionTLS12 \<le> vers)))
      else if t = typeCertificateStatus then Some (CertificateStatus \<lparr>cst_raw = None, cst_statusType = 0, cst_response = []\<rparr>)
      else if t = typeServerKeyExchange then Some (ServerKeyExchange \<lparr>ske_raw = None, ske_key = []\<rparr>)
      else if t = typeServerHelloDone then Some (ServerHelloDone ServerHelloDoneMsg)
      else if t = typeClientKeyExchange then Some (ClientKeyExchange \<lparr>cke_raw = None, cke_ciphertext = []\<rparr>)
      else if t = typeCertificateVerify then Some (CertificateVerify (certificateVerify_msg (VersionTLS12 \<le> vers)))
      else if t = typeNextProtocol then Some (NextProtocol \<lparr>np_raw = None, np_proto = []\<rparr>)
      else if t = typeFinished then Some (Finished \<lparr>fin_raw = None, fin_verifyData = []\<rparr>)
      else None)"

section \<open>Reading a message\<close>

text \<open>The loops that read records until \<open>n\<close> bytes are there: \<open>None\<close> is a call that does not return.\<close>

partial_function (option) fill_hand :: "nat \<Rightarrow> 's conn \<Rightarrow> ('s conn \<times> tls_error option) option" where
  "fill_hand n c =
     (if n \<le> length (c_hand c) then Some (c, None)
      else case hc_err (c_in c) of Some err \<Rightarrow> Some (c, Some err)
      | None \<Rightarrow> (case readRecord c recordTypeHandshake of
            None \<Rightarrow> None
          | Some (c, Some err) \<Rightarrow> Some (c, Some err)
          | Some (c, None) \<Rightarrow> fill_hand n c))"

text \<open>The error of a call that sends an alert, and \<open>c.in.setErrorLocked(c.sendAlert(err))\<close>.\<close>

definition failed :: "('s conn \<times> tls_error option) option \<Rightarrow> ('s conn \<times> (tls_error option + handshakeMessage)) option" where
  "failed r = map_option (\<lambda>(c, err). (c, Inl err)) r"

definition readHandshake :: "'s conn \<Rightarrow> ('s conn \<times> (tls_error option + handshakeMessage)) option" where
  "readHandshake c =
     (case fill_hand 4 c of None \<Rightarrow> None
      | Some (c, Some err) \<Rightarrow> Some (c, Inl (Some err))
      | Some (c, None) \<Rightarrow>
          let n = u24_val (drop 1 (c_hand c))
          in if maxHandshake < n then failed (alert_then c alertInternalError MessageTooLong)
             else case fill_hand (4 + n) c of None \<Rightarrow> None
               | Some (c, Some err) \<Rightarrow> Some (c, Inl (Some err))
               | Some (c, None) \<Rightarrow>
                   let data = take (4 + n) (c_hand c); c = c\<lparr>c_hand := drop (4 + n) (c_hand c)\<rparr>
                   in case new_message (c_vers c) (data ! 0) of
                       None \<Rightarrow> failed (alert_in c alertUnexpectedMessage)
                     | Some m \<Rightarrow>
                         (case message_unmarshal m data of
                            (m, False) \<Rightarrow> failed (alert_in c alertUnexpectedMessage)
                          | (m, True) \<Rightarrow> Some (c, Inr m)))"

section \<open>Messages arrive\<close>

fun message_fits :: "u16 \<Rightarrow> handshakeMessage \<Rightarrow> bool" where
  "message_fits vers (HelloRequest m) = True"
| "message_fits vers (ClientHello m) = clientHello_fits m"
| "message_fits vers (ServerHello m) = serverHello_fits m"
| "message_fits vers (NewSessionTicket m) = newSessionTicket_fits m"
| "message_fits vers (Certificate m) = certificate_fits m"
| "message_fits vers (CertificateRequest m) = certificateRequest_fits (VersionTLS12 \<le> vers) m"
| "message_fits vers (CertificateStatus m) = certificateStatus_fits m"
| "message_fits vers (ServerKeyExchange m) = serverKeyExchange_fits m"
| "message_fits vers (ServerHelloDone m) = True"
| "message_fits vers (ClientKeyExchange m) = clientKeyExchange_fits m"
| "message_fits vers (CertificateVerify m) = certificateVerify_fits (VersionTLS12 \<le> vers) m"
| "message_fits vers (NextProtocol m) = nextProto_fits m"
| "message_fits vers (Finished m) = finished_fits m"

fun message_type :: "handshakeMessage \<Rightarrow> byte" where
  "message_type (HelloRequest m) = typeHelloRequest"
| "message_type (ClientHello m) = typeClientHello"
| "message_type (ServerHello m) = typeServerHello"
| "message_type (NewSessionTicket m) = typeNewSessionTicket"
| "message_type (Certificate m) = typeCertificate"
| "message_type (CertificateRequest m) = typeCertificateRequest"
| "message_type (CertificateStatus m) = typeCertificateStatus"
| "message_type (ServerKeyExchange m) = typeServerKeyExchange"
| "message_type (ServerHelloDone m) = typeServerHelloDone"
| "message_type (ClientKeyExchange m) = typeClientKeyExchange"
| "message_type (CertificateVerify m) = typeCertificateVerify"
| "message_type (NextProtocol m) = typeNextProtocol"
| "message_type (Finished m) = typeFinished"

text \<open>The messages together keep the contract of each, for the type that the message has.\<close>

lemma message_codec:
  assumes "message_fits vers m"
  shows "\<exists>m' x new. message_marshal m = Some (m', x) \<and> framed (message_type m) x \<and> new_message vers (message_type m) = Some new
    \<and> message_unmarshal new x = (m', True)"
proof (cases m)
  case (HelloRequest a)
  then show ?thesis using helloRequest.codec [of a] by (auto simp: new_message_def message_types apfst_def map_prod_def)
next
  case (ClientHello a)
  then show ?thesis using clientHello.codec [of a] assms by (auto simp: new_message_def message_types)
next
  case (ServerHello a)
  then show ?thesis using serverHello.codec [of a] assms by (auto simp: new_message_def message_types)
next
  case (NewSessionTicket a)
  then show ?thesis using newSessionTicket.codec [of a] assms by (auto simp: new_message_def message_types)
next
  case (Certificate a)
  then show ?thesis using certificate.codec [of a] assms by (auto simp: new_message_def message_types)
next
  case (CertificateRequest a)
  then show ?thesis using certificateRequest.codec [of "VersionTLS12 \<le> vers" a] assms by (auto simp: new_message_def message_types)
next
  case (CertificateStatus a)
  then show ?thesis using certificateStatus.codec [of a] assms by (auto simp: new_message_def message_types)
next
  case (ServerKeyExchange a)
  then show ?thesis using serverKeyExchange.codec [of a] assms by (auto simp: new_message_def message_types)
next
  case (ServerHelloDone a)
  then show ?thesis using serverHelloDone.codec [of a] by (auto simp: new_message_def message_types)
next
  case (ClientKeyExchange a)
  then show ?thesis using clientKeyExchange.codec [of a] assms by (auto simp: new_message_def message_types)
next
  case (CertificateVerify a)
  then show ?thesis using certificateVerify.codec [of "VersionTLS12 \<le> vers" a] assms by (auto simp: new_message_def message_types)
next
  case (NextProtocol a)
  then show ?thesis using nextProto.codec [of a] assms by (auto simp: new_message_def message_types)
next
  case (Finished a)
  then show ?thesis using finished.codec [of a] assms by (auto simp: new_message_def message_types)
qed

text \<open>A message without its cached encoding.\<close>

fun forget_raw :: "handshakeMessage \<Rightarrow> handshakeMessage" where
  "forget_raw (HelloRequest m) = HelloRequest m"
| "forget_raw (ClientHello m) = ClientHello (m\<lparr>ch_raw := None\<rparr>)"
| "forget_raw (ServerHello m) = ServerHello (m\<lparr>sh_raw := None\<rparr>)"
| "forget_raw (NewSessionTicket m) = NewSessionTicket (m\<lparr>nst_raw := None\<rparr>)"
| "forget_raw (Certificate m) = Certificate (m\<lparr>cert_raw := None\<rparr>)"
| "forget_raw (CertificateRequest m) = CertificateRequest (m\<lparr>cr_raw := None\<rparr>)"
| "forget_raw (CertificateStatus m) = CertificateStatus (m\<lparr>cst_raw := None\<rparr>)"
| "forget_raw (ServerKeyExchange m) = ServerKeyExchange (m\<lparr>ske_raw := None\<rparr>)"
| "forget_raw (ServerHelloDone m) = ServerHelloDone m"
| "forget_raw (ClientKeyExchange m) = ClientKeyExchange (m\<lparr>cke_raw := None\<rparr>)"
| "forget_raw (CertificateVerify m) = CertificateVerify (m\<lparr>cv_raw := None\<rparr>)"
| "forget_raw (NextProtocol m) = NextProtocol (m\<lparr>np_raw := None\<rparr>)"
| "forget_raw (Finished m) = Finished (m\<lparr>fin_raw := None\<rparr>)"

lemma hello_kept:
  "ch_raw a = None \<Longrightarrow> clientHello_marshal a = Some (a', x) \<Longrightarrow> a'\<lparr>ch_raw := None\<rparr> = a"
  "sh_raw b = None \<Longrightarrow> serverHello_marshal b = Some (b', y) \<Longrightarrow> b'\<lparr>sh_raw := None\<rparr> = b"
  by (cases a; auto simp: clientHello_marshal_def Let_def split: if_splits) (cases b; auto simp: serverHello_marshal_def Let_def split: if_splits)

lemma message_kept: "message_fits vers m \<Longrightarrow> message_marshal m = Some (m', x) \<Longrightarrow> forget_raw m' = m"
  by (cases m)
    (auto simp: helloRequest_marshal_def newSessionTicket_marshal_def newSessionTicket_fits_def certificate_marshal_def certificate_fits_def
      certificateRequest_marshal_def certificateRequest_fits_def certificateStatus_marshal_def certificateStatus_fits_def
      serverKeyExchange_marshal_def serverKeyExchange_fits_def serverHelloDone_marshal_def clientKeyExchange_marshal_def clientKeyExchange_fits_def
      certificateVerify_marshal_def certificateVerify_fits_def nextProto_marshal_def nextProto_fits_def finished_marshal_def finished_fits_def
      clientHello_fits_def serverHello_fits_def hello_kept Let_def)

lemma framed_cut:
  assumes "framed t x"
  shows "u24_val (drop 1 (x @ rest)) = length x - 4" "4 \<le> length x" "x ! 0 = t"
proof -
  show "4 \<le> length x" "x ! 0 = t" using assms by (simp_all add: framed_def)
  then have "u24_val (drop 1 (x @ rest)) = u24_val (drop 1 x)" unfolding u24_val_def by (simp add: nth_append less_diff_conv)
  then show "u24_val (drop 1 (x @ rest)) = length x - 4" using assms by (simp add: framed_def)
qed

lemma fill_hand_there: "n \<le> length (c_hand c) \<Longrightarrow> fill_hand n c = Some (c, None)"
  by (subst fill_hand.simps) simp

text \<open>A whole message in the buffer, of any type.\<close>

lemma readHandshake_framed:
  assumes "framed t x"
  shows "readHandshake (c\<lparr>c_hand := x @ rest\<rparr>) =
    (if maxHandshake < length x - 4 then failed (alert_then (c\<lparr>c_hand := x @ rest\<rparr>) alertInternalError MessageTooLong)
     else case new_message (c_vers c) t of
         None \<Rightarrow> failed (alert_in (c\<lparr>c_hand := rest\<rparr>) alertUnexpectedMessage)
       | Some m \<Rightarrow> (case message_unmarshal m x of
             (m, False) \<Rightarrow> failed (alert_in (c\<lparr>c_hand := rest\<rparr>) alertUnexpectedMessage)
           | (m, True) \<Rightarrow> Some (c\<lparr>c_hand := rest\<rparr>, Inr m)))"
proof -
  let ?c = "c\<lparr>c_hand := x @ rest\<rparr>"
  note f = framed_cut [OF assms]
  have n: "u24_val (drop 1 (c_hand ?c)) = length x - 4" using f(1) [of rest] by simp
  have four: "fill_hand 4 ?c = Some (?c, None)" using f(2) by (intro fill_hand_there) simp
  have all: "fill_hand (length x) ?c = Some (?c, None)" using f(2) by (intro fill_hand_there) simp
  have data: "4 + (length x - 4) = length x" "take (length x) (c_hand ?c) = x" "drop (length x) (c_hand ?c) = rest" using f(2) by simp_all
  have c: "?c\<lparr>c_hand := rest\<rparr> = c\<lparr>c_hand := rest\<rparr>" "c_vers (c\<lparr>c_hand := rest\<rparr>) = c_vers c" by simp_all
  show ?thesis
    unfolding readHandshake_def four option.case prod.case Let_def n data(1) all option.case prod.case data(2,3) c f(3) by (rule refl)
qed

text \<open>
  C36: What \<open>marshal\<close> writes, \<open>readHandshake\<close> reads. A message of any of the thirteen types whose fields fit their lengths is encoded without a
  panic and keeps its fields; a connection of the same version that has these bytes, followed by any others, takes exactly them from
  its buffer, selects the decoder by the type and returns the same message, with the bytes cached; one that is longer than 65536 bytes gets the alert
  of an internal error. Bytes of a type that has no decoder get the alert of an unexpected message.
\<close>

theorem handshake_messages:
  assumes "message_fits (c_vers c) m"
  shows "(\<exists>m' x. message_marshal m = Some (m', x) \<and> forget_raw m' = m
      \<and> (\<forall>rest. readHandshake (c\<lparr>c_hand := x @ rest\<rparr>) =
          (if maxHandshake < length x - 4 then failed (alert_then (c\<lparr>c_hand := x @ rest\<rparr>) alertInternalError MessageTooLong)
           else Some (c\<lparr>c_hand := rest\<rparr>, Inr m'))))
    \<and> (\<forall>t body rest. t \<notin> {0, 1, 2, 4, 11, 12, 13, 14, 15, 16, 20, 22, 67} \<and> length body \<le> maxHandshake \<longrightarrow>
        readHandshake (c\<lparr>c_hand := handshake_header t (length body) @ body @ rest\<rparr>) = failed (alert_in (c\<lparr>c_hand := rest\<rparr>) alertUnexpectedMessage))"
proof (intro conjI allI impI)
  obtain m' x new where x: "message_marshal m = Some (m', x)" "framed (message_type m) x" "new_message (c_vers c) (message_type m) = Some new"
    "message_unmarshal new x = (m', True)" using message_codec [OF assms] by blast
  have "readHandshake (c\<lparr>c_hand := x @ rest\<rparr>) =
      (if maxHandshake < length x - 4 then failed (alert_then (c\<lparr>c_hand := x @ rest\<rparr>) alertInternalError MessageTooLong)
       else Some (c\<lparr>c_hand := rest\<rparr>, Inr m'))" for rest
    unfolding readHandshake_framed [OF x(2)] x(3,4) option.case prod.case bool.case by (rule refl)
  then show "\<exists>m' x. message_marshal m = Some (m', x) \<and> forget_raw m' = m
      \<and> (\<forall>rest. readHandshake (c\<lparr>c_hand := x @ rest\<rparr>) =
          (if maxHandshake < length x - 4 then failed (alert_then (c\<lparr>c_hand := x @ rest\<rparr>) alertInternalError MessageTooLong)
           else Some (c\<lparr>c_hand := rest\<rparr>, Inr m')))" using x(1) message_kept [OF assms x(1)] by blast
next
  fix t :: byte and body rest :: "byte list"
  assume t: "t \<notin> {0, 1, 2, 4, 11, 12, 13, 14, 15, 16, 20, 22, 67} \<and> length body \<le> maxHandshake"
  then have "framed t (handshake_header t (length body) @ body)" by (intro message_framed) (simp_all add: maxHandshake_def)
  from readHandshake_framed [OF this, of rest c]
  show "readHandshake (c\<lparr>c_hand := handshake_header t (length body) @ body @ rest\<rparr>) = failed (alert_in (c\<lparr>c_hand := rest\<rparr>) alertUnexpectedMessage)"
    using t by (simp add: new_message_def message_types)
qed

text \<open>A hello with a server name, two curves and a protocol, and the start of another message behind it.\<close>

definition example_hello :: clientHelloMsg where
  "example_hello = clientHello_new\<lparr>ch_vers := VersionTLS12, ch_random := replicate 32 7, ch_cipherSuites := [0xe033, 0x00ff],
     ch_compressionMethods := [0], ch_serverName := [115, 109], ch_supportedCurves := [41, 23], ch_secureRenegotiationSupported := True,
     ch_alpnProtocols := [[104, 50]]\<rparr>"

theorem handshake_messages_witness:
  "\<exists>m' x. clientHello_marshal example_hello = Some (m', x) \<and> m'\<lparr>ch_raw := None\<rparr> = example_hello
    \<and> readHandshake (example_conn\<lparr>c_hand := x @ [20, 0]\<rparr>) = Some (example_conn\<lparr>c_hand := [20, 0]\<rparr>, Inr (ClientHello m'))"
proof -
  have f: "message_fits (c_vers example_conn) (ClientHello example_hello)"
    by (simp add: example_hello_def clientHello_new_def clientHello_fits_def client_lists_fit_def ch_extensionsLength_def ch_numExtensions_def)
  have "\<forall>m' x. clientHello_marshal example_hello = Some (m', x) \<longrightarrow> length x \<le> 200"
    by (simp add: clientHello_marshal_def example_hello_def clientHello_new_def ch_extensionsLength_def ch_numExtensions_def Let_def)
  moreover obtain m' x where m: "message_marshal (ClientHello example_hello) = Some (m', x)" "forget_raw m' = ClientHello example_hello"
    "readHandshake (example_conn\<lparr>c_hand := x @ [20, 0]\<rparr>) =
      (if maxHandshake < length x - 4 then failed (alert_then (example_conn\<lparr>c_hand := x @ [20, 0]\<rparr>) alertInternalError MessageTooLong)
       else Some (example_conn\<lparr>c_hand := [20, 0]\<rparr>, Inr m'))"
    using handshake_messages [OF f] by blast
  moreover from m(1) obtain h where "clientHello_marshal example_hello = Some (h, x)" "m' = ClientHello h" by auto
  ultimately show ?thesis by (auto simp: maxHandshake_def)
qed

end
