(* ===== verification/Ecdsa.thy ===== *)
theory Ecdsa
  imports Sm3 Big_Bytes
begin

text \<open>
  Package \<open>ecdsa\<close>: signatures over an \<open>elliptic.Curve\<close>, the SM2 signature when the curve is named SM2 and
  ECDSA otherwise. The curve is a value of an interface, here the record of its operations; the two
  optional interfaces \<open>invertible\<close> and \<open>combinedMult\<close> are fields that may be absent. SHA-512 and AES-CTR,
  which derive the nonces, are parameters. A source of bytes that ends is the list of its bytes.
  The hash \<open>sm3\<close> is the model of this library, used through its streaming interface.

  The loops of \<open>Sign\<close> end only when a nonce fits; a run that does not end is \<open>None\<close>.
\<close>

section \<open>Curves and keys\<close>

record ecparams =
  ec_P :: int
  ec_N :: int
  ec_B :: int
  ec_Gx :: int
  ec_Gy :: int
  ec_BitSize :: nat
  ec_Name :: string

record ec_curve =
  cv_params :: ecparams
  cv_ScalarBaseMult :: "byte list \<Rightarrow> int \<times> int"
  cv_ScalarMult :: "int \<Rightarrow> int \<Rightarrow> byte list \<Rightarrow> int \<times> int"
  cv_Add :: "int \<Rightarrow> int \<Rightarrow> int \<Rightarrow> int \<Rightarrow> int \<times> int"
  cv_Inverse :: "(int \<Rightarrow> int) option"
  cv_CombinedMult :: "(int \<Rightarrow> int \<Rightarrow> byte list \<Rightarrow> byte list \<Rightarrow> int \<times> int) option"

record PublicKey =
  pk_Curve :: ec_curve
  pk_X :: int
  pk_Y :: int

record PrivateKey =
  pv_PublicKey :: PublicKey
  pv_D :: int

definition IsSM2 :: "ecparams \<Rightarrow> bool" where
  "IsSM2 params = (ec_Name params = ''SM2'')"

abbreviation cv_N :: "ec_curve \<Rightarrow> int" where "cv_N c \<equiv> ec_N (cv_params c)"

definition Public :: "PrivateKey \<Rightarrow> PublicKey" where
  "Public priv = pv_PublicKey priv"

text \<open>\<open>io.ReadFull\<close> on a source of bytes: an error when the source ends first.\<close>

definition ReadFull :: "byte list \<Rightarrow> nat \<Rightarrow> (byte list \<times> byte list) option" where
  "ReadFull src n = (if length src < n then None else Some (take n src, drop n src))"

datatype 'a outcome = Panics | Returns 'a

datatype ecdsa_error = ReadFailed | ZeroParam

text \<open>\<open>randFieldElement\<close>: the number of bytes it reads and what it makes of them; \<open>Mod\<close> panics for \<open>N = 1\<close>.\<close>

definition element_bytes :: "ec_curve \<Rightarrow> nat" where
  "element_bytes c = ec_BitSize (cv_params c) div 8 + 8"

definition field_element :: "ec_curve \<Rightarrow> byte list \<Rightarrow> int" where
  "field_element c b = be_int b mod \<bar>cv_N c - 1\<bar> + 1"

definition randFieldElement :: "ec_curve \<Rightarrow> byte list \<Rightarrow> (ecdsa_error + int \<times> byte list) outcome" where
  "randFieldElement c rand =
     (case ReadFull rand (element_bytes c) of None \<Rightarrow> Returns (Inl ReadFailed)
      | Some (b, rand) \<Rightarrow> if cv_N c = 1 then Panics else Returns (Inr (field_element c b, rand)))"

definition GenerateKey :: "ec_curve \<Rightarrow> byte list \<Rightarrow> (ecdsa_error + PrivateKey) outcome" where
  "GenerateKey c rand =
     (case randFieldElement c rand of
        Panics \<Rightarrow> Panics
      | Returns (Inl err) \<Rightarrow> Returns (Inl err)
      | Returns (Inr (k, rest)) \<Rightarrow>
          (case cv_ScalarBaseMult c (big_Bytes k) of (X, Y) \<Rightarrow>
             Returns (Inr \<lparr>pv_PublicKey = \<lparr>pk_Curve = c, pk_X = X, pk_Y = Y\<rparr>, pv_D = k\<rparr>)))"

section \<open>Digests\<close>

definition hashToInt :: "byte list \<Rightarrow> ec_curve \<Rightarrow> int" where
  "hashToInt hash c =
     (let orderBits = big_BitLen (cv_N c);
          orderBytes = (orderBits + 7) div 8;
          hash = if orderBytes < length hash then take orderBytes hash else hash;
          ret = be_int hash;
          excess = int (length hash) * 8 - int orderBits
      in if 0 < excess then drop_bit (nat excess) ret else ret)"

definition fermatInverse :: "int \<Rightarrow> int \<Rightarrow> int" where
  "fermatInverse k N = k ^ nat (N - 2) mod N"

text \<open>\<open>sm2_z.go\<close>: the identity digest \<open>Z\<close> and the digest \<open>e\<close> that is signed. \<open>None\<close> is a panic.\<close>

definition big2Bytes :: "int \<Rightarrow> byte list option" where
  "big2Bytes x = padded_bytes 32 x"

definition entl_bytes :: "nat \<Rightarrow> byte list" where
  "entl_bytes n = (let w = (of_nat n :: 16 word) in [ucast (drop_bit 8 w), ucast w])"

definition sm3_writes :: "byte list list \<Rightarrow> byte list option" where
  "sm3_writes ps = Sum (foldl (\<lambda>d p. fst (Write d p)) New ps) []"

definition GetZWithID :: "PublicKey \<Rightarrow> byte list \<Rightarrow> byte list option" where
  "GetZWithID key uid =
     (let params = cv_params (pk_Curve key);
          entl = entl_bytes (length uid * 8)
      in case big2Bytes (ec_P params - 3) of None \<Rightarrow> None | Some a \<Rightarrow>
         case big2Bytes (ec_B params) of None \<Rightarrow> None | Some b \<Rightarrow>
         case big2Bytes (ec_Gx params) of None \<Rightarrow> None | Some xG \<Rightarrow>
         case big2Bytes (ec_Gy params) of None \<Rightarrow> None | Some yG \<Rightarrow>
         case big2Bytes (pk_X key) of None \<Rightarrow> None | Some x \<Rightarrow>
         case big2Bytes (pk_Y key) of None \<Rightarrow> None | Some y \<Rightarrow>
         sm3_writes [entl, uid, a, b, xG, yG, x, y])"

definition default_uid :: "byte list" where
  "default_uid = [0x31, 0x32, 0x33, 0x34, 0x35, 0x36, 0x37, 0x38, 0x31, 0x32, 0x33, 0x34, 0x35, 0x36, 0x37, 0x38]"

definition GetZ :: "PublicKey \<Rightarrow> byte list option" where
  "GetZ key = GetZWithID key default_uid"

definition msgHash :: "byte list \<Rightarrow> byte list \<Rightarrow> int option" where
  "msgHash za msg = map_option (\<lambda>h. be_int (take 32 h)) (sm3_writes [za, msg])"

definition GetEWithID :: "PublicKey \<Rightarrow> byte list \<Rightarrow> byte list \<Rightarrow> int option" where
  "GetEWithID key msg uid = Option.bind (GetZWithID key uid) (\<lambda>za. msgHash za msg)"

definition GetE :: "PublicKey \<Rightarrow> byte list \<Rightarrow> int option" where
  "GetE key msg = Option.bind (GetZ key) (\<lambda>za. msgHash za msg)"

definition sm2_params :: ecparams where
  "sm2_params = \<lparr>
     ec_P = 0xFFFFFFFEFFFFFFFFFFFFFFFFFFFFFFFFFFFFFFFF00000000FFFFFFFFFFFFFFFF,
     ec_N = 0xFFFFFFFEFFFFFFFFFFFFFFFFFFFFFFFF7203DF6B21C6052B53BBF40939D54123,
     ec_B = 0x28E9FA9E9D9F5E344D5A9E4BCF6509A7F39789F515AB8F92DDBCBD414D940E93,
     ec_Gx = 0x32C4AE2C1F1981195F9904466A39C9948FE30BBFF2660BE1715A4589334C74C7,
     ec_Gy = 0xBC3736A2F4F6779C59BDCEE36B692153D0A9877CC62A474002DF32E52139F0A0,
     ec_BitSize = 256,
     ec_Name = ''SM2''\<rparr>"

definition getZBefore :: "byte list \<Rightarrow> byte list option" where
  "getZBefore uidValue =
     (let entl = entl_bytes (length uidValue * 8)
      in case big2Bytes (ec_P sm2_params - 3) of None \<Rightarrow> None | Some a \<Rightarrow>
         case big2Bytes (ec_B sm2_params) of None \<Rightarrow> None | Some b \<Rightarrow>
         case big2Bytes (ec_Gx sm2_params) of None \<Rightarrow> None | Some xG \<Rightarrow>
         case big2Bytes (ec_Gy sm2_params) of None \<Rightarrow> None | Some yG \<Rightarrow>
         Some (concat (if uidValue = [] then [a, b, xG, yG] else [entl, uidValue, a, b, xG, yG])))"

section \<open>Signing\<close>

text \<open>The key stream: AES-CTR under the derived key, added to a stream of zeros.\<close>

definition aesIV :: "byte list" where
  "aesIV = map (\<lambda>c. of_nat (of_char c)) ''IV for ECDSA CTR''"

definition csprng :: "(byte list \<Rightarrow> byte list \<Rightarrow> nat \<Rightarrow> byte) \<Rightarrow> byte list \<Rightarrow> nat \<Rightarrow> byte" where
  "csprng aes_ctr key i = 0 XOR aes_ctr key aesIV i"

definition nonce :: "ec_curve \<Rightarrow> (nat \<Rightarrow> byte) \<Rightarrow> nat \<Rightarrow> int" where
  "nonce c ks pos = field_element c (map ks [pos..<pos + element_bytes c])"

definition curve_inverse :: "ec_curve \<Rightarrow> int \<Rightarrow> int" where
  "curve_inverse c k = (case cv_Inverse c of Some f \<Rightarrow> f k | None \<Rightarrow> fermatInverse k (cv_N c))"

text \<open>The two loops of the SM2 signature; they return where the next nonce would be read.\<close>

partial_function (option) sm2_nonce :: "ec_curve \<Rightarrow> int \<Rightarrow> (nat \<Rightarrow> byte) \<Rightarrow> nat \<Rightarrow> (int \<times> int \<times> nat) option" where
  "sm2_nonce c e ks pos =
     (let k = nonce c ks pos;
          pos' = pos + element_bytes c;
          r = (fst (cv_ScalarBaseMult c (big_Bytes k)) + e) mod cv_N c
      in if r = 0 then sm2_nonce c e ks pos'
         else if r + k = cv_N c then sm2_nonce c e ks pos'
         else Some (k, r, pos'))"

definition sm2_s :: "ec_curve \<Rightarrow> int \<Rightarrow> int \<Rightarrow> int \<Rightarrow> int" where
  "sm2_s c D k r =
     (let rD = D * r;
          s = k - rD;
          d1 = D + 1;
          d1Inv = curve_inverse c d1
      in s * d1Inv mod cv_N c)"

partial_function (option) sm2_sign_loop :: "ec_curve \<Rightarrow> int \<Rightarrow> int \<Rightarrow> (nat \<Rightarrow> byte) \<Rightarrow> nat \<Rightarrow> (int \<times> int) option" where
  "sm2_sign_loop c D e ks pos =
     (case sm2_nonce c e ks pos of None \<Rightarrow> None
      | Some (k, r, pos) \<Rightarrow>
          let s = sm2_s c D k r
          in if s \<noteq> 0 then Some (r, s) else sm2_sign_loop c D e ks pos)"

text \<open>The two loops of ECDSA.\<close>

partial_function (option) ecdsa_nonce :: "ec_curve \<Rightarrow> (nat \<Rightarrow> byte) \<Rightarrow> nat \<Rightarrow> (int \<times> int \<times> nat) option" where
  "ecdsa_nonce c ks pos =
     (let k = nonce c ks pos;
          pos' = pos + element_bytes c;
          kInv = curve_inverse c k;
          r = fst (cv_ScalarBaseMult c (big_Bytes k)) mod cv_N c
      in if r \<noteq> 0 then Some (kInv, r, pos') else ecdsa_nonce c ks pos')"

partial_function (option) ecdsa_sign_loop :: "ec_curve \<Rightarrow> int \<Rightarrow> int \<Rightarrow> (nat \<Rightarrow> byte) \<Rightarrow> nat \<Rightarrow> (int \<times> int) option" where
  "ecdsa_sign_loop c D e ks pos =
     (case ecdsa_nonce c ks pos of None \<Rightarrow> None
      | Some (kInv, r, pos) \<Rightarrow>
          let s = (D * r + e) * kInv mod cv_N c
          in if s \<noteq> 0 then Some (r, s) else ecdsa_sign_loop c D e ks pos)"

definition Sign :: "(byte list \<Rightarrow> byte list) \<Rightarrow> (byte list \<Rightarrow> byte list \<Rightarrow> nat \<Rightarrow> byte) \<Rightarrow> byte list \<Rightarrow> PrivateKey \<Rightarrow> byte list
    \<Rightarrow> (ecdsa_error + int \<times> int) outcome option" where
  "Sign sha512 aes_ctr rand priv hash =
     (let c = pk_Curve (pv_PublicKey priv);
          N = cv_N c;
          entropylen = (ec_BitSize (cv_params c) + 7) div 16;
          entropylen = if 32 < entropylen then 32 else entropylen
      in case ReadFull rand entropylen of None \<Rightarrow> Some (Returns (Inl ReadFailed))
         | Some (entropy, rand) \<Rightarrow>
             let key = take 32 (sha512 (big_Bytes (pv_D priv) @ entropy @ hash));
                 ks = csprng aes_ctr key
             in if N = 0 then Some (Returns (Inl ZeroParam))
                else if N = 1 then Some Panics
                else if IsSM2 (cv_params c) then
                  (case GetE (pv_PublicKey priv) hash of None \<Rightarrow> Some Panics
                   | Some e \<Rightarrow> map_option (\<lambda>rs. Returns (Inr rs)) (sm2_sign_loop c (pv_D priv) e ks 0))
                else map_option (\<lambda>rs. Returns (Inr rs)) (ecdsa_sign_loop c (pv_D priv) (hashToInt hash c) ks 0))"

text \<open>The method \<open>Sign\<close> of a private key encodes the pair; the encoder is a parameter.\<close>

definition PrivateKey_Sign :: "(byte list \<Rightarrow> byte list) \<Rightarrow> (byte list \<Rightarrow> byte list \<Rightarrow> nat \<Rightarrow> byte) \<Rightarrow> (int \<Rightarrow> int \<Rightarrow> byte list)
    \<Rightarrow> PrivateKey \<Rightarrow> byte list \<Rightarrow> byte list \<Rightarrow> (ecdsa_error + byte list) outcome option" where
  "PrivateKey_Sign sha512 aes_ctr asn1_Marshal priv rand digest =
     map_option (\<lambda>res. case res of Panics \<Rightarrow> Panics
         | Returns (Inl err) \<Rightarrow> Returns (Inl err)
         | Returns (Inr (r, s)) \<Rightarrow> Returns (Inr (asn1_Marshal r s)))
       (Sign sha512 aes_ctr rand priv digest)"

section \<open>Verification\<close>

text \<open>\<open>bG + tP\<close>, with the fast method when the curve has it.\<close>

definition combined :: "ec_curve \<Rightarrow> int \<Rightarrow> int \<Rightarrow> byte list \<Rightarrow> byte list \<Rightarrow> int \<times> int" where
  "combined c X Y b t =
     (case cv_CombinedMult c of
        Some f \<Rightarrow> f X Y b t
      | None \<Rightarrow>
          (case cv_ScalarBaseMult c b of (x1, y1) \<Rightarrow>
           case cv_ScalarMult c X Y t of (x2, y2) \<Rightarrow> cv_Add c x1 y1 x2 y2))"

definition Verify :: "PublicKey \<Rightarrow> byte list \<Rightarrow> int \<Rightarrow> int \<Rightarrow> bool option" where
  "Verify pub hash r s =
     (let c = pk_Curve pub; N = cv_N c
      in if r \<le> 0 \<or> s \<le> 0 then Some False
         else if N \<le> r \<or> N \<le> s then Some False
         else if IsSM2 (cv_params c) then
           (case GetE pub hash of None \<Rightarrow> None
            | Some e \<Rightarrow>
                let t = (r + s) mod N
                in if N = 0 then Some False
                   else case combined c (pk_X pub) (pk_Y pub) (big_Bytes s) (big_Bytes t) of (x, y) \<Rightarrow>
                     Some ((x + e) mod N = r))
         else
           let e = hashToInt hash c
           in case (case cv_Inverse c of Some f \<Rightarrow> Some (f s) | None \<Rightarrow> big_ModInverse s N) of None \<Rightarrow> None
              | Some w \<Rightarrow>
                  let u1 = e * w mod N; u2 = r * w mod N
                  in case combined c (pk_X pub) (pk_Y pub) (big_Bytes u1) (big_Bytes u2) of (x, y) \<Rightarrow>
                       if x = 0 \<and> y = 0 then Some False else Some (x mod N = r))"


section \<open>The loops take the first good nonce\<close>

text \<open>The first success of a sequence of attempts; \<open>None\<close> when there is none.\<close>

definition first_some :: "(nat \<Rightarrow> 'a option) \<Rightarrow> 'a option" where
  "first_some f = (if \<exists>j. f j \<noteq> None then f (LEAST j. f j \<noteq> None) else None)"

lemma first_some_SomeD: "first_some f = Some y \<Longrightarrow> \<exists>j. f j = Some y"
  by (auto simp: first_some_def split: if_splits)

lemma first_some_None: "first_some f = None \<longleftrightarrow> (\<forall>j. f j = None)"
proof (cases "\<exists>j. f j \<noteq> None")
  case True
  then have "f (LEAST j. f j \<noteq> None) \<noteq> None" by (rule LeastI_ex)
  then show ?thesis using True by (auto simp: first_some_def)
qed (simp add: first_some_def)

text \<open>
  A loop that reads attempts at regular positions: it repeats when the attempt fails, and every result
  it has is the result of some attempt.
\<close>

locale rejection_loop =
  fixes loop :: "nat \<Rightarrow> 'a option" and attempt :: "nat \<Rightarrow> 'a option" and width :: nat
  assumes repeat: "loop pos = (case attempt pos of Some y \<Rightarrow> Some y | None \<Rightarrow> loop (pos + width))"
    and from_attempt: "loop pos = Some y \<Longrightarrow> \<exists>j. attempt (pos + j * width) = Some y"
begin

lemma skip: "(\<And>i. i < j \<Longrightarrow> attempt (pos + i * width) = None) \<Longrightarrow> loop pos = loop (pos + j * width)"
proof (induction j)
  case (Suc j)
  then have "loop pos = loop (pos + j * width)" "attempt (pos + j * width) = None" by simp_all
  then show ?case using repeat [of "pos + j * width"] by (simp add: algebra_simps)
qed simp

lemma first: "loop pos = first_some (\<lambda>j. attempt (pos + j * width))"
proof (cases "\<exists>j. attempt (pos + j * width) \<noteq> None")
  case True
  define j where "j = (LEAST j. attempt (pos + j * width) \<noteq> None)"
  have some: "attempt (pos + j * width) \<noteq> None" unfolding j_def by (rule LeastI_ex [OF True])
  have "attempt (pos + i * width) = None" if "i < j" for i
    using not_less_Least that unfolding j_def by blast
  then have "loop pos = loop (pos + j * width)" by (rule skip)
  also have "\<dots> = attempt (pos + j * width)" using some repeat [of "pos + j * width"] by auto
  finally show ?thesis using True by (simp add: first_some_def j_def)
next
  case False
  then have "loop pos = None" using from_attempt by (metis not_None_eq)
  then show ?thesis using False by (simp add: first_some_def)
qed

end

text \<open>What one nonce gives, for the two signatures.\<close>

definition sm2_attempt :: "ec_curve \<Rightarrow> int \<Rightarrow> int \<Rightarrow> int \<Rightarrow> (int \<times> int) option" where
  "sm2_attempt c D e k =
     (let r = (fst (cv_ScalarBaseMult c (big_Bytes k)) + e) mod cv_N c;
          s = (k - D * r) * curve_inverse c (D + 1) mod cv_N c
      in if r = 0 \<or> r + k = cv_N c \<or> s = 0 then None else Some (r, s))"

definition ecdsa_attempt :: "ec_curve \<Rightarrow> int \<Rightarrow> int \<Rightarrow> int \<Rightarrow> (int \<times> int) option" where
  "ecdsa_attempt c D e k =
     (let r = fst (cv_ScalarBaseMult c (big_Bytes k)) mod cv_N c;
          s = (D * r + e) * curve_inverse c k mod cv_N c
      in if r = 0 \<or> s = 0 then None else Some (r, s))"

definition sm2_nonce_result :: "ec_curve \<Rightarrow> int \<Rightarrow> (nat \<Rightarrow> byte) \<Rightarrow> nat \<Rightarrow> int \<times> int \<times> nat \<Rightarrow> bool" where
  "sm2_nonce_result c e ks pos y = (case y of (k, r, pos') \<Rightarrow>
     (\<exists>i. k = nonce c ks (pos + i * element_bytes c) \<and> pos' = pos + Suc i * element_bytes c)
     \<and> r = (fst (cv_ScalarBaseMult c (big_Bytes k)) + e) mod cv_N c \<and> r \<noteq> 0 \<and> r + k \<noteq> cv_N c)"

definition ecdsa_nonce_result :: "ec_curve \<Rightarrow> (nat \<Rightarrow> byte) \<Rightarrow> nat \<Rightarrow> int \<times> int \<times> nat \<Rightarrow> bool" where
  "ecdsa_nonce_result c ks pos y = (case y of (kInv, r, pos') \<Rightarrow>
     (\<exists>i. let k = nonce c ks (pos + i * element_bytes c) in
         kInv = curve_inverse c k \<and> pos' = pos + Suc i * element_bytes c
         \<and> r = fst (cv_ScalarBaseMult c (big_Bytes k)) mod cv_N c) \<and> r \<noteq> 0)"

lemma later_nonce: "(\<exists>i. P (pos + w + i * w) (pos + w + Suc i * w)) \<Longrightarrow> \<exists>i. P (pos + i * w) (pos + Suc i * (w :: nat))"
proof -
  assume "\<exists>i. P (pos + w + i * w) (pos + w + Suc i * w)"
  then obtain i where "P (pos + w + i * w) (pos + w + Suc i * w)" by blast
  then have "P (pos + Suc i * w) (pos + Suc (Suc i) * w)" by (simp add: algebra_simps)
  then show ?thesis by blast
qed

lemma sm2_nonce_later: "sm2_nonce_result c e ks (pos + element_bytes c) y \<Longrightarrow> sm2_nonce_result c e ks pos y"
  using later_nonce [of "\<lambda>p p'. fst y = nonce c ks p \<and> snd (snd y) = p'" pos "element_bytes c"]
  by (cases y) (auto simp: sm2_nonce_result_def)

lemma ecdsa_nonce_later: "ecdsa_nonce_result c ks (pos + element_bytes c) y \<Longrightarrow> ecdsa_nonce_result c ks pos y"
  using later_nonce [of "\<lambda>p p'. let k = nonce c ks p in fst y = curve_inverse c k \<and> snd (snd y) = p'
      \<and> fst (snd y) = fst (cv_ScalarBaseMult c (big_Bytes k)) mod cv_N c" pos "element_bytes c"]
  by (cases y) (auto simp: ecdsa_nonce_result_def)

lemma sm2_nonce_Some:
  assumes "sm2_nonce c e ks pos = Some y"
  shows "sm2_nonce_result c e ks pos y"
proof (rule sm2_nonce.raw_induct [OF _ assms])
  fix rec c e ks pos y
  assume IH: "\<And>c e ks pos y. rec c e ks pos = Some y \<Longrightarrow> sm2_nonce_result c e ks pos y"
    and body: "(let k = nonce c ks pos; pos' = pos + element_bytes c;
          r = (fst (cv_ScalarBaseMult c (big_Bytes k)) + e) mod cv_N c
      in if r = 0 then rec c e ks pos' else if r + k = cv_N c then rec c e ks pos' else Some (k, r, pos')) = Some y"
  show "sm2_nonce_result c e ks pos y"
  proof (cases "rec c e ks (pos + element_bytes c) = Some y")
    case True
    then show ?thesis by (rule sm2_nonce_later [OF IH])
  next
    case False
    then show ?thesis using body
      by (auto simp: sm2_nonce_result_def Let_def split: if_splits intro!: exI [of _ 0])
  qed
qed

lemma ecdsa_nonce_Some:
  assumes "ecdsa_nonce c ks pos = Some y"
  shows "ecdsa_nonce_result c ks pos y"
proof (rule ecdsa_nonce.raw_induct [OF _ assms])
  fix rec c ks pos y
  assume IH: "\<And>c ks pos y. rec c ks pos = Some y \<Longrightarrow> ecdsa_nonce_result c ks pos y"
    and body: "(let k = nonce c ks pos; pos' = pos + element_bytes c; kInv = curve_inverse c k;
          r = fst (cv_ScalarBaseMult c (big_Bytes k)) mod cv_N c
      in if r \<noteq> 0 then Some (kInv, r, pos') else rec c ks pos') = Some y"
  show "ecdsa_nonce_result c ks pos y"
  proof (cases "rec c ks (pos + element_bytes c) = Some y")
    case True
    then show ?thesis by (rule ecdsa_nonce_later [OF IH])
  next
    case False
    then show ?thesis using body
      by (auto simp: ecdsa_nonce_result_def Let_def split: if_splits intro!: exI [of _ 0])
  qed
qed

lemma sm2_loop_repeat:
  "sm2_sign_loop c D e ks pos = (case sm2_attempt c D e (nonce c ks pos) of Some y \<Rightarrow> Some y
     | None \<Rightarrow> sm2_sign_loop c D e ks (pos + element_bytes c))"
proof -
  let ?k = "nonce c ks pos" and ?pos = "pos + element_bytes c"
  let ?r = "(fst (cv_ScalarBaseMult c (big_Bytes ?k)) + e) mod cv_N c"
  show ?thesis
  proof (cases "?r = 0 \<or> ?r + ?k = cv_N c")
    case True
    then have "sm2_nonce c e ks pos = sm2_nonce c e ks ?pos" by (subst sm2_nonce.simps) (auto simp: Let_def)
    then have "sm2_sign_loop c D e ks pos = sm2_sign_loop c D e ks ?pos"
      by (simp add: sm2_sign_loop.simps [of c D e ks])
    then show ?thesis using True by (auto simp: sm2_attempt_def Let_def)
  next
    case False
    then have "sm2_nonce c e ks pos = Some (?k, ?r, ?pos)" by (subst sm2_nonce.simps) (auto simp: Let_def)
    then show ?thesis using False
      by (subst sm2_sign_loop.simps) (auto simp: sm2_attempt_def sm2_s_def Let_def)
  qed
qed

lemma ecdsa_loop_repeat:
  "ecdsa_sign_loop c D e ks pos = (case ecdsa_attempt c D e (nonce c ks pos) of Some y \<Rightarrow> Some y
     | None \<Rightarrow> ecdsa_sign_loop c D e ks (pos + element_bytes c))"
proof -
  let ?k = "nonce c ks pos" and ?pos = "pos + element_bytes c"
  let ?r = "fst (cv_ScalarBaseMult c (big_Bytes ?k)) mod cv_N c"
  show ?thesis
  proof (cases "?r = 0")
    case True
    then have "ecdsa_nonce c ks pos = ecdsa_nonce c ks ?pos" by (subst ecdsa_nonce.simps) (auto simp: Let_def)
    then have "ecdsa_sign_loop c D e ks pos = ecdsa_sign_loop c D e ks ?pos"
      by (simp add: ecdsa_sign_loop.simps [of c D e ks])
    then show ?thesis using True by (auto simp: ecdsa_attempt_def Let_def)
  next
    case False
    then have "ecdsa_nonce c ks pos = Some (curve_inverse c ?k, ?r, ?pos)"
      by (subst ecdsa_nonce.simps) (auto simp: Let_def)
    then show ?thesis using False
      by (subst ecdsa_sign_loop.simps) (auto simp: ecdsa_attempt_def Let_def)
  qed
qed

lemma sm2_loop_from:
  assumes "sm2_sign_loop c D e ks pos = Some y"
  shows "\<exists>j. sm2_attempt c D e (nonce c ks (pos + j * element_bytes c)) = Some y"
proof (rule sm2_sign_loop.raw_induct [OF _ assms])
  fix rec c D e ks pos y
  assume IH: "\<And>c D e ks pos y. rec c D e ks pos = Some y \<Longrightarrow> \<exists>j. sm2_attempt c D e (nonce c ks (pos + j * element_bytes c)) = Some y"
    and body: "(case sm2_nonce c e ks pos of None \<Rightarrow> None | Some (k, r, pos) \<Rightarrow>
          let s = sm2_s c D k r in if s \<noteq> 0 then Some (r, s) else rec c D e ks pos) = Some y"
  obtain k r pos' where n: "sm2_nonce c e ks pos = Some (k, r, pos')" using body by (auto split: option.splits)
  then obtain i where k: "k = nonce c ks (pos + i * element_bytes c)" and pos': "pos' = pos + Suc i * element_bytes c"
    and r: "r = (fst (cv_ScalarBaseMult c (big_Bytes k)) + e) mod cv_N c" "r \<noteq> 0" "r + k \<noteq> cv_N c"
    using sm2_nonce_Some [OF n] by (auto simp: sm2_nonce_result_def)
  show "\<exists>j. sm2_attempt c D e (nonce c ks (pos + j * element_bytes c)) = Some y"
  proof (cases "sm2_s c D k r = 0")
    case True
    then have "rec c D e ks pos' = Some y" using body n by simp
    from IH [OF this] obtain j where "sm2_attempt c D e (nonce c ks (pos' + j * element_bytes c)) = Some y" by blast
    then show ?thesis by (intro exI [of _ "Suc i + j"]) (simp add: pos' algebra_simps)
  next
    case False
    then have "y = (r, sm2_s c D k r)" using body n by simp
    then show ?thesis using r False by (intro exI [of _ i]) (simp add: sm2_attempt_def sm2_s_def Let_def flip: k)
  qed
qed

lemma ecdsa_loop_from:
  assumes "ecdsa_sign_loop c D e ks pos = Some y"
  shows "\<exists>j. ecdsa_attempt c D e (nonce c ks (pos + j * element_bytes c)) = Some y"
proof (rule ecdsa_sign_loop.raw_induct [OF _ assms])
  fix rec c D e ks pos y
  assume IH: "\<And>c D e ks pos y. rec c D e ks pos = Some y \<Longrightarrow> \<exists>j. ecdsa_attempt c D e (nonce c ks (pos + j * element_bytes c)) = Some y"
    and body: "(case ecdsa_nonce c ks pos of None \<Rightarrow> None | Some (kInv, r, pos) \<Rightarrow>
          let s = (D * r + e) * kInv mod cv_N c in if s \<noteq> 0 then Some (r, s) else rec c D e ks pos) = Some y"
  obtain kInv r pos' where n: "ecdsa_nonce c ks pos = Some (kInv, r, pos')" using body by (auto split: option.splits)
  then obtain i where kInv: "kInv = curve_inverse c (nonce c ks (pos + i * element_bytes c))"
    and pos': "pos' = pos + Suc i * element_bytes c"
    and r: "r = fst (cv_ScalarBaseMult c (big_Bytes (nonce c ks (pos + i * element_bytes c)))) mod cv_N c" "r \<noteq> 0"
    using ecdsa_nonce_Some [OF n] by (auto simp: ecdsa_nonce_result_def Let_def)
  show "\<exists>j. ecdsa_attempt c D e (nonce c ks (pos + j * element_bytes c)) = Some y"
  proof (cases "(D * r + e) * kInv mod cv_N c = 0")
    case True
    then have "rec c D e ks pos' = Some y" using body n by simp
    from IH [OF this] obtain j where "ecdsa_attempt c D e (nonce c ks (pos' + j * element_bytes c)) = Some y" by blast
    then show ?thesis by (intro exI [of _ "Suc i + j"]) (simp add: pos' algebra_simps)
  next
    case False
    then have "y = (r, (D * r + e) * kInv mod cv_N c)" using body n by simp
    then show ?thesis using r False by (intro exI [of _ i]) (simp add: ecdsa_attempt_def Let_def kInv)
  qed
qed

interpretation sm2_loop: rejection_loop "sm2_sign_loop c D e ks" "\<lambda>pos. sm2_attempt c D e (nonce c ks pos)" "element_bytes c"
  for c D e ks
  by unfold_locales (rule sm2_loop_repeat, rule sm2_loop_from)

interpretation ecdsa_loop: rejection_loop "ecdsa_sign_loop c D e ks" "\<lambda>pos. ecdsa_attempt c D e (nonce c ks pos)" "element_bytes c"
  for c D e ks
  by unfold_locales (rule ecdsa_loop_repeat, rule ecdsa_loop_from)

definition entropy_bytes :: "ec_curve \<Rightarrow> nat" where
  "entropy_bytes c = min 32 ((ec_BitSize (cv_params c) + 7) div 16)"

definition key_stream :: "(byte list \<Rightarrow> byte list) \<Rightarrow> (byte list \<Rightarrow> byte list \<Rightarrow> nat \<Rightarrow> byte) \<Rightarrow> PrivateKey \<Rightarrow> byte list \<Rightarrow> byte list \<Rightarrow> nat \<Rightarrow> byte" where
  "key_stream sha512 aes_ctr priv entropy hash = csprng aes_ctr (take 32 (sha512 (big_Bytes (pv_D priv) @ entropy @ hash)))"

text \<open>What \<open>Sign\<close> computes once it has its entropy: the result of the first nonce that has one.\<close>

definition first_signature :: "PrivateKey \<Rightarrow> (nat \<Rightarrow> byte) \<Rightarrow> byte list \<Rightarrow> (ecdsa_error + int \<times> int) outcome option" where
  "first_signature priv ks hash =
     (let c = pk_Curve (pv_PublicKey priv);
          attempt = (if IsSM2 (cv_params c) then map_option (\<lambda>e. sm2_attempt c (pv_D priv) e) (GetE (pv_PublicKey priv) hash)
                     else Some (ecdsa_attempt c (pv_D priv) (hashToInt hash c)))
      in case attempt of None \<Rightarrow> Some Panics
         | Some f \<Rightarrow> map_option (\<lambda>rs. Returns (Inr rs)) (first_some (\<lambda>j. f (nonce c ks (j * element_bytes c)))))"

lemma Sign_eq:
  "Sign sha512 aes_ctr rand priv hash =
     (let c = pk_Curve (pv_PublicKey priv) in
      if length rand < entropy_bytes c then Some (Returns (Inl ReadFailed))
      else if cv_N c = 0 then Some (Returns (Inl ZeroParam))
      else if cv_N c = 1 then Some Panics
      else first_signature priv (key_stream sha512 aes_ctr priv (take (entropy_bytes c) rand) hash) hash)"
proof -
  let ?c = "pk_Curve (pv_PublicKey priv)"
  have e: "(if 32 < (ec_BitSize (cv_params ?c) + 7) div 16 then 32 else (ec_BitSize (cv_params ?c) + 7) div 16) = entropy_bytes ?c"
    unfolding entropy_bytes_def by simp
  show ?thesis
    unfolding Sign_def Let_def e sm2_loop.first ecdsa_loop.first
    by (cases "GetE (pv_PublicKey priv) hash") (simp_all add: ReadFull_def first_signature_def key_stream_def Let_def)
qed

section \<open>The laws of a curve\<close>

text \<open>
  What the documentation of \<open>elliptic.Curve\<close> promises of the group that the base point generates: \<open>pt k\<close> is
  the multiple \<open>k\<close> of the base point, and the inverse, when the order is prime, is that of the order.
\<close>

definition curve_law :: "ec_curve \<Rightarrow> (int \<Rightarrow> int \<times> int) \<Rightarrow> bool" where
  "curve_law c pt = (1 < cv_N c
     \<and> (\<forall>k. cv_ScalarBaseMult c k = pt (be_int k))
     \<and> (\<forall>a k. cv_ScalarMult c (fst (pt a)) (snd (pt a)) k = pt (a * be_int k))
     \<and> (\<forall>a b. cv_Add c (fst (pt a)) (snd (pt a)) (fst (pt b)) (snd (pt b)) = pt (a + b))
     \<and> (\<forall>a. pt (a mod cv_N c) = pt a)
     \<and> (case cv_CombinedMult c of None \<Rightarrow> True
          | Some f \<Rightarrow> \<forall>a b t. f (fst (pt a)) (snd (pt a)) b t = pt (be_int b + a * be_int t))
     \<and> (\<forall>k. k mod cv_N c \<noteq> 0 \<longrightarrow> k * curve_inverse c k mod cv_N c = 1))"

definition key_pair :: "(int \<Rightarrow> int \<times> int) \<Rightarrow> PrivateKey \<Rightarrow> bool" where
  "key_pair pt priv = ((pk_X (pv_PublicKey priv), pk_Y (pv_PublicKey priv)) = pt (pv_D priv))"

text \<open>A private key that can sign: for SM2, \<open>D + 1\<close> has an inverse.\<close>

definition signing_key :: "PrivateKey \<Rightarrow> bool" where
  "signing_key priv = (let c = pk_Curve (pv_PublicKey priv)
     in IsSM2 (cv_params c) \<longrightarrow> (pv_D priv + 1) mod cv_N c \<noteq> 0)"

lemma combined_point:
  assumes "curve_law c pt"
  shows "combined c (fst (pt a)) (snd (pt a)) b t = pt (be_int b + a * be_int t)"
  using assms by (simp add: combined_def curve_law_def case_prod_beta split: option.splits)

lemma pt_cong: "curve_law c pt \<Longrightarrow> a mod cv_N c = b mod cv_N c \<Longrightarrow> pt a = pt b"
  unfolding curve_law_def by metis

lemma field_element_bounds: "1 < cv_N c \<Longrightarrow> 0 < field_element c b \<and> field_element c b < cv_N c"
proof -
  assume "1 < cv_N c"
  then have "0 \<le> be_int b mod (cv_N c - 1)" "be_int b mod (cv_N c - 1) < cv_N c - 1" by simp_all
  moreover have "\<bar>cv_N c - 1\<bar> = cv_N c - 1" using \<open>1 < cv_N c\<close> by simp
  ultimately show ?thesis unfolding field_element_def by linarith
qed

lemma nonce_bounds: "1 < cv_N c \<Longrightarrow> 0 < nonce c ks pos \<and> nonce c ks pos < cv_N c"
  unfolding nonce_def by (rule field_element_bounds)

lemma inverse_coprime:
  fixes a b n :: int
  assumes "a * b mod n = 1"
  shows "coprime a n"
proof (rule coprimeI)
  fix d assume "d dvd a" "d dvd n"
  then have "d dvd a * b mod n" by (simp add: dvd_mod)
  then show "is_unit d" using assms by simp
qed

lemma mod_combination: "(a mod N + D * (b mod N)) mod N = (a + D * b) mod (N :: int)"
  by (rule mod_add_cong) (simp_all add: mod_mult_right_eq)

text \<open>The equations of the two signatures modulo the order.\<close>

lemma sm2_equation:
  fixes D i k r N :: int
  assumes "(D + 1) * i mod N = 1" "s = (k - D * r) * i mod N"
  shows "(s + D * ((r + s) mod N)) mod N = k mod N"
proof -
  have "N dvd (D + 1) * i - 1" using assms(1) by (metis mod_eq_dvd_iff mod_mod_trivial)
  then obtain u where u: "(D + 1) * i = 1 + N * u" by (metis diff_eq_eq add.commute dvdE)
  have "N dvd s - (k - D * r) * i" using assms(2) mod_eq_dvd_iff [of s N "(k - D * r) * i"] by simp
  then obtain v where v: "s = (k - D * r) * i + N * v" by (metis diff_eq_eq add.commute dvdE)
  have "(s + D * ((r + s) mod N)) mod N = (s + D * (r + s)) mod N" by (metis mod_add_right_eq mod_mult_right_eq)
  also have "s + D * (r + s) = (k - D * r) * ((D + 1) * i) + (D + 1) * (N * v) + D * r"
    by (subst (1 2) v) (simp add: algebra_simps)
  also have "\<dots> = k + N * ((k - D * r) * u + (D + 1) * v)" unfolding u by (simp add: algebra_simps)
  finally show ?thesis by simp
qed

lemma ecdsa_equation:
  fixes D e i k r s w N :: int
  assumes "k * i mod N = 1" "s = (D * r + e) * i mod N" "s * w mod N = 1"
  shows "(e * w mod N + D * (r * w mod N)) mod N = k mod N"
proof -
  have "N dvd k * i - 1" using assms(1) by (metis mod_eq_dvd_iff mod_mod_trivial)
  then obtain u where u: "k * i = 1 + N * u" by (metis diff_eq_eq add.commute dvdE)
  have "N dvd s - (D * r + e) * i" using assms(2) mod_eq_dvd_iff [of s N "(D * r + e) * i"] by simp
  then obtain v where v: "s = (D * r + e) * i + N * v" by (metis diff_eq_eq add.commute dvdE)
  have "N dvd s * w - 1" using assms(3) by (metis mod_eq_dvd_iff mod_mod_trivial)
  then obtain x where x: "s * w = 1 + N * x" by (metis diff_eq_eq add.commute dvdE)
  have "k * (s * w) = (D * r + e) * w * (k * i) + N * (k * v * w)" by (subst v) (simp add: algebra_simps)
  then have "k + N * (k * x) = (D * r + e) * w + N * ((D * r + e) * w * u + k * v * w)"
    unfolding u x by (simp add: algebra_simps)
  then have "(k + N * (k * x)) mod N = ((D * r + e) * w + N * ((D * r + e) * w * u + k * v * w)) mod N" by simp
  then have "k mod N = ((D * r + e) * w) mod N" by simp
  then have "(e * w + D * (r * w)) mod N = k mod N" by (simp add: algebra_simps)
  then show ?thesis by (simp only: mod_combination)
qed

lemma sm2_verifies:
  assumes law: "curve_law c pt" and D: "(D + 1) mod cv_N c \<noteq> 0"
    and a: "sm2_attempt c D e k = Some (r, s)" and k: "0 < k" "k < cv_N c"
  shows "0 < r \<and> r < cv_N c \<and> 0 < s \<and> s < cv_N c
    \<and> (fst (combined c (fst (pt D)) (snd (pt D)) (big_Bytes s) (big_Bytes ((r + s) mod cv_N c))) + e) mod cv_N c = r"
proof -
  let ?N = "cv_N c"
  have N: "1 < ?N" and inv: "(D + 1) * curve_inverse c (D + 1) mod ?N = 1"
    using law D by (simp_all add: curve_law_def)
  have r: "r = (fst (pt k) + e) mod ?N" "r \<noteq> 0" and s: "s = (k - D * r) * curve_inverse c (D + 1) mod ?N" "s \<noteq> 0"
    using a law k by (auto simp: sm2_attempt_def curve_law_def Let_def split: if_splits)
  have rs: "0 < r" "r < ?N" "0 < s" "s < ?N"
    using r s N pos_mod_bound [of ?N] pos_mod_sign [of ?N] by (metis less_le less_trans zero_less_one)+
  have "0 \<le> (r + s) mod ?N" using N by simp
  then have "combined c (fst (pt D)) (snd (pt D)) (big_Bytes s) (big_Bytes ((r + s) mod ?N)) = pt (s + D * ((r + s) mod ?N))"
    using rs by (simp add: combined_point [OF law])
  also have "\<dots> = pt k" by (rule pt_cong [OF law]) (rule sm2_equation [OF inv s(1)])
  finally show ?thesis using rs r by simp
qed

text \<open>What \<open>Verify\<close> decides, by the multiple of the base point that it computes.\<close>

lemma verify_sm2_eq:
  assumes "curve_law (pk_Curve pub) pt" "(pk_X pub, pk_Y pub) = pt D" "IsSM2 (cv_params (pk_Curve pub))"
    and "0 < r" "r < cv_N (pk_Curve pub)" "0 < s" "s < cv_N (pk_Curve pub)"
  shows "Verify pub hash r s = map_option (\<lambda>e. (fst (pt (s + D * (r + s))) + e) mod cv_N (pk_Curve pub) = r) (GetE pub hash)"
proof -
  let ?c = "pk_Curve pub"
  have X: "pk_X pub = fst (pt D)" "pk_Y pub = snd (pt D)" using assms(2) by (metis fst_conv, metis snd_conv)
  have "0 \<le> (r + s) mod cv_N ?c" using assms by simp
  then have "combined ?c (fst (pt D)) (snd (pt D)) (big_Bytes s) (big_Bytes ((r + s) mod cv_N ?c)) = pt (s + D * ((r + s) mod cv_N ?c))"
    using assms by (simp add: combined_point [OF assms(1)])
  also have "\<dots> = pt (s + D * (r + s))" by (rule pt_cong [OF assms(1)]) (metis mod_add_right_eq mod_mult_right_eq)
  finally show ?thesis
    using assms unfolding X Verify_def by (cases "GetE pub hash") (simp_all add: X case_prod_beta Let_def)
qed

lemma verify_inverse:
  assumes "curve_law c pt" "0 < s" "s < cv_N c"
  obtains w where "(case cv_Inverse c of Some f \<Rightarrow> Some (f s) | None \<Rightarrow> big_ModInverse s (cv_N c)) = Some w"
    "s * w mod cv_N c = 1"
proof (cases "cv_Inverse c")
  case None
  have N: "1 < cv_N c" and "s mod cv_N c \<noteq> 0" using assms by (simp_all add: curve_law_def)
  then have "s * curve_inverse c s mod cv_N c = 1" using assms(1) by (simp add: curve_law_def)
  then have "gcd s (cv_N c) = 1" using inverse_coprime by (simp add: coprime_iff_gcd_eq_1)
  then show thesis using that big_ModInverse_inverse [OF N, of s] None by (auto split: option.splits)
next
  case (Some f)
  have "s mod cv_N c \<noteq> 0" using assms by simp
  then have "s * curve_inverse c s mod cv_N c = 1" using assms(1) by (simp add: curve_law_def)
  then show thesis using that Some by (simp add: curve_inverse_def)
qed

lemma verify_ecdsa_eq:
  assumes "curve_law (pk_Curve pub) pt" "(pk_X pub, pk_Y pub) = pt D" "\<not> IsSM2 (cv_params (pk_Curve pub))"
    and "0 < r" "r < cv_N (pk_Curve pub)" "0 < s" "s < cv_N (pk_Curve pub)"
  shows "\<exists>w. s * w mod cv_N (pk_Curve pub) = 1 \<and> Verify pub hash r s =
    Some (let Q = pt (w * (hashToInt hash (pk_Curve pub) + r * D)) in Q \<noteq> (0, 0) \<and> fst Q mod cv_N (pk_Curve pub) = r)"
proof -
  let ?c = "pk_Curve pub" and ?e = "hashToInt hash (pk_Curve pub)"
  have X: "pk_X pub = fst (pt D)" "pk_Y pub = snd (pt D)" using assms(2) by (metis fst_conv, metis snd_conv)
  have N: "0 < cv_N ?c" using assms by simp
  obtain w where w: "(case cv_Inverse ?c of Some f \<Rightarrow> Some (f s) | None \<Rightarrow> big_ModInverse s (cv_N ?c)) = Some w"
    "s * w mod cv_N ?c = 1" using verify_inverse [OF assms(1,6,7)] .
  have "combined ?c (fst (pt D)) (snd (pt D)) (big_Bytes (?e * w mod cv_N ?c)) (big_Bytes (r * w mod cv_N ?c))
      = pt (?e * w mod cv_N ?c + D * (r * w mod cv_N ?c))"
    using N by (simp add: combined_point [OF assms(1)])
  also have "\<dots> = pt (w * (?e + r * D))"
  proof (rule pt_cong [OF assms(1)])
    have "(?e * w mod cv_N ?c + D * (r * w mod cv_N ?c)) mod cv_N ?c = (?e * w + D * (r * w)) mod cv_N ?c"
      by (rule mod_combination)
    then show "(?e * w mod cv_N ?c + D * (r * w mod cv_N ?c)) mod cv_N ?c = w * (?e + r * D) mod cv_N ?c"
      by (simp add: algebra_simps)
  qed
  finally show ?thesis
    using assms(3-7) w unfolding Verify_def
    by (intro exI [of _ w]) (auto simp: X case_prod_beta Let_def prod_eq_iff)
qed

lemma ecdsa_verifies:
  assumes law: "curve_law c pt" and a: "ecdsa_attempt c D e k = Some (r, s)" and k: "0 < k" "k < cv_N c"
    and w: "s * w mod cv_N c = 1"
  shows "0 < r \<and> r < cv_N c \<and> 0 < s \<and> s < cv_N c \<and> pt (w * (e + r * D)) = pt k \<and> fst (pt k) mod cv_N c = r"
proof -
  let ?N = "cv_N c"
  have N: "1 < ?N" and i: "k * curve_inverse c k mod ?N = 1"
    using law k by (simp_all add: curve_law_def)
  have r: "r = fst (pt k) mod ?N" "r \<noteq> 0" and s: "s = (D * r + e) * curve_inverse c k mod ?N" "s \<noteq> 0"
    using a law k by (auto simp: ecdsa_attempt_def curve_law_def Let_def split: if_splits)
  have rs: "0 < r" "r < ?N" "0 < s" "s < ?N"
    using r s N pos_mod_bound [of ?N] pos_mod_sign [of ?N] by (metis less_le less_trans zero_less_one)+
  have "(e * w mod ?N + D * (r * w mod ?N)) mod ?N = k mod ?N" by (rule ecdsa_equation [OF i s(1) w])
  then have "(e * w + D * (r * w)) mod ?N = k mod ?N" by (simp only: mod_combination)
  then have "pt (w * (e + r * D)) = pt k" by (intro pt_cong [OF law]) (simp add: algebra_simps)
  then show ?thesis using rs r by simp
qed

section \<open>Digests in closed form\<close>

lemma sm3_writes_eq: "sm3_writes ps = Some (sm3_hash (concat ps))"
  by (simp add: sm3_writes_def sm3.sum_writes)

text \<open>The message of the digest \<open>Z\<close>: the identity between its length and the six numbers.\<close>

definition z_numbers :: "PublicKey \<Rightarrow> int list" where
  "z_numbers key = (let params = cv_params (pk_Curve key)
     in [ec_P params - 3, ec_B params, ec_Gx params, ec_Gy params, pk_X key, pk_Y key])"

definition z_message :: "PublicKey \<Rightarrow> byte list \<Rightarrow> byte list" where
  "z_message key uid = entl_bytes (length uid * 8) @ uid @ concat (map (\<lambda>x. fixed_bytes 32 \<bar>x\<bar>) (z_numbers key))"

lemma GetZWithID_eq:
  "GetZWithID key uid = (if list_all (\<lambda>x. \<bar>x\<bar> < 256 ^ 32) (z_numbers key) then Some (sm3_hash (z_message key uid)) else None)"
  by (simp add: GetZWithID_def z_numbers_def z_message_def big2Bytes_def padded_bytes_eq sm3_writes_eq Let_def)

lemma be_int_entl_bytes: "be_int (entl_bytes n) = int n mod 2 ^ 16"
proof -
  let ?w = "of_nat n :: 16 word"
  have w: "uint ?w = int n mod 65536" by (simp add: unsigned_of_nat take_bit_eq_mod zmod_int)
  have "be_int (entl_bytes n) = 256 * (uint ?w div 256 mod 256) + uint ?w mod 256"
    by (simp add: entl_bytes_def be_int_def Let_def unsigned_ucast_eq drop_bit_eq_div take_bit_eq_mod uint_div)
  also have "uint ?w div 256 mod 256 = uint ?w div 256"
  proof (rule mod_pos_pos_trivial)
    have "uint ?w < 65536" using uint_lt2p [of ?w] by simp
    then show "uint ?w div 256 < 256" by linarith
  qed (simp add: pos_imp_zdiv_nonneg_iff)
  also have "256 * (uint ?w div 256) + uint ?w mod 256 = uint ?w" by simp
  finally show ?thesis using w by simp
qed

lemma length_entl_bytes [simp]: "length (entl_bytes n) = 2"
  by (simp add: entl_bytes_def Let_def)

lemma GetE_Some: "list_all (\<lambda>x. \<bar>x\<bar> < 256 ^ 32) (z_numbers key) \<Longrightarrow> \<exists>e. GetE key msg = Some e"
  by (simp add: GetE_def GetZ_def GetZWithID_eq msgHash_def sm3_writes_eq)

section \<open>A small curve\<close>

text \<open>The group of seven elements, with \<open>pt k = (k mod 7, 0)\<close>, for concrete runs.\<close>

definition mod7_curve :: ec_curve where
  "mod7_curve = \<lparr>
     cv_params = \<lparr>ec_P = 7, ec_N = 7, ec_B = 0, ec_Gx = 1, ec_Gy = 0, ec_BitSize = 8, ec_Name = ''SM2''\<rparr>,
     cv_ScalarBaseMult = (\<lambda>k. (be_int k mod 7, 0)),
     cv_ScalarMult = (\<lambda>x y k. (x * be_int k mod 7, 0)),
     cv_Add = (\<lambda>x1 y1 x2 y2. ((x1 + x2) mod 7, 0)),
     cv_Inverse = None,
     cv_CombinedMult = None\<rparr>"

definition mod7_key :: "int \<Rightarrow> PrivateKey" where
  "mod7_key D = \<lparr>pv_PublicKey = \<lparr>pk_Curve = mod7_curve, pk_X = D mod 7, pk_Y = 0\<rparr>, pv_D = D\<rparr>"

lemma mod7_simps [simp]:
  "pk_Curve (pv_PublicKey (mod7_key D)) = mod7_curve" "pk_X (pv_PublicKey (mod7_key D)) = D mod 7"
  "pk_Y (pv_PublicKey (mod7_key D)) = 0" "pv_D (mod7_key D) = D" "cv_N mod7_curve = 7" "IsSM2 (cv_params mod7_curve)"
  by (simp_all add: mod7_key_def mod7_curve_def IsSM2_def)

lemma mod7_cases: "(k :: int) mod 7 = 0 \<or> k mod 7 = 1 \<or> k mod 7 = 2 \<or> k mod 7 = 3 \<or> k mod 7 = 4 \<or> k mod 7 = 5 \<or> k mod 7 = 6"
  by presburger

lemma mod7_law: "curve_law mod7_curve (\<lambda>k. (k mod 7, 0))"
proof -
  have "k * (k ^ 5 mod 7) mod 7 = 1" if "k mod 7 \<noteq> 0" for k :: int
  proof -
    have "k * (k ^ 5 mod 7) mod 7 = k ^ 6 mod 7" by (simp add: mod_mult_right_eq power_Suc [symmetric])
    also have "\<dots> = (k mod 7) ^ 6 mod 7" by (simp add: power_mod)
    also have "\<dots> = 1" using mod7_cases [of k] that by auto
    finally show ?thesis .
  qed
  then show ?thesis
    by (simp add: curve_law_def mod7_curve_def curve_inverse_def fermatInverse_def mod_simps)
qed

lemma mod7_GetE: "\<bar>D\<bar> < 7 \<Longrightarrow> \<exists>e. GetE (pv_PublicKey (mod7_key D)) msg = Some e"
  by (rule GetE_Some) (simp add: z_numbers_def mod7_key_def mod7_curve_def Let_def)

lemma mod7_nonce: "\<exists>k::int. 0 < k \<and> k < 7 \<and> (k + e) mod 7 \<noteq> 0 \<and> (2 * k + e) mod 7 \<noteq> 0 \<and> (k + 2 * e) mod 7 \<noteq> 0"
  by presburger

section \<open>Properties\<close>

text \<open>
  C19: For every input, \<open>Sign\<close> fails when the reader has too few bytes or the order is 0, panics for the order 1 or
  when \<open>Z\<close> cannot be formed, and otherwise returns the pair of the first nonce of the key stream that gives
  one. It does not return exactly when no nonce of the infinite stream gives a pair.
\<close>

theorem sign_first_nonce:
  "Sign sha512 aes_ctr rand priv hash =
     (let c = pk_Curve (pv_PublicKey priv) in
      if length rand < entropy_bytes c then Some (Returns (Inl ReadFailed))
      else if cv_N c = 0 then Some (Returns (Inl ZeroParam))
      else if cv_N c = 1 then Some Panics
      else first_signature priv (key_stream sha512 aes_ctr priv (take (entropy_bytes c) rand) hash) hash)
   \<and> (first_signature priv ks hash = None \<longleftrightarrow>
        (let c = pk_Curve (pv_PublicKey priv); D = pv_D priv; k = (\<lambda>j. nonce c ks (j * element_bytes c)) in
         if IsSM2 (cv_params c) then (\<exists>e. GetE (pv_PublicKey priv) hash = Some e \<and> (\<forall>j. sm2_attempt c D e (k j) = None))
         else (\<forall>j. ecdsa_attempt c D (hashToInt hash c) (k j) = None)))"
  unfolding Sign_eq
  by (cases "GetE (pv_PublicKey priv) hash") (simp_all add: first_signature_def first_some_None Let_def)

text \<open>
  C1: A pair that \<open>Sign\<close> returns lies between 1 and the order less 1 and \<open>Verify\<close> accepts it, for SM2 and for
  ECDSA, for every digest, source of entropy, hash and stream cipher, on a curve that keeps the group laws.
\<close>

theorem sign_verify:
  assumes "curve_law (pk_Curve (pv_PublicKey priv)) pt" "key_pair pt priv" "signing_key priv"
    and "Sign sha512 aes_ctr rand priv hash = Some (Returns (Inr (r, s)))"
  shows "Verify (Public priv) hash r s = Some True
    \<and> 0 < r \<and> r < cv_N (pk_Curve (Public priv)) \<and> 0 < s \<and> s < cv_N (pk_Curve (Public priv))"
proof -
  let ?pub = "pv_PublicKey priv" let ?c = "pk_Curve ?pub" and ?D = "pv_D priv"
  have key: "(pk_X ?pub, pk_Y ?pub) = pt ?D" using assms(2) by (simp add: key_pair_def)
  have N: "1 < cv_N ?c" using assms(1) by (simp add: curve_law_def)
  obtain ks where first: "first_signature priv ks hash = Some (Returns (Inr (r, s)))"
    using assms(4) N by (auto simp: Sign_eq Let_def split: if_splits)
  show ?thesis
  proof (cases "IsSM2 (cv_params ?c)")
    case True
    then obtain e j where e: "GetE ?pub hash = Some e" and a: "sm2_attempt ?c ?D e (nonce ?c ks j) = Some (r, s)"
      using first by (auto simp: first_signature_def Let_def dest!: first_some_SomeD split: option.splits)
    have "(?D + 1) mod cv_N ?c \<noteq> 0" using assms(3) True by (simp add: signing_key_def)
    note v = sm2_verifies [OF assms(1) this a conjunct1 [OF nonce_bounds [OF N]] conjunct2 [OF nonce_bounds [OF N]]]
    have X: "pk_X ?pub = fst (pt ?D)" "pk_Y ?pub = snd (pt ?D)" using key by (metis fst_conv, metis snd_conv)
    show ?thesis using v N e True by (simp add: Verify_def Public_def X case_prod_beta Let_def)
  next
    case False
    then obtain j where a: "ecdsa_attempt ?c ?D (hashToInt hash ?c) (nonce ?c ks j) = Some (r, s)"
      using first by (auto simp: first_signature_def Let_def dest!: first_some_SomeD split: option.splits)
    have rs: "0 < r" "r < cv_N ?c" "0 < s" "s < cv_N ?c"
      using a N pos_mod_bound [of "cv_N ?c"] pos_mod_sign [of "cv_N ?c"]
      by (auto simp: ecdsa_attempt_def Let_def order.strict_iff_order split: if_splits)
    obtain w where w: "s * w mod cv_N ?c = 1" and v: "Verify ?pub hash r s =
        Some (let Q = pt (w * (hashToInt hash ?c + r * ?D)) in Q \<noteq> (0, 0) \<and> fst Q mod cv_N ?c = r)"
      using verify_ecdsa_eq [OF assms(1) key False rs] by blast
    note q = ecdsa_verifies [OF assms(1) a conjunct1 [OF nonce_bounds [OF N]] conjunct2 [OF nonce_bounds [OF N]] w]
    have "pt (nonce ?c ks j) \<noteq> (0, 0)" using q rs by auto
    then show ?thesis using v q rs by (simp add: Public_def Let_def)
  qed
qed

text \<open>On the curve of seven elements there is a key stream with which \<open>Sign\<close> returns a pair for the empty message.\<close>

lemma mod7_signs:
  "\<exists>aes_ctr r s. Sign (\<lambda>_. []) aes_ctr [0] (mod7_key 2) [] = Some (Returns (Inr (r, s)))"
proof -
  let ?pub = "pv_PublicKey (mod7_key 2)"
  obtain e where e: "GetE ?pub [] = Some e" using mod7_GetE by force
  obtain k :: int where k: "0 < k" "k < 7" "(k + e) mod 7 \<noteq> 0" "(2 * k + e) mod 7 \<noteq> 0" "(k + 2 * e) mod 7 \<noteq> 0"
    using mod7_nonce by blast
  define aes where "aes = (\<lambda>(key :: byte list) (iv :: byte list) (i :: nat). if i mod 9 = 8 then word_of_int (k - 1) else (0 :: byte))"
  have "uint (word_of_int (k - 1) :: byte) = k - 1" using k by (simp only: uint_word_of_int len8) simp
  then have n: "nonce mod7_curve (csprng aes key) 0 = k" for key
    using k by (simp add: nonce_def field_element_def element_bytes_def mod7_curve_def csprng_def aes_def be_int_def upt_rec)
  have "sm2_attempt mod7_curve 2 e k \<noteq> None"
  proof -
    let ?r = "(k + e) mod 7"
    have "?r + k \<noteq> 7" using k by presburger
    moreover have "(k - 2 * ?r) * 5 mod 7 \<noteq> 0" using k(5) by presburger
    ultimately show ?thesis using k by (simp add: sm2_attempt_def mod7_curve_def curve_inverse_def fermatInverse_def Let_def)
  qed
  then obtain r s where a: "sm2_attempt mod7_curve 2 e k = Some (r, s)" by auto
  have "first_signature (mod7_key 2) (csprng aes key) [] = Some (Returns (Inr (r, s)))" for key
  proof -
    have "(LEAST j. sm2_attempt mod7_curve 2 e (nonce mod7_curve (csprng aes key) (j * element_bytes mod7_curve)) \<noteq> None) = 0"
      using a n by (intro Least_equality) simp_all
    then have "first_some (\<lambda>j. sm2_attempt mod7_curve 2 e (nonce mod7_curve (csprng aes key) (j * element_bytes mod7_curve))) = Some (r, s)"
      using a n by (auto simp: first_some_def intro: exI [of _ 0])
    then show ?thesis using e by (simp add: first_signature_def mod7_key_def IsSM2_def Let_def) (simp add: mod7_curve_def)
  qed
  then have "Sign (\<lambda>_. []) aes [0] (mod7_key 2) [] = Some (Returns (Inr (r, s)))"
    unfolding Sign_eq Let_def by (simp add: key_stream_def mod7_key_def) (simp add: mod7_curve_def entropy_bytes_def)
  then show ?thesis by blast
qed

theorem sign_verify_witness:
  "\<exists>aes_ctr r s. Sign (\<lambda>_. []) aes_ctr [0] (mod7_key 2) [] = Some (Returns (Inr (r, s)))
    \<and> Verify (Public (mod7_key 2)) [] r s = Some True"
proof -
  obtain aes_ctr r s where g: "Sign (\<lambda>_. []) aes_ctr [0] (mod7_key 2) [] = Some (Returns (Inr (r, s)))"
    using mod7_signs by blast
  have "curve_law (pk_Curve (pv_PublicKey (mod7_key 2))) (\<lambda>k. (k mod 7, 0))" by (simp add: mod7_key_def mod7_law)
  moreover have "key_pair (\<lambda>k. (k mod 7, 0)) (mod7_key 2)" by (simp add: key_pair_def mod7_key_def)
  moreover have "signing_key (mod7_key 2)" by (simp add: signing_key_def mod7_key_def mod7_curve_def Let_def)
  ultimately show ?thesis using sign_verify [OF _ _ _ g] g by blast
qed

text \<open>
  C31: \<open>Verify\<close> rejects every pair outside 1 to the order less 1; for the others it decides the signature equation, of
  SM2 (with no test that \<open>r + s\<close> is not 0) or of ECDSA (where the point must not be the origin).
\<close>

theorem verify_decides:
  "(r \<le> 0 \<or> s \<le> 0 \<or> cv_N (pk_Curve pub) \<le> r \<or> cv_N (pk_Curve pub) \<le> s \<longrightarrow> Verify pub hash r s = Some False)
   \<and> (curve_law (pk_Curve pub) pt \<and> (pk_X pub, pk_Y pub) = pt D \<and> 0 < r \<and> r < cv_N (pk_Curve pub) \<and> 0 < s \<and> s < cv_N (pk_Curve pub) \<longrightarrow>
      (if IsSM2 (cv_params (pk_Curve pub)) then
         Verify pub hash r s = map_option (\<lambda>e. (fst (pt (s + D * (r + s))) + e) mod cv_N (pk_Curve pub) = r) (GetE pub hash)
       else \<exists>w. s * w mod cv_N (pk_Curve pub) = 1 \<and> Verify pub hash r s =
         Some (let Q = pt (w * (hashToInt hash (pk_Curve pub) + r * D)) in Q \<noteq> (0, 0) \<and> fst Q mod cv_N (pk_Curve pub) = r)))"
proof (intro conjI impI)
  assume "r \<le> 0 \<or> s \<le> 0 \<or> cv_N (pk_Curve pub) \<le> r \<or> cv_N (pk_Curve pub) \<le> s"
  then show "Verify pub hash r s = Some False" by (auto simp: Verify_def Let_def)
next
  assume "curve_law (pk_Curve pub) pt \<and> (pk_X pub, pk_Y pub) = pt D \<and> 0 < r \<and> r < cv_N (pk_Curve pub) \<and> 0 < s \<and> s < cv_N (pk_Curve pub)"
  then have a: "curve_law (pk_Curve pub) pt" "(pk_X pub, pk_Y pub) = pt D"
    and rs: "0 < r" "r < cv_N (pk_Curve pub)" "0 < s" "s < cv_N (pk_Curve pub)" by simp_all
  show "if IsSM2 (cv_params (pk_Curve pub)) then
         Verify pub hash r s = map_option (\<lambda>e. (fst (pt (s + D * (r + s))) + e) mod cv_N (pk_Curve pub) = r) (GetE pub hash)
       else \<exists>w. s * w mod cv_N (pk_Curve pub) = 1 \<and> Verify pub hash r s =
         Some (let Q = pt (w * (hashToInt hash (pk_Curve pub) + r * D)) in Q \<noteq> (0, 0) \<and> fst Q mod cv_N (pk_Curve pub) = r)"
    using verify_sm2_eq [OF a _ rs] verify_ecdsa_eq [OF a _ rs] by simp
qed

text \<open>The pair (3, 4), whose sum is 0 modulo the order, is decided like any other.\<close>

theorem verify_decides_witness:
  "Verify (pv_PublicKey (mod7_key 2)) [] 3 4
    = map_option (\<lambda>e. (4 + e) mod 7 = 3) (GetE (pv_PublicKey (mod7_key 2)) [])"
  using verify_decides [of 3 4 "pv_PublicKey (mod7_key 2)" "[]" "\<lambda>k. (k mod 7, 0)" 2] mod7_law by simp

text \<open>
  C32: A key that \<open>GenerateKey\<close> returns has \<open>D\<close> between 1 and the order less 1 and the public point of \<open>D\<close>; it reads
  \<open>BitSize / 8 + 8\<close> bytes and fails when there are fewer; and every such \<open>D\<close> comes from some bytes.
\<close>

theorem generated_keys:
  assumes "1 < cv_N c" "cv_N c \<le> 256 ^ element_bytes c"
  shows "(case GenerateKey c rand of
       Panics \<Rightarrow> False
     | Returns (Inl err) \<Rightarrow> err = ReadFailed \<and> length rand < element_bytes c
     | Returns (Inr priv) \<Rightarrow> element_bytes c \<le> length rand \<and> pk_Curve (Public priv) = c
         \<and> 1 \<le> pv_D priv \<and> pv_D priv \<le> cv_N c - 1
         \<and> (pk_X (Public priv), pk_Y (Public priv)) = cv_ScalarBaseMult c (big_Bytes (pv_D priv)))
   \<and> (\<lambda>rand. case GenerateKey c rand of Returns (Inr priv) \<Rightarrow> pv_D priv | _ \<Rightarrow> 0) ` {seed. length seed = element_bytes c}
     = {1..cv_N c - 1}"
proof
  have b: "1 \<le> field_element c x \<and> field_element c x \<le> cv_N c - 1" for x
    using field_element_bounds [OF assms(1), of x] by simp
  show "case GenerateKey c rand of
       Panics \<Rightarrow> False
     | Returns (Inl err) \<Rightarrow> err = ReadFailed \<and> length rand < element_bytes c
     | Returns (Inr priv) \<Rightarrow> element_bytes c \<le> length rand \<and> pk_Curve (Public priv) = c
         \<and> 1 \<le> pv_D priv \<and> pv_D priv \<le> cv_N c - 1
         \<and> (pk_X (Public priv), pk_Y (Public priv)) = cv_ScalarBaseMult c (big_Bytes (pv_D priv))"
    using assms(1) b by (simp add: GenerateKey_def randFieldElement_def ReadFull_def Public_def split: prod.split)
  have D: "(case GenerateKey c x of Returns (Inr priv) \<Rightarrow> pv_D priv | _ \<Rightarrow> 0) = field_element c x"
    if "length x = element_bytes c" for x
    using that assms(1) by (simp add: GenerateKey_def randFieldElement_def ReadFull_def split: prod.split)
  have "k \<in> field_element c ` {seed. length seed = element_bytes c}" if "k \<in> {1..cv_N c - 1}" for k
  proof (rule image_eqI)
    have "(k - 1) mod 256 ^ element_bytes c = k - 1" using that assms(2) by simp
    then show "k = field_element c (fixed_bytes (element_bytes c) (k - 1))"
      using that assms(1) by (simp add: field_element_def be_int_fixed_bytes)
  qed simp
  then show "(\<lambda>rand. case GenerateKey c rand of Returns (Inr priv) \<Rightarrow> pv_D priv | _ \<Rightarrow> 0) ` {seed. length seed = element_bytes c}
     = {1..cv_N c - 1}"
    using b by (auto simp: D image_iff)
qed

theorem generated_keys_witness:
  "(\<lambda>rand. case GenerateKey mod7_curve rand of Returns (Inr priv) \<Rightarrow> pv_D priv | _ \<Rightarrow> 0) ` {seed. length seed = 9} = {1..6}"
  using generated_keys [of mod7_curve "[]"] by (simp add: mod7_curve_def element_bytes_def)

text \<open>
  C33: One key that \<open>GenerateKey\<close> produces, \<open>D\<close> equal to the order less 1, cannot sign with SM2, on a curve without an
  inverse of its own: \<open>D + 1\<close> is 0 modulo the order, its inverse by Fermat's method is 0, and so is every \<open>s\<close>. With this key and for every entropy,
  message, hash and stream cipher \<open>Sign\<close> gives the error of a short reader or the panic when \<open>Z\<close> cannot
  be formed, and otherwise does not return.
\<close>

theorem sign_diverges:
  assumes "IsSM2 (cv_params c)" "cv_Inverse c = None" "2 < cv_N c" "cv_N c \<le> 256 ^ element_bytes c"
  shows "\<exists>seed priv. length seed = element_bytes c \<and> GenerateKey c seed = Returns (Inr priv) \<and> pv_D priv = cv_N c - 1 \<and> pk_Curve (Public priv) = c
    \<and> (pk_X (Public priv), pk_Y (Public priv)) = cv_ScalarBaseMult c (big_Bytes (cv_N c - 1))
    \<and> (\<forall>sha512 aes_ctr entropy hash. Sign sha512 aes_ctr entropy priv hash
        = (if length entropy < entropy_bytes c then Some (Returns (Inl ReadFailed))
           else case GetE (Public priv) hash of None \<Rightarrow> Some Panics | Some e \<Rightarrow> None))"
proof -
  define seed where "seed = fixed_bytes (element_bytes c) (cv_N c - 2)"
  have "field_element c seed = cv_N c - 1"
    using assms(3,4) by (simp add: seed_def field_element_def be_int_fixed_bytes)
  then obtain priv where gen: "GenerateKey c seed = Returns (Inr priv)" and c: "pk_Curve (pv_PublicKey priv) = c"
    and D: "pv_D priv = cv_N c - 1" and P: "(pk_X (pv_PublicKey priv), pk_Y (pv_PublicKey priv)) = cv_ScalarBaseMult c (big_Bytes (cv_N c - 1))"
    using assms(3) by (simp add: GenerateKey_def randFieldElement_def ReadFull_def seed_def case_prod_beta)
  obtain n where n: "nat (cv_N c - 2) = Suc n" using assms(3) by (metis gr0_implies_Suc zero_less_nat_eq diff_gt_0_iff_gt)
  have "curve_inverse c (cv_N c) = 0" using assms(2) by (simp add: curve_inverse_def fermatInverse_def n)
  then have "sm2_attempt c (cv_N c - 1) e k = None" for e k by (simp add: sm2_attempt_def Let_def)
  then have "Sign sha512 aes_ctr entropy priv hash
      = (if length entropy < entropy_bytes c then Some (Returns (Inl ReadFailed))
         else case GetE (Public priv) hash of None \<Rightarrow> Some Panics | Some e \<Rightarrow> None)" for sha512 aes_ctr entropy hash
    using assms c D unfolding Sign_eq
    by (cases "GetE (pv_PublicKey priv) hash") (simp_all add: first_signature_def Public_def Let_def first_some_def)
  moreover have "length seed = element_bytes c" "pk_Curve (Public priv) = c"
    "(pk_X (Public priv), pk_Y (Public priv)) = cv_ScalarBaseMult c (big_Bytes (cv_N c - 1))" using c P by (simp_all add: seed_def Public_def)
  ultimately show ?thesis using gen D by blast
qed

theorem sign_diverges_witness:
  "\<exists>seed priv. length seed = 9 \<and> GenerateKey mod7_curve seed = Returns (Inr priv) \<and> pv_D priv = 6
    \<and> (\<forall>sha512 aes_ctr entropy hash. Sign sha512 aes_ctr entropy priv hash = None)"
proof -
  have m: "IsSM2 (cv_params mod7_curve)" "cv_Inverse mod7_curve = None" "2 < cv_N mod7_curve" "cv_N mod7_curve \<le> 256 ^ element_bytes mod7_curve"
    and n: "cv_N mod7_curve - 1 = 6" "entropy_bytes mod7_curve = 0" "element_bytes mod7_curve = 9"
    by (simp_all add: mod7_curve_def IsSM2_def element_bytes_def entropy_bytes_def)
  obtain seed priv where p: "length seed = 9" "GenerateKey mod7_curve seed = Returns (Inr priv)" "pv_D priv = 6" "pk_Curve (Public priv) = mod7_curve"
    "(pk_X (Public priv), pk_Y (Public priv)) = cv_ScalarBaseMult mod7_curve (big_Bytes 6)"
    and S: "\<And>sha512 aes_ctr entropy hash. Sign sha512 aes_ctr entropy priv hash
      = (if length entropy < 0 then Some (Returns (Inl ReadFailed)) else case GetE (Public priv) hash of None \<Rightarrow> Some Panics | Some e \<Rightarrow> None)"
    using sign_diverges [OF m] unfolding n by blast
  have "pk_X (Public priv) = be_int (big_Bytes 6) mod 7" "pk_Y (Public priv) = 0" using p(5) by (simp_all add: mod7_curve_def)
  then have "\<exists>e. GetE (Public priv) hash = Some e" for hash
    by (intro GetE_Some) (simp add: z_numbers_def p(4) Let_def, simp add: mod7_curve_def order_less_trans [OF pos_mod_bound])
  then have "Sign sha512 aes_ctr entropy priv hash = None" for sha512 aes_ctr entropy hash unfolding S by (metis less_nat_zero_code option.simps(5))
  then show ?thesis using p(1-3) by blast
qed

text \<open>
  C34: The identity digest is the SM3 digest of the standard over the length of the identity in bits, the identity
  and the six numbers in 32 bytes each, and a panic when one of them needs more; the length is kept modulo \<open>2\<^sup>16\<close>.
  \<open>GetEWithID\<close> hashes it with the message, and \<open>getZBefore\<close> is the message of the digest up to the two
  coordinates of the key, for the SM2 curve and an identity that is not empty.
\<close>

theorem identity_digest:
  "GetZWithID key uid = (if list_all (\<lambda>x. \<bar>x\<bar> < 256 ^ 32) (z_numbers key) then Some (std_sm3 (z_message key uid)) else None)
   \<and> be_int (take 2 (z_message key uid)) = int (8 * length uid) mod 2 ^ 16
   \<and> GetEWithID key msg uid = map_option (\<lambda>z. be_int (std_sm3 (z @ msg))) (GetZWithID key uid)
   \<and> (case getZBefore (b # bs) of None \<Rightarrow> False | Some m \<Rightarrow>
        z_message (key\<lparr>pk_Curve := (pk_Curve key)\<lparr>cv_params := sm2_params\<rparr>\<rparr>) (b # bs)
          = m @ fixed_bytes 32 \<bar>pk_X key\<bar> @ fixed_bytes 32 \<bar>pk_Y key\<bar>)"
proof (intro conjI)
  have len: "length (sm3_hash m) = 32" for m
    by (rule length_sm3_hash)
  show "GetZWithID key uid = (if list_all (\<lambda>x. \<bar>x\<bar> < 256 ^ 32) (z_numbers key) then Some (std_sm3 (z_message key uid)) else None)"
    by (simp add: GetZWithID_eq sm3_hash_std)
  show "be_int (take 2 (z_message key uid)) = int (8 * length uid) mod 2 ^ 16"
    by (simp add: z_message_def be_int_entl_bytes mult.commute)
  show "GetEWithID key msg uid = map_option (\<lambda>z. be_int (std_sm3 (z @ msg))) (GetZWithID key uid)"
    by (cases "GetZWithID key uid") (simp_all add: GetEWithID_def msgHash_def sm3_writes_eq len flip: sm3_hash_std)
  show "case getZBefore (b # bs) of None \<Rightarrow> False | Some m \<Rightarrow>
        z_message (key\<lparr>pk_Curve := (pk_Curve key)\<lparr>cv_params := sm2_params\<rparr>\<rparr>) (b # bs)
          = m @ fixed_bytes 32 \<bar>pk_X key\<bar> @ fixed_bytes 32 \<bar>pk_Y key\<bar>"
    by (simp add: getZBefore_def z_message_def z_numbers_def big2Bytes_def padded_bytes_eq sm2_params_def Let_def)
qed

end
