(* ===== verification/Spec2Isabelle.thy ===== *)
theory Spec2Isabelle
  imports Prelude Sm4 Sm3 Sm9_Mul Sm9_Pairing Sm9_Elliptic Sm2_Chain Tls_Ticket Tls_Suites Tls_Handshake Ecdsa Crypto_Registry
begin

text \<open>
  A verification development for newcryptosm, a Go library of the Chinese national cryptographic
  algorithms.

  The program. Packages \<open>sm3\<close> (hash) and \<open>sm4\<close> (block cipher) are self-contained. Package \<open>sm9\<close>
  is a pairing library: a 256-bit Montgomery field (\<open>gfp.go\<close>), the tower \<open>gfP2\<close>, \<open>gfP6\<close>, \<open>gfP12\<close>
  over it, the curve and its twist, the R-ate pairing and the groups \<open>G1\<close>, \<open>G2\<close>, \<open>GT\<close>. Package
  \<open>sm2\<close> implements the SM2 curve (\<open>sm2.go\<close>: nine limbs of 29 and 28 bits, Jacobian points, windows of
  the scalar), and \<open>ecdsa\<close> the SM2 signature on top of an \<open>elliptic.Curve\<close> and of \<open>sm3\<close>.
  \<open>cryptosm.go\<close> is the registry of hash functions. Package \<open>tls\<close> is TLS with the SM2, SM3 and SM4
  suites: the record layer (\<open>conn.go\<close>), the key schedule (\<open>prf.go\<close>), the suites
  (\<open>cipher_suites.go\<close>), session tickets (\<open>ticket.go\<close>) and the encoding of the handshake messages
  (\<open>handshake_messages.go\<close>), below the state machines of the handshake.

  The theories, and what their lemmas show.

    Prelude    machine words, big-endian conversions, rotations, the interface of \<open>hash.Hash\<close>

    Sm4        package \<open>sm4\<close>: tables, key schedule, block functions, the \<open>cipher.Block\<close> methods; decryption
               inverts encryption, the tables compute the round function of the standard

    Sm3        package \<open>sm3\<close>: the compression loop and the streaming object; \<open>Sum\<close> is the hash of the
               standard, whatever the way the input is cut into writes

    Limbs, Ring_Impl, Sm9_Spec    arithmetic on arrays of words, the interface of a ring
               implementation, and the field and tower of SM9 as mathematics

    Sm9_Field, Sm9_Tower          \<open>gfp.go\<close>, \<open>gfp_generic.go\<close>, \<open>gfp2.go\<close>, \<open>gfp6.go\<close>, \<open>gfp12.go\<close>: every
               operation refines the one of the field it represents

    Jacobian, Sm9_Curve           Jacobian coordinates; the points of \<open>curve.go\<close> and their group law

    Sm9_Scalar, Sm9_Mul           the scalar multiplications of \<open>curve.go\<close>

    Sm9_Twist, Sm9_Miller, Sm9_Pairing  \<open>twist.go\<close> and \<open>rate.go\<close>: the points of G2, the line functions,
               the Miller loop, the final exponentiation and the pairing

    Big_Bytes  integers as big-endian byte strings, modular inverses

    Sm9_Groups, Sm9_Elliptic  \<open>sm9.go\<close>, \<open>elliptic.go\<close>, \<open>curve_interface.go\<close>: the groups and their encodings, the
               curve behind \<open>elliptic.Curve\<close>, point compression, the table of a point

    Sm2_Field, Sm2_Reduction, Sm2_Mul, Sm2_Elem  \<open>sm2.go\<close>, the field: limbs and their bounds, the carry
               chains, the reduction of a product, and the conversions; which inputs keep a
               product exact and an input for which the reduction loses it

    Sm2_Point, Sm2_Law, Sm2_Scalar, Sm2_Chain  \<open>sm2.go\<close>, the points: doubling, addition, mixed addition,
               the windows of a scalar, and the multiplication; a chain of additions is the multiple
               of the point as long as no step meets an exceptional case of the formulas

    Ecdsa      \<open>ecdsa.go\<close>, \<open>sm2_z.go\<close>: keys, the identity digest, signing and verification, SM2 and ECDSA

    Tls_Record, Tls_Protect       \<open>conn.go\<close>: one half of a connection: sequence number, padding, \<open>encrypt\<close> and
               \<open>decrypt\<close>; a record that one half protects is opened by the matching half

    Tls_Conn, Tls_Stream          \<open>conn.go\<close>: records, alerts and \<open>Write\<close> on a connection, \<open>readRecord\<close> of the peer;
               what is written arrives, in order, and the ends stay in step

    Tls_Prf    \<open>prf.go\<close>: the pseudo-random functions, the master secret and the keys, the handshake hash

    Tls_Suites \<open>cipher_suites.go\<close> and \<open>establishKeys\<close> of both handshakes: the table of suites, its
               ciphers, MACs and AEADs; the two ends of every suite match

    Tls_Ticket \<open>ticket.go\<close>: session state, its encoding and the encrypted tickets

    Tls_Codec, Tls_Messages, Tls_Hello  \<open>handshake_messages.go\<close>: the thirteen types of handshake
               messages, their \<open>marshal\<close>, \<open>unmarshal\<close> and \<open>equal\<close>; the locale \<open>handshake_codec\<close> is the contract
               of a message type (the header carries the length of the body, and an object that is
               parsed from what \<open>marshal\<close> wrote has the same fields), interpreted for each of them

    Tls_Handshake  \<open>readHandshake\<close> of \<open>conn.go\<close>: the loop over the records, the choice of the
               message type and the alerts; a written message is the one that is read, and what
               follows it stays in the buffer

    Crypto_Registry  \<open>cryptosm.go\<close>: identifiers, sizes and constructors of hash functions

  Representation. A fixed array of limbs or words is a list of words of its length, a slice of bytes a
  list of 8-bit words. An object that methods mutate is a record that they return updated, and an error
  a value of a sum or option; \<open>None\<close> is also the panic of the source where the texts say so. A field
  element of \<open>sm2\<close> is a list of nine 32-bit words whose value is read with the widths 29, 28, 29, ...;
  every product of limbs is a 64-bit word, and the lemmas bound each intermediate sum. Code of other packages is an
  argument: the hash functions and HMAC of the key schedule (\<open>hash_lib\<close>), the ciphers of the suites
  (\<open>suite_lib\<close>), the ticket cipher, the elliptic curve and the random source of the signature. What the
  properties assume of them is named (\<open>hash_lib_ok\<close>, \<open>suite_lib_ok\<close>, \<open>dual_cipher\<close>) and each witness instantiates it.

  Bounds. The padding of a record is read for payloads shorter than \<open>2 ^ 30\<close> bytes, records are shorter than
  \<open>2 ^ 29\<close> bytes, and a half stops before its sequence number of 64 bits returns to zero (the panic
  of \<open>incSeq\<close>). \<open>prf30\<close> gives 176 bytes (eleven rounds of its labels), which covers the keys of each suite. The SM2 field
  has the conditions under which no borrow meets an empty limb; the scalar multiplication of SM2 has
  the multiples near the order at which an addition meets a point and its equal or its negative as
  hypotheses or exceptions. The signing loops, which reject nonces, are partial functions or carry
  the list of nonces; that they return is proved for the nonces that the source would accept.
  The read loop of a connection consumes its input, so that it needs no fuel.

  Not modelled.

    \<open>sm2_amd64.go\<close> and the assembly of \<open>sm2\<close> and \<open>sm9\<close>: the portable code is the model.

    The contents of the precomputed table of \<open>sm2\<close>, and so that the multiplication of the base
               point by means of the comb is the multiple: the definitions take the table of the source, the lemmas the
               well-formedness of what it holds.

    Package \<open>tls\<close> above the record layer and the messages: key agreement, the client and the server state machines, \<open>Read\<close>,
               \<open>Close\<close>, renegotiation and the configuration. They depend on certificates of \<open>x509\<close> and on locks and
               timeouts of a network connection.

    Package \<open>x509\<close> (a fork of crypto/x509 over encoding/asn1) and package \<open>http\<close> (a fork of net/http): input and output, and
               parsing by libraries that are not in this repository.

    Timing and the erasure of secrets.
\<close>

end
